(* ===== verification/Prelude.thy ===== *)
theory Prelude
  imports Main "HOL-Library.Word" "HOL-Library.Monad_Syntax"
begin

text \<open>
  Shared vocabulary of the development: the machine integers of the target
  (a 32-bit ARM, so \<open>usize\<close> and pointers are 32 bits wide), checked slice
  access, the bit tricks the drivers use (\<open>trailing_zeros\<close>, read-modify-write of
  bit-fields) and the lemmas about them that every component needs.

  Conventions.  Arithmetic is that of the release profile, where \<open>+\<close>, \<open>-\<close> and
  \<open>*\<close> wrap around, so machine integers are words.  A function whose result is an
  \<open>option\<close> returns \<^term>\<open>None\<close> when the call does not return: a panic (the profile
  aborts, and the panic handler of a bare-metal image loops) or an endless loop.  A Rust
  \<open>Result\<close> is a sum, \<^term>\<open>Inl\<close> the error.
\<close>

unbundle bit_operations_syntax

type_synonym u8 = "8 word"
type_synonym u16 = "16 word"
type_synonym u32 = "32 word"
type_synonym u64 = "64 word"
type_synonym usize = "32 word"
type_synonym i32 = "32 word"

named_theorems reg_addrs \<open>constants that are unfolded to compare addresses of registers\<close>

section \<open>Checked slices\<close>

text \<open>\<open>xs[i]\<close> and \<open>xs[i] = v\<close>: an index out of range panics.\<close>

definition slice_get :: "'a list \<Rightarrow> nat \<Rightarrow> 'a option" where
  "slice_get xs i = (if i < length xs then Some (xs ! i) else None)"

definition slice_set :: "'a list \<Rightarrow> nat \<Rightarrow> 'a \<Rightarrow> 'a list option" where
  "slice_set xs i v = (if i < length xs then Some (xs[i := v]) else None)"

definition assert_that :: "bool \<Rightarrow> unit option" where
  "assert_that b = (if b then Some () else None)"

lemma slice_get_in [simp]: "i < length xs \<Longrightarrow> slice_get xs i = Some (xs ! i)"
  by (simp add: slice_get_def)

lemma slice_get_out [simp]: "\<not> i < length xs \<Longrightarrow> slice_get xs i = None"
  by (simp add: slice_get_def)

lemma slice_set_in [simp]: "i < length xs \<Longrightarrow> slice_set xs i v = Some (xs[i := v])"
  by (simp add: slice_set_def)

lemma slice_set_out [simp]: "\<not> i < length xs \<Longrightarrow> slice_set xs i v = None"
  by (simp add: slice_set_def)

lemma slice_get_SomeD: "slice_get xs i = Some v \<Longrightarrow> i < length xs \<and> v = xs ! i"
  by (auto simp: slice_get_def split: if_splits)

lemma assert_that_simps [simp]: "assert_that True = Some ()" "assert_that False = None"
  by (simp_all add: assert_that_def)

section \<open>Bits of machine words\<close>

text \<open>\<open>1 << n\<close> at type \<open>u32\<close>.  The shift amount of the release profile is taken
  modulo 32, as the ARM code generated for a masked shift does.\<close>

definition bitm :: "nat \<Rightarrow> u32" where
  "bitm n = push_bit (n mod 32) 1"

lemma bit_bitm [bit_simps]: "bit (bitm n) k \<longleftrightarrow> k = n mod 32"
  by (auto simp: bitm_def bit_simps)

text \<open>\<open>u32::trailing_zeros\<close> (32 for zero) and \<open>u32::count_ones\<close>.\<close>

definition trailing_zeros :: "u32 \<Rightarrow> nat" where
  "trailing_zeros w = (case find (bit w) [0..<32] of Some n \<Rightarrow> n | None \<Rightarrow> 32)"

definition count_ones :: "u32 \<Rightarrow> nat" where
  "count_ones w = length (filter (bit w) [0..<32])"

lemma unat_u32: "unat (x :: u32) < 2 ^ 32"
  using unsigned_less [of x] by simp

lemma unat_of_nat_u32: "n < 2 ^ 32 \<Longrightarrow> unat (word_of_nat n :: u32) = n"
  by (simp add: unsigned_of_nat take_bit_nat_eq_self)

lemma unat_plus_u32: "unat x + unat y < 2 ^ 32 \<Longrightarrow> unat ((x :: u32) + y) = unat x + unat y"
  by (simp add: unat_word_ariths)

lemma unat_minus_u32: "y \<le> x \<Longrightarrow> unat ((x :: u32) - y) = unat x - unat y"
  by (simp add: unat_sub word_le_nat_alt)

lemma bit_u32_len: "bit (w :: u32) n \<Longrightarrow> n < 32"
  using bit_imp_le_length [of w n] by simp

lemma u32_eq_0_iff: "(w :: u32) = 0 \<longleftrightarrow> (\<forall>n<32. \<not> bit w n)"
  by (auto simp: bit_eq_iff dest: bit_u32_len)

lemma trailing_zeros_lt:
  assumes "w \<noteq> 0"
  shows "trailing_zeros w < 32" and "bit w (trailing_zeros w)"
    and "k < trailing_zeros w \<Longrightarrow> \<not> bit w k"
proof -
  from assms obtain n where n: "n < 32" "bit w n" by (auto simp: u32_eq_0_iff)
  then have "find (bit w) [0..<32] \<noteq> None" by (auto simp: find_None_iff)
  then obtain m where m: "find (bit w) [0..<32] = Some m" by blast
  then have tz: "trailing_zeros w = m" by (simp add: trailing_zeros_def)
  from m obtain i where i: "i < 32" "[0..<32] ! i = m" "bit w m" "\<forall>j<i. \<not> bit w ([0..<32] ! j)"
    by (auto simp: find_Some_iff)
  then have im: "i = m" by (metis add_0 nth_upt)
  from i im tz show "trailing_zeros w < 32" "bit w (trailing_zeros w)" by auto
  show "k < trailing_zeros w \<Longrightarrow> \<not> bit w k" using i im tz by simp
qed

lemma trailing_zeros_0 [simp]: "trailing_zeros 0 = 32"
proof -
  have "find (bit (0::u32)) [0..<32] = None" by (simp add: find_None_iff)
  then show ?thesis by (simp add: trailing_zeros_def)
qed

lemma trailing_zeros_eqI:
  assumes "bit w n" "\<And>k. k < n \<Longrightarrow> \<not> bit w k"
  shows "trailing_zeros w = n"
proof -
  have "w \<noteq> 0" using assms(1) by auto
  from trailing_zeros_lt [OF this] assms show ?thesis by (meson linorder_neqE_nat)
qed

text \<open>Clearing the low bits rounds down to a multiple.\<close>

lemma unat_clear_low: "unat ((x :: u32) AND NOT (mask k)) = unat x div 2 ^ k * 2 ^ k"
proof -
  have "unat (x AND NOT (mask k)) = push_bit k (drop_bit k (unat x))"
    by (rule bit_eqI) (auto simp: bit_simps dest: bit_u32_len)
  then show ?thesis by (simp add: push_bit_eq_mult drop_bit_eq_div)
qed

section \<open>Bit-fields\<close>

text \<open>A field of \<open>w\<close> bits at offset \<open>o\<close>: read with \<open>(r >> o) & (2^w - 1)\<close>,
  written with \<open>(r & !((2^w - 1) << o)) | (v << o)\<close>.\<close>

definition get_field :: "nat \<Rightarrow> u32 \<Rightarrow> u32 \<Rightarrow> u32" where
  "get_field off msk r = drop_bit off r AND msk"

definition put_field :: "nat \<Rightarrow> u32 \<Rightarrow> u32 \<Rightarrow> u32 \<Rightarrow> u32" where
  "put_field off msk v r = (r AND NOT (push_bit off msk)) OR push_bit off v"

lemma and_mask_small: "unat (w :: u32) < 2 ^ k \<Longrightarrow> w AND mask k = w"
proof -
  assume "unat w < 2 ^ k"
  then have "take_bit k w = w"
    by (intro unsigned_word_eqI [where 'a = nat]) (simp add: unsigned_take_bit_eq take_bit_nat_eq_self)
  then show ?thesis by (simp add: take_bit_eq_mask)
qed

lemma small_bit: "unat (w :: u32) < 2 ^ k \<Longrightarrow> bit w i \<Longrightarrow> i < k"
  using and_mask_small [of w k] by (metis bit_and_iff bit_mask_iff)

text \<open>The simplifier reads a bit of a numeral word off the integer numeral.\<close>

lemma mask_bits [bit_simps]:
  "bit (3 :: int) n \<longleftrightarrow> n < 2" "bit (7 :: int) n \<longleftrightarrow> n < 3"
  "bit (15 :: int) n \<longleftrightarrow> n < 4" "bit (31 :: int) n \<longleftrightarrow> n < 5"
  "bit (127 :: int) n \<longleftrightarrow> n < 7" "bit (255 :: int) n \<longleftrightarrow> n < 8"
  "bit (65535 :: int) n \<longleftrightarrow> n < 16"
  using bit_mask_iff [where 'a = int, of 2 n] bit_mask_iff [where 'a = int, of 3 n]
    bit_mask_iff [where 'a = int, of 4 n] bit_mask_iff [where 'a = int, of 5 n]
    bit_mask_iff [where 'a = int, of 7 n] bit_mask_iff [where 'a = int, of 8 n]
    bit_mask_iff [where 'a = int, of 16 n]
  by (simp_all add: mask_eq_exp_minus_1)

lemma pow2_bits [bit_simps]:
  "bit (2 :: int) n \<longleftrightarrow> n = 1" "bit (4 :: int) n \<longleftrightarrow> n = 2" "bit (8 :: int) n \<longleftrightarrow> n = 3"
  using bit_push_bit_iff [where 'a = int, of 1 1 n] bit_push_bit_iff [where 'a = int, of 2 1 n]
    bit_push_bit_iff [where 'a = int, of 3 1 n]
  by (auto simp: push_bit_eq_mult bit_1_iff)

lemma get_put_field:
  assumes "v AND msk = v" and "push_bit off msk = (push_bit off msk :: u32)"
    and "\<And>n. bit msk n \<Longrightarrow> n + off < 32"
  shows "get_field off msk (put_field off msk v r) = v"
proof (rule bit_eqI)
  fix n assume "possible_bit TYPE(32 word) n"
  then have n: "n < 32" by simp
  have v: "bit v n \<Longrightarrow> bit msk n" using assms(1) by (metis bit_and_iff)
  show "bit (get_field off msk (put_field off msk v r)) n = bit v n"
    using n v assms(3) [of n]
    by (auto simp: get_field_def put_field_def bit_simps)
qed

end
