(* ===== verification/Memory.thy ===== *)
theory Memory
  imports Prelude
begin

text \<open>
  Main memory as the CPU sees it: one byte per 32-bit address, and the aligned
  little-endian 32-bit loads and stores the code's pointer accesses compile to.  The
  locale \<open>word_store\<close> is the interface the allocator relies on: a store is seen by a
  load of the same cell and by no load of a cell apart from it.
\<close>

type_synonym memory = "u32 \<Rightarrow> u8"

definition ld32 :: "memory \<Rightarrow> u32 \<Rightarrow> u32" where
  "ld32 m a = word_of_nat (unat (m a) + 2^8 * unat (m (a + 1)) +
     2^16 * unat (m (a + 2)) + 2^24 * unat (m (a + 3)))"

definition st32 :: "memory \<Rightarrow> u32 \<Rightarrow> u32 \<Rightarrow> memory" where
  "st32 m a v = m(a := word_of_nat (unat v), a + 1 := word_of_nat (unat v div 2^8),
     a + 2 := word_of_nat (unat v div 2^16), a + 3 := word_of_nat (unat v div 2^24))"

text \<open>\<open>ptr::write_bytes\<close> and \<open>ptr::copy_nonoverlapping\<close>, byte by byte.\<close>

fun write_bytes :: "u32 \<Rightarrow> u8 \<Rightarrow> nat \<Rightarrow> memory \<Rightarrow> memory" where
  "write_bytes p b 0 m = m"
| "write_bytes p b (Suc n) m = write_bytes (p + 1) b n (m(p := b))"

fun copy_bytes :: "u32 \<Rightarrow> u32 \<Rightarrow> nat \<Rightarrow> memory \<Rightarrow> memory" where
  "copy_bytes src dst 0 m = m"
| "copy_bytes src dst (Suc n) m = copy_bytes (src + 1) (dst + 1) n (m(dst := m src))"

section \<open>Cells\<close>

definition apart :: "u32 \<Rightarrow> u32 \<Rightarrow> bool" where
  "apart a b \<longleftrightarrow> 4 \<le> b - a \<and> 4 \<le> a - b"

lemma apart_sym: "apart a b = apart b a"
  by (auto simp: apart_def)

lemma apartI_below:
  assumes "unat a + 4 \<le> unat b"  "unat b + 4 \<le> 2 ^ 32"
  shows "apart a b" "apart b a"
proof -
  have "unat (b - a) = unat b - unat a" using assms by (simp add: unat_sub_if')
  moreover have "unat (a - b) = 2 ^ 32 + unat a - unat b" using assms by (simp add: unat_sub_if')
  ultimately show "apart a b" "apart b a"
    using assms by (auto simp: apart_def word_le_nat_alt)
qed

lemma u32_small_offsets:
  "(1::u32) \<noteq> 0" "(2::u32) \<noteq> 0" "(3::u32) \<noteq> 0" "(2::u32) \<noteq> 1" "(3::u32) \<noteq> 1" "(3::u32) \<noteq> 2"
  by simp_all

lemma apart_bytes:
  assumes "apart a b" "i < 4" "j < 4"
  shows "b + word_of_nat j \<noteq> a + word_of_nat i"
proof
  assume eq: "b + word_of_nat j = a + word_of_nat i"
  then have 1: "b - a = word_of_nat i - word_of_nat j" by (simp add: algebra_simps)
  then have 2: "a - b = word_of_nat j - word_of_nat i" by (metis minus_diff_eq)
  have "i \<in> {0, 1, 2, 3}" "j \<in> {0, 1, 2, 3}" using assms(2,3) by auto
  then show False using assms(1) 1 2 by (auto simp: apart_def word_le_nat_alt)
qed

lemma st32_other:
  assumes "4 \<le> x - a"
  shows "st32 m a v x = m x"
proof -
  have "x \<noteq> a" "x \<noteq> a + 1" "x \<noteq> a + 2" "x \<noteq> a + 3"
    using assms by (auto simp: word_le_nat_alt)
  then show ?thesis by (simp add: st32_def)
qed

lemma st32_outside:
  assumes "unat x < unat a \<or> unat a + 4 \<le> unat x" "unat a + 4 \<le> 2 ^ 32"
  shows "st32 m a v x = m x"
proof (rule st32_other)
  have "4 \<le> unat (x - a)" using assms unat_u32 [of x] by (auto simp: unat_sub_if')
  then show "4 \<le> x - a" by (simp add: word_le_nat_alt)
qed

locale word_store =
  fixes ld :: "'m \<Rightarrow> u32 \<Rightarrow> u32" and st :: "'m \<Rightarrow> u32 \<Rightarrow> u32 \<Rightarrow> 'm"
  assumes ld_st_same: "ld (st m a v) a = v"
    and ld_st_apart: "apart a b \<Longrightarrow> ld (st m a v) b = ld m b"
begin

lemma ld_st_below:
  "unat a + 4 \<le> unat b \<Longrightarrow> unat b + 4 \<le> 2 ^ 32 \<Longrightarrow> ld (st m a v) b = ld m b"
  by (rule ld_st_apart) (rule apartI_below)

lemma ld_st_above:
  "unat b + 4 \<le> unat a \<Longrightarrow> unat a + 4 \<le> 2 ^ 32 \<Longrightarrow> ld (st m a v) b = ld m b"
  by (rule ld_st_apart) (rule apartI_below)

end

lemma split_bytes:
  fixes n :: nat
  shows "n mod 256 + 256 * (n div 256 mod 256) + 65536 * (n div 65536 mod 256) +
    16777216 * (n div 16777216) = n"
proof -
  define q1 q2 q3 where q: "q1 = n div 256" "q2 = q1 div 256" "q3 = q2 div 256"
  have "n = 256 * q1 + n mod 256" "q1 = 256 * q2 + q1 mod 256" "q2 = 256 * q3 + q2 mod 256"
    unfolding q by (simp_all only: mult_div_mod_eq)
  then have "n mod 256 + 256 * (q1 mod 256) + 65536 * (q2 mod 256) + 16777216 * q3 = n"
    by linarith
  moreover have "n div 65536 = q2" "n div 16777216 = q3"
    unfolding q by (simp_all add: div_mult2_eq [symmetric])
  ultimately show ?thesis using q(1) by simp
qed

interpretation mem: word_store ld32 st32
proof
  fix m :: memory and a b v :: u32
  have n: "a + 1 \<noteq> a" "a + 2 \<noteq> a" "a + 3 \<noteq> a" "a + 2 \<noteq> a + 1" "a + 3 \<noteq> a + 1" "a + 3 \<noteq> a + 2"
    by (simp_all)
  have 1: "unat v div 16777216 mod 256 = unat v div 16777216" using unat_u32 [of v] by simp
  have "word_of_nat (unat v mod 256 + 256 * (unat v div 256 mod 256) +
    65536 * (unat v div 65536 mod 256) + 16777216 * (unat v div 16777216)) = v"
    by (subst split_bytes) simp
  then show "ld32 (st32 m a v) a = v"
    using n 1 by (simp add: ld32_def st32_def unat_of_nat del: of_nat_add of_nat_mult of_nat_unat)
  assume ap: "apart a b"
  have "st32 m a v (b + word_of_nat j) = m (b + word_of_nat j)" if "j < 4" for j
    using apart_bytes [OF ap _ that, of 0] apart_bytes [OF ap _ that, of 1]
      apart_bytes [OF ap _ that, of 2] apart_bytes [OF ap _ that, of 3]
    by (simp add: st32_def)
  from this [of 0] this [of 1] this [of 2] this [of 3]
  show "ld32 (st32 m a v) b = ld32 m b" by (simp add: ld32_def)
qed

lemmas ld32_st32 [simp] = mem.ld_st_same

end
