(* ===== verification/Cpu.thy ===== *)
theory Cpu
  imports Prelude
begin

text \<open>
  \<open>cpu.rs\<close>: the processor-mode constants, masking of interrupts through the CPSR
  (\<open>interrupt_disable\<close>, \<open>interrupt_enable\<close>) and the CP15 operations, the latter as
  a register record with a log of the maintenance operations issued.
\<close>

section \<open>CPSR\<close>

definition MODE_USR :: u32 where "MODE_USR = 0x10"
definition MODE_FIQ :: u32 where "MODE_FIQ = 0x11"
definition MODE_IRQ :: u32 where "MODE_IRQ = 0x12"
definition MODE_SVC :: u32 where "MODE_SVC = 0x13"
definition MODE_ABT :: u32 where "MODE_ABT = 0x17"
definition MODE_UND :: u32 where "MODE_UND = 0x1B"
definition MODE_SYS :: u32 where "MODE_SYS = 0x1F"
definition MODE_MASK :: u32 where "MODE_MASK = 0x1F"
definition NOINT :: u32 where "NOINT = 0xC0"
definition I_BIT :: u32 where "I_BIT = 0x80"
definition F_BIT :: u32 where "F_BIT = 0x40"

text \<open>\<open>msr cpsr_c, r\<close> writes the control byte, bits 7 to 0, of the CPSR.\<close>

definition msr_cpsr_c :: "u32 \<Rightarrow> u32 \<Rightarrow> u32" where
  "msr_cpsr_c r cpsr = (cpsr AND NOT 0xFF) OR (r AND 0xFF)"

text \<open>Both return the new CPSR; \<open>interrupt_disable\<close> also the value it read.\<close>

definition interrupt_disable :: "u32 \<Rightarrow> u32 \<times> u32" where
  "interrupt_disable cpsr = (cpsr, msr_cpsr_c (cpsr OR NOINT) cpsr)"

definition interrupt_enable :: "u32 \<Rightarrow> u32 \<Rightarrow> u32" where
  "interrupt_enable saved cpsr = msr_cpsr_c saved cpsr"

definition interrupts_enabled :: "u32 \<Rightarrow> bool" where
  "interrupts_enabled cpsr \<longleftrightarrow> cpsr AND I_BIT = 0"

lemma bit_C0 [bit_simps]: "bit (192 :: int) n \<longleftrightarrow> n = 6 \<or> n = 7"
  using bit_push_bit_iff [where 'a = int, of 6 3 n]
  by (auto simp: push_bit_eq_mult mask_bits)

lemma bit_80 [bit_simps]: "bit (128 :: int) n \<longleftrightarrow> n = 7"
  using bit_push_bit_iff [where 'a = int, of 7 1 n]
  by (auto simp: push_bit_eq_mult bit_1_iff)

lemma interrupt_disable_eq [simp]: "interrupt_disable cpsr = (cpsr, cpsr OR NOINT)"
proof -
  have "msr_cpsr_c (cpsr OR NOINT) cpsr = cpsr OR NOINT"
    by (rule bit_word_eqI) (auto simp: msr_cpsr_c_def NOINT_def bit_simps)
  then show ?thesis by (simp add: interrupt_disable_def)
qed

text \<open>A critical section gives the CPSR back: what the body left in the flags stays.\<close>

lemma interrupt_enable_restores [simp]: "interrupt_enable c (c OR NOINT) = c"
  by (rule bit_word_eqI) (auto simp: interrupt_enable_def msr_cpsr_c_def NOINT_def bit_simps)

lemma interrupt_enable_same [simp]: "interrupt_enable c c = c"
  by (rule bit_word_eqI) (auto simp: interrupt_enable_def msr_cpsr_c_def bit_simps)

lemma interrupts_masked: "\<not> interrupts_enabled (c OR NOINT)"
proof -
  have "bit ((c OR NOINT) AND I_BIT) 7"
    by (simp add: NOINT_def I_BIT_def bit_simps)
  then show ?thesis unfolding interrupts_enabled_def by auto
qed

section \<open>CP15\<close>

datatype cp15_op =
    InvalidateIcache | InvalidateDcacheAll | InvalidateCaches | InvalidateTlb
  | InvalidateDcacheMva u32 | CleanDcacheMva u32 | CleanInvalidateDcacheMva u32
  | CleanInvalidateDcacheIndex u32 | Dsb | Dmb | Isb | Wfi
  | WriteCtrl u32 | WriteTtbr0 u32 | WriteDacr u32

record cp15 =
  c1_ctrl :: u32
  c2_ttbr0 :: u32
  c3_dacr :: u32
  cp15_ops :: "cp15_op list" \<comment> \<open>latest first\<close>

definition issue :: "cp15_op \<Rightarrow> cp15 \<Rightarrow> cp15" where
  "issue opn c = c\<lparr>cp15_ops := opn # cp15_ops c\<rparr>"

definition cp15_read_ctrl :: "cp15 \<Rightarrow> u32" where "cp15_read_ctrl c = c1_ctrl c"
definition cp15_read_ttbr0 :: "cp15 \<Rightarrow> u32" where "cp15_read_ttbr0 c = c2_ttbr0 c"
definition cp15_read_dacr :: "cp15 \<Rightarrow> u32" where "cp15_read_dacr c = c3_dacr c"

definition cp15_write_ctrl :: "u32 \<Rightarrow> cp15 \<Rightarrow> cp15" where
  "cp15_write_ctrl v c = issue (WriteCtrl v) (c\<lparr>c1_ctrl := v\<rparr>)"
definition cp15_write_ttbr0 :: "u32 \<Rightarrow> cp15 \<Rightarrow> cp15" where
  "cp15_write_ttbr0 v c = issue (WriteTtbr0 v) (c\<lparr>c2_ttbr0 := v\<rparr>)"
definition cp15_write_dacr :: "u32 \<Rightarrow> cp15 \<Rightarrow> cp15" where
  "cp15_write_dacr v c = issue (WriteDacr v) (c\<lparr>c3_dacr := v\<rparr>)"

definition invalidate_icache :: "cp15 \<Rightarrow> cp15" where "invalidate_icache = issue InvalidateIcache"
definition invalidate_dcache_all :: "cp15 \<Rightarrow> cp15" where "invalidate_dcache_all = issue InvalidateDcacheAll"
definition invalidate_caches :: "cp15 \<Rightarrow> cp15" where "invalidate_caches = issue InvalidateCaches"
definition invalidate_tlb :: "cp15 \<Rightarrow> cp15" where "invalidate_tlb = issue InvalidateTlb"
definition invalidate_dcache_mva :: "u32 \<Rightarrow> cp15 \<Rightarrow> cp15" where
  "invalidate_dcache_mva a = issue (InvalidateDcacheMva a)"
definition clean_dcache_mva :: "u32 \<Rightarrow> cp15 \<Rightarrow> cp15" where
  "clean_dcache_mva a = issue (CleanDcacheMva a)"
definition clean_invalidate_dcache_mva :: "u32 \<Rightarrow> cp15 \<Rightarrow> cp15" where
  "clean_invalidate_dcache_mva a = issue (CleanInvalidateDcacheMva a)"
definition clean_invalidate_dcache_index :: "u32 \<Rightarrow> cp15 \<Rightarrow> cp15" where
  "clean_invalidate_dcache_index i = issue (CleanInvalidateDcacheIndex i)"
definition dsb :: "cp15 \<Rightarrow> cp15" where "dsb = issue Dsb"
definition dmb :: "cp15 \<Rightarrow> cp15" where "dmb = issue Dmb"
definition isb :: "cp15 \<Rightarrow> cp15" where "isb = issue Isb"
definition wfi :: "cp15 \<Rightarrow> cp15" where "wfi = issue Wfi"

definition MMU_ENABLE :: u32 where "MMU_ENABLE = bitm 0"
definition ALIGN_FAULT :: u32 where "ALIGN_FAULT = bitm 1"
definition DCACHE_ENABLE :: u32 where "DCACHE_ENABLE = bitm 2"
definition ICACHE_ENABLE :: u32 where "ICACHE_ENABLE = bitm 12"

lemmas cp15_defs = issue_def cp15_read_ctrl_def cp15_read_ttbr0_def cp15_read_dacr_def
  cp15_write_ctrl_def cp15_write_ttbr0_def cp15_write_dacr_def invalidate_icache_def
  invalidate_dcache_all_def invalidate_caches_def invalidate_tlb_def
  invalidate_dcache_mva_def clean_dcache_mva_def clean_invalidate_dcache_mva_def
  clean_invalidate_dcache_index_def dsb_def dmb_def isb_def wfi_def

end
