(* ===== verification/Allocator.thy ===== *)
theory Allocator
  imports Memory Cpu
begin

text \<open>
  \<open>allocator.rs\<close>: the linked-list first-fit heap behind \<open>GlobalAlloc\<close>.  The state is
  the memory, the static \<open>FREE_LIST\<close> and the CPSR that the critical sections mask.  The
  \<open>*mut *mut FreeBlock\<close> cursor of the list walks is the address of a link, either the
  static or the \<open>next\<close> field of a block.
\<close>

section \<open>Blocks\<close>

definition ALIGN :: usize where "ALIGN = 8"
definition FREE_HDR :: usize where "FREE_HDR = 8"   \<comment> \<open>\<open>FreeBlock { size, next }\<close>\<close>
definition ALLOC_HDR :: usize where "ALLOC_HDR = 4" \<comment> \<open>\<open>AllocHeader { size }\<close>\<close>

lemmas alloc_consts = ALIGN_def FREE_HDR_def ALLOC_HDR_def

record heap =
  mem :: memory
  free_list :: u32
  heap_cpsr :: u32

datatype link = FreeList | NextOf u32

definition blk_size :: "heap \<Rightarrow> u32 \<Rightarrow> u32" where "blk_size s b = ld32 (mem s) b"
definition blk_next :: "heap \<Rightarrow> u32 \<Rightarrow> u32" where "blk_next s b = ld32 (mem s) (b + 4)"

definition set_size :: "u32 \<Rightarrow> u32 \<Rightarrow> heap \<Rightarrow> heap" where
  "set_size b v s = s\<lparr>mem := st32 (mem s) b v\<rparr>"
definition set_next :: "u32 \<Rightarrow> u32 \<Rightarrow> heap \<Rightarrow> heap" where
  "set_next b v s = s\<lparr>mem := st32 (mem s) (b + 4) v\<rparr>"

fun get_link :: "link \<Rightarrow> heap \<Rightarrow> u32" where
  "get_link FreeList s = free_list s"
| "get_link (NextOf b) s = blk_next s b"

fun set_link :: "link \<Rightarrow> u32 \<Rightarrow> heap \<Rightarrow> heap" where
  "set_link FreeList v s = s\<lparr>free_list := v\<rparr>"
| "set_link (NextOf b) v s = set_next b v s"

definition align_up :: "usize \<Rightarrow> usize \<Rightarrow> usize" where
  "align_up addr align = (addr + align - 1) AND NOT (align - 1)"

definition init_heap :: "u32 \<Rightarrow> usize \<Rightarrow> heap \<Rightarrow> heap" where
  "init_heap start sz s =
     (let start = align_up start ALIGN; aligned_size = sz AND NOT (ALIGN - 1) in
      if aligned_size < FREE_HDR + 16 then s
      else (set_next start 0 (set_size start aligned_size s))\<lparr>free_list := start\<rparr>)"

section \<open>alloc\_inner and free\_inner\<close>

partial_function (option) alloc_loop :: "usize \<Rightarrow> link \<Rightarrow> u32 \<Rightarrow> heap \<Rightarrow> (u32 \<times> heap) option" where
  "alloc_loop needed prev cur s =
     (if cur = 0 then Some (0, s)
      else if needed \<le> blk_size s cur then
        (let remaining = blk_size s cur - needed;
             s1 = (if FREE_HDR + ALIGN \<le> remaining then
                     (let split = cur + needed;
                          sa = set_size split remaining s;
                          sb = set_next split (blk_next sa cur) sa
                      in set_link prev split sb)
                   else set_link prev (blk_next s cur) s);
             s2 = set_size cur (if FREE_HDR + ALIGN \<le> remaining then needed else blk_size s1 cur) s1
         in Some (cur + ALLOC_HDR, s2))
      else alloc_loop needed (NextOf cur) (blk_next s cur) s)"

definition alloc_inner :: "usize \<Rightarrow> heap \<Rightarrow> (u32 \<times> heap) option" where
  "alloc_inner needed s = alloc_loop (align_up needed ALIGN) FreeList (free_list s) s"

text \<open>The walk of \<open>free_inner\<close> to the place of the block in the address-sorted list.\<close>

partial_function (option) find_place :: "u32 \<Rightarrow> link \<Rightarrow> u32 \<Rightarrow> heap \<Rightarrow> (link \<times> u32) option" where
  "find_place block prev cur s =
     (if cur \<noteq> 0 \<and> cur < block then find_place block (NextOf cur) (blk_next s cur) s
      else Some (prev, cur))"

definition coalesce_forward :: "u32 \<Rightarrow> u32 \<Rightarrow> heap \<Rightarrow> heap" where
  "coalesce_forward block cur s =
     (if cur \<noteq> 0 \<and> block + blk_size s block = cur then
        (let s1 = set_size block (blk_size s block + blk_size s cur) s
         in set_next block (blk_next s1 cur) s1)
      else s)"

definition coalesce_backward :: "u32 \<Rightarrow> link \<Rightarrow> heap \<Rightarrow> heap" where
  "coalesce_backward block prev s =
     (let prev_block = get_link prev s in
      if prev_block \<noteq> 0 \<and> prev_block \<noteq> block \<and> prev_block + blk_size s prev_block = block then
        (let s1 = set_size prev_block (blk_size s prev_block + blk_size s block) s
         in set_next prev_block (blk_next s1 block) s1)
      else s)"

definition free_inner :: "u32 \<Rightarrow> heap \<Rightarrow> heap option" where
  "free_inner ptr s =
     (if ptr = 0 then Some s
      else do {
        let block = ptr - ALLOC_HDR;
        let sz = blk_size s block;
        let s = set_size block sz s;
        (prev, cur) \<leftarrow> find_place block FreeList (free_list s) s;
        let s = set_next block cur s;
        let s = set_link prev block s;
        let s = coalesce_forward block cur s;
        Some (coalesce_backward block prev s)
      })"

section \<open>The GlobalAlloc interface\<close>

text \<open>A \<open>Layout\<close> is a size and an alignment.\<close>

definition mask_irqs :: "heap \<Rightarrow> u32 \<times> heap" where
  "mask_irqs s = (let (c, c') = interrupt_disable (heap_cpsr s) in (c, s\<lparr>heap_cpsr := c'\<rparr>))"

definition unmask_irqs :: "u32 \<Rightarrow> heap \<Rightarrow> heap" where
  "unmask_irqs c s = s\<lparr>heap_cpsr := interrupt_enable c (heap_cpsr s)\<rparr>"

definition alloc :: "usize \<Rightarrow> usize \<Rightarrow> heap \<Rightarrow> (u32 \<times> heap) option" where
  "alloc layout_size layout_align s = do {
     let align = max layout_align ALIGN;
     let sz = align_up (layout_size + ALLOC_HDR + align - 1) ALIGN;
     let (cpsr, s) = mask_irqs s;
     (ptr, s) \<leftarrow> alloc_inner sz s;
     let s = unmask_irqs cpsr s;
     if ptr = 0 then Some (0, s) else Some (align_up ptr align, s)
   }"

definition dealloc :: "u32 \<Rightarrow> heap \<Rightarrow> heap option" where
  "dealloc ptr s = do {
     let (cpsr, s) = mask_irqs s;
     s \<leftarrow> free_inner ptr s;
     Some (unmask_irqs cpsr s)
   }"

definition alloc_zeroed :: "usize \<Rightarrow> usize \<Rightarrow> heap \<Rightarrow> (u32 \<times> heap) option" where
  "alloc_zeroed layout_size layout_align s = do {
     (ptr, s) \<leftarrow> alloc layout_size layout_align s;
     if ptr \<noteq> 0 then Some (ptr, s\<lparr>mem := write_bytes ptr 0 (unat layout_size) (mem s)\<rparr>)
     else Some (ptr, s)
   }"

definition realloc :: "u32 \<Rightarrow> usize \<Rightarrow> usize \<Rightarrow> usize \<Rightarrow> heap \<Rightarrow> (u32 \<times> heap) option" where
  "realloc ptr layout_size layout_align new_size s = do {
     (new_ptr, s) \<leftarrow> alloc new_size layout_align s;
     if new_ptr \<noteq> 0 then do {
       let copy_size = min layout_size new_size;
       let s = s\<lparr>mem := copy_bytes ptr new_ptr (unat copy_size) (mem s)\<rparr>;
       s \<leftarrow> dealloc ptr s;
       Some (new_ptr, s)
     } else Some (new_ptr, s)
   }"

partial_function (option) sum_free :: "u32 \<Rightarrow> usize \<Rightarrow> heap \<Rightarrow> usize option" where
  "sum_free cur tot s =
     (if cur \<noteq> 0 then sum_free (blk_next s cur) (tot + blk_size s cur) s else Some tot)"

definition free_bytes :: "heap \<Rightarrow> (usize \<times> heap) option" where
  "free_bytes s = do {
     let (cpsr, s) = mask_irqs s;
     tot \<leftarrow> sum_free (free_list s) 0 s;
     Some (tot, unmask_irqs cpsr s)
   }"

end
