(* ===== verification/Allocator_Refine.thy ===== *)
theory Allocator_Refine
  imports Allocator
begin

text \<open>
  The heap as a list of blocks: \<open>flist\<close> reads the linked free list off memory,
  \<open>laid_out\<close> says that the blocks are sorted by address, aligned, apart and inside the
  heap, and \<open>first_fit\<close> and \<open>insert_block\<close> are the abstract operations that
  \<open>alloc_inner\<close> and \<open>free_inner\<close> refine.
\<close>

type_synonym block = "u32 \<times> u32" \<comment> \<open>address and size\<close>

fun fpath :: "heap \<Rightarrow> u32 \<Rightarrow> block list \<Rightarrow> u32 \<Rightarrow> bool" where
  "fpath s p [] q \<longleftrightarrow> p = q"
| "fpath s p ((a, n) # bs) q \<longleftrightarrow>
     p = a \<and> a \<noteq> 0 \<and> blk_size s a = n \<and> fpath s (blk_next s a) bs q"

abbreviation flist :: "heap \<Rightarrow> block list \<Rightarrow> bool" where
  "flist s bs \<equiv> fpath s (free_list s) bs 0"

fun laid_out :: "nat \<Rightarrow> nat \<Rightarrow> block list \<Rightarrow> bool" where
  "laid_out lo hi [] \<longleftrightarrow> lo \<le> hi"
| "laid_out lo hi ((a, n) # bs) \<longleftrightarrow>
     lo \<le> unat a \<and> 8 dvd unat a \<and> 8 dvd unat n \<and> 16 \<le> unat n \<and>
     laid_out (unat a + unat n) hi bs"

definition in_blk :: "u32 \<Rightarrow> block \<Rightarrow> bool" where
  "in_blk x b \<longleftrightarrow> unat (fst b) \<le> unat x \<and> unat x < unat (fst b) + unat (snd b)"

lemma in_blk_pair [simp]: "in_blk x (a, n) \<longleftrightarrow> unat a \<le> unat x \<and> unat x < unat a + unat n"
  by (simp add: in_blk_def)

lemma fpath_append: "fpath s p (xs @ ys) q \<longleftrightarrow> (\<exists>r. fpath s p xs r \<and> fpath s r ys q)"
  by (induction xs arbitrary: p) auto

lemma laid_out_le: "laid_out lo hi bs \<Longrightarrow> lo \<le> hi"
  by (induction lo hi bs rule: laid_out.induct) auto

lemma laid_out_append:
  "laid_out lo hi (xs @ ys) \<longleftrightarrow> (\<exists>mid. laid_out lo mid xs \<and> laid_out mid hi ys)"
proof (induction xs arbitrary: lo)
  case Nil
  show ?case by (cases ys) (auto dest: laid_out_le intro: exI [of _ lo])
next
  case (Cons b xs)
  then show ?case by (cases b) auto
qed

lemma laid_out_mono: "laid_out lo hi bs \<Longrightarrow> lo' \<le> lo \<Longrightarrow> hi \<le> hi' \<Longrightarrow> laid_out lo' hi' bs"
  by (induction lo hi bs arbitrary: lo' rule: laid_out.induct) auto

lemma laid_out_in: "laid_out lo hi bs \<Longrightarrow> b \<in> set bs \<Longrightarrow> in_blk x b \<Longrightarrow> lo \<le> unat x \<and> unat x < hi"
proof (induction lo hi bs rule: laid_out.induct)
  case (2 lo hi a n bs)
  then show ?case by (auto dest: laid_out_le)
qed simp

lemma laid_out_node:
  "laid_out lo hi bs \<Longrightarrow> (a, n) \<in> set bs \<Longrightarrow>
     lo \<le> unat a \<and> unat a + unat n \<le> hi \<and> 8 dvd unat a \<and> 8 dvd unat n \<and> 16 \<le> unat n"
proof (induction lo hi bs rule: laid_out.induct)
  case (2 lo hi b m bs)
  then show ?case by (auto dest: laid_out_le)
qed simp

section \<open>What the accessors see and leave alone\<close>

definition same_on :: "heap \<Rightarrow> heap \<Rightarrow> (u32 \<Rightarrow> bool) \<Rightarrow> bool" where
  "same_on s s' P \<longleftrightarrow> (\<forall>x. P x \<longrightarrow> mem s' x = mem s x)"

lemma same_onD: "same_on s s' P \<Longrightarrow> P x \<Longrightarrow> mem s' x = mem s x"
  by (simp add: same_on_def)

lemma ld32_cong:
  assumes "\<And>x. unat a \<le> unat x \<Longrightarrow> unat x < unat a + 4 \<Longrightarrow> m' x = m x"
    and "unat a + 4 \<le> 2 ^ 32"
  shows "ld32 m' a = ld32 m a"
proof -
  have 1: "unat (a + 1) = unat a + 1" "unat (a + 2) = unat a + 2" "unat (a + 3) = unat a + 3"
    using assms(2) by (simp_all add: unat_plus_u32)
  have "m' a = m a" by (rule assms(1)) simp_all
  moreover have "m' (a + 1) = m (a + 1)" by (rule assms(1)) (simp_all only: 1)
  moreover have "m' (a + 2) = m (a + 2)" by (rule assms(1)) (simp_all only: 1)
  moreover have "m' (a + 3) = m (a + 3)" by (rule assms(1)) (simp_all only: 1)
  ultimately show ?thesis by (simp add: ld32_def)
qed

lemma header_cong:
  assumes "\<And>x. in_blk x (a, n) \<Longrightarrow> mem s' x = mem s x" "8 \<le> unat n" "unat a + unat n \<le> 2 ^ 32"
  shows "blk_size s' a = blk_size s a" "blk_next s' a = blk_next s a"
proof -
  show "blk_size s' a = blk_size s a" unfolding blk_size_def
    by (rule ld32_cong) (use assms in auto)
  have 4: "unat (a + 4) = unat a + 4" using assms(2,3) by (simp add: unat_plus_u32)
  show "blk_next s' a = blk_next s a" unfolding blk_next_def
    by (rule ld32_cong) (use assms 4 in auto)
qed

lemma fpath_cong:
  assumes "\<And>b x. b \<in> set bs \<Longrightarrow> in_blk x b \<Longrightarrow> mem s' x = mem s x"
    and "laid_out lo hi bs" "hi \<le> 2 ^ 32"
  shows "fpath s' p bs q = fpath s p bs q"
  using assms
proof (induction bs arbitrary: p lo)
  case (Cons b bs)
  obtain a n where b: "b = (a, n)" by (cases b)
  have lo: "laid_out (unat a + unat n) hi bs" "16 \<le> unat n" "unat a + unat n \<le> 2 ^ 32"
    using Cons.prems(2,3) b by (auto dest: laid_out_le)
  have "blk_size s' a = blk_size s a" "blk_next s' a = blk_next s a"
    using header_cong [of a n s' s] Cons.prems(1) [of b] lo b by auto
  moreover have "fpath s' r bs q = fpath s r bs q" for r
    by (rule Cons.IH [OF _ lo(1) Cons.prems(3)]) (use Cons.prems(1) in auto)
  ultimately show ?case by (simp add: b)
qed simp

lemma set_size_simps [simp]:
  "free_list (set_size a v s) = free_list s" "heap_cpsr (set_size a v s) = heap_cpsr s"
  "free_list (set_next a v s) = free_list s" "heap_cpsr (set_next a v s) = heap_cpsr s"
  "blk_size (set_size a v s) a = v" "blk_next (set_next a v s) a = v"
  by (simp_all add: set_size_def set_next_def blk_size_def blk_next_def)

lemma set_size_next_sep [simp]:
  assumes "unat a + 8 \<le> 2 ^ 32"
  shows "blk_next (set_size a v s) a = blk_next s a" "blk_size (set_next a v s) a = blk_size s a"
proof -
  have 4: "unat (a + 4) = unat a + 4" using assms by (simp add: unat_plus_u32)
  show "blk_next (set_size a v s) a = blk_next s a"
    unfolding set_size_def blk_next_def using assms 4 by (simp add: mem.ld_st_below)
  show "blk_size (set_next a v s) a = blk_size s a"
    unfolding set_next_def blk_size_def using assms 4 by (simp add: mem.ld_st_above)
qed

lemma set_size_bytes:
  "unat a + 4 \<le> 2 ^ 32 \<Longrightarrow> unat x < unat a \<or> unat a + 4 \<le> unat x \<Longrightarrow>
     mem (set_size a v s) x = mem s x"
  unfolding set_size_def by (simp add: st32_outside)

lemma set_next_bytes:
  assumes "unat a + 8 \<le> 2 ^ 32" "unat x < unat a \<or> unat a + 8 \<le> unat x"
  shows "mem (set_next a v s) x = mem s x"
proof -
  have "unat (a + 4) = unat a + 4" using assms(1) by (simp add: unat_plus_u32)
  then show ?thesis unfolding set_next_def using assms by (auto simp: st32_outside)
qed

text \<open>A write to the header of a block changes no byte outside the block.\<close>

lemma set_header_outside:
  assumes "\<not> in_blk x (a, n)" "8 \<le> unat n" "unat a + unat n \<le> 2 ^ 32"
  shows "mem (set_size a v s) x = mem s x" "mem (set_next a v s) x = mem s x"
  using assms by (auto intro!: set_size_bytes set_next_bytes)

section \<open>Redirecting a link\<close>

definition link_of :: "block list \<Rightarrow> link" where
  "link_of ps = (if ps = [] then FreeList else NextOf (fst (last ps)))"

lemma link_of_snoc [simp]: "link_of (ps @ [(a, n)]) = NextOf a"
  and link_of_Nil [simp]: "link_of [] = FreeList"
  by (simp_all add: link_of_def)

lemma fpath_set_link:
  assumes "fpath s (free_list s) ps q" "laid_out lo hi ps" "hi \<le> 2 ^ 32"
  shows "fpath (set_link (link_of ps) v s) (free_list (set_link (link_of ps) v s)) ps v"
proof (cases ps rule: rev_cases)
  case Nil
  then show ?thesis by simp
next
  case (snoc xs b)
  obtain a n where b: "b = (a, n)" by (cases b)
  from assms(2) snoc b obtain mid where mid: "laid_out lo mid xs" "laid_out mid hi [(a, n)]"
    by (auto simp: laid_out_append)
  then have sz: "8 \<le> unat n" "unat a + unat n \<le> 2 ^ 32" "mid \<le> unat a" using assms(3) by auto
  let ?s = "set_next a v s"
  have "fpath ?s (free_list s) xs a = fpath s (free_list s) xs a"
  proof (rule fpath_cong [OF _ mid(1)])
    show "mid \<le> 2 ^ 32" using sz by linarith
    fix c x assume "c \<in> set xs" "in_blk x c"
    then have "unat x < mid" using laid_out_in [OF mid(1)] by blast
    then show "mem ?s x = mem s x" using set_header_outside [of x a n] sz by auto
  qed
  then show ?thesis using assms(1) snoc b sz by (auto simp: fpath_append)
qed

lemma set_link_outside:
  assumes "laid_out lo hi ps" "hi \<le> 2 ^ 32" "\<And>b. b \<in> set ps \<Longrightarrow> \<not> in_blk x b"
  shows "mem (set_link (link_of ps) v s) x = mem s x"
proof (cases ps rule: rev_cases)
  case (snoc xs b)
  obtain a n where b: "b = (a, n)" by (cases b)
  have "lo \<le> unat a \<and> unat a + unat n \<le> hi \<and> 16 \<le> unat n"
    using laid_out_node [OF assms(1)] snoc b by auto
  moreover have "\<not> in_blk x (a, n)" by (rule assms(3)) (simp add: snoc b)
  ultimately show ?thesis using set_header_outside(2) [of x a n] assms(2) snoc b by simp
qed simp

lemma set_link_cpsr [simp]: "heap_cpsr (set_link l v s) = heap_cpsr s"
  by (cases l) simp_all

section \<open>First fit\<close>

fun first_fit :: "u32 \<Rightarrow> block list \<Rightarrow> (block \<times> block list) option" where
  "first_fit k [] = None"
| "first_fit k ((a, n) # bs) =
     (if k \<le> n then
        (if 16 \<le> n - k then Some ((a, k), (a + k, n - k) # bs) else Some ((a, n), bs))
      else map_option (\<lambda>(b, bs'). (b, (a, n) # bs')) (first_fit k bs))"

lemma laid_out_split:
  assumes "laid_out lo hi ((a, n) # bs)" "hi \<le> 2 ^ 32" "k \<le> n" "16 \<le> n - k" "8 dvd unat k"
  shows "laid_out (unat a + unat k) hi ((a + k, n - k) # bs)"
    and "unat (a + k) = unat a + unat k" "unat (n - k) = unat n - unat k" "unat k \<le> unat n"
    "16 \<le> unat n - unat k"
proof -
  have l: "unat k \<le> unat n" using assms(3) by (simp add: word_le_nat_alt)
  have m: "unat (n - k) = unat n - unat k" by (rule unat_minus_u32) fact
  then have r: "16 \<le> unat n - unat k" using assms(4) by (simp add: word_le_nat_alt)
  have "unat a + unat n \<le> hi" using assms(1) laid_out_le by auto
  then have p: "unat (a + k) = unat a + unat k"
    using r assms(2) by (intro unat_plus_u32) linarith
  then show "unat (a + k) = unat a + unat k" .
  show "laid_out (unat a + unat k) hi ((a + k, n - k) # bs)"
    using assms p m r l by (auto simp: dvd_add)
  show "unat (n - k) = unat n - unat k" "unat k \<le> unat n" "16 \<le> unat n - unat k"
    using m l r by simp_all
qed

text \<open>The body of the loop at a block that fits: unlink it, or leave its tail.\<close>

definition take_block :: "usize \<Rightarrow> link \<Rightarrow> u32 \<Rightarrow> heap \<Rightarrow> heap" where
  "take_block needed prev cur s =
     (let remaining = blk_size s cur - needed;
          s1 = (if FREE_HDR + ALIGN \<le> remaining then
                  (let split = cur + needed;
                       sa = set_size split remaining s;
                       sb = set_next split (blk_next sa cur) sa
                   in set_link prev split sb)
                else set_link prev (blk_next s cur) s)
      in set_size cur (if FREE_HDR + ALIGN \<le> remaining then needed else blk_size s1 cur) s1)"

lemma alloc_loop_eq:
  "alloc_loop needed prev cur s =
     (if cur = 0 then Some (0, s)
      else if needed \<le> blk_size s cur then Some (cur + 4, take_block needed prev cur s)
      else alloc_loop needed (NextOf cur) (blk_next s cur) s)"
  by (subst alloc_loop.simps) (simp add: take_block_def Let_def ALLOC_HDR_def)

lemma laid_out_apart:
  assumes "laid_out lo hi (xs @ b # ys)" "c \<in> set xs \<union> set ys" "in_blk x c"
  shows "\<not> in_blk x b"
proof -
  obtain a n where b: "b = (a, n)" by (cases b)
  from assms(1) b obtain mid where "laid_out lo mid xs" "mid \<le> unat a" "laid_out (unat a + unat n) hi ys"
    by (auto simp: laid_out_append)
  then show ?thesis using assms(2,3) b laid_out_in by fastforce
qed

lemma fpath_header_frame:
  assumes "laid_out lo hi (xs @ (a, n) # ys)" "hi \<le> 2 ^ 32"
  shows "fpath (set_size a v s) p xs q = fpath s p xs q" "fpath (set_size a v s) p ys q = fpath s p ys q"
    "fpath (set_next a v s) p xs q = fpath s p xs q" "fpath (set_next a v s) p ys q = fpath s p ys q"
proof -
  from assms(1) obtain mid where l: "laid_out lo mid xs" "laid_out (unat a + unat n) hi ys"
    "mid \<le> unat a" "16 \<le> unat n" "unat a + unat n \<le> hi"
    by (auto simp: laid_out_append dest: laid_out_le)
  have m: "mem (set_size a v s) x = mem s x" "mem (set_next a v s) x = mem s x"
    if "c \<in> set xs \<union> set ys" "in_blk x c" for c x
    using set_header_outside [OF laid_out_apart [OF assms(1) that]] l assms(2) by auto
  have mid: "mid \<le> 2 ^ 32" using l(3,5) assms(2) by linarith
  show "fpath (set_size a v s) p xs q = fpath s p xs q" "fpath (set_next a v s) p xs q = fpath s p xs q"
    by (rule fpath_cong [OF _ l(1) mid]; use m in blast)+
  show "fpath (set_size a v s) p ys q = fpath s p ys q" "fpath (set_next a v s) p ys q = fpath s p ys q"
    by (rule fpath_cong [OF _ l(2) assms(2)]; use m in blast)+
qed

lemma header_frame:
  assumes "laid_out lo hi (xs @ (a, n) # ys)" "hi \<le> 2 ^ 32" "(b, m) \<in> set xs \<union> set ys"
  shows "blk_size (set_size a v s) b = blk_size s b" "blk_next (set_size a v s) b = blk_next s b"
    "blk_size (set_next a v s) b = blk_size s b" "blk_next (set_next a v s) b = blk_next s b"
proof -
  have l: "16 \<le> unat n" "unat a + unat n \<le> hi" "16 \<le> unat m" "unat b + unat m \<le> hi"
    using laid_out_node [OF assms(1), of a n] laid_out_node [OF assms(1), of b m] assms(3) by auto
  have m: "mem (set_size a v s) x = mem s x" "mem (set_next a v s) x = mem s x" if "in_blk x (b, m)" for x
    using set_header_outside [OF laid_out_apart [OF assms(1,3) that]] l assms(2) by auto
  show "blk_size (set_size a v s) b = blk_size s b" "blk_next (set_size a v s) b = blk_next s b"
    using header_cong [of b m "set_size a v s" s] m(1) l assms(2) by auto
  show "blk_size (set_next a v s) b = blk_size s b" "blk_next (set_next a v s) b = blk_next s b"
    using header_cong [of b m "set_next a v s" s] m(2) l assms(2) by auto
qed

lemma set_link_frame:
  assumes "laid_out lo hi (ps @ ys)" "hi \<le> 2 ^ 32"
  shows "fpath (set_link (link_of ps) v s) p ys q = fpath s p ys q"
    and "(b, m) \<in> set ys \<Longrightarrow> blk_size (set_link (link_of ps) v s) b = blk_size s b"
    and "(b, m) \<in> set ys \<Longrightarrow> blk_next (set_link (link_of ps) v s) b = blk_next s b"
proof -
  from assms(1) obtain mid where l: "laid_out lo mid ps" "laid_out mid hi ys" by (auto simp: laid_out_append)
  have mid: "mid \<le> 2 ^ 32" using laid_out_le [OF l(2)] assms(2) by linarith
  have m: "mem (set_link (link_of ps) v s) x = mem s x" if "c \<in> set ys" "in_blk x c" for c x
  proof (rule set_link_outside [OF l(1) mid])
    fix b assume "b \<in> set ps"
    then show "\<not> in_blk x b" using laid_out_in [OF l(1), of b x] laid_out_in [OF l(2) that] by auto
  qed
  show "fpath (set_link (link_of ps) v s) p ys q = fpath s p ys q"
    by (rule fpath_cong [OF _ l(2) assms(2)]) (use m in blast)
  assume b: "(b, m) \<in> set ys"
  then have "16 \<le> unat m" "unat b + unat m \<le> hi" using laid_out_node [OF l(2) b] by auto
  then show "blk_size (set_link (link_of ps) v s) b = blk_size s b"
    "blk_next (set_link (link_of ps) v s) b = blk_next s b"
    using header_cong [of b m "set_link (link_of ps) v s" s] m [OF b] assms(2) by auto
qed

lemmas heap_frame = fpath_header_frame header_frame set_link_frame

lemma take_block_split:
  assumes path: "fpath s (free_list s) ps a" "fpath s (blk_next s a) bs 0" "blk_size s a = n"
    and lay: "laid_out lo hi (ps @ (a, n) # bs)" "hi \<le> 2 ^ 32" "a \<noteq> 0"
    and k: "k \<le> n" "16 \<le> n - k" "8 dvd unat k" "16 \<le> unat k"
  defines "s' \<equiv> take_block k (link_of ps) a s"
  shows "flist s' (ps @ (a + k, n - k) # bs)" and "blk_size s' a = k"
    and "laid_out lo hi (ps @ (a, k) # (a + k, n - k) # bs)"
proof -
  from lay(1) obtain mid where mid: "laid_out lo mid ps" "laid_out mid hi ((a, n) # bs)"
    by (auto simp: laid_out_append)
  note sp = laid_out_split [OF mid(2) lay(2) k(1-3)]
  have L0: "laid_out lo hi (ps @ (a, k) # (a + k, n - k) # bs)"
    using mid sp(1) k by (auto simp: laid_out_append)
  then show "laid_out lo hi (ps @ (a, k) # (a + k, n - k) # bs)" .
  have L1: "laid_out lo hi (ps @ (a + k, n - k) # bs)"
    using mid sp by (auto simp: laid_out_append intro!: exI [of _ mid])
  have L2: "laid_out lo hi ((ps @ [(a, k)]) @ (a + k, n - k) # bs)" using L0 by simp
  have nz: "a + k \<noteq> 0" using sp(2) k(4) by auto
  have a8: "unat (a + k) + 8 \<le> 2 ^ 32"
    using laid_out_node [OF L1, of "a + k" "n - k"] lay(2) by simp
  define sa where "sa = set_size (a + k) (n - k) s"
  define sb where "sb = set_next (a + k) (blk_next sa a) sa"
  define sc where "sc = set_link (link_of ps) (a + k) sb"
  have s': "s' = set_size a k sc"
    using k(2) path(3) unfolding s'_def take_block_def sc_def sb_def sa_def
    by (simp add: Let_def alloc_consts)
  show "blk_size s' a = k" by (simp add: s')
  have nxt: "blk_next sa a = blk_next s a"
    using header_frame(2) [OF L2 lay(2), of a k] by (simp add: sa_def)
  have head: "fpath sb (free_list sb) ps a" and tail: "fpath sb (a + k) ((a + k, n - k) # bs) 0"
    using path(1,2) fpath_header_frame [OF L1 lay(2)] a8 nxt nz
    by (simp_all add: sb_def sa_def)
  have "fpath sc (free_list sc) ps (a + k)"
    unfolding sc_def using head mid(1) by (rule fpath_set_link) (use laid_out_le [OF mid(2)] lay(2) in linarith)
  then have 1: "fpath s' (free_list s') ps (a + k)"
    by (simp add: s' fpath_header_frame(1) [OF L0 lay(2)])
  have "fpath sc (a + k) ((a + k, n - k) # bs) 0"
    unfolding sc_def using tail set_link_frame(1) [OF L1 lay(2)] by blast
  then have 2: "fpath s' (a + k) ((a + k, n - k) # bs) 0"
    unfolding s' fpath_header_frame(2) [OF L0 lay(2)] .
  from 1 2 show "flist s' (ps @ (a + k, n - k) # bs)" unfolding fpath_append by blast
qed

lemma take_block_whole:
  assumes path: "fpath s (free_list s) ps a" "fpath s (blk_next s a) bs 0" "blk_size s a = n"
    and lay: "laid_out lo hi (ps @ (a, n) # bs)" "hi \<le> 2 ^ 32" "a \<noteq> 0"
    and k: "\<not> 16 \<le> n - k"
  defines "s' \<equiv> take_block k (link_of ps) a s"
  shows "flist s' (ps @ bs)" and "blk_size s' a = n"
proof -
  from lay(1) obtain mid where mid: "laid_out lo mid ps" "laid_out mid hi ((a, n) # bs)"
    by (auto simp: laid_out_append)
  have L1: "laid_out lo hi (ps @ bs)"
  proof -
    have "laid_out mid hi bs"
      by (rule laid_out_mono [of "unat a + unat n" hi bs]) (use mid(2) in auto)
    with mid(1) show ?thesis by (auto simp: laid_out_append)
  qed
  define sc where "sc = set_link (link_of ps) (blk_next s a) s"
  have size: "blk_size sc a = n"
    using set_link_frame(2) [OF lay(1,2), of a n] path(3) by (simp add: sc_def)
  have s': "s' = set_size a n sc"
    using k path(3) size unfolding s'_def take_block_def sc_def
    by (simp add: Let_def alloc_consts)
  show "blk_size s' a = n" by (simp add: s')
  have "fpath sc (free_list sc) ps (blk_next s a)"
    unfolding sc_def using path(1) mid(1) by (rule fpath_set_link) (use laid_out_le [OF mid(2)] lay(2) in linarith)
  then have 1: "fpath s' (free_list s') ps (blk_next s a)"
    by (simp add: s' fpath_header_frame(1) [OF lay(1,2)])
  have "fpath sc (blk_next s a) bs 0"
    unfolding sc_def using path(2) set_link_frame(1) [OF L1 lay(2)] by blast
  then have 2: "fpath s' (blk_next s a) bs 0"
    unfolding s' fpath_header_frame(2) [OF lay(1,2)] .
  from 1 2 show "flist s' (ps @ bs)" unfolding fpath_append by blast
qed

lemma take_block_outside:
  assumes "laid_out lo hi (ps @ (a, n) # bs)" "hi \<le> 2 ^ 32" "k \<le> n" "8 dvd unat k" "16 \<le> unat k"
    and "blk_size s a = n" and out: "\<And>b. b \<in> set (ps @ (a, n) # bs) \<Longrightarrow> \<not> in_blk x b"
  shows "mem (take_block k (link_of ps) a s) x = mem s x"
proof -
  from assms(1) obtain mid where mid: "laid_out lo mid ps" "laid_out mid hi ((a, n) # bs)"
    by (auto simp: laid_out_append)
  have mid2: "mid \<le> 2 ^ 32" using laid_out_le [OF mid(2)] assms(2) by linarith
  have an: "16 \<le> unat n" "unat a + unat n \<le> 2 ^ 32"
    using laid_out_node [OF assms(1), of a n] assms(2) by auto
  have xa: "\<not> in_blk x (a, n)" by (rule out) simp
  have link: "mem (set_link (link_of ps) v t) x = mem t x" for v t
    by (rule set_link_outside [OF mid(1) mid2]) (rule out, simp)
  have fin: "mem (set_size a v t) x = mem t x" for v t
    using set_header_outside(1) [OF xa] an by auto
  show "mem (take_block k (link_of ps) a s) x = mem s x"
  proof (cases "16 \<le> n - k")
    case True
    note sp = laid_out_split [OF mid(2) assms(2,3) True assms(4)]
    have xs: "\<not> in_blk x (a + k, n - k)" using xa sp by auto
    have "mem (set_size (a + k) v t) x = mem t x" "mem (set_next (a + k) v t) x = mem t x" for v t
      using set_header_outside [OF xs] sp an by auto
    with True link fin assms(6) show ?thesis
      by (simp add: take_block_def Let_def alloc_consts)
  next
    case False
    with link fin assms(6) show ?thesis by (simp add: take_block_def Let_def alloc_consts)
  qed
qed

lemma take_block_cpsr [simp]: "heap_cpsr (take_block k l a s) = heap_cpsr s"
  by (simp add: take_block_def Let_def)

text \<open>The loop refines \<open>first_fit\<close>: nothing outside the free blocks is written.\<close>

lemma alloc_loop_refines:
  assumes "fpath s (free_list s) ps cur" "fpath s cur bs 0" "laid_out lo hi (ps @ bs)"
    and "hi \<le> 2 ^ 32" "8 dvd unat k" "16 \<le> unat k"
  shows "case first_fit k bs of
      None \<Rightarrow> alloc_loop k (link_of ps) cur s = Some (0, s)
    | Some ((a, m), bs') \<Rightarrow> \<exists>s'. alloc_loop k (link_of ps) cur s = Some (a + 4, s') \<and>
        flist s' (ps @ bs') \<and> blk_size s' a = m \<and> heap_cpsr s' = heap_cpsr s \<and>
        (\<forall>x. (\<forall>b\<in>set (ps @ bs). \<not> in_blk x b) \<longrightarrow> mem s' x = mem s x)"
  using assms
proof (induction bs arbitrary: ps cur)
  case Nil
  then show ?case by (simp add: alloc_loop_eq [of k _ 0])
next
  case (Cons b bs)
  obtain a n where b: "b = (a, n)" by (cases b)
  from Cons.prems(2) b have a: "cur = a" "a \<noteq> 0" "blk_size s a = n" "fpath s (blk_next s a) bs 0"
    by auto
  show ?case
  proof (cases "k \<le> n")
    case True
    let ?s' = "take_block k (link_of ps) a s"
    have loop: "alloc_loop k (link_of ps) cur s = Some (a + 4, ?s')"
      using True a by (subst alloc_loop_eq) simp
    have out: "(\<forall>b\<in>set (ps @ (a, n) # bs). \<not> in_blk x b) \<longrightarrow> mem ?s' x = mem s x" for x
      using take_block_outside [OF Cons.prems(3) [unfolded b] Cons.prems(4) True Cons.prems(5,6) a(3)]
      by blast
    show ?thesis
    proof (cases "16 \<le> n - k")
      case split: True
      have "flist ?s' (ps @ (a + k, n - k) # bs)" "blk_size ?s' a = k"
        using take_block_split [OF _ a(4,3) Cons.prems(3) [unfolded b] Cons.prems(4) a(2) True split
            Cons.prems(5,6)] Cons.prems(1) a(1) by auto
      then show ?thesis using loop out True split by (simp add: b)
    next
      case whole: False
      have "flist ?s' (ps @ bs)" "blk_size ?s' a = n"
        using take_block_whole [OF _ a(4,3) Cons.prems(3) [unfolded b] Cons.prems(4) a(2) whole]
          Cons.prems(1) a(1) by auto
      then show ?thesis using loop out True whole by (simp add: b)
    qed
  next
    case False
    have loop: "alloc_loop k (link_of ps) cur s = alloc_loop k (link_of (ps @ [(a, n)])) (blk_next s a) s"
      using False a by (subst alloc_loop_eq) simp
    have "fpath s (free_list s) (ps @ [(a, n)]) (blk_next s a)"
      using Cons.prems(1) a by (auto simp: fpath_append)
    from Cons.IH [OF this a(4)] Cons.prems(3-6) b
    show ?thesis using False b unfolding loop by (auto split: option.splits)
  qed
qed

section \<open>The heap as a tiling\<close>

text \<open>Every byte of the heap belongs to one block, free or in use; the tag is \<open>True\<close> for a
  free block.\<close>

type_synonym tiling = "(block \<times> bool) list"

definition free_blocks :: "tiling \<Rightarrow> block list" where
  "free_blocks T = map fst (filter snd T)"

fun tiled :: "nat \<Rightarrow> nat \<Rightarrow> tiling \<Rightarrow> bool" where
  "tiled lo hi [] \<longleftrightarrow> lo = hi"
| "tiled lo hi (((a, n), f) # T) \<longleftrightarrow>
     unat a = lo \<and> 8 dvd unat a \<and> 8 dvd unat n \<and> 16 \<le> unat n \<and> tiled (lo + unat n) hi T"

definition heap_inv :: "nat \<Rightarrow> nat \<Rightarrow> heap \<Rightarrow> tiling \<Rightarrow> bool" where
  "heap_inv lo hi s T \<longleftrightarrow> 0 < lo \<and> hi \<le> 2 ^ 32 \<and> tiled lo hi T \<and> flist s (free_blocks T) \<and>
     (\<forall>((b, m), f)\<in>set T. blk_size s b = m)"

fun free_total :: "tiling \<Rightarrow> nat" where
  "free_total [] = 0"
| "free_total (((a, n), f) # T) = (if f then unat n else 0) + free_total T"

fun used_total :: "tiling \<Rightarrow> nat" where
  "used_total [] = 0"
| "used_total (((a, n), f) # T) = (if f then 0 else unat n) + used_total T"

fun tile_alloc :: "u32 \<Rightarrow> tiling \<Rightarrow> (block \<times> tiling) option" where
  "tile_alloc k [] = None"
| "tile_alloc k (((a, n), f) # T) =
     (if f \<and> k \<le> n then
        (if 16 \<le> n - k then Some ((a, k), ((a, k), False) # ((a + k, n - k), True) # T)
         else Some ((a, n), ((a, n), False) # T))
      else map_option (\<lambda>(b, T'). (b, ((a, n), f) # T')) (tile_alloc k T))"

fun tile_free :: "u32 \<Rightarrow> tiling \<Rightarrow> tiling" where
  "tile_free a [] = []"
| "tile_free a (((b, n), f) # T) =
     (if b = a then
        (case T of ((c, m), True) # T' \<Rightarrow> ((a, n + m), True) # T' | _ \<Rightarrow> ((a, n), True) # T)
      else ((b, n), f) # tile_free a T)"

lemma free_blocks_simps [simp]:
  "free_blocks [] = []"
  "free_blocks ((b, f) # T) = (if f then b # free_blocks T else free_blocks T)"
  "free_blocks (T @ U) = free_blocks T @ free_blocks U"
  by (simp_all add: free_blocks_def)

lemma tiled_le: "tiled lo hi T \<Longrightarrow> lo \<le> hi"
  by (induction lo hi T rule: tiled.induct) auto

lemma tiled_append: "tiled lo hi (T @ U) \<longleftrightarrow> (\<exists>mid. tiled lo mid T \<and> tiled mid hi U)"
  by (induction T arbitrary: lo) auto

lemma tiled_free_laid_out: "tiled lo hi T \<Longrightarrow> laid_out lo hi (free_blocks T)"
proof (induction lo hi T rule: tiled.induct)
  case (2 lo hi a n f T)
  then show ?case by (auto intro: laid_out_mono [OF _ le_add1 order_refl])
qed simp

lemma tiled_laid_out: "tiled lo hi T \<Longrightarrow> laid_out lo hi (map fst T)"
  by (induction lo hi T rule: tiled.induct) auto

lemma tiled_total: "tiled lo hi T \<Longrightarrow> lo + (free_total T + used_total T) = hi"
  by (induction lo hi T rule: tiled.induct) auto

text \<open>\<open>tile_alloc\<close> is \<open>first_fit\<close> on the free blocks, and keeps the tiling.\<close>

lemma first_fit_free_blocks:
  "first_fit k (free_blocks T) = map_option (\<lambda>(b, T'). (b, free_blocks T')) (tile_alloc k T)"
proof (induction k T rule: tile_alloc.induct)
  case (2 k a n f T)
  then show ?case by (cases "tile_alloc k T") auto
qed simp

lemma tile_alloc_tiled:
  assumes "tile_alloc k T = Some (b, T')" "tiled lo hi T" "hi \<le> 2 ^ 32" "8 dvd unat k" "16 \<le> unat k"
  shows "tiled lo hi T'"
  using assms
proof (induction k T arbitrary: lo T' rule: tile_alloc.induct)
  case (2 k a n f T)
  show ?case
  proof (cases "f \<and> k \<le> n")
    case True
    show ?thesis
    proof (cases "16 \<le> n - k")
      case split: True
      have "laid_out lo hi ((a, n) # map fst T)" using tiled_laid_out [OF "2.prems"(2)] by simp
      note sp = laid_out_split [OF this "2.prems"(3) _ split "2.prems"(4)]
      show ?thesis using "2.prems" True split sp by (auto simp: dvd_diff_nat)
    next
      case False
      then show ?thesis using "2.prems" True by auto
    qed
  next
    case False
    then show ?thesis using "2.prems" "2.IH" [OF False] by (auto split: option.splits)
  qed
qed simp

text \<open>Which blocks a successful \<open>tile_alloc\<close> turns into which.\<close>

lemma tile_alloc_blocks:
  assumes "tile_alloc k T = Some ((a, m), T')"
  shows "((a, m), False) \<in> set T' \<and> k \<le> m \<and>
    (\<exists>n. ((a, n), True) \<in> set T \<and> (k = m \<or> n = m)) \<and>
    (\<forall>c\<in>set T'. c \<in> set T \<or> c = ((a, m), False) \<or> (snd c \<and> (\<exists>n. c = ((a + k, n - k), True))))"
  using assms
proof (induction k T arbitrary: T' rule: tile_alloc.induct)
  case (2 k b n f T)
  show ?case
  proof (cases "f \<and> k \<le> n")
    case True
    then show ?thesis using "2.prems" by (auto split: if_splits)
  next
    case False
    then obtain T2 where "tile_alloc k T = Some ((a, m), T2)" "T' = ((b, n), f) # T2"
      using "2.prems" by (auto split: if_splits)
    with "2.IH" [OF False this(1)] show ?thesis by fastforce
  qed
qed simp

lemma used_not_free:
  assumes "tiled lo hi T" "((b, m), False) \<in> set T" "in_blk x (b, m)" "c \<in> set (free_blocks T)"
  shows "\<not> in_blk x c"
proof -
  obtain U V where T: "T = U @ ((b, m), False) # V" using assms(2) by (meson split_list)
  have "laid_out lo hi (map fst U @ (b, m) # map fst V)" using tiled_laid_out [OF assms(1)] T by simp
  from laid_out_apart [OF this, of c] show ?thesis using assms(3,4) T by (auto simp: free_blocks_def)
qed

section \<open>alloc\_inner refines tile\_alloc\<close>

text \<open>The rounding of \<open>alloc_inner\<close> and \<open>alloc\<close>, for a power-of-two alignment.\<close>

lemma align_up_8:
  assumes "unat x + 7 < 2 ^ 32"
  shows "unat (align_up x 8) = (unat x + 7) div 8 * 8"
proof -
  have "(7 :: u32) = mask 3" by (simp add: mask_eq_exp_minus_1)
  moreover have "unat ((x + 7) AND NOT (mask 3)) = (unat x + 7) div 8 * 8"
    unfolding unat_clear_low using assms by (simp add: unat_plus_u32)
  ultimately show ?thesis by (simp add: align_up_def add.commute)
qed

lemma align_up_8_props:
  assumes "unat x + 7 < 2 ^ 32"
  shows "8 dvd unat (align_up x 8)" "unat x \<le> unat (align_up x 8)" "unat (align_up x 8) \<le> unat x + 7"
    "9 \<le> unat x \<Longrightarrow> 16 \<le> unat (align_up x 8)"
  unfolding align_up_8 [OF assms] by (simp, presburger, presburger, presburger)

lemma heap_invD:
  assumes "heap_inv lo hi s T"
  shows "tiled lo hi T" "hi \<le> 2 ^ 32" "0 < lo" "flist s (free_blocks T)"
    "laid_out lo hi (free_blocks T)" "((b, m), f) \<in> set T \<Longrightarrow> blk_size s b = m"
  using assms tiled_free_laid_out by (auto simp: heap_inv_def)

lemma flist_sizes: "fpath s p bs q \<Longrightarrow> (a, n) \<in> set bs \<Longrightarrow> blk_size s a = n"
  by (induction bs arbitrary: p) auto

text \<open>Used blocks keep their bytes, so their headers.\<close>

lemma used_size_frame:
  assumes "heap_inv lo hi s T" "((b, m), False) \<in> set T"
    and "\<And>x. in_blk x (b, m) \<Longrightarrow> mem s' x = mem s x"
  shows "blk_size s' b = m"
proof -
  note inv = heap_invD [OF assms(1)]
  have "(b, m) \<in> set (map fst T)" using assms(2) by force
  from laid_out_node [OF tiled_laid_out [OF inv(1)] this] header_cong(1) [of b m s' s] assms(3) inv(2,6) assms(2)
  show ?thesis by auto
qed

lemma alloc_inner_refines:
  assumes inv: "heap_inv lo hi s T" and k: "9 \<le> unat k" "unat k + 7 < 2 ^ 32"
  shows "case tile_alloc (align_up k 8) T of
      None \<Rightarrow> alloc_inner k s = Some (0, s)
    | Some ((a, m), T') \<Rightarrow> \<exists>s'. alloc_inner k s = Some (a + 4, s') \<and> heap_inv lo hi s' T' \<and>
        heap_cpsr s' = heap_cpsr s \<and>
        (\<forall>b x. (b, False) \<in> set T \<longrightarrow> in_blk x b \<longrightarrow> mem s' x = mem s x)"
proof -
  let ?k = "align_up k 8"
  note I = heap_invD [OF inv] and K = align_up_8_props [OF k(2)]
  have eq: "alloc_inner k s = alloc_loop ?k (link_of []) (free_list s) s"
    by (simp add: alloc_inner_def ALIGN_def)
  note R = alloc_loop_refines [of s "[]" "free_list s" "free_blocks T" lo hi ?k]
  show ?thesis
  proof (cases "tile_alloc ?k T")
    case None
    then show ?thesis using R I K k by (simp add: eq first_fit_free_blocks)
  next
    case (Some r)
    obtain a m T' where r: "r = ((a, m), T')" by (cases r) auto
    from Some r R I K k obtain s' where s': "alloc_inner k s = Some (a + 4, s')"
      "flist s' (free_blocks T')" "blk_size s' a = m" "heap_cpsr s' = heap_cpsr s"
      and out: "\<forall>x. (\<forall>b\<in>set (free_blocks T). \<not> in_blk x b) \<longrightarrow> mem s' x = mem s x"
      by (auto simp: eq first_fit_free_blocks)
    have T': "tiled lo hi T'" using tile_alloc_tiled [OF _ I(1,2) K(1)] Some r K(4) k(1) by simp
    have used: "mem s' x = mem s x" if "((b, m), False) \<in> set T" "in_blk x (b, m)" for b m x
      using used_not_free [OF I(1) that] out by blast
    have "blk_size s' b = n" if "((b, n), f) \<in> set T'" for b n f
    proof (cases f)
      case True
      then show ?thesis using flist_sizes [OF s'(2)] that by (force simp: free_blocks_def)
    next
      case False
      have "\<forall>c\<in>set T'. c \<in> set T \<or> c = ((a, m), False) \<or> snd c"
        using tile_alloc_blocks [of ?k T a m T'] Some r by blast
      with that False have "((b, n), False) \<in> set T \<or> (b, n) = (a, m)" by fastforce
      then show ?thesis using used_size_frame [OF inv] used s'(3) by blast
    qed
    then have "heap_inv lo hi s' T'" using T' s'(2) I(2,3) by (auto simp: heap_inv_def)
    then show ?thesis using Some r s' used by auto
  qed
qed

section \<open>free\_inner refines tile\_free\<close>

fun first_addr :: "block list \<Rightarrow> u32" where
  "first_addr [] = 0"
| "first_addr ((a, n) # bs) = a"

lemma fpath_first_addr: "fpath s r bs 0 \<Longrightarrow> r = first_addr bs"
  by (cases bs) auto

lemma find_place_eq:
  assumes "fpath s cur us (first_addr vs)" "\<forall>b\<in>set us. fst b < a"
    and "vs = [] \<or> \<not> first_addr vs < a"
  shows "find_place a (link_of ps) cur s = Some (link_of (ps @ us), first_addr vs)"
  using assms(1,2)
proof (induction us arbitrary: ps cur)
  case Nil
  then show ?case using assms(3) by (auto simp: find_place.simps [of a _ "first_addr vs"])
next
  case (Cons b us)
  obtain c n where b: "b = (c, n)" by (cases b)
  have "find_place a (link_of ps) cur s = find_place a (NextOf c) (blk_next s c) s"
    using Cons.prems b by (subst find_place.simps) auto
  then show ?case using Cons.IH [of "blk_next s c" "ps @ [b]"] Cons.prems b by simp
qed

lemma get_set_link [simp]: "get_link l (set_link l v s) = v"
  by (cases l) (simp_all add: blk_next_def set_next_def)

text \<open>Linking a block in between: the list after the store to \<open>*prev\<close>.\<close>

definition link_in :: "u32 \<Rightarrow> u32 \<Rightarrow> block list \<Rightarrow> block list \<Rightarrow> heap \<Rightarrow> heap" where
  "link_in a n us vs s =
     set_link (link_of us) a (set_next a (first_addr vs) (set_size a n s))"

lemma link_in_correct:
  assumes "flist s (us @ vs)" "laid_out lo hi (us @ (a, n) # vs)" "hi \<le> 2 ^ 32" "a \<noteq> 0"
  shows "find_place a FreeList (free_list s) (set_size a n s) = Some (link_of us, first_addr vs)"
    and "flist (link_in a n us vs s) (us @ (a, n) # vs)"
proof -
  note F = fpath_header_frame [OF assms(2,3)]
  from assms(2) obtain mid where l: "laid_out lo mid us" "mid \<le> unat a" "laid_out (unat a + unat n) hi vs"
    "16 \<le> unat n" "unat a + unat n \<le> hi"
    by (auto simp: laid_out_append dest: laid_out_le)
  from assms(1) obtain r where "fpath s (free_list s) us r" "fpath s r vs 0" by (auto simp: fpath_append)
  then have p: "fpath s (free_list s) us (first_addr vs)" "fpath s (first_addr vs) vs 0"
    using fpath_first_addr by blast+
  have us: "\<forall>b\<in>set us. fst b < a"
  proof
    fix b assume b: "b \<in> set us"
    obtain c m where c: "b = (c, m)" by (cases b)
    have "unat c + unat m \<le> mid \<and> 16 \<le> unat m" using laid_out_node [OF l(1)] b c by auto
    then show "fst b < a" using l(2) c by (simp add: word_less_nat_alt)
  qed
  have vs: "vs = [] \<or> \<not> first_addr vs < a"
  proof (cases vs)
    case (Cons b bs)
    obtain c m where c: "b = (c, m)" by (cases b)
    then have "unat a \<le> unat c" using l(3) Cons by simp
    then show ?thesis using Cons c by (simp add: word_less_nat_alt)
  qed simp
  have "fpath (set_size a n s) (free_list s) us (first_addr vs)" using p F by simp
  from find_place_eq [OF this us vs, of "[]"]
  show "find_place a FreeList (free_list s) (set_size a n s) = Some (link_of us, first_addr vs)" by simp
  let ?s1 = "set_next a (first_addr vs) (set_size a n s)"
  have a8: "unat a + 8 \<le> 2 ^ 32" using l(4,5) assms(3) by linarith
  have 1: "fpath ?s1 (free_list ?s1) us (first_addr vs)" using p F by simp
  have 2: "fpath ?s1 a ((a, n) # vs) 0" using p F a8 assms(4) by simp
  have "mid \<le> 2 ^ 32" using l assms(3) by linarith
  from fpath_set_link [OF 1 l(1) this, of a]
  have 3: "fpath (link_in a n us vs s) (free_list (link_in a n us vs s)) us a" by (simp add: link_in_def)
  have 4: "fpath (link_in a n us vs s) a ((a, n) # vs) 0"
    unfolding link_in_def set_link_frame(1) [OF assms(2,3)] using 2 .
  from 3 4 show "flist (link_in a n us vs s) (us @ (a, n) # vs)" unfolding fpath_append by blast
qed

lemma link_in_bytes:
  assumes "laid_out lo hi (us @ (a, n) # vs)" "hi \<le> 2 ^ 32"
    and "\<And>b. b \<in> set us \<Longrightarrow> \<not> in_blk x b" "\<not> in_blk x (a, n)"
  shows "mem (link_in a n us vs s) x = mem s x"
proof -
  from assms(1) obtain mid where l: "laid_out lo mid us" "mid \<le> unat a" "16 \<le> unat n" "unat a + unat n \<le> hi"
    by (auto simp: laid_out_append dest: laid_out_le)
  then have "mid \<le> 2 ^ 32" using assms(2) by linarith
  from set_link_outside [OF l(1) this assms(3)] show ?thesis
    using set_header_outside [OF assms(4)] l assms(2) by (simp add: link_in_def)
qed

lemma link_in_link [simp]: "get_link (link_of us) (link_in a n us vs s) = a"
  by (simp add: link_in_def)

lemma link_of_other:
  assumes "laid_out lo hi (us @ (a, n) # vs)" "hi \<le> 2 ^ 32"
  shows "get_link (link_of us) (set_size a v s) = get_link (link_of us) s"
    "get_link (link_of us) (set_next a v s) = get_link (link_of us) s"
proof -
  have "get_link (link_of us) (set_size a v s) = get_link (link_of us) s \<and>
    get_link (link_of us) (set_next a v s) = get_link (link_of us) s"
  proof (cases us rule: rev_cases)
    case (snoc xs b)
    obtain c m where "b = (c, m)" by (cases b)
    then show ?thesis using header_frame [OF assms, of c m] snoc by simp
  qed simp
  then show "get_link (link_of us) (set_size a v s) = get_link (link_of us) s"
    "get_link (link_of us) (set_next a v s) = get_link (link_of us) s" by simp_all
qed

text \<open>\<open>*prev\<close> was just made to point to the block, so the test of the backward step
  never succeeds.\<close>

lemma coalesce_backward_idle:
  assumes "laid_out lo hi (us @ (a, n) # vs)" "hi \<le> 2 ^ 32" "get_link (link_of us) s = a"
  shows "coalesce_backward a (link_of us) (coalesce_forward a cur s) = coalesce_forward a cur s"
  using link_of_other [OF assms(1,2)] assms(3)
  by (simp add: coalesce_backward_def coalesce_forward_def Let_def)

lemma free_inner_link_in:
  assumes "flist s (us @ vs)" "laid_out lo hi (us @ (a, n) # vs)" "hi \<le> 2 ^ 32" "a \<noteq> 0"
    and "blk_size s a = n"
  shows "free_inner (a + 4) s = Some (coalesce_forward a (first_addr vs) (link_in a n us vs s))"
proof -
  have "16 \<le> unat n \<and> unat a + unat n \<le> hi" using laid_out_node [OF assms(2), of a n] by simp
  then have "unat (a + 4) = unat a + 4" using assms(3) by (simp add: unat_plus_u32)
  then have nz: "a + 4 \<noteq> 0" by auto
  let ?s = "set_size a n s"
  have "free_inner (a + 4) s = do {
      (prev, cur) \<leftarrow> find_place a FreeList (free_list ?s) ?s;
      Some (coalesce_backward a prev (coalesce_forward a cur (set_link prev a (set_next a cur ?s))))}"
    using nz assms(5) by (simp add: free_inner_def ALLOC_HDR_def Let_def)
  also have "\<dots> = Some (coalesce_backward a (link_of us)
      (coalesce_forward a (first_addr vs) (link_in a n us vs s)))"
    using link_in_correct(1) [OF assms(1-4)] by (simp add: link_in_def)
  also have "\<dots> = Some (coalesce_forward a (first_addr vs) (link_in a n us vs s))"
    by (simp add: coalesce_backward_idle [OF assms(2,3)])
  finally show ?thesis .
qed

lemma coalesce_forward_correct:
  assumes "flist s (us @ (a, n) # (c, m) # vs)" "laid_out lo hi (us @ (a, n) # (c, m) # vs)"
    "hi \<le> 2 ^ 32" "0 < lo" "unat c = unat a + unat n"
  shows "flist (coalesce_forward a c s) (us @ (a, n + m) # vs)"
    and "laid_out lo hi (us @ (a, n + m) # vs)" "unat (n + m) = unat n + unat m"
    and "\<not> in_blk x (a, n) \<Longrightarrow> mem (coalesce_forward a c s) x = mem s x"
proof -
  from assms(2) obtain mid where l: "laid_out lo mid us" "mid \<le> unat a" "8 dvd unat a" "8 dvd unat n"
    "16 \<le> unat n" "8 dvd unat m" "16 \<le> unat m" "laid_out (unat a + unat n + unat m) hi vs"
    using assms(5) by (auto simp: laid_out_append)
  then have lo: "lo \<le> unat a" "unat a + unat n + unat m \<le> hi" using laid_out_le by (fastforce, blast)
  then have nm: "unat (n + m) = unat n + unat m" using assms(3,4) by (intro unat_plus_u32) linarith
  then show "unat (n + m) = unat n + unat m" .
  have L1: "laid_out lo hi (us @ (a, n + m) # vs)"
    using l nm by (auto simp: laid_out_append add.assoc)
  then show "laid_out lo hi (us @ (a, n + m) # vs)" .
  have "unat a + unat n < 2 ^ 32" using lo assms(3) l(7) by linarith
  then have ac: "a + n = c" using assms(5) by (metis unat_plus_u32 word_unat_eq_iff)
  have "c \<noteq> 0" using assms(4,5) lo by auto
  from assms(1) have p: "fpath s (free_list s) us a" "a \<noteq> 0" "blk_size s a = n" "blk_next s a = c"
    "blk_size s c = m" "fpath s (blk_next s c) vs 0" by (auto simp: fpath_append)
  define s1 where "s1 = set_size a (n + m) s"
  have nc: "blk_next s1 c = blk_next s c"
    using header_frame(2) [OF assms(2,3), of c m] by (simp add: s1_def)
  have s': "coalesce_forward a c s = set_next a (blk_next s c) s1"
    using ac p \<open>c \<noteq> 0\<close> nc by (simp add: coalesce_forward_def s1_def)
  have a8: "unat a + 8 \<le> 2 ^ 32" using lo assms(3) l(5) by linarith
  note F = fpath_header_frame [OF L1 assms(3)]
  have 1: "fpath (coalesce_forward a c s) (free_list (coalesce_forward a c s)) us a"
    using p(1) F by (simp add: s' s1_def)
  have 2: "fpath (coalesce_forward a c s) a ((a, n + m) # vs) 0"
    using p F a8 by (simp add: s' s1_def)
  from 1 2 show "flist (coalesce_forward a c s) (us @ (a, n + m) # vs)"
    unfolding fpath_append by blast
  assume "\<not> in_blk x (a, n)"
  then show "mem (coalesce_forward a c s) x = mem s x"
    using set_header_outside [of x a n] l(5) lo assms(3) by (simp add: s' s1_def)
qed

lemma coalesce_forward_idle:
  assumes "laid_out lo hi (us @ (a, n) # vs)" "blk_size s a = n" "hi \<le> 2 ^ 32"
    and "vs = [] \<or> unat (first_addr vs) \<noteq> unat a + unat n"
  shows "coalesce_forward a (first_addr vs) s = s"
proof (cases vs)
  case Nil
  then show ?thesis by (simp add: coalesce_forward_def)
next
  case (Cons b bs)
  obtain c m where b: "b = (c, m)" by (cases b)
  have "16 \<le> unat m \<and> unat a + unat n \<le> unat c \<and> unat c + unat m \<le> hi"
    using assms(1) Cons b by (auto simp: laid_out_append dest: laid_out_le)
  then have "unat (a + n) = unat a + unat n" using assms(3) by (intro unat_plus_u32) linarith
  then show ?thesis using assms(2,4) Cons b by (auto simp: coalesce_forward_def)
qed

lemma tile_free_split:
  assumes "tiled lo hi T" "((a, n), f) \<in> set T"
  obtains U V where "T = U @ ((a, n), f) # V" "a \<notin> fst ` fst ` set U"
    "tile_free a T = U @ tile_free a (((a, n), f) # V)"
proof -
  from assms(2) obtain U V where T: "T = U @ ((a, n), f) # V" by (meson split_list)
  from assms(1) T obtain mid where mid: "tiled lo mid U" "mid = unat a" by (auto simp: tiled_append)
  have U: "unat (fst (fst c)) < unat a" if "c \<in> set U" for c
  proof -
    obtain b m g where c: "c = ((b, m), g)" by (metis prod.exhaust)
    then have "(b, m) \<in> set (map fst U)" using that by force
    from laid_out_node [OF tiled_laid_out [OF mid(1)] this] mid(2) c show ?thesis by simp
  qed
  have "tile_free a (U @ W) = U @ tile_free a W" for W
    using U by (induction U) fastforce+
  moreover have "a \<notin> fst ` fst ` set U" using U by force
  ultimately show ?thesis using T that by blast
qed

lemma tiled_addr_lt: "tiled lo hi T \<Longrightarrow> ((b, m), f) \<in> set T \<Longrightarrow> unat b < hi"
  using laid_out_node [OF tiled_laid_out, of lo hi T b m] by force

lemma tiled_addr_ge: "tiled lo hi T \<Longrightarrow> ((b, m), f) \<in> set T \<Longrightarrow> lo \<le> unat b"
  using laid_out_node [OF tiled_laid_out, of lo hi T b m] by force

text \<open>A tiling that does not start with a free block has its first free block further on.\<close>

lemma tiled_next_used:
  assumes "tiled lo hi V" "\<nexists>c m V'. V = ((c, m), True) # V'"
  shows "free_blocks V = [] \<or> unat (first_addr (free_blocks V)) \<noteq> lo"
proof (cases V)
  case (Cons c V')
  then obtain b m where c: "c = ((b, m), False)" using assms(2) by (metis prod.exhaust)
  show ?thesis
  proof (cases "free_blocks V'")
    case (Cons d ds)
    obtain e k where d: "d = (e, k)" by (cases d)
    then have "((e, k), True) \<in> set V'" using Cons by (force simp: free_blocks_def dest: arg_cong [of _ _ set])
    then have "lo + unat m \<le> unat e" using assms(1) \<open>V = c # V'\<close> c tiled_addr_ge by auto
    then show ?thesis using assms(1) \<open>V = c # V'\<close> c Cons d by auto
  qed (use \<open>V = c # V'\<close> c in simp)
qed simp

text \<open>The invariant after a block has been freed, from the new tiling and list and the bytes of
  the blocks still in use.\<close>

lemma freed_inv:
  assumes inv: "heap_inv lo hi s T" and "tiled lo hi T'" "flist s' (free_blocks T')"
    and "\<And>b m. ((b, m), False) \<in> set T' \<Longrightarrow> ((b, m), False) \<in> set T \<and> b \<noteq> a"
    and "\<And>b m x. ((b, m), False) \<in> set T \<Longrightarrow> b \<noteq> a \<Longrightarrow> in_blk x (b, m) \<Longrightarrow> mem s' x = mem s x"
  shows "heap_inv lo hi s' T'"
proof -
  have "blk_size s' b = m" if b: "((b, m), f) \<in> set T'" for b m f
  proof (cases f)
    case True
    then show ?thesis using flist_sizes [OF assms(3)] b by (force simp: free_blocks_def)
  next
    case False
    have "((b, m), False) \<in> set T" "b \<noteq> a" using assms(4) [of b m] b False by simp_all
    then show ?thesis using used_size_frame [OF inv, of b m s'] assms(5) [of b m] by blast
  qed
  then show ?thesis using assms(2,3) heap_invD(2,3) [OF inv] by (auto simp: heap_inv_def)
qed

lemma free_inner_refines:
  assumes inv: "heap_inv lo hi s T" and used: "((a, n), False) \<in> set T"
  shows "\<exists>s'. free_inner (a + 4) s = Some s' \<and> heap_inv lo hi s' (tile_free a T) \<and>
     (\<forall>b m x. ((b, m), False) \<in> set T \<longrightarrow> b \<noteq> a \<longrightarrow> in_blk x (b, m) \<longrightarrow> mem s' x = mem s x)"
proof -
  note I = heap_invD [OF inv]
  obtain U V where T: "T = U @ ((a, n), False) # V" "tile_free a T = U @ tile_free a (((a, n), False) # V)"
    using tile_free_split [OF I(1) used] by metis
  let ?us = "free_blocks U" and ?vs = "free_blocks V"
  have all: "laid_out lo hi (map fst U @ (a, n) # map fst V)" using tiled_laid_out [OF I(1)] T(1) by simp
  from I(1) T(1) have tl: "tiled lo (unat a) U" "tiled (unat a + unat n) hi V" "8 dvd unat a"
    "8 dvd unat n" "16 \<le> unat n" by (auto simp: tiled_append)
  have L: "laid_out lo hi (?us @ (a, n) # ?vs)"
    using tiled_free_laid_out [OF tl(1)] tiled_free_laid_out [OF tl(2)] tl(3-5)
    by (auto simp: laid_out_append)
  have "lo \<le> unat a" using tiled_le [OF tl(1)] .
  then have a0: "a \<noteq> 0" using I(3) by auto
  have fl: "flist s (?us @ ?vs)" using I(4) T(1) by simp
  let ?l = "link_in a n ?us ?vs s"
  have eq: "free_inner (a + 4) s = Some (coalesce_forward a (first_addr ?vs) ?l)"
    using free_inner_link_in [OF fl L I(2) a0] I(6) used by blast
  have l: "flist ?l (?us @ (a, n) # ?vs)" by (rule link_in_correct(2) [OF fl L I(2) a0])
  have la: "blk_size ?l a = n" using flist_sizes [OF l] by simp
  have other: "\<not> in_blk x (a, n)" "c \<in> set ?us \<Longrightarrow> \<not> in_blk x c"
    if h: "((b, m), False) \<in> set T" "b \<noteq> a" "in_blk x (b, m)" for b m x c
  proof -
    have "(b, m) \<in> set (map fst U) \<union> set (map fst V)" using h(1,2) T(1) by force
    from laid_out_apart [OF all this h(3)] show "\<not> in_blk x (a, n)" .
    assume "c \<in> set ?us"
    then have "c \<in> set (free_blocks T)" using T(1) by simp
    then show "\<not> in_blk x c" by (rule used_not_free [OF I(1) h(1) h(3)])
  qed
  have bytes: "mem ?l x = mem s x" if "((b, m), False) \<in> set T" "b \<noteq> a" "in_blk x (b, m)" for b m x
    by (rule link_in_bytes [OF L I(2) other(2) other(1)]) (use that in blast)+
  note inv' = freed_inv [OF inv, where a = a]
  have notin: "b \<noteq> a" if "((b, m), False) \<in> set U \<union> set V" for b m
    using that tiled_addr_lt [OF tl(1), of b m False] tiled_addr_ge [OF tl(2), of b m False] tl(5) by auto
  show ?thesis
  proof (cases "\<exists>c m V'. V = ((c, m), True) # V'")
    case True
    then obtain c m V' where V: "V = ((c, m), True) # V'" by blast
    have c: "unat c = unat a + unat n" using tl(2) V by simp
    have "flist ?l (?us @ (a, n) # (c, m) # free_blocks V')" "laid_out lo hi (?us @ (a, n) # (c, m) # free_blocks V')"
      using l L V by simp_all
    note cf = coalesce_forward_correct [OF this I(2,3) c]
    let ?s' = "coalesce_forward a c ?l" and ?T' = "U @ ((a, n + m), True) # V'"
    have "tiled lo hi ?T'"
      using tl cf(3) V by (auto simp: tiled_append add.assoc)
    moreover have "flist ?s' (free_blocks ?T')" using cf(1) by simp
    moreover have keep: "mem ?s' x = mem s x"
      if "((b, k), False) \<in> set T" "b \<noteq> a" "in_blk x (b, k)" for b k x
      using cf(4) [OF other(1) [OF that]] bytes [OF that] by simp
    moreover have "((b, k), False) \<in> set T \<and> b \<noteq> a" if "((b, k), False) \<in> set ?T'" for b k
      using that notin [of b k] T(1) V by auto
    ultimately have "heap_inv lo hi ?s' ?T'" using inv' by blast
    then show ?thesis using eq keep T(2) V by (intro exI [of _ ?s']) auto
  next
    case False
    have nb: "?vs = [] \<or> unat (first_addr ?vs) \<noteq> unat a + unat n"
      using tiled_next_used [OF tl(2)] False by blast
    have idle: "coalesce_forward a (first_addr ?vs) ?l = ?l"
      by (rule coalesce_forward_idle [OF L la I(2) nb])
    let ?T' = "U @ ((a, n), True) # V"
    have T': "tile_free a T = ?T'"
      using T(2) False by (auto split: list.splits bool.splits)
    have "tiled lo hi ?T'" using I(1) T(1) by (auto simp: tiled_append)
    moreover have "flist ?l (free_blocks ?T')" using l by simp
    moreover have "((b, k), False) \<in> set T \<and> b \<noteq> a" if "((b, k), False) \<in> set ?T'" for b k
      using that notin [of b k] T(1) by auto
    ultimately have "heap_inv lo hi ?l ?T'" using inv' bytes by blast
    then show ?thesis using eq idle T' bytes by (intro exI [of _ ?l]) auto
  qed
qed

end
