(* ===== verification/Allocator_Props.thy ===== *)
theory Allocator_Props
  imports Allocator_Refine
begin

text \<open>
  What a client of the heap may rely on.  \<open>block_heap\<close> is the contract of an allocator
  over a tiling; \<open>alloc_inner\<close> and \<open>free_inner\<close> meet it, and the theorems about
  \<open>alloc\<close>, \<open>free_bytes\<close> and \<open>init_heap\<close> are derived from it.  The last section
  records that \<open>dealloc\<close> does not find the header \<open>alloc\<close> wrote.
\<close>

section \<open>Accounting\<close>

lemma tile_alloc_total:
  "tile_alloc k T = Some ((a, m), T') \<Longrightarrow>
     free_total T = free_total T' + unat m \<and> used_total T' = used_total T + unat m"
proof (induction k T arbitrary: T' rule: tile_alloc.induct)
  case (2 k b n f T)
  show ?case
  proof (cases "f \<and> k \<le> n")
    case True
    then have "unat (n - k) = unat n - unat k" "unat k \<le> unat n"
      by (simp_all add: unat_minus_u32 word_le_nat_alt [symmetric])
    then show ?thesis using "2.prems" True by (auto split: if_splits)
  next
    case False
    then show ?thesis using "2.prems" "2.IH" by (auto split: if_splits)
  qed
qed simp

lemma totals_append [simp]:
  "free_total (T @ U) = free_total T + free_total U"
  "used_total (T @ U) = used_total T + used_total U"
  by (induction T rule: free_total.induct) auto

lemma tile_free_total:
  assumes "tiled lo hi T" "hi \<le> 2 ^ 32" "0 < lo" "((a, n), False) \<in> set T"
  shows "free_total (tile_free a T) = free_total T + unat n"
proof -
  obtain U V where T: "T = U @ ((a, n), False) # V" "tile_free a T = U @ tile_free a (((a, n), False) # V)"
    using tile_free_split [OF assms(1,4)] by metis
  show ?thesis
  proof (cases "\<exists>c m V'. V = ((c, m), True) # V'")
    case True
    then obtain c m V' where V: "V = ((c, m), True) # V'" by blast
    obtain mid where mid: "tiled lo mid U" "tiled mid hi (((a, n), False) # V)"
      using assms(1) T(1) by (auto simp: tiled_append)
    then have t: "tiled (unat a + unat n + unat m) hi V'" "unat a = mid"
      using V by (auto simp: add.assoc)
    then have "unat n + unat m < 2 ^ 32"
      using tiled_le [OF t(1)] tiled_le [OF mid(1)] assms(2,3) by linarith
    then show ?thesis using T V by (simp add: unat_plus_u32)
  next
    case False
    then show ?thesis using T by (auto split: list.splits bool.splits)
  qed
qed

lemma tile_alloc_None: "tile_alloc k T = None \<longleftrightarrow> (\<forall>((a, n), f)\<in>set T. f \<longrightarrow> n < k)"
  by (induction k T rule: tile_alloc.induct) (auto simp: not_le)

lemma tile_alloc_used:
  assumes "tile_alloc k T = Some ((a, m), T')"
  shows "((b, n), False) \<in> set T' \<longleftrightarrow> ((b, n), False) \<in> set T \<or> (b, n) = (a, m)"
  using assms
proof (induction k T arbitrary: T' rule: tile_alloc.induct)
  case (2 k c l f T)
  then show ?case by (cases "f \<and> k \<le> l") (fastforce split: if_splits)+
qed simp

lemma tile_alloc_fits:
  "tile_alloc k T = Some ((a, m), T') \<Longrightarrow> \<exists>n. ((a, n), True) \<in> set T \<and> unat m \<le> unat n"
proof (induction k T arbitrary: T' rule: tile_alloc.induct)
  case (2 k c l f T)
  then show ?case by (cases "f \<and> k \<le> l") (fastforce simp: word_le_nat_alt split: if_splits)+
qed simp

lemma tiled_once:
  assumes "tiled lo hi (U @ ((a, n), f) # V)" "((b, m), g) \<in> set U \<union> set V"
  shows "b \<noteq> a"
proof -
  obtain mid where "tiled lo mid U" "mid = unat a" "16 \<le> unat n" "tiled (unat a + unat n) hi V"
    using assms(1) by (auto simp: tiled_append)
  then show ?thesis using tiled_addr_lt [of lo mid U b m g] tiled_addr_ge [of _ hi V b m g] assms(2) by fastforce
qed

lemma tile_free_used:
  assumes "tiled lo hi T" "((a, n), False) \<in> set T"
  shows "((b, m), False) \<in> set (tile_free a T) \<longleftrightarrow> ((b, m), False) \<in> set T \<and> b \<noteq> a"
proof -
  obtain U V where T: "T = U @ ((a, n), False) # V" "tile_free a T = U @ tile_free a (((a, n), False) # V)"
    using tile_free_split [OF assms] by metis
  have "b \<noteq> a" if "((b, m), False) \<in> set U \<union> set V" for b m
    using tiled_once [of lo hi U a n False V b m False] assms(1) T(1) that by blast
  then show ?thesis using T by (auto split: list.splits bool.splits)
qed

section \<open>The contract of a block allocator\<close>

text \<open>\<open>inv s T\<close>: the state \<open>s\<close> is laid out as the tiling \<open>T\<close>; \<open>byte s x\<close> is the
  memory a client sees.  Pointers are four bytes into the block.\<close>

locale block_heap =
  fixes inv :: "'s \<Rightarrow> tiling \<Rightarrow> bool"
    and byte :: "'s \<Rightarrow> u32 \<Rightarrow> u8"
    and take :: "usize \<Rightarrow> 's \<Rightarrow> (u32 \<times> 's) option"
    and give :: "u32 \<Rightarrow> 's \<Rightarrow> 's option"
  assumes inv_tiled: "inv s T \<Longrightarrow> \<exists>lo hi. 0 < lo \<and> hi \<le> 2 ^ 32 \<and> tiled lo hi T"
    and take_None: "inv s T \<Longrightarrow> 9 \<le> unat k \<Longrightarrow> unat k + 7 < 2 ^ 32 \<Longrightarrow>
      tile_alloc (align_up k 8) T = None \<Longrightarrow> take k s = Some (0, s)"
    and take_Some: "inv s T \<Longrightarrow> 9 \<le> unat k \<Longrightarrow> unat k + 7 < 2 ^ 32 \<Longrightarrow>
      tile_alloc (align_up k 8) T = Some ((a, m), T') \<Longrightarrow>
      \<exists>s'. take k s = Some (a + 4, s') \<and> inv s' T' \<and>
        (\<forall>b x. (b, False) \<in> set T \<longrightarrow> in_blk x b \<longrightarrow> byte s' x = byte s x)"
    and give_Some: "inv s T \<Longrightarrow> ((a, n), False) \<in> set T \<Longrightarrow>
      \<exists>s'. give (a + 4) s = Some s' \<and> inv s' (tile_free a T) \<and>
        (\<forall>b m x. ((b, m), False) \<in> set T \<longrightarrow> b \<noteq> a \<longrightarrow> in_blk x (b, m) \<longrightarrow> byte s' x = byte s x)"
begin

lemma take_returns:
  "inv s T \<Longrightarrow> 9 \<le> unat k \<Longrightarrow> unat k + 7 < 2 ^ 32 \<Longrightarrow> \<exists>p s'. take k s = Some (p, s')"
proof (cases "tile_alloc (align_up k 8) T")
  case (Some r)
  obtain a m T' where "r = ((a, m), T')" by (cases r) auto
  with Some show "inv s T \<Longrightarrow> 9 \<le> unat k \<Longrightarrow> unat k + 7 < 2 ^ 32 \<Longrightarrow> ?thesis"
    using take_Some by blast
qed (use take_None in blast)

lemma block_not_null:
  assumes "inv s T" "((a, m), f) \<in> set T"
  shows "a + 4 \<noteq> 0"
proof -
  obtain lo hi where t: "0 < lo" "hi \<le> 2 ^ 32" "tiled lo hi T" using inv_tiled [OF assms(1)] by blast
  have "(a, m) \<in> set (map fst T)" using assms(2) by force
  from laid_out_node [OF tiled_laid_out [OF t(3)] this] have "unat (a + 4) = unat a + 4"
    using t(2) by (simp add: unat_plus_u32)
  then show ?thesis by auto
qed

lemma take_cases:
  assumes "inv s T" "9 \<le> unat k" "unat k + 7 < 2 ^ 32" "take k s = Some (p, s')"
  obtains "p = 0" "s' = s" "\<forall>((a, n), f)\<in>set T. f \<longrightarrow> n < align_up k 8"
  | a m T' where "p = a + 4" "p \<noteq> 0" "inv s' T'" "tile_alloc (align_up k 8) T = Some ((a, m), T')"
    "\<And>b x. (b, False) \<in> set T \<Longrightarrow> in_blk x b \<Longrightarrow> byte s' x = byte s x"
proof (cases "tile_alloc (align_up k 8) T")
  case None
  then show ?thesis using take_None [OF assms(1-3)] assms(4) that(1) tile_alloc_None by auto
next
  case (Some r)
  obtain a m T' where r: "r = ((a, m), T')" by (cases r) auto
  from take_Some [OF assms(1-3) Some [unfolded r]] assms(4) have 1: "p = a + 4" "inv s' T'"
    "\<And>b x. (b, False) \<in> set T \<Longrightarrow> in_blk x b \<Longrightarrow> byte s' x = byte s x" by auto
  have "((a, m), False) \<in> set T'" using tile_alloc_blocks [OF Some [unfolded r]] by blast
  from block_not_null [OF 1(2) this] have "p \<noteq> 0" using 1(1) by simp
  then show ?thesis using that(2) 1 Some r by blast
qed

text \<open>Taking a block and giving it back restores the capacity.\<close>

lemma take_give:
  assumes "inv s T" "9 \<le> unat k" "unat k + 7 < 2 ^ 32" "take k s = Some (p, s1)" "p \<noteq> 0"
  shows "\<exists>s2 T2. give p s1 = Some s2 \<and> inv s2 T2 \<and> free_total T2 = free_total T \<and>
    (\<forall>b. (b, False) \<in> set T2 \<longleftrightarrow> (b, False) \<in> set T) \<and>
    (\<forall>b x. (b, False) \<in> set T \<longrightarrow> in_blk x b \<longrightarrow> byte s2 x = byte s x)"
  using assms(1-4)
proof (cases rule: take_cases)
  case (2 a m T')
  have used: "((a, m), False) \<in> set T'" using tile_alloc_blocks [OF 2(4)] by blast
  obtain lo hi where t: "0 < lo" "hi \<le> 2 ^ 32" "tiled lo hi T'" using inv_tiled [OF 2(3)] by blast
  obtain s2 where s2: "give p s1 = Some s2" "inv s2 (tile_free a T')"
    and keep: "\<And>b m x. ((b, m), False) \<in> set T' \<Longrightarrow> b \<noteq> a \<Longrightarrow> in_blk x (b, m) \<Longrightarrow> byte s2 x = byte s1 x"
    using give_Some [OF 2(3) used] 2(1) by blast
  have new: "b \<noteq> a" if "((b, n), False) \<in> set T" for b n
  proof
    assume "b = a"
    obtain lo' hi' where t': "tiled lo' hi' T" using inv_tiled [OF assms(1)] by blast
    obtain l where l: "((a, l), True) \<in> set T" using tile_alloc_blocks [OF 2(4)] by blast
    then obtain U V where T: "T = U @ ((a, l), True) # V" by (meson split_list)
    show False using tiled_once [OF t' [unfolded T], of b n False] that \<open>b = a\<close> T by auto
  qed
  have mem: "((b, n), False) \<in> set (tile_free a T') \<longleftrightarrow> ((b, n), False) \<in> set T" for b n
    using tile_free_used [OF t(3) used, of b n] tile_alloc_used [OF 2(4), of b n] new by auto
  moreover have "byte s2 x = byte s x" if "((b, n), False) \<in> set T" "in_blk x (b, n)" for b n x
    using keep [of b n x] 2(5) that new [OF that(1)] tile_alloc_used [OF 2(4), of b n] by auto
  moreover have "free_total (tile_free a T') = free_total T"
    using tile_free_total [OF t(3,2,1) used] tile_alloc_total [OF 2(4)] by simp
  ultimately show ?thesis using s2 by (intro exI [of _ s2] exI [of _ "tile_free a T'"]) auto
qed (use assms(5) in simp)

end


interpretation heap: block_heap "heap_inv lo hi" mem alloc_inner free_inner for lo hi
proof
  fix s :: heap and T :: tiling and k :: usize and a m n T'
  assume inv: "heap_inv lo hi s T"
  show "\<exists>lo hi. 0 < lo \<and> hi \<le> 2 ^ 32 \<and> tiled lo hi T"
    using heap_invD [OF inv] by blast
  show "\<exists>s'. free_inner (a + 4) s = Some s' \<and> heap_inv lo hi s' (tile_free a T) \<and>
      (\<forall>b m x. ((b, m), False) \<in> set T \<longrightarrow> b \<noteq> a \<longrightarrow> in_blk x (b, m) \<longrightarrow> mem s' x = mem s x)"
    if "((a, n), False) \<in> set T" using free_inner_refines [OF inv that] .
  assume k: "9 \<le> unat k" "unat k + 7 < 2 ^ 32"
  note R = alloc_inner_refines [OF inv k]
  show "tile_alloc (align_up k 8) T = None \<Longrightarrow> alloc_inner k s = Some (0, s)" using R by simp
  show "\<exists>s'. alloc_inner k s = Some (a + 4, s') \<and> heap_inv lo hi s' T' \<and>
      (\<forall>b x. (b, False) \<in> set T \<longrightarrow> in_blk x b \<longrightarrow> mem s' x = mem s x)"
    if "tile_alloc (align_up k 8) T = Some ((a, m), T')" using R that by auto
qed

section \<open>alloc\<close>

text \<open>The bytes an allocation may use: they lie in the block that was taken.\<close>

lemma unat_pow2:
  assumes "k < 32"
  shows "unat (2 ^ k :: u32) = 2 ^ k"
proof -
  have "(2 :: nat) ^ k < 2 ^ 32" using assms by (intro power_strict_increasing) auto
  then have "unat (word_of_nat (2 ^ k) :: u32) = 2 ^ k" by (subst unat_of_nat) simp
  then show ?thesis by simp
qed

lemma align_up_pow2:
  assumes "k < 32" "unat x + 2 ^ k \<le> 2 ^ 32"
  shows "unat (align_up x (2 ^ k)) = (unat x + 2 ^ k - 1) div 2 ^ k * 2 ^ k"
proof -
  have m: "(2 ^ k :: u32) - 1 = mask k" by (simp add: mask_eq_exp_minus_1)
  have p: "unat (2 ^ k :: u32) = 2 ^ k" using assms(1) by (simp add: unat_pow2)
  have 1: "(1 :: nat) \<le> 2 ^ k" by simp
  have "unat (mask k :: u32) = 2 ^ k - 1"
    unfolding m [symmetric] using p by (subst unat_minus_u32) (simp_all add: word_le_nat_alt)
  then have "unat (x + mask k) = unat x + 2 ^ k - 1"
    using assms(2) 1 by (subst unat_plus_u32) simp_all
  then show ?thesis
    by (simp add: align_up_def add_diff_eq [symmetric] m unat_clear_low)
qed

lemma round_up_le: "(x :: nat) \<le> (x + d - 1) div d * d" and round_up_lt: "(x + d - 1) div d * d \<le> x + d - 1"
  if "0 < d"
proof -
  have "(x + d - 1) div d * d + (x + d - 1) mod d = x + d - 1" by simp
  moreover have "(x + d - 1) mod d < d" using that by simp
  ultimately show "x \<le> (x + d - 1) div d * d" "(x + d - 1) div d * d \<le> x + d - 1" by linarith+
qed

lemma heap_inv_cpsr [simp]: "heap_inv lo hi (s\<lparr>heap_cpsr := c\<rparr>) T = heap_inv lo hi s T"
proof -
  have "fpath (s\<lparr>heap_cpsr := c\<rparr>) p bs q = fpath s p bs q" for p bs q
    by (induction bs arbitrary: p) (auto simp: blk_size_def blk_next_def)
  then show ?thesis by (simp add: heap_inv_def blk_size_def)
qed

lemma max_align:
  assumes "k < 32"
  shows "max (2 ^ k) ALIGN = (2 ^ max k 3 :: u32)"
proof (cases "k \<le> 3")
  case True
  then have "k \<in> {0, 1, 2, 3}" by auto
  then show ?thesis by (auto simp: ALIGN_def max_def)
next
  case False
  then have "(2::nat) ^ 3 \<le> 2 ^ k" by (intro power_increasing) auto
  then have "(8 :: u32) \<le> 2 ^ k" using assms by (simp add: word_le_nat_alt unat_pow2)
  then show ?thesis using False by (simp add: ALIGN_def max_def)
qed

text \<open>The padded request of \<open>alloc\<close>, and what an address aligned in its block leaves.\<close>

definition fits_layout :: "usize \<Rightarrow> nat \<Rightarrow> bool" where
  "fits_layout sz k \<longleftrightarrow> k < 32 \<and> unat sz + 2 ^ max k 3 + 17 < 2 ^ 32"

definition request :: "usize \<Rightarrow> nat \<Rightarrow> usize" where
  "request sz k = align_up (sz + ALLOC_HDR + 2 ^ max k 3 - 1) ALIGN"

lemma request_props:
  assumes "fits_layout sz k"
  shows "unat sz + 3 + 2 ^ max k 3 \<le> unat (request sz k)" "9 \<le> unat (request sz k)"
    "unat (request sz k) + 7 < 2 ^ 32"
proof -
  let ?a = "2 ^ max k 3 :: nat"
  have k: "max k 3 < 32" using assms by (auto simp: fits_layout_def)
  have "(2::nat) ^ 3 \<le> ?a" by (intro power_increasing) auto
  then have a: "8 \<le> ?a" "unat (2 ^ max k 3 :: u32) = ?a" using k by (simp_all add: unat_pow2)
  let ?r = "sz + 3 + 2 ^ max k 3 :: u32"
  have b: "unat sz + ?a + 17 < 2 ^ 32" using assms by (simp add: fits_layout_def)
  have "unat (sz + 3) = unat sz + 3" using b by (simp add: unat_plus_u32)
  then have r: "unat ?r = unat sz + 3 + ?a" using a b by (simp add: unat_plus_u32)
  have eq: "request sz k = align_up ?r 8"
    by (simp add: request_def ALLOC_HDR_def ALIGN_def algebra_simps)
  have "unat ?r + 7 < 2 ^ 32" using r b by simp
  note P = align_up_8_props [OF this]
  show "unat sz + 3 + ?a \<le> unat (request sz k)" using P r by (simp add: eq)
  then show "9 \<le> unat (request sz k)" using a by simp
  show "unat (request sz k) + 7 < 2 ^ 32" using P(3) b r unfolding eq by linarith
qed

lemma alloc_eq:
  assumes "k < 32"
  shows "alloc sz (2 ^ k) s = map_option
    (\<lambda>(p, s'). (if p = 0 then 0 else align_up p (2 ^ max k 3),
       s'\<lparr>heap_cpsr := interrupt_enable (heap_cpsr s) (heap_cpsr s')\<rparr>))
    (alloc_inner (request sz k) (s\<lparr>heap_cpsr := heap_cpsr s OR NOINT\<rparr>))"
  using assms
  by (cases "alloc_inner (request sz k) (s\<lparr>heap_cpsr := heap_cpsr s OR NOINT\<rparr>)")
    (auto simp: alloc_def max_align request_def mask_irqs_def unmask_irqs_def Let_def)

lemma alloc_refines:
  assumes inv: "heap_inv lo hi s T" and fit: "fits_layout sz k"
  shows "(alloc sz (2 ^ k) s = Some (0, s) \<and> tile_alloc (align_up (request sz k) 8) T = None) \<or>
    (\<exists>p s' a m T'. alloc sz (2 ^ k) s = Some (p, s') \<and>
       tile_alloc (align_up (request sz k) 8) T = Some ((a, m), T') \<and> heap_inv lo hi s' T' \<and>
       heap_cpsr s' = heap_cpsr s \<and> p = align_up (a + 4) (2 ^ max k 3) \<and>
       (\<forall>b x. (b, False) \<in> set T \<longrightarrow> in_blk x b \<longrightarrow> mem s' x = mem s x))"
proof -
  let ?s = "s\<lparr>heap_cpsr := heap_cpsr s OR NOINT\<rparr>" and ?k = "align_up (request sz k) 8"
  have k: "k < 32" using fit by (simp add: fits_layout_def)
  note R = request_props [OF fit]
  have inv': "heap_inv lo hi ?s T" using inv by simp
  note A = alloc_inner_refines [OF inv' R(2,3)]
  show ?thesis
  proof (cases "tile_alloc ?k T")
    case None
    then show ?thesis using A by (simp add: alloc_eq [OF k])
  next
    case (Some r)
    obtain a m T' where r: "r = ((a, m), T')" by (cases r) auto
    from A Some r obtain s' where s': "alloc_inner (request sz k) ?s = Some (a + 4, s')"
      "heap_inv lo hi s' T'" "heap_cpsr s' = heap_cpsr s OR NOINT"
      "\<forall>b x. (b, False) \<in> set T \<longrightarrow> in_blk x b \<longrightarrow> mem s' x = mem s x" by auto
    have "((a, m), False) \<in> set T'" using tile_alloc_blocks [of ?k T a m T'] Some r by blast
    from heap.block_not_null [OF s'(2) this] have "a + 4 \<noteq> 0" .
    then have "alloc sz (2 ^ k) s = Some (align_up (a + 4) (2 ^ max k 3), s'\<lparr>heap_cpsr := heap_cpsr s\<rparr>)"
      using s'(1,3) by (simp add: alloc_eq [OF k])
    moreover have "heap_inv lo hi (s'\<lparr>heap_cpsr := heap_cpsr s\<rparr>) T'" using s'(2) by simp
    ultimately show ?thesis using s'(4) Some r by fastforce
  qed
qed

text \<open>The client's bytes: aligned, past the header and inside the block.\<close>

lemma alloc_client_area:
  assumes inv: "heap_inv lo hi s T" and fit: "fits_layout sz k"
    and "tile_alloc (align_up (request sz k) 8) T = Some ((a, m), T')" "heap_inv lo hi s' T'"
  defines "p \<equiv> align_up (a + 4) (2 ^ max k 3)"
  shows "2 ^ k dvd unat p" "unat a + 8 \<le> unat p" "unat p + unat sz \<le> unat a + unat m" "p \<noteq> 0"
proof -
  let ?a = "2 ^ max k 3 :: nat"
  note R = request_props [OF fit]
  note T' = heap_invD [OF assms(4)]
  note B = tile_alloc_blocks [OF assms(3)]
  have "(a, m) \<in> set (map fst T')" using B by force
  from laid_out_node [OF tiled_laid_out [OF T'(1)] this] have n: "unat a + unat m \<le> hi" "8 dvd unat a"
    by auto
  have "unat (align_up (request sz k) 8) \<le> unat m" using B by (simp add: word_le_nat_alt)
  then have m: "unat sz + 3 + ?a \<le> unat m" using align_up_8_props(2) [OF R(3)] R(1) by linarith
  have k: "max k 3 < 32" using fit by (auto simp: fits_layout_def)
  have "(2::nat) ^ 3 \<le> ?a" by (intro power_increasing) auto
  then have a4: "unat (a + 4) = unat a + 4" using m n T'(2) by (simp add: unat_plus_u32)
  have d8: "8 dvd ?a" using le_imp_power_dvd [of 3 "max k 3" "2::nat"] by simp
  have "unat a + 4 + ?a \<noteq> 2 ^ 32 + 1"
  proof
    assume "unat a + 4 + ?a = 2 ^ 32 + 1"
    moreover obtain q where "unat a + ?a = 8 * q" using d8 n(2) by (metis dvd_add dvd_def)
    ultimately have "8 * q + 4 = 4294967297" by simp
    then show False by presburger
  qed
  then have up: "unat (a + 4) + ?a \<le> 2 ^ 32" using a4 m n T'(2) by simp
  have p: "unat p = (unat a + 4 + ?a - 1) div ?a * ?a"
    using align_up_pow2 [OF k up] a4 by (simp add: p_def)
  have "2 ^ k dvd ?a" by (simp add: le_imp_power_dvd)
  then show "2 ^ k dvd unat p" using p by simp
  have lb: "unat a + 4 \<le> unat p" using round_up_le [of ?a "unat a + 4"] p by simp
  have "8 dvd unat p" using p d8 by simp
  then show "unat a + 8 \<le> unat p" using lb n(2) by presburger
  then show "p \<noteq> 0" by auto
  have "0 < ?a" by simp
  from round_up_lt [OF this, of "unat a + 4"] have "unat p \<le> unat a + 4 + ?a - 1"
    unfolding p .
  then show "unat p + unat sz \<le> unat a + unat m" using m \<open>0 < ?a\<close> by linarith
qed

section \<open>init\_heap\<close>

lemma blk_free_list_update [simp]:
  "blk_next (s\<lparr>free_list := p\<rparr>) a = blk_next s a" "blk_size (s\<lparr>free_list := p\<rparr>) a = blk_size s a"
  by (simp_all add: blk_next_def blk_size_def)

text \<open>A heap of at least 24 bytes whose start is aligned becomes one free block.\<close>

lemma init_heap_establishes:
  assumes "8 dvd unat start" "0 < unat start" "24 \<le> unat sz" "unat start + unat sz \<le> 2 ^ 32"
  defines "n \<equiv> sz AND NOT 7"
  shows "unat n = unat sz div 8 * 8"
    and "heap_inv (unat start) (unat start + unat n) (init_heap start sz s) [((start, n), True)]"
    and "heap_cpsr (init_heap start sz s) = heap_cpsr s"
proof -
  have m: "(7 :: u32) = mask 3" by (simp add: mask_eq_exp_minus_1)
  show n: "unat n = unat sz div 8 * 8" unfolding n_def m unat_clear_low by simp
  then have n24: "24 \<le> unat n" "unat n \<le> unat sz" using assms(3) by presburger+
  have "unat start + 7 < 2 ^ 32" using n24 assms(4) by linarith
  from align_up_8 [OF this] assms(1) have "unat (align_up start 8) = unat start" by (elim dvdE) simp
  then have st: "align_up start 8 = start" by (simp add: word_unat_eq_iff)
  have "\<not> n < 24" using n24 by (simp add: word_less_nat_alt)
  then have eq: "init_heap start sz s =
      (set_next start 0 (set_size start n s))\<lparr>free_list := start\<rparr>"
    by (simp add: init_heap_def alloc_consts st n_def Let_def)
  then show "heap_cpsr (init_heap start sz s) = heap_cpsr s" by simp
  have s8: "unat start + 8 \<le> 2 ^ 32" using n24 assms(4) by linarith
  have "blk_next (init_heap start sz s) start = 0" "blk_size (init_heap start sz s) start = n"
    using s8 by (simp_all add: eq)
  moreover have "free_list (init_heap start sz s) = start" by (simp add: eq)
  moreover have "start \<noteq> 0" using assms(2) by auto
  moreover have "8 dvd unat n" using n by simp
  ultimately show "heap_inv (unat start) (unat start + unat n) (init_heap start sz s) [((start, n), True)]"
    using assms(1,2,4) n24 by (simp add: heap_inv_def)
qed

section \<open>free\_bytes\<close>

lemma sum_free_path:
  assumes "fpath s cur bs 0"
  shows "sum_free cur acc s = Some (acc + sum_list (map snd bs))"
  using assms
proof (induction bs arbitrary: cur acc)
  case Nil
  then show ?case by (subst sum_free.simps) simp
next
  case (Cons b bs)
  then show ?case by (cases b) (subst sum_free.simps, simp add: add.assoc)
qed

lemma sum_free_total: "unat (sum_list (map snd (free_blocks T)) :: u32) = free_total T mod 2 ^ 32"
proof (induction T rule: free_total.induct)
  case (2 a n f T)
  then show ?case by (simp add: unat_word_ariths) (metis mod_add_right_eq)
qed simp

lemma free_bytes_correct:
  assumes "heap_inv lo hi s T"
  shows "\<exists>n. free_bytes s = Some (n, s) \<and> unat n = free_total T"
proof -
  note I = heap_invD [OF assms]
  let ?s = "s\<lparr>heap_cpsr := heap_cpsr s OR NOINT\<rparr>"
  have "heap_inv lo hi ?s T" using assms by simp
  from heap_invD(4) [OF this] have "fpath ?s (free_list s) (free_blocks T) 0" by simp
  from sum_free_path [OF this, of 0]
  have "free_bytes s = Some (sum_list (map snd (free_blocks T)), s)"
    by (simp add: free_bytes_def mask_irqs_def unmask_irqs_def)
  moreover have "free_total T < 2 ^ 32" using tiled_total [OF I(1)] I(2,3) by linarith
  ultimately show ?thesis using sum_free_total [of T] by simp
qed

section \<open>Sequences of requests\<close>

text \<open>Any sequence of \<open>alloc_inner\<close> and of \<open>free_inner\<close> of live pointers.  \<open>live\<close> is
  the set of pointers handed out and not yet given back.\<close>

inductive heap_run :: "heap \<Rightarrow> heap \<Rightarrow> u32 set \<Rightarrow> bool" for s0 where
  start: "heap_run s0 s0 {}"
| take: "heap_run s0 s live \<Longrightarrow> 9 \<le> unat k \<Longrightarrow> unat k + 7 < 2 ^ 32 \<Longrightarrow>
    alloc_inner k s = Some (p, s') \<Longrightarrow> heap_run s0 s' (if p = 0 then live else insert p live)"
| give: "heap_run s0 s live \<Longrightarrow> p \<in> live \<Longrightarrow> free_inner p s = Some s' \<Longrightarrow> heap_run s0 s' (live - {p})"

inductive_cases heap_run_cases: "heap_run s0 s live"

definition live_of :: "tiling \<Rightarrow> u32 set" where
  "live_of T = {a + 4 |a n. ((a, n), False) \<in> set T}"

lemma heap_run_inv:
  assumes "heap_run s0 s live" "heap_inv lo hi s0 T0" "live_of T0 = {}"
  shows "\<exists>T. heap_inv lo hi s T \<and> live = live_of T"
  using assms(1)
proof (induction rule: heap_run.induct)
  case start
  then show ?case using assms by auto
next
  case (take s live k p s')
  then obtain T where T: "heap_inv lo hi s T" "live = live_of T" by blast
  show ?case
    using T(1) take.hyps(2-4)
  proof (cases rule: heap.take_cases)
    case (2 a m T')
    have "live_of T' = insert p (live_of T)"
      using tile_alloc_used [OF 2(4)] 2(1) by (auto simp: live_of_def)
    then show ?thesis using 2 T by auto
  qed (use T in auto)
next
  case (give s live p s')
  then obtain T where T: "heap_inv lo hi s T" "live = live_of T" by blast
  then obtain a n where a: "p = a + 4" "((a, n), False) \<in> set T" using give.hyps(2) by (auto simp: live_of_def)
  from heap.give_Some [OF T(1) a(2)] have "heap_inv lo hi s' (tile_free a T)" using give.hyps(3) a(1) by auto
  moreover have "live_of (tile_free a T) = live - {p}"
    using tile_free_used [OF heap_invD(1) [OF T(1)] a(2)] a T(2) by (auto simp: live_of_def)
  ultimately show ?case by blast
qed

section \<open>Writes of the client\<close>

lemma tiled_apart:
  assumes "tiled lo hi T" "((a, n), f) \<in> set T" "((b, m), g) \<in> set T" "((a, n), f) \<noteq> ((b, m), g)"
    "in_blk x (b, m)"
  shows "\<not> in_blk x (a, n)"
proof -
  obtain U V where T: "T = U @ ((a, n), f) # V" using assms(2) by (meson split_list)
  have "((b, m), g) \<in> set U \<union> set V" using assms(3,4) T by auto
  then have "(b, m) \<in> set (map fst U) \<union> set (map fst V)" by force
  moreover have "laid_out lo hi (map fst U @ (a, n) # map fst V)" using tiled_laid_out [OF assms(1)] T by simp
  ultimately show ?thesis using laid_out_apart assms(5) by blast
qed

text \<open>A client may write anything into its block past the first four bytes.\<close>

lemma heap_inv_client_write:
  assumes inv: "heap_inv lo hi s T" and used: "((a, n), False) \<in> set T"
    and "free_list s' = free_list s"
    and out: "\<And>x. unat x < unat a + 4 \<or> unat a + unat n \<le> unat x \<Longrightarrow> mem s' x = mem s x"
  shows "heap_inv lo hi s' T"
proof -
  note I = heap_invD [OF inv]
  have other: "mem s' x = mem s x"
    if "((b, m), f) \<in> set T" "((a, n), False) \<noteq> ((b, m), f)" "in_blk x (b, m)" for b m f x
    using tiled_apart [OF I(1) used that] by (intro out) auto
  have free: "mem s' x = mem s x" if "c \<in> set (free_blocks T)" "in_blk x c" for c x
  proof -
    obtain b m where c: "c = (b, m)" by (cases c)
    then have "((b, m), True) \<in> set T" using that(1) by (auto simp: free_blocks_def)
    then show ?thesis using other [of b m True x] that(2) c by simp
  qed
  have "(a, n) \<in> set (map fst T)" using used by force
  from laid_out_node [OF tiled_laid_out [OF I(1)] this] have n: "16 \<le> unat n" "unat a + unat n \<le> hi" by auto
  have "blk_size s' b = m" if b: "((b, m), f) \<in> set T" for b m f
  proof (cases "((a, n), False) = ((b, m), f)")
    case True
    have "blk_size s' a = blk_size s a" unfolding blk_size_def
      by (rule ld32_cong) (use out n I(2) in auto)
    then show ?thesis using I(6) [OF used] True by simp
  next
    case False
    have "(b, m) \<in> set (map fst T)" using b by force
    from laid_out_node [OF tiled_laid_out [OF I(1)] this] have m: "16 \<le> unat m" "unat b + unat m \<le> hi" by auto
    have "blk_size s' b = blk_size s b"
      by (rule header_cong(1) [of b m]) (use other [OF b False] m I(2) in auto)
    then show ?thesis using I(6) [OF b] by simp
  qed
  moreover have "flist s' (free_blocks T)"
    using fpath_cong [OF free I(5,2)] I(4) assms(3) by simp
  ultimately show ?thesis using inv by (auto simp: heap_inv_def)
qed

lemma write_bytes_at:
  assumes "n \<le> 2 ^ 32"
  shows "write_bytes p b n m x = (if unat (x - p) < n then b else m x)"
  using assms
proof (induction n arbitrary: p m)
  case (Suc n)
  show ?case
  proof (cases "x = p")
    case False
    then have "unat (x - p) \<noteq> 0" by (metis right_minus_eq unat_eq_zero)
    then have "unat (x - p - 1) = unat (x - p) - 1"
      by (subst unat_minus_u32) (simp_all add: word_le_nat_alt)
    then have "unat (x - (p + 1)) = unat (x - p) - 1" by (simp add: diff_diff_eq)
    then show ?thesis using Suc False \<open>unat (x - p) \<noteq> 0\<close> by auto
  qed (use Suc in simp)
qed simp

lemma copy_bytes_outside:
  assumes "n \<le> 2 ^ 32" "n \<le> unat (x - q)"
  shows "copy_bytes p q n m x = m x"
  using assms
proof (induction n arbitrary: p q m)
  case (Suc n)
  then have "unat (x - q) \<noteq> 0" by simp
  then have "x \<noteq> q" by auto
  have "unat (x - q - 1) = unat (x - q) - 1"
    using Suc by (subst unat_minus_u32) (simp_all add: word_le_nat_alt)
  then have "n \<le> unat (x - (q + 1))" using Suc by (simp add: diff_diff_eq)
  then show ?case using Suc \<open>x \<noteq> q\<close> by simp
qed simp

section \<open>dealloc after alloc\<close>

lemmas heap_eval = blk_size_def blk_next_def set_size_def set_next_def alloc_consts
  mem.ld_st_apart apart_def Let_def

text \<open>A heap of 64 bytes, a block of 24 taken from it, and that block given to \<open>dealloc\<close>.\<close>

definition small_heap :: "heap \<Rightarrow> heap" where
  "small_heap s = init_heap 0x80100000 64 s"

definition small_taken :: "heap \<Rightarrow> heap" where
  "small_taken s = s\<lparr>free_list := 0x80100018,
     mem := st32 (st32 (st32 (st32 (st32 (mem s) 0x80100000 64) 0x80100004 0)
       0x80100018 40) 0x8010001C 0) 0x80100000 24\<rparr>"

definition small_given :: "heap \<Rightarrow> heap" where
  "small_given s = small_taken s\<lparr>free_list := 0x80100004,
     mem := st32 (st32 (mem (small_taken s)) 0x80100004 0) 0x80100008 0x80100018\<rparr>"

lemma small_alloc: "alloc 8 8 (small_heap s) = Some (0x80100008, small_taken s)"
proof -
  have "small_heap s = s\<lparr>mem := st32 (st32 (mem s) 0x80100000 64) 0x80100004 0, free_list := 0x80100000\<rparr>"
    by (simp add: small_heap_def init_heap_def align_up_def heap_eval)
  then show ?thesis
    by (simp add: alloc_def alloc_inner_def align_up_def alloc_consts mask_irqs_def unmask_irqs_def)
      (subst alloc_loop_eq, simp add: take_block_def heap_eval align_up_def small_taken_def)
qed

lemma small_dealloc: "dealloc 0x80100008 (small_taken s) = Some (small_given s)"
  by (simp add: dealloc_def free_inner_def mask_irqs_def unmask_irqs_def small_taken_def heap_eval)
    (subst find_place.simps, simp add: heap_eval coalesce_forward_def coalesce_backward_def
      small_given_def small_taken_def)

lemma small_free_bytes:
  "free_bytes (small_heap s) = Some (64, small_heap s)"
  "free_bytes (small_given s) = Some (40, small_given s)"
proof -
  have 1: "small_heap s = s\<lparr>mem := st32 (st32 (mem s) 0x80100000 64) 0x80100004 0, free_list := 0x80100000\<rparr>"
    by (simp add: small_heap_def init_heap_def align_up_def heap_eval)
  have "fpath (small_heap s\<lparr>heap_cpsr := c\<rparr>) 0x80100000 [(0x80100000, 64)] 0" for c
    by (simp add: 1 heap_eval)
  from sum_free_path [OF this, of 0] show "free_bytes (small_heap s) = Some (64, small_heap s)"
    by (simp add: free_bytes_def mask_irqs_def unmask_irqs_def 1)
  have "fpath (small_given s\<lparr>heap_cpsr := c\<rparr>) 0x80100004 [(0x80100004, 0), (0x80100018, 40)] 0" for c
    by (simp add: small_given_def small_taken_def heap_eval)
  from sum_free_path [OF this, of 0] show "free_bytes (small_given s) = Some (40, small_given s)"
    by (simp add: free_bytes_def mask_irqs_def unmask_irqs_def small_given_def small_taken_def)
qed

section \<open>The live blocks\<close>

lemma live_of_simps [simp]:
  "live_of [] = {}"
  "live_of (((a, n), f) # T) = (if f then live_of T else insert (a + 4) (live_of T))"
  by (auto simp: live_of_def)

lemma finite_live [simp]: "finite (live_of T)"
  by (induction T rule: used_total.induct) auto

lemma live_sum:
  assumes "tiled lo hi T" "\<And>a n f. ((a, n), f) \<in> set T \<Longrightarrow> sz a = n"
  shows "(\<Sum>p\<in>live_of T. unat (sz (p - 4))) = used_total T"
  using assms
proof (induction T arbitrary: lo rule: used_total.induct)
  case (2 a n f T)
  have t: "tiled (lo + unat n) hi T" "unat a = lo" "16 \<le> unat n" using "2.prems"(1) by auto
  have "a + 4 \<notin> live_of T"
  proof
    assume "a + 4 \<in> live_of T"
    then obtain m where "((a, m), False) \<in> set T" by (auto simp: live_of_def)
    then show False using tiled_addr_ge [OF t(1)] t by fastforce
  qed
  moreover have "sz a = n" using "2.prems"(2) [of a n f] by simp
  moreover have "(\<Sum>p\<in>live_of T. unat (sz (p - 4))) = used_total T"
    by (rule "2.IH" [OF t(1)]) (use "2.prems"(2) in auto)
  ultimately show ?case by simp
qed simp

lemma live_bounds:
  assumes "heap_inv lo hi s T" "p \<in> live_of T"
  obtains a n where "p = a + 4" "unat p = unat a + 4" "((a, n), False) \<in> set T"
    "blk_size s (p - 4) = n" "lo \<le> unat a" "unat a + unat n \<le> hi"
proof -
  note I = heap_invD [OF assms(1)]
  obtain a n where a: "p = a + 4" "((a, n), False) \<in> set T" using assms(2) by (auto simp: live_of_def)
  then have "(a, n) \<in> set (map fst T)" by force
  from laid_out_node [OF tiled_laid_out [OF I(1)] this] have b: "lo \<le> unat a" "unat a + unat n \<le> hi" "16 \<le> unat n"
    by auto
  then have "unat p = unat a + 4" using I(2) a by (simp add: unat_plus_u32)
  moreover have "blk_size s (p - 4) = n" using I(6) [OF a(2)] a(1) by simp
  ultimately show ?thesis using that a b by blast
qed

lemma live_disjoint:
  assumes "heap_inv lo hi s T" "p \<in> live_of T" "q \<in> live_of T" "p < q"
  shows "unat p + unat (blk_size s (p - 4)) \<le> unat q"
proof -
  note I = heap_invD [OF assms(1)]
  obtain a n where a: "unat p = unat a + 4" "((a, n), False) \<in> set T" "blk_size s (p - 4) = n"
    "unat a + unat n \<le> hi" using live_bounds [OF assms(1,2)] by metis
  obtain b m where b: "unat q = unat b + 4" "((b, m), False) \<in> set T" "unat b + unat m \<le> hi"
    using live_bounds [OF assms(1,3)] by metis
  have lt: "unat a < unat b" using assms(4) a(1) b(1) by (simp add: word_less_nat_alt)
  have "((a, n), False) \<noteq> ((b, m), False)" using lt by auto
  moreover have "in_blk b (b, m)"
  proof -
    have "(b, m) \<in> set (map fst T)" using b(2) by force
    from laid_out_node [OF tiled_laid_out [OF I(1)] this] show ?thesis by auto
  qed
  ultimately have "\<not> in_blk b (a, n)" using tiled_apart [OF I(1) a(2) b(2)] by blast
  then show ?thesis using a b lt by auto
qed

lemma alloc_correct_lemma:
  assumes "heap_inv lo hi s T" "fits_layout sz k"
  shows "\<exists>p s'. alloc sz (2 ^ k) s = Some (p, s') \<and> heap_cpsr s' = heap_cpsr s \<and>
    (if p = 0 then s' = s \<and> (\<forall>((a, n), f)\<in>set T. f \<longrightarrow> n < align_up (request sz k) 8)
     else \<exists>a m T'. heap_inv lo hi s' T' \<and> 2 ^ k dvd unat p \<and>
       unat a + 8 \<le> unat p \<and> unat p + unat sz \<le> unat a + unat m \<and>
       (\<forall>b. (b, False) \<in> set T' \<longleftrightarrow> (b, False) \<in> set T \<or> b = (a, m)) \<and>
       (\<forall>b x. (b, False) \<in> set T \<longrightarrow> in_blk x b \<longrightarrow> mem s' x = mem s x \<and> \<not> in_blk x (a, m)))"
  using alloc_refines [OF assms]
proof (elim disjE exE conjE)
  assume "alloc sz (2 ^ k) s = Some (0, s)" "tile_alloc (align_up (request sz k) 8) T = None"
  then show ?thesis by (auto simp: tile_alloc_None)
next
  fix p s' a m T'
  assume a: "alloc sz (2 ^ k) s = Some (p, s')" "tile_alloc (align_up (request sz k) 8) T = Some ((a, m), T')"
    "heap_inv lo hi s' T'" "heap_cpsr s' = heap_cpsr s" "p = align_up (a + 4) (2 ^ max k 3)"
    and keep: "\<forall>b x. (b, False) \<in> set T \<longrightarrow> in_blk x b \<longrightarrow> mem s' x = mem s x"
  note area = alloc_client_area [OF assms a(2,3), folded a(5)]
  have used: "(b, False) \<in> set T' \<longleftrightarrow> (b, False) \<in> set T \<or> b = (a, m)" for b
    using tile_alloc_used [OF a(2), of "fst b" "snd b"] by simp
  obtain n where n: "((a, n), True) \<in> set T" "unat m \<le> unat n" using tile_alloc_fits [OF a(2)] by blast
  have "\<not> in_blk x (a, m)" if "(b, False) \<in> set T" "in_blk x b" for b x
    using tiled_apart [OF heap_invD(1) [OF assms(1)] n(1), of "fst b" "snd b" False x] that n(2) by auto
  moreover have "2 ^ k dvd unat p \<and> unat a + 8 \<le> unat p \<and> unat p + unat sz \<le> unat a + unat m"
    using area by simp
  ultimately have "\<exists>a m T'. heap_inv lo hi s' T' \<and> 2 ^ k dvd unat p \<and>
       unat a + 8 \<le> unat p \<and> unat p + unat sz \<le> unat a + unat m \<and>
       (\<forall>b. (b, False) \<in> set T' \<longleftrightarrow> (b, False) \<in> set T \<or> b = (a, m)) \<and>
       (\<forall>b x. (b, False) \<in> set T \<longrightarrow> in_blk x b \<longrightarrow> mem s' x = mem s x \<and> \<not> in_blk x (a, m))"
    using a(3) keep used by blast
  then show ?thesis using a(1,4) area(4) by simp
qed

lemma client_range:
  assumes "heap_inv lo hi s T" "((a, m), f) \<in> set T" "unat p + unat sz \<le> unat a + unat m"
  shows "unat p + unat sz \<le> 2 ^ 32"
proof -
  note I = heap_invD [OF assms(1)]
  have "(a, m) \<in> set (map fst T)" using assms(2) by force
  from laid_out_node [OF tiled_laid_out [OF I(1)] this] show ?thesis using I(2) assms(3) by linarith
qed

section \<open>Properties\<close>

definition blank_heap :: heap where
  "blank_heap = \<lparr>mem = (\<lambda>_. 0), free_list = 0, heap_cpsr = MODE_SVC\<rparr>"

lemma small_heap_inv: "heap_inv 0x80100000 0x80100040 (small_heap s) [((0x80100000, 64), True)]"
  using init_heap_establishes(2) [where start = "0x80100000" and sz = 64 and s = s] by (simp add: small_heap_def)

text \<open>C1. Every sequence of allocations and of frees of live pointers on a heap that
  \<open>init_heap\<close> set up keeps the heap sound: each live block lies inside the heap, no two
  overlap (the block of \<open>p\<close> is the \<open>blk_size\<close> bytes from \<open>p - 4\<close>), the free list is
  sorted, aligned and acyclic, and \<open>free_bytes\<close> counts exactly what is not allocated.\<close>

theorem heap_run_sound:
  assumes "8 dvd unat start" "0 < unat start" "24 \<le> unat sz" "unat start + unat sz \<le> 2 ^ 32"
    and "heap_run (init_heap start sz s0) s live"
  shows "(\<forall>p\<in>live. unat start + 4 \<le> unat p \<and>
           unat p + unat (blk_size s (p - 4)) \<le> unat start + unat sz + 4) \<and>
    (\<forall>p\<in>live. \<forall>q\<in>live. p < q \<longrightarrow> unat p + unat (blk_size s (p - 4)) \<le> unat q) \<and>
    (\<exists>bs. flist s bs \<and> laid_out (unat start) (unat start + unat sz) bs) \<and>
    (\<exists>n. free_bytes s = Some (n, s) \<and>
       unat n + (\<Sum>p\<in>live. unat (blk_size s (p - 4))) = unat sz div 8 * 8)"
proof -
  let ?n = "unat sz div 8 * 8"
  note E = init_heap_establishes [OF assms(1-4)]
  obtain T where T: "heap_inv (unat start) (unat start + ?n) s T" "live = live_of T"
    using heap_run_inv [OF assms(5) E(2)]  unfolding E(1) by (auto simp: live_of_def)
  note I = heap_invD [OF T(1)]
  have n: "?n \<le> unat sz" by simp
  have "unat start + 4 \<le> unat p \<and> unat p + unat (blk_size s (p - 4)) \<le> unat start + unat sz + 4"
    if "p \<in> live" for p
  proof -
    have "p \<in> live_of T" using that T(2) by simp
    from live_bounds [OF T(1) this] obtain a m where "p = a + 4" "unat p = unat a + 4"
      "((a, m), False) \<in> set T" "blk_size s (p - 4) = m" "unat start \<le> unat a"
      "unat a + unat m \<le> unat start + ?n" .
    then show ?thesis using n by simp
  qed
  moreover have "\<exists>bs. flist s bs \<and> laid_out (unat start) (unat start + unat sz) bs"
    using I(4) laid_out_mono [OF I(5), of "unat start" "unat start + unat sz"] n by auto
  moreover have "(\<Sum>p\<in>live. unat (blk_size s (p - 4))) = used_total T"
    unfolding T(2) by (rule live_sum [OF I(1)]) (rule I(6))
  ultimately show ?thesis
    using live_disjoint [OF T(1)] free_bytes_correct [OF T(1)] tiled_total [OF I(1)] T(2) by auto
qed

lemma heap_run_small:
  "\<exists>s. heap_run (small_heap blank_heap) s {0x80100004}"
proof -
  obtain s' where "alloc_inner 24 (small_heap blank_heap) = Some (0x80100004, s')"
    using alloc_inner_refines [OF small_heap_inv, of 24 blank_heap]
    by (auto simp: align_up_def)
  from heap_run.take [OF heap_run.start _ _ this] show ?thesis by auto
qed

theorem heap_run_sound_witness:
  "\<exists>s n. free_bytes s = Some (n, s) \<and> unat n + (\<Sum>p\<in>{0x80100004}. unat (blk_size s (p - 4))) = 64"
proof -
  obtain s where "heap_run (init_heap 0x80100000 64 blank_heap) s {0x80100004}"
    using heap_run_small by (auto simp: small_heap_def)
  from heap_run_sound [OF _ _ _ _ this] show ?thesis by auto
qed

text \<open>C9. \<open>alloc\<close> on a sound heap, for a power-of-two alignment: it returns with the interrupt
  mask restored; a null result means that no free block holds the padded request, and
  leaves the heap as it was; otherwise the result is aligned, the requested bytes lie in
  a block that was free before and past that block's header, and the bytes of the blocks
  in use before are unchanged.\<close>

theorem alloc_correct:
  assumes "heap_inv lo hi s T" "fits_layout sz k"
  shows "\<exists>p s'. alloc sz (2 ^ k) s = Some (p, s') \<and> heap_cpsr s' = heap_cpsr s \<and>
    (if p = 0 then s' = s \<and> (\<forall>((a, n), f)\<in>set T. f \<longrightarrow> n < align_up (request sz k) 8)
     else \<exists>a m T'. heap_inv lo hi s' T' \<and> 2 ^ k dvd unat p \<and>
       unat a + 8 \<le> unat p \<and> unat p + unat sz \<le> unat a + unat m \<and>
       (\<forall>b. (b, False) \<in> set T' \<longleftrightarrow> (b, False) \<in> set T \<or> b = (a, m)) \<and>
       (\<forall>b x. (b, False) \<in> set T \<longrightarrow> in_blk x b \<longrightarrow> mem s' x = mem s x \<and> \<not> in_blk x (a, m)))"
  by (rule alloc_correct_lemma [OF assms])

theorem alloc_correct_witness:
  "\<exists>p s'. alloc 5 (2 ^ 2) (small_heap blank_heap) = Some (p, s') \<and> heap_cpsr s' = MODE_SVC"
  using alloc_correct [OF small_heap_inv [of blank_heap], of 5 2]
  by (auto simp: fits_layout_def small_heap_def init_heap_def blank_heap_def align_up_def heap_eval)

text \<open>\<open>alloc_zeroed\<close> returns, and when its result is not null every requested byte is
  zero, the heap is still sound and the bytes of the blocks in use before are unchanged.\<close>

theorem alloc_zeroed_correct:
  assumes "heap_inv lo hi s T" "fits_layout sz k"
  shows "\<exists>p s'. alloc_zeroed sz (2 ^ k) s = Some (p, s') \<and>
    (if p = 0 then s' = s
     else (\<exists>T'. heap_inv lo hi s' T') \<and> (\<forall>i < unat sz. mem s' (p + word_of_nat i) = 0) \<and>
       (\<forall>b x. (b, False) \<in> set T \<longrightarrow> in_blk x b \<longrightarrow> mem s' x = mem s x))"
proof -
  obtain p s1 where A: "alloc sz (2 ^ k) s = Some (p, s1)"
    and R: "if p = 0 then s1 = s \<and> (\<forall>((a, n), f)\<in>set T. f \<longrightarrow> n < align_up (request sz k) 8)
     else \<exists>a m T'. heap_inv lo hi s1 T' \<and> 2 ^ k dvd unat p \<and>
       unat a + 8 \<le> unat p \<and> unat p + unat sz \<le> unat a + unat m \<and>
       (\<forall>b. (b, False) \<in> set T' \<longleftrightarrow> (b, False) \<in> set T \<or> b = (a, m)) \<and>
       (\<forall>b x. (b, False) \<in> set T \<longrightarrow> in_blk x b \<longrightarrow> mem s1 x = mem s x \<and> \<not> in_blk x (a, m))"
    using alloc_correct_lemma [OF assms] by blast
  show ?thesis
  proof (cases "p = 0")
    case True
    then show ?thesis using A R by (simp add: alloc_zeroed_def)
  next
    case False
    then obtain a m T' where T': "heap_inv lo hi s1 T'" "unat a + 8 \<le> unat p"
      "unat p + unat sz \<le> unat a + unat m" "((a, m), False) \<in> set T'"
      and keep: "\<And>b x. (b, False) \<in> set T \<Longrightarrow> in_blk x b \<Longrightarrow> mem s1 x = mem s x \<and> \<not> in_blk x (a, m)"
      using R by auto
    let ?s = "s1\<lparr>mem := write_bytes p 0 (unat sz) (mem s1)\<rparr>"
    have w: "mem ?s x = (if unat (x - p) < unat sz then 0 else mem s1 x)" for x
      using write_bytes_at [OF less_imp_le [OF unat_u32], of p 0 sz "mem s1" x] by simp
    have out: "mem ?s x = mem s1 x" if "unat x < unat p \<or> unat p + unat sz \<le> unat x" for x
    proof -
      have "\<not> unat (x - p) < unat sz"
        using that unat_u32 [of p] unat_u32 [of x] client_range [OF T'(1,4,3)] by (auto simp: unat_sub_if')
      then show ?thesis using w [of x] by simp
    qed
    have "heap_inv lo hi ?s T'"
      by (rule heap_inv_client_write [OF T'(1,4)]) (use out T'(2,3) in auto)
    moreover have "mem ?s (p + word_of_nat i) = 0" if "i < unat sz" for i
    proof -
      have "unat (word_of_nat i :: u32) = i" using that unat_u32 [of sz] by (simp add: unat_of_nat)
      then show ?thesis using that w [of "p + word_of_nat i"] by simp
    qed
    moreover have "mem ?s x = mem s x" if "(b, False) \<in> set T" "in_blk x b" for b x
      using keep [OF that] out [of x] T'(2,3) by auto
    ultimately show ?thesis using A False by (auto simp: alloc_zeroed_def)
  qed
qed

theorem alloc_zeroed_correct_witness:
  "\<exists>p s'. alloc_zeroed 5 (2 ^ 2) (small_heap blank_heap) = Some (p, s')"
  using alloc_zeroed_correct [OF small_heap_inv [of blank_heap], of 5 2]
  by (auto simp: fits_layout_def)

text \<open>C28. \<open>free_inner\<close> of a pointer into a block in use returns, marks exactly that block
  free, merged with the free block that follows it, and changes no byte of the other
  blocks in use; the free list stays sorted and sound.\<close>

theorem free_inner_correct:
  assumes "heap_inv lo hi s T" "((a, n), False) \<in> set T"
  shows "\<exists>s'. free_inner (a + 4) s = Some s' \<and> heap_inv lo hi s' (tile_free a T) \<and>
     free_total (tile_free a T) = free_total T + unat n \<and>
     (\<forall>b m. ((b, m), False) \<in> set (tile_free a T) \<longleftrightarrow> ((b, m), False) \<in> set T \<and> b \<noteq> a) \<and>
     (\<forall>b m x. ((b, m), False) \<in> set T \<longrightarrow> b \<noteq> a \<longrightarrow> in_blk x (b, m) \<longrightarrow> mem s' x = mem s x)"
  using heap.give_Some [OF assms] tile_free_total [OF heap_invD(1-3) [OF assms(1)] assms(2)]
    tile_free_used [OF heap_invD(1) [OF assms(1)] assms(2)] by blast

lemma small_inner:
  obtains s' where "alloc_inner 24 (small_heap blank_heap) = Some (0x80100004, s')"
    "heap_inv 0x80100000 0x80100040 s' [((0x80100000, 24), False), ((0x80100018, 40), True)]"
  using alloc_inner_refines [OF small_heap_inv, of 24 blank_heap] by (auto simp: align_up_def)

theorem free_inner_correct_witness:
  "\<exists>s s'. free_inner (0x80100000 + 4) s = Some s' \<and>
     heap_inv 0x80100000 0x80100040 s' [((0x80100000, 64), True)]"
proof -
  obtain s' where "heap_inv 0x80100000 0x80100040 s' [((0x80100000, 24), False), ((0x80100018, 40), True)]"
    using small_inner by blast
  from free_inner_correct [OF this, of "0x80100000" 24] show ?thesis by auto
qed

text \<open>A block that \<open>alloc_inner\<close> hands out and \<open>free_inner\<close> takes back leaves the
  capacity of the heap, the set of blocks in use and their bytes as they were.\<close>

theorem alloc_free_inner_restores:
  assumes "heap_inv lo hi s T" "9 \<le> unat k" "unat k + 7 < 2 ^ 32"
    and "alloc_inner k s = Some (p, s1)" "p \<noteq> 0"
  shows "\<exists>s2 T2 n. free_inner p s1 = Some s2 \<and> heap_inv lo hi s2 T2 \<and>
    free_bytes s = Some (n, s) \<and> free_bytes s2 = Some (n, s2) \<and>
    (\<forall>b. (b, False) \<in> set T2 \<longleftrightarrow> (b, False) \<in> set T) \<and>
    (\<forall>b x. (b, False) \<in> set T \<longrightarrow> in_blk x b \<longrightarrow> mem s2 x = mem s x)"
proof -
  obtain s2 T2 where S: "free_inner p s1 = Some s2" "heap_inv lo hi s2 T2" "free_total T2 = free_total T"
    "\<forall>b. (b, False) \<in> set T2 \<longleftrightarrow> (b, False) \<in> set T"
    "\<forall>b x. (b, False) \<in> set T \<longrightarrow> in_blk x b \<longrightarrow> mem s2 x = mem s x"
    using heap.take_give [OF assms] by blast
  moreover obtain n where "free_bytes s = Some (n, s)" "unat n = free_total T"
    using free_bytes_correct [OF assms(1)] by blast
  moreover obtain n' where "free_bytes s2 = Some (n', s2)" "unat n' = free_total T2"
    using free_bytes_correct [OF S(2)] by blast
  ultimately show ?thesis by (metis word_unat_eq_iff)
qed

theorem alloc_free_inner_restores_witness:
  "\<exists>s1 s2 n. alloc_inner 24 (small_heap blank_heap) = Some (0x80100004, s1) \<and>
     free_inner 0x80100004 s1 = Some s2 \<and> free_bytes s2 = Some (n, s2)"
proof -
  obtain s' where s': "alloc_inner 24 (small_heap blank_heap) = Some (0x80100004, s')"
    using small_inner by blast
  from alloc_free_inner_restores [OF small_heap_inv _ _ s'] s' show ?thesis by auto
qed

text \<open>\<open>dealloc\<close> does not undo \<open>alloc\<close>: \<open>alloc\<close> returns the block address plus 8,
  the first aligned address past the header, while \<open>dealloc\<close> looks for the header 4 bytes
  below its argument.  On a heap of 64 bytes, allocating 8 bytes and deallocating them
  loses the 24 bytes of the block, whatever the memory held before.\<close>

theorem dealloc_misses_header:
  "free_bytes (small_heap s) = Some (64, small_heap s) \<and>
   alloc 8 8 (small_heap s) = Some (0x80100008, small_taken s) \<and>
   dealloc 0x80100008 (small_taken s) = Some (small_given s) \<and>
   free_bytes (small_given s) = Some (40, small_given s) \<and>
   blk_size (small_taken s) 0x80100000 = 24 \<and>
   blk_size (small_taken s) (0x80100008 - ALLOC_HDR) = 0"
  using small_free_bytes small_alloc small_dealloc
  by (simp add: small_taken_def heap_eval)

end
