(* ===== verification/Thread.thy ===== *)
theory Thread
  imports Cpu
begin

text \<open>
  \<open>thread.rs\<close>: the priority scheduler.  The static \<open>SCHEDULER\<close>, the CPSR and the three
  words by which \<open>context_switch_interrupt\<close> asks the IRQ exit for a switch are one record
  \<open>kernel\<close>; the array of thread slots is a partial map, with the bounds check of every
  index written out in \<open>slot\<close>.

  A call that switches context returns to its caller only when the scheduler picks the
  calling thread again.  Such an operation is split at the switch: the part up to it is a
  function of its own (\<open>..._enter\<close>), which also tells whether it switched, and the
  operation itself takes as argument \<open>run\<close>, what the rest of the system does until the
  thread is resumed (\<^term>\<open>None\<close> when it never is).  The stack pointers of parked threads are
  not tracked; the CPSR word of their frames is, in \<open>saved_cpsr\<close>.
\<close>

section \<open>Threads and the scheduler\<close>

definition MAX_THREADS :: nat where "MAX_THREADS = 32"
definition MAX_PRIORITY :: nat where "MAX_PRIORITY = 32"
definition IDLE_PRIORITY :: u8 where "IDLE_PRIORITY = 31"
definition NULL_ID :: nat where "NULL_ID = 0xFF"

definition IPC_OK :: i32 where "IPC_OK = 0"
definition IPC_TIMEOUT :: i32 where "IPC_TIMEOUT = -1"
definition IPC_ERROR :: i32 where "IPC_ERROR = -2"
definition IPC_WAIT_SENTINEL :: i32 where "IPC_WAIT_SENTINEL = 0x7FFFFFFF"

lemmas thread_consts = MAX_THREADS_def MAX_PRIORITY_def NULL_ID_def
lemmas ipc_codes = IPC_OK_def IPC_TIMEOUT_def IPC_ERROR_def IPC_WAIT_SENTINEL_def

datatype thread_state = Dead | Ready | Running | Sleeping | Blocked | BlockedTimeout

record thread =
  t_sp :: u32
  t_state :: thread_state
  t_priority :: u8
  t_id :: u8
  t_tick :: u32
  t_init_tick :: u32
  sleep_until :: u64
  stack_base :: u32
  stack_size :: usize
  t_name :: string
  wait_flags :: u32
  wait_mode :: u8
  ipc_error :: i32
  is_ipc_wait :: bool
  sig_pending :: u32
  sig_mask :: u32

record kernel =
  threads :: "nat \<Rightarrow> thread option"
  thread_count :: usize
  current_id :: nat
  ready_bitmap :: u32
  rr_cursor :: "nat \<Rightarrow> nat"
  tick_count :: u64
  initialized :: bool
  started :: bool
  cpsr :: u32
  saved_cpsr :: "nat \<Rightarrow> u32"
  switch_flag :: bool
  irq_from :: nat
  irq_to :: nat

text \<open>\<open>Scheduler::new\<close> leaves the rest of the machine alone.\<close>

definition scheduler_new :: "kernel \<Rightarrow> kernel" where
  "scheduler_new k = k\<lparr>threads := (\<lambda>_. None), thread_count := 0, current_id := NULL_ID,
     ready_bitmap := 0, rr_cursor := (\<lambda>_. NULL_ID), tick_count := 0,
     initialized := False, started := False\<rparr>"

definition sched_init :: "kernel \<Rightarrow> kernel" where
  "sched_init k = (scheduler_new k)\<lparr>initialized := True\<rparr>"

text \<open>\<open>sched.threads[i]\<close> panics out of range.\<close>

definition slot :: "nat \<Rightarrow> kernel \<Rightarrow> thread option option" where
  "slot i k = (if i < MAX_THREADS then Some (threads k i) else None)"

definition set_thread :: "nat \<Rightarrow> thread \<Rightarrow> kernel \<Rightarrow> kernel" where
  "set_thread i t k = k\<lparr>threads := (threads k)(i := Some t)\<rparr>"

definition prio :: "thread \<Rightarrow> nat" where "prio t = unat (t_priority t)"

section \<open>The ready bitmap\<close>

definition set_ready :: "nat \<Rightarrow> u8 \<Rightarrow> kernel \<Rightarrow> kernel option" where
  "set_ready i p k = do {
     e \<leftarrow> slot i k;
     let k = (case e of Some t \<Rightarrow> set_thread i (t\<lparr>t_state := Ready\<rparr>) k | None \<Rightarrow> k);
     Some (k\<lparr>ready_bitmap := ready_bitmap k OR bitm (unat p)\<rparr>)
   }"

definition ready_at :: "kernel \<Rightarrow> nat \<Rightarrow> nat \<Rightarrow> bool" where
  "ready_at k p i = (case threads k i of Some t \<Rightarrow> prio t = p \<and> t_state t = Ready | None \<Rightarrow> False)"

definition clear_ready_if_empty :: "u8 \<Rightarrow> kernel \<Rightarrow> kernel" where
  "clear_ready_if_empty p k =
     (if list_ex (ready_at k (unat p)) [0..<MAX_THREADS] then k
      else k\<lparr>ready_bitmap := ready_bitmap k AND NOT (bitm (unat p))\<rparr>)"

text \<open>The \<open>for\<close> loop of \<open>pick_next\<close>: \<open>n\<close> iterations are left, from index \<open>i\<close>.\<close>

fun pick_from :: "nat \<Rightarrow> nat \<Rightarrow> nat \<Rightarrow> kernel \<Rightarrow> nat option" where
  "pick_from 0 i p k = None"
| "pick_from (Suc n) i p k =
     (if ready_at k p i then Some i else pick_from n ((i + 1) mod MAX_THREADS) p k)"

definition pick_next :: "kernel \<Rightarrow> nat option" where
  "pick_next k =
     (if ready_bitmap k = 0 then None
      else let highest_prio = trailing_zeros (ready_bitmap k);
               cursor = rr_cursor k highest_prio;
               start = (if cursor = NULL_ID then 0 else (cursor + 1) mod MAX_THREADS)
           in pick_from MAX_THREADS start highest_prio k)"

section \<open>Context switches\<close>

text \<open>\<open>context_switch\<close> saves the CPSR with the I bit cleared and loads that of the other
  frame; \<open>context_switch_interrupt\<close> records the request that the IRQ exit
  (\<open>irq_context_switch\<close>) serves, which saves the interrupted CPSR as it was.\<close>

definition context_switch :: "nat \<Rightarrow> nat \<Rightarrow> kernel \<Rightarrow> kernel" where
  "context_switch from to k =
     k\<lparr>saved_cpsr := (saved_cpsr k)(from := cpsr k AND NOT I_BIT),
       cpsr := ((saved_cpsr k)(from := cpsr k AND NOT I_BIT)) to\<rparr>"

definition context_switch_to :: "nat \<Rightarrow> kernel \<Rightarrow> kernel" where
  "context_switch_to to k = k\<lparr>cpsr := saved_cpsr k to\<rparr>"

definition context_switch_interrupt :: "nat \<Rightarrow> nat \<Rightarrow> kernel \<Rightarrow> kernel" where
  "context_switch_interrupt from to k =
     (if switch_flag k then k else k\<lparr>switch_flag := True, irq_from := from\<rparr>)\<lparr>irq_to := to\<rparr>"

definition irq_exit :: "u32 \<Rightarrow> kernel \<Rightarrow> kernel" where
  "irq_exit spsr k =
     (if switch_flag k then
        k\<lparr>switch_flag := False, saved_cpsr := (saved_cpsr k)(irq_from k := spsr),
          cpsr := ((saved_cpsr k)(irq_from k := spsr)) (irq_to k)\<rparr>
      else k\<lparr>cpsr := spsr\<rparr>)"

text \<open>The common part of \<open>do_schedule\<close> and \<open>do_schedule_from_isr\<close>: pick, mark the thread
  running, and the pair to switch between, if any.\<close>

definition pick_and_mark :: "kernel \<Rightarrow> ((nat \<times> nat) option \<times> kernel) option" where
  "pick_and_mark k = (case pick_next k of
      None \<Rightarrow> Some (None, k)
    | Some next_id \<Rightarrow>
        let cur_id = current_id k in
        if next_id = cur_id then do {
          e \<leftarrow> slot cur_id k;
          Some (None, case e of Some t \<Rightarrow> set_thread cur_id (t\<lparr>t_state := Running\<rparr>) k | None \<Rightarrow> k)
        } else do {
          e \<leftarrow> slot next_id k;
          nx \<leftarrow> e;
          let k = set_thread next_id (nx\<lparr>t_state := Running\<rparr>) k;
          assert_that (prio nx < MAX_PRIORITY);
          let k = k\<lparr>rr_cursor := (rr_cursor k)(prio nx := next_id)\<rparr>;
          e \<leftarrow> slot cur_id k;
          from \<leftarrow> e;
          Some (Some (cur_id, next_id), k\<lparr>current_id := next_id\<rparr>)
        })"

definition do_schedule :: "kernel \<Rightarrow> (bool \<times> kernel) option" where
  "do_schedule k = do {
     (sw, k) \<leftarrow> pick_and_mark k;
     case sw of None \<Rightarrow> Some (False, k)
     | Some (from, to) \<Rightarrow> Some (True, context_switch from to k)
   }"

definition do_schedule_from_isr :: "kernel \<Rightarrow> kernel option" where
  "do_schedule_from_isr k = do {
     (sw, k) \<leftarrow> pick_and_mark k;
     case sw of None \<Rightarrow> Some k
     | Some (from, to) \<Rightarrow> Some (context_switch_interrupt from to k)
   }"

definition resume_with :: "('s \<Rightarrow> 's option) \<Rightarrow> bool \<Rightarrow> 's \<Rightarrow> 's option" where
  "resume_with run switched s = (if switched then run s else Some s)"

section \<open>Creation and start\<close>

text \<open>\<open>stack_init\<close>: the address of the frame; the frame itself is in theory \<open>Context\<close>.\<close>

definition stack_frame :: "u32 \<Rightarrow> usize \<Rightarrow> u32" where
  "stack_frame base len = ((base + len) AND NOT 7) - 64"

definition mask_kernel :: "kernel \<Rightarrow> u32 \<times> kernel" where
  "mask_kernel k = (let (c, c') = interrupt_disable (cpsr k) in (c, k\<lparr>cpsr := c'\<rparr>))"

definition unmask_kernel :: "u32 \<Rightarrow> kernel \<Rightarrow> kernel" where
  "unmask_kernel c k = k\<lparr>cpsr := interrupt_enable c (cpsr k)\<rparr>"

definition free_slot :: "kernel \<Rightarrow> nat option" where
  "free_slot k = find (\<lambda>i. threads k i = None) [0..<MAX_THREADS]"

definition new_thread :: "string \<Rightarrow> u32 \<Rightarrow> usize \<Rightarrow> u8 \<Rightarrow> u32 \<Rightarrow> nat \<Rightarrow> thread" where
  "new_thread nm base len p tck i =
     \<lparr>t_sp = stack_frame base len, t_state = Ready, t_priority = p, t_id = word_of_nat i,
      t_tick = tck, t_init_tick = tck, sleep_until = 0, stack_base = base, stack_size = len,
      t_name = nm, wait_flags = 0, wait_mode = 0, ipc_error = 0, is_ipc_wait = False,
      sig_pending = 0, sig_mask = 0\<rparr>"

definition thread_create_inner ::
  "string \<Rightarrow> u32 \<Rightarrow> usize \<Rightarrow> u8 \<Rightarrow> u32 \<Rightarrow> kernel \<Rightarrow> nat option \<times> kernel" where
  "thread_create_inner nm base len p tck k = (case free_slot k of
      None \<Rightarrow> (None, k)
    | Some i \<Rightarrow>
        let p = min p 31;
            k = set_thread i (new_thread nm base len p tck i) k
        in (Some i, k\<lparr>thread_count := thread_count k + 1,
              ready_bitmap := ready_bitmap k OR bitm (unat p),
              saved_cpsr := (saved_cpsr k)(i := 0x13)\<rparr>))"

definition thread_create ::
  "string \<Rightarrow> u32 \<Rightarrow> usize \<Rightarrow> u8 \<Rightarrow> u32 \<Rightarrow> kernel \<Rightarrow> nat option \<times> kernel" where
  "thread_create nm base len p tck k =
     (let (c, k) = mask_kernel k;
          (r, k) = thread_create_inner nm base len p tck k
      in (r, unmask_kernel c k))"

text \<open>\<open>sched_start\<close> does not return; its result is the state in which the first thread runs.\<close>

definition sched_start :: "kernel \<Rightarrow> kernel option" where
  "sched_start k = do {
     assert_that (initialized k);
     next_id \<leftarrow> pick_next k;
     e \<leftarrow> slot next_id k;
     t \<leftarrow> e;
     let k = set_thread next_id (t\<lparr>t_state := Running\<rparr>) k;
     assert_that (prio t < MAX_PRIORITY);
     let k = k\<lparr>rr_cursor := (rr_cursor k)(prio t := next_id), current_id := next_id, started := True\<rparr>;
     Some (context_switch_to next_id k)
   }"

definition thread_current :: "kernel \<Rightarrow> nat" where "thread_current k = current_id k"

section \<open>Yield, sleep, delete, suspend, resume\<close>

definition update_slot :: "nat \<Rightarrow> (thread \<Rightarrow> thread) \<Rightarrow> kernel \<Rightarrow> kernel" where
  "update_slot i f k = (case threads k i of Some t \<Rightarrow> set_thread i (f t) k | None \<Rightarrow> k)"

definition thread_yield_enter :: "kernel \<Rightarrow> (bool \<times> kernel) option" where
  "thread_yield_enter k = do {
     e \<leftarrow> slot (current_id k) k;
     do_schedule (case e of
         Some t \<Rightarrow> if t_state t = Running then set_thread (current_id k) (t\<lparr>t_state := Ready\<rparr>) k else k
       | None \<Rightarrow> k)
   }"

definition thread_yield :: "(kernel \<Rightarrow> kernel option) \<Rightarrow> kernel \<Rightarrow> kernel option" where
  "thread_yield run k = do {
     let (c, k) = mask_kernel k;
     (sw, k) \<leftarrow> thread_yield_enter k;
     k \<leftarrow> resume_with run sw k;
     Some (unmask_kernel c k)
   }"

definition thread_sleep_enter :: "u32 \<Rightarrow> kernel \<Rightarrow> (bool \<times> kernel) option" where
  "thread_sleep_enter ticks k = do {
     e \<leftarrow> slot (current_id k) k;
     do_schedule (case e of
         Some t \<Rightarrow> clear_ready_if_empty (t_priority t)
           (set_thread (current_id k)
             (t\<lparr>t_state := Sleeping, is_ipc_wait := False, sleep_until := tick_count k + ucast ticks\<rparr>) k)
       | None \<Rightarrow> k)
   }"

definition thread_sleep :: "(kernel \<Rightarrow> kernel option) \<Rightarrow> u32 \<Rightarrow> kernel \<Rightarrow> kernel option" where
  "thread_sleep run ticks k = do {
     let (c, k) = mask_kernel k;
     (sw, k) \<leftarrow> thread_sleep_enter ticks k;
     k \<leftarrow> resume_with run sw k;
     Some (unmask_kernel c k)
   }"

text \<open>Removing a thread, as \<open>thread_delete\<close> and \<open>thread_exit_stub\<close> do it.\<close>

definition remove_thread :: "nat \<Rightarrow> kernel \<Rightarrow> kernel option" where
  "remove_thread i k = do {
     e \<leftarrow> slot i k;
     Some (case e of
         Some t \<Rightarrow> clear_ready_if_empty (t_priority t)
           (k\<lparr>threads := (threads k)(i := None), thread_count := thread_count k - 1\<rparr>)
       | None \<Rightarrow> k)
   }"

definition thread_delete :: "nat \<Rightarrow> kernel \<Rightarrow> kernel option" where
  "thread_delete i k = do {
     let (c, k) = mask_kernel k;
     k \<leftarrow> remove_thread i k;
     Some (unmask_kernel c k)
   }"

text \<open>\<open>thread_exit_stub\<close> does not return; the result is the state the next thread sees,
  or, with \<^term>\<open>False\<close>, the state in which the exited thread waits for interrupts.\<close>

definition thread_exit_stub :: "kernel \<Rightarrow> (bool \<times> kernel) option" where
  "thread_exit_stub k = do {
     let (c, k) = mask_kernel k;
     k \<leftarrow> remove_thread (current_id k) k;
     (sw, k) \<leftarrow> do_schedule k;
     Some (sw, if sw then k else unmask_kernel c k)
   }"

definition thread_exit :: "kernel \<Rightarrow> (bool \<times> kernel) option" where
  "thread_exit k = thread_exit_stub k"

definition suspend_inner :: "nat \<Rightarrow> kernel \<Rightarrow> kernel option" where
  "suspend_inner i k = do {
     e \<leftarrow> slot i k;
     Some (case e of
         Some t \<Rightarrow> if t_state t = Ready \<or> t_state t = Running then
             clear_ready_if_empty (t_priority t) (set_thread i (t\<lparr>t_state := Blocked\<rparr>) k)
           else k
       | None \<Rightarrow> k)
   }"

definition thread_suspend :: "nat \<Rightarrow> kernel \<Rightarrow> kernel option" where
  "thread_suspend i k = do {
     let (c, k) = mask_kernel k;
     k \<leftarrow> suspend_inner i k;
     Some (unmask_kernel c k)
   }"

definition thread_resume_enter :: "nat \<Rightarrow> kernel \<Rightarrow> (bool \<times> kernel) option" where
  "thread_resume_enter i k = do {
     e \<leftarrow> slot i k;
     case e of
       Some t \<Rightarrow> if t_state t = Blocked \<and> \<not> is_ipc_wait t then do {
           k \<leftarrow> set_ready i (t_priority t) k;
           if started k then do_schedule k else Some (False, k)
         } else Some (False, k)
     | None \<Rightarrow> Some (False, k)
   }"

definition thread_resume :: "(kernel \<Rightarrow> kernel option) \<Rightarrow> nat \<Rightarrow> kernel \<Rightarrow> kernel option" where
  "thread_resume run i k = do {
     let (c, k) = mask_kernel k;
     (sw, k) \<leftarrow> thread_resume_enter i k;
     k \<leftarrow> resume_with run sw k;
     Some (unmask_kernel c k)
   }"

section \<open>The tick\<close>

definition wake_sleeper :: "u64 \<Rightarrow> nat \<Rightarrow> kernel \<Rightarrow> kernel option" where
  "wake_sleeper now i k = do {
     e \<leftarrow> slot i k;
     case e of
       Some t \<Rightarrow>
         if (t_state t = Sleeping \<or> t_state t = BlockedTimeout) \<and> sleep_until t \<noteq> 0 \<and> sleep_until t \<le> now
         then (let t1 = (if is_ipc_wait t then t\<lparr>ipc_error := IPC_TIMEOUT, is_ipc_wait := False\<rparr> else t)
           in set_ready i (t_priority t) (set_thread i (t1\<lparr>sleep_until := 0\<rparr>) k))
         else Some k
     | None \<Rightarrow> Some k
   }"

fun wake_sleepers :: "u64 \<Rightarrow> nat list \<Rightarrow> kernel \<Rightarrow> kernel option" where
  "wake_sleepers now [] k = Some k"
| "wake_sleepers now (i # is) k = do { k \<leftarrow> wake_sleeper now i k; wake_sleepers now is k }"

definition tick_signals :: "kernel \<Rightarrow> kernel" where
  "tick_signals k = (if current_id k < MAX_THREADS then
     update_slot (current_id k) (\<lambda>t.
       let deliverable = sig_pending t AND NOT (sig_mask t) in
       if deliverable \<noteq> 0 then
         (let t = t\<lparr>sig_pending := sig_pending t AND NOT deliverable\<rparr>
          in t\<lparr>sig_pending := sig_pending t OR deliverable\<rparr>)
       else t) k else k)"

text \<open>The last part: has a higher-priority thread become ready in this tick?\<close>

definition tick_preempt :: "kernel \<Rightarrow> kernel option" where
  "tick_preempt k =
     (if ready_bitmap k \<noteq> 0 then do {
        e \<leftarrow> slot (current_id k) k;
        let cur_prio = (case e of Some t \<Rightarrow> prio t | None \<Rightarrow> 31);
        if trailing_zeros (ready_bitmap k) < cur_prio then
          do_schedule_from_isr (case e of
              Some t \<Rightarrow> if t_state t = Running then
                  (set_thread (current_id k) (t\<lparr>t_state := Ready\<rparr>) k)
                    \<lparr>ready_bitmap := ready_bitmap k OR bitm (prio t)\<rparr>
                else k
            | None \<Rightarrow> k)
        else Some k
      } else Some k)"

text \<open>The slice of the running thread: \<open>Inl\<close> the state after a switch for its expiry.\<close>

definition tick_slice :: "kernel \<Rightarrow> (kernel + kernel) option" where
  "tick_slice k = (case (if current_id k < MAX_THREADS then threads k (current_id k) else None) of
      None \<Rightarrow> Some (Inr k)
    | Some t \<Rightarrow>
        if t_state t = Running then
          (let t = (if t_tick t > 0 then t\<lparr>t_tick := t_tick t - 1\<rparr> else t) in
           if t_tick t = 0 then
             (let t = t\<lparr>t_tick := t_init_tick t, t_state := Ready\<rparr>;
                  k = (set_thread (current_id k) t k)\<lparr>ready_bitmap := ready_bitmap k OR bitm (prio t)\<rparr>
              in map_option Inl (do_schedule_from_isr k))
           else Some (Inr (set_thread (current_id k) t k)))
        else Some (Inr k))"

definition sched_tick :: "kernel \<Rightarrow> kernel option" where
  "sched_tick k = do {
     let k = k\<lparr>tick_count := tick_count k + 1\<rparr>;
     k \<leftarrow> wake_sleepers (tick_count k) [0..<MAX_THREADS] k;
     r \<leftarrow> tick_slice (tick_signals k);
     case r of Inl k \<Rightarrow> Some k | Inr k \<Rightarrow> tick_preempt k
   }"

section \<open>Blocking on an IPC object\<close>

definition block_current :: "u32 option \<Rightarrow> kernel \<Rightarrow> (bool \<times> kernel) option" where
  "block_current timeout_ticks k = do {
     e \<leftarrow> slot (current_id k) k;
     do_schedule (case e of
         Some t \<Rightarrow>
           (let t = t\<lparr>ipc_error := IPC_WAIT_SENTINEL, is_ipc_wait := True\<rparr>;
                t = (case timeout_ticks of
                    Some ticks \<Rightarrow> t\<lparr>sleep_until := tick_count k + ucast ticks, t_state := BlockedTimeout\<rparr>
                  | None \<Rightarrow> t\<lparr>t_state := Blocked\<rparr>)
            in clear_ready_if_empty (t_priority t) (set_thread (current_id k) t k))
       | None \<Rightarrow> k)
   }"

definition ipc_waiting :: "thread \<Rightarrow> bool" where
  "ipc_waiting t \<longleftrightarrow> (t_state t = Blocked \<or> t_state t = BlockedTimeout \<or> t_state t = Sleeping) \<and> is_ipc_wait t"

definition unblock_thread :: "nat \<Rightarrow> kernel \<Rightarrow> kernel option" where
  "unblock_thread i k = do {
     e \<leftarrow> slot i k;
     case e of
       Some t \<Rightarrow> if ipc_waiting t then
           set_ready i (t_priority t)
             (set_thread i (t\<lparr>ipc_error := IPC_OK, is_ipc_wait := False, sleep_until := 0\<rparr>) k)
         else Some k
     | None \<Rightarrow> Some k
   }"

definition current_ipc_error :: "kernel \<Rightarrow> i32 option" where
  "current_ipc_error k = do {
     e \<leftarrow> slot (current_id k) k;
     Some (case e of Some t \<Rightarrow> ipc_error t | None \<Rightarrow> IPC_ERROR)
   }"

text \<open>\<open>thread_sig_refs\<close>: the pending and mask words of a thread, to be updated in place.\<close>

definition thread_sig_refs :: "nat \<Rightarrow> kernel \<Rightarrow> (u32 \<times> u32) option option" where
  "thread_sig_refs i k = map_option (map_option (\<lambda>t. (sig_pending t, sig_mask t))) (slot i k)"

definition put_sig_refs :: "nat \<Rightarrow> u32 \<times> u32 \<Rightarrow> kernel \<Rightarrow> kernel" where
  "put_sig_refs i r = update_slot i (\<lambda>t. t\<lparr>sig_pending := fst r, sig_mask := snd r\<rparr>)"

end
