(* ===== verification/Thread_Props.thy ===== *)
theory Thread_Props
  imports Thread
begin

text \<open>
  Correctness of the scheduler: the invariant \<open>kernel_ok\<close> (slots, priorities, ready
  bitmap, thread count) and its preservation by every operation, what \<open>pick_next\<close>
  chooses, fairness of the round robin, and the reachable states as a step relation.
\<close>

section \<open>Frame rules of the basic updates\<close>

lemma slot_simps [simp]:
  "i < 32 \<Longrightarrow> slot i k = Some (threads k i)" "\<not> i < 32 \<Longrightarrow> slot i k = None"
  by (simp_all add: slot_def MAX_THREADS_def)

lemma slot_eq_Some: "slot i k = Some e \<longleftrightarrow> i < 32 \<and> e = threads k i"
  by (auto simp: slot_def MAX_THREADS_def)

lemma set_thread_simps [simp]:
  "threads (set_thread i t k) = (threads k)(i := Some t)"
  "thread_count (set_thread i t k) = thread_count k"
  "current_id (set_thread i t k) = current_id k"
  "ready_bitmap (set_thread i t k) = ready_bitmap k"
  "rr_cursor (set_thread i t k) = rr_cursor k"
  "tick_count (set_thread i t k) = tick_count k"
  "initialized (set_thread i t k) = initialized k"
  "started (set_thread i t k) = started k"
  "cpsr (set_thread i t k) = cpsr k"
  "saved_cpsr (set_thread i t k) = saved_cpsr k"
  "switch_flag (set_thread i t k) = switch_flag k"
  by (simp_all add: set_thread_def)

lemma ready_at_iff: "ready_at k p i \<longleftrightarrow> (\<exists>t. threads k i = Some t \<and> prio t = p \<and> t_state t = Ready)"
  by (auto simp: ready_at_def split: option.splits)

lemma clear_ready_simps [simp]:
  "threads (clear_ready_if_empty p k) = threads k"
  "thread_count (clear_ready_if_empty p k) = thread_count k"
  "current_id (clear_ready_if_empty p k) = current_id k"
  "rr_cursor (clear_ready_if_empty p k) = rr_cursor k"
  "tick_count (clear_ready_if_empty p k) = tick_count k"
  "initialized (clear_ready_if_empty p k) = initialized k"
  "started (clear_ready_if_empty p k) = started k"
  "cpsr (clear_ready_if_empty p k) = cpsr k"
  by (simp_all add: clear_ready_if_empty_def)

lemma switch_simps [simp]:
  "threads (context_switch a b k) = threads k" "threads (context_switch_interrupt a b k) = threads k"
  "thread_count (context_switch a b k) = thread_count k"
  "thread_count (context_switch_interrupt a b k) = thread_count k"
  "current_id (context_switch a b k) = current_id k"
  "current_id (context_switch_interrupt a b k) = current_id k"
  "ready_bitmap (context_switch a b k) = ready_bitmap k"
  "ready_bitmap (context_switch_interrupt a b k) = ready_bitmap k"
  "rr_cursor (context_switch a b k) = rr_cursor k"
  "rr_cursor (context_switch_interrupt a b k) = rr_cursor k"
  "started (context_switch a b k) = started k"
  "started (context_switch_interrupt a b k) = started k"
  "tick_count (context_switch a b k) = tick_count k"
  "tick_count (context_switch_interrupt a b k) = tick_count k"
  by (simp_all add: context_switch_def context_switch_interrupt_def)

section \<open>The invariant\<close>

definition slots_ok :: "kernel \<Rightarrow> bool" where
  "slots_ok k \<longleftrightarrow> (\<forall>i t. threads k i = Some t \<longrightarrow> i < 32 \<and> t_id t = word_of_nat i \<and> prio t < 32)"

definition bitmap_ok :: "kernel \<Rightarrow> bool" where
  "bitmap_ok k \<longleftrightarrow>
     (\<forall>i t. threads k i = Some t \<longrightarrow> t_state t = Ready \<longrightarrow> bit (ready_bitmap k) (prio t)) \<and>
     (\<forall>p. bit (ready_bitmap k) p \<longrightarrow>
        (\<exists>i t. threads k i = Some t \<and> prio t = p \<and> (t_state t = Ready \<or> t_state t = Running)))"

definition count_ok :: "kernel \<Rightarrow> bool" where
  "count_ok k \<longleftrightarrow> unat (thread_count k) = card (dom (threads k))"

definition cursor_ok :: "kernel \<Rightarrow> bool" where
  "cursor_ok k \<longleftrightarrow> (\<forall>p. rr_cursor k p = NULL_ID \<or> rr_cursor k p < 32)"

definition current_ok :: "kernel \<Rightarrow> bool" where
  "current_ok k \<longleftrightarrow> (if started k then current_id k < 32 else current_id k = NULL_ID)"

definition kernel_ok :: "kernel \<Rightarrow> bool" where
  "kernel_ok k \<longleftrightarrow> slots_ok k \<and> bitmap_ok k \<and> count_ok k \<and> cursor_ok k \<and> current_ok k"

lemmas kernel_ok_parts = slots_ok_def bitmap_ok_def count_ok_def cursor_ok_def current_ok_def

lemma kernel_okD:
  assumes "kernel_ok k"
  shows "slots_ok k" "bitmap_ok k" "count_ok k" "cursor_ok k" "current_ok k"
  using assms by (simp_all add: kernel_ok_def)

lemma slot_thread: "kernel_ok k \<Longrightarrow> threads k i = Some t \<Longrightarrow> i < 32 \<and> t_id t = word_of_nat i \<and> prio t < 32"
  by (simp add: kernel_ok_def slots_ok_def)

lemma ready_bit: "kernel_ok k \<Longrightarrow> threads k i = Some t \<Longrightarrow> t_state t = Ready \<Longrightarrow> bit (ready_bitmap k) (prio t)"
  by (simp add: kernel_ok_def bitmap_ok_def)

text \<open>The state of a thread only matters to the invariant through Ready and Running.\<close>

definition retains :: "thread \<Rightarrow> thread \<Rightarrow> bool" where
  "retains t t' \<longleftrightarrow> t_priority t' = t_priority t \<and> t_id t' = t_id t"

lemma retains_prio: "retains t t' \<Longrightarrow> prio t' = prio t"
  by (simp add: retains_def prio_def)

lemma insert_dom_same [simp]: "threads k i = Some t \<Longrightarrow> insert i (dom (threads k)) = dom (threads k)"
  by auto

text \<open>An update of a live thread that keeps its state, and one that makes it ready.\<close>

lemma set_thread_ok:
  assumes "kernel_ok k" "threads k i = Some t" "retains t t'"
    and "t_state t' = t_state t \<or> (t_state t = Ready \<or> t_state t = Running) \<and> t_state t' = Running
      \<or> t_state t \<noteq> Ready \<and> t_state t \<noteq> Running \<and> t_state t' \<noteq> Ready"
  shows "kernel_ok (set_thread i t' k)"
proof -
  note K = kernel_okD [OF assms(1)]
  have p: "prio t' = prio t" by (rule retains_prio [OF assms(3)])
  have "slots_ok (set_thread i t' k)" using K(1) assms(2,3) p by (auto simp: slots_ok_def retains_def)
  moreover have "bitmap_ok (set_thread i t' k)"
    unfolding bitmap_ok_def
  proof (intro conjI allI impI)
    fix j u assume "threads (set_thread i t' k) j = Some u" "t_state u = Ready"
    then show "bit (ready_bitmap (set_thread i t' k)) (prio u)"
      using K(2) assms(2,4) p by (auto simp: bitmap_ok_def split: if_splits)
  next
    fix q assume "bit (ready_bitmap (set_thread i t' k)) q"
    then obtain j u where u: "threads k j = Some u" "prio u = q" "t_state u = Ready \<or> t_state u = Running"
      using K(2) by (auto simp: bitmap_ok_def)
    show "\<exists>j u. threads (set_thread i t' k) j = Some u \<and> prio u = q \<and> (t_state u = Ready \<or> t_state u = Running)"
    proof (cases "j = i")
      case True
      then show ?thesis using u assms(2,4) p by (intro exI [of _ i] exI [of _ t']) auto
    next
      case False
      then show ?thesis using u by (intro exI [of _ j] exI [of _ u]) simp
    qed
  qed
  ultimately show ?thesis using K(3-5) assms(2) by (simp add: kernel_ok_def count_ok_def cursor_ok_def current_ok_def)
qed

lemma bit_bitm_prio: "p < 32 \<Longrightarrow> bit (w OR bitm p) q \<longleftrightarrow> bit w q \<or> q = p"
  by (auto simp: bit_simps)

lemma make_ready_ok:
  assumes "kernel_ok k" "threads k i = Some t" "retains t t'" "t_state t' = Ready"
  shows "kernel_ok ((set_thread i t' k)\<lparr>ready_bitmap := ready_bitmap k OR bitm (prio t')\<rparr>)" (is "kernel_ok ?k")
proof -
  note K = kernel_okD [OF assms(1)]
  have p: "prio t' = prio t" "prio t < 32"
    using retains_prio [OF assms(3)] K(1) assms(2) by (auto simp: slots_ok_def)
  have "slots_ok ?k" using K(1) assms(2,3) p by (auto simp: slots_ok_def retains_def)
  moreover have "bitmap_ok ?k"
    unfolding bitmap_ok_def
  proof (intro conjI allI impI)
    fix j u assume "threads ?k j = Some u" "t_state u = Ready"
    then show "bit (ready_bitmap ?k) (prio u)"
      using K(2) p by (auto simp: bitmap_ok_def bit_bitm_prio split: if_splits)
  next
    fix q assume "bit (ready_bitmap ?k) q"
    then consider "q = prio t'" | "q \<noteq> prio t'" "bit (ready_bitmap k) q"
      using p by (auto simp: bit_bitm_prio)
    then show "\<exists>j u. threads ?k j = Some u \<and> prio u = q \<and> (t_state u = Ready \<or> t_state u = Running)"
    proof cases
      case 1
      then show ?thesis using assms(4) by (intro exI [of _ i] exI [of _ t']) simp
    next
      case 2
      then obtain j u where u: "threads k j = Some u" "prio u = q" "t_state u = Ready \<or> t_state u = Running"
        using K(2) by (auto simp: bitmap_ok_def)
      then have "j \<noteq> i" using 2 assms(2) p by auto
      then show ?thesis using u by (intro exI [of _ j] exI [of _ u]) simp
    qed
  qed
  ultimately show ?thesis using K(3-5) assms(2) by (simp add: kernel_ok_def count_ok_def cursor_ok_def current_ok_def)
qed

text \<open>A thread that stops being ready or running, or is removed: the bit of its priority
  is cleared when no thread there is ready any more.\<close>

lemma clear_ready_bitmap_ok:
  assumes "slots_ok k" "unat p < 32"
    and "\<And>j u. threads k j = Some u \<Longrightarrow> t_state u = Ready \<Longrightarrow> bit (ready_bitmap k) (prio u)"
    and "\<And>q. bit (ready_bitmap k) q \<Longrightarrow> q \<noteq> unat p \<Longrightarrow>
      \<exists>j u. threads k j = Some u \<and> prio u = q \<and> (t_state u = Ready \<or> t_state u = Running)"
  shows "bitmap_ok (clear_ready_if_empty p k)"
proof (cases "list_ex (ready_at k (unat p)) [0..<MAX_THREADS]")
  case True
  then obtain j u where "threads k j = Some u" "prio u = unat p" "t_state u = Ready"
    by (auto simp: list_ex_iff ready_at_iff)
  then have "\<exists>j u. threads k j = Some u \<and> prio u = q \<and> (t_state u = Ready \<or> t_state u = Running)"
    if "bit (ready_bitmap k) q" for q using assms(4) [OF that] by (cases "q = unat p") blast+
  then show ?thesis using True assms(3) by (simp add: clear_ready_if_empty_def bitmap_ok_def)
next
  case False
  then have none: "\<not> (threads k j = Some u \<and> prio u = unat p \<and> t_state u = Ready)" for j u
    using assms(1) by (auto simp: list_ex_iff ready_at_iff slots_ok_def MAX_THREADS_def)
  have b: "bit (ready_bitmap (clear_ready_if_empty p k)) q \<longleftrightarrow> bit (ready_bitmap k) q \<and> q \<noteq> unat p" for q
    using False assms(2) by (auto simp: clear_ready_if_empty_def bit_simps dest: bit_u32_len)
  show ?thesis unfolding bitmap_ok_def b using none assms(3,4) by auto
qed

lemma stop_thread_ok:
  assumes "kernel_ok k" "threads k i = Some t" "retains t t'" "t_state t' \<noteq> Ready"
  shows "kernel_ok (clear_ready_if_empty (t_priority t) (set_thread i t' k))"
proof -
  note K = kernel_okD [OF assms(1)]
  have p: "prio t' = prio t" "prio t < 32" "unat (t_priority t) = prio t"
    using retains_prio [OF assms(3)] K(1) assms(2) by (auto simp: slots_ok_def prio_def)
  have S: "slots_ok (set_thread i t' k)" using K(1) assms(2,3) p by (auto simp: slots_ok_def retains_def)
  have "bitmap_ok (clear_ready_if_empty (t_priority t) (set_thread i t' k))"
  proof (rule clear_ready_bitmap_ok [OF S])
    fix q assume "bit (ready_bitmap (set_thread i t' k)) q" "q \<noteq> unat (t_priority t)"
    then obtain j u where u: "threads k j = Some u" "prio u = q" "t_state u = Ready \<or> t_state u = Running"
      using K(2) by (auto simp: bitmap_ok_def)
    moreover have "j \<noteq> i" using u assms(2) p \<open>q \<noteq> _\<close> by auto
    ultimately show "\<exists>j u. threads (set_thread i t' k) j = Some u \<and> prio u = q \<and> (t_state u = Ready \<or> t_state u = Running)"
      by (intro exI [of _ j] exI [of _ u]) simp
  qed (use K(2) assms(4) p in \<open>auto simp: bitmap_ok_def split: if_splits\<close>)
  moreover have "slots_ok (clear_ready_if_empty (t_priority t) (set_thread i t' k))"
    using S by (simp add: slots_ok_def)
  ultimately show ?thesis using K(3-5) assms(2)
    by (simp add: kernel_ok_def count_ok_def cursor_ok_def current_ok_def)
qed

lemma remove_thread_ok:
  assumes "kernel_ok k" "remove_thread i k = Some k'"
  shows "kernel_ok k'"
proof (cases "threads k i")
  case None
  then show ?thesis using assms by (auto simp: remove_thread_def slot_eq_Some split: bind_splits)
next
  case (Some t)
  note K = kernel_okD [OF assms(1)]
  have p: "prio t < 32" "unat (t_priority t) = prio t" "i < 32"
    using K(1) Some by (auto simp: slots_ok_def prio_def)
  let ?k = "k\<lparr>threads := (threads k)(i := None), thread_count := thread_count k - 1\<rparr>"
  have k': "k' = clear_ready_if_empty (t_priority t) ?k"
    using assms(2) Some p by (simp add: remove_thread_def)
  have S: "slots_ok ?k" using K(1) by (auto simp: slots_ok_def)
  have fin: "finite (dom (threads k))"
    by (rule finite_subset [of _ "{..<32}"]) (use K(1) in \<open>auto simp: slots_ok_def\<close>)
  have "bitmap_ok (clear_ready_if_empty (t_priority t) ?k)"
  proof (rule clear_ready_bitmap_ok [OF S])
    fix q assume "bit (ready_bitmap ?k) q" "q \<noteq> unat (t_priority t)"
    then obtain j u where u: "threads k j = Some u" "prio u = q" "t_state u = Ready \<or> t_state u = Running"
      using K(2) by (auto simp: bitmap_ok_def)
    moreover have "j \<noteq> i" using u Some p \<open>q \<noteq> _\<close> by auto
    ultimately show "\<exists>j u. threads ?k j = Some u \<and> prio u = q \<and> (t_state u = Ready \<or> t_state u = Running)"
      by (intro exI [of _ j] exI [of _ u]) simp
  qed (use K(2) p in \<open>auto simp: bitmap_ok_def split: if_splits\<close>)
  moreover have "slots_ok k'" using S unfolding k' by (simp add: slots_ok_def)
  moreover have "count_ok k'"
  proof -
    have "0 < card (dom (threads k))" using fin Some by (auto simp: card_gt_0_iff)
    then have "unat (thread_count k - 1) = unat (thread_count k) - 1"
      using K(3) by (subst unat_minus_u32) (simp_all add: count_ok_def word_le_nat_alt)
    then show ?thesis using K(3) Some fin unfolding k' by (simp add: count_ok_def card_Diff_singleton domI)
  qed
  ultimately show ?thesis using K(4,5) by (simp add: kernel_ok_def k' cursor_ok_def current_ok_def)
qed

section \<open>pick\_next\<close>

lemma mod32_shift: "(((i + 1) mod 32 + d) mod 32 :: nat) = (i + Suc d) mod 32"
  by (simp add: mod_simps)

lemma pick_from_Some:
  "i < 32 \<Longrightarrow> pick_from n i p k = Some j \<Longrightarrow>
     \<exists>d<n. j = (i + d) mod 32 \<and> ready_at k p j \<and> (\<forall>e<d. \<not> ready_at k p ((i + e) mod 32))"
proof (induction n arbitrary: i)
  case (Suc n)
  show ?case
  proof (cases "ready_at k p i")
    case True
    then show ?thesis using Suc.prems by (intro exI [of _ 0]) auto
  next
    case False
    then have "pick_from n ((i + 1) mod 32) p k = Some j" using Suc.prems by (simp add: MAX_THREADS_def)
    from Suc.IH [OF _ this] obtain d where d: "d < n" "j = ((i + 1) mod 32 + d) mod 32" "ready_at k p j"
      "\<forall>e<d. \<not> ready_at k p (((i + 1) mod 32 + e) mod 32)" by auto
    have "\<not> ready_at k p ((i + e) mod 32)" if "e < Suc d" for e
      using that d(4) False Suc.prems(1) mod32_shift [of i] by (cases e) auto
    then show ?thesis using d mod32_shift [of i d] by (intro exI [of _ "Suc d"]) auto
  qed
qed simp

lemma pick_from_None:
  "i < 32 \<Longrightarrow> pick_from n i p k = None \<Longrightarrow> d < n \<Longrightarrow> \<not> ready_at k p ((i + d) mod 32)"
proof (induction n arbitrary: i d)
  case (Suc n)
  show ?case
  proof (cases d)
    case 0
    then show ?thesis using Suc.prems by (auto split: if_splits)
  next
    case (Suc e)
    have "pick_from n ((i + 1) mod 32) p k = None" using Suc.prems by (auto simp: MAX_THREADS_def split: if_splits)
    from Suc.IH [OF _ this, of e] Suc Suc.prems show ?thesis using mod32_shift [of i e] by auto
  qed
qed simp

definition pick_start :: "kernel \<Rightarrow> nat \<Rightarrow> nat" where
  "pick_start k p = (if rr_cursor k p = NULL_ID then 0 else (rr_cursor k p + 1) mod 32)"

lemma pick_next_eq:
  "pick_next k = (if ready_bitmap k = 0 then None
     else pick_from 32 (pick_start k (trailing_zeros (ready_bitmap k))) (trailing_zeros (ready_bitmap k)) k)"
  by (simp add: pick_next_def pick_start_def MAX_THREADS_def Let_def)

lemma pick_start_lt [simp]: "pick_start k p < 32"
  by (simp add: pick_start_def)

lemma reach_mod32: "i < 32 \<Longrightarrow> s < 32 \<Longrightarrow> \<exists>d<32. (s + d) mod 32 = (i :: nat)"
  by (rule exI [of _ "(i + 32 - s) mod 32"]) (simp add: mod_simps)

lemma pick_next_Some:
  assumes "kernel_ok k" "pick_next k = Some i"
  shows "\<exists>t. threads k i = Some t \<and> t_state t = Ready \<and> prio t = trailing_zeros (ready_bitmap k)"
    and "i < 32" and "threads k j = Some u \<Longrightarrow> t_state u = Ready \<Longrightarrow> trailing_zeros (ready_bitmap k) \<le> prio u"
proof -
  let ?p = "trailing_zeros (ready_bitmap k)"
  have nz: "ready_bitmap k \<noteq> 0" and pf: "pick_from 32 (pick_start k ?p) ?p k = Some i"
    using assms(2) by (auto simp: pick_next_eq split: if_splits)
  from pick_from_Some [OF _ pf] have r: "ready_at k ?p i" by auto
  then show "\<exists>t. threads k i = Some t \<and> t_state t = Ready \<and> prio t = ?p" by (auto simp: ready_at_iff)
  then show "i < 32" using slot_thread [OF assms(1)] by blast
  assume "threads k j = Some u" "t_state u = Ready"
  then have "bit (ready_bitmap k) (prio u)" using ready_bit [OF assms(1)] by blast
  then show "?p \<le> prio u" using trailing_zeros_lt(3) [OF nz, of "prio u"] by (meson not_le)
qed

text \<open>When nothing is picked, no thread is ready, except behind a running one of higher
  priority whose bit is still set.\<close>

lemma pick_next_None:
  assumes "kernel_ok k" "pick_next k = None" "threads k i = Some t" "t_state t = Ready"
  shows "\<exists>j u. threads k j = Some u \<and> t_state u = Running \<and> prio u < prio t"
proof -
  let ?p = "trailing_zeros (ready_bitmap k)"
  have b: "bit (ready_bitmap k) (prio t)" by (rule ready_bit [OF assms(1,3,4)])
  then have nz: "ready_bitmap k \<noteq> 0" by auto
  then have "pick_from 32 (pick_start k ?p) ?p k = None" using assms(2) by (simp add: pick_next_eq)
  from pick_from_None [OF _ this] have "\<not> ready_at k ?p ((pick_start k ?p + d) mod 32)" if "d < 32" for d
    using that by simp
  then have none: "\<not> ready_at k ?p j" if "j < 32" for j using reach_mod32 [OF that, of "pick_start k ?p"] by auto
  have "bit (ready_bitmap k) ?p" by (rule trailing_zeros_lt(2) [OF nz])
  then obtain j u where u: "threads k j = Some u" "prio u = ?p" "t_state u = Ready \<or> t_state u = Running"
    using assms(1) by (auto simp: kernel_ok_def bitmap_ok_def)
  have "j < 32" using slot_thread [OF assms(1) u(1)] by simp
  then have run: "t_state u = Running" using none [of j] u by (auto simp: ready_at_iff)
  have "?p \<le> prio t" using trailing_zeros_lt(3) [OF nz, of "prio t"] b by (meson not_le)
  moreover have "?p \<noteq> prio t"
    using none [of i] assms(3,4) slot_thread [OF assms(1,3)] by (auto simp: ready_at_iff)
  ultimately show ?thesis using u run by (metis le_neq_implies_less)
qed

section \<open>do\_schedule\<close>

text \<open>What the common part of the two schedulers does, for a running system.\<close>

lemma pick_and_mark_cases:
  assumes "kernel_ok k" "pick_and_mark k = Some (sw, k')"
  obtains (none) "pick_next k = None" "sw = None" "k' = k"
  | (same) t where "pick_next k = Some (current_id k)" "sw = None" "threads k (current_id k) = Some t"
      "t_state t = Ready" "k' = set_thread (current_id k) (t\<lparr>t_state := Running\<rparr>) k"
  | (switch) i t f where "pick_next k = Some i" "i \<noteq> current_id k" "sw = Some (current_id k, i)"
      "threads k i = Some t" "t_state t = Ready" "threads k (current_id k) = Some f"
      "k' = (set_thread i (t\<lparr>t_state := Running\<rparr>) k)\<lparr>rr_cursor := (rr_cursor k)(prio t := i), current_id := i\<rparr>"
proof (cases "pick_next k")
  case None
  then have "pick_and_mark k = Some (None, k)" by (simp add: pick_and_mark_def)
  then show ?thesis using none [OF None] assms(2) by auto
next
  case (Some i)
  from pick_next_Some [OF assms(1) Some] obtain t where t: "threads k i = Some t" "t_state t = Ready" "i < 32"
    by blast
  show ?thesis
  proof (cases "i = current_id k")
    case True
    then have "pick_and_mark k = Some (None, set_thread (current_id k) (t\<lparr>t_state := Running\<rparr>) k)"
      using Some t by (simp add: pick_and_mark_def Let_def)
    then show ?thesis using same [of t] Some t True assms(2) by auto
  next
    case False
    have p: "prio t < 32" using slot_thread [OF assms(1) t(1)] by simp
    obtain f where f: "threads k (current_id k) = Some f"
      using assms(2) Some t False p
      by (auto simp: pick_and_mark_def Let_def MAX_PRIORITY_def slot_eq_Some split: bind_splits)
    then have "current_id k < 32" using slot_thread [OF assms(1)] by blast
    then have "pick_and_mark k = Some (Some (current_id k, i),
        (set_thread i (t\<lparr>t_state := Running\<rparr>) k)\<lparr>rr_cursor := (rr_cursor k)(prio t := i), current_id := i\<rparr>)"
      using Some t False p f by (simp add: pick_and_mark_def Let_def MAX_PRIORITY_def)
    then show ?thesis using switch [OF Some False _ t(1,2) f] assms(2) by auto
  qed
qed

lemma kernel_ok_update [simp]:
  "kernel_ok (k\<lparr>cpsr := c\<rparr>) = kernel_ok k" "kernel_ok (k\<lparr>saved_cpsr := f\<rparr>) = kernel_ok k"
  "kernel_ok (k\<lparr>tick_count := n\<rparr>) = kernel_ok k" "kernel_ok (k\<lparr>switch_flag := b\<rparr>) = kernel_ok k"
  "kernel_ok (k\<lparr>irq_from := i\<rparr>) = kernel_ok k" "kernel_ok (k\<lparr>irq_to := i\<rparr>) = kernel_ok k"
  by (simp_all add: kernel_ok_def kernel_ok_parts)

lemma kernel_ok_switch [simp]:
  "kernel_ok (context_switch a b k) = kernel_ok k" "kernel_ok (context_switch_interrupt a b k) = kernel_ok k"
  by (simp_all add: context_switch_def context_switch_interrupt_def)

lemma kernel_ok_cursor:
  "kernel_ok k \<Longrightarrow> i < 32 \<Longrightarrow> started k \<Longrightarrow> kernel_ok (k\<lparr>rr_cursor := (rr_cursor k)(p := i), current_id := i\<rparr>)"
  by (simp add: kernel_ok_def kernel_ok_parts)

lemma pick_and_mark_ok:
  assumes "kernel_ok k" "pick_and_mark k = Some (sw, k')" "started k"
  shows "kernel_ok k'"
  using assms(1,2)
proof (cases rule: pick_and_mark_cases)
  case (same t)
  then show ?thesis using set_thread_ok [OF assms(1) same(3)] by (simp add: retains_def)
next
  case (switch i t f)
  have "kernel_ok (set_thread i (t\<lparr>t_state := Running\<rparr>) k)"
    by (rule set_thread_ok [OF assms(1) switch(4)]) (simp_all add: retains_def switch)
  from kernel_ok_cursor [OF this, of i "prio t"] show ?thesis
    using switch assms(3) slot_thread [OF assms(1) switch(4)] by simp
qed (use assms in simp)

lemma pick_and_mark_started:
  assumes "kernel_ok k" "pick_and_mark k = Some (sw, k')"
  shows "started k' = started k"
  using assms by (cases rule: pick_and_mark_cases) auto

section \<open>Every operation keeps the invariant\<close>

lemma sched_init_ok: "kernel_ok (sched_init k)"
  by (simp add: sched_init_def scheduler_new_def kernel_ok_def kernel_ok_parts NULL_ID_def)

lemma free_slot_Some: "free_slot k = Some i \<Longrightarrow> i < 32 \<and> threads k i = None"
  by (auto simp: free_slot_def find_Some_iff MAX_THREADS_def)

lemma min_31: "unat (min p 31 :: u8) = min (unat p) 31"
  by (auto simp: min_def word_le_nat_alt)

lemma slots_finite: "slots_ok k \<Longrightarrow> finite (dom (threads k)) \<and> card (dom (threads k)) \<le> 32"
proof -
  assume "slots_ok k"
  then have "dom (threads k) \<subseteq> {..<32}" by (auto simp: slots_ok_def)
  from finite_subset [OF this] card_mono [OF _ this] show ?thesis by simp
qed

lemma thread_create_inner_ok:
  assumes "kernel_ok k" "thread_create_inner nm base len p tck k = (r, k')"
  shows "kernel_ok k'" "started k' = started k"
proof -
  have "kernel_ok k' \<and> started k' = started k"
  proof (cases "free_slot k")
    case None
    then show ?thesis using assms by (simp add: thread_create_inner_def)
  next
    case (Some i)
    note K = kernel_okD [OF assms(1)] and i = free_slot_Some [OF Some]
    let ?t = "new_thread nm base len (min p 31) tck i"
    let ?k = "(set_thread i ?t k)\<lparr>thread_count := thread_count k + 1,
      ready_bitmap := ready_bitmap k OR bitm (prio ?t)\<rparr>"
    have k': "k' = ?k\<lparr>saved_cpsr := (saved_cpsr k)(i := 0x13)\<rparr>"
      using assms(2) Some by (simp add: thread_create_inner_def Let_def prio_def new_thread_def)
    have t: "t_state ?t = Ready" "prio ?t < 32" "t_id ?t = word_of_nat i"
      by (simp_all add: new_thread_def prio_def min_31)
    have "slots_ok ?k" using K(1) i t by (auto simp: slots_ok_def)
    moreover have "bitmap_ok ?k"
      unfolding bitmap_ok_def
    proof (intro conjI allI impI)
      fix j u assume "threads ?k j = Some u" "t_state u = Ready"
      then show "bit (ready_bitmap ?k) (prio u)"
        using K(2) t by (auto simp: bitmap_ok_def bit_bitm_prio split: if_splits)
    next
      fix q assume "bit (ready_bitmap ?k) q"
      then consider "q = prio ?t" | "bit (ready_bitmap k) q" using t by (auto simp: bit_bitm_prio)
      then show "\<exists>j u. threads ?k j = Some u \<and> prio u = q \<and> (t_state u = Ready \<or> t_state u = Running)"
      proof cases
        case 1
        then show ?thesis using t by (intro exI [of _ i] exI [of _ ?t]) simp
      next
        case 2
        then obtain j u where u: "threads k j = Some u" "prio u = q" "t_state u = Ready \<or> t_state u = Running"
          using K(2) by (auto simp: bitmap_ok_def)
        moreover have "j \<noteq> i" using i u(1) by auto
        ultimately show ?thesis by (intro exI [of _ j] exI [of _ u]) simp
      qed
    qed
    moreover have "count_ok ?k"
    proof -
      have "insert i (dom (threads k)) = dom (threads ?k)" by auto
      moreover have "i \<notin> dom (threads k)" using i by auto
      ultimately have "card (dom (threads ?k)) = Suc (card (dom (threads k)))"
        using slots_finite [OF K(1)] card_insert_disjoint by metis
      moreover have "unat (thread_count k + 1) = unat (thread_count k) + 1"
        using K(3) slots_finite [OF K(1)] by (subst unat_plus_u32) (simp_all add: count_ok_def)
      ultimately show ?thesis using K(3) by (simp add: count_ok_def)
    qed
    ultimately have "kernel_ok ?k" using K(4,5) by (simp add: kernel_ok_def cursor_ok_def current_ok_def)
    then show ?thesis unfolding k' by simp
  qed
  then show "kernel_ok k'" "started k' = started k" by simp_all
qed

lemma sched_start_ok:
  assumes "kernel_ok k" "sched_start k = Some k'"
  shows "kernel_ok k'" "started k'"
proof -
  obtain i t where i: "pick_next k = Some i" "threads k i = Some t"
    and k': "k' = context_switch_to i ((set_thread i (t\<lparr>t_state := Running\<rparr>) k)
      \<lparr>rr_cursor := (rr_cursor k)(prio t := i), current_id := i, started := True\<rparr>)"
    using assms(2) by (auto simp: sched_start_def slot_eq_Some Let_def split: bind_splits option.splits)
  from pick_next_Some [OF assms(1) i(1)] i(2) have t: "t_state t = Ready" "i < 32" by auto
  have "kernel_ok (set_thread i (t\<lparr>t_state := Running\<rparr>) k)"
    by (rule set_thread_ok [OF assms(1) i(2)]) (simp_all add: retains_def t)
  then show "kernel_ok k'" "started k'" using t
    by (simp_all add: k' context_switch_to_def kernel_ok_def kernel_ok_parts)
qed

lemma set_ready_eq:
  "threads k i = Some t \<Longrightarrow> i < 32 \<Longrightarrow>
     set_ready i (t_priority t) k = Some ((set_thread i (t\<lparr>t_state := Ready\<rparr>) k)\<lparr>ready_bitmap := ready_bitmap k OR bitm (prio t)\<rparr>)"
  by (simp add: set_ready_def prio_def Let_def)

lemma set_ready_updated:
  assumes "kernel_ok k" "threads k i = Some t" "retains t t'"
    and "set_ready i (t_priority t) (set_thread i t' k) = Some k'"
  shows "kernel_ok k'" "started k' = started k"
    "k' = (set_thread i (t'\<lparr>t_state := Ready\<rparr>) k)\<lparr>ready_bitmap := ready_bitmap k OR bitm (prio t)\<rparr>"
proof -
  have i: "i < 32" using slot_thread [OF assms(1,2)] by simp
  have p: "t_priority t' = t_priority t" "prio t' = prio t" using assms(3) by (auto simp: retains_def prio_def)
  have "set_ready i (t_priority t') (set_thread i t' k) = Some ((set_thread i (t'\<lparr>t_state := Ready\<rparr>) (set_thread i t' k))
      \<lparr>ready_bitmap := ready_bitmap k OR bitm (prio t')\<rparr>)"
    using set_ready_eq [of "set_thread i t' k" i t'] i by simp
  then show k': "k' = (set_thread i (t'\<lparr>t_state := Ready\<rparr>) k)\<lparr>ready_bitmap := ready_bitmap k OR bitm (prio t)\<rparr>"
    using assms(4) p by (simp add: set_thread_def)
  have "kernel_ok ((set_thread i (t'\<lparr>t_state := Ready\<rparr>) k)\<lparr>ready_bitmap := ready_bitmap k OR bitm (prio (t'\<lparr>t_state := Ready\<rparr>))\<rparr>)"
    by (rule make_ready_ok [OF assms(1,2)]) (use assms(3) in \<open>auto simp: retains_def\<close>)
  then show "kernel_ok k'" using p by (simp add: k' prio_def)
  show "started k' = started k" by (simp add: k')
qed

lemma set_thread_same: "threads k i = Some t \<Longrightarrow> set_thread i t k = k"
  by (simp add: set_thread_def map_upd_triv)

lemma current_started: "kernel_ok k \<Longrightarrow> current_id k < 32 \<Longrightarrow> started k"
  by (auto simp: kernel_ok_def current_ok_def NULL_ID_def split: if_splits)

text \<open>\<open>thread_yield\<close> makes the running thread ready without setting its bit, so the bit
  must still be set.  It is set when the thread is picked, and cleared under a running
  thread only by \<open>thread_delete\<close> or \<open>thread_suspend\<close> of the last ready thread of the same
  priority, \<open>strips_current\<close>.\<close>

definition cur_bit :: "kernel \<Rightarrow> bool" where
  "cur_bit k \<longleftrightarrow> (\<forall>t. threads k (current_id k) = Some t \<longrightarrow> t_state t = Running \<longrightarrow> bit (ready_bitmap k) (prio t))"

definition strips_current :: "nat \<Rightarrow> kernel \<Rightarrow> bool" where
  "strips_current i k \<longleftrightarrow> i \<noteq> current_id k \<and>
     (case (threads k i, threads k (current_id k)) of
        (Some t, Some c) \<Rightarrow> t_state c = Running \<and> prio c = prio t \<and>
          \<not> list_ex (\<lambda>j. j \<noteq> i \<and> ready_at k (prio t) j) [0..<MAX_THREADS]
      | _ \<Rightarrow> False)"

definition sys_ok :: "kernel \<Rightarrow> bool" where
  "sys_ok k \<longleftrightarrow> kernel_ok k \<and> cur_bit k"

lemma sys_okD: "sys_ok k \<Longrightarrow> kernel_ok k" "sys_ok k \<Longrightarrow> cur_bit k"
  by (simp_all add: sys_ok_def)

lemma sys_ok_update [simp]:
  "sys_ok (k\<lparr>cpsr := c\<rparr>) = sys_ok k" "sys_ok (k\<lparr>saved_cpsr := f\<rparr>) = sys_ok k"
  "sys_ok (k\<lparr>tick_count := n\<rparr>) = sys_ok k" "sys_ok (k\<lparr>switch_flag := b\<rparr>) = sys_ok k"
  "sys_ok (context_switch a d k) = sys_ok k" "sys_ok (context_switch_interrupt a d k) = sys_ok k"
  by (simp_all add: sys_ok_def cur_bit_def)

text \<open>After the scheduler ran, the bit of whichever thread is current and running is set.
  This needs the bit of the thread that was current only if nothing is picked.\<close>

lemma pick_and_mark_sys_ok:
  assumes "kernel_ok k" "pick_and_mark k = Some (sw, k')" "cur_bit k"
  shows "sys_ok k'"
proof -
  have st: "started k" if "current_id k < 32" using current_started [OF assms(1) that] .
  show ?thesis using assms(1,2)
  proof (cases rule: pick_and_mark_cases)
    case none
    then show ?thesis using assms by (simp add: sys_ok_def)
  next
    case (same t)
    then have "started k" using st pick_next_Some(2) [OF assms(1) same(1)] by simp
    then have "kernel_ok k'" using pick_and_mark_ok [OF assms(1,2)] by simp
    moreover have "bit (ready_bitmap k) (prio t)" using ready_bit [OF assms(1) same(3,4)] .
    ultimately show ?thesis using same by (simp add: sys_ok_def cur_bit_def prio_def)
  next
    case (switch i t f)
    then have "started k" using st slot_thread [OF assms(1) switch(6)] by simp
    then have "kernel_ok k'" using pick_and_mark_ok [OF assms(1,2)] by simp
    moreover have "bit (ready_bitmap k) (prio t)" using ready_bit [OF assms(1) switch(4,5)] .
    ultimately show ?thesis using switch by (simp add: sys_ok_def cur_bit_def prio_def)
  qed
qed

lemma do_schedule_sys_ok:
  assumes "sys_ok k" "do_schedule k = Some (b, k')"
  shows "sys_ok k'"
proof -
  obtain sw k1 where 1: "pick_and_mark k = Some (sw, k1)"
    and k': "k' = (case sw of None \<Rightarrow> k1 | Some (f, t) \<Rightarrow> context_switch f t k1)"
    using assms(2) by (auto simp: do_schedule_def split: bind_splits option.splits)
  then show ?thesis using pick_and_mark_sys_ok [OF sys_okD(1) [OF assms(1)] 1 sys_okD(2) [OF assms(1)]]
    by (auto split: option.splits)
qed

lemma do_schedule_isr_sys_ok:
  assumes "sys_ok k" "do_schedule_from_isr k = Some k'"
  shows "sys_ok k'"
proof -
  obtain sw k1 where 1: "pick_and_mark k = Some (sw, k1)"
    and k': "k' = (case sw of None \<Rightarrow> k1 | Some (f, t) \<Rightarrow> context_switch_interrupt f t k1)"
    using assms(2) by (auto simp: do_schedule_from_isr_def split: bind_splits option.splits)
  then show ?thesis using pick_and_mark_sys_ok [OF sys_okD(1) [OF assms(1)] 1 sys_okD(2) [OF assms(1)]]
    by (auto split: option.splits)
qed

text \<open>The current thread stops running: whatever its bit, \<open>cur_bit\<close> says nothing then.\<close>

lemma cur_bit_stopped: "threads k (current_id k) = Some t \<Longrightarrow> t_state t \<noteq> Running \<Longrightarrow> cur_bit k"
  by (simp add: cur_bit_def)

lemma thread_yield_enter_ok:
  assumes "sys_ok k" "thread_yield_enter k = Some (b, k')"
  shows "sys_ok k'"
proof -
  note K = sys_okD [OF assms(1)]
  have lt: "current_id k < 32" using assms(2) by (auto simp: thread_yield_enter_def slot_eq_Some split: bind_splits)
  show ?thesis
  proof (cases "\<exists>t. threads k (current_id k) = Some t \<and> t_state t = Running")
    case True
    then obtain t where t: "threads k (current_id k) = Some t" "t_state t = Running" by blast
    let ?t = "t\<lparr>t_state := Ready\<rparr>"
    have b: "bit (ready_bitmap k) (prio t)" using K(2) t by (simp add: cur_bit_def)
    have p: "prio ?t = prio t" "prio t < 32" using slot_thread [OF K(1) t(1)] by (simp_all add: prio_def)
    have "ready_bitmap k OR bitm (prio t) = ready_bitmap k"
      using b p by (intro bit_word_eqI) (auto simp: bit_bitm_prio)
    then have "kernel_ok (set_thread (current_id k) ?t k)"
      using make_ready_ok [OF K(1) t(1), of ?t] p by (simp add: retains_def set_thread_def)
    moreover have "do_schedule (set_thread (current_id k) ?t k) = Some (b', k'')"
      if "thread_yield_enter k = Some (b', k'')" for b' k''
      using that lt t by (simp add: thread_yield_enter_def)
    ultimately show ?thesis using do_schedule_sys_ok [of "set_thread (current_id k) ?t k"] assms(2)
      by (simp add: sys_ok_def cur_bit_def)
  next
    case False
    then have "do_schedule k = Some (b, k')"
      using assms(2) lt by (auto simp: thread_yield_enter_def split: option.splits if_splits)
    then show ?thesis using do_schedule_sys_ok assms(1) by blast
  qed
qed

lemma stop_current_schedule_ok:
  assumes "sys_ok k" "threads k (current_id k) = Some t" "retains t t'" "t_state t' \<noteq> Ready" "t_state t' \<noteq> Running"
    and "do_schedule (clear_ready_if_empty (t_priority t) (set_thread (current_id k) t' k)) = Some (b, k')"
  shows "sys_ok k'"
proof -
  let ?k = "clear_ready_if_empty (t_priority t) (set_thread (current_id k) t' k)"
  have "kernel_ok ?k" by (rule stop_thread_ok [OF sys_okD(1) [OF assms(1)] assms(2-4)])
  moreover have "cur_bit ?k" by (rule cur_bit_stopped [of _ t']) (use assms(5) in simp_all)
  ultimately show ?thesis using do_schedule_sys_ok [OF _ assms(6)] by (simp add: sys_ok_def)
qed

lemma thread_sleep_enter_ok:
  assumes "sys_ok k" "thread_sleep_enter ticks k = Some (b, k')"
  shows "sys_ok k'"
proof (cases "threads k (current_id k)")
  case None
  then show ?thesis using assms do_schedule_sys_ok by (auto simp: thread_sleep_enter_def slot_eq_Some split: bind_splits)
next
  case (Some t)
  have "current_id k < 32" using slot_thread [OF sys_okD(1) [OF assms(1)] Some] by simp
  then show ?thesis using assms(2) Some
    by (intro stop_current_schedule_ok [OF assms(1) Some]) (auto simp: thread_sleep_enter_def retains_def)
qed

lemma block_current_ok:
  assumes "sys_ok k" "block_current tmo k = Some (b, k')"
  shows "sys_ok k'"
proof (cases "threads k (current_id k)")
  case None
  then show ?thesis using assms do_schedule_sys_ok by (auto simp: block_current_def slot_eq_Some split: bind_splits)
next
  case (Some t)
  let ?t = "case tmo of Some ticks \<Rightarrow> t\<lparr>ipc_error := IPC_WAIT_SENTINEL, is_ipc_wait := True,
      sleep_until := tick_count k + ucast ticks, t_state := BlockedTimeout\<rparr>
    | None \<Rightarrow> t\<lparr>ipc_error := IPC_WAIT_SENTINEL, is_ipc_wait := True, t_state := Blocked\<rparr>"
  have "current_id k < 32" using slot_thread [OF sys_okD(1) [OF assms(1)] Some] by simp
  then have "do_schedule (clear_ready_if_empty (t_priority t) (set_thread (current_id k) ?t k)) = Some (b, k')"
    using assms(2) Some by (simp add: block_current_def Let_def split: option.splits)
  from stop_current_schedule_ok [OF assms(1) Some _ _ _ this] show ?thesis
    by (simp add: retains_def split: option.splits)
qed

lemma clear_ready_bit:
  assumes "unat p < 32"
  shows "bit (ready_bitmap (clear_ready_if_empty p k)) q \<longleftrightarrow> bit (ready_bitmap k) q \<and>
    (q \<noteq> unat p \<or> list_ex (ready_at k (unat p)) [0..<MAX_THREADS])"
  using assms by (auto simp: clear_ready_if_empty_def bit_simps dest: bit_u32_len)

text \<open>Clearing the bit of another thread's priority leaves that of the current one, unless
  that thread was the last ready one there.\<close>

lemma cur_bit_other:
  assumes "sys_ok k" "threads k i = Some t" "i \<noteq> current_id k" "\<not> strips_current i k"
    and "threads k1 = (threads k)(i := x)" "x = None \<or> (\<exists>u. x = Some u \<and> t_state u \<noteq> Ready)"
    and "current_id k1 = current_id k" "ready_bitmap k1 = ready_bitmap k"
  shows "cur_bit (clear_ready_if_empty (t_priority t) k1)"
proof -
  note K = sys_okD [OF assms(1)]
  have p: "unat (t_priority t) = prio t" "prio t < 32"
    using slot_thread [OF K(1) assms(2)] by (simp_all add: prio_def)
  have "bit (ready_bitmap (clear_ready_if_empty (t_priority t) k1)) (prio c)"
    if c: "threads k (current_id k) = Some c" "t_state c = Running" for c
  proof (cases "prio c = prio t")
    case True
    then obtain j where j: "j \<noteq> i" "ready_at k (prio t) j" "j < 32"
      using assms(2-4) c by (auto simp: strips_current_def list_ex_iff MAX_THREADS_def)
    then have "ready_at k1 (prio t) j" using assms(5) by (simp add: ready_at_def)
    then have "list_ex (ready_at k1 (prio t)) [0..<MAX_THREADS]" using j by (auto simp: list_ex_iff MAX_THREADS_def)
    then show ?thesis using K(2) c p assms(8) clear_ready_bit [of "t_priority t" k1] by (simp add: cur_bit_def)
  next
    case False
    then show ?thesis using K(2) c p assms(8) clear_ready_bit [of "t_priority t" k1] by (simp add: cur_bit_def)
  qed
  then show ?thesis using assms(3,5,7) by (simp add: cur_bit_def)
qed

lemma remove_thread_sys_ok:
  assumes "sys_ok k" "remove_thread i k = Some k'" "\<not> strips_current i k"
  shows "sys_ok k'"
proof (cases "threads k i")
  case None
  then show ?thesis using assms by (auto simp: remove_thread_def slot_eq_Some split: bind_splits)
next
  case (Some t)
  note K = sys_okD [OF assms(1)]
  let ?k = "k\<lparr>threads := (threads k)(i := None), thread_count := thread_count k - 1\<rparr>"
  have k': "k' = clear_ready_if_empty (t_priority t) ?k"
    using assms(2) Some slot_thread [OF K(1) Some] by (simp add: remove_thread_def)
  have "cur_bit k'"
  proof (cases "i = current_id k")
    case True
    then show ?thesis by (simp add: k' cur_bit_def)
  next
    case False
    show ?thesis unfolding k'
      by (rule cur_bit_other [OF assms(1) Some False assms(3), where x = None]) simp_all
  qed
  then show ?thesis using remove_thread_ok [OF K(1) assms(2)] by (simp add: sys_ok_def)
qed

lemma suspend_inner_ok:
  assumes "sys_ok k" "suspend_inner i k = Some k'" "\<not> strips_current i k"
  shows "sys_ok k'"
proof (cases "\<exists>t. threads k i = Some t \<and> (t_state t = Ready \<or> t_state t = Running)")
  case False
  then show ?thesis using assms by (auto simp: suspend_inner_def slot_eq_Some split: bind_splits option.splits)
next
  case True
  then obtain t where t: "threads k i = Some t" "t_state t = Ready \<or> t_state t = Running" by blast
  note K = sys_okD [OF assms(1)]
  let ?t = "t\<lparr>t_state := Blocked\<rparr>"
  have k': "k' = clear_ready_if_empty (t_priority t) (set_thread i ?t k)"
    using assms(2) t slot_thread [OF K(1) t(1)] by (auto simp: suspend_inner_def)
  have "kernel_ok k'" unfolding k' by (rule stop_thread_ok [OF K(1) t(1)]) (simp_all add: retains_def)
  moreover have "cur_bit k'"
  proof (cases "i = current_id k")
    case True
    then show ?thesis by (simp add: k' cur_bit_def)
  next
    case False
    show ?thesis unfolding k'
      by (rule cur_bit_other [OF assms(1) t(1) False assms(3), where x = "Some ?t"]) simp_all
  qed
  ultimately show ?thesis by (simp add: sys_ok_def)
qed

lemma set_ready_sys_ok:
  assumes "sys_ok k" "threads k i = Some t" "retains t t'"
    and "set_ready i (t_priority t) (set_thread i t' k) = Some k'"
  shows "sys_ok k'"
proof -
  note K = sys_okD [OF assms(1)]
  note R = set_ready_updated [OF K(1) assms(2-4)]
  have "prio t < 32" using slot_thread [OF K(1) assms(2)] by simp
  then have "cur_bit k'" using K(2) by (auto simp: R(3) cur_bit_def bit_bitm_prio)
  then show ?thesis using R(1) by (simp add: sys_ok_def)
qed

lemma unblock_thread_ok:
  assumes "sys_ok k" "unblock_thread i k = Some k'"
  shows "sys_ok k'"
proof (cases "\<exists>t. threads k i = Some t \<and> ipc_waiting t")
  case True
  then obtain t where t: "threads k i = Some t" "ipc_waiting t" by blast
  let ?t = "t\<lparr>ipc_error := IPC_OK, is_ipc_wait := False, sleep_until := 0\<rparr>"
  have "set_ready i (t_priority t) (set_thread i ?t k) = Some k'"
    using assms(2) t slot_thread [OF sys_okD(1) [OF assms(1)] t(1)] by (simp add: unblock_thread_def)
  from set_ready_sys_ok [OF assms(1) t(1) _ this] show ?thesis by (simp add: retains_def)
next
  case False
  then show ?thesis using assms by (auto simp: unblock_thread_def slot_eq_Some split: bind_splits option.splits)
qed

lemma thread_resume_enter_ok:
  assumes "sys_ok k" "thread_resume_enter i k = Some (b, k')"
  shows "sys_ok k'"
proof (cases "\<exists>t. threads k i = Some t \<and> t_state t = Blocked \<and> \<not> is_ipc_wait t")
  case True
  then obtain t where t: "threads k i = Some t" "t_state t = Blocked" "\<not> is_ipc_wait t" by blast
  have i: "i < 32" using slot_thread [OF sys_okD(1) [OF assms(1)] t(1)] by simp
  obtain k1 where k1: "set_ready i (t_priority t) k = Some k1"
    and r: "(if started k1 then do_schedule k1 else Some (False, k1)) = Some (b, k')"
    using assms(2) t i by (auto simp: thread_resume_enter_def split: bind_splits)
  have "set_ready i (t_priority t) (set_thread i t k) = Some k1" using k1 t(1) by (simp add: set_thread_same)
  from set_ready_sys_ok [OF assms(1) t(1) _ this] have "sys_ok k1" by (simp add: retains_def)
  then show ?thesis using r do_schedule_sys_ok by (auto split: if_splits)
next
  case False
  then show ?thesis using assms by (auto simp: thread_resume_enter_def slot_eq_Some split: bind_splits option.splits if_splits)
qed

lemma wake_sleeper_ok:
  assumes "sys_ok k" "wake_sleeper now i k = Some k'"
  shows "sys_ok k'"
proof (cases "threads k i")
  case None
  then show ?thesis using assms by (auto simp: wake_sleeper_def slot_eq_Some split: bind_splits)
next
  case (Some t)
  let ?t1 = "if is_ipc_wait t then t\<lparr>ipc_error := IPC_TIMEOUT, is_ipc_wait := False\<rparr> else t"
  have i: "i < 32" using slot_thread [OF sys_okD(1) [OF assms(1)] Some] by simp
  show ?thesis
  proof (cases "(t_state t = Sleeping \<or> t_state t = BlockedTimeout) \<and> sleep_until t \<noteq> 0 \<and> sleep_until t \<le> now")
    case True
    then have "set_ready i (t_priority t) (set_thread i (?t1\<lparr>sleep_until := 0\<rparr>) k) = Some k'"
      using assms(2) Some i by (simp add: wake_sleeper_def)
    from set_ready_sys_ok [OF assms(1) Some _ this] show ?thesis by (simp add: retains_def)
  next
    case False
    then have "k' = k" using assms(2) Some i by (simp add: wake_sleeper_def split: if_splits)
    then show ?thesis using assms(1) by simp
  qed
qed

lemma wake_sleepers_ok: "sys_ok k \<Longrightarrow> wake_sleepers now is k = Some k' \<Longrightarrow> sys_ok k'"
  by (induction "is" arbitrary: k) (auto split: bind_splits dest: wake_sleeper_ok)

text \<open>An update of the current thread's own words, its state aside, is harmless.\<close>

lemma set_thread_sys_ok:
  assumes "sys_ok k" "threads k i = Some t" "retains t t'" "t_state t' = t_state t"
  shows "sys_ok (set_thread i t' k)"
proof -
  note K = sys_okD [OF assms(1)]
  have "kernel_ok (set_thread i t' k)" using set_thread_ok [OF K(1) assms(2,3)] assms(4) by simp
  then show ?thesis using K(2) assms(2,4) retains_prio [OF assms(3)] by (auto simp: sys_ok_def cur_bit_def)
qed

lemma update_slot_sys_ok:
  assumes "sys_ok k" "\<And>t. retains t (f t) \<and> t_state (f t) = t_state t"
  shows "sys_ok (update_slot i f k)"
  using assms set_thread_sys_ok by (auto simp: update_slot_def split: option.splits)

lemma tick_signals_ok: "sys_ok k \<Longrightarrow> sys_ok (tick_signals k)"
  unfolding tick_signals_def by (auto intro!: update_slot_sys_ok simp: retains_def Let_def)

lemma put_sig_refs_ok: "sys_ok k \<Longrightarrow> sys_ok (put_sig_refs i r k)"
  unfolding put_sig_refs_def by (auto intro!: update_slot_sys_ok simp: retains_def)

lemma tick_slice_ok:
  assumes "sys_ok k" "tick_slice k = Some r"
  shows "case r of Inl k' \<Rightarrow> sys_ok k' | Inr k' \<Rightarrow> sys_ok k'"
proof (cases "current_id k < MAX_THREADS \<and> (\<exists>t. threads k (current_id k) = Some t \<and> t_state t = Running)")
  case False
  then have "r = Inr k" using assms(2) by (auto simp: tick_slice_def split: option.splits if_splits)
  then show ?thesis using assms(1) by simp
next
  case True
  then obtain t where t: "threads k (current_id k) = Some t" "t_state t = Running" "current_id k < MAX_THREADS"
    by blast
  note K = sys_okD [OF assms(1)]
  define t1 where "t1 = (if t_tick t > 0 then t\<lparr>t_tick := t_tick t - 1\<rparr> else t)"
  have t1: "retains t t1" "t_state t1 = Running" "prio t1 = prio t" using t(2) by (auto simp: t1_def retains_def prio_def)
  show ?thesis
  proof (cases "t_tick t1 = 0")
    case False
    then have "r = Inr (set_thread (current_id k) t1 k)"
      using assms(2) t by (auto simp: tick_slice_def t1_def Let_def)
    then show ?thesis using set_thread_sys_ok [OF assms(1) t(1) t1(1)] t1 t by simp
  next
    case True
    let ?t = "t1\<lparr>t_tick := t_init_tick t1, t_state := Ready\<rparr>"
    let ?k = "(set_thread (current_id k) ?t k)\<lparr>ready_bitmap := ready_bitmap k OR bitm (prio ?t)\<rparr>"
    have "kernel_ok ?k" by (rule make_ready_ok [OF K(1) t(1)]) (use t1 in \<open>simp_all add: retains_def\<close>)
    then have "sys_ok ?k" by (simp add: sys_ok_def cur_bit_def)
    moreover have "map_option Inl (do_schedule_from_isr ?k) = Some r"
      using assms(2) t True by (auto simp: tick_slice_def t1_def Let_def)
    ultimately show ?thesis using do_schedule_isr_sys_ok by auto
  qed
qed

lemma tick_preempt_ok:
  assumes "sys_ok k" "tick_preempt k = Some k'"
  shows "sys_ok k'"
proof (cases "\<exists>t. threads k (current_id k) = Some t \<and> t_state t = Running")
  case False
  then have "k' = k \<or> do_schedule_from_isr k = Some k'"
    using assms(2) by (auto simp: tick_preempt_def slot_eq_Some Let_def split: if_splits bind_splits option.splits)
  then show ?thesis using assms(1) do_schedule_isr_sys_ok by blast
next
  case True
  then obtain t where t: "threads k (current_id k) = Some t" "t_state t = Running" by blast
  note K = sys_okD [OF assms(1)]
  let ?t = "t\<lparr>t_state := Ready\<rparr>"
  let ?k = "(set_thread (current_id k) ?t k)\<lparr>ready_bitmap := ready_bitmap k OR bitm (prio ?t)\<rparr>"
  have "kernel_ok ?k" by (rule make_ready_ok [OF K(1) t(1)]) (simp_all add: retains_def)
  then have "sys_ok ?k" by (simp add: sys_ok_def cur_bit_def)
  moreover have "k' = k \<or> do_schedule_from_isr ?k = Some k'"
    using assms(2) t by (auto simp: tick_preempt_def slot_eq_Some Let_def prio_def split: if_splits bind_splits)
  ultimately show ?thesis using do_schedule_isr_sys_ok assms(1) by blast
qed

lemma sched_tick_ok:
  assumes "sys_ok k" "sched_tick k = Some k'"
  shows "sys_ok k'"
proof -
  let ?k = "k\<lparr>tick_count := tick_count k + 1\<rparr>"
  obtain k1 r where w: "wake_sleepers (tick_count ?k) [0..<MAX_THREADS] ?k = Some k1"
    "tick_slice (tick_signals k1) = Some r"
    "(case r of Inl k \<Rightarrow> Some k | Inr k \<Rightarrow> tick_preempt k) = Some k'"
    using assms(2) by (auto simp: sched_tick_def split: bind_splits)
  have "sys_ok ?k" using assms(1) by simp
  from tick_slice_ok [OF tick_signals_ok [OF wake_sleepers_ok [OF this w(1)]] w(2)]
  show ?thesis using w(3) tick_preempt_ok by (auto split: sum.splits)
qed

lemma thread_create_ok:
  assumes "sys_ok k" "thread_create nm base len p tck k = (r, k')"
  shows "sys_ok k'"
proof -
  note K = sys_okD [OF assms(1)]
  let ?k = "k\<lparr>cpsr := cpsr k OR NOINT\<rparr>"
  obtain k1 where k1: "thread_create_inner nm base len p tck ?k = (r, k1)"
    and k': "k' = unmask_kernel (cpsr k) k1"
    using assms(2) by (auto simp: thread_create_def mask_kernel_def split: prod.splits)
  have "kernel_ok ?k" using K(1) by simp
  then have "kernel_ok k1" using thread_create_inner_ok [OF _ k1] by blast
  moreover have "cur_bit k1"
  proof (cases "free_slot ?k")
    case None
    then show ?thesis using k1 K(2) by (auto simp: thread_create_inner_def cur_bit_def)
  next
    case (Some i)
    have lt: "prio (new_thread nm base len (min p 31) tck i) < 32" by (simp add: new_thread_def prio_def min_31)
    have "k1 = (set_thread i (new_thread nm base len (min p 31) tck i) ?k)
        \<lparr>thread_count := thread_count k + 1, ready_bitmap := ready_bitmap k OR bitm (unat (min p 31)),
         saved_cpsr := (saved_cpsr k)(i := 0x13)\<rparr>"
      using k1 Some by (simp add: thread_create_inner_def Let_def)
    then show ?thesis using K(2) by (auto simp: cur_bit_def new_thread_def bit_simps)
  qed
  ultimately show ?thesis unfolding k' by (simp add: sys_ok_def unmask_kernel_def cur_bit_def)
qed

lemma sched_start_sys_ok:
  assumes "sys_ok k" "sched_start k = Some k'"
  shows "sys_ok k'"
proof -
  note K = sys_okD [OF assms(1)]
  obtain i t where i: "pick_next k = Some i" "threads k i = Some t"
    and k': "k' = context_switch_to i ((set_thread i (t\<lparr>t_state := Running\<rparr>) k)
      \<lparr>rr_cursor := (rr_cursor k)(prio t := i), current_id := i, started := True\<rparr>)"
    using assms(2) by (auto simp: sched_start_def slot_eq_Some Let_def split: bind_splits option.splits)
  have "t_state t = Ready" using pick_next_Some(1) [OF K(1) i(1)] i(2) by auto
  then have "bit (ready_bitmap k) (prio t)" using ready_bit [OF K(1) i(2)] by simp
  then have "cur_bit k'" by (simp add: k' context_switch_to_def cur_bit_def prio_def)
  then show ?thesis using sched_start_ok(1) [OF K(1) assms(2)] by (simp add: sys_ok_def)
qed

section \<open>Reachable states\<close>

text \<open>One step is an operation by whichever thread runs, up to its context switch if it
  makes one, a tick, the exit of an interrupt, or an instruction that writes the CPSR.
  The second arguments of \<open>delete\<close> and \<open>suspend\<close> exclude the calls that strip the running
  thread of its ready bit.\<close>

inductive kstep :: "kernel \<Rightarrow> kernel \<Rightarrow> bool" where
  create: "thread_create nm base len p tck k = (r, k') \<Longrightarrow> kstep k k'"
| start: "sched_start k = Some k' \<Longrightarrow> kstep k k'"
| yield: "thread_yield_enter k = Some (b, k') \<Longrightarrow> kstep k k'"
| sleep: "thread_sleep_enter n k = Some (b, k') \<Longrightarrow> kstep k k'"
| delete: "thread_delete i k = Some k' \<Longrightarrow> \<not> strips_current i k \<Longrightarrow> kstep k k'"
| suspend: "thread_suspend i k = Some k' \<Longrightarrow> \<not> strips_current i k \<Longrightarrow> kstep k k'"
| resume: "thread_resume_enter i k = Some (b, k') \<Longrightarrow> kstep k k'"
| exit: "thread_exit k = Some (b, k') \<Longrightarrow> kstep k k'"
| tick: "sched_tick k = Some k' \<Longrightarrow> kstep k k'"
| block: "block_current tmo k = Some (b, k') \<Longrightarrow> kstep k k'"
| unblock: "unblock_thread i k = Some k' \<Longrightarrow> kstep k k'"
| signals: "kstep k (put_sig_refs i r k)"
| irq: "kstep k (irq_exit c k)"
| write_cpsr: "kstep k (k\<lparr>cpsr := c\<rparr>)"

inductive_cases kstep_cases: "kstep k k'"

inductive reachable :: "kernel \<Rightarrow> bool" where
  init: "reachable (sched_init k)"
| step: "reachable k \<Longrightarrow> kstep k k' \<Longrightarrow> reachable k'"

lemma thread_exit_ok:
  assumes "sys_ok k" "thread_exit k = Some (b, k')"
  shows "sys_ok k'"
proof -
  have ns: "\<not> strips_current (current_id k) (k\<lparr>cpsr := c\<rparr>)" for c by (simp add: strips_current_def)
  obtain k1 k2 where 1: "remove_thread (current_id k) (k\<lparr>cpsr := cpsr k OR NOINT\<rparr>) = Some k1"
    "do_schedule k1 = Some (b, k2)" "k' = (if b then k2 else unmask_kernel (cpsr k) k2)"
    using assms(2) by (auto simp: thread_exit_def thread_exit_stub_def mask_kernel_def split: bind_splits)
  have "sys_ok k1" by (rule remove_thread_sys_ok [OF _ 1(1) ns]) (use assms(1) in simp)
  from do_schedule_sys_ok [OF this 1(2)] show ?thesis using 1(3) by (simp add: unmask_kernel_def)
qed

lemma ready_at_cpsr [simp]: "ready_at (k\<lparr>cpsr := c\<rparr>) = ready_at k"
  by (intro ext) (simp add: ready_at_def)

lemma strips_current_cpsr [simp]: "strips_current i (k\<lparr>cpsr := c\<rparr>) = strips_current i k"
  by (simp add: strips_current_def cong: option.case_cong)

lemma thread_delete_ok:
  assumes "sys_ok k" "thread_delete i k = Some k'" "\<not> strips_current i k"
  shows "sys_ok k'"
proof -
  obtain k1 where 1: "remove_thread i (k\<lparr>cpsr := cpsr k OR NOINT\<rparr>) = Some k1" "k' = unmask_kernel (cpsr k) k1"
    using assms(2) by (auto simp: thread_delete_def mask_kernel_def split: bind_splits)
  have "sys_ok k1" by (rule remove_thread_sys_ok [OF _ 1(1)]) (use assms in simp_all)
  then show ?thesis using 1(2) by (simp add: unmask_kernel_def)
qed

lemma thread_suspend_ok:
  assumes "sys_ok k" "thread_suspend i k = Some k'" "\<not> strips_current i k"
  shows "sys_ok k'"
proof -
  obtain k1 where 1: "suspend_inner i (k\<lparr>cpsr := cpsr k OR NOINT\<rparr>) = Some k1" "k' = unmask_kernel (cpsr k) k1"
    using assms(2) by (auto simp: thread_suspend_def mask_kernel_def split: bind_splits)
  have "sys_ok k1" by (rule suspend_inner_ok [OF _ 1(1)]) (use assms in simp_all)
  then show ?thesis using 1(2) by (simp add: unmask_kernel_def)
qed

lemmas ops_ok = thread_create_ok sched_start_sys_ok thread_yield_enter_ok thread_sleep_enter_ok
  thread_delete_ok thread_suspend_ok thread_resume_enter_ok thread_exit_ok sched_tick_ok
  block_current_ok unblock_thread_ok put_sig_refs_ok

lemma kstep_ok: "kstep k k' \<Longrightarrow> sys_ok k \<Longrightarrow> sys_ok k'"
  by (induction rule: kstep.induct) (auto intro: ops_ok simp: irq_exit_def)

lemma reachable_ok: "reachable k \<Longrightarrow> sys_ok k"
proof (induction rule: reachable.induct)
  case (init k)
  then show ?case using sched_init_ok [of k]
    by (simp add: sys_ok_def cur_bit_def sched_init_def scheduler_new_def)
next
  case (step k k')
  then show ?case using kstep_ok by blast
qed

section \<open>Round robin\<close>

text \<open>How many slots the cursor of a priority still has to pass before slot \<open>i\<close>.\<close>

definition rr_distance :: "kernel \<Rightarrow> nat \<Rightarrow> nat \<Rightarrow> nat" where
  "rr_distance k p i = (i + 32 - pick_start k p) mod 32"

lemma cyc_dist: "s < 32 \<Longrightarrow> d < 32 \<Longrightarrow> ((s + d) mod 32 + 32 - s) mod 32 = (d :: nat)"
  by (cases "s + d < 32") (auto simp: mod_simps le_mod_geq)

lemma cyc_back: "s < 32 \<Longrightarrow> i < 32 \<Longrightarrow> (s + (i + 32 - s) mod 32) mod 32 = (i :: nat)"
proof -
  assume "s < 32" "i < 32"
  then have "s + (i + 32 - s) = i + 32" by simp
  then show ?thesis using \<open>i < 32\<close> by (simp add: mod_simps)
qed

lemma pick_next_distance:
  assumes "kernel_ok k" "pick_next k = Some i" "threads k j = Some u" "t_state u = Ready"
    and "prio u = trailing_zeros (ready_bitmap k)"
  shows "rr_distance k (prio u) i \<le> rr_distance k (prio u) j" "i \<noteq> j \<Longrightarrow> rr_distance k (prio u) i < rr_distance k (prio u) j"
proof -
  let ?p = "prio u"
  have pf: "pick_from 32 (pick_start k ?p) ?p k = Some i"
    using assms(2,5) by (auto simp: pick_next_eq split: if_splits)
  from pick_from_Some [OF _ this] obtain d where d: "d < 32" "i = (pick_start k ?p + d) mod 32"
    "\<forall>e<d. \<not> ready_at k ?p ((pick_start k ?p + e) mod 32)" by auto
  have di: "rr_distance k ?p i = d" using cyc_dist [of "pick_start k ?p" d] d by (simp add: rr_distance_def)
  have j: "j < 32" using slot_thread [OF assms(1,3)] by simp
  obtain e where e: "e < 32" "(pick_start k ?p + e) mod 32 = j" using reach_mod32 [OF j, of "pick_start k ?p"] by auto
  have dj: "rr_distance k ?p j = e" using cyc_dist [of "pick_start k ?p" e] e by (auto simp: rr_distance_def)
  have "ready_at k ?p j" using assms(3,4) by (simp add: ready_at_iff)
  then have "\<not> e < d" using d(3) e(2) by auto
  then show "rr_distance k ?p i \<le> rr_distance k ?p j" using di dj by simp
  assume "i \<noteq> j"
  then have "e \<noteq> d" using d(2) e(2) by auto
  then show "rr_distance k ?p i < rr_distance k ?p j" using di dj \<open>\<not> e < d\<close> by simp
qed

text \<open>Running slot \<open>i\<close> moves the cursor past it, so a ready thread that was passed over
  comes nearer.\<close>

lemma rr_advances:
  assumes "rr_distance k p i < rr_distance k p j" "i < 32" "rr_cursor k' p = i" "j < 32"
  shows "rr_distance k' p j < rr_distance k p j"
proof -
  let ?s = "pick_start k p" and ?d = "rr_distance k p i" and ?e = "rr_distance k p j"
  have s: "?s < 32" and e: "?e < 32" "?d < 32" by (simp_all add: rr_distance_def)
  have ij: "(?s + ?d) mod 32 = i" "(?s + ?e) mod 32 = j"
    using s assms(2,4) cyc_back by (simp_all add: rr_distance_def)
  have st: "pick_start k' p = (i + 1) mod 32" using assms(2,3) by (simp add: pick_start_def NULL_ID_def)
  have "?s + ?e = (?s + ?d + 1) + (?e - ?d - 1)" using assms(1) by simp
  then have "j = ((i + 1) mod 32 + (?e - ?d - 1)) mod 32" using ij by (metis mod_add_left_eq)
  moreover have "?e - ?d - 1 < 32" using e by linarith
  ultimately have "(j + 32 - (i + 1) mod 32) mod 32 = ?e - ?d - 1"
    using cyc_dist [of "(i + 1) mod 32" "?e - ?d - 1"] by simp
  then have "rr_distance k' p j = ?e - ?d - 1" by (simp add: rr_distance_def [of k'] st)
  then show ?thesis using assms(1) by simp
qed

end
