(* ===== verification/Thread_Claims.thy ===== *)
theory Thread_Claims
  imports Thread_Props
begin

text \<open>
  What the scheduler guarantees over all reachable states: the invariant, the choice of
  the highest priority, fair rotation, timely wake-ups and preemption at the tick; and
  three ways in which a thread is lost or the system panics.
\<close>

section \<open>How the scheduler changes the threads\<close>

text \<open>\<open>only_runs k k'\<close>: the threads of \<open>k'\<close> are those of \<open>k\<close>, some ready ones now running.\<close>

definition only_runs :: "kernel \<Rightarrow> kernel \<Rightarrow> bool" where
  "only_runs k k' \<longleftrightarrow> (\<forall>j. threads k' j = threads k j \<or>
     (\<exists>t. threads k j = Some t \<and> t_state t = Ready \<and> threads k' j = Some (t\<lparr>t_state := Running\<rparr>)))"

lemma pick_and_mark_only_runs:
  assumes "kernel_ok k" "pick_and_mark k = Some (sw, k')"
  shows "only_runs k k'"
  using assms by (cases rule: pick_and_mark_cases) (auto simp: only_runs_def)

lemma do_schedule_from_isr_cases:
  assumes "do_schedule_from_isr k = Some k'"
  obtains sw k1 where "pick_and_mark k = Some (sw, k1)" "threads k' = threads k1"
    "current_id k' = current_id k1" "ready_bitmap k' = ready_bitmap k1"
  using assms by (auto simp: do_schedule_from_isr_def split: bind_splits option.splits)

lemma do_schedule_cases:
  assumes "do_schedule k = Some (b, k')"
  obtains sw k1 where "pick_and_mark k = Some (sw, k1)" "threads k' = threads k1" "b \<longleftrightarrow> sw \<noteq> None"
    "current_id k' = current_id k1" "ready_bitmap k' = ready_bitmap k1"
  using assms by (auto simp: do_schedule_def split: bind_splits option.splits)

lemma isr_only_runs: "kernel_ok k \<Longrightarrow> do_schedule_from_isr k = Some k' \<Longrightarrow> only_runs k k'"
  by (erule do_schedule_from_isr_cases) (drule (1) pick_and_mark_only_runs, simp add: only_runs_def)

text \<open>A picked thread has the highest priority of all the ready ones.\<close>

lemma picked_runs_highest:
  assumes "kernel_ok k" "pick_and_mark k = Some (sw, k')" "threads k' (current_id k') = Some c" "t_state c = Running"
    and "\<And>t. threads k (current_id k) = Some t \<Longrightarrow> t_state t \<noteq> Running"
    and "threads k' j = Some u" "t_state u = Ready"
  shows "prio c \<le> prio u"
  using assms(1,2)
proof (cases rule: pick_and_mark_cases)
  case none
  then show ?thesis using assms(3-5) by auto
next
  case (same t)
  have j: "j \<noteq> current_id k" using same assms(6,7) by auto
  have "trailing_zeros (ready_bitmap k) \<le> prio u"
    by (rule pick_next_Some(3) [OF assms(1) same(1), of j]) (use assms(6,7) same j in auto)
  then show ?thesis using pick_next_Some(1) [OF assms(1) same(1)] same assms(3) by (auto simp: prio_def)
next
  case (switch i t f)
  have j: "j \<noteq> i" using switch assms(6,7) by auto
  have "trailing_zeros (ready_bitmap k) \<le> prio u"
    by (rule pick_next_Some(3) [OF assms(1) switch(1), of j]) (use assms(6,7) switch j in auto)
  then show ?thesis using pick_next_Some(1) [OF assms(1) switch(1)] switch assms(3) by (auto simp: prio_def)
qed

lemma isr_runs_highest:
  assumes "kernel_ok k" "do_schedule_from_isr k = Some k'" "threads k' (current_id k') = Some c" "t_state c = Running"
    and "\<And>t. threads k (current_id k) = Some t \<Longrightarrow> t_state t \<noteq> Running"
    and "threads k' j = Some u" "t_state u = Ready"
  shows "prio c \<le> prio u"
  using assms(2)
  by (rule do_schedule_from_isr_cases)
    (use picked_runs_highest [OF assms(1) _ _ assms(4,5) _ assms(7)] assms(3,6) in auto)

section \<open>Rotation\<close>

text \<open>After the wake-ups, the tick only rotates the current thread and starts ready ones.\<close>

definition rotated :: "thread \<Rightarrow> thread \<Rightarrow> bool" where
  "rotated t t' \<longleftrightarrow> t' = t \<or> (t_state t = Ready \<or> t_state t = Running) \<and>
     (t_state t' = Ready \<or> t_state t' = Running) \<and> sleep_until t' = sleep_until t \<and> ipc_error t' = ipc_error t"

definition rotates :: "kernel \<Rightarrow> kernel \<Rightarrow> bool" where
  "rotates k k' \<longleftrightarrow> (\<forall>j t. threads k j = Some t \<longrightarrow> (\<exists>t'. threads k' j = Some t' \<and> rotated t t'))"

lemma rotated_refl [simp]: "rotated t t" by (simp add: rotated_def)

lemma rotated_trans: "rotated a b \<Longrightarrow> rotated b c \<Longrightarrow> rotated a c"
  unfolding rotated_def by auto

lemma rotates_trans: "rotates a b \<Longrightarrow> rotates b c \<Longrightarrow> rotates a c"
  unfolding rotates_def by (blast intro: rotated_trans)

lemma rotates_refl: "rotates k k"
  by (simp add: rotates_def)

lemma only_runs_rotates:
  assumes "only_runs k k'"
  shows "rotates k k'"
  unfolding rotates_def
proof (intro allI impI)
  fix j t assume t: "threads k j = Some t"
  from assms have "threads k' j = threads k j \<or>
     (\<exists>t. threads k j = Some t \<and> t_state t = Ready \<and> threads k' j = Some (t\<lparr>t_state := Running\<rparr>))"
    unfolding only_runs_def by blast
  then show "\<exists>t'. threads k' j = Some t' \<and> rotated t t'"
    using t by (elim disjE exE conjE) (simp_all add: rotated_def)
qed

section \<open>The parts of the tick\<close>

lemma tick_slice_cases:
  assumes "kernel_ok k" "tick_slice k = Some r"
  obtains (idle) "r = Inr k" "\<And>t. threads k (current_id k) = Some t \<Longrightarrow> t_state t \<noteq> Running"
  | (count) t t' where "r = Inr (set_thread (current_id k) t' k)" "threads k (current_id k) = Some t"
      "t_state t = Running" "retains t t'" "t_state t' = Running" "rotated t t'"
  | (expired) t t' k1 where "threads k (current_id k) = Some t" "t_state t = Running" "retains t t'"
      "t_state t' = Ready" "rotated t t'" "do_schedule_from_isr
        ((set_thread (current_id k) t' k)\<lparr>ready_bitmap := ready_bitmap k OR bitm (prio t')\<rparr>) = Some k1" "r = Inl k1"
proof (cases "\<exists>t. threads k (current_id k) = Some t \<and> t_state t = Running")
  case False
  then have "r = Inr k" using assms(2) by (auto simp: tick_slice_def split: option.splits if_splits)
  then show ?thesis using idle False by blast
next
  case True
  then obtain t where t: "threads k (current_id k) = Some t" "t_state t = Running" by blast
  have c: "current_id k < MAX_THREADS" using slot_thread [OF assms(1) t(1)] by (simp add: MAX_THREADS_def)
  define t1 where "t1 = (if t_tick t > 0 then t\<lparr>t_tick := t_tick t - 1\<rparr> else t)"
  have t1: "retains t t1" "t_state t1 = Running" "rotated t t1" "sleep_until t1 = sleep_until t"
    "ipc_error t1 = ipc_error t" using t(2) by (auto simp: t1_def retains_def rotated_def)
  show ?thesis
  proof (cases "t_tick t1 = 0")
    case False
    then have "r = Inr (set_thread (current_id k) t1 k)"
      using assms(2) t c by (auto simp: tick_slice_def t1_def Let_def)
    then show ?thesis using count t t1 by blast
  next
    case True
    let ?t = "t1\<lparr>t_tick := t_init_tick t1, t_state := Ready\<rparr>"
    let ?k = "(set_thread (current_id k) ?t k)\<lparr>ready_bitmap := ready_bitmap k OR bitm (prio ?t)\<rparr>"
    have "map_option Inl (do_schedule_from_isr ?k) = Some r"
      using assms(2) t c True by (auto simp: tick_slice_def t1_def Let_def)
    then obtain k1 where "do_schedule_from_isr ?k = Some k1" "r = Inl k1" by auto
    then show ?thesis using expired [OF t, of ?t k1] t t1 by (simp add: retains_def rotated_def)
  qed
qed

lemma tick_preempt_cases:
  assumes "kernel_ok k" "tick_preempt k = Some k'"
  obtains (keep) "k' = k" "\<And>t. threads k (current_id k) = Some t \<Longrightarrow> ready_bitmap k = 0 \<or> prio t \<le> trailing_zeros (ready_bitmap k)"
  | (other) "do_schedule_from_isr k = Some k'" "\<And>t. threads k (current_id k) = Some t \<Longrightarrow> t_state t \<noteq> Running"
  | (preempt) t where "threads k (current_id k) = Some t" "t_state t = Running"
      "do_schedule_from_isr ((set_thread (current_id k) (t\<lparr>t_state := Ready\<rparr>) k)
        \<lparr>ready_bitmap := ready_bitmap k OR bitm (prio (t\<lparr>t_state := Ready\<rparr>))\<rparr>) = Some k'"
proof (cases "ready_bitmap k = 0 \<or> (\<forall>t. threads k (current_id k) = Some t \<longrightarrow> \<not> trailing_zeros (ready_bitmap k) < prio t) \<and> k' = k")
  case True
  then have "k' = k" using assms(2) by (auto simp: tick_preempt_def)
  then show ?thesis using keep True by force
next
  case False
  then show ?thesis
    using assms(2) other preempt
    by (auto simp: tick_preempt_def slot_eq_Some Let_def prio_def split: if_splits bind_splits option.splits)
qed

section \<open>Wake-ups\<close>

definition due :: "u64 \<Rightarrow> thread \<Rightarrow> bool" where
  "due now t \<longleftrightarrow> (t_state t = Sleeping \<or> t_state t = BlockedTimeout) \<and> sleep_until t \<noteq> 0 \<and> sleep_until t \<le> now"

definition woken :: "u64 \<Rightarrow> thread \<Rightarrow> thread" where
  "woken now t = (if due now t then
     (if is_ipc_wait t then t\<lparr>ipc_error := IPC_TIMEOUT, is_ipc_wait := False\<rparr> else t)
       \<lparr>sleep_until := 0, t_state := Ready\<rparr>
     else t)"

lemma wake_sleeper_threads:
  assumes "wake_sleeper now i k = Some k'"
  shows "threads k' = (threads k)(i := map_option (woken now) (threads k i))" "current_id k' = current_id k"
proof -
  have i: "i < 32" using assms by (auto simp: wake_sleeper_def slot_eq_Some split: bind_splits)
  have "threads k' = (threads k)(i := map_option (woken now) (threads k i)) \<and> current_id k' = current_id k"
  proof (cases "threads k i")
    case None
    then show ?thesis using assms i by (auto simp: wake_sleeper_def)
  next
    case (Some t)
    show ?thesis
    proof (cases "due now t")
      case True
      then have "(t_state t = Sleeping \<or> t_state t = BlockedTimeout) \<and> sleep_until t \<noteq> 0 \<and> sleep_until t \<le> now"
        by (simp add: due_def)
      then show ?thesis using assms Some i True
        by (auto simp: wake_sleeper_def set_ready_def Let_def woken_def set_thread_def)
    next
      case False
      then have "k' = k" using assms Some i by (simp add: wake_sleeper_def due_def [symmetric])
      then show ?thesis using Some False by (simp add: woken_def map_upd_triv)
    qed
  qed
  then show "threads k' = (threads k)(i := map_option (woken now) (threads k i))" "current_id k' = current_id k"
    by simp_all
qed

lemma wake_sleepers_threads:
  "wake_sleepers now is k = Some k' \<Longrightarrow> distinct is \<Longrightarrow> current_id k' = current_id k \<and>
     (\<forall>j. threads k' j = (if j \<in> set is then map_option (woken now) (threads k j) else threads k j))"
proof (induction "is" arbitrary: k)
  case (Cons i "is")
  then obtain k1 where 1: "wake_sleeper now i k = Some k1" "wake_sleepers now is k1 = Some k'"
    by (auto split: bind_splits)
  from wake_sleeper_threads [OF 1(1)] Cons.IH [OF 1(2)] Cons.prems(2) show ?case by auto
qed simp

lemma tick_signals_threads:
  "threads (tick_signals k) = threads k" "current_id (tick_signals k) = current_id k"
proof -
  have "(w AND NOT (w AND NOT m)) OR (w AND NOT m) = w" for w m :: u32
    by (rule bit_word_eqI) (auto simp: bit_simps)
  then have "(let deliverable = sig_pending t AND NOT (sig_mask t) in
      if deliverable \<noteq> 0 then
        (let t = t\<lparr>sig_pending := sig_pending t AND NOT deliverable\<rparr>
         in t\<lparr>sig_pending := sig_pending t OR deliverable\<rparr>)
      else t) = t" for t :: thread
    by (simp add: Let_def)
  then show "threads (tick_signals k) = threads k" "current_id (tick_signals k) = current_id k"
    unfolding tick_signals_def update_slot_def
    by (simp_all add: set_thread_same split: option.splits)
qed

lemma set_thread_rotates:
  "threads k i = Some t \<Longrightarrow> rotated t t' \<Longrightarrow> rotates k (set_thread i t' k)"
  by (simp add: rotates_def)

lemma rotates_bitmap [simp]: "rotates k (k'\<lparr>ready_bitmap := w\<rparr>) = rotates k k'"
  by (simp add: rotates_def)

lemma current_ready_ok:
  assumes "kernel_ok k" "threads k (current_id k) = Some t" "retains t t'" "t_state t' = Ready"
    and "do_schedule_from_isr ((set_thread (current_id k) t' k)\<lparr>ready_bitmap := ready_bitmap k OR bitm (prio t')\<rparr>) = Some k'"
    and "rotated t t'"
  shows "rotates k k'" "threads k' (current_id k') = Some c \<Longrightarrow> t_state c = Running \<Longrightarrow>
    threads k' j = Some u \<Longrightarrow> t_state u = Ready \<Longrightarrow> prio c \<le> prio u"
proof -
  let ?k = "(set_thread (current_id k) t' k)\<lparr>ready_bitmap := ready_bitmap k OR bitm (prio t')\<rparr>"
  have ok: "kernel_ok ?k" by (rule make_ready_ok [OF assms(1-4)])
  have "rotates k ?k" using set_thread_rotates [OF assms(2,6)] by simp
  then show "rotates k k'" using only_runs_rotates [OF isr_only_runs [OF ok assms(5)]] rotates_trans by blast
  show "threads k' (current_id k') = Some c \<Longrightarrow> t_state c = Running \<Longrightarrow>
    threads k' j = Some u \<Longrightarrow> t_state u = Ready \<Longrightarrow> prio c \<le> prio u"
    by (rule isr_runs_highest [OF ok assms(5)]) (use assms(4) in auto)
qed

lemma tick_preempt_effect:
  assumes "kernel_ok k" "tick_preempt k = Some k'"
  shows "rotates k k'" "threads k' (current_id k') = Some c \<Longrightarrow> t_state c = Running \<Longrightarrow>
    threads k' j = Some u \<Longrightarrow> t_state u = Ready \<Longrightarrow> prio c \<le> prio u"
proof -
  have "rotates k k' \<and> (threads k' (current_id k') = Some c \<longrightarrow> t_state c = Running \<longrightarrow>
    threads k' j = Some u \<longrightarrow> t_state u = Ready \<longrightarrow> prio c \<le> prio u)"
    using assms
  proof (cases rule: tick_preempt_cases)
    case keep
    have "prio c \<le> prio u" if "threads k (current_id k) = Some c" "threads k j = Some u" "t_state u = Ready"
    proof -
      have b: "bit (ready_bitmap k) (prio u)" by (rule ready_bit [OF assms(1) that(2,3)])
      then have nz: "ready_bitmap k \<noteq> 0" by auto
      then have "trailing_zeros (ready_bitmap k) \<le> prio u" using trailing_zeros_lt(3) [OF nz, of "prio u"] b by (meson not_le)
      then show ?thesis using keep(2) [OF that(1)] nz by simp
    qed
    then show ?thesis using keep(1) rotates_refl by auto
  next
    case other
    then show ?thesis using only_runs_rotates [OF isr_only_runs [OF assms(1) other(1)]]
      isr_runs_highest [OF assms(1) other(1)] by blast
  next
    case (preempt t)
    have "rotated t (t\<lparr>t_state := Ready\<rparr>)" using preempt(2) by (simp add: rotated_def)
    from current_ready_ok [OF assms(1) preempt(1) _ _ preempt(3) this] show ?thesis by (simp add: retains_def)
  qed
  then show "rotates k k'" "threads k' (current_id k') = Some c \<Longrightarrow> t_state c = Running \<Longrightarrow>
    threads k' j = Some u \<Longrightarrow> t_state u = Ready \<Longrightarrow> prio c \<le> prio u" by simp_all
qed

lemma sched_tick_effect:
  assumes "sys_ok k" "sched_tick k = Some k'"
  obtains k1 where "rotates k1 k'" "\<And>j. threads k1 j = (if j < 32 then map_option (woken (tick_count k + 1)) (threads k j) else threads k j)"
    and "\<And>c j u. threads k' (current_id k') = Some c \<Longrightarrow> t_state c = Running \<Longrightarrow>
      threads k' j = Some u \<Longrightarrow> t_state u = Ready \<Longrightarrow> prio c \<le> prio u"
proof -
  let ?k = "k\<lparr>tick_count := tick_count k + 1\<rparr>"
  obtain k1 r where w: "wake_sleepers (tick_count ?k) [0..<MAX_THREADS] ?k = Some k1"
    "tick_slice (tick_signals k1) = Some r"
    "(case r of Inl k \<Rightarrow> Some k | Inr k \<Rightarrow> tick_preempt k) = Some k'"
    using assms(2) by (auto simp: sched_tick_def split: bind_splits)
  have k1: "threads (tick_signals k1) j = (if j < 32 then map_option (woken (tick_count k + 1)) (threads k j) else threads k j)" for j
    using wake_sleepers_threads [OF w(1)] by (auto simp: tick_signals_threads MAX_THREADS_def)
  have ok1: "sys_ok (tick_signals k1)" by (rule tick_signals_ok, rule wake_sleepers_ok [OF _ w(1)]) (use assms in simp)
  note K1 = sys_okD(1) [OF ok1]
  have "rotates (tick_signals k1) k' \<and> (\<forall>c j u. threads k' (current_id k') = Some c \<longrightarrow> t_state c = Running \<longrightarrow>
    threads k' j = Some u \<longrightarrow> t_state u = Ready \<longrightarrow> prio c \<le> prio u)"
    using K1 w(2)
  proof (cases rule: tick_slice_cases)
    case idle
    then show ?thesis using tick_preempt_effect [OF K1] w(3) by auto
  next
    case (count t t')
    let ?k2 = "set_thread (current_id (tick_signals k1)) t' (tick_signals k1)"
    have ok2: "kernel_ok ?k2" using set_thread_ok [OF K1 count(2,4)] count(3,5) by simp
    have "tick_preempt ?k2 = Some k'" using w(3) count(1) by simp
    from tick_preempt_effect [OF ok2 this] show ?thesis
      using set_thread_rotates [OF count(2,6)] rotates_trans by blast
  next
    case (expired t t' k2)
    have "k2 = k'" using w(3) expired(7) by simp
    then show ?thesis using current_ready_ok [OF K1 expired(1,3,4) expired(6) expired(5)] by blast
  qed
  then show ?thesis using that k1 by blast
qed

section \<open>Lost threads\<close>

lemma remove_current_schedule:
  assumes "kernel_ok k" "threads k (current_id k) = Some c" "threads k j = Some u" "t_state u = Ready" "j \<noteq> current_id k"
    and "\<And>i t. threads k i = Some t \<Longrightarrow> t_state t = Running \<Longrightarrow> i = current_id k"
    and "remove_thread (current_id k) k = Some k1"
  shows "do_schedule k1 = None"
proof -
  have ok: "kernel_ok k1" by (rule remove_thread_ok [OF assms(1,7)])
  have lt: "current_id k < 32" using slot_thread [OF assms(1,2)] by simp
  have t: "threads k1 = (threads k)(current_id k := None)" "current_id k1 = current_id k"
    using assms(2,7) lt by (auto simp: remove_thread_def)
  have "pick_next k1 \<noteq> None"
  proof
    assume "pick_next k1 = None"
    from pick_next_None [OF ok this, of j u] obtain i v where "threads k1 i = Some v" "t_state v = Running"
      using t assms(3-5) by auto
    then show False using assms(6) t by (auto split: if_splits)
  qed
  then obtain i where i: "pick_next k1 = Some i" by blast
  from pick_next_Some(1) [OF ok i] obtain v where "threads k1 i = Some v" by blast
  then have ne: "i \<noteq> current_id k1" using t by auto
  have "pick_and_mark k1 = None"
  proof (rule ccontr)
    assume "pick_and_mark k1 \<noteq> None"
    then obtain sw k2 where "pick_and_mark k1 = Some (sw, k2)" by (cases "pick_and_mark k1") auto
    with ok show False by (cases rule: pick_and_mark_cases) (use i ne t in auto)
  qed
  then show ?thesis by (simp add: do_schedule_def)
qed

lemma resume_cases:
  assumes "thread_resume_enter i k = Some (True, k')" "kernel_ok k"
  obtains t k1 where "threads k i = Some t" "t_state t = Blocked" "\<not> is_ipc_wait t" "do_schedule k1 = Some (True, k')"
    "k1 = (set_thread i (t\<lparr>t_state := Ready\<rparr>) k)\<lparr>ready_bitmap := ready_bitmap k OR bitm (prio t)\<rparr>"
proof -
  have "\<exists>t. threads k i = Some t \<and> t_state t = Blocked \<and> \<not> is_ipc_wait t"
    using assms(1) by (auto simp: thread_resume_enter_def slot_eq_Some split: bind_splits option.splits if_splits)
  then obtain t where t: "threads k i = Some t" "t_state t = Blocked" "\<not> is_ipc_wait t" by blast
  have i: "i < 32" using slot_thread [OF assms(2) t(1)] by simp
  show ?thesis using that [OF t] assms(1) t i
    by (auto simp: thread_resume_enter_def set_ready_eq split: if_splits bind_splits)
qed

section \<open>Properties\<close>

definition blank_kernel :: kernel where
  "blank_kernel = \<lparr>threads = (\<lambda>_. None), thread_count = 0, current_id = NULL_ID, ready_bitmap = 0,
     rr_cursor = (\<lambda>_. NULL_ID), tick_count = 0, initialized = False, started = False, cpsr = 0xD3,
     saved_cpsr = (\<lambda>_. 0), switch_flag = False, irq_from = 0, irq_to = 0\<rparr>"

definition spawn :: "u8 \<Rightarrow> kernel \<Rightarrow> kernel" where
  "spawn p k = snd (thread_create ''t'' 0x80000000 1024 p 10 k)"

text \<open>Threads 0 and 1 of priority 5 and thread 2 of priority 31, before and after the start.\<close>

definition three :: kernel where
  "three = spawn 31 (spawn 5 (spawn 5 (sched_init blank_kernel)))"

definition three_up :: kernel where
  "three_up = (case sched_start three of Some k \<Rightarrow> k | None \<Rightarrow> three)"

lemma spawn_reachable: "reachable k \<Longrightarrow> reachable (spawn p k)"
  by (rule reachable.step [OF _ kstep.create]) (auto simp: spawn_def prod_eq_iff)

lemma three_reachable: "reachable three"
  unfolding three_def by (intro spawn_reachable reachable.init)

lemma three_up_reachable: "reachable three_up"
  using three_reachable reachable.step [OF three_reachable kstep.start]
  by (cases "sched_start three") (auto simp: three_up_def)

lemma state_is: "(case threads k i of Some t \<Rightarrow> t_state t = s | None \<Rightarrow> False) \<Longrightarrow>
    \<exists>t. threads k i = Some t \<and> t_state t = s"
  by (cases "threads k i") auto



text \<open>What the scheduler picks in a reachable state is a ready thread, and no ready
  thread has a higher priority; it picks nothing only if no thread is ready or a running
  thread of higher priority holds the top bit.\<close>

theorem pick_next_highest:
  assumes "reachable k"
  shows "(case pick_next k of
      Some i \<Rightarrow> \<exists>t. threads k i = Some t \<and> t_state t = Ready \<and>
        (\<forall>j u. threads k j = Some u \<longrightarrow> t_state u = Ready \<longrightarrow> prio t \<le> prio u)
    | None \<Rightarrow> \<forall>j u. threads k j = Some u \<longrightarrow> t_state u = Ready \<longrightarrow>
        (\<exists>i t. threads k i = Some t \<and> t_state t = Running \<and> prio t < prio u))"
proof -
  note K = sys_okD(1) [OF reachable_ok [OF assms]]
  show ?thesis
  proof (cases "pick_next k")
    case None
    then show ?thesis using pick_next_None [OF K None] by auto
  next
    case (Some i)
    then show ?thesis using pick_next_Some [OF K Some] by fastforce
  qed
qed

theorem pick_next_highest_witness:
  "\<exists>t. threads three 0 = Some t \<and> t_state t = Ready"
proof -
  have "pick_next three = Some 0" by code_simp
  with pick_next_highest [OF three_reachable] show ?thesis by auto
qed




definition dozing :: kernel where
  "dozing = (case thread_sleep_enter 1 three_up of Some (b, k) \<Rightarrow> k | None \<Rightarrow> three_up)"

lemma dozing_reachable: "reachable dozing"
  using reachable.step [OF three_up_reachable kstep.sleep] three_up_reachable
  by (auto simp: dozing_def split: option.splits)




text \<open>A thread whose entry function returns, or that calls \<open>thread_exit\<close>, panics whenever
  another thread is ready to run: the slot of the exiting thread is emptied before
  \<open>do_schedule\<close> unwraps it for its stack pointer.\<close>

theorem thread_exit_panics:
  assumes "reachable k" "threads k (current_id k) = Some c"
    and "threads k j = Some u" "t_state u = Ready" "j \<noteq> current_id k"
    and "\<forall>i t. threads k i = Some t \<and> t_state t = Running \<longrightarrow> i = current_id k"
  shows "thread_exit k = None"
proof -
  let ?k = "k\<lparr>cpsr := cpsr k OR NOINT\<rparr>"
  have ok: "kernel_ok ?k" using sys_okD(1) [OF reachable_ok [OF assms(1)]] by simp
  have r: "do_schedule k1 = None" if "remove_thread (current_id k) ?k = Some k1" for k1
    by (rule remove_current_schedule [OF ok, of c j u]) (use assms(2-6) that in auto)
  then show ?thesis
    by (auto simp: thread_exit_def thread_exit_stub_def mask_kernel_def split: bind_splits)
qed

theorem thread_exit_panics_witness: "thread_exit three_up = None"
proof -
  have e: "(case threads three_up 0 of Some t \<Rightarrow> t_state t = Running | None \<Rightarrow> False)"
    "(case threads three_up 1 of Some t \<Rightarrow> t_state t = Ready | None \<Rightarrow> False)"
    "list_all (\<lambda>i. case threads three_up i of Some t \<Rightarrow> t_state t = Running \<longrightarrow> i = 0 | None \<Rightarrow> True) [0..<32]"
    and c: "current_id three_up = 0" by code_simp+
  from state_is [OF e(1)] state_is [OF e(2)] obtain t u where t: "threads three_up 0 = Some t"
    "threads three_up 1 = Some u" "t_state u = Ready" by auto
  have only: "i = 0" if "threads three_up i = Some v" "t_state v = Running" for i v
  proof -
    have "i \<in> set [0..<32]"
      using slot_thread [OF sys_okD(1) [OF reachable_ok [OF three_up_reachable]] that(1)] by simp
    then have "case threads three_up i of Some t \<Rightarrow> t_state t = Running \<longrightarrow> i = 0 | None \<Rightarrow> True"
      using e(3) unfolding list_all_iff by blast
    then show ?thesis using that by simp
  qed
  show ?thesis
    by (rule thread_exit_panics [OF three_up_reachable _ t(2,3)]) (use t c only in auto)
qed

text \<open>\<open>thread_resume\<close> loses its caller: when it switches to another thread, the calling
  thread is left in state Running without being current, and the scheduler, which picks
  only ready threads, never picks it in that state.\<close>

theorem thread_resume_loses_caller:
  assumes "reachable k" "threads k (current_id k) = Some c" "t_state c = Running"
    and "thread_resume_enter i k = Some (True, k')"
  shows "current_id k' \<noteq> current_id k \<and> threads k' (current_id k) = Some c \<and>
    pick_next k' \<noteq> Some (current_id k)"
proof -
  have ok: "sys_ok k" by (rule reachable_ok [OF assms(1)])
  note K = sys_okD(1) [OF ok]
  obtain t k1 where r: "threads k i = Some t" "t_state t = Blocked" "do_schedule k1 = Some (True, k')"
    "k1 = (set_thread i (t\<lparr>t_state := Ready\<rparr>) k)\<lparr>ready_bitmap := ready_bitmap k OR bitm (prio t)\<rparr>"
    using resume_cases [OF assms(4) K] by metis
  have ok1: "kernel_ok k1"
    using make_ready_ok [OF K r(1), of "t\<lparr>t_state := Ready\<rparr>"] by (simp add: r(4) retains_def prio_def)
  have ic: "i \<noteq> current_id k" using r(1,2) assms(2,3) by auto
  obtain sw k2 where s: "pick_and_mark k1 = Some (sw, k2)" "threads k' = threads k2" "sw \<noteq> None"
    "current_id k' = current_id k2"
    by (rule do_schedule_cases [OF r(3)]) blast
  have k': "kernel_ok k'" using thread_resume_enter_ok [OF ok assms(4)] by (rule sys_okD)
  have "current_id k' \<noteq> current_id k \<and> threads k' (current_id k) = Some c"
    using ok1 s(1) by (cases rule: pick_and_mark_cases) (use s ic assms(2) r(4) in auto)
  moreover have "pick_next k' \<noteq> Some (current_id k)"
    using pick_next_Some(1) [OF k', of "current_id k"] calculation assms(3) by auto
  ultimately show ?thesis by blast
qed

text \<open>Thread 1 is suspended, then resumed by thread 0 of lower priority.\<close>

definition parked :: kernel where
  "parked = (case do { k \<leftarrow> sched_start (spawn 5 (spawn 7 (sched_init blank_kernel)));
     k \<leftarrow> thread_suspend (current_id k) k; (b, k) \<leftarrow> thread_yield_enter k; Some k } of
     Some k \<Rightarrow> k | None \<Rightarrow> three)"

lemma parked_reachable: "reachable parked"
proof -
  let ?k0 = "spawn 5 (spawn 7 (sched_init blank_kernel))"
  have r0: "reachable ?k0" by (intro spawn_reachable reachable.init)
  have "\<not> strips_current (current_id k) k" for k by (simp add: strips_current_def)
  then have "reachable k3" if "sched_start ?k0 = Some k1" "thread_suspend (current_id k1) k1 = Some k2"
    "thread_yield_enter k2 = Some (b, k3)" for k1 k2 k3 b
    using reachable.step [OF reachable.step [OF reachable.step [OF r0 kstep.start [OF that(1)]]
      kstep.suspend [OF that(2)]] kstep.yield [OF that(3)]] by blast
  then show ?thesis using three_reachable
    by (auto simp: parked_def split: option.splits bind_splits)
qed

theorem thread_resume_loses_caller_witness:
  "\<exists>c k'. thread_resume_enter 1 parked = Some (True, k') \<and> threads k' 0 = Some c \<and>
     t_state c = Running \<and> current_id k' = 1"
proof -
  have e: "(case threads parked 0 of Some t \<Rightarrow> t_state t = Running | None \<Rightarrow> False)" "current_id parked = 0"
    "(case thread_resume_enter 1 parked of Some (b, k') \<Rightarrow> b \<and> current_id k' = 1 | None \<Rightarrow> False)"
    by code_simp+
  from state_is [OF e(1)] obtain c where c: "threads parked 0 = Some c" "t_state c = Running" by blast
  from e(3) obtain k' where k': "thread_resume_enter 1 parked = Some (True, k')" "current_id k' = 1"
    by (auto split: option.splits)
  from thread_resume_loses_caller [OF parked_reachable _ c(2) k'(1)] c e(2) k' show ?thesis by auto
qed

text \<open>\<open>thread_yield\<close> can lose its caller: it makes the thread ready without setting the
  bit of its priority, which a preceding \<open>thread_delete\<close> of the only other ready thread of
  that priority has cleared.  The yielding thread is then ready, but no longer in the
  bitmap, and the idle thread runs.\<close>

theorem thread_yield_after_delete:
  "case do { k \<leftarrow> thread_delete 1 three_up; thread_yield_enter k } of
     Some (b, k) \<Rightarrow> b \<and> current_id three_up = 0 \<and> current_id k = 2 \<and> ready_at k 5 0 \<and>
       \<not> bit (ready_bitmap k) 5 \<and> pick_next k = None
   | None \<Rightarrow> False"
  by code_simp

end
