(* ===== verification/Ipc.thy ===== *)
theory Ipc
  imports Thread_Claims
begin

text \<open>
  What the IPC objects share: the mask of waiting threads, from which the lowest id is
  taken, and the effect of \<open>block_current\<close> and \<open>unblock_thread\<close> on the result code a
  blocked thread will find.  \<open>wait_pool\<close> states these effects as an interface; the
  arguments about tokens and ownership are made once, inside it or from its facts.
\<close>

section \<open>The mask of waiters\<close>

text \<open>\<open>let w = waiters.trailing_zeros(); waiters &= !(1 << w)\<close>\<close>

definition pop_waiter :: "u32 \<Rightarrow> nat \<times> u32" where
  "pop_waiter ws = (let w = trailing_zeros ws in (w, ws AND NOT (bitm w)))"

lemma pop_waiter_props:
  assumes "pop_waiter ws = (w, ws')" "ws \<noteq> 0"
  shows "w < 32" "bit ws w" "bit ws' i \<longleftrightarrow> bit ws i \<and> i \<noteq> w" "bit ws i \<Longrightarrow> w \<le> i"
proof -
  have w: "w = trailing_zeros ws" "ws' = ws AND NOT (bitm w)"
    using assms(1) by (auto simp: pop_waiter_def Let_def)
  note tz = trailing_zeros_lt [OF assms(2)]
  show "w < 32" "bit ws w" using w tz by simp_all
  show "bit ws' i \<longleftrightarrow> bit ws i \<and> i \<noteq> w" using w tz(1) by (auto simp: bit_simps dest: bit_u32_len)
  show "bit ws i \<Longrightarrow> w \<le> i" using tz(3) [of i] w by (meson not_le)
qed

lemma bit_add_waiter: "i < 32 \<Longrightarrow> bit (ws OR bitm i) j \<longleftrightarrow> bit ws j \<or> j = i"
  by (auto simp: bit_simps)

lemma bit_del_waiter: "i < 32 \<Longrightarrow> bit (ws AND NOT (bitm i)) j \<longleftrightarrow> bit ws j \<and> j \<noteq> i"
  by (auto simp: bit_simps dest: bit_u32_len)

section \<open>Result codes of blocked threads\<close>

text \<open>The thread in slot \<open>i\<close> will find that its wait succeeded.\<close>

definition ipc_ok :: "kernel \<Rightarrow> nat \<Rightarrow> bool" where
  "ipc_ok k i = (case threads k i of Some t \<Rightarrow> ipc_error t = IPC_OK | None \<Rightarrow> False)"

lemma ipc_ok_Some: "threads k i = Some t \<Longrightarrow> ipc_ok k i \<longleftrightarrow> ipc_error t = IPC_OK"
  by (simp add: ipc_ok_def)

lemma ipc_ok_cong: "threads k' i = threads k i \<Longrightarrow> ipc_ok k' i = ipc_ok k i"
  by (simp add: ipc_ok_def)

lemma ipc_ok_cpsr [simp]: "ipc_ok (k\<lparr>cpsr := c\<rparr>) = ipc_ok k"
  by (intro ext ipc_ok_cong) simp

lemma only_runs_ipc_ok: "only_runs k k' \<Longrightarrow> ipc_ok k' i = ipc_ok k i"
proof -
  assume "only_runs k k'"
  then have "threads k' i = threads k i \<or>
     (\<exists>t. threads k i = Some t \<and> t_state t = Ready \<and> threads k' i = Some (t\<lparr>t_state := Running\<rparr>))"
    unfolding only_runs_def by blast
  then show ?thesis by (elim disjE exE conjE) (simp_all add: ipc_ok_def)
qed

lemma do_schedule_only_runs: "kernel_ok k \<Longrightarrow> do_schedule k = Some (b, k') \<Longrightarrow> only_runs k k'"
  by (erule do_schedule_cases) (drule (1) pick_and_mark_only_runs, simp add: only_runs_def)

lemma current_ipc_error_ok: "current_ipc_error k = Some e \<Longrightarrow> current_id k < 32 \<and> (e = IPC_OK \<longleftrightarrow> ipc_ok k (current_id k))"
  by (auto simp: current_ipc_error_def slot_eq_Some ipc_ok_def ipc_codes split: bind_splits option.splits)

text \<open>Blocking marks the current thread as still waiting and leaves the codes of the others.\<close>

lemma block_current_codes:
  assumes "sys_ok k" "block_current tmo k = Some (b, k')"
  shows "current_id k < 32" "ipc_ok k' i \<longleftrightarrow> ipc_ok k i \<and> i \<noteq> current_id k \<or>
    ipc_ok k i \<and> threads k (current_id k) = None"
proof -
  note K = sys_okD(1) [OF assms(1)]
  have lt: "current_id k < 32" using assms(2) by (auto simp: block_current_def slot_eq_Some split: bind_splits)
  then show "current_id k < 32" .
  show "ipc_ok k' i \<longleftrightarrow> ipc_ok k i \<and> i \<noteq> current_id k \<or> ipc_ok k i \<and> threads k (current_id k) = None"
  proof (cases "threads k (current_id k)")
    case None
    then have "do_schedule k = Some (b, k')" using assms(2) lt by (simp add: block_current_def)
    from only_runs_ipc_ok [OF do_schedule_only_runs [OF K this]] None show ?thesis by auto
  next
    case (Some t)
    let ?t = "case tmo of Some ticks \<Rightarrow> t\<lparr>ipc_error := IPC_WAIT_SENTINEL, is_ipc_wait := True,
        sleep_until := tick_count k + ucast ticks, t_state := BlockedTimeout\<rparr>
      | None \<Rightarrow> t\<lparr>ipc_error := IPC_WAIT_SENTINEL, is_ipc_wait := True, t_state := Blocked\<rparr>"
    let ?k = "clear_ready_if_empty (t_priority t) (set_thread (current_id k) ?t k)"
    have s: "do_schedule ?k = Some (b, k')"
      using assms(2) Some lt by (simp add: block_current_def Let_def split: option.splits)
    have "kernel_ok ?k"
      by (rule stop_thread_ok [OF K Some]) (auto simp: retains_def split: option.splits)
    from only_runs_ipc_ok [OF do_schedule_only_runs [OF this s]]
    show ?thesis using Some by (auto simp: ipc_ok_def ipc_codes split: option.splits)
  qed
qed

lemma do_schedule_started:
  assumes "kernel_ok k" "do_schedule k = Some (b, k')"
  shows "started k' = started k"
proof -
  obtain sw k1 where "pick_and_mark k = Some (sw, k1)"
    and k': "k' = (case sw of None \<Rightarrow> k1 | Some (f, t) \<Rightarrow> context_switch f t k1)"
    using assms(2) by (auto simp: do_schedule_def split: bind_splits option.splits)
  from pick_and_mark_started [OF assms(1) this(1)] show ?thesis unfolding k' by (auto split: option.splits)
qed

lemma block_current_started:
  assumes "sys_ok k" "block_current tmo k = Some (b, k')"
  shows "started k' = started k"
proof (cases "threads k (current_id k)")
  case None
  then have "do_schedule k = Some (b, k')"
    using assms(2) by (auto simp: block_current_def slot_eq_Some split: bind_splits)
  then show ?thesis using do_schedule_started [OF sys_okD(1) [OF assms(1)]] by blast
next
  case (Some t)
  let ?t = "case tmo of Some ticks \<Rightarrow> t\<lparr>ipc_error := IPC_WAIT_SENTINEL, is_ipc_wait := True,
      sleep_until := tick_count k + ucast ticks, t_state := BlockedTimeout\<rparr>
    | None \<Rightarrow> t\<lparr>ipc_error := IPC_WAIT_SENTINEL, is_ipc_wait := True, t_state := Blocked\<rparr>"
  let ?k = "clear_ready_if_empty (t_priority t) (set_thread (current_id k) ?t k)"
  have s: "do_schedule ?k = Some (b, k')"
    using assms(2) Some by (auto simp: block_current_def Let_def slot_eq_Some split: option.splits bind_splits)
  have "kernel_ok ?k"
    by (rule stop_thread_ok [OF sys_okD(1) [OF assms(1)] Some]) (auto simp: retains_def split: option.splits)
  from do_schedule_started [OF this s] show ?thesis by simp
qed

lemma unblock_started: "unblock_thread i k = Some k' \<Longrightarrow> started k' = started k"
  by (auto simp: unblock_thread_def set_ready_def Let_def slot_eq_Some
      split: bind_splits option.splits if_splits)

text \<open>Unblocking gives the success code to the thread, if it is waiting, and to no other.\<close>

lemma unblock_thread_codes:
  assumes "sys_ok k" "unblock_thread i k = Some k'"
  shows "ipc_ok k' j \<longleftrightarrow> ipc_ok k j \<or> j = i \<and> (\<exists>t. threads k i = Some t \<and> ipc_waiting t)"
    and "current_id k' = current_id k"
proof -
  have "(ipc_ok k' j \<longleftrightarrow> ipc_ok k j \<or> j = i \<and> (\<exists>t. threads k i = Some t \<and> ipc_waiting t)) \<and>
    current_id k' = current_id k"
  proof (cases "\<exists>t. threads k i = Some t \<and> ipc_waiting t")
    case True
    then obtain t where t: "threads k i = Some t" "ipc_waiting t" by blast
    let ?t = "t\<lparr>ipc_error := IPC_OK, is_ipc_wait := False, sleep_until := 0\<rparr>"
    have "set_ready i (t_priority t) (set_thread i ?t k) = Some k'"
      using assms(2) t slot_thread [OF sys_okD(1) [OF assms(1)] t(1)] by (simp add: unblock_thread_def)
    from set_ready_updated(3) [OF sys_okD(1) [OF assms(1)] t(1) _ this] t show ?thesis
      by (auto simp: retains_def ipc_ok_def)
  next
    case False
    then have "k' = k" using assms(2) by (auto simp: unblock_thread_def slot_eq_Some split: bind_splits option.splits)
    with False show ?thesis by auto
  qed
  then show "ipc_ok k' j \<longleftrightarrow> ipc_ok k j \<or> j = i \<and> (\<exists>t. threads k i = Some t \<and> ipc_waiting t)"
    "current_id k' = current_id k" by simp_all
qed

lemma unblock_returns: "i < 32 \<Longrightarrow> \<exists>k'. unblock_thread i k = Some k'"
  by (cases "threads k i") (auto simp: unblock_thread_def set_ready_def Let_def)

lemma unblock_wakes:
  assumes "sys_ok k" "threads k i = Some t" "ipc_waiting t"
  shows "\<exists>k'. unblock_thread i k = Some k' \<and> threads k' = (threads k)(i :=
      Some (t\<lparr>ipc_error := IPC_OK, is_ipc_wait := False, sleep_until := 0, t_state := Ready\<rparr>))"
proof -
  have i: "i < 32" using slot_thread [OF sys_okD(1) [OF assms(1)] assms(2)] by simp
  then show ?thesis using assms by (simp add: unblock_thread_def set_ready_def set_thread_def Let_def)
qed

lemma unblock_cpsr:
  assumes "unblock_thread i k = Some k'"
  shows "cpsr k' = cpsr k" "current_id k' = current_id k"
proof -
  have "cpsr k' = cpsr k \<and> current_id k' = current_id k"
    using assms by (auto simp: unblock_thread_def set_ready_def Let_def slot_eq_Some
      split: bind_splits option.splits if_splits)
  then show "cpsr k' = cpsr k" "current_id k' = current_id k" by simp_all
qed

lemma unblock_idle: "i < 32 \<Longrightarrow> \<not> (\<exists>t. threads k i = Some t \<and> ipc_waiting t) \<Longrightarrow> unblock_thread i k = Some k"
  by (auto simp: unblock_thread_def split: option.splits)

text \<open>With nobody else ready, blocking does not switch: the call goes on with the thread
  marked as waiting.\<close>

lemma block_current_alone:
  assumes "sys_ok k" "threads k (current_id k) = Some t"
    and "\<And>j u. threads k j = Some u \<Longrightarrow> j \<noteq> current_id k \<Longrightarrow> t_state u \<noteq> Ready"
  shows "\<exists>k'. block_current tmo k = Some (False, k') \<and> cpsr k' = cpsr k \<and> current_id k' = current_id k \<and>
    threads k' (current_id k) \<noteq> None \<and> \<not> ipc_ok k' (current_id k)"
proof -
  note K = sys_okD(1) [OF assms(1)]
  have lt: "current_id k < 32" using slot_thread [OF K assms(2)] by simp
  let ?t = "case tmo of Some ticks \<Rightarrow> t\<lparr>ipc_error := IPC_WAIT_SENTINEL, is_ipc_wait := True,
      sleep_until := tick_count k + ucast ticks, t_state := BlockedTimeout\<rparr>
    | None \<Rightarrow> t\<lparr>ipc_error := IPC_WAIT_SENTINEL, is_ipc_wait := True, t_state := Blocked\<rparr>"
  let ?k = "clear_ready_if_empty (t_priority t) (set_thread (current_id k) ?t k)"
  have ok: "kernel_ok ?k"
    by (rule stop_thread_ok [OF K assms(2)]) (auto simp: retains_def split: option.splits)
  have "pick_next ?k = None"
  proof (rule ccontr)
    assume "pick_next ?k \<noteq> None"
    then obtain i where "pick_next ?k = Some i" by blast
    from pick_next_Some(1) [OF ok this] obtain u where "threads ?k i = Some u" "t_state u = Ready" by blast
    then show False using assms(3) [of i u] by (auto split: if_splits option.splits)
  qed
  then have "do_schedule ?k = Some (False, ?k)" by (simp add: do_schedule_def pick_and_mark_def)
  then have "block_current tmo k = Some (False, ?k)"
    using assms(2) lt by (simp add: block_current_def Let_def split: option.splits)
  then show ?thesis by (auto simp: ipc_ok_def ipc_codes split: option.splits)
qed

section \<open>The interface\<close>

text \<open>\<open>ok k\<close> is the invariant of the thread system, \<open>code k i\<close> that thread \<open>i\<close> has been
  handed the object.  What the IPC objects rely on is that waking hands over to at most
  the thread named, and that parking takes no other thread's success away.\<close>

locale wait_pool =
  fixes ok :: "'k \<Rightarrow> bool"
    and code :: "'k \<Rightarrow> nat \<Rightarrow> bool"
    and park :: "u32 option \<Rightarrow> 'k \<Rightarrow> (bool \<times> 'k) option"
    and wake :: "nat \<Rightarrow> 'k \<Rightarrow> 'k option"
    and me :: "'k \<Rightarrow> nat"
    and live :: "'k \<Rightarrow> nat \<Rightarrow> bool"
  assumes park_ok: "ok k \<Longrightarrow> park tmo k = Some (b, k') \<Longrightarrow> ok k'"
    and park_codes: "ok k \<Longrightarrow> park tmo k = Some (b, k') \<Longrightarrow> code k' i \<Longrightarrow> code k i"
    and park_clears: "ok k \<Longrightarrow> park tmo k = Some (b, k') \<Longrightarrow> live k (me k) \<Longrightarrow> \<not> code k' (me k)"
    and wake_ok: "ok k \<Longrightarrow> wake i k = Some k' \<Longrightarrow> ok k'"
    and wake_codes: "ok k \<Longrightarrow> wake i k = Some k' \<Longrightarrow> code k' j \<Longrightarrow> code k j \<or> j = i"
    and wake_keeps: "ok k \<Longrightarrow> wake i k = Some k' \<Longrightarrow> code k j \<Longrightarrow> code k' j"
begin

definition handed :: "'k \<Rightarrow> nat set \<Rightarrow> nat set" where
  "handed k W = {w \<in> W. code k w}"

lemma park_handed:
  assumes "ok k" "park tmo k = Some (b, k')"
  shows "handed k' W \<subseteq> handed k W"
  using park_codes [OF assms] by (auto simp: handed_def)

text \<open>A thread that parks joins the waiters without having been handed anything.\<close>

lemma park_joins:
  assumes "ok k" "park tmo k = Some (b, k')" "live k (me k)"
  shows "handed k' (insert (me k) W) \<subseteq> handed k W"
proof
  fix x assume x: "x \<in> handed k' (insert (me k) W)"
  then have "x \<noteq> me k" "code k' x" using park_clears [OF assms] unfolding handed_def by blast+
  with x park_codes [OF assms(1,2)] show "x \<in> handed k W" unfolding handed_def by blast
qed

lemma wake_handed:
  assumes "ok k" "wake i k = Some k'"
  shows "handed k' W \<subseteq> insert i (handed k W)"
  using wake_codes [OF assms] by (auto simp: handed_def)

lemma wake_handed_card:
  assumes "ok k" "wake i k = Some k'" "finite W"
  shows "card (handed k' W) \<le> Suc (card (handed k W))"
proof -
  have f: "finite (handed k W)" using assms(3) by (simp add: handed_def)
  have "card (handed k' W) \<le> card (insert i (handed k W))"
    by (rule card_mono) (use f wake_handed [OF assms(1,2)] in auto)
  also have "\<dots> \<le> Suc (card (handed k W))" using f by (simp add: card_insert_if)
  finally show ?thesis .
qed

end

interpretation pool: wait_pool sys_ok ipc_ok block_current unblock_thread current_id
  "\<lambda>k i. threads k i \<noteq> None"
proof
  fix k k' :: kernel and tmo b i j
  assume ok: "sys_ok k"
  show "sys_ok k'" if "block_current tmo k = Some (b, k')" by (rule block_current_ok [OF ok that])
  show "ipc_ok k i" if "block_current tmo k = Some (b, k')" "ipc_ok k' i"
    using block_current_codes(2) [OF ok that(1), of i] that(2) by auto
  show "\<not> ipc_ok k' (current_id k)"
    if "block_current tmo k = Some (b, k')" "threads k (current_id k) \<noteq> None"
    using block_current_codes(2) [OF ok that(1), of "current_id k"] that(2) by simp
  show "sys_ok k'" if "unblock_thread i k = Some k'" by (rule unblock_thread_ok [OF ok that])
  show "ipc_ok k j \<or> j = i" if "unblock_thread i k = Some k'" "ipc_ok k' j"
    using unblock_thread_codes(1) [OF ok that(1), of j] that(2) by auto
  show "ipc_ok k' j" if "unblock_thread i k = Some k'" "ipc_ok k j"
    using unblock_thread_codes(1) [OF ok that(1), of j] that(2) by simp
qed

section \<open>Sample states\<close>

text \<open>Of \<open>three_up\<close>, with thread 0 blocked forever, and with thread 0 blocked for one tick
  that has passed; thread 1 runs.\<close>

definition waits_0 :: kernel where
  "waits_0 = (case block_current None three_up of Some (b, k) \<Rightarrow> k | None \<Rightarrow> three_up)"

definition late_0 :: kernel where
  "late_0 = (case do { (b, k) \<leftarrow> block_current (Some 1) three_up; sched_tick k } of
     Some k \<Rightarrow> k | None \<Rightarrow> three_up)"

lemma waits_0_reachable: "reachable waits_0"
  using reachable.step [OF three_up_reachable kstep.block] three_up_reachable
  by (auto simp: waits_0_def split: option.splits)

lemma late_0_reachable: "reachable late_0"
proof -
  have "reachable k2" if "block_current (Some 1) three_up = Some (b, k1)" "sched_tick k1 = Some k2" for b k1 k2
    using reachable.step [OF reachable.step [OF three_up_reachable kstep.block [OF that(1)]] kstep.tick [OF that(2)]] .
  then show ?thesis using three_up_reachable
    by (auto simp: late_0_def split: option.splits bind_splits)
qed

lemma waits_0_thread: "\<exists>t. threads waits_0 0 = Some t \<and> ipc_waiting t" and waits_0_current: "current_id waits_0 = 1"
proof -
  have "(case threads waits_0 0 of Some t \<Rightarrow> ipc_waiting t | None \<Rightarrow> False)" by code_simp
  then show "\<exists>t. threads waits_0 0 = Some t \<and> ipc_waiting t" by (auto split: option.splits)
  show "current_id waits_0 = 1" by code_simp
qed

lemma late_0_thread: "\<exists>t. threads late_0 0 = Some t \<and> t_state t = Ready \<and> ipc_error t = IPC_TIMEOUT \<and> \<not> ipc_waiting t"
  and late_0_current: "current_id late_0 = 1"
proof -
  have "(case threads late_0 0 of Some t \<Rightarrow> t_state t = Ready \<and> ipc_error t = IPC_TIMEOUT \<and> \<not> ipc_waiting t | None \<Rightarrow> False)"
    by code_simp
  then show "\<exists>t. threads late_0 0 = Some t \<and> t_state t = Ready \<and> ipc_error t = IPC_TIMEOUT \<and> \<not> ipc_waiting t"
    by (auto split: option.splits)
  show "current_id late_0 = 1" by code_simp
qed

end
