(* ===== verification/Semaphore.thy ===== *)
theory Semaphore
  imports Ipc
begin

text \<open>
  \<open>ipc/semaphore.rs\<close>: the counting semaphore.  A state is the kernel with the object.
  The tokens are accounted for over every interleaving of the operations of all threads
  with ticks and with anything else the system does.
\<close>

datatype sem_error = SemTimeout | SemOverflow

record semaphore =
  sem_count :: i32
  sem_waiters :: u32

type_synonym sem_state = "kernel \<times> semaphore"

definition sem_new :: "i32 \<Rightarrow> semaphore" where
  "sem_new initial = \<lparr>sem_count = initial, sem_waiters = 0\<rparr>"

definition sem_try_take :: "sem_state \<Rightarrow> bool \<times> sem_state" where
  "sem_try_take = (\<lambda>(k, s).
     let (c, k) = mask_kernel k;
         ok = (0 <s sem_count s);
         s = (if ok then s\<lparr>sem_count := sem_count s - 1\<rparr> else s)
     in (ok, unmask_kernel c k, s))"

text \<open>\<open>take\<close>, up to the switch (\<open>Inl\<close> the result when it does not block, \<open>Inr\<close> whether it
  switched), and from the resumption.\<close>

definition sem_take_enter ::
  "u32 option \<Rightarrow> sem_state \<Rightarrow> (((sem_error + unit) + bool) \<times> sem_state) option" where
  "sem_take_enter tmo = (\<lambda>(k, s).
     let (c, k) = mask_kernel k in
     if 0 <s sem_count s then Some (Inl (Inr ()), unmask_kernel c k, s\<lparr>sem_count := sem_count s - 1\<rparr>)
     else do {
       let i = current_id k;
       let s = s\<lparr>sem_waiters := sem_waiters s OR bitm i\<rparr>;
       (sw, k) \<leftarrow> block_current tmo k;
       Some (Inr sw, k, s)
     })"

definition sem_take_resume :: "nat \<Rightarrow> sem_state \<Rightarrow> ((sem_error + unit) \<times> sem_state) option" where
  "sem_take_resume i = (\<lambda>(k, s). do {
     let (c2, k) = mask_kernel k;
     err \<leftarrow> current_ipc_error k;
     if err \<noteq> IPC_OK
     then Some (Inl SemTimeout, unmask_kernel c2 k, s\<lparr>sem_waiters := sem_waiters s AND NOT (bitm i)\<rparr>)
     else Some (Inr (), unmask_kernel c2 k, s)
   })"

definition sem_take ::
  "(sem_state \<Rightarrow> sem_state option) \<Rightarrow> u32 option \<Rightarrow> sem_state \<Rightarrow> ((sem_error + unit) \<times> sem_state) option" where
  "sem_take run tmo ks = do {
     (r, ks') \<leftarrow> sem_take_enter tmo ks;
     case r of Inl res \<Rightarrow> Some (res, ks')
     | Inr sw \<Rightarrow> do {
         ks' \<leftarrow> resume_with run sw ks';
         sem_take_resume (current_id (fst ks)) ks'
       }
   }"

definition sem_release_locked :: "sem_state \<Rightarrow> ((sem_error + unit) \<times> sem_state) option" where
  "sem_release_locked = (\<lambda>(k, s).
     if sem_waiters s \<noteq> 0 then do {
       let (w, ws) = pop_waiter (sem_waiters s);
       k \<leftarrow> unblock_thread w k;
       Some (Inr (), k, s\<lparr>sem_waiters := ws\<rparr>)
     } else Some (Inr (), k, s\<lparr>sem_count := sem_count s + 1\<rparr>))"

definition sem_release :: "sem_state \<Rightarrow> ((sem_error + unit) \<times> sem_state) option" where
  "sem_release = (\<lambda>(k, s). do {
     let (c, k) = mask_kernel k;
     (r, k, s) \<leftarrow> sem_release_locked (k, s);
     Some (r, unmask_kernel c k, s)
   })"

definition sem_release_from_isr :: "sem_state \<Rightarrow> (bool \<times> sem_state) option" where
  "sem_release_from_isr ks = map_option (\<lambda>(r, ks). (\<not> isl r, ks)) (sem_release_locked ks)"

definition sem_get_count :: "semaphore \<Rightarrow> i32" where "sem_get_count s = sem_count s"
definition sem_waiter_count :: "semaphore \<Rightarrow> nat" where "sem_waiter_count s = count_ones (sem_waiters s)"

section \<open>Tokens\<close>

text \<open>A configuration: the kernel, the semaphore, the threads inside \<open>take\<close> that were
  blocked and have not returned, and the balance of tokens, the initial count plus the
  releases minus the successful takes.  \<open>env\<close> is anything that hands no thread success:
  ticks, other calls, other objects as long as they do not wake the threads of \<open>W\<close>.\<close>

type_synonym sem_conf = "kernel \<times> semaphore \<times> nat set \<times> int"

definition quiet :: "nat set \<Rightarrow> kernel \<Rightarrow> kernel \<Rightarrow> bool" where
  "quiet W k k' \<longleftrightarrow> (\<forall>w\<in>W. ipc_ok k' w \<longrightarrow> ipc_ok k w)"

inductive sem_step :: "sem_conf \<Rightarrow> sem_conf \<Rightarrow> bool" where
  take_now: "current_id k \<notin> W \<Longrightarrow> sem_take_enter tmo (k, s) = Some (Inl (Inr ()), k', s') \<Longrightarrow>
    sem_step (k, s, W, n) (k', s', W, n - 1)"
| try_take: "current_id k \<notin> W \<Longrightarrow> sem_try_take (k, s) = (ok, k', s') \<Longrightarrow>
    sem_step (k, s, W, n) (k', s', W, if ok then n - 1 else n)"
| park: "current_id k \<notin> W \<Longrightarrow> threads k (current_id k) \<noteq> None \<Longrightarrow>
    sem_take_enter tmo (k, s) = Some (Inr sw, k', s') \<Longrightarrow>
    sem_step (k, s, W, n) (k', s', insert (current_id k) W, n)"
| resume: "current_id k \<in> W \<Longrightarrow> sem_take_resume (current_id k) (k, s) = Some (r, k', s') \<Longrightarrow>
    sem_step (k, s, W, n) (k', s', W - {current_id k}, if isl r then n else n - 1)"
| release: "sem_count s \<noteq> 0x7FFFFFFF \<Longrightarrow> sem_release (k, s) = Some (r, k', s') \<Longrightarrow>
    sem_step (k, s, W, n) (k', s', W, n + 1)"
| release_isr: "sem_count s \<noteq> 0x7FFFFFFF \<Longrightarrow> sem_release_from_isr (k, s) = Some (b, k', s') \<Longrightarrow>
    sem_step (k, s, W, n) (k', s', W, n + 1)"
| env: "sys_ok k' \<Longrightarrow> quiet W k k' \<Longrightarrow> sem_step (k, s, W, n) (k', s, W, n)"

inductive_cases sem_step_cases: "sem_step c c'"

inductive sem_reach :: "kernel \<Rightarrow> i32 \<Rightarrow> sem_conf \<Rightarrow> bool" for k0 init where
  start: "sem_reach k0 init (k0, sem_new init, {}, sint init)"
| step: "sem_reach k0 init c \<Longrightarrow> sem_step c c' \<Longrightarrow> sem_reach k0 init c'"

definition tokens_ok :: "sem_conf \<Rightarrow> bool" where
  "tokens_ok = (\<lambda>(k, s, W, n). sys_ok k \<and> finite W \<and> 0 \<le> sint (sem_count s) \<and>
     sint (sem_count s) + int (card (pool.handed k W)) \<le> n)"

lemma sint_minus_one: "0 <s w \<Longrightarrow> sint (w - 1 :: i32) = sint w - 1"
proof -
  assume "0 <s w"
  then have 0: "0 < sint w" by (simp add: word_sless_alt)
  have 1: "sint w < 2 ^ 31" using sint_lt [of w] by simp
  have "signed_take_bit 31 (sint w - 1) = sint w - 1"
    by (rule signed_take_bit_int_eq_self) (use 0 1 in simp_all)
  then show ?thesis by (subst sint_word_ariths(2)) simp
qed

lemma sint_plus_one: "w \<noteq> 0x7FFFFFFF \<Longrightarrow> sint (w + 1 :: i32) = sint w + 1"
proof -
  assume a: "w \<noteq> 0x7FFFFFFF"
  have "sint w \<noteq> sint (0x7FFFFFFF :: i32)" using a signed_word_eqI by blast
  then have 0: "sint w \<noteq> 0x7FFFFFFF" by simp
  have 1: "sint w < 2 ^ 31" "- (2 ^ 31) \<le> sint w" using sint_lt [of w] sint_ge [of w] by simp_all
  have "signed_take_bit 31 (sint w + 1) = sint w + 1"
    by (rule signed_take_bit_int_eq_self) (use 0 1 in simp_all)
  then show ?thesis by (subst sint_word_ariths(1)) simp
qed

lemma mask_unmask_sys [simp]:
  "sys_ok (unmask_kernel c k) = sys_ok k" "ipc_ok (unmask_kernel c k) = ipc_ok k"
  by (simp_all add: unmask_kernel_def)

lemma handed_cpsr [simp]:
  "pool.handed (k\<lparr>cpsr := c\<rparr>) W = pool.handed k W" "pool.handed (unmask_kernel c k) W = pool.handed k W"
  by (simp_all add: pool.handed_def unmask_kernel_def)

lemma handed_finite [simp]: "finite W \<Longrightarrow> finite (pool.handed k W)"
  by (simp add: pool.handed_def)

lemma sem_take_enter_cases:
  assumes "sem_take_enter tmo (k, s) = Some (r, k', s')"
  obtains (now) "0 <s sem_count s" "r = Inl (Inr ())" "s' = s\<lparr>sem_count := sem_count s - 1\<rparr>"
      "k' = unmask_kernel (cpsr k) (k\<lparr>cpsr := cpsr k OR NOINT\<rparr>)"
  | (park) sw where "\<not> 0 <s sem_count s" "r = Inr sw"
      "block_current tmo (k\<lparr>cpsr := cpsr k OR NOINT\<rparr>) = Some (sw, k')"
      "s' = s\<lparr>sem_waiters := sem_waiters s OR bitm (current_id k)\<rparr>"
  using assms by (auto simp: sem_take_enter_def mask_kernel_def split: if_splits bind_splits)

lemma sem_take_resume_cases:
  assumes "sem_take_resume i (k, s) = Some (r, k', s')"
  obtains "current_id k < 32" "isl r \<longleftrightarrow> \<not> ipc_ok k (current_id k)" "sem_count s' = sem_count s"
    "k' = unmask_kernel (cpsr k) (k\<lparr>cpsr := cpsr k OR NOINT\<rparr>)"
proof -
  let ?k = "k\<lparr>cpsr := cpsr k OR NOINT\<rparr>"
  obtain e where e: "current_ipc_error ?k = Some e"
    and r: "(if e \<noteq> IPC_OK then (Inl SemTimeout, unmask_kernel (cpsr k) ?k, s\<lparr>sem_waiters := sem_waiters s AND NOT (bitm i)\<rparr>)
      else (Inr (), unmask_kernel (cpsr k) ?k, s)) = (r, k', s')"
    using assms by (auto simp: sem_take_resume_def mask_kernel_def split: bind_splits if_splits)
  from current_ipc_error_ok [OF e] that r show ?thesis by (auto split: if_splits)
qed

lemma sem_release_locked_cases:
  assumes "sem_release_locked (k, s) = Some (r, k', s')"
  obtains (wake) w ws where "sem_waiters s \<noteq> 0" "pop_waiter (sem_waiters s) = (w, ws)" "unblock_thread w k = Some k'"
      "s' = s\<lparr>sem_waiters := ws\<rparr>" "r = Inr ()"
  | (count) "sem_waiters s = 0" "k' = k" "s' = s\<lparr>sem_count := sem_count s + 1\<rparr>" "r = Inr ()"
  using assms by (auto simp: sem_release_locked_def split: if_splits bind_splits prod.splits)

lemma sem_release_eq:
  "sem_release (k, s) = Some (r, k', s') \<longleftrightarrow>
     (\<exists>k1. sem_release_locked (k\<lparr>cpsr := cpsr k OR NOINT\<rparr>, s) = Some (r, k1, s') \<and> k' = unmask_kernel (cpsr k) k1)"
  by (auto simp: sem_release_def mask_kernel_def split: bind_splits)

lemma release_tokens:
  assumes "tokens_ok (k, s, W, n)" "sem_count s \<noteq> 0x7FFFFFFF" "sem_release_locked (k, s) = Some (r, k', s')"
  shows "tokens_ok (k', s', W, n + 1)"
  using assms(3)
proof (cases rule: sem_release_locked_cases)
  case (wake w ws)
  have ok: "sys_ok k" "finite W" using assms(1) by (simp_all add: tokens_ok_def)
  from pool.wake_handed_card [OF ok(1) wake(3) ok(2)] pool.wake_ok [OF ok(1) wake(3)]
  show ?thesis using assms(1) wake by (simp add: tokens_ok_def)
next
  case count
  then show ?thesis using assms(1) sint_plus_one [OF assms(2)] by (simp add: tokens_ok_def)
qed

lemma card_handed_mono: "pool.handed k' W' \<subseteq> pool.handed k W \<Longrightarrow> finite W \<Longrightarrow>
    card (pool.handed k' W') \<le> card (pool.handed k W)"
  by (rule card_mono) simp_all

lemma sem_step_tokens:
  assumes "sem_step c c'" "tokens_ok c"
  shows "tokens_ok c'"
  using assms
proof (induction rule: sem_step.induct)
  case (take_now k W tmo s k' s' n)
  from take_now(2) show ?case
    by (cases rule: sem_take_enter_cases)
      (use take_now.prems in \<open>auto simp: tokens_ok_def sint_minus_one word_sless_alt\<close>)
next
  case (try_take k W s ok k' s' n)
  then show ?case
    by (auto simp: sem_try_take_def mask_kernel_def tokens_ok_def Let_def sint_minus_one word_sless_alt split: if_splits)
next
  case (park k W tmo s sw k' s' n)
  let ?k = "k\<lparr>cpsr := cpsr k OR NOINT\<rparr>"
  have p: "block_current tmo ?k = Some (sw, k')" "sem_count s' = sem_count s"
    by (rule sem_take_enter_cases [OF park(3)]; simp)+
  have ok: "sys_ok ?k" "finite W" using park.prems by (simp_all add: tokens_ok_def)
  have "threads ?k (current_id ?k) \<noteq> None" using park(2) by simp
  from pool.park_joins [OF ok(1) p(1) this, of W] have "pool.handed k' (insert (current_id k) W) \<subseteq> pool.handed k W"
    by simp
  from card_handed_mono [OF this ok(2)] show ?case
    using park.prems p pool.park_ok [OF ok(1) p(1)] by (simp add: tokens_ok_def)
next
  case (resume k W s r k' s' n)
  from resume(2) obtain "isl r \<longleftrightarrow> \<not> ipc_ok k (current_id k)" "sem_count s' = sem_count s"
    "k' = unmask_kernel (cpsr k) (k\<lparr>cpsr := cpsr k OR NOINT\<rparr>)"
    by (rule sem_take_resume_cases)
  moreover have "finite W" "finite (pool.handed k W)" using resume.prems by (simp_all add: tokens_ok_def)
  moreover have "pool.handed k (W - {current_id k}) = pool.handed k W - {current_id k}"
    by (auto simp: pool.handed_def)
  moreover have "current_id k \<in> pool.handed k W \<longleftrightarrow> ipc_ok k (current_id k)"
    using resume(1) by (simp add: pool.handed_def)
  ultimately have r: "sys_ok k'" "sem_count s' = sem_count s" "finite W" "finite (pool.handed k W)"
    "pool.handed k' (W - {current_id k}) = pool.handed k W - {current_id k}"
    "isl r \<longleftrightarrow> current_id k \<notin> pool.handed k W"
    using resume.prems by (simp_all add: tokens_ok_def)
  have "0 < card (pool.handed k W)" if "\<not> isl r" using r(4,6) that by (auto simp: card_gt_0_iff)
  moreover have "card (pool.handed k W - {current_id k}) = (if isl r then card (pool.handed k W) else card (pool.handed k W) - 1)"
    using r(6) by (simp add: card_Diff_singleton_if)
  ultimately show ?case using resume.prems r by (cases "isl r") (simp_all add: tokens_ok_def)
next
  case (release s k r k' s' W n)
  then obtain k1 where k1: "sem_release_locked (k\<lparr>cpsr := cpsr k OR NOINT\<rparr>, s) = Some (r, k1, s')"
    "k' = unmask_kernel (cpsr k) k1" by (auto simp: sem_release_eq)
  have "tokens_ok (k\<lparr>cpsr := cpsr k OR NOINT\<rparr>, s, W, n)" using release.prems by (simp add: tokens_ok_def)
  from release_tokens [OF this release(1) k1(1)] show ?case using k1(2) by (simp add: tokens_ok_def)
next
  case (release_isr s k b k' s' W n)
  then obtain r where "sem_release_locked (k, s) = Some (r, k', s')"
    by (auto simp: sem_release_from_isr_def)
  from release_tokens [OF release_isr.prems release_isr(1) this] show ?case .
next
  case (env k' W k s n)
  have "pool.handed k' W \<subseteq> pool.handed k W" using env(2) by (auto simp: quiet_def pool.handed_def)
  then show ?case using env card_handed_mono [of k' W k W] by (auto simp: tokens_ok_def)
qed

lemma sem_reach_tokens:
  assumes "sem_reach k0 init c" "sys_ok k0" "0 \<le> sint init"
  shows "tokens_ok c"
  using assms(1)
proof (induction rule: sem_reach.induct)
  case start
  then show ?case using assms(2,3) by (simp add: tokens_ok_def sem_new_def pool.handed_def)
next
  case (step c c')
  then show ?case using sem_step_tokens by blast
qed

section \<open>Properties\<close>



text \<open>\<open>release\<close> with waiters does not raise the count: it hands the token to the
  waiter with the lowest thread id, which becomes ready with the success code, and
  leaves the other waiters in the mask.\<close>

theorem sem_release_hands_over:
  assumes "reachable k" "sem_waiters s \<noteq> 0"
    and "threads k (trailing_zeros (sem_waiters s)) = Some t" "ipc_waiting t"
  shows "\<exists>k' s'. sem_release (k, s) = Some (Inr (), k', s') \<and> sem_count s' = sem_count s \<and>
    (\<exists>t'. threads k' (trailing_zeros (sem_waiters s)) = Some t' \<and> t_state t' = Ready \<and> ipc_error t' = IPC_OK) \<and>
    (\<forall>i. bit (sem_waiters s') i \<longleftrightarrow> bit (sem_waiters s) i \<and> i \<noteq> trailing_zeros (sem_waiters s)) \<and>
    cpsr k' = cpsr k"
proof -
  let ?k = "k\<lparr>cpsr := cpsr k OR NOINT\<rparr>" and ?w = "trailing_zeros (sem_waiters s)"
  have ok: "sys_ok ?k" using reachable_ok [OF assms(1)] by simp
  obtain ws where p: "pop_waiter (sem_waiters s) = (?w, ws)" by (simp add: pop_waiter_def Let_def)
  have "threads ?k ?w = Some t" using assms(3) by simp
  from unblock_wakes [OF ok this assms(4)] obtain k1 where k1: "unblock_thread ?w ?k = Some k1"
    "threads k1 = (threads k)(?w := Some (t\<lparr>ipc_error := IPC_OK, is_ipc_wait := False, sleep_until := 0, t_state := Ready\<rparr>))"
    by auto
  have c: "cpsr k1 = cpsr k OR NOINT" using unblock_cpsr [OF k1(1)] by simp
  have "sem_release_locked (?k, s) = Some (Inr (), k1, s\<lparr>sem_waiters := ws\<rparr>)"
    using assms(2) p k1(1) by (simp add: sem_release_locked_def)
  then have "sem_release (k, s) = Some (Inr (), unmask_kernel (cpsr k) k1, s\<lparr>sem_waiters := ws\<rparr>)"
    by (simp add: sem_release_eq)
  then show ?thesis using k1(2) c pop_waiter_props(3) [OF p assms(2)] by (simp add: unmask_kernel_def)
qed

theorem sem_release_hands_over_witness:
  "\<exists>k' s'. sem_release (waits_0, \<lparr>sem_count = 0, sem_waiters = 1\<rparr>) = Some (Inr (), k', s') \<and>
     sem_count s' = 0 \<and> \<not> bit (sem_waiters s') 0"
proof -
  obtain t where "threads waits_0 0 = Some t" "ipc_waiting t" using waits_0_thread by blast
  moreover have "trailing_zeros 1 = 0" by code_simp
  ultimately show ?thesis
    using sem_release_hands_over [OF waits_0_reachable, of "\<lparr>sem_count = 0, sem_waiters = 1\<rparr>" t] by auto
qed

text \<open>A token can be lost: when the waiter with the lowest id has already timed out (a
  tick made it ready, but it has not run yet, so its bit is still in the mask),
  \<open>release\<close> succeeds, and changes neither the count nor any thread.\<close>

theorem sem_release_loses_token:
  assumes "sem_waiters s \<noteq> 0" "threads k (trailing_zeros (sem_waiters s)) = Some t" "\<not> ipc_waiting t"
  shows "\<exists>k' s'. sem_release (k, s) = Some (Inr (), k', s') \<and> sem_count s' = sem_count s \<and> threads k' = threads k"
proof -
  let ?k = "k\<lparr>cpsr := cpsr k OR NOINT\<rparr>" and ?w = "trailing_zeros (sem_waiters s)"
  obtain ws where p: "pop_waiter (sem_waiters s) = (?w, ws)" by (simp add: pop_waiter_def Let_def)
  have "unblock_thread ?w ?k = Some ?k"
    using unblock_idle [OF pop_waiter_props(1) [OF p assms(1)], of ?k] assms(2,3) by simp
  then have "sem_release_locked (?k, s) = Some (Inr (), ?k, s\<lparr>sem_waiters := ws\<rparr>)"
    using assms(1) p by (simp add: sem_release_locked_def)
  then have "sem_release (k, s) = Some (Inr (), unmask_kernel (cpsr k) ?k, s\<lparr>sem_waiters := ws\<rparr>)"
    by (simp add: sem_release_eq)
  then show ?thesis by (simp add: unmask_kernel_def)
qed

theorem sem_release_loses_token_witness:
  "\<exists>k' s'. reachable late_0 \<and> sem_release (late_0, \<lparr>sem_count = 0, sem_waiters = 1\<rparr>) = Some (Inr (), k', s') \<and>
     sem_count s' = 0 \<and> threads k' = threads late_0"
proof -
  obtain t where "threads late_0 0 = Some t" "\<not> ipc_waiting t" using late_0_thread by blast
  moreover have "trailing_zeros 1 = 0" by code_simp
  ultimately show ?thesis
    using sem_release_loses_token [of "\<lparr>sem_count = 0, sem_waiters = 1\<rparr>" late_0 t] late_0_reachable by auto
qed

text \<open>\<open>take\<close> that has to block while no other thread is ready returns at once with a
  timeout, and with interrupts left masked: only the value read the second time, when
  they are masked already, is written back.\<close>

theorem sem_take_leaves_irqs_masked:
  assumes "reachable k" "threads k (current_id k) = Some t" "sint (sem_count s) \<le> 0"
    and "\<forall>j u. threads k j = Some u \<and> j \<noteq> current_id k \<longrightarrow> t_state u \<noteq> Ready"
  shows "\<exists>k' s'. sem_take run tmo (k, s) = Some (Inl SemTimeout, k', s') \<and> \<not> interrupts_enabled (cpsr k')"
proof -
  let ?k = "k\<lparr>cpsr := cpsr k OR NOINT\<rparr>"
  have ok: "sys_ok ?k" using reachable_ok [OF assms(1)] by simp
  obtain k1 where k1: "block_current tmo ?k = Some (False, k1)" "cpsr k1 = cpsr k OR NOINT"
    "current_id k1 = current_id k" "threads k1 (current_id k) \<noteq> None" "\<not> ipc_ok k1 (current_id k)"
    using block_current_alone [OF ok, of t tmo] assms(2,4) by auto
  let ?s = "s\<lparr>sem_waiters := sem_waiters s OR bitm (current_id k)\<rparr>" and ?k1 = "k1\<lparr>cpsr := cpsr k1 OR NOINT\<rparr>"
  have "\<not> 0 <s sem_count s" using assms(3) by (simp add: word_sless_alt)
  then have e: "sem_take_enter tmo (k, s) = Some (Inr False, k1, ?s)"
    using k1(1) by (simp add: sem_take_enter_def mask_kernel_def)
  have lt: "current_id k < 32" using slot_thread [OF sys_okD(1) [OF reachable_ok [OF assms(1)]] assms(2)] by simp
  obtain e1 where e1: "current_ipc_error ?k1 = Some e1" using lt k1(3) by (simp add: current_ipc_error_def)
  then have "e1 \<noteq> IPC_OK" using current_ipc_error_ok [OF e1] k1(3,5) by simp
  then have "sem_take_resume (current_id k) (k1, ?s) = Some (Inl SemTimeout, unmask_kernel (cpsr k1) ?k1,
      ?s\<lparr>sem_waiters := sem_waiters ?s AND NOT (bitm (current_id k))\<rparr>)"
    using e1 by (simp add: sem_take_resume_def mask_kernel_def)
  moreover have "\<not> interrupts_enabled (cpsr (unmask_kernel (cpsr k1) ?k1))"
    using interrupts_masked [of "cpsr k"] k1(2) by (simp add: unmask_kernel_def)
  ultimately show ?thesis using e by (simp add: sem_take_def resume_with_def)
qed

text \<open>A lone thread of priority 0, running with interrupts enabled.\<close>

definition lone :: kernel where
  "lone = (case sched_start (spawn 0 (sched_init blank_kernel)) of Some k \<Rightarrow> k | None \<Rightarrow> three)"

lemma lone_reachable: "reachable lone"
  using reachable.step [OF spawn_reachable [OF reachable.init] kstep.start] three_reachable
  by (auto simp: lone_def split: option.splits)

theorem sem_take_leaves_irqs_masked_witness:
  "interrupts_enabled (cpsr lone) \<and>
   (\<exists>k' s'. sem_take Some None (lone, sem_new 0) = Some (Inl SemTimeout, k', s') \<and> \<not> interrupts_enabled (cpsr k'))"
proof -
  have e: "list_all (\<lambda>i. i \<noteq> 0 \<longrightarrow> threads lone i = None) [0..<32]" "current_id lone = 0"
    "threads lone 0 \<noteq> None" "interrupts_enabled (cpsr lone)" by code_simp+
  from e(3) obtain t where t: "threads lone (current_id lone) = Some t" using e(2) by auto
  have "threads lone j \<noteq> Some u" if "j \<noteq> 0" for j u
  proof
    assume u: "threads lone j = Some u"
    then have "j \<in> set [0..<32]" using slot_thread [OF sys_okD(1) [OF reachable_ok [OF lone_reachable]]] by simp
    then show False using e(1) that u unfolding list_all_iff by auto
  qed
  then show ?thesis
    using sem_take_leaves_irqs_masked [OF lone_reachable t, of "sem_new 0" Some None] e(2,4) by (auto simp: sem_new_def)
qed

end
