(* ===== verification/Mutex.thy ===== *)
theory Mutex
  imports Semaphore
begin

text \<open>
  \<open>ipc/mutex.rs\<close>: the recursive mutex with ownership hand-over.  Mutual exclusion is
  proved over every interleaving of all threads' calls with the rest of the system,
  timeouts included.
\<close>

datatype mutex_error = MutexTimeout | NotOwner | AlreadyLocked

definition NO_OWNER :: nat where "NO_OWNER = 0xFF"

record mutex =
  mx_locked :: bool
  mx_owner :: nat
  mx_nest :: u32
  mx_waiters :: u32

type_synonym mutex_state = "kernel \<times> mutex"

definition mutex_new :: mutex where
  "mutex_new = \<lparr>mx_locked = False, mx_owner = NO_OWNER, mx_nest = 0, mx_waiters = 0\<rparr>"

definition mutex_try_lock :: "mutex_state \<Rightarrow> bool \<times> mutex_state" where
  "mutex_try_lock = (\<lambda>(k, m).
     let (c, k) = mask_kernel k;
         i = current_id k;
         (ok, m) = (if \<not> mx_locked m then (True, m\<lparr>mx_locked := True, mx_owner := i, mx_nest := 1\<rparr>)
           else if mx_owner m = i then (True, m\<lparr>mx_nest := mx_nest m + 1\<rparr>)
           else (False, m))
     in (ok, unmask_kernel c k, m))"

definition mutex_lock_enter ::
  "u32 option \<Rightarrow> mutex_state \<Rightarrow> (((mutex_error + unit) + bool) \<times> mutex_state) option" where
  "mutex_lock_enter tmo = (\<lambda>(k, m).
     let (c, k) = mask_kernel k; i = current_id k in
     if \<not> mx_locked m then
       Some (Inl (Inr ()), unmask_kernel c k, m\<lparr>mx_locked := True, mx_owner := i, mx_nest := 1\<rparr>)
     else if mx_owner m = i then
       Some (Inl (Inr ()), unmask_kernel c k, m\<lparr>mx_nest := mx_nest m + 1\<rparr>)
     else do {
       let m = m\<lparr>mx_waiters := mx_waiters m OR bitm i\<rparr>;
       (sw, k) \<leftarrow> block_current tmo k;
       Some (Inr sw, k, m)
     })"

definition mutex_lock_resume :: "nat \<Rightarrow> mutex_state \<Rightarrow> ((mutex_error + unit) \<times> mutex_state) option" where
  "mutex_lock_resume i = (\<lambda>(k, m). do {
     let (c2, k) = mask_kernel k;
     err \<leftarrow> current_ipc_error k;
     if err \<noteq> IPC_OK
     then Some (Inl MutexTimeout, unmask_kernel c2 k, m\<lparr>mx_waiters := mx_waiters m AND NOT (bitm i)\<rparr>)
     else Some (Inr (), unmask_kernel c2 k, m)
   })"

definition mutex_lock ::
  "(mutex_state \<Rightarrow> mutex_state option) \<Rightarrow> u32 option \<Rightarrow> mutex_state \<Rightarrow> ((mutex_error + unit) \<times> mutex_state) option" where
  "mutex_lock run tmo km = do {
     (r, km') \<leftarrow> mutex_lock_enter tmo km;
     case r of Inl res \<Rightarrow> Some (res, km')
     | Inr sw \<Rightarrow> do {
         km' \<leftarrow> resume_with run sw km';
         mutex_lock_resume (current_id (fst km)) km'
       }
   }"

definition mutex_unlock :: "mutex_state \<Rightarrow> ((mutex_error + unit) \<times> mutex_state) option" where
  "mutex_unlock = (\<lambda>(k, m).
     let (c, k) = mask_kernel k; i = current_id k in
     if mx_owner m \<noteq> i then Some (Inl NotOwner, unmask_kernel c k, m)
     else let m = m\<lparr>mx_nest := mx_nest m - 1\<rparr> in
       if mx_nest m > 0 then Some (Inr (), unmask_kernel c k, m)
       else if mx_waiters m \<noteq> 0 then do {
         let (w, ws) = pop_waiter (mx_waiters m);
         let m = m\<lparr>mx_waiters := ws, mx_owner := w, mx_nest := 1\<rparr>;
         k \<leftarrow> unblock_thread w k;
         Some (Inr (), unmask_kernel c k, m)
       } else Some (Inr (), unmask_kernel c k, m\<lparr>mx_locked := False, mx_owner := NO_OWNER, mx_nest := 0\<rparr>))"

definition mutex_is_locked :: "mutex \<Rightarrow> bool" where "mutex_is_locked m = mx_locked m"
definition mutex_owner :: "mutex \<Rightarrow> nat option" where
  "mutex_owner m = (if mx_owner m = NO_OWNER then None else Some (mx_owner m))"

section \<open>All interleavings\<close>

text \<open>A configuration: kernel, mutex, the threads blocked inside \<open>lock\<close>, and how often
  each thread holds the mutex, by the results its calls returned.\<close>

type_synonym mutex_conf = "kernel \<times> mutex \<times> nat set \<times> (nat \<Rightarrow> nat)"

inductive mutex_step :: "mutex_conf \<Rightarrow> mutex_conf \<Rightarrow> bool" where
  lock_now: "current_id k \<notin> W \<Longrightarrow> mx_nest m \<noteq> 0xFFFFFFFF \<Longrightarrow> mutex_lock_enter tmo (k, m) = Some (Inl (Inr ()), k', m') \<Longrightarrow>
    mutex_step (k, m, W, H) (k', m', W, H(current_id k := H (current_id k) + 1))"
| try_lock: "current_id k \<notin> W \<Longrightarrow> mx_nest m \<noteq> 0xFFFFFFFF \<Longrightarrow> mutex_try_lock (k, m) = (ok, k', m') \<Longrightarrow>
    mutex_step (k, m, W, H) (k', m', W, if ok then H(current_id k := H (current_id k) + 1) else H)"
| park: "current_id k \<notin> W \<Longrightarrow> threads k (current_id k) \<noteq> None \<Longrightarrow>
    mutex_lock_enter tmo (k, m) = Some (Inr sw, k', m') \<Longrightarrow>
    mutex_step (k, m, W, H) (k', m', insert (current_id k) W, H)"
| resume: "current_id k \<in> W \<Longrightarrow> mutex_lock_resume (current_id k) (k, m) = Some (r, k', m') \<Longrightarrow>
    mutex_step (k, m, W, H)
      (k', m', W - {current_id k}, if isl r then H else H(current_id k := H (current_id k) + 1))"
| unlock: "current_id k \<notin> W \<Longrightarrow> mutex_unlock (k, m) = Some (r, k', m') \<Longrightarrow>
    mutex_step (k, m, W, H) (k', m', W, if isl r then H else H(current_id k := H (current_id k) - 1))"
| env: "sys_ok k' \<Longrightarrow> started k' \<Longrightarrow> quiet W k k' \<Longrightarrow> mutex_step (k, m, W, H) (k', m, W, H)"

inductive_cases mutex_step_cases: "mutex_step c c'"

inductive mutex_reach :: "kernel \<Rightarrow> mutex_conf \<Rightarrow> bool" for k0 where
  start: "mutex_reach k0 (k0, mutex_new, {}, \<lambda>_. 0)"
| step: "mutex_reach k0 c \<Longrightarrow> mutex_step c c' \<Longrightarrow> mutex_reach k0 c'"

text \<open>Only the recorded owner holds the mutex or has been handed it, at most as often as
  the nesting count says; the bits of the mask are those of blocked threads.\<close>

definition mutex_ok :: "mutex_conf \<Rightarrow> bool" where
  "mutex_ok = (\<lambda>(k, m, W, H). sys_ok k \<and> started k \<and>
     (\<forall>i. bit (mx_waiters m) i \<longrightarrow> i \<in> W) \<and> W \<subseteq> {..<32} \<and>
     (if mx_locked m then
        mx_owner m < 32 \<and> mx_nest m \<noteq> 0 \<and> H (mx_owner m) \<le> unat (mx_nest m) \<and>
        (\<forall>i. i \<noteq> mx_owner m \<longrightarrow> H i = 0) \<and> (\<forall>w\<in>W. ipc_ok k w \<longrightarrow> w = mx_owner m) \<and>
        (mx_owner m \<in> W \<longrightarrow> mx_nest m = 1 \<and> H (mx_owner m) = 0) \<and> \<not> bit (mx_waiters m) (mx_owner m)
      else mx_owner m = NO_OWNER \<and> mx_waiters m = 0 \<and> (\<forall>i. H i = 0) \<and> (\<forall>w\<in>W. \<not> ipc_ok k w)))"

lemma mutex_ok_cpsr [simp]:
  "mutex_ok (k\<lparr>cpsr := c\<rparr>, m, W, H) = mutex_ok (k, m, W, H)"
  "mutex_ok (unmask_kernel c k, m, W, H) = mutex_ok (k, m, W, H)"
  by (simp_all add: mutex_ok_def unmask_kernel_def)

lemma mutex_okD:
  assumes "mutex_ok (k, m, W, H)"
  shows "sys_ok k" "started k" "bit (mx_waiters m) i \<Longrightarrow> i \<in> W" "W \<subseteq> {..<32}" "current_id k < 32"
proof -
  show "sys_ok k" "started k" "bit (mx_waiters m) i \<Longrightarrow> i \<in> W" "W \<subseteq> {..<32}"
    using assms by (auto simp: mutex_ok_def)
  then show "current_id k < 32" by (simp add: sys_ok_def kernel_ok_def current_ok_def)
qed

lemma mutex_ok_lockedI:
  assumes "sys_ok k" "started k" "\<And>i. bit (mx_waiters m) i \<Longrightarrow> i \<in> W" "W \<subseteq> {..<32}"
    and "mx_locked m" "mx_owner m < 32" "mx_nest m \<noteq> 0" "H (mx_owner m) \<le> unat (mx_nest m)"
    and "\<And>i. i \<noteq> mx_owner m \<Longrightarrow> H i = 0" "\<And>w. w \<in> W \<Longrightarrow> ipc_ok k w \<Longrightarrow> w = mx_owner m"
    and "mx_owner m \<in> W \<Longrightarrow> mx_nest m = 1 \<and> H (mx_owner m) = 0" "\<not> bit (mx_waiters m) (mx_owner m)"
  shows "mutex_ok (k, m, W, H)"
  unfolding mutex_ok_def split_conv using assms by (simp only: if_True) blast

lemma mutex_ok_lockedD:
  assumes "mutex_ok (k, m, W, H)" "mx_locked m"
  shows "\<And>i. bit (mx_waiters m) i \<Longrightarrow> i \<in> W" "W \<subseteq> {..<32}" "mx_owner m < 32" "mx_nest m \<noteq> 0"
    "H (mx_owner m) \<le> unat (mx_nest m)" "\<And>i. i \<noteq> mx_owner m \<Longrightarrow> H i = 0"
    "\<And>w. w \<in> W \<Longrightarrow> ipc_ok k w \<Longrightarrow> w = mx_owner m"
    "mx_owner m \<in> W \<Longrightarrow> mx_nest m = 1 \<and> H (mx_owner m) = 0" "\<not> bit (mx_waiters m) (mx_owner m)"
  using assms by (simp_all add: mutex_ok_def)

lemma acquire_ok:
  assumes "mutex_ok (k, m, W, H)" "current_id k \<notin> W" "\<not> mx_locked m"
  shows "mutex_ok (k, m\<lparr>mx_locked := True, mx_owner := current_id k, mx_nest := 1\<rparr>, W, H(current_id k := H (current_id k) + 1))"
  using assms mutex_okD(5) [OF assms(1)] by (simp add: mutex_ok_def)

lemma u32_succ: "w \<noteq> 0xFFFFFFFF \<Longrightarrow> unat (w + 1 :: u32) = unat w + 1"
proof -
  assume "w \<noteq> 0xFFFFFFFF"
  then have "unat w \<noteq> unat (0xFFFFFFFF :: u32)" by (metis word_unat_eq_iff)
  then have "unat w + unat (1 :: u32) < 2 ^ 32" using unat_u32 [of w] by simp
  from unat_plus_u32 [OF this] show ?thesis by simp
qed

lemma nest_ok:
  assumes "mutex_ok (k, m, W, H)" "current_id k \<notin> W" "mx_locked m" "mx_owner m = current_id k" "mx_nest m \<noteq> 0xFFFFFFFF"
  shows "mutex_ok (k, m\<lparr>mx_nest := mx_nest m + 1\<rparr>, W, H(current_id k := H (current_id k) + 1))"
proof -
  have "mx_nest m + 1 \<noteq> 0" using u32_succ [OF assms(5)] by auto
  then show ?thesis using assms u32_succ [OF assms(5)] by (auto simp: mutex_ok_def)
qed

lemma lock_now_ok:
  assumes "mutex_ok (k, m, W, H)" "current_id k \<notin> W" "mx_nest m \<noteq> 0xFFFFFFFF"
    and "mutex_lock_enter tmo (k, m) = Some (Inl r, k', m')"
  shows "mutex_ok (k', m', W, H(current_id k := H (current_id k) + 1))"
proof -
  have "k' = unmask_kernel (cpsr k) (k\<lparr>cpsr := cpsr k OR NOINT\<rparr>)"
    "(\<not> mx_locked m \<and> m' = m\<lparr>mx_locked := True, mx_owner := current_id k, mx_nest := 1\<rparr>) \<or>
     (mx_locked m \<and> mx_owner m = current_id k \<and> m' = m\<lparr>mx_nest := mx_nest m + 1\<rparr>)"
    using assms(4) by (auto simp: mutex_lock_enter_def mask_kernel_def Let_def split: if_splits bind_splits)
  then show ?thesis using acquire_ok [OF assms(1,2)] nest_ok [OF assms(1,2) _ _ assms(3)] by auto
qed

lemma park_ok:
  assumes "mutex_ok (k, m, W, H)" "current_id k \<notin> W" "threads k (current_id k) \<noteq> None"
    and "mutex_lock_enter tmo (k, m) = Some (Inr sw, k', m')"
  shows "mutex_ok (k', m', insert (current_id k) W, H)"
proof -
  let ?k = "k\<lparr>cpsr := cpsr k OR NOINT\<rparr>"
  note M = mutex_okD [OF assms(1)]
  have b: "block_current tmo ?k = Some (sw, k')" "mx_locked m" "mx_owner m \<noteq> current_id k"
    "m' = m\<lparr>mx_waiters := mx_waiters m OR bitm (current_id k)\<rparr>"
    using assms(4) by (auto simp: mutex_lock_enter_def mask_kernel_def Let_def split: if_splits bind_splits)
  have ok: "sys_ok ?k" using M(1) by simp
  have "threads ?k (current_id ?k) \<noteq> None" using assms(3) by simp
  from pool.park_clears [OF ok b(1) this] have nok: "\<not> ipc_ok k' (current_id k)" by simp
  have codes: "ipc_ok k w \<and> w \<noteq> current_id k" if "ipc_ok k' w" for w
    using pool.park_codes [OF ok b(1) that] nok that by auto
  have bits: "bit (mx_waiters m') i \<longleftrightarrow> bit (mx_waiters m) i \<or> i = current_id k" for i
    using b(4) M(5) by (simp add: bit_add_waiter)
  have F: "mx_owner m < 32" "mx_nest m \<noteq> 0" "H (mx_owner m) \<le> unat (mx_nest m)"
    "\<forall>i. i \<noteq> mx_owner m \<longrightarrow> H i = 0" "\<forall>w\<in>W. ipc_ok k w \<longrightarrow> w = mx_owner m"
    "mx_owner m \<in> W \<longrightarrow> mx_nest m = 1 \<and> H (mx_owner m) = 0" "\<not> bit (mx_waiters m) (mx_owner m)"
    using assms(1) b(2) by (simp_all add: mutex_ok_def)
  have m': "mx_locked m'" "mx_owner m' = mx_owner m" "mx_nest m' = mx_nest m" using b by simp_all
  show ?thesis
  proof (rule mutex_ok_lockedI, unfold m')
    show "sys_ok k'" "started k'"
      using pool.park_ok [OF ok b(1)] block_current_started [OF ok b(1)] M(2) by simp_all
    show "bit (mx_waiters m') i \<Longrightarrow> i \<in> insert (current_id k) W" for i using bits M(3) by blast
    show "\<not> bit (mx_waiters m') (mx_owner m)" using bits F(7) b(3) by simp
    show "w = mx_owner m" if "w \<in> insert (current_id k) W" "ipc_ok k' w" for w
      using codes [OF that(2)] F(5) that(1) by blast
  qed (use F b(3) M(4,5) m' in simp_all)
qed

lemma lock_resume_cases:
  assumes "mutex_lock_resume i (k, m) = Some (r, k', m')"
  obtains "isl r" "\<not> ipc_ok k (current_id k)" "m' = m\<lparr>mx_waiters := mx_waiters m AND NOT (bitm i)\<rparr>"
    "k' = unmask_kernel (cpsr k) (k\<lparr>cpsr := cpsr k OR NOINT\<rparr>)"
  | "\<not> isl r" "ipc_ok k (current_id k)" "m' = m" "k' = unmask_kernel (cpsr k) (k\<lparr>cpsr := cpsr k OR NOINT\<rparr>)"
proof -
  let ?k = "k\<lparr>cpsr := cpsr k OR NOINT\<rparr>"
  obtain e where e: "current_ipc_error ?k = Some e"
    and r: "(if e \<noteq> IPC_OK then (Inl MutexTimeout, unmask_kernel (cpsr k) ?k, m\<lparr>mx_waiters := mx_waiters m AND NOT (bitm i)\<rparr>)
      else (Inr (), unmask_kernel (cpsr k) ?k, m)) = (r, k', m')"
    using assms by (auto simp: mutex_lock_resume_def mask_kernel_def split: bind_splits if_splits)
  from current_ipc_error_ok [OF e] that r show ?thesis by (auto split: if_splits)
qed

lemma resume_ok:
  assumes "mutex_ok (k, m, W, H)" "current_id k \<in> W" "mutex_lock_resume (current_id k) (k, m) = Some (r, k', m')"
  shows "mutex_ok (k', m', W - {current_id k}, if isl r then H else H(current_id k := H (current_id k) + 1))"
  using assms(3)
proof (cases rule: lock_resume_cases)
  case 1
  have "bit (mx_waiters m') i \<longleftrightarrow> bit (mx_waiters m) i \<and> i \<noteq> current_id k" for i
    using 1(3) mutex_okD(5) [OF assms(1)] by (simp add: bit_del_waiter)
  moreover have "mx_waiters m' = 0" if "mx_waiters m = 0" using that 1(3) by simp
  moreover have "mx_locked m' = mx_locked m" "mx_owner m' = mx_owner m" "mx_nest m' = mx_nest m"
    using 1(3) by simp_all
  ultimately have "mutex_ok (k, m', W - {current_id k}, H)"
    using assms(1,2) 1(2) by (auto simp: mutex_ok_def)
  then show ?thesis using 1(1,4) by simp
next
  case 2
  have "mx_locked m" "mx_owner m = current_id k" using assms(1,2) 2(2) by (auto simp: mutex_ok_def split: if_splits)
  then have "mutex_ok (k, m, W - {current_id k}, H(current_id k := H (current_id k) + 1))"
    using assms(1,2) by (auto simp: mutex_ok_def)
  then show ?thesis using 2 by simp
qed

lemma unlock_ok:
  assumes "mutex_ok (k, m, W, H)" "current_id k \<notin> W" "mutex_unlock (k, m) = Some (r, k', m')"
  shows "mutex_ok (k', m', W, if isl r then H else H(current_id k := H (current_id k) - 1))"
proof (cases "mx_owner m = current_id k")
  case False
  then have "isl r" "m' = m" "k' = unmask_kernel (cpsr k) (k\<lparr>cpsr := cpsr k OR NOINT\<rparr>)"
    using assms(3) by (auto simp: mutex_unlock_def mask_kernel_def Let_def)
  then show ?thesis using assms(1) by simp
next
  case True
  note M = mutex_okD [OF assms(1)]
  let ?k = "k\<lparr>cpsr := cpsr k OR NOINT\<rparr>" and ?H = "H(current_id k := H (current_id k) - 1)"
  have l: "mx_locked m" using assms(1) True M(5) by (auto simp: mutex_ok_def NO_OWNER_def split: if_splits)
  have F: "mx_nest m \<noteq> 0" "H (current_id k) \<le> unat (mx_nest m)" "\<forall>i. i \<noteq> current_id k \<longrightarrow> H i = 0"
    "\<forall>w\<in>W. ipc_ok k w \<longrightarrow> w = current_id k" "\<not> bit (mx_waiters m) (current_id k)"
    using assms(1) l True by (simp_all add: mutex_ok_def)
  have n: "unat (mx_nest m - 1) = unat (mx_nest m) - 1"
    using F(1) by (subst unat_minus_u32) (simp_all add: word_le_nat_alt unat_gt_0 Suc_leI)
  consider (nested) "mx_nest m - 1 > 0" "r = Inr ()" "m' = m\<lparr>mx_nest := mx_nest m - 1\<rparr>" "k' = unmask_kernel (cpsr k) ?k"
    | (hand) w ws k1 where "\<not> mx_nest m - 1 > 0" "mx_waiters m \<noteq> 0" "pop_waiter (mx_waiters m) = (w, ws)" "r = Inr ()"
        "unblock_thread w ?k = Some k1" "k' = unmask_kernel (cpsr k) k1"
        "m' = m\<lparr>mx_nest := 1, mx_waiters := ws, mx_owner := w\<rparr>"
    | (free) "\<not> mx_nest m - 1 > 0" "mx_waiters m = 0" "r = Inr ()" "k' = unmask_kernel (cpsr k) ?k"
        "m' = m\<lparr>mx_nest := 0, mx_locked := False, mx_owner := NO_OWNER\<rparr>"
    using assms(3) True by (auto simp: mutex_unlock_def mask_kernel_def Let_def split: if_splits prod.splits bind_splits)
  then show ?thesis
  proof cases
    case nested
    have "mutex_ok (k, m', W, ?H)"
      using assms(1,2) l True F n nested(1,3) by (auto simp: mutex_ok_def word_less_nat_alt)
    then show ?thesis using nested by simp
  next
    case hand
    have h: "H (current_id k) \<le> 1" using F(2) n hand(1) by (simp add: word_less_nat_alt)
    note P = pop_waiter_props [OF hand(3,2)]
    have ok: "sys_ok ?k" using M(1) by simp
    have "\<forall>v\<in>W. ipc_ok k1 v \<longrightarrow> v = w"
      using pool.wake_codes [OF ok hand(5)] F(4) assms(2) by auto
    moreover have "\<forall>i. bit ws i \<longrightarrow> i \<in> W" "\<not> bit ws w" using P(3) M(3) by blast+
    moreover have "\<forall>i. ?H i = 0" using h F(3) by auto
    moreover have "sys_ok k1" "started k1"
      using pool.wake_ok [OF ok hand(5)] unblock_started [OF hand(5)] M(2) by simp_all
    ultimately have "mutex_ok (k1, m', W, ?H)" using l hand(7) P(1) M(4) by (simp add: mutex_ok_def)
    then show ?thesis using hand(4,6) by simp
  next
    case free
    have h: "H (current_id k) \<le> 1" using F(2) n free(1) by (simp add: word_less_nat_alt)
    have "\<forall>v\<in>W. \<not> ipc_ok k v" using F(4) assms(2) by auto
    moreover have "\<forall>i. ?H i = 0" using h F(3) by auto
    ultimately have "mutex_ok (k, m', W, ?H)" using free(2,5) M by (simp add: mutex_ok_def)
    then show ?thesis using free by simp
  qed
qed

lemma mutex_step_ok:
  assumes "mutex_step c c'" "mutex_ok c"
  shows "mutex_ok c'"
  using assms
proof (induction rule: mutex_step.induct)
  case (lock_now k W m tmo k' m' H)
  then show ?case using lock_now_ok by blast
next
  case (try_lock k W m ok k' m' H)
  have "k' = unmask_kernel (cpsr k) (k\<lparr>cpsr := cpsr k OR NOINT\<rparr>)"
    "(ok \<and> \<not> mx_locked m \<and> m' = m\<lparr>mx_locked := True, mx_owner := current_id k, mx_nest := 1\<rparr>) \<or>
     (ok \<and> mx_locked m \<and> mx_owner m = current_id k \<and> m' = m\<lparr>mx_nest := mx_nest m + 1\<rparr>) \<or>
     (\<not> ok \<and> m' = m)"
    using try_lock(3) by (auto simp: mutex_try_lock_def mask_kernel_def Let_def split: if_splits)
  then show ?case
    using acquire_ok [OF try_lock(4,1)] nest_ok [OF try_lock(4,1) _ _ try_lock(2)] try_lock(4) by auto
next
  case (park k W tmo m sw k' m' H)
  then show ?case using park_ok by blast
next
  case (resume k W m r k' m' H)
  then show ?case using resume_ok by blast
next
  case (unlock k W m r k' m' H)
  then show ?case using unlock_ok by blast
next
  case (env k' W k m H)
  have q: "ipc_ok k w" if "w \<in> W" "ipc_ok k' w" for w using env(3) that by (simp add: quiet_def)
  show ?case
  proof (cases "mx_locked m")
    case True
    note L = mutex_ok_lockedD [OF env(4) True]
    show ?thesis by (rule mutex_ok_lockedI) (use True L env(1,2) q in blast)+
  next
    case False
    then have "\<forall>w\<in>W. \<not> ipc_ok k' w" using env(4) q by (auto simp: mutex_ok_def)
    then show ?thesis using env(1,2,4) False by (simp add: mutex_ok_def)
  qed
qed

lemma mutex_reach_ok:
  assumes "mutex_reach k0 c" "sys_ok k0" "started k0"
  shows "mutex_ok c"
  using assms(1)
proof (induction rule: mutex_reach.induct)
  case start
  then show ?case using assms(2,3) by (simp add: mutex_ok_def mutex_new_def)
next
  case (step c c')
  then show ?case using mutex_step_ok by blast
qed

section \<open>Properties\<close>

text \<open>C11. Mutual exclusion: over any interleaving of \<open>lock\<close>, \<open>try_lock\<close>, \<open>unlock\<close>, timeouts
  and whatever else the system does, two different threads never hold the mutex (by what
  their calls returned) at once; the holder is the recorded owner, and holds it at most
  as often as the nesting count says.\<close>

theorem mutex_mutual_exclusion:
  assumes "mutex_reach k0 (k, m, W, H)" "reachable k0" "started k0" "0 < H i"
  shows "mx_locked m \<and> mx_owner m = i \<and> H i \<le> unat (mx_nest m) \<and> (\<forall>j. j \<noteq> i \<longrightarrow> H j = 0)"
proof -
  have ok: "mutex_ok (k, m, W, H)" by (rule mutex_reach_ok [OF assms(1) reachable_ok [OF assms(2)] assms(3)])
  have l: "mx_locked m" using ok assms(4) by (cases "mx_locked m") (simp_all add: mutex_ok_def)
  note L = mutex_ok_lockedD [OF ok l]
  have "mx_owner m = i" using L(6) [of i] assms(4) by (cases "mx_owner m = i") simp_all
  then show ?thesis using l L(5,6) by blast
qed

theorem mutex_mutual_exclusion_witness:
  "\<exists>k m H. mutex_reach three_up (k, m, {}, H) \<and> H 0 = 1 \<and> mx_owner m = 0"
proof -
  have e: "current_id three_up = 0" "started three_up" by code_simp+
  obtain k m where k: "mutex_lock_enter None (three_up, mutex_new) = Some (Inl (Inr ()), k, m)"
    by (simp add: mutex_lock_enter_def mutex_new_def mask_kernel_def)
  have "mutex_step (three_up, mutex_new, {}, \<lambda>_. 0)
      (k, m, {}, (\<lambda>_. 0)(current_id three_up := (\<lambda>_. 0) (current_id three_up) + 1))"
    by (rule mutex_step.lock_now [OF _ _ k]) (simp_all add: mutex_new_def)
  then have r: "mutex_reach three_up (k, m, {}, (\<lambda>_. 0)(0 := 1))"
    using mutex_reach.step [OF mutex_reach.start] e(1) by simp
  from mutex_mutual_exclusion [OF r three_up_reachable e(2), of 0] have "mx_owner m = 0" by simp
  with r show ?thesis by (intro exI conjI) (assumption, simp_all)
qed

text \<open>\<open>unlock\<close> can give the mutex to a thread that does not take it: if the waiter with
  the lowest id has timed out but not run yet, it is made the owner, its \<open>lock\<close> then
  returns \<open>Timeout\<close>, and the mutex stays locked in its name.\<close>

theorem mutex_handed_to_timed_out:
  assumes "mx_locked m" "mx_owner m = current_id k" "mx_nest m = 1" "mx_waiters m \<noteq> 0"
    and "w = trailing_zeros (mx_waiters m)" "threads k w = Some t" "\<not> ipc_waiting t" "ipc_error t \<noteq> IPC_OK"
  shows "\<exists>k' m'. mutex_unlock (k, m) = Some (Inr (), k', m') \<and> mx_owner m' = w \<and> threads k' = threads k \<and>
    (\<forall>k2. current_id k2 = w \<and> threads k2 w = Some t \<longrightarrow>
       (\<exists>k3 m3. mutex_lock_resume w (k2, m') = Some (Inl MutexTimeout, k3, m3) \<and> mx_locked m3 \<and> mx_owner m3 = w))"
proof -
  let ?k = "k\<lparr>cpsr := cpsr k OR NOINT\<rparr>"
  obtain ws where p: "pop_waiter (mx_waiters m) = (w, ws)" by (simp add: pop_waiter_def Let_def assms(5))
  have w: "w < 32" using pop_waiter_props(1) [OF p assms(4)] .
  have "unblock_thread w ?k = Some ?k" using unblock_idle [OF w, of ?k] assms(6,7) by simp
  then have u: "mutex_unlock (k, m) = Some (Inr (), unmask_kernel (cpsr k) ?k,
      m\<lparr>mx_nest := 1, mx_waiters := ws, mx_owner := w\<rparr>)"
    using assms(2-4) p by (simp add: mutex_unlock_def mask_kernel_def Let_def)
  have "\<exists>k3 m3. mutex_lock_resume w (k2, m\<lparr>mx_nest := 1, mx_waiters := ws, mx_owner := w\<rparr>) =
      Some (Inl MutexTimeout, k3, m3) \<and> mx_locked m3 \<and> mx_owner m3 = w"
    if "current_id k2 = w" "threads k2 w = Some t" for k2
    using that w assms(1,8) by (simp add: mutex_lock_resume_def mask_kernel_def current_ipc_error_def)
  with u show ?thesis by (intro exI conjI) (assumption, simp_all add: unmask_kernel_def)
qed

theorem mutex_handed_to_timed_out_witness:
  "\<exists>k' m'. mutex_unlock (late_0, \<lparr>mx_locked = True, mx_owner = 1, mx_nest = 1, mx_waiters = 1\<rparr>) = Some (Inr (), k', m') \<and>
     mx_owner m' = 0"
proof -
  obtain t where t: "threads late_0 0 = Some t" "ipc_error t = IPC_TIMEOUT" "\<not> ipc_waiting t" using late_0_thread by blast
  have z: "0 = trailing_zeros 1" by code_simp
  show ?thesis
    using mutex_handed_to_timed_out [of "\<lparr>mx_locked = True, mx_owner = 1, mx_nest = 1, mx_waiters = 1\<rparr>" late_0 0 t]
      t z late_0_current by (auto simp: ipc_codes)
qed

text \<open>Before the scheduler starts, the id of the current thread is the value that stands for
  no owner, so a mutex that nobody holds can be unlocked, and its nesting count wraps.\<close>

lemma mutex_unlock_unstarted:
  assumes "current_id k = NULL_ID"
  shows "\<exists>k'. mutex_unlock (k, mutex_new) = Some (Inr (), k', mutex_new\<lparr>mx_nest := 0xFFFFFFFF\<rparr>)"
  using assms by (simp add: mutex_unlock_def mask_kernel_def mutex_new_def NO_OWNER_def NULL_ID_def Let_def word_gt_0)

end
