(* ===== verification/Event.thy ===== *)
theory Event
  imports Mutex
begin

text \<open>
  \<open>ipc/event.rs\<close>: event flags with OR and AND waits.  The loop of \<open>check_waiters\<close> clears
  the lowest bit of a mask in each round; that it ends is proved from the value of the
  mask.
\<close>

datatype event_mode = OrMode | AndMode
datatype event_error = EventTimeout

record waiter =
  w_flags :: u32
  w_mode :: event_mode
  w_clear :: bool

record event_flags =
  ev_flags :: u32
  ev_waiters :: u32
  wait_params :: "nat \<Rightarrow> waiter option"

type_synonym event_state = "kernel \<times> event_flags"

definition event_new :: event_flags where
  "event_new = \<lparr>ev_flags = 0, ev_waiters = 0, wait_params = (\<lambda>_. None)\<rparr>"

definition condition_met :: "event_flags \<Rightarrow> u32 \<Rightarrow> event_mode \<Rightarrow> bool" where
  "condition_met e flags mode = (case mode of
      OrMode \<Rightarrow> ev_flags e AND flags \<noteq> 0
    | AndMode \<Rightarrow> ev_flags e AND flags = flags)"

text \<open>One round of the loop, for the thread \<open>i\<close>.\<close>

definition check_waiter :: "nat \<Rightarrow> event_state \<Rightarrow> event_state option" where
  "check_waiter i = (\<lambda>(k, e). case wait_params e i of
      None \<Rightarrow> Some (k, e)
    | Some w \<Rightarrow>
        if condition_met e (w_flags w) (w_mode w) then do {
          let e = (if w_clear w then e\<lparr>ev_flags := ev_flags e AND NOT (w_flags w)\<rparr> else e);
          let e = e\<lparr>ev_waiters := ev_waiters e AND NOT (bitm i)\<rparr>;
          k \<leftarrow> unblock_thread i k;
          Some (k, e)
        } else Some (k, e))"

lemma and_minus_one_less:
  assumes "m \<noteq> (0 :: u32)"
  shows "m AND (m - 1) < m"
proof -
  have "unat (m - 1) < unat m" using assms by (subst unat_minus_u32) (simp_all add: word_le_nat_alt unat_gt_0 Suc_leI)
  moreover have "unat (m AND (m - 1)) \<le> unat (m - 1)"
    by (metis word_and_le1 word_le_nat_alt)
  ultimately show ?thesis by (simp add: word_less_nat_alt)
qed

function check_loop :: "u32 \<Rightarrow> event_state \<Rightarrow> event_state option" where
  "check_loop m ke =
     (if m \<noteq> 0 then do {
        let i = trailing_zeros m;
        ke \<leftarrow> check_waiter i ke;
        check_loop (m AND (m - 1)) ke
      } else Some ke)"
  by pat_completeness auto

termination
  by (relation "measure (\<lambda>(m, _). unat m)") (auto simp: word_less_nat_alt [symmetric] and_minus_one_less)

declare check_loop.simps [simp del]

definition check_waiters :: "event_state \<Rightarrow> event_state option" where
  "check_waiters = (\<lambda>(k, e). check_loop (ev_waiters e) (k, e))"

definition event_set :: "u32 \<Rightarrow> event_state \<Rightarrow> event_state option" where
  "event_set flags = (\<lambda>(k, e). do {
     let (c, k) = mask_kernel k;
     (k, e) \<leftarrow> check_waiters (k, e\<lparr>ev_flags := ev_flags e OR flags\<rparr>);
     Some (unmask_kernel c k, e)
   })"

definition event_clear :: "u32 \<Rightarrow> event_state \<Rightarrow> event_state" where
  "event_clear flags = (\<lambda>(k, e).
     let (c, k) = mask_kernel k in (unmask_kernel c k, e\<lparr>ev_flags := ev_flags e AND NOT flags\<rparr>))"

definition event_get :: "event_flags \<Rightarrow> u32" where "event_get e = ev_flags e"

definition event_wait_enter ::
  "u32 \<Rightarrow> event_mode \<Rightarrow> bool \<Rightarrow> u32 option \<Rightarrow> event_state \<Rightarrow> (((event_error + u32) + bool) \<times> event_state) option" where
  "event_wait_enter flags mode clear tmo = (\<lambda>(k, e).
     let (c, k) = mask_kernel k in
     if condition_met e flags mode then
       (let satisfied = ev_flags e AND flags;
            e = (if clear then e\<lparr>ev_flags := ev_flags e AND NOT flags\<rparr> else e)
        in Some (Inl (Inr satisfied), unmask_kernel c k, e))
     else do {
       let i = current_id k;
       let e = e\<lparr>ev_waiters := ev_waiters e OR bitm i\<rparr>;
       assert_that (i < MAX_THREADS);
       let e = e\<lparr>wait_params := (wait_params e)(i \<mapsto> \<lparr>w_flags = flags, w_mode = mode, w_clear = clear\<rparr>)\<rparr>;
       (sw, k) \<leftarrow> block_current tmo k;
       Some (Inr sw, k, e)
     })"

definition event_wait_resume ::
  "nat \<Rightarrow> u32 \<Rightarrow> bool \<Rightarrow> event_state \<Rightarrow> ((event_error + u32) \<times> event_state) option" where
  "event_wait_resume i flags clear = (\<lambda>(k, e). do {
     let (c2, k) = mask_kernel k;
     err \<leftarrow> current_ipc_error k;
     if err \<noteq> IPC_OK then
       Some (Inl EventTimeout, unmask_kernel c2 k,
         e\<lparr>ev_waiters := ev_waiters e AND NOT (bitm i), wait_params := (wait_params e)(i := None)\<rparr>)
     else
       (let satisfied = ev_flags e AND flags;
            e = (if clear then e\<lparr>ev_flags := ev_flags e AND NOT flags\<rparr> else e)
        in Some (Inr satisfied, unmask_kernel c2 k, e\<lparr>wait_params := (wait_params e)(i := None)\<rparr>))
   })"

definition event_wait ::
  "(event_state \<Rightarrow> event_state option) \<Rightarrow> u32 \<Rightarrow> event_mode \<Rightarrow> bool \<Rightarrow> u32 option \<Rightarrow> event_state \<Rightarrow>
     ((event_error + u32) \<times> event_state) option" where
  "event_wait run flags mode clear tmo ke = do {
     (r, ke') \<leftarrow> event_wait_enter flags mode clear tmo ke;
     case r of Inl res \<Rightarrow> Some (res, ke')
     | Inr sw \<Rightarrow> do {
         ke' \<leftarrow> resume_with run sw ke';
         event_wait_resume (current_id (fst ke)) flags clear ke'
       }
   }"

section \<open>No wake-up is lost\<close>

text \<open>Conditions are monotone in the flags, and the loop only clears flags, so a condition
  found unmet in one round stays unmet.\<close>

definition flags_below :: "event_flags \<Rightarrow> event_flags \<Rightarrow> bool" where
  "flags_below e' e \<longleftrightarrow> (\<forall>n. bit (ev_flags e') n \<longrightarrow> bit (ev_flags e) n)"

lemma condition_bits:
  "condition_met e f OrMode \<longleftrightarrow> (\<exists>n. bit (ev_flags e) n \<and> bit f n)"
  "condition_met e f AndMode \<longleftrightarrow> (\<forall>n. bit f n \<longrightarrow> bit (ev_flags e) n)"
  by (simp_all add: condition_met_def bit_eq_iff bit_and_iff) (metis bit_u32_len)+

lemma condition_mono: "flags_below e' e \<Longrightarrow> condition_met e' f m \<Longrightarrow> condition_met e f m"
  by (cases m) (auto simp: condition_bits flags_below_def)

lemma flags_below_trans: "flags_below a b \<Longrightarrow> flags_below b c \<Longrightarrow> flags_below a c"
  by (simp add: flags_below_def)

text \<open>What a run of the loop over the mask does.\<close>

definition served :: "u32 \<Rightarrow> event_flags \<Rightarrow> event_flags \<Rightarrow> bool" where
  "served m e e' \<longleftrightarrow> wait_params e' = wait_params e \<and> flags_below e' e \<and>
     (\<forall>i. bit (ev_waiters e') i \<longrightarrow> bit (ev_waiters e) i) \<and>
     (\<forall>i w. bit m i \<longrightarrow> bit (ev_waiters e') i \<longrightarrow> wait_params e i = Some w \<longrightarrow>
        \<not> condition_met e' (w_flags w) (w_mode w)) \<and>
     (\<forall>i. \<not> bit m i \<longrightarrow> bit (ev_waiters e') i = bit (ev_waiters e) i)"

text \<open>\<open>m & (m - 1)\<close> drops exactly the lowest bit.\<close>

lemma odd_part: "(n :: nat) = 2 ^ t * (2 * q + 1) \<Longrightarrow> bit (n - 1) i \<longleftrightarrow> (if i < t then True else bit n i \<and> i \<noteq> t)"
proof -
  assume n: "n = 2 ^ t * (2 * q + 1)"
  have n1: "n - 1 = 2 ^ t * (2 * q) + (2 ^ t - 1)" using n by (simp add: algebra_simps)
  have "(2 ^ t * (2 * q) + r) div 2 ^ t = 2 * q" if "r < 2 ^ t" for r :: nat using that by simp
  from this [of "2 ^ t - 1"] have d: "(n - 1) div 2 ^ t = 2 * q" "n div 2 ^ t = 2 * q + 1"
    unfolding n1 by (simp_all add: n)
  show ?thesis
  proof (cases "i < t")
    case True
    have "(2 ^ t * (2 * q) + r) mod 2 ^ t = r" if "r < 2 ^ t" for r :: nat using that by simp
    from this [of "2 ^ t - 1"] have "(n - 1) mod 2 ^ t = 2 ^ t - 1" unfolding n1 by simp
    then have "take_bit t (n - 1) = mask t" by (simp add: take_bit_eq_mod mask_eq_exp_minus_1)
    then have "bit (take_bit t (n - 1)) i" using True by (simp add: bit_simps)
    then show ?thesis using True by (simp add: bit_take_bit_iff)
  next
    case False
    then obtain j where j: "i = t + j" using le_Suc_ex not_less by blast
    have "(n - 1) div 2 ^ i = (2 * q) div 2 ^ j" "n div 2 ^ i = (2 * q + 1) div 2 ^ j"
      unfolding j power_add div_mult2_eq d by simp_all
    then have bits: "bit (n - 1) i \<longleftrightarrow> odd ((2 * q) div 2 ^ j)" "bit n i \<longleftrightarrow> odd ((2 * q + 1) div 2 ^ j)"
      using bit_iff_odd [of "n - 1" i] bit_iff_odd [of n i] by argo+
    show ?thesis
    proof (cases j)
      case 0
      then show ?thesis using bits j by simp
    next
      case (Suc l)
      have "(2 * q + 1) div 2 ^ j = q div 2 ^ l" "(2 * q) div 2 ^ j = q div 2 ^ l"
        unfolding Suc power_Suc div_mult2_eq by simp_all
      then show ?thesis using bits j Suc by simp
    qed
  qed
qed

lemma bit_and_pred:
  assumes "m \<noteq> (0 :: u32)"
  shows "bit (m AND (m - 1)) i \<longleftrightarrow> bit m i \<and> i \<noteq> trailing_zeros m"
proof -
  let ?t = "trailing_zeros m"
  note tz = trailing_zeros_lt [OF assms]
  have b: "bit (unat w) i = bit w i" for w :: u32 and i by (auto simp: bit_simps dest: bit_u32_len)
  have "take_bit ?t (unat m) = 0"
    by (rule bit_eqI) (use tz(3) in \<open>auto simp: bit_take_bit_iff b\<close>)
  then have "unat m mod 2 ^ ?t = 0" by (simp only: take_bit_eq_mod)
  then have "unat m = 2 ^ ?t * (unat m div 2 ^ ?t)" by (metis add_0_right mult_div_mod_eq)
  moreover have "odd (unat m div 2 ^ ?t)" using tz(2) b [of m ?t] by (simp add: bit_iff_odd)
  ultimately obtain q where q: "unat m = 2 ^ ?t * (2 * q + 1)" by (metis oddE)
  have "unat (m - 1) = unat m - 1"
    using assms by (subst unat_minus_u32) (simp_all add: word_le_nat_alt unat_gt_0 Suc_leI)
  then have "bit (m - 1) i \<longleftrightarrow> (if i < ?t then True else bit m i \<and> i \<noteq> ?t)"
    using odd_part [OF q, of i] b by metis
  then show ?thesis using tz(3) [of i] by (auto simp: bit_and_iff)
qed

lemma check_waiter_served:
  assumes "check_waiter i (k, e) = Some (k', e')" "i < 32"
  shows "served (bitm i) e e'"
proof (cases "wait_params e i")
  case None
  then have "e' = e" using assms by (simp add: check_waiter_def)
  then show ?thesis using None assms(2) by (auto simp: served_def flags_below_def bit_bitm)
next
  case (Some w)
  show ?thesis
  proof (cases "condition_met e (w_flags w) (w_mode w)")
    case True
    then have e': "e' = (if w_clear w then e\<lparr>ev_flags := ev_flags e AND NOT (w_flags w)\<rparr> else e)
        \<lparr>ev_waiters := ev_waiters e AND NOT (bitm i)\<rparr>"
      using assms(1) Some by (auto simp: check_waiter_def split: bind_splits)
    have "bit (ev_waiters e') j \<longleftrightarrow> bit (ev_waiters e) j \<and> j \<noteq> i" for j
      using e' assms(2) by (simp add: bit_del_waiter)
    moreover have "flags_below e' e" using e' by (auto simp: flags_below_def bit_simps)
    moreover have "wait_params e' = wait_params e" using e' by simp
    ultimately show ?thesis using assms(2) by (auto simp: served_def bit_bitm)
  next
    case False
    then have "e' = e" using assms Some by (simp add: check_waiter_def)
    then show ?thesis using Some False assms(2) by (auto simp: served_def flags_below_def bit_bitm)
  qed
qed

lemma check_loop_served:
  "check_loop m (k, e) = Some (k', e') \<Longrightarrow> served m e e'"
proof (induction m "(k, e)" arbitrary: k e rule: check_loop.induct)
  case (1 m k e)
  show ?case
  proof (cases "m = 0")
    case True
    then have "e' = e" using "1.prems" by (simp add: check_loop.simps)
    then show ?thesis using True by (auto simp: served_def flags_below_def)
  next
    case False
    let ?i = "trailing_zeros m"
    from "1.prems" False obtain k1 e1 where 1: "check_waiter ?i (k, e) = Some (k1, e1)"
      "check_loop (m AND (m - 1)) (k1, e1) = Some (k', e')"
      by (subst (asm) check_loop.simps) (auto split: bind_splits)
    have i: "?i < 32" "bit m ?i" using trailing_zeros_lt [OF False] by simp_all
    have s1: "served (bitm ?i) e e1" by (rule check_waiter_served [OF 1(1) i(1)])
    have s2: "served (m AND (m - 1)) e1 e'" using "1.hyps" [OF False refl 1(1)] 1(2) by simp
    have p: "wait_params e1 = wait_params e" "wait_params e' = wait_params e"
      "flags_below e' e1" "flags_below e' e" using s1 s2 flags_below_trans by (auto simp: served_def)
    have sub: "bit (ev_waiters e') j \<Longrightarrow> bit (ev_waiters e1) j \<and> bit (ev_waiters e) j" for j
      using s1 s2 by (simp add: served_def)
    have unmet: "\<not> condition_met e' (w_flags w) (w_mode w)"
      if "bit m j" "bit (ev_waiters e') j" "wait_params e j = Some w" for j w
    proof (cases "j = ?i")
      case True
      have "bit (bitm ?i) j" using True i(1) by (simp add: bit_bitm)
      then have "\<not> condition_met e1 (w_flags w) (w_mode w)" using s1 that(3) sub [OF that(2)] by (simp add: served_def)
      then show ?thesis using condition_mono [OF p(3)] by blast
    next
      case False
      then have "bit (m AND (m - 1)) j" using that(1) \<open>m \<noteq> 0\<close> by (simp add: bit_and_pred)
      then show ?thesis using s2 that(2,3) p(1) by (simp add: served_def)
    qed
    have rest: "bit (ev_waiters e') j = bit (ev_waiters e) j" if "\<not> bit m j" for j
    proof -
      have "\<not> bit (m AND (m - 1)) j" "\<not> bit (bitm ?i) j"
        using that i by (auto simp: bit_and_iff bit_bitm)
      then show ?thesis using s1 s2 by (simp add: served_def)
    qed
    show ?thesis unfolding served_def using p(2,4) sub unmet rest by blast
  qed
qed

text \<open>The loop always returns: every index is in range.\<close>

lemma check_waiter_returns: "i < 32 \<Longrightarrow> \<exists>ke'. check_waiter i ke = Some ke'"
  using unblock_returns [of i "fst ke"]
  by (cases ke) (auto simp: check_waiter_def split: option.splits)

lemma check_loop_returns: "\<exists>ke'. check_loop m ke = Some ke'"
proof (induction m ke rule: check_loop.induct)
  case (1 m ke)
  show ?case
  proof (cases "m = 0")
    case False
    obtain ke1 where "check_waiter (trailing_zeros m) ke = Some ke1"
      using check_waiter_returns trailing_zeros_lt(1) [OF False] by blast
    then show ?thesis using "1.IH" [OF False refl] False by (subst check_loop.simps) simp
  qed (simp add: check_loop.simps)
qed

section \<open>Properties\<close>


definition two_waiters :: event_flags where
  "two_waiters = \<lparr>ev_flags = 0, ev_waiters = 0x5, wait_params = [0 \<mapsto> \<lparr>w_flags = 1, w_mode = OrMode, w_clear = True\<rparr>,
     2 \<mapsto> \<lparr>w_flags = 3, w_mode = AndMode, w_clear = False\<rparr>]\<rparr>"


definition set_and_yield :: "event_state \<Rightarrow> event_state option" where
  "set_and_yield = (\<lambda>ke. do {
     (k, e) \<leftarrow> event_set 1 ke;
     (b, k) \<leftarrow> thread_yield_enter k;
     assert_that (current_id k = 0);
     Some (k, e)
   })"

text \<open>A wait with \<open>clear_on_exit\<close> that had to block reports no flags: \<open>check_waiters\<close> has
  cleared them by the time the woken thread computes its result.  Here thread 0 waits
  for flag 0, thread 1 sets it and yields until thread 0 runs again: the result is
  \<open>Ok(0)\<close>, not \<open>Ok(1)\<close>.\<close>

theorem event_wait_clear_loses_result:
  "(case event_wait set_and_yield 1 OrMode True None (three_up, event_new) of
      Some (Inr v, k', e') \<Rightarrow> v = 0 \<and> ev_flags e' = 0 | _ \<Rightarrow> False) \<and>
   (case event_wait set_and_yield 1 OrMode False None (three_up, event_new) of
      Some (Inr v, k', e') \<Rightarrow> v = 1 \<and> ev_flags e' = 1 | _ \<Rightarrow> False)"
  by code_simp

end
