(* ===== verification/MsgQueue.thy ===== *)
theory MsgQueue
  imports Event
begin

text \<open>
  \<open>ipc/msgqueue.rs\<close>: the queue of fixed-size messages over a byte buffer of the caller.
  The ring of slots is refined to a list of messages; \<open>fifo\<close> states what the ring
  promises, and the ledger of sent and received messages is kept with its laws.

  \<open>copy_nonoverlapping\<close> goes through a raw pointer: a copy that leaves the buffer is
  undefined behaviour, and is \<^term>\<open>None\<close> here.
\<close>

datatype msg_error = MsgTimeout | BadSize | TooSmall

record msgqueue =
  q_buf :: "u8 list"
  q_msg_size :: usize
  q_capacity :: usize
  q_head :: usize
  q_tail :: usize
  q_count :: usize
  recv_waiters :: u32
  send_waiters :: u32

type_synonym mq_state = "kernel \<times> msgqueue"

definition mq_new :: "u8 list \<Rightarrow> usize \<Rightarrow> msgqueue option" where
  "mq_new buf msg_size = do {
     assert_that (0 < msg_size);
     let capacity = word_of_nat (length buf) div msg_size;
     assert_that (0 < capacity);
     Some \<lparr>q_buf = buf, q_msg_size = msg_size, q_capacity = capacity, q_head = 0, q_tail = 0,
       q_count = 0, recv_waiters = 0, send_waiters = 0\<rparr>
   }"

definition copy_in :: "nat \<Rightarrow> 'a list \<Rightarrow> 'a list \<Rightarrow> 'a list option" where
  "copy_in dst msg buf = (if dst + length msg \<le> length buf
     then Some (take dst buf @ msg @ drop (dst + length msg) buf) else None)"

definition copy_out :: "nat \<Rightarrow> nat \<Rightarrow> 'a list \<Rightarrow> 'a list option" where
  "copy_out src n buf = (if src + n \<le> length buf then Some (take n (drop src buf)) else None)"

definition enqueue :: "u8 list \<Rightarrow> msgqueue \<Rightarrow> msgqueue option" where
  "enqueue msg q = do {
     let dst = q_tail q * q_msg_size q;
     buf \<leftarrow> copy_in (unat dst) msg (q_buf q);
     Some (q\<lparr>q_buf := buf, q_tail := (q_tail q + 1) mod q_capacity q, q_count := q_count q + 1\<rparr>)
   }"

text \<open>\<open>dequeue\<close>: the bytes copied to the caller's buffer, which has the message size.\<close>

definition dequeue :: "msgqueue \<Rightarrow> (u8 list \<times> msgqueue) option" where
  "dequeue q = do {
     let src = q_head q * q_msg_size q;
     msg \<leftarrow> copy_out (unat src) (unat (q_msg_size q)) (q_buf q);
     Some (msg, q\<lparr>q_head := (q_head q + 1) mod q_capacity q, q_count := q_count q - 1\<rparr>)
   }"

definition wake_recv_waiter :: "mq_state \<Rightarrow> mq_state option" where
  "wake_recv_waiter = (\<lambda>(k, q).
     if recv_waiters q \<noteq> 0 then do {
       let (i, ws) = pop_waiter (recv_waiters q);
       k \<leftarrow> unblock_thread i k;
       Some (k, q\<lparr>recv_waiters := ws\<rparr>)
     } else Some (k, q))"

definition wake_send_waiter :: "mq_state \<Rightarrow> mq_state option" where
  "wake_send_waiter = (\<lambda>(k, q).
     if send_waiters q \<noteq> 0 then do {
       let (i, ws) = pop_waiter (send_waiters q);
       k \<leftarrow> unblock_thread i k;
       Some (k, q\<lparr>send_waiters := ws\<rparr>)
     } else Some (k, q))"

text \<open>\<open>enqueue\<close> then wake a receiver; \<open>dequeue\<close> then wake a sender.\<close>

definition mq_put :: "u8 list \<Rightarrow> mq_state \<Rightarrow> mq_state option" where
  "mq_put msg = (\<lambda>(k, q). do { q \<leftarrow> enqueue msg q; wake_recv_waiter (k, q) })"

definition mq_take :: "mq_state \<Rightarrow> (u8 list \<times> mq_state) option" where
  "mq_take = (\<lambda>(k, q). do { (m, q) \<leftarrow> dequeue q; kq \<leftarrow> wake_send_waiter (k, q); Some (m, kq) })"

definition mq_try_send :: "u8 list \<Rightarrow> mq_state \<Rightarrow> (bool \<times> mq_state) option" where
  "mq_try_send msg = (\<lambda>(k, q).
     if length msg \<noteq> unat (q_msg_size q) then Some (False, k, q)
     else do {
       let (c, k) = mask_kernel k;
       let ok = (q_count q < q_capacity q);
       (k, q) \<leftarrow> (if ok then mq_put msg (k, q) else Some (k, q));
       Some (ok, unmask_kernel c k, q)
     })"

text \<open>The receiving calls take the caller's buffer and return its new contents.\<close>

definition mq_try_recv :: "u8 list \<Rightarrow> mq_state \<Rightarrow> (bool \<times> u8 list \<times> mq_state) option" where
  "mq_try_recv buf = (\<lambda>(k, q).
     if length buf \<noteq> unat (q_msg_size q) then Some (False, buf, k, q)
     else do {
       let (c, k) = mask_kernel k;
       let ok = (0 < q_count q);
       (buf, k, q) \<leftarrow> (if ok then mq_take (k, q) else Some (buf, k, q));
       Some (ok, buf, unmask_kernel c k, q)
     })"

text \<open>\<open>send\<close> and \<open>recv\<close> up to the switch and from the resumption, as for the semaphore.\<close>

definition mq_send_enter ::
  "u8 list \<Rightarrow> u32 option \<Rightarrow> mq_state \<Rightarrow> (((msg_error + unit) + bool) \<times> mq_state) option" where
  "mq_send_enter msg tmo = (\<lambda>(k, q).
     if length msg \<noteq> unat (q_msg_size q) then Some (Inl (Inl BadSize), k, q)
     else let (c, k) = mask_kernel k in
     if q_count q < q_capacity q then do {
       (k, q) \<leftarrow> mq_put msg (k, q);
       Some (Inl (Inr ()), unmask_kernel c k, q)
     } else do {
       let i = current_id k;
       let q = q\<lparr>send_waiters := send_waiters q OR bitm i\<rparr>;
       (sw, k) \<leftarrow> block_current tmo k;
       Some (Inr sw, k, q)
     })"

definition mq_send_resume :: "u8 list \<Rightarrow> nat \<Rightarrow> mq_state \<Rightarrow> ((msg_error + unit) \<times> mq_state) option" where
  "mq_send_resume msg i = (\<lambda>(k, q). do {
     let (c2, k) = mask_kernel k;
     err \<leftarrow> current_ipc_error k;
     if err \<noteq> IPC_OK
     then Some (Inl MsgTimeout, unmask_kernel c2 k, q\<lparr>send_waiters := send_waiters q AND NOT (bitm i)\<rparr>)
     else do {
       (k, q) \<leftarrow> mq_put msg (k, q);
       Some (Inr (), unmask_kernel c2 k, q)
     }
   })"

definition mq_send ::
  "(mq_state \<Rightarrow> mq_state option) \<Rightarrow> u8 list \<Rightarrow> u32 option \<Rightarrow> mq_state \<Rightarrow> ((msg_error + unit) \<times> mq_state) option" where
  "mq_send run msg tmo kq = do {
     (r, kq') \<leftarrow> mq_send_enter msg tmo kq;
     case r of Inl res \<Rightarrow> Some (res, kq')
     | Inr sw \<Rightarrow> do {
         kq' \<leftarrow> resume_with run sw kq';
         mq_send_resume msg (current_id (fst kq)) kq'
       }
   }"

definition mq_recv_enter ::
  "u8 list \<Rightarrow> u32 option \<Rightarrow> mq_state \<Rightarrow> (((msg_error + unit) + bool) \<times> u8 list \<times> mq_state) option" where
  "mq_recv_enter buf tmo = (\<lambda>(k, q).
     if length buf \<noteq> unat (q_msg_size q) then Some (Inl (Inl BadSize), buf, k, q)
     else let (c, k) = mask_kernel k in
     if 0 < q_count q then do {
       (buf, k, q) \<leftarrow> mq_take (k, q);
       Some (Inl (Inr ()), buf, unmask_kernel c k, q)
     } else do {
       let i = current_id k;
       let q = q\<lparr>recv_waiters := recv_waiters q OR bitm i\<rparr>;
       (sw, k) \<leftarrow> block_current tmo k;
       Some (Inr sw, buf, k, q)
     })"

definition mq_recv_resume ::
  "u8 list \<Rightarrow> nat \<Rightarrow> mq_state \<Rightarrow> ((msg_error + unit) \<times> u8 list \<times> mq_state) option" where
  "mq_recv_resume buf i = (\<lambda>(k, q). do {
     let (c2, k) = mask_kernel k;
     err \<leftarrow> current_ipc_error k;
     if err \<noteq> IPC_OK
     then Some (Inl MsgTimeout, buf, unmask_kernel c2 k, q\<lparr>recv_waiters := recv_waiters q AND NOT (bitm i)\<rparr>)
     else do {
       (buf, k, q) \<leftarrow> mq_take (k, q);
       Some (Inr (), buf, unmask_kernel c2 k, q)
     }
   })"

definition mq_recv ::
  "(mq_state \<Rightarrow> mq_state option) \<Rightarrow> u8 list \<Rightarrow> u32 option \<Rightarrow> mq_state \<Rightarrow>
    ((msg_error + unit) \<times> u8 list \<times> mq_state) option" where
  "mq_recv run buf tmo kq = do {
     (r, buf, kq') \<leftarrow> mq_recv_enter buf tmo kq;
     case r of Inl res \<Rightarrow> Some (res, buf, kq')
     | Inr sw \<Rightarrow> do {
         kq' \<leftarrow> resume_with run sw kq';
         mq_recv_resume buf (current_id (fst kq)) kq'
       }
   }"

definition mq_len :: "msgqueue \<Rightarrow> usize" where "mq_len q = q_count q"
definition mq_is_empty :: "msgqueue \<Rightarrow> bool" where "mq_is_empty q \<longleftrightarrow> q_count q = 0"
definition mq_is_full :: "msgqueue \<Rightarrow> bool" where "mq_is_full q \<longleftrightarrow> q_count q = q_capacity q"
definition mq_get_capacity :: "msgqueue \<Rightarrow> usize" where "mq_get_capacity q = q_capacity q"

section \<open>The ring as a list\<close>

definition ring_slot :: "nat \<Rightarrow> nat \<Rightarrow> 'a list \<Rightarrow> 'a list" where
  "ring_slot n j xs = take n (drop (j * n) xs)"

definition msgs :: "msgqueue \<Rightarrow> u8 list list" where
  "msgs q = map (\<lambda>i. ring_slot (unat (q_msg_size q)) ((unat (q_head q) + i) mod unat (q_capacity q)) (q_buf q))
     [0..<unat (q_count q)]"

definition mq_ok :: "msgqueue \<Rightarrow> bool" where
  "mq_ok q \<longleftrightarrow> 0 < unat (q_msg_size q) \<and> 0 < unat (q_capacity q) \<and>
     unat (q_capacity q) * unat (q_msg_size q) \<le> length (q_buf q) \<and> length (q_buf q) < 2 ^ 32 \<and>
     unat (q_head q) < unat (q_capacity q) \<and> unat (q_count q) \<le> unat (q_capacity q) \<and>
     unat (q_tail q) = (unat (q_head q) + unat (q_count q)) mod unat (q_capacity q)"

lemma mod_ring_inj: "(h + i) mod c = (h + k) mod c \<Longrightarrow> i < c \<Longrightarrow> k < c \<Longrightarrow> i = (k :: nat)"
proof (induction i k rule: linorder_wlog)
  case (le i k)
  then have "c dvd (h + k) - (h + i)" by (metis add_le_mono le_refl mod_eq_dvd_iff_nat)
  then have "c dvd k - i" by simp
  then show ?case using le by (metis diff_less_Suc dvd_imp_le le_antisym less_imp_diff_less linorder_not_less zero_less_diff)
qed metis

lemma nth_copy_in:
  "copy_in d msg xs = Some ys \<Longrightarrow> i < length xs \<Longrightarrow>
     ys ! i = (if d \<le> i \<and> i < d + length msg then msg ! (i - d) else xs ! i)"
  by (auto simp: copy_in_def nth_append split: if_splits)

lemma length_copy_in: "copy_in d msg xs = Some ys \<Longrightarrow> length ys = length xs"
  by (auto simp: copy_in_def split: if_splits)

lemma ring_slot_copy_in:
  assumes "copy_in (t * n) msg xs = Some ys" "length msg = n" "(j + 1) * n \<le> length xs"
  shows "ring_slot n j ys = (if j = t then msg else ring_slot n j xs)"
proof (cases "j = t")
  case True
  have "t * n + n \<le> length xs" using assms(3) True by simp
  then show ?thesis using assms True by (auto simp: ring_slot_def copy_in_def)
next
  case False
  have "ring_slot n j ys = ring_slot n j xs"
  proof (rule nth_equalityI)
    show "length (ring_slot n j ys) = length (ring_slot n j xs)"
      using length_copy_in [OF assms(1)] by (simp add: ring_slot_def)
    fix i assume "i < length (ring_slot n j ys)"
    then have i: "i < n" "j * n + i < length xs"
      using length_copy_in [OF assms(1)] by (auto simp: ring_slot_def)
    have "j * n + i < t * n \<or> t * n + n \<le> j * n + i"
    proof (cases "j < t")
      case True
      then have "(j + 1) * n \<le> t * n" by (intro mult_le_mono1) simp
      then show ?thesis using i by simp
    next
      case f: False
      then have "(t + 1) * n \<le> j * n" using \<open>j \<noteq> t\<close> by (intro mult_le_mono1) simp
      then show ?thesis by simp
    qed
    then have "ys ! (j * n + i) = xs ! (j * n + i)"
      using nth_copy_in [OF assms(1) i(2)] assms(2) by auto
    then show "ring_slot n j ys ! i = ring_slot n j xs ! i"
      using i length_copy_in [OF assms(1)] by (simp add: ring_slot_def)
  qed
  then show ?thesis using False by simp
qed

lemma slot_fits: "j < c \<Longrightarrow> c * n \<le> (l :: nat) \<Longrightarrow> (j + 1) * n \<le> l"
  by (metis Suc_eq_plus1 Suc_leI le_trans mult_le_mono1)

lemma succ_mod_u32:
  assumes "unat (x :: u32) < unat c"
  shows "unat ((x + 1) mod c) = (unat x + 1) mod unat c"
proof -
  have "unat (x + 1) = unat x + 1" using assms unat_u32 [of c] by (subst unat_plus_u32) simp_all
  then show ?thesis by (simp add: unat_mod)
qed

lemma slot_offset:
  assumes "mq_ok q" "unat j < unat (q_capacity q)"
  shows "unat (j * q_msg_size q) = unat j * unat (q_msg_size q)"
    and "(unat j + 1) * unat (q_msg_size q) \<le> length (q_buf q)"
proof -
  have f: "(unat j + 1) * unat (q_msg_size q) \<le> length (q_buf q)"
    by (rule slot_fits [OF assms(2)]) (use assms(1) in \<open>simp add: mq_ok_def\<close>)
  then show "(unat j + 1) * unat (q_msg_size q) \<le> length (q_buf q)" .
  have "unat j * unat (q_msg_size q) < 2 ^ 32" using f assms(1) by (simp add: mq_ok_def)
  then show "unat (j * q_msg_size q) = unat j * unat (q_msg_size q)" by (simp add: unat_word_ariths)
qed

lemma enqueue_refines:
  assumes ok: "mq_ok q" and room: "q_count q < q_capacity q" and len: "length msg = unat (q_msg_size q)"
  shows "\<exists>q'. enqueue msg q = Some q' \<and> mq_ok q' \<and> msgs q' = msgs q @ [msg] \<and> q_msg_size q' = q_msg_size q
    \<and> q_capacity q' = q_capacity q \<and> recv_waiters q' = recv_waiters q \<and> send_waiters q' = send_waiters q"
proof -
  let ?n = "unat (q_msg_size q)" and ?c = "unat (q_capacity q)" and ?h = "unat (q_head q)" and ?k = "unat (q_count q)"
  have t: "unat (q_tail q) = (?h + ?k) mod ?c" and c0: "0 < ?c" and fit: "?c * ?n \<le> length (q_buf q)"
    using ok by (simp_all add: mq_ok_def)
  have k: "?k < ?c" using room by (simp add: word_less_nat_alt)
  have tc: "unat (q_tail q) < ?c" using t c0 by simp
  from slot_offset [OF ok tc] have d: "unat (q_tail q * q_msg_size q) = unat (q_tail q) * ?n"
    and b: "(unat (q_tail q) + 1) * ?n \<le> length (q_buf q)" by simp_all
  then obtain buf where buf: "copy_in (unat (q_tail q) * ?n) msg (q_buf q) = Some buf"
    using len by (simp add: copy_in_def)
  let ?q = "q\<lparr>q_buf := buf, q_tail := (q_tail q + 1) mod q_capacity q, q_count := q_count q + 1\<rparr>"
  have e: "enqueue msg q = Some ?q" using buf d by (simp add: enqueue_def)
  have cnt: "unat (q_count q + 1) = ?k + 1" using k unat_u32 [of "q_capacity q"] by (subst unat_plus_u32) simp_all
  have "mq_ok ?q"
    using ok succ_mod_u32 [OF tc] t cnt k length_copy_in [OF buf] by (simp add: mq_ok_def mod_simps)
  moreover have "msgs ?q = msgs q @ [msg]"
  proof -
    have slot: "ring_slot ?n ((?h + i) mod ?c) buf =
        (if i = ?k then msg else ring_slot ?n ((?h + i) mod ?c) (q_buf q))" if "i \<le> ?k" for i
    proof -
      have "((?h + i) mod ?c + 1) * ?n \<le> length (q_buf q)" by (rule slot_fits [OF _ fit]) (use c0 in simp)
      from ring_slot_copy_in [OF buf len this] mod_ring_inj [of ?h i ?c ?k] that k show ?thesis
        unfolding t by auto
    qed
    have "map (\<lambda>i. ring_slot ?n ((?h + i) mod ?c) buf) [0..<?k] =
       map (\<lambda>i. ring_slot ?n ((?h + i) mod ?c) (q_buf q)) [0..<?k]"
      by (rule map_cong [OF refl]) (simp add: slot)
    then show ?thesis using slot [of ?k] by (simp add: msgs_def cnt)
  qed
  ultimately show ?thesis using e by simp
qed

lemma dequeue_refines:
  assumes ok: "mq_ok q" and some: "0 < q_count q"
  shows "\<exists>q'. dequeue q = Some (hd (msgs q), q') \<and> mq_ok q' \<and> msgs q' = tl (msgs q) \<and> q_msg_size q' = q_msg_size q
    \<and> q_capacity q' = q_capacity q \<and> recv_waiters q' = recv_waiters q \<and> send_waiters q' = send_waiters q"
proof -
  let ?n = "unat (q_msg_size q)" and ?c = "unat (q_capacity q)" and ?h = "unat (q_head q)" and ?k = "unat (q_count q)"
  have hc: "?h < ?c" and t: "unat (q_tail q) = (?h + ?k) mod ?c" and kc: "?k \<le> ?c" using ok by (simp_all add: mq_ok_def)
  have k: "0 < ?k" using some by (simp add: word_less_nat_alt)
  from slot_offset [OF ok hc] have d: "unat (q_head q * q_msg_size q) = ?h * ?n"
    and b: "(?h + 1) * ?n \<le> length (q_buf q)" by simp_all
  let ?q = "q\<lparr>q_head := (q_head q + 1) mod q_capacity q, q_count := q_count q - 1\<rparr>"
  have up: "[0..<?k] = 0 # map Suc [0..<?k - 1]" using k by (simp add: upt_conv_Cons map_Suc_upt)
  have e: "dequeue q = Some (hd (msgs q), ?q)"
    using d b hc by (simp add: dequeue_def copy_out_def msgs_def up ring_slot_def)
  have cnt: "unat (q_count q - 1) = ?k - 1" using k by (subst unat_minus_u32) (simp_all add: word_le_nat_alt)
  have h1: "unat ((q_head q + 1) mod q_capacity q) = (?h + 1) mod ?c" by (rule succ_mod_u32 [OF hc])
  have "((?h + 1) mod ?c + (?k - 1)) mod ?c = (?h + ?k) mod ?c"
  proof -
    have "?h + 1 + (?k - 1) = ?h + ?k" using k by simp
    then show ?thesis by (metis mod_add_left_eq)
  qed
  then have "mq_ok ?q" using ok h1 t cnt kc by (simp add: mq_ok_def)
  moreover have "msgs ?q = tl (msgs q)"
    by (simp add: msgs_def cnt h1 up mod_simps)
  ultimately show ?thesis using e by simp
qed

lemma mq_new_refines:
  assumes "0 < ms" "unat ms \<le> length buf" "length buf < 2 ^ 32"
  shows "\<exists>q. mq_new buf ms = Some q \<and> mq_ok q \<and> msgs q = [] \<and> q_msg_size q = ms
    \<and> unat (q_capacity q) = length buf div unat ms"
proof -
  have "unat (word_of_nat (length buf) :: u32) = length buf" using assms(3) by (simp add: unsigned_of_nat take_bit_nat_eq_self)
  then have c: "unat ((word_of_nat (length buf) :: u32) div ms) = length buf div unat ms" by (simp add: unat_div)
  have "0 < unat ms" using assms(1) by (simp add: word_less_nat_alt)
  then have "0 < length buf div unat ms" using assms(2) by (simp add: div_greater_zero_iff)
  then have "0 < (word_of_nat (length buf) :: u32) div ms" using c by (simp add: word_less_nat_alt)
  then show ?thesis using assms c \<open>0 < unat ms\<close> \<open>0 < length buf div unat ms\<close>
    by (auto simp: mq_new_def mq_ok_def msgs_def)
qed

section \<open>The interface\<close>

text \<open>What the operations above the ring rely on: putting appends, taking removes the front,
  both return whenever the guards hold.  The ledger \<open>received @ queued = sent\<close> follows.\<close>

locale fifo =
  fixes ok :: "'q \<Rightarrow> bool" and items :: "'q \<Rightarrow> 'm list"
    and room :: "'q \<Rightarrow> bool" and some :: "'q \<Rightarrow> bool" and fits :: "'m \<Rightarrow> 'q \<Rightarrow> bool"
    and put :: "'m \<Rightarrow> 'q \<Rightarrow> 'q option" and get :: "'q \<Rightarrow> ('m \<times> 'q) option"
  assumes put_ok: "ok q \<Longrightarrow> room q \<Longrightarrow> fits m q \<Longrightarrow>
      \<exists>q'. put m q = Some q' \<and> ok q' \<and> items q' = items q @ [m]"
    and get_ok: "ok q \<Longrightarrow> some q \<Longrightarrow> \<exists>q'. get q = Some (hd (items q), q') \<and> ok q' \<and> items q' = tl (items q)"
    and some_items: "ok q \<Longrightarrow> some q \<longleftrightarrow> items q \<noteq> []"
begin

lemma put_ledger:
  assumes "ok q" "room q" "fits m q" "received @ items q = sent"
  obtains q' where "put m q = Some q'" "ok q'" "received @ items q' = sent @ [m]"
  using put_ok [OF assms(1-3)] assms(4) that by auto

lemma get_ledger:
  assumes "ok q" "some q" "received @ items q = sent"
  obtains m q' where "get q = Some (m, q')" "ok q'" "(received @ [m]) @ items q' = sent"
  using get_ok [OF assms(1,2)] some_items [OF assms(1)] assms that by auto

end

definition kq_ok :: "mq_state \<Rightarrow> bool" where "kq_ok kq \<longleftrightarrow> mq_ok (snd kq)"

lemma msgs_waiters [simp]:
  "msgs (q\<lparr>recv_waiters := w\<rparr>) = msgs q" "msgs (q\<lparr>send_waiters := w\<rparr>) = msgs q"
  "mq_ok (q\<lparr>recv_waiters := w\<rparr>) = mq_ok q" "mq_ok (q\<lparr>send_waiters := w\<rparr>) = mq_ok q"
  by (simp_all add: msgs_def mq_ok_def)

lemma msgs_empty_iff: "msgs q = [] \<longleftrightarrow> \<not> 0 < q_count q"
  by (simp add: msgs_def unat_eq_0 word_neq_0_conv flip: word_neq_0_conv)

lemma wake_returns:
  "\<exists>k' w. wake_recv_waiter (k, q) = Some (k', q\<lparr>recv_waiters := w\<rparr>)"
  "\<exists>k' w. wake_send_waiter (k, q) = Some (k', q\<lparr>send_waiters := w\<rparr>)"
proof -
  show "\<exists>k' w. wake_recv_waiter (k, q) = Some (k', q\<lparr>recv_waiters := w\<rparr>)"
  proof (cases "recv_waiters q = 0")
    case True
    then have "wake_recv_waiter (k, q) = Some (k, q\<lparr>recv_waiters := recv_waiters q\<rparr>)"
      by (simp add: wake_recv_waiter_def)
    then show ?thesis by blast
  next
    case False
    from unblock_returns [of "trailing_zeros (recv_waiters q)" k] trailing_zeros_lt(1) [OF False] False
    show ?thesis by (auto simp: wake_recv_waiter_def pop_waiter_def Let_def)
  qed
  show "\<exists>k' w. wake_send_waiter (k, q) = Some (k', q\<lparr>send_waiters := w\<rparr>)"
  proof (cases "send_waiters q = 0")
    case True
    then have "wake_send_waiter (k, q) = Some (k, q\<lparr>send_waiters := send_waiters q\<rparr>)"
      by (simp add: wake_send_waiter_def)
    then show ?thesis by blast
  next
    case False
    from unblock_returns [of "trailing_zeros (send_waiters q)" k] trailing_zeros_lt(1) [OF False] False
    show ?thesis by (auto simp: wake_send_waiter_def pop_waiter_def Let_def)
  qed
qed

interpretation ring: fifo kq_ok "\<lambda>kq. msgs (snd kq)" "\<lambda>kq. q_count (snd kq) < q_capacity (snd kq)"
  "\<lambda>kq. 0 < q_count (snd kq)" "\<lambda>m kq. length m = unat (q_msg_size (snd kq))" mq_put mq_take
proof
  fix kq :: mq_state and m
  obtain k q where kq: "kq = (k, q)" by (cases kq)
  assume ok: "kq_ok kq"
  show "0 < q_count (snd kq) \<longleftrightarrow> msgs (snd kq) \<noteq> []" by (simp add: msgs_empty_iff)
  show "\<exists>kq'. mq_put m kq = Some kq' \<and> kq_ok kq' \<and> msgs (snd kq') = msgs (snd kq) @ [m]"
    if r: "q_count (snd kq) < q_capacity (snd kq)" "length m = unat (q_msg_size (snd kq))"
  proof -
    obtain q1 where "enqueue m q = Some q1" "mq_ok q1" "msgs q1 = msgs q @ [m]"
      using enqueue_refines [of q m] ok r kq by (auto simp: kq_ok_def)
    then show ?thesis using wake_returns(1) [of k q1] kq by (auto simp: mq_put_def kq_ok_def)
  qed
  show "\<exists>kq'. mq_take kq = Some (hd (msgs (snd kq)), kq') \<and> kq_ok kq' \<and> msgs (snd kq') = tl (msgs (snd kq))"
    if r: "0 < q_count (snd kq)"
  proof -
    obtain q1 where "dequeue q = Some (hd (msgs q), q1)" "mq_ok q1" "msgs q1 = tl (msgs q)"
      using dequeue_refines [of q] ok r kq by (auto simp: kq_ok_def)
    then show ?thesis using wake_returns(2) [of k q1] kq by (auto simp: mq_take_def kq_ok_def)
  qed
qed

section \<open>Properties\<close>

lemma length_msgs: "length (msgs q) = unat (q_count q)"
  by (simp add: msgs_def)

lemma mq_put_returns:
  assumes "mq_ok q" "q_count q < q_capacity q" "length msg = unat (q_msg_size q)"
  shows "\<exists>k' q'. mq_put msg (k, q) = Some (k', q') \<and> mq_ok q' \<and> msgs q' = msgs q @ [msg]"
  using ring.put_ok [of "(k, q)" msg] assms by (auto simp: kq_ok_def)

lemma mq_take_returns:
  assumes "mq_ok q" "0 < q_count q"
  shows "\<exists>k' q'. mq_take (k, q) = Some (hd (msgs q), k', q') \<and> mq_ok q' \<and> msgs q' = tl (msgs q)"
  using ring.get_ok [of "(k, q)"] assms by (auto simp: kq_ok_def)

text \<open>C10. The non-blocking calls are those of a bounded list of messages: \<open>try_send\<close>
  returns, appends exactly when the size is right and the queue is not full, and says so;
  \<open>try_recv\<close> returns, takes the front into the caller's buffer exactly when the buffer
  has the right size and the queue is not empty, and otherwise changes neither.  The ring
  stays well-formed, and no copy leaves the buffer.\<close>

theorem mq_try_ops_correct:
  assumes "mq_ok q"
  shows "(\<exists>k' q'. mq_try_send msg (k, q) =
      Some (length msg = unat (q_msg_size q) \<and> length (msgs q) < unat (q_capacity q), k', q') \<and> mq_ok q' \<and>
      msgs q' = (if length msg = unat (q_msg_size q) \<and> length (msgs q) < unat (q_capacity q)
        then msgs q @ [msg] else msgs q)) \<and>
    (\<exists>k' q'. mq_try_recv msg (k, q) =
      (if length msg = unat (q_msg_size q) \<and> msgs q \<noteq> []
       then Some (True, hd (msgs q), k', q') else Some (False, msg, k', q')) \<and> mq_ok q' \<and>
      msgs q' = (if length msg = unat (q_msg_size q) \<and> msgs q \<noteq> [] then tl (msgs q) else msgs q))" (is "?send \<and> ?recv")
proof
  let ?k = "k\<lparr>cpsr := cpsr k OR NOINT\<rparr>"
  have full: "length (msgs q) < unat (q_capacity q) \<longleftrightarrow> q_count q < q_capacity q"
    by (simp add: length_msgs word_less_nat_alt)
  show ?send
  proof (cases "length msg = unat (q_msg_size q) \<and> q_count q < q_capacity q")
    case True
    from mq_put_returns [OF assms, of msg ?k] True full show ?thesis
      by (auto simp: mq_try_send_def mask_kernel_def)
  qed (use assms full in \<open>auto simp: mq_try_send_def mask_kernel_def\<close>)
  show ?recv
  proof (cases "length msg = unat (q_msg_size q) \<and> 0 < q_count q")
    case True
    from mq_take_returns [OF assms, of ?k] True show ?thesis
      by (auto simp: mq_try_recv_def mask_kernel_def msgs_empty_iff)
  qed (use assms in \<open>auto simp: mq_try_recv_def mask_kernel_def msgs_empty_iff\<close>)
qed

text \<open>A queue of two slots of two bytes.\<close>

definition small_queue :: msgqueue where
  "small_queue = (case mq_new [0, 0, 0, 0, 0] 2 of Some q \<Rightarrow> q
     | None \<Rightarrow> \<lparr>q_buf = [], q_msg_size = 0, q_capacity = 0, q_head = 0, q_tail = 0, q_count = 0,
         recv_waiters = 0, send_waiters = 0\<rparr>)"

lemma small_queue_ok: "mq_ok small_queue" "msgs small_queue = []" "q_msg_size small_queue = 2"
  "unat (q_capacity small_queue) = 2"
  using mq_new_refines [of 2 "[0, 0, 0, 0, 0]"] by (auto simp: small_queue_def)

theorem mq_try_ops_correct_witness:
  "\<exists>k' q'. mq_try_send [1, 2] (blank_kernel, small_queue) = Some (True, k', q') \<and> msgs q' = [[1, 2]]"
  using mq_try_ops_correct [OF small_queue_ok(1), of "[1, 2]" blank_kernel] by (auto simp: small_queue_ok)

text \<open>The steps of a queue shared by any number of threads, with the messages whose \<open>send\<close>
  has succeeded and those received.  A woken sender is assumed to find room and a woken
  receiver a message, which the code does not check; the kernel changes arbitrarily
  between the steps.\<close>

type_synonym mq_conf = "kernel \<times> msgqueue \<times> u8 list list \<times> u8 list list"

inductive mq_step :: "mq_conf \<Rightarrow> mq_conf \<Rightarrow> bool" where
  try_send: "mq_try_send m (k, q) = Some (b, k', q') \<Longrightarrow>
    mq_step (k, q, sent, rcvd) (k', q', if b then sent @ [m] else sent, rcvd)"
| try_recv: "mq_try_recv buf (k, q) = Some (b, m, k', q') \<Longrightarrow>
    mq_step (k, q, sent, rcvd) (k', q', sent, if b then rcvd @ [m] else rcvd)"
| send: "mq_send_enter m tmo (k, q) = Some (r, k', q') \<Longrightarrow>
    mq_step (k, q, sent, rcvd) (k', q', if r = Inl (Inr ()) then sent @ [m] else sent, rcvd)"
| recv: "mq_recv_enter buf tmo (k, q) = Some (r, m, k', q') \<Longrightarrow>
    mq_step (k, q, sent, rcvd) (k', q', sent, if r = Inl (Inr ()) then rcvd @ [m] else rcvd)"
| send_wakes: "q_count q < q_capacity q \<Longrightarrow> length m = unat (q_msg_size q) \<Longrightarrow>
    mq_send_resume m i (k, q) = Some (r, k', q') \<Longrightarrow>
    mq_step (k, q, sent, rcvd) (k', q', if isl r then sent else sent @ [m], rcvd)"
| recv_wakes: "0 < q_count q \<Longrightarrow> mq_recv_resume buf i (k, q) = Some (r, m, k', q') \<Longrightarrow>
    mq_step (k, q, sent, rcvd) (k', q', sent, if isl r then rcvd else rcvd @ [m])"
| env: "mq_step (k, q, sent, rcvd) (k', q, sent, rcvd)"

definition ledger_ok :: "mq_conf \<Rightarrow> bool" where
  "ledger_ok = (\<lambda>(k, q, sent, rcvd). mq_ok q \<and> sent = rcvd @ msgs q)"

lemma mq_put_ledger:
  assumes "ledger_ok (k, q, sent, rcvd)" "q_count q < q_capacity q" "length m = unat (q_msg_size q)"
    "mq_put m (ka, q) = Some (k', q')"
  shows "ledger_ok (kb, q', sent @ [m], rcvd)"
  using mq_put_returns [of q m ka] assms by (auto simp: ledger_ok_def)

lemma mq_take_ledger:
  assumes "ledger_ok (k, q, sent, rcvd)" "0 < q_count q" "mq_take (ka, q) = Some (m, k', q')"
  shows "ledger_ok (kb, q', sent, rcvd @ [m])"
  using mq_take_returns [of q ka] assms msgs_empty_iff [of q] by (auto simp: ledger_ok_def)

lemma waiter_ledger [simp]:
  "ledger_ok (k, q\<lparr>recv_waiters := w\<rparr>, sent, rcvd) = ledger_ok (k, q, sent, rcvd)"
  "ledger_ok (k, q\<lparr>send_waiters := w\<rparr>, sent, rcvd) = ledger_ok (k, q, sent, rcvd)"
  by (simp_all add: ledger_ok_def)

lemma ledger_kernel: "ledger_ok (k, q, sent, rcvd) \<Longrightarrow> ledger_ok (k', q, sent, rcvd)"
  by (simp add: ledger_ok_def)

lemma mq_step_ledger:
  assumes "mq_step c c'" "ledger_ok c"
  shows "ledger_ok c'"
  using assms
proof (induction rule: mq_step.induct)
  case (try_send m k q b k' q' sent rcvd)
  then show ?case
    by (auto simp: mq_try_send_def mask_kernel_def Let_def split: if_splits bind_splits
        intro: mq_put_ledger [OF try_send.prems] ledger_kernel)
next
  case (try_recv buf k q b m k' q' sent rcvd)
  then show ?case
    by (auto simp: mq_try_recv_def mask_kernel_def Let_def split: if_splits bind_splits
        intro: mq_take_ledger [OF try_recv.prems] ledger_kernel)
next
  case (send m tmo k q r k' q' sent rcvd)
  then show ?case
    by (auto simp: mq_send_enter_def mask_kernel_def Let_def split: if_splits bind_splits
        intro: mq_put_ledger [OF send.prems] ledger_kernel)
next
  case (recv buf tmo k q r m k' q' sent rcvd)
  then show ?case
    by (auto simp: mq_recv_enter_def mask_kernel_def Let_def split: if_splits bind_splits
        intro: mq_take_ledger [OF recv.prems] ledger_kernel)
next
  case (send_wakes q m i k r k' q' sent rcvd)
  then show ?case
    by (auto simp: mq_send_resume_def mask_kernel_def split: if_splits bind_splits
        intro: mq_put_ledger [OF send_wakes.prems] ledger_kernel)
next
  case (recv_wakes q buf i k r m k' q' sent rcvd)
  then show ?case
    by (auto simp: mq_recv_resume_def mask_kernel_def split: if_splits bind_splits
        intro: mq_take_ledger [OF recv_wakes.prems] ledger_kernel)
next
  case (env k q sent rcvd k')
  then show ?case by (rule ledger_kernel)
qed



definition send_and_steal :: "mq_state \<Rightarrow> mq_state option" where
  "send_and_steal = (\<lambda>kq. do {
     (b, kq) \<leftarrow> mq_try_send [1, 2] kq;
     (b, m, kq) \<leftarrow> mq_try_recv [0, 0] kq;
     let (k, q) = kq;
     (b, k) \<leftarrow> thread_yield_enter k;
     assert_that (current_id k = 0);
     Some (k, q)
   })"

text \<open>A woken receiver does not look at the count again.  Thread 0 blocks in \<open>recv\<close> on an
  empty queue; thread 1 sends, which wakes thread 0, and takes the message back with
  \<open>try_recv\<close> before thread 0 runs.  Thread 0's \<open>recv\<close> then reports success with stale
  bytes of the buffer, and the count wraps to \<open>2\<^sup>3\<^sup>2 - 1\<close>: the queue is full for ever after.\<close>

theorem mq_recv_after_steal:
  "case mq_recv send_and_steal [7, 7] None (three_up, small_queue) of
      Some (r, m, k, q) \<Rightarrow> r = Inr () \<and> m = [0, 0] \<and> q_count q = 0xFFFFFFFF \<and> \<not> q_count q < q_capacity q
    | None \<Rightarrow> False"
  by code_simp

end
