(* ===== verification/Signal.thy ===== *)
theory Signal
  imports MsgQueue
begin

text \<open>
  \<open>ipc/signal.rs\<close> and \<open>ipc/spinlock.rs\<close>: software signals and critical sections.

  A handler is code of the application: \<open>'h\<close> is the type of function pointers and
  \<open>invoke h n\<close> the effect of calling one, a parameter of the operations that deliver a
  signal.  \<open>'u\<close> is the rest of the memory, which handlers may change.
\<close>

definition MAX_SIGNALS :: u32 where "MAX_SIGNALS = 32"

record 'h signals =
  handlers :: "nat \<Rightarrow> nat \<Rightarrow> 'h option"
  sig_wait_mask :: "nat \<Rightarrow> u32"
  sig_waiters :: u32

type_synonym ('h, 'u) sig_state = "kernel \<times> 'h signals \<times> 'u"
type_synonym ('h, 'u) invoker = "'h \<Rightarrow> u32 \<Rightarrow> ('h, 'u) sig_state \<Rightarrow> ('h, 'u) sig_state option"

datatype signal_error = InvalidSignal | SignalTimeout

definition signals_init :: "'h signals" where
  "signals_init = \<lparr>handlers = (\<lambda>_ _. None), sig_wait_mask = (\<lambda>_. 0), sig_waiters = 0\<rparr>"

definition set_handler :: "nat \<Rightarrow> nat \<Rightarrow> 'h option \<Rightarrow> 'h signals \<Rightarrow> 'h signals" where
  "set_handler i n h s = s\<lparr>handlers := (handlers s)(i := (handlers s i)(n := h))\<rparr>"

definition signal_install ::
  "u32 \<Rightarrow> 'h \<Rightarrow> ('h, 'u) sig_state \<Rightarrow> ((signal_error + unit) \<times> ('h, 'u) sig_state) option" where
  "signal_install signo h = (\<lambda>(k, s, u).
     if MAX_SIGNALS \<le> signo then Some (Inl InvalidSignal, k, s, u)
     else do {
       let (c, k) = mask_kernel k;
       assert_that (current_id k < MAX_THREADS);
       Some (Inr (), unmask_kernel c k, set_handler (current_id k) (unat signo) (Some h) s, u)
     })"

definition signal_uninstall ::
  "u32 \<Rightarrow> ('h, 'u) sig_state \<Rightarrow> ((signal_error + unit) \<times> ('h, 'u) sig_state) option" where
  "signal_uninstall signo = (\<lambda>(k, s, u).
     if MAX_SIGNALS \<le> signo then Some (Inl InvalidSignal, k, s, u)
     else do {
       let (c, k) = mask_kernel k;
       assert_that (current_id k < MAX_THREADS);
       Some (Inr (), unmask_kernel c k, set_handler (current_id k) (unat signo) None s, u)
     })"

definition signal_mask :: "u32 \<Rightarrow> kernel \<Rightarrow> (u32 \<times> kernel) option" where
  "signal_mask msk k = do {
     let (c, k) = mask_kernel k;
     r \<leftarrow> thread_sig_refs (current_id k) k;
     Some (case r of
         Some (p, m) \<Rightarrow> (m, unmask_kernel c (put_sig_refs (current_id k) (p, msk) k))
       | None \<Rightarrow> (0, unmask_kernel c k))
   }"

text \<open>The body of \<open>signal_send\<close> and of \<open>signal_send_from_isr\<close>: was a waiter woken?\<close>

definition post_signal :: "nat \<Rightarrow> u32 \<Rightarrow> ('h, 'u) sig_state \<Rightarrow> (bool \<times> ('h, 'u) sig_state) option" where
  "post_signal i signo = (\<lambda>(k, s, u). do {
     r \<leftarrow> thread_sig_refs i k;
     case r of
       None \<Rightarrow> Some (False, k, s, u)
     | Some (p, m) \<Rightarrow>
         let p = p OR bitm (unat signo); k = put_sig_refs i (p, m) k in
         if sig_waiters s AND bitm i \<noteq> 0 \<and> p AND NOT m AND sig_wait_mask s i \<noteq> 0 then do {
           k \<leftarrow> unblock_thread i k;
           Some (True, k, s\<lparr>sig_waiters := sig_waiters s AND NOT (bitm i)\<rparr>, u)
         } else Some (False, k, s, u)
   })"

definition signal_send ::
  "nat \<Rightarrow> u32 \<Rightarrow> ('h, 'u) sig_state \<Rightarrow> ((signal_error + unit) \<times> ('h, 'u) sig_state) option" where
  "signal_send i signo = (\<lambda>(k, s, u).
     if MAX_SIGNALS \<le> signo then Some (Inl InvalidSignal, k, s, u)
     else do {
       let (c, k) = mask_kernel k;
       (b, k, s, u) \<leftarrow> post_signal i signo (k, s, u);
       Some (Inr (), unmask_kernel c k, s, u)
     })"

definition signal_send_from_isr ::
  "nat \<Rightarrow> u32 \<Rightarrow> ('h, 'u) sig_state \<Rightarrow> (bool \<times> ('h, 'u) sig_state) option" where
  "signal_send_from_isr i signo ksu =
     (if MAX_SIGNALS \<le> signo then Some (False, ksu) else post_signal i signo ksu)"

text \<open>Take the lowest pending signal that is unmasked and in \<open>wm\<close> (all for \<open>signal_check\<close>).\<close>

definition pop_signal :: "nat \<Rightarrow> u32 \<Rightarrow> kernel \<Rightarrow> (u32 option \<times> kernel) option" where
  "pop_signal i wm k = do {
     r \<leftarrow> thread_sig_refs i k;
     Some (case r of
         None \<Rightarrow> (None, k)
       | Some (p, m) \<Rightarrow>
           let deliverable = p AND NOT m AND wm in
           if deliverable \<noteq> 0 then
             (let signo = word_of_nat (trailing_zeros deliverable)
              in (Some signo, put_sig_refs i (p AND NOT (bitm (unat signo)), m) k))
           else (None, k))
   }"

definition deliver_one :: "('h, 'u) invoker \<Rightarrow> nat \<Rightarrow> u32 \<Rightarrow> ('h, 'u) sig_state \<Rightarrow> ('h, 'u) sig_state option" where
  "deliver_one invoke i signo = (\<lambda>(k, s, u). do {
     assert_that (i < MAX_THREADS \<and> unat signo < 32);
     case handlers s i (unat signo) of Some h \<Rightarrow> invoke h signo (k, s, u) | None \<Rightarrow> Some (k, s, u)
   })"

definition signal_wait_enter ::
  "('h, 'u) invoker \<Rightarrow> u32 \<Rightarrow> u32 option \<Rightarrow> ('h, 'u) sig_state \<Rightarrow>
     (((signal_error + u32) + bool) \<times> ('h, 'u) sig_state) option" where
  "signal_wait_enter invoke wm tmo = (\<lambda>(k, s, u). do {
     let (c, k) = mask_kernel k;
     let i = current_id k;
     (r, k) \<leftarrow> pop_signal i wm k;
     case r of
       Some signo \<Rightarrow> do {
         ksu \<leftarrow> deliver_one invoke i signo (unmask_kernel c k, s, u);
         Some (Inl (Inr signo), ksu)
       }
     | None \<Rightarrow> do {
         let s = s\<lparr>sig_wait_mask := (sig_wait_mask s)(i := wm), sig_waiters := sig_waiters s OR bitm i\<rparr>;
         (sw, k) \<leftarrow> block_current tmo k;
         Some (Inr sw, k, s, u)
       }
   })"

definition signal_wait_resume ::
  "('h, 'u) invoker \<Rightarrow> nat \<Rightarrow> u32 \<Rightarrow> ('h, 'u) sig_state \<Rightarrow> ((signal_error + u32) \<times> ('h, 'u) sig_state) option" where
  "signal_wait_resume invoke i wm = (\<lambda>(k, s, u). do {
     let (c2, k) = mask_kernel k;
     err \<leftarrow> current_ipc_error k;
     if err \<noteq> IPC_OK
     then Some (Inl SignalTimeout, unmask_kernel c2 k, s\<lparr>sig_waiters := sig_waiters s AND NOT (bitm i)\<rparr>, u)
     else do {
       (r, k) \<leftarrow> pop_signal i wm k;
       let signo = (case r of Some n \<Rightarrow> n | None \<Rightarrow> 0);
       ksu \<leftarrow> deliver_one invoke i signo (unmask_kernel c2 k, s, u);
       Some (Inr signo, ksu)
     }
   })"

definition signal_wait ::
  "('h, 'u) invoker \<Rightarrow> (('h, 'u) sig_state \<Rightarrow> ('h, 'u) sig_state option) \<Rightarrow> u32 \<Rightarrow> u32 option \<Rightarrow>
     ('h, 'u) sig_state \<Rightarrow> ((signal_error + u32) \<times> ('h, 'u) sig_state) option" where
  "signal_wait invoke run wm tmo ksu = do {
     (r, ksu') \<leftarrow> signal_wait_enter invoke wm tmo ksu;
     case r of Inl res \<Rightarrow> Some (res, ksu')
     | Inr sw \<Rightarrow> do {
         ksu' \<leftarrow> resume_with run sw ksu';
         signal_wait_resume invoke (current_id (fst ksu)) wm ksu'
       }
   }"

text \<open>The loop of \<open>signal_check\<close>, with the thread id read before it.  A handler may send
  signals, so the loop need not end: then it is \<^term>\<open>None\<close>.\<close>

partial_function (option) signal_check_loop ::
  "('h, 'u) invoker \<Rightarrow> nat \<Rightarrow> ('h, 'u) sig_state \<Rightarrow> ('h, 'u) sig_state option" where
  "signal_check_loop invoke i ksu = (case ksu of (k, s, u) \<Rightarrow> do {
     let (c, k) = mask_kernel k;
     (r, k) \<leftarrow> pop_signal i (- 1) k;
     case r of
       Some signo \<Rightarrow> do {
         ksu \<leftarrow> deliver_one invoke i signo (unmask_kernel c k, s, u);
         signal_check_loop invoke i ksu
       }
     | None \<Rightarrow> Some (unmask_kernel c k, s, u)
   })"

definition signal_check :: "('h, 'u) invoker \<Rightarrow> ('h, 'u) sig_state \<Rightarrow> ('h, 'u) sig_state option" where
  "signal_check invoke ksu = signal_check_loop invoke (current_id (fst ksu)) ksu"

section \<open>Critical sections\<close>

text \<open>\<open>SpinLockGuard\<close>, \<open>SpinLock::with\<close> and \<open>critical\<close>: the guarded code is a parameter.\<close>

record spin_guard =
  guard_cpsr :: u32

definition spin_lock :: "kernel \<Rightarrow> spin_guard \<times> kernel" where
  "spin_lock k = (let (c, k) = mask_kernel k in (\<lparr>guard_cpsr = c\<rparr>, k))"

definition guard_drop :: "spin_guard \<Rightarrow> kernel \<Rightarrow> kernel" where
  "guard_drop g k = unmask_kernel (guard_cpsr g) k"

definition spin_with :: "(kernel \<Rightarrow> ('r \<times> kernel) option) \<Rightarrow> kernel \<Rightarrow> ('r \<times> kernel) option" where
  "spin_with f k = do {
     let (g, k) = spin_lock k;
     (r, k) \<leftarrow> f k;
     Some (r, guard_drop g k)
   }"

definition critical :: "(kernel \<Rightarrow> ('r \<times> kernel) option) \<Rightarrow> kernel \<Rightarrow> ('r \<times> kernel) option" where
  "critical f k = do {
     let (c, k) = mask_kernel k;
     (r, k) \<leftarrow> f k;
     Some (r, unmask_kernel c k)
   }"

lemma spin_with_critical: "spin_with = critical"
  by (intro ext) (simp add: spin_with_def critical_def spin_lock_def guard_drop_def mask_kernel_def)

lemma interrupts_enabled_bit: "interrupts_enabled c \<longleftrightarrow> \<not> bit c 7"
proof -
  have "bit (c AND I_BIT) n \<longleftrightarrow> n = 7 \<and> bit c 7" for n by (auto simp: I_BIT_def bit_simps)
  then show ?thesis unfolding interrupts_enabled_def by (metis bit_0_eq bot_apply bot_bool_def bit_eqI)
qed

lemma critical_restores:
  assumes "critical f k = Some (r, k')"
  shows "interrupts_enabled (cpsr k') = interrupts_enabled (cpsr k)"
    and "\<exists>k1. f (k\<lparr>cpsr := cpsr k OR NOINT\<rparr>) = Some (r, k1) \<and> k' = k1\<lparr>cpsr := cpsr k'\<rparr>"
  using assms by (auto simp: critical_def mask_kernel_def unmask_kernel_def interrupts_enabled_bit
      interrupt_enable_def msr_cpsr_c_def bit_simps split: bind_splits)

section \<open>Facts about the pending words\<close>

lemma sig_refs_Some: "i < 32 \<Longrightarrow> threads k i = Some t \<Longrightarrow> thread_sig_refs i k = Some (Some (sig_pending t, sig_mask t))"
  by (simp add: thread_sig_refs_def)

lemma put_sig_refs_eq:
  "threads k i = Some t \<Longrightarrow> put_sig_refs i (p, m) k = set_thread i (t\<lparr>sig_pending := p, sig_mask := m\<rparr>) k"
  by (simp add: put_sig_refs_def update_slot_def)

lemma set_thread_cpsr: "set_thread i t (k\<lparr>cpsr := c\<rparr>) = (set_thread i t k)\<lparr>cpsr := c\<rparr>"
  by (simp add: set_thread_def)

lemma set_thread_own_cpsr: "(set_thread i t k)\<lparr>cpsr := cpsr k\<rparr> = set_thread i t k"
  by (simp add: set_thread_def)

lemma set_thread_twice: "set_thread i t (set_thread i t' k) = set_thread i t k"
  by (simp add: set_thread_def)

lemma filter_bits_Cons:
  assumes "d \<noteq> (0 :: u32)"
  shows "filter (bit d) [0..<32] = trailing_zeros d # filter (bit (d AND NOT (bitm (trailing_zeros d)))) [0..<32]"
proof -
  let ?n = "trailing_zeros d" and ?d = "d AND NOT (bitm (trailing_zeros d))"
  note tz = trailing_zeros_lt [OF assms]
  have b: "bit ?d j \<longleftrightarrow> bit d j \<and> j \<noteq> ?n" for j using tz(1) by (auto simp: bit_simps dest: bit_u32_len)
  have "[0..<32] = [0..<?n] @ ?n # [Suc ?n..<32]"
    using tz(1) upt_add_eq_append [of 0 ?n "32 - ?n"] by (simp add: upt_conv_Cons)
  moreover have "filter (bit d) [0..<?n] = []" "filter (bit ?d) [0..<?n] = []"
    using tz(3) b by (auto simp: filter_empty_conv)
  moreover have "filter (bit d) [Suc ?n..<32] = filter (bit ?d) [Suc ?n..<32]"
    by (rule filter_cong) (auto simp: b)
  ultimately show ?thesis using tz(2) b by simp
qed

section \<open>Properties\<close>

definition pend :: "u32 \<Rightarrow> thread \<Rightarrow> thread" where
  "pend signo t = t\<lparr>sig_pending := sig_pending t OR bitm (unat signo)\<rparr>"

definition awaited :: "'h signals \<Rightarrow> nat \<Rightarrow> thread \<Rightarrow> bool" where
  "awaited s i t \<longleftrightarrow> bit (sig_waiters s) i \<and> sig_pending t AND NOT (sig_mask t) AND sig_wait_mask s i \<noteq> 0"

lemma and_bitm_nonzero: "i < 32 \<Longrightarrow> w AND bitm i \<noteq> 0 \<longleftrightarrow> bit w i"
proof -
  assume "i < 32"
  then have "bit (w AND bitm i) n \<longleftrightarrow> n = i \<and> bit w i" for n by (auto simp: bit_simps)
  then show ?thesis by (metis bit_0_eq bot_apply bot_bool_def bit_eqI)
qed

text \<open>What \<open>unblock_thread\<close> leaves of the threads, whether the target waits or not.\<close>

lemma unblock_threads:
  assumes "sys_ok k" "threads k i = Some t" "i < 32"
  shows "\<exists>k1. unblock_thread i k = Some k1 \<and> cpsr k1 = cpsr k \<and> threads k1 = (threads k)(i \<mapsto> if ipc_waiting t
    then t\<lparr>ipc_error := IPC_OK, is_ipc_wait := False, sleep_until := 0, t_state := Ready\<rparr> else t)"
proof (cases "ipc_waiting t")
  case True
  from unblock_wakes [OF assms(1,2) True] obtain k1 where k1: "unblock_thread i k = Some k1"
    "threads k1 = (threads k)(i := Some (t\<lparr>ipc_error := IPC_OK, is_ipc_wait := False, sleep_until := 0, t_state := Ready\<rparr>))"
    by auto
  then show ?thesis using unblock_cpsr(1) [of i k k1] True by (intro exI [of _ k1]) simp
next
  case False
  then have "unblock_thread i k = Some k" using unblock_idle [OF assms(3), of k] assms(2) by simp
  then show ?thesis using False assms(2) by (intro exI [of _ k]) (auto simp: fun_eq_iff)
qed

text \<open>C34. Sending a signal to a live thread sets exactly its bit of that thread's pending
  word, leaves every other thread, the masks and the interrupt state alone, and wakes
  the target exactly when it is registered for an unmasked pending signal: then it is
  taken off the mask of waiters and, if it is blocked, made ready with the success code.\<close>

theorem signal_send_delivers:
  assumes "reachable k" "threads k i = Some t" "signo < 32"
  shows "\<exists>k'. signal_send i signo (k, s, u) =
      Some (Inr (), k', if awaited s i (pend signo t) then s\<lparr>sig_waiters := sig_waiters s AND NOT (bitm i)\<rparr> else s, u) \<and>
     cpsr k' = cpsr k \<and>
     threads k' = (threads k)(i \<mapsto> if awaited s i (pend signo t) \<and> ipc_waiting t
       then (pend signo t)\<lparr>ipc_error := IPC_OK, is_ipc_wait := False, sleep_until := 0, t_state := Ready\<rparr>
       else pend signo t)"
proof -
  have ok: "sys_ok k" by (rule reachable_ok [OF assms(1)])
  have i: "i < 32" using slot_thread [OF sys_okD(1) [OF ok] assms(2)] by simp
  let ?p = "sig_pending t OR bitm (unat signo)"
  define t1 where t1_def_raw: "t1 = pend signo t"
  have t1_def: "t1 = t\<lparr>sig_pending := ?p\<rparr>" by (simp add: t1_def_raw pend_def)
  define hit where hit_raw: "hit = awaited s i t1"
  have hit_def: "hit \<longleftrightarrow> bit (sig_waiters s) i \<and> ?p AND NOT (sig_mask t) AND sig_wait_mask s i \<noteq> 0"
    by (simp add: hit_raw awaited_def t1_def)
  let ?k = "set_thread i t1 (k\<lparr>cpsr := cpsr k OR NOINT\<rparr>)"
  have put: "put_sig_refs i (?p, sig_mask t) (k\<lparr>cpsr := cpsr k OR NOINT\<rparr>) = ?k"
    using put_sig_refs_eq [of "k\<lparr>cpsr := cpsr k OR NOINT\<rparr>" i t ?p "sig_mask t"] assms(2)
    by (simp add: t1_def)
  note w = and_bitm_nonzero [OF i, of "sig_waiters s"]
  have ok1: "sys_ok ?k"
    using put put_sig_refs_ok [of "k\<lparr>cpsr := cpsr k OR NOINT\<rparr>" i "(?p, sig_mask t)"] ok by simp
  have post: "post_signal i signo (k\<lparr>cpsr := cpsr k OR NOINT\<rparr>, s, u) =
     (if hit then map_option (\<lambda>k. (True, k, s\<lparr>sig_waiters := sig_waiters s AND NOT (bitm i)\<rparr>, u)) (unblock_thread i ?k)
      else Some (False, ?k, s, u))"
    using i assms(2) put w by (auto simp: post_signal_def sig_refs_Some Let_def hit_def map_option_case split: option.splits)
  have t1: "threads ?k i = Some t1" "ipc_waiting t1 = ipc_waiting t"
    by (simp_all add: t1_def ipc_waiting_def set_thread_def)
  obtain k1 where k1: "unblock_thread i ?k = Some k1" and c1: "cpsr k1 = cpsr k OR NOINT"
    and th: "threads k1 = (threads k)(i \<mapsto> if ipc_waiting t
       then t1\<lparr>ipc_error := IPC_OK, is_ipc_wait := False, sleep_until := 0, t_state := Ready\<rparr> else t1)"
    using unblock_threads [OF ok1 t1(1) i] t1(2) by (auto simp: set_thread_def)
  have lt: "\<not> MAX_SIGNALS \<le> signo" using assms(3) by (simp add: MAX_SIGNALS_def)
  show ?thesis
  proof (cases hit)
    case True
    then show ?thesis using post k1 c1 th lt
      by (simp add: signal_send_def mask_kernel_def unmask_kernel_def flip: t1_def_raw hit_raw)
  next
    case False
    then show ?thesis using post lt
      by (simp add: signal_send_def mask_kernel_def unmask_kernel_def set_thread_def flip: t1_def_raw hit_raw)
  qed
qed

theorem signal_send_delivers_witness:
  "\<exists>k' t'. signal_send 0 5 (waits_0, signals_init\<lparr>sig_wait_mask := (\<lambda>_. - 1), sig_waiters := 1\<rparr>, ()) =
     Some (Inr (), k', signals_init\<lparr>sig_wait_mask := (\<lambda>_. - 1), sig_waiters := 1 AND NOT (bitm 0)\<rparr>, ()) \<and>
     threads k' 0 = Some t' \<and> t_state t' = Ready \<and> bit (sig_pending t') 5"
proof -
  obtain t where t: "threads waits_0 0 = Some t" "ipc_waiting t" using waits_0_thread by blast
  have m: "sig_mask t = 0"
  proof -
    have "(case threads waits_0 0 of Some t \<Rightarrow> sig_mask t = 0 | None \<Rightarrow> False)" by code_simp
    then show ?thesis using t by simp
  qed
  have "bit ((sig_pending t OR bitm 5) AND NOT (sig_mask t) AND - 1) 5" using m by (simp add: bit_simps)
  then have h: "(sig_pending t OR bitm 5) AND NOT (sig_mask t) AND - 1 \<noteq> 0" by fastforce
  have "unat (5 :: u32) = 5" by simp
  then show ?thesis
    using signal_send_delivers [OF waits_0_reachable t(1), of 5 "signals_init\<lparr>sig_wait_mask := (\<lambda>_. - 1), sig_waiters := 1\<rparr>" "()"] h t(2)
    by (auto simp: bit_simps awaited_def pend_def)
qed

definition deliver_to :: "('h \<Rightarrow> u32 \<Rightarrow> 'u \<Rightarrow> 'u) \<Rightarrow> (nat \<Rightarrow> 'h option) \<Rightarrow> nat \<Rightarrow> 'u \<Rightarrow> 'u" where
  "deliver_to effect hs n u = (case hs n of Some h \<Rightarrow> effect h (word_of_nat n) u | None \<Rightarrow> u)"

lemma pop_signal_some:
  assumes "i < 32" "threads k i = Some t" "sig_pending t AND NOT (sig_mask t) \<noteq> 0"
  defines "n \<equiv> trailing_zeros (sig_pending t AND NOT (sig_mask t))"
  shows "pop_signal i (- 1) k = Some (Some (word_of_nat n), set_thread i (t\<lparr>sig_pending := sig_pending t AND NOT (bitm n)\<rparr>) k)"
    and "unat (word_of_nat n :: u32) = n" and "n < 32"
proof -
  show n: "n < 32" using trailing_zeros_lt(1) [OF assms(3)] by (simp add: n_def)
  then show u: "unat (word_of_nat n :: u32) = n" by (simp add: unsigned_of_nat take_bit_nat_eq_self)
  show "pop_signal i (- 1) k = Some (Some (word_of_nat n), set_thread i (t\<lparr>sig_pending := sig_pending t AND NOT (bitm n)\<rparr>) k)"
    using assms(1-3) u by (simp add: pop_signal_def sig_refs_Some Let_def n_def put_sig_refs_eq)
qed

lemma signal_check_loop_drains:
  assumes pure: "\<And>h n k s u. invoke h n (k, s, u) = Some (k, s, effect h n u)" and i: "i < 32"
  shows "threads k i = Some t \<Longrightarrow> signal_check_loop invoke i (k, s, u) =
     Some (set_thread i (t\<lparr>sig_pending := sig_pending t AND sig_mask t\<rparr>) k, s,
       fold (deliver_to effect (handlers s i)) (filter (bit (sig_pending t AND NOT (sig_mask t))) [0..<32]) u)"
proof (induction "length (filter (bit (sig_pending t AND NOT (sig_mask t))) [0..<32])" arbitrary: k t u)
  case 0
  let ?d = "sig_pending t AND NOT (sig_mask t)"
  have d: "?d = 0" using 0(1) filter_bits_Cons [of ?d] by (metis list.size(3) list.distinct(1) length_0_conv)
  have m: "sig_pending t AND sig_mask t = sig_pending t"
  proof (rule bit_word_eqI)
    fix n assume "n < LENGTH(32)"
    have "\<not> bit ?d n" using d by simp
    then show "bit (sig_pending t AND sig_mask t) n = bit (sig_pending t) n" by (auto simp: bit_simps dest: bit_u32_len)
  qed
  have "pop_signal i (- 1) (k\<lparr>cpsr := cpsr k OR NOINT\<rparr>) = Some (None, k\<lparr>cpsr := cpsr k OR NOINT\<rparr>)"
    using d i 0(2) by (simp add: pop_signal_def sig_refs_Some)
  moreover have "set_thread i (t\<lparr>sig_pending := sig_pending t AND sig_mask t\<rparr>) k = k"
    unfolding m using set_thread_same [OF 0(2)] by simp
  ultimately show ?case using 0(1)
    by (subst signal_check_loop.simps) (simp add: mask_kernel_def unmask_kernel_def)
next
  case (Suc l)
  let ?d = "sig_pending t AND NOT (sig_mask t)" and ?k = "k\<lparr>cpsr := cpsr k OR NOINT\<rparr>"
  have d: "?d \<noteq> 0"
  proof
    assume "?d = 0"
    then show False using Suc(2) by simp
  qed
  define n where "n = trailing_zeros ?d"
  let ?t = "t\<lparr>sig_pending := sig_pending t AND NOT (bitm n)\<rparr>"
  have pop: "pop_signal i (- 1) ?k = Some (Some (word_of_nat n), set_thread i ?t ?k)"
    "unat (word_of_nat n :: u32) = n" "n < 32"
    unfolding n_def using pop_signal_some [OF i _ d, of ?k] Suc(3) by simp_all
  have bits: "\<not> bit (sig_mask t) n" using trailing_zeros_lt(2) [OF d] by (simp add: n_def bit_simps)
  have d': "sig_pending ?t AND NOT (sig_mask ?t) = ?d AND NOT (bitm n)"
    by (rule bit_word_eqI) (auto simp: bit_simps)
  have p': "sig_pending ?t AND sig_mask ?t = sig_pending t AND sig_mask t"
    by (rule bit_word_eqI) (use bits pop(3) in \<open>auto simp: bit_simps\<close>)
  have f: "filter (bit ?d) [0..<32] = n # filter (bit (?d AND NOT (bitm n))) [0..<32]"
    unfolding n_def by (rule filter_bits_Cons [OF d])
  have th: "threads (set_thread i ?t k) i = Some ?t" by (simp add: set_thread_def)
  have dl: "deliver_one invoke i (word_of_nat n) (set_thread i ?t k, s, u) =
      Some (set_thread i ?t k, s, deliver_to effect (handlers s i) n u)"
    using pop(2,3) i pure by (simp add: deliver_one_def deliver_to_def MAX_THREADS_def split: option.splits)
  have "signal_check_loop invoke i (k, s, u) =
      signal_check_loop invoke i (set_thread i ?t k, s, deliver_to effect (handlers s i) n u)"
    using pop(1) dl
    by (subst signal_check_loop.simps) (simp add: mask_kernel_def unmask_kernel_def set_thread_cpsr set_thread_own_cpsr)
  also have "\<dots> = Some (set_thread i (t\<lparr>sig_pending := sig_pending t AND sig_mask t\<rparr>) k, s,
       fold (deliver_to effect (handlers s i)) (filter (bit ?d) [0..<32]) u)"
  proof -
    have "l = length (filter (bit (sig_pending ?t AND NOT (sig_mask ?t))) [0..<32])"
      unfolding d' using Suc(2) f by simp
    from Suc(1) [OF this th] show ?thesis
      unfolding d' p' f by (simp add: set_thread_twice)
  qed
  finally show ?case .
qed

text \<open>With handlers that touch neither the scheduler nor the signal tables,
  \<open>signal_check\<close> ends: it runs the handlers of exactly the pending unmasked signals, once
  each and in ascending order, leaves the masked ones pending and the interrupt state
  as it was.\<close>

theorem signal_check_drains:
  assumes "reachable k" "threads k (current_id k) = Some t"
    and "\<And>h n k s u. invoke h n (k, s, u) = Some (k, s, effect h n u)"
  shows "signal_check invoke (k, s, u) =
     Some (set_thread (current_id k) (t\<lparr>sig_pending := sig_pending t AND sig_mask t\<rparr>) k, s,
       fold (deliver_to effect (handlers s (current_id k)))
         (filter (bit (sig_pending t AND NOT (sig_mask t))) [0..<32]) u)"
  using signal_check_loop_drains [OF assms(3) _ assms(2)]
    slot_thread [OF sys_okD(1) [OF reachable_ok [OF assms(1)]] assms(2)]
  by (simp add: signal_check_def)

definition log_handler :: "('h, u32 list) invoker" where
  "log_handler h n = (\<lambda>(k, s, u). Some (k, s, u @ [n]))"

theorem signal_check_drains_witness:
  "\<exists>k'. signal_check (log_handler :: (unit, u32 list) invoker) (three_up, signals_init, []) = Some (k', signals_init, [])"
proof -
  have "threads three_up (current_id three_up) \<noteq> None" by code_simp
  then obtain t where t: "threads three_up (current_id three_up) = Some t" by blast
  have e: "(log_handler :: (unit, u32 list) invoker) h n (k, s, u) = Some (k, s, u @ [n])" for h n k s u
    by (simp add: log_handler_def)
  have "fold (deliver_to (\<lambda>h n u. u @ [n]) (handlers (signals_init :: unit signals) i)) xs u = u" for i xs u
    by (induction xs arbitrary: u) (simp_all add: deliver_to_def signals_init_def)
  then show ?thesis
    using signal_check_drains [OF three_up_reachable t, of log_handler "\<lambda>h n u. u @ [n]" signals_init "[]", OF e] by simp
qed

end
