(* ===== verification/Mmu.thy ===== *)
theory Mmu
  imports Cpu
begin

text \<open>
  \<open>mmu.rs\<close>: the level-1 page table of section descriptors, the control bits, cache
  maintenance by range and the initialisation sequence.  The static table is part of the
  state; its address, fixed by the linker, is the field \<open>table_base\<close>.
\<close>

definition CACHE_LINE_SIZE :: u32 where "CACHE_LINE_SIZE = 32"
definition PAGE_TABLE_ENTRIES :: nat where "PAGE_TABLE_ENTRIES = 4096"
definition DESC_SEC :: u32 where "DESC_SEC = 0x2 OR bitm 4"
definition attr_CB :: u32 where "attr_CB = push_bit 2 3"
definition attr_CNB :: u32 where "attr_CNB = push_bit 2 2"
definition attr_NCB :: u32 where "attr_NCB = push_bit 2 1"
definition attr_NCNB :: u32 where "attr_NCNB = push_bit 2 0"
definition AP_RW :: u32 where "AP_RW = push_bit 10 3"
definition AP_RO :: u32 where "AP_RO = push_bit 10 2"
definition DOMAIN0 :: u32 where "DOMAIN0 = push_bit 5 0"
definition DOMAIN1 :: u32 where "DOMAIN1 = push_bit 5 1"
definition RW_CB :: u32 where "RW_CB = AP_RW OR DOMAIN0 OR attr_CB OR DESC_SEC"
definition RW_CNB :: u32 where "RW_CNB = AP_RW OR DOMAIN0 OR attr_CNB OR DESC_SEC"
definition RW_NCNB :: u32 where "RW_NCNB = AP_RW OR DOMAIN0 OR attr_NCB OR DESC_SEC"
definition RW_FAULT :: u32 where "RW_FAULT = AP_RW OR DOMAIN1 OR attr_NCB OR DESC_SEC"

record mem_desc =
  vaddr_start :: u32
  vaddr_end :: u32
  paddr_start :: u32
  md_attr :: u32

definition mem_desc_new :: "u32 \<Rightarrow> u32 \<Rightarrow> u32 \<Rightarrow> u32 \<Rightarrow> mem_desc" where
  "mem_desc_new vs ve ps at = \<lparr>vaddr_start = vs, vaddr_end = ve, paddr_start = ps, md_attr = at\<rparr>"

type_synonym page_table = "u32 list"

definition page_table_new :: page_table where
  "page_table_new = replicate PAGE_TABLE_ENTRIES 0"

text \<open>The loop over \<open>(start_sec..=end_sec).enumerate()\<close>.\<close>

fun fill_sections :: "u32 \<Rightarrow> u32 \<Rightarrow> nat \<Rightarrow> nat list \<Rightarrow> page_table \<Rightarrow> page_table option" where
  "fill_sections paddr_base at i [] t = Some t"
| "fill_sections paddr_base at i (sec # secs) t = do {
     t \<leftarrow> slice_set t sec (at OR push_bit 20 (paddr_base + word_of_nat i));
     fill_sections paddr_base at (Suc i) secs t
   }"

definition set_mapping :: "u32 \<Rightarrow> u32 \<Rightarrow> u32 \<Rightarrow> u32 \<Rightarrow> page_table \<Rightarrow> page_table option" where
  "set_mapping vs ve ps at =
     fill_sections (drop_bit 20 ps) at 0 [unat (drop_bit 20 vs)..<Suc (unat (drop_bit 20 ve))]"

definition set_mapping_from_desc :: "mem_desc \<Rightarrow> page_table \<Rightarrow> page_table option" where
  "set_mapping_from_desc d = set_mapping (vaddr_start d) (vaddr_end d) (paddr_start d) (md_attr d)"

fun set_mappings :: "mem_desc list \<Rightarrow> page_table \<Rightarrow> page_table option" where
  "set_mappings [] t = Some t"
| "set_mappings (d # ds) t = do { t \<leftarrow> set_mapping_from_desc d t; set_mappings ds t }"

section \<open>Control bits\<close>

definition enable_mmu :: "cp15 \<Rightarrow> cp15" where
  "enable_mmu c = cp15_write_ctrl (cp15_read_ctrl c OR MMU_ENABLE) c"
definition disable_mmu :: "cp15 \<Rightarrow> cp15" where
  "disable_mmu c = cp15_write_ctrl (cp15_read_ctrl c AND NOT MMU_ENABLE) c"
definition enable_icache :: "cp15 \<Rightarrow> cp15" where
  "enable_icache c = cp15_write_ctrl (cp15_read_ctrl c OR ICACHE_ENABLE) c"
definition disable_icache :: "cp15 \<Rightarrow> cp15" where
  "disable_icache c = cp15_write_ctrl (cp15_read_ctrl c AND NOT ICACHE_ENABLE) c"
definition enable_dcache :: "cp15 \<Rightarrow> cp15" where
  "enable_dcache c = cp15_write_ctrl (cp15_read_ctrl c OR DCACHE_ENABLE) c"
definition disable_dcache :: "cp15 \<Rightarrow> cp15" where
  "disable_dcache c = cp15_write_ctrl (cp15_read_ctrl c AND NOT DCACHE_ENABLE) c"
definition enable_align_fault :: "cp15 \<Rightarrow> cp15" where
  "enable_align_fault c = cp15_write_ctrl (cp15_read_ctrl c OR ALIGN_FAULT) c"
definition disable_align_fault :: "cp15 \<Rightarrow> cp15" where
  "disable_align_fault c = cp15_write_ctrl (cp15_read_ctrl c AND NOT ALIGN_FAULT) c"
definition icache_status :: "cp15 \<Rightarrow> bool" where
  "icache_status c \<longleftrightarrow> cp15_read_ctrl c AND ICACHE_ENABLE \<noteq> 0"
definition dcache_status :: "cp15 \<Rightarrow> bool" where
  "dcache_status c \<longleftrightarrow> cp15_read_ctrl c AND DCACHE_ENABLE \<noteq> 0"
definition mmu_status :: "cp15 \<Rightarrow> bool" where
  "mmu_status c \<longleftrightarrow> cp15_read_ctrl c AND MMU_ENABLE \<noteq> 0"

section \<open>Cache maintenance by range\<close>

text \<open>The three range operations are the same loop over the lines; \<open>op\<close> is the CP15
  operation on one line.  Addresses wrap around, so the loop need not end.\<close>

partial_function (option) line_loop :: "(u32 \<Rightarrow> cp15 \<Rightarrow> cp15) \<Rightarrow> u32 \<Rightarrow> u32 \<Rightarrow> cp15 \<Rightarrow> cp15 option" where
  "line_loop opn ptr fin c =
     (if ptr < fin then line_loop opn (ptr + CACHE_LINE_SIZE) fin (opn ptr c) else Some c)"

definition dcache_range :: "(u32 \<Rightarrow> cp15 \<Rightarrow> cp15) \<Rightarrow> u32 \<Rightarrow> u32 \<Rightarrow> cp15 \<Rightarrow> cp15 option" where
  "dcache_range opn buffer sz =
     line_loop opn (buffer AND NOT (CACHE_LINE_SIZE - 1)) (buffer + sz)"

definition clean_dcache :: "u32 \<Rightarrow> u32 \<Rightarrow> cp15 \<Rightarrow> cp15 option" where
  "clean_dcache = dcache_range clean_dcache_mva"
definition invalidate_dcache :: "u32 \<Rightarrow> u32 \<Rightarrow> cp15 \<Rightarrow> cp15 option" where
  "invalidate_dcache = dcache_range invalidate_dcache_mva"
definition clean_invalidate_dcache :: "u32 \<Rightarrow> u32 \<Rightarrow> cp15 \<Rightarrow> cp15 option" where
  "clean_invalidate_dcache = dcache_range clean_invalidate_dcache_mva"

section \<open>Initialisation\<close>

record mmu_state =
  ms_cp15 :: cp15
  ms_table :: page_table
  table_base :: u32

definition on_cp15 :: "(cp15 \<Rightarrow> cp15) \<Rightarrow> mmu_state \<Rightarrow> mmu_state" where
  "on_cp15 f s = s\<lparr>ms_cp15 := f (ms_cp15 s)\<rparr>"

definition set_ttb :: "mmu_state \<Rightarrow> mmu_state" where
  "set_ttb s = on_cp15 (cp15_write_ttbr0 (table_base s))
     (on_cp15 (cp15_write_dacr 0x55555555) (on_cp15 invalidate_tlb s))"

definition mmu_init :: "mem_desc list \<Rightarrow> mmu_state \<Rightarrow> mmu_state option" where
  "mmu_init mdesc s = do {
     let s = on_cp15 (\<lambda>c. invalidate_tlb (disable_mmu (disable_icache (disable_dcache c)))) s;
     t \<leftarrow> set_mappings mdesc (ms_table s);
     let s = s\<lparr>ms_table := t\<rparr>;
     let s = on_cp15 (\<lambda>c. invalidate_icache (invalidate_dcache_all c)) s;
     let s = set_ttb s;
     let s = on_cp15 (\<lambda>c. enable_dcache (enable_icache (enable_mmu c))) s;
     Some (on_cp15 (\<lambda>c. invalidate_dcache_all (invalidate_icache c)) s)
   }"

section \<open>The mapping\<close>

text \<open>What the walk of the hardware does with a section descriptor: bits 31 to 20 replace
  those of the virtual address.\<close>

definition section_lookup :: "page_table \<Rightarrow> u32 \<Rightarrow> u32" where
  "section_lookup t va = t ! unat (drop_bit 20 va)"

definition translate :: "page_table \<Rightarrow> u32 \<Rightarrow> u32" where
  "translate t va = (section_lookup t va AND NOT (mask 20)) OR (va AND mask 20)"

definition covers :: "mem_desc \<Rightarrow> u32 \<Rightarrow> bool" where
  "covers d va \<longleftrightarrow> drop_bit 20 (vaddr_start d) \<le> drop_bit 20 va \<and> drop_bit 20 va \<le> drop_bit 20 (vaddr_end d)"

definition desc_entry :: "mem_desc \<Rightarrow> u32 \<Rightarrow> u32" where
  "desc_entry d va = md_attr d OR
     push_bit 20 (drop_bit 20 (paddr_start d) + (drop_bit 20 va - drop_bit 20 (vaddr_start d)))"

lemma section_lt: "unat (drop_bit 20 (va :: u32)) < 4096"
proof -
  have "unat (drop_bit 20 va) = unat va div 2 ^ 20" by (simp add: drop_bit_eq_div unat_div)
  then show ?thesis using unat_u32 [of va] by (simp add: div_less_iff_less_mult)
qed

lemma fill_sections_eq:
  "b \<le> length t \<Longrightarrow> \<exists>t'. fill_sections pb at i [a..<b] t = Some t' \<and> length t' = length t \<and>
     (\<forall>s. t' ! s = (if a \<le> s \<and> s < b then at OR push_bit 20 (pb + word_of_nat (i + (s - a))) else t ! s))"
proof (induction "b - a" arbitrary: a i t)
  case 0
  then have "[a..<b] = []" by simp
  then show ?case using 0 by auto
next
  case (Suc l)
  then have ab: "a < b" "l = b - Suc a" by simp_all
  let ?t = "t[a := at OR push_bit 20 (pb + word_of_nat i)]"
  from Suc(1) [OF ab(2), of ?t "Suc i"] Suc(3) obtain t' where
    t': "fill_sections pb at (Suc i) [Suc a..<b] ?t = Some t'" "length t' = length t"
    "\<And>s. t' ! s = (if Suc a \<le> s \<and> s < b then at OR push_bit 20 (pb + word_of_nat (Suc i + (s - Suc a))) else ?t ! s)"
    by auto
  have "t' ! s = (if a \<le> s \<and> s < b then at OR push_bit 20 (pb + word_of_nat (i + (s - a))) else t ! s)" for s
  proof (cases "s = a")
    case True
    then show ?thesis using t'(3) [of s] ab Suc(3) by simp
  next
    case False
    then show ?thesis using t'(3) [of s] ab by (simp add: Suc_diff_Suc)
  qed
  then show ?case using t' ab Suc(3) by (auto simp: upt_conv_Cons)
qed

lemma set_mapping_eq:
  assumes "length t = 4096"
  shows "\<exists>t'. set_mapping_from_desc d t = Some t' \<and> length t' = 4096 \<and>
     (\<forall>va. section_lookup t' va = (if covers d va then desc_entry d va else section_lookup t va))"
proof -
  let ?a = "unat (drop_bit 20 (vaddr_start d))" and ?b = "Suc (unat (drop_bit 20 (vaddr_end d)))"
  have "?b \<le> length t" using section_lt [of "vaddr_end d"] assms by simp
  from fill_sections_eq [OF this, of "drop_bit 20 (paddr_start d)" "md_attr d" 0 ?a] obtain t' where
    t': "set_mapping_from_desc d t = Some t'" "length t' = 4096" and
    s: "\<And>s. t' ! s = (if ?a \<le> s \<and> s < ?b then md_attr d OR
        push_bit 20 (drop_bit 20 (paddr_start d) + word_of_nat (0 + (s - ?a))) else t ! s)"
    using assms by (auto simp: set_mapping_from_desc_def set_mapping_def)
  have "section_lookup t' va = (if covers d va then desc_entry d va else section_lookup t va)" for va
  proof (cases "covers d va")
    case True
    then have le: "?a \<le> unat (drop_bit 20 va)" "unat (drop_bit 20 va) < ?b"
      by (simp_all add: covers_def word_le_nat_alt)
    have "word_of_nat (unat (drop_bit 20 va) - ?a) = drop_bit 20 va - drop_bit 20 (vaddr_start d)"
      using le(1) by (simp add: of_nat_diff)
    then show ?thesis using le True by (simp add: section_lookup_def s desc_entry_def)
  next
    case False
    then have "\<not> (?a \<le> unat (drop_bit 20 va) \<and> unat (drop_bit 20 va) < ?b)"
      by (simp add: covers_def word_le_nat_alt less_Suc_eq_le)
    then show ?thesis using False by (auto simp: section_lookup_def s)
  qed
  then show ?thesis using t' by blast
qed

lemma set_mappings_eq:
  "length t = 4096 \<Longrightarrow> \<exists>t'. set_mappings ds t = Some t' \<and> length t' = 4096 \<and>
     (\<forall>va. section_lookup t' va = (case find (\<lambda>d. covers d va) (rev ds) of
        Some d \<Rightarrow> desc_entry d va | None \<Rightarrow> section_lookup t va))"
proof (induction ds arbitrary: t)
  case (Cons d ds)
  obtain t1 where t1: "set_mapping_from_desc d t = Some t1" "length t1 = 4096"
    "\<And>va. section_lookup t1 va = (if covers d va then desc_entry d va else section_lookup t va)"
    using set_mapping_eq [OF Cons.prems, of d] by blast
  from Cons.IH [OF t1(2)] obtain t2 where t2: "set_mappings ds t1 = Some t2" "length t2 = 4096"
    "\<And>va. section_lookup t2 va = (case find (\<lambda>d. covers d va) (rev ds) of
        Some d \<Rightarrow> desc_entry d va | None \<Rightarrow> section_lookup t1 va)" by blast
  have "find p (xs @ [x]) = (case find p xs of Some y \<Rightarrow> Some y | None \<Rightarrow> if p x then Some x else None)"
    for p :: "mem_desc \<Rightarrow> bool" and xs x by (induction xs) simp_all
  then show ?case using t1 t2 by (auto split: option.splits)
qed simp

lemma page_of: "push_bit 20 (drop_bit 20 w) = w AND NOT (mask 20 :: u32)"
  by (rule bit_word_eqI) (auto simp: bit_simps)

lemma disjoint_or: "(\<And>n. \<not> bit a n \<or> \<not> bit b n) \<Longrightarrow> a + b = a OR (b :: u32)"
  by (rule disjunctive_add_eq_or, rule bit_word_eqI) (auto simp: bit_simps)

lemma page_split: "(w :: u32) = push_bit 20 (drop_bit 20 w) + (w AND mask 20)"
proof -
  have "push_bit 20 (drop_bit 20 w) + (w AND mask 20) = push_bit 20 (drop_bit 20 w) OR (w AND mask 20)"
    by (rule disjoint_or) (auto simp: bit_simps)
  also have "\<dots> = w" by (rule bit_word_eqI) (auto simp: bit_simps)
  finally show ?thesis by simp
qed

lemma push_bit_add_u32: "push_bit 20 (a + b) = push_bit 20 a + push_bit 20 (b :: u32)"
  "push_bit 20 (a - b) = push_bit 20 a - push_bit 20 (b :: u32)"
  by (simp_all add: push_bit_eq_mult algebra_simps)

text \<open>The physical address: the offset of the address from the section of the start of the
  mapping, added to the section of its physical start.\<close>

lemma translate_entry:
  assumes "section_lookup t va = desc_entry d va" "md_attr d < 2 ^ 20"
  shows "translate t va = (paddr_start d AND NOT (mask 20)) + (va - (vaddr_start d AND NOT (mask 20)))"
proof -
  let ?p = "push_bit 20 (drop_bit 20 (paddr_start d) + (drop_bit 20 va - drop_bit 20 (vaddr_start d)))"
  have at: "20 \<le> i \<Longrightarrow> \<not> bit (md_attr d) i" for i
  proof -
    have "unat (md_attr d) < 2 ^ 20" using assms(2) by (simp add: word_less_nat_alt)
    then have "take_bit 20 (md_attr d) = md_attr d"
      by (intro unsigned_word_eqI [where 'a = nat]) (simp add: unsigned_take_bit_eq take_bit_nat_eq_self)
    then show "20 \<le> i \<Longrightarrow> \<not> bit (md_attr d) i" by (metis bit_take_bit_iff not_le)
  qed
  have "translate t va = ?p OR (va AND mask 20)"
    unfolding translate_def assms(1) desc_entry_def
    by (rule bit_word_eqI) (auto simp: bit_simps at)
  also have "\<dots> = ?p + (va AND mask 20)" by (rule disjoint_or [symmetric]) (auto simp: bit_simps)
  also have "\<dots> = (paddr_start d AND NOT (mask 20)) + (push_bit 20 (drop_bit 20 va) + (va AND mask 20)
      - (vaddr_start d AND NOT (mask 20)))"
    by (simp add: push_bit_add_u32 page_of)
  also have "\<dots> = (paddr_start d AND NOT (mask 20)) + (va - (vaddr_start d AND NOT (mask 20)))"
    by (simp only: page_split [symmetric])
  finally show ?thesis .
qed

lemma desc_entry_attr: "md_attr d < 2 ^ 20 \<Longrightarrow> desc_entry d va AND mask 20 = md_attr d"
proof -
  assume "md_attr d < 2 ^ 20"
  then have "unat (md_attr d) < 2 ^ 20" by (simp add: word_less_nat_alt)
  then have "take_bit 20 (md_attr d) = md_attr d"
    by (intro unsigned_word_eqI [where 'a = nat]) (simp add: unsigned_take_bit_eq take_bit_nat_eq_self)
  then have "md_attr d AND mask 20 = md_attr d" by (simp add: take_bit_eq_mask)
  moreover have "(a OR push_bit 20 b) AND mask 20 = a AND mask 20" for a b :: u32
    by (rule bit_word_eqI) (auto simp: bit_simps)
  ultimately show ?thesis by (simp add: desc_entry_def)
qed

section \<open>The lines of a range\<close>

definition line_addrs :: "nat \<Rightarrow> nat \<Rightarrow> u32 list" where
  "line_addrs a b = map (\<lambda>j. word_of_nat (32 * j)) [a..<b]"

lemma line_loop_runs:
  "32 * q < 2 ^ 32 \<Longrightarrow> unat fin \<le> 2 ^ 32 - 32 \<Longrightarrow>
   line_loop opn (word_of_nat (32 * q)) fin c = Some (fold opn (line_addrs q ((unat fin + 31) div 32)) c)"
proof (induction "(unat fin + 31) div 32 - q" arbitrary: q c)
  case 0
  have u: "unat (word_of_nat (32 * q) :: u32) = 32 * q" by (rule unat_of_nat_u32 [OF 0(2)])
  have "(unat fin + 31) div 32 \<le> q" using 0(1) by simp
  then have "\<not> 32 * q < unat fin" by linarith
  then show ?case using u 0(1) by (subst line_loop.simps) (simp add: line_addrs_def word_less_nat_alt)
next
  case (Suc l)
  have u: "unat (word_of_nat (32 * q) :: u32) = 32 * q" by (rule unat_of_nat_u32 [OF Suc(3)])
  have q: "q < (unat fin + 31) div 32" using Suc(2) by simp
  then have lt: "32 * q < unat fin" by linarith
  have nx: "word_of_nat (32 * q) + CACHE_LINE_SIZE = word_of_nat (32 * Suc q)" by (simp add: CACHE_LINE_SIZE_def)
  have "32 * Suc q < 2 ^ 32" using lt Suc(4) by simp
  from Suc(1) [OF _ this Suc(4)] Suc(2) have
    "line_loop opn (word_of_nat (32 * Suc q)) fin (opn (word_of_nat (32 * q)) c) =
      Some (fold opn (line_addrs (Suc q) ((unat fin + 31) div 32)) (opn (word_of_nat (32 * q)) c))" by simp
  moreover have "word_of_nat (32 * q) < fin" using lt u by (simp add: word_less_nat_alt)
  ultimately show ?case using q nx
    by (subst line_loop.simps) (simp add: line_addrs_def upt_conv_Cons CACHE_LINE_SIZE_def add.commute)
qed

lemma line_loop_Some:
  assumes "line_loop opn ptr fin c = Some r"
  shows "unat ptr mod 32 = 0 \<longrightarrow> unat fin \<le> 2 ^ 32 - 32"
proof (rule line_loop.raw_induct [OF _ assms, of "\<lambda>_ ptr fin _ _. unat ptr mod 32 = 0 \<longrightarrow> unat fin \<le> 2 ^ 32 - 32"])
  fix loop :: "(u32 \<Rightarrow> cp15 \<Rightarrow> cp15) \<Rightarrow> u32 \<Rightarrow> u32 \<Rightarrow> cp15 \<Rightarrow> cp15 option" and opn ptr fin c r
  assume ih: "\<And>opn ptr fin c r. loop opn ptr fin c = Some r \<Longrightarrow> unat ptr mod 32 = 0 \<longrightarrow> unat fin \<le> 2 ^ 32 - 32"
    and step: "(if ptr < fin then loop opn (ptr + CACHE_LINE_SIZE) fin (opn ptr c) else Some c) = Some r"
  show "unat ptr mod 32 = 0 \<longrightarrow> unat fin \<le> 2 ^ 32 - 32"
  proof
    assume al: "unat ptr mod 32 = 0"
    show "unat fin \<le> 2 ^ 32 - 32"
    proof (cases "ptr < fin")
      case True
      then have "loop opn (ptr + CACHE_LINE_SIZE) fin (opn ptr c) = Some r" using step by simp
      note ih [OF this]
      moreover have "unat (ptr + CACHE_LINE_SIZE) mod 32 = 0"
        using al by (simp add: CACHE_LINE_SIZE_def unat_word_ariths mod_mod_cancel mod_add_self2)
      ultimately show ?thesis by simp
    next
      case False
      then have "unat fin \<le> unat ptr" by (simp add: word_less_nat_alt)
      moreover obtain k where "unat ptr = 32 * k" using al by (metis add_0_right mult_div_mod_eq)
      moreover have "k < 134217728" using calculation(2) unat_u32 [of ptr] by simp
      ultimately show ?thesis by simp
    qed
  qed
qed

lemma line_start: "buffer AND NOT (CACHE_LINE_SIZE - 1) = word_of_nat (32 * (unat buffer div 32))"
  and line_start_aligned: "unat (buffer AND NOT (CACHE_LINE_SIZE - 1)) mod 32 = 0"
proof -
  have m: "CACHE_LINE_SIZE - 1 = mask 5" by (simp add: CACHE_LINE_SIZE_def mask_eq_exp_minus_1)
  have u: "unat (buffer AND NOT (CACHE_LINE_SIZE - 1)) = 32 * (unat buffer div 32)"
    unfolding m unat_clear_low by simp
  then show "unat (buffer AND NOT (CACHE_LINE_SIZE - 1)) mod 32 = 0" by simp
  show "buffer AND NOT (CACHE_LINE_SIZE - 1) = word_of_nat (32 * (unat buffer div 32))"
    unfolding u [symmetric] by simp
qed

lemma line_set: "0 < (n :: nat) \<Longrightarrow> (\<lambda>a. a div 32) ` {b..<b + n} = {b div 32..<(b + n + 31) div 32}"
proof (intro equalityI subsetI)
  fix j assume "0 < n" "j \<in> {b div 32..<(b + n + 31) div 32}"
  then have j: "b div 32 \<le> j" "j < (b + n + 31) div 32" by simp_all
  show "j \<in> (\<lambda>a. a div 32) ` {b..<b + n}"
  proof (rule image_eqI)
    show "j = max b (32 * j) div 32" using j(1) by (auto simp: max_def)
    show "max b (32 * j) \<in> {b..<b + n}" using j(2) \<open>0 < n\<close> by (auto simp: max_def)
  qed
qed (auto simp: div_le_mono)

section \<open>Properties\<close>



lemma mmu_init_result:
  assumes "length (ms_table s) = 4096" "cp15_ops (ms_cp15 s) = []" "\<forall>d \<in> set ds. md_attr d < 2 ^ 20"
  shows "\<exists>s'. mmu_init ds s = Some s' \<and>
     mmu_status (ms_cp15 s') \<and> icache_status (ms_cp15 s') \<and> dcache_status (ms_cp15 s') \<and>
     c2_ttbr0 (ms_cp15 s') = table_base s \<and> c3_dacr (ms_cp15 s') = 0x55555555 \<and>
     (\<exists>v1 v2 v3 v4 v5 v6. cp15_ops (ms_cp15 s') = [InvalidateDcacheAll, InvalidateIcache, WriteCtrl v6, WriteCtrl v5,
        WriteCtrl v4, WriteTtbr0 (table_base s), WriteDacr 0x55555555, InvalidateTlb, InvalidateIcache,
        InvalidateDcacheAll, InvalidateTlb, WriteCtrl v3, WriteCtrl v2, WriteCtrl v1] \<and> \<not> bit v3 0 \<and> bit v4 0) \<and>
     (\<forall>va. case find (\<lambda>d. covers d va) (rev ds) of
        Some d \<Rightarrow> translate (ms_table s') va = (paddr_start d AND NOT (mask 20)) + (va - (vaddr_start d AND NOT (mask 20)))
          \<and> section_lookup (ms_table s') va AND mask 20 = md_attr d
      | None \<Rightarrow> section_lookup (ms_table s') va = section_lookup (ms_table s) va)"
proof -
  obtain t' where t': "set_mappings ds (ms_table s) = Some t'"
    and look: "\<And>va. section_lookup t' va = (case find (\<lambda>d. covers d va) (rev ds) of
        Some d \<Rightarrow> desc_entry d va | None \<Rightarrow> section_lookup (ms_table s) va)"
    using set_mappings_eq [OF assms(1), of ds] by blast
  let ?c = "ms_cp15 s"
  obtain s' where s': "mmu_init ds s = Some s'" and tab: "ms_table s' = t'"
    and ctl: "c1_ctrl (ms_cp15 s') = (((c1_ctrl ?c AND NOT DCACHE_ENABLE) AND NOT ICACHE_ENABLE) AND NOT MMU_ENABLE)
        OR MMU_ENABLE OR ICACHE_ENABLE OR DCACHE_ENABLE"
    and base: "c2_ttbr0 (ms_cp15 s') = table_base s" "c3_dacr (ms_cp15 s') = 0x55555555"
    and ops: "cp15_ops (ms_cp15 s') = [InvalidateDcacheAll, InvalidateIcache, WriteCtrl (c1_ctrl (ms_cp15 s')),
        WriteCtrl ((((c1_ctrl ?c AND NOT DCACHE_ENABLE) AND NOT ICACHE_ENABLE) AND NOT MMU_ENABLE) OR MMU_ENABLE OR ICACHE_ENABLE),
        WriteCtrl ((((c1_ctrl ?c AND NOT DCACHE_ENABLE) AND NOT ICACHE_ENABLE) AND NOT MMU_ENABLE) OR MMU_ENABLE),
        WriteTtbr0 (table_base s), WriteDacr 0x55555555, InvalidateTlb, InvalidateIcache, InvalidateDcacheAll, InvalidateTlb,
        WriteCtrl (((c1_ctrl ?c AND NOT DCACHE_ENABLE) AND NOT ICACHE_ENABLE) AND NOT MMU_ENABLE),
        WriteCtrl ((c1_ctrl ?c AND NOT DCACHE_ENABLE) AND NOT ICACHE_ENABLE),
        WriteCtrl (c1_ctrl ?c AND NOT DCACHE_ENABLE)]"
    using t' assms(2)
    by (simp add: mmu_init_def on_cp15_def set_ttb_def enable_mmu_def disable_mmu_def enable_icache_def
        disable_icache_def enable_dcache_def disable_dcache_def cp15_defs or.assoc)
  have "bit (c1_ctrl (ms_cp15 s') AND MMU_ENABLE) 0" "bit (c1_ctrl (ms_cp15 s') AND ICACHE_ENABLE) 12"
    "bit (c1_ctrl (ms_cp15 s') AND DCACHE_ENABLE) 2"
    unfolding ctl by (simp_all add: MMU_ENABLE_def ICACHE_ENABLE_def DCACHE_ENABLE_def bit_simps)
  then have status: "mmu_status (ms_cp15 s')" "icache_status (ms_cp15 s')" "dcache_status (ms_cp15 s')"
    unfolding mmu_status_def icache_status_def dcache_status_def cp15_read_ctrl_def by fastforce+
  have order: "\<exists>v1 v2 v3 v4 v5 v6. cp15_ops (ms_cp15 s') = [InvalidateDcacheAll, InvalidateIcache, WriteCtrl v6, WriteCtrl v5,
        WriteCtrl v4, WriteTtbr0 (table_base s), WriteDacr 0x55555555, InvalidateTlb, InvalidateIcache,
        InvalidateDcacheAll, InvalidateTlb, WriteCtrl v3, WriteCtrl v2, WriteCtrl v1] \<and> \<not> bit v3 0 \<and> bit v4 0"
    unfolding ops by (intro exI conjI, rule refl) (simp_all add: MMU_ENABLE_def bit_simps)
  have "case find (\<lambda>d. covers d va) (rev ds) of
        Some d \<Rightarrow> translate (ms_table s') va = (paddr_start d AND NOT (mask 20)) + (va - (vaddr_start d AND NOT (mask 20)))
          \<and> section_lookup (ms_table s') va AND mask 20 = md_attr d
      | None \<Rightarrow> section_lookup (ms_table s') va = section_lookup (ms_table s) va" for va
  proof (cases "find (\<lambda>d. covers d va) (rev ds)")
    case (Some d)
    then have "d \<in> set ds" by (metis find_Some_iff nth_mem set_rev)
    then have at: "md_attr d < 2 ^ 20" using assms(3) by blast
    have "section_lookup (ms_table s') va = desc_entry d va" using look [of va] Some tab by simp
    then show ?thesis using translate_entry [OF _ at] desc_entry_attr [OF at] Some by simp
  qed (use look [of va] tab in simp)
  then show ?thesis using s' status base order by blast
qed

text \<open>C16. \<open>init\<close> returns with the MMU and both caches on, the table base and the domains
  set, and a table in which every address covered by a descriptor translates, by the
  last one that covers it, to the physical start plus the offset from the virtual start
  (in whole sections), with the attributes of the descriptor; other entries are as
  before.  The MMU is off from the first step until the table base is set.\<close>

theorem mmu_init_correct:
  assumes "length (ms_table s) = 4096" "cp15_ops (ms_cp15 s) = []" "\<forall>d \<in> set ds. md_attr d < 2 ^ 20"
  shows "\<exists>s'. mmu_init ds s = Some s' \<and>
     mmu_status (ms_cp15 s') \<and> icache_status (ms_cp15 s') \<and> dcache_status (ms_cp15 s') \<and>
     c2_ttbr0 (ms_cp15 s') = table_base s \<and> c3_dacr (ms_cp15 s') = 0x55555555 \<and>
     (\<exists>v1 v2 v3 v4 v5 v6. cp15_ops (ms_cp15 s') = [InvalidateDcacheAll, InvalidateIcache, WriteCtrl v6, WriteCtrl v5,
        WriteCtrl v4, WriteTtbr0 (table_base s), WriteDacr 0x55555555, InvalidateTlb, InvalidateIcache,
        InvalidateDcacheAll, InvalidateTlb, WriteCtrl v3, WriteCtrl v2, WriteCtrl v1] \<and> \<not> bit v3 0 \<and> bit v4 0) \<and>
     (\<forall>va. case find (\<lambda>d. covers d va) (rev ds) of
        Some d \<Rightarrow> translate (ms_table s') va = (paddr_start d AND NOT (mask 20)) + (va - (vaddr_start d AND NOT (mask 20)))
          \<and> section_lookup (ms_table s') va AND mask 20 = md_attr d
      | None \<Rightarrow> section_lookup (ms_table s') va = section_lookup (ms_table s) va)"
  by (rule mmu_init_result [OF assms])

theorem mmu_init_correct_witness:
  "\<exists>s'. mmu_init [mem_desc_new 0 0xFFFFFFFF 0 RW_NCNB, mem_desc_new 0x80000000 0x81FFFFFF 0x80000000 RW_CB]
       \<lparr>ms_cp15 = \<lparr>c1_ctrl = 0, c2_ttbr0 = 0, c3_dacr = 0, cp15_ops = []\<rparr>, ms_table = page_table_new, table_base = 0x80004000\<rparr> = Some s' \<and>
     translate (ms_table s') 0x80123456 = 0x80123456 \<and> section_lookup (ms_table s') 0x80123456 AND mask 20 = RW_CB"
proof -
  let ?ds = "[mem_desc_new 0 0xFFFFFFFF 0 RW_NCNB, mem_desc_new 0x80000000 0x81FFFFFF 0x80000000 RW_CB]"
  let ?s = "\<lparr>ms_cp15 = \<lparr>c1_ctrl = 0, c2_ttbr0 = 0, c3_dacr = 0, cp15_ops = []\<rparr>, ms_table = page_table_new, table_base = 0x80004000\<rparr>"
  have at: "\<forall>d \<in> set ?ds. md_attr d < 2 ^ 20" by code_simp
  have cov: "covers (mem_desc_new 0x80000000 0x81FFFFFF 0x80000000 RW_CB) 0x80123456" by code_simp
  have len: "length (ms_table ?s) = 4096" by (simp add: page_table_new_def PAGE_TABLE_ENTRIES_def)
  have num: "((0x80000000 :: u32) AND NOT (mask 20)) + (0x80123456 - (0x80000000 AND NOT (mask 20))) = 0x80123456"
    by code_simp
  have nil: "cp15_ops (ms_cp15 ?s) = []" by simp
  from mmu_init_correct [OF len nil at] obtain s' where "mmu_init ?ds ?s = Some s'" and
    tr: "case find (\<lambda>d. covers d 0x80123456) (rev ?ds) of
        Some d \<Rightarrow> translate (ms_table s') 0x80123456 = (paddr_start d AND NOT (mask 20)) + (0x80123456 - (vaddr_start d AND NOT (mask 20)))
          \<and> section_lookup (ms_table s') 0x80123456 AND mask 20 = md_attr d
      | None \<Rightarrow> section_lookup (ms_table s') 0x80123456 = section_lookup (ms_table ?s) 0x80123456" by blast
  then show ?thesis using cov num by (simp add: mem_desc_new_def)
qed

end
