(* ===== verification/Mmio.thy ===== *)
theory Mmio
  imports Prelude
begin

text \<open>
  Memory-mapped registers.  The drivers reach the hardware only by volatile reads and
  writes, so the state they share with it is the trace of these accesses, and the
  hardware is a function of the trace: what the next read of an address returns.  It is
  a parameter, part of the state only so that it need not be passed to every operation.

  \<open>register_file\<close> is the interface of registers that keep what is written to them; the
  properties of the drivers that rest on it name it as a hypothesis (\<open>backed\<close>).
\<close>

datatype access = Rd32 u32 u32 | Wr32 u32 u32 | Rd8 u32 u8 | Wr8 u32 u8

record mmio =
  device32 :: "access list \<Rightarrow> u32 \<Rightarrow> u32"
  device8 :: "access list \<Rightarrow> u32 \<Rightarrow> u8"
  trace :: "access list" \<comment> \<open>latest first\<close>

definition rd32 :: "u32 \<Rightarrow> mmio \<Rightarrow> u32 \<times> mmio" where
  "rd32 a m = (let v = device32 m (trace m) a in (v, m\<lparr>trace := Rd32 a v # trace m\<rparr>))"

definition wr32 :: "u32 \<Rightarrow> u32 \<Rightarrow> mmio \<Rightarrow> mmio" where
  "wr32 a v m = m\<lparr>trace := Wr32 a v # trace m\<rparr>"

definition rd8 :: "u32 \<Rightarrow> mmio \<Rightarrow> u8 \<times> mmio" where
  "rd8 a m = (let v = device8 m (trace m) a in (v, m\<lparr>trace := Rd8 a v # trace m\<rparr>))"

definition wr8 :: "u32 \<Rightarrow> u8 \<Rightarrow> mmio \<Rightarrow> mmio" where
  "wr8 a v m = m\<lparr>trace := Wr8 a v # trace m\<rparr>"

text \<open>Read, change, write back.\<close>

definition rmw32 :: "u32 \<Rightarrow> (u32 \<Rightarrow> u32) \<Rightarrow> mmio \<Rightarrow> mmio" where
  "rmw32 a f m = (let (v, m) = rd32 a m in wr32 a (f v) m)"

text \<open>\<open>while !p(read(a)) {}\<close>: it need not end.  With a bound, \<^term>\<open>False\<close> is a timeout.\<close>

partial_function (option) poll32 :: "u32 \<Rightarrow> (u32 \<Rightarrow> bool) \<Rightarrow> mmio \<Rightarrow> mmio option" where
  "poll32 a p m = (let (v, m') = rd32 a m in if p v then Some m' else poll32 a p m')"

fun poll32_max :: "nat \<Rightarrow> u32 \<Rightarrow> (u32 \<Rightarrow> bool) \<Rightarrow> mmio \<Rightarrow> bool \<times> mmio" where
  "poll32_max 0 a p m = (False, m)"
| "poll32_max (Suc n) a p m = (let (v, m') = rd32 a m in if p v then (True, m') else poll32_max n a p m')"

text \<open>\<open>while !p(read(a)) && timeout > 0 { timeout -= 1; }\<close> from \<open>timeout = n\<close>: when the counter has
  reached 0 the address is read once more, but the answer is a timeout.\<close>

fun poll_counted :: "nat \<Rightarrow> u32 \<Rightarrow> (u32 \<Rightarrow> bool) \<Rightarrow> mmio \<Rightarrow> bool \<times> mmio" where
  "poll_counted 0 a p m = (False, snd (rd32 a m))"
| "poll_counted (Suc n) a p m = (let (v, m') = rd32 a m in if p v then (True, m') else poll_counted n a p m')"

text \<open>A \<open>for\<close> loop over a list, whose body may not return.\<close>

fun for_each :: "('a \<Rightarrow> 's \<Rightarrow> 's option) \<Rightarrow> 'a list \<Rightarrow> 's \<Rightarrow> 's option" where
  "for_each f [] s = Some s"
| "for_each f (x # xs) s = do { s \<leftarrow> f x s; for_each f xs s }"

section \<open>Registers that keep what is written\<close>

text \<open>\<open>holds m R\<close>: the registers have the contents \<open>R\<close>; \<open>view a\<close> is what reading \<open>a\<close> shows of
  its contents (the identity for a plain register).\<close>

locale register_file =
  fixes rd :: "u32 \<Rightarrow> 'm \<Rightarrow> u32 \<times> 'm" and wr :: "u32 \<Rightarrow> u32 \<Rightarrow> 'm \<Rightarrow> 'm"
    and holds :: "'m \<Rightarrow> (u32 \<Rightarrow> u32) \<Rightarrow> bool" and view :: "u32 \<Rightarrow> u32 \<Rightarrow> u32"
  assumes rd_val: "holds m R \<Longrightarrow> fst (rd a m) = view a (R a)"
    and rd_keeps: "holds m R \<Longrightarrow> holds (snd (rd a m)) R"
    and wr_holds: "holds m R \<Longrightarrow> holds (wr a v m) (R(a := v))"
begin

lemma rd_both: "holds m R \<Longrightarrow> rd a m = (v, m') \<Longrightarrow> v = view a (R a) \<and> holds m' R"
  using rd_val [of m R a] rd_keeps [of m R a] by simp

lemma update_holds:
  "holds m R \<Longrightarrow> holds (let (v, m') = rd a m in wr a (f v) m') (R(a := f (view a (R a))))"
  using rd_both [of m R a] wr_holds by (auto split: prod.splits)

end

fun stored :: "(u32 \<Rightarrow> u32) \<Rightarrow> access list \<Rightarrow> u32 \<Rightarrow> u32" where
  "stored init [] a = init a"
| "stored init (Wr32 b v # tr) a = (if a = b then v else stored init tr a)"
| "stored init (_ # tr) a = stored init tr a"

definition reg_device :: "(u32 \<Rightarrow> u32 \<Rightarrow> u32) \<Rightarrow> (u32 \<Rightarrow> u32) \<Rightarrow> access list \<Rightarrow> u32 \<Rightarrow> u32" where
  "reg_device view init tr a = view a (stored init tr a)"

definition backed :: "(u32 \<Rightarrow> u32 \<Rightarrow> u32) \<Rightarrow> mmio \<Rightarrow> (u32 \<Rightarrow> u32) \<Rightarrow> bool" where
  "backed view m R \<longleftrightarrow> (\<exists>init. device32 m = reg_device view init \<and> R = stored init (trace m))"

abbreviation plain :: "mmio \<Rightarrow> (u32 \<Rightarrow> u32) \<Rightarrow> bool" where
  "plain \<equiv> backed (\<lambda>_ v. v)"

lemma stored_cons: "stored init (Wr32 b v # tr) = (stored init tr)(b := v)"
  "stored init (Rd32 b v # tr) = stored init tr" "stored init (Rd8 b w # tr) = stored init tr"
  "stored init (Wr8 b w # tr) = stored init tr"
  by (auto simp: fun_eq_iff)

interpretation regs: register_file rd32 wr32 "backed view" view for view
proof
  fix m R a v assume "backed view m R"
  then obtain init where i: "device32 m = reg_device view init" "R = stored init (trace m)"
    by (auto simp: backed_def)
  show "fst (rd32 a m) = view a (R a)" using i by (simp add: rd32_def Let_def reg_device_def)
  show "backed view (snd (rd32 a m)) R"
    using i by (auto simp: rd32_def Let_def backed_def stored_cons)
  show "backed view (wr32 a v m) (R(a := v))"
    using i by (auto simp: wr32_def backed_def stored_cons)
qed

lemma backed_rd32: "backed view m R \<Longrightarrow> \<exists>m'. rd32 a m = (view a (R a), m') \<and> backed view m' R"
  using regs.rd_val [of view m R a] regs.rd_keeps [of view m R a] by (metis prod.collapse)

lemma backed_rmw: "backed view m R \<Longrightarrow> backed view (rmw32 a f m) (R(a := f (view a (R a))))"
  using regs.update_holds by (simp add: rmw32_def)

lemma backed_bytes:
  "backed view m R \<Longrightarrow> backed view (wr8 a v m) R"
  "backed view m R \<Longrightarrow> backed view (snd (rd8 a m)) R"
  by (auto simp: backed_def wr8_def rd8_def Let_def stored_cons)

lemma backed_poll_max: "backed view m R \<Longrightarrow> backed view (snd (poll32_max n a p m)) R"
proof (induction n arbitrary: m)
  case (Suc n)
  then show ?case using regs.rd_both [of view m R a] by (auto simp: Let_def split: prod.splits)
qed simp

lemma backed_poll_counted: "backed view m R \<Longrightarrow> backed view (snd (poll_counted n a p m)) R"
proof (induction n arbitrary: m)
  case (Suc n)
  then show ?case using regs.rd_both [of view m R a] by (auto simp: Let_def split: prod.splits)
qed (simp add: regs.rd_keeps)

lemma poll32_max_first: "0 < n \<Longrightarrow> p (fst (rd32 a m)) \<Longrightarrow> poll32_max n a p m = (True, snd (rd32 a m))"
  by (cases n) (auto simp: Let_def split: prod.splits)

lemma poll_counted_first: "0 < n \<Longrightarrow> p (fst (rd32 a m)) \<Longrightarrow> poll_counted n a p m = (True, snd (rd32 a m))"
  by (cases n) (auto simp: Let_def split: prod.splits)

lemma poll32_first: "p (fst (rd32 a m)) \<Longrightarrow> poll32 a p m = Some (snd (rd32 a m))"
  by (subst poll32.simps) (auto simp: Let_def split: prod.splits)

lemma poll32_at: "backed view m R \<Longrightarrow> p (view a (R a)) \<Longrightarrow> poll32 a p m = Some (snd (rd32 a m))"
  using regs.rd_val [of view m R a] by (subst poll32.simps) (cases "rd32 a m", simp)

text \<open>A fresh register file.\<close>

definition regs_of :: "(u32 \<Rightarrow> u32 \<Rightarrow> u32) \<Rightarrow> (u32 \<Rightarrow> u32) \<Rightarrow> mmio" where
  "regs_of view init = \<lparr>device32 = reg_device view init, device8 = (\<lambda>_ _. 0), trace = []\<rparr>"

lemma backed_regs_of: "backed view (regs_of view init) init"
  by (auto simp: backed_def regs_of_def fun_eq_iff)

text \<open>A poll on a register that never satisfies the test does not return.\<close>

lemma poll32_Some:
  assumes "poll32 a p m = Some y"
  shows "\<forall>R. backed view m R \<longrightarrow> p (view a (R a))"
proof (rule poll32.raw_induct [OF _ assms, of "\<lambda>a p m y. \<forall>R. backed view m R \<longrightarrow> p (view a (R a))"])
  fix poll :: "u32 \<Rightarrow> (u32 \<Rightarrow> bool) \<Rightarrow> mmio \<Rightarrow> mmio option" and a p m y
  assume ih: "\<And>a p m y. poll a p m = Some y \<Longrightarrow> \<forall>R. backed view m R \<longrightarrow> p (view a (R a))"
    and step: "(let (v, m') = rd32 a m in if p v then Some m' else poll a p m') = Some y"
  show "\<forall>R. backed view m R \<longrightarrow> p (view a (R a))"
  proof (intro allI impI)
    fix R assume b: "backed view m R"
    obtain v m' where r: "rd32 a m = (v, m')" by fastforce
    from regs.rd_both [OF b r] have v: "v = view a (R a)" "backed view m' R" by simp_all
    show "p (view a (R a))"
    proof (cases "p v")
      case False
      then have "poll a p m' = Some y" using step r by simp
      from ih [OF this] v show ?thesis by blast
    qed (use v in simp)
  qed
qed

lemma poll32_never: "backed view m R \<Longrightarrow> \<not> p (view a (R a)) \<Longrightarrow> poll32 a p m = None"
  using poll32_Some [of a p m] by (cases "poll32 a p m") blast+

end
