(* ===== verification/Interrupt.thy ===== *)
theory Interrupt
  imports Mmio
begin

text \<open>
  \<open>interrupt.rs\<close>: the interrupt controller, the table of handlers and the dispatch of the
  pending interrupt.  \<open>'h\<close> is the type of the handlers that were installed (the default
  handler is \<^term>\<open>None\<close>), \<open>invoke\<close> the effect of calling one, and \<open>'u\<close> the memory of the
  other modules, which handlers change.
\<close>

definition INTERRUPTS_MAX :: nat where "INTERRUPTS_MAX = 64"
definition TIMER0_INTERRUPT :: u32 where "TIMER0_INTERRUPT = 13"
definition TIMER1_INTERRUPT :: u32 where "TIMER1_INTERRUPT = 14"
definition TIMER2_INTERRUPT :: u32 where "TIMER2_INTERRUPT = 15"

definition INTC_BASE :: u32 where "INTC_BASE = 0x01C20400"
definition r_VECTOR :: u32 where "r_VECTOR = 0x00"
definition r_BASE_ADDR :: u32 where "r_BASE_ADDR = 0x04"
definition r_PEND0 :: u32 where "r_PEND0 = 0x10"
definition r_PEND1 :: u32 where "r_PEND1 = 0x14"
definition r_EN0 :: u32 where "r_EN0 = 0x20"
definition r_EN1 :: u32 where "r_EN1 = 0x24"
definition r_MASK0 :: u32 where "r_MASK0 = 0x30"
definition r_MASK1 :: u32 where "r_MASK1 = 0x34"
definition r_RESP0 :: u32 where "r_RESP0 = 0x40"
definition r_RESP1 :: u32 where "r_RESP1 = 0x44"
definition r_FF0 :: u32 where "r_FF0 = 0x50"
definition r_FF1 :: u32 where "r_FF1 = 0x54"

lemmas intc_regs = INTC_BASE_def r_VECTOR_def r_BASE_ADDR_def r_PEND0_def r_PEND1_def r_EN0_def r_EN1_def
  r_MASK0_def r_MASK1_def r_RESP0_def r_RESP1_def r_FF0_def r_FF1_def

record ('h, 'u) irq_state =
  io :: mmio
  interrupt_nest :: u32
  in_isr_flag :: bool
  isr_table :: "nat \<Rightarrow> 'h option"
  user :: 'u

type_synonym ('h, 'u) isr_invoker = "'h \<Rightarrow> u32 \<Rightarrow> ('h, 'u) irq_state \<Rightarrow> ('h, 'u) irq_state option"

definition intc_rd :: "u32 \<Rightarrow> ('h, 'u) irq_state \<Rightarrow> u32 \<times> ('h, 'u) irq_state" where
  "intc_rd off s = (let (v, m) = rd32 (INTC_BASE + off) (io s) in (v, s\<lparr>io := m\<rparr>))"

definition intc_wr :: "u32 \<Rightarrow> u32 \<Rightarrow> ('h, 'u) irq_state \<Rightarrow> ('h, 'u) irq_state" where
  "intc_wr off v s = s\<lparr>io := wr32 (INTC_BASE + off) v (io s)\<rparr>"

definition group_regs :: "nat \<Rightarrow> u32 \<times> u32 \<times> u32" where
  "group_regs g = (if g = 0 then (r_PEND0, r_EN0, r_MASK0) else (r_PEND1, r_EN1, r_MASK1))"

definition vector_group :: "u32 \<Rightarrow> nat" where
  "vector_group vector = (if 32 \<le> vector then 1 else 0)"

definition vector_bit :: "u32 \<Rightarrow> nat" where
  "vector_bit vector = unat (vector AND 0x1F)"

definition intc_init :: "('h, 'u) irq_state \<Rightarrow> ('h, 'u) irq_state" where
  "intc_init s = (let
     s = intc_wr r_BASE_ADDR 0 s;
     s = intc_wr r_EN1 0 (intc_wr r_EN0 0 s);
     s = intc_wr r_MASK1 0xFFFFFFFF (intc_wr r_MASK0 0xFFFFFFFF s);
     s = intc_wr r_PEND1 0 (intc_wr r_PEND0 0 s);
     s = intc_wr r_RESP1 0 (intc_wr r_RESP0 0 s);
     s = intc_wr r_FF1 0 (intc_wr r_FF0 0 s)
   in s\<lparr>interrupt_nest := 0\<rparr>)"

definition mask_irq :: "u32 \<Rightarrow> ('h, 'u) irq_state \<Rightarrow> ('h, 'u) irq_state" where
  "mask_irq vector s = (if 64 \<le> vector then s else
     let (_, _, mask_reg) = group_regs (vector_group vector); (v, s) = intc_rd mask_reg s
     in intc_wr mask_reg (v OR bitm (vector_bit vector)) s)"

definition unmask_irq :: "u32 \<Rightarrow> ('h, 'u) irq_state \<Rightarrow> ('h, 'u) irq_state" where
  "unmask_irq vector s = (if 64 \<le> vector then s else
     let (_, _, mask_reg) = group_regs (vector_group vector); (v, s) = intc_rd mask_reg s
     in intc_wr mask_reg (v AND NOT (bitm (vector_bit vector))) s)"

text \<open>The result: \<open>Some(old)\<close>, where the old handler may be the default one.\<close>

definition install :: "u32 \<Rightarrow> 'h \<Rightarrow> ('h, 'u) irq_state \<Rightarrow> 'h option option \<times> ('h, 'u) irq_state" where
  "install vector handler s = (if 64 \<le> vector then (None, s) else
     let (pend_reg, en_reg, _) = group_regs (vector_group vector);
         b = vector_bit vector;
         old = isr_table s (unat vector);
         s = s\<lparr>isr_table := (isr_table s)(unat vector := Some handler)\<rparr>;
         (p, s) = intc_rd pend_reg s;
         s = intc_wr pend_reg (p AND NOT (bitm b)) s;
         (e, s) = intc_rd en_reg s;
         s = intc_wr en_reg (e OR bitm b) s
     in (Some old, s))"

definition call_handler :: "('h, 'u) isr_invoker \<Rightarrow> 'h option \<Rightarrow> u32 \<Rightarrow> ('h, 'u) irq_state \<Rightarrow> ('h, 'u) irq_state option" where
  "call_handler invoke h vector s = (case h of None \<Rightarrow> Some s | Some f \<Rightarrow> invoke f vector s)"

definition dispatch :: "('h, 'u) isr_invoker \<Rightarrow> ('h, 'u) irq_state \<Rightarrow> ('h, 'u) irq_state option" where
  "dispatch invoke s = do {
     let (v, s) = intc_rd r_VECTOR s;
     let (b, s) = intc_rd r_BASE_ADDR s;
     let vector = drop_bit 2 (v - b);
     let s = s\<lparr>interrupt_nest := interrupt_nest s + 1, in_isr_flag := True\<rparr>;
     s \<leftarrow> (if unat vector < INTERRUPTS_MAX then do {
         s \<leftarrow> call_handler invoke (isr_table s (unat vector)) vector s;
         let (pend_reg, _, _) = group_regs (vector_group vector);
         let (p, s) = intc_rd pend_reg s;
         Some (intc_wr pend_reg (p AND NOT (bitm (vector_bit vector))) s)
       } else Some s);
     Some (s\<lparr>in_isr_flag := False, interrupt_nest := interrupt_nest s - 1\<rparr>)
   }"

definition in_isr :: "('h, 'u) irq_state \<Rightarrow> bool" where "in_isr s = in_isr_flag s"
definition nest_level :: "('h, 'u) irq_state \<Rightarrow> u32" where "nest_level s = interrupt_nest s"

definition trap_irq :: "('h, 'u) isr_invoker \<Rightarrow> ('h, 'u) irq_state \<Rightarrow> ('h, 'u) irq_state option" where
  "trap_irq invoke s = dispatch invoke s"
definition trap_fiq :: "('h, 'u) isr_invoker \<Rightarrow> ('h, 'u) irq_state \<Rightarrow> ('h, 'u) irq_state option" where
  "trap_fiq invoke s = dispatch invoke s"

section \<open>Fault reports\<close>

record trap_frame =
  tf_regs :: "u32 list" \<comment> \<open>r0 to r12\<close>
  tf_sp :: u32
  tf_lr :: u32
  tf_pc :: u32
  tf_cpsr :: u32

definition fault_putc :: "u8 \<Rightarrow> mmio \<Rightarrow> mmio option" where
  "fault_putc b m = do {
     m \<leftarrow> poll32 (0x01C25800 + 0x7C) (\<lambda>v. v AND bitm 1 \<noteq> 0) m;
     Some (wr32 0x01C25800 (ucast b) m)
   }"

definition hex_digits :: "u8 list" where
  "hex_digits = [0x30, 0x31, 0x32, 0x33, 0x34, 0x35, 0x36, 0x37, 0x38, 0x39, 0x41, 0x42, 0x43, 0x44, 0x45, 0x46]"

fun put_all :: "u8 list \<Rightarrow> mmio \<Rightarrow> mmio option" where
  "put_all [] m = Some m"
| "put_all (b # bs) m = do { m \<leftarrow> fault_putc b m; put_all bs m }"

text \<open>The loop over \<open>shift = 28, 24, \<dots>, 0\<close>.\<close>

definition hex_string :: "u32 \<Rightarrow> u8 list" where
  "hex_string v = map (\<lambda>shift. hex_digits ! unat (drop_bit shift v AND 0xF)) [28, 24, 20, 16, 12, 8, 4, 0]"

definition fault_puthex :: "u32 \<Rightarrow> mmio \<Rightarrow> mmio option" where
  "fault_puthex v m = put_all (hex_string v) m"

text \<open>One round of the endless report: CR LF ! tag pc= lr= far=.\<close>

definition fault_round :: "u8 \<Rightarrow> u32 \<Rightarrow> trap_frame \<Rightarrow> mmio \<Rightarrow> mmio option" where
  "fault_round tag far frame m = do {
     m \<leftarrow> put_all [0x0D, 0x0A, 0x21, tag, 0x20, 0x70, 0x63, 0x3D] m;
     m \<leftarrow> fault_puthex (tf_pc frame) m;
     m \<leftarrow> put_all [0x20, 0x6C, 0x72, 0x3D] m;
     m \<leftarrow> fault_puthex (tf_lr frame) m;
     m \<leftarrow> put_all [0x20, 0x66, 0x61, 0x72, 0x3D] m;
     fault_puthex far m
   }"

text \<open>The report repeats for ever (the delay between two rounds touches no memory); so do the
  handlers of a software interrupt and of the reserved exception, which wait in a loop.\<close>

partial_function (option) fault_report :: "u8 \<Rightarrow> u32 \<Rightarrow> trap_frame \<Rightarrow> mmio \<Rightarrow> mmio option" where
  "fault_report tag far frame m = do { m \<leftarrow> fault_round tag far frame m; fault_report tag far frame m }"

definition trap_undef :: "u32 \<Rightarrow> trap_frame \<Rightarrow> mmio \<Rightarrow> mmio option" where
  "trap_undef far frame m = fault_report 0x55 far frame m"
definition trap_pabt :: "u32 \<Rightarrow> trap_frame \<Rightarrow> mmio \<Rightarrow> mmio option" where
  "trap_pabt far frame m = fault_report 0x50 far frame m"
definition trap_dabt :: "u32 \<Rightarrow> trap_frame \<Rightarrow> mmio \<Rightarrow> mmio option" where
  "trap_dabt far frame m = fault_report 0x44 far frame m"

partial_function (option) idle_loop :: "mmio \<Rightarrow> mmio option" where
  "idle_loop m = idle_loop m"
definition trap_swi :: "trap_frame \<Rightarrow> mmio \<Rightarrow> mmio option" where "trap_swi frame m = idle_loop m"
definition trap_resv :: "trap_frame \<Rightarrow> mmio \<Rightarrow> mmio option" where "trap_resv frame m = idle_loop m"

lemma fault_report_never: "fault_report tag far frame m = None"
proof (cases "fault_report tag far frame m")
  case (Some y)
  have False
  proof (rule fault_report.raw_induct [OF _ Some, of "\<lambda>_ _ _ _ _. False"])
    fix rep tag far frame m y
    assume "\<And>tag far frame m y. rep tag far frame m = Some y \<Longrightarrow> False"
      and "do { m \<leftarrow> fault_round tag far frame m; rep tag far frame m } = Some (y :: mmio)"
    then show False by (cases "fault_round tag far frame m") auto
  qed
  then show ?thesis ..
qed

section \<open>Properties\<close>

text \<open>The controller with plain registers.\<close>

abbreviation irq_plain :: "('h, 'u) irq_state \<Rightarrow> (u32 \<Rightarrow> u32) \<Rightarrow> bool" where
  "irq_plain s R \<equiv> plain (io s) R"

lemma intc_rd_plain: "irq_plain s R \<Longrightarrow> \<exists>m. intc_rd off s = (R (INTC_BASE + off), s\<lparr>io := m\<rparr>) \<and> plain m R"
  using backed_rd32 [of "\<lambda>_ v. v" "io s" R "INTC_BASE + off"] by (auto simp: intc_rd_def)

lemma intc_wr_plain: "irq_plain s R \<Longrightarrow> irq_plain (intc_wr off v s) (R(INTC_BASE + off := v))"
  by (simp add: intc_wr_def regs.wr_holds)

text \<open>The pending bit of a vector: bit \<open>vector mod 32\<close> of the word at \<open>0x10\<close> or \<open>0x14\<close>.\<close>

definition pend_addr :: "u32 \<Rightarrow> u32" where
  "pend_addr vector = (if unat vector < 32 then 0x01C20410 else 0x01C20414)"

lemma pend_group: "INTC_BASE + fst (group_regs (vector_group vector)) = pend_addr vector"
  by (simp add: pend_addr_def group_regs_def vector_group_def intc_regs word_le_nat_alt)

lemma bitm_vector: "bitm (vector_bit vector) = bitm (unat vector)"
proof -
  have "vector AND 0x1F = take_bit 5 vector" by (simp add: take_bit_eq_mask mask_eq_exp_minus_1)
  then have "vector_bit vector = unat vector mod 32"
    by (simp add: vector_bit_def unsigned_take_bit_eq) (simp add: take_bit_eq_mod)
  then show ?thesis by (simp add: bitm_def)
qed

text \<open>The state in which the handler runs: one level deeper, \<open>IN_ISR\<close> set.\<close>

definition entered :: "mmio \<Rightarrow> ('h, 'u) irq_state \<Rightarrow> ('h, 'u) irq_state" where
  "entered m s = s\<lparr>io := m, interrupt_nest := interrupt_nest s + 1, in_isr_flag := True\<rparr>"

lemma dispatch_call:
  assumes "irq_plain s R" "drop_bit 2 (R INTC_BASE - R (INTC_BASE + 4)) = vector" "unat vector < 64"
    and "\<And>m. plain m R \<Longrightarrow> \<exists>t. call_handler invoke (isr_table s (unat vector)) vector (entered m s) = Some t
      \<and> irq_plain t R' \<and> P t"
  shows "\<exists>t s'. P t \<and> dispatch invoke s = Some s' \<and> irq_plain s' (R'(pend_addr vector :=
        R' (pend_addr vector) AND NOT (bitm (unat vector)))) \<and>
     interrupt_nest s' = interrupt_nest t - 1 \<and> \<not> in_isr s' \<and> isr_table s' = isr_table t \<and> user s' = user t"
proof -
  obtain m1 where m1: "intc_rd r_VECTOR s = (R INTC_BASE, s\<lparr>io := m1\<rparr>)" "plain m1 R"
    using intc_rd_plain [OF assms(1), of r_VECTOR] by (auto simp: r_VECTOR_def)
  have p1: "irq_plain (s\<lparr>io := m1\<rparr>) R" using m1(2) by simp
  obtain m2 where m2: "intc_rd r_BASE_ADDR (s\<lparr>io := m1\<rparr>) = (R (INTC_BASE + 4), s\<lparr>io := m2\<rparr>)" "plain m2 R"
    using intc_rd_plain [OF p1, of r_BASE_ADDR] by (auto simp: r_BASE_ADDR_def)
  obtain t where t: "call_handler invoke (isr_table s (unat vector)) vector (entered m2 s) = Some t"
    "irq_plain t R'" "P t" using assms(4) [OF m2(2)] by blast
  let ?p = "fst (group_regs (vector_group vector))"
  obtain m3 where m3: "intc_rd ?p t = (R' (pend_addr vector), t\<lparr>io := m3\<rparr>)" "plain m3 R'"
    using intc_rd_plain [OF t(2), of ?p] by (auto simp: pend_group)
  let ?v = "R' (pend_addr vector) AND NOT (bitm (vector_bit vector))"
  have p3: "irq_plain (t\<lparr>io := m3\<rparr>) R'" using m3(2) by simp
  have "dispatch invoke s = Some ((intc_wr ?p ?v (t\<lparr>io := m3\<rparr>))\<lparr>in_isr_flag := False, interrupt_nest := interrupt_nest t - 1\<rparr>)"
    using m1 m2 t(1) [unfolded entered_def] m3 assms(2,3)
    by (simp add: dispatch_def INTERRUPTS_MAX_def split_beta Let_def) (simp add: intc_wr_def)
  moreover have "irq_plain (intc_wr ?p ?v (t\<lparr>io := m3\<rparr>)) (R'(pend_addr vector := ?v))"
    using intc_wr_plain [OF p3] by (simp add: pend_group [symmetric])
  ultimately show ?thesis using t(3) by (auto simp: in_isr_def intc_wr_def bitm_vector)
qed

text \<open>C21. Dispatching calls the handler installed for the vector the controller shows, with
  the nesting level raised and \<open>IN_ISR\<close> set; when it returns, exactly the pending bit of
  that vector is cleared and the level is what the handler left, minus one.  \<open>IN_ISR\<close> is
  false afterwards even when the dispatch was nested in another handler.\<close>

theorem dispatch_runs_handler:
  assumes "irq_plain s R" "drop_bit 2 (R INTC_BASE - R (INTC_BASE + 4)) = vector" "unat vector < 64"
    and "\<And>m. plain m R \<Longrightarrow> \<exists>t. call_handler invoke (isr_table s (unat vector)) vector (entered m s) = Some t
      \<and> irq_plain t R' \<and> P t"
  shows "\<exists>t s'. P t \<and> dispatch invoke s = Some s' \<and> irq_plain s' (R'(pend_addr vector :=
        R' (pend_addr vector) AND NOT (bitm (unat vector)))) \<and>
     interrupt_nest s' = interrupt_nest t - 1 \<and> \<not> in_isr s' \<and> isr_table s' = isr_table t \<and> user s' = user t"
  using dispatch_call [OF assms(1-3)] assms(4) by blast

definition wake_user :: "bool \<Rightarrow> u32 \<Rightarrow> (bool, u32) irq_state \<Rightarrow> (bool, u32) irq_state option" where
  "wake_user h vector s = Some (s\<lparr>user := vector\<rparr>)"

definition irq_example :: "(bool, u32) irq_state" where
  "irq_example = \<lparr>io = regs_of (\<lambda>_ v. v) ((\<lambda>_. 0)(INTC_BASE := 0x34, INTC_BASE + 0x10 := 0x2001)),
     interrupt_nest = 0, in_isr_flag = False, isr_table = [13 \<mapsto> True], user = 0\<rparr>"

theorem dispatch_runs_handler_witness:
  "\<exists>s'. dispatch wake_user irq_example = Some s' \<and> user s' = 13 \<and> plain (io s')
     ((\<lambda>_. 0)(INTC_BASE := 0x34, INTC_BASE + 0x10 := 1)) \<and> interrupt_nest s' = 0"
proof -
  let ?R = "(\<lambda>_. 0)(INTC_BASE := 0x34, INTC_BASE + 0x10 := 0x2001) :: u32 \<Rightarrow> u32"
  have p: "irq_plain irq_example ?R" by (simp add: irq_example_def backed_regs_of)
  have v: "drop_bit 2 (?R INTC_BASE - ?R (INTC_BASE + 4)) = 13" by (simp add: INTC_BASE_def)
  have r: "?R(pend_addr 13 := ?R (pend_addr 13) AND NOT (bitm (unat (13 :: u32)))) =
    (\<lambda>_. 0)(INTC_BASE := 0x34, INTC_BASE + 0x10 := 1)"
  proof -
    have "pend_addr 13 = INTC_BASE + 0x10" "unat (13 :: u32) = 13" "(0x2001 :: u32) AND NOT (bitm 13) = 1"
      by (code_simp, code_simp, code_simp)
    then show ?thesis by simp
  qed
  have h: "\<exists>t. call_handler wake_user (isr_table irq_example (unat (13 :: u32))) 13 (entered m irq_example) = Some t
      \<and> irq_plain t ?R \<and> user t = 13 \<and> interrupt_nest t = 1" if "plain m ?R" for m
    using that by (auto simp: call_handler_def irq_example_def wake_user_def entered_def)
  from dispatch_runs_handler [OF p v _ h] r show ?thesis by fastforce
qed

end
