(* ===== verification/Demo.thy ===== *)
theory Demo
  imports MsgQueue Event Signal Mmu Interrupt Thread_Claims
begin

text \<open>
  The start of \<open>docs/examples/mt_demo.rs\<close>, an application of the library: MMU, interrupt
  controller and scheduler are set up, the threads are created, the tick is connected and
  the scheduler is started; the body of the monitor thread.  The stacks are arguments.  The
  bodies of the sensor and the display thread are left out: they transmute a structure of 12
  bytes into an array of 16, which the compiler refuses.
\<close>

section \<open>The state of the application\<close>

definition MSG_SIZE :: usize where "MSG_SIZE = 16"
definition QUEUE_CAPACITY_BYTES :: usize where "QUEUE_CAPACITY_BYTES = MSG_SIZE * 8"
definition TICK_MS :: u32 where "TICK_MS = 1"
definition SYSTEM_READY :: u32 where "SYSTEM_READY = push_bit 0 1"
definition SENSOR_ACTIVE :: u32 where "SENSOR_ACTIVE = push_bit 1 1"
definition DISPLAY_ACTIVE :: u32 where "DISPLAY_ACTIVE = push_bit 2 1"
definition SHUTDOWN_REQUESTED :: u32 where "SHUTDOWN_REQUESTED = push_bit 3 1"

text \<open>The handlers that the application installs: \<open>timer_isr\<close>, and the closure of the monitor.\<close>

datatype demo_isr = Timer_isr
datatype demo_signal = Shutdown_handler

record demo_mem =
  dm_kernel :: kernel
  dm_mmu :: mmu_state
  SYS_STATE :: event_flags
  dm_signals :: "demo_signal signals"

type_synonym demo_state = "(demo_isr, demo_mem) irq_state"

definition demo_kernel :: "demo_state \<Rightarrow> kernel" where "demo_kernel s = dm_kernel (user s)"
definition set_kernel :: "kernel \<Rightarrow> demo_state \<Rightarrow> demo_state" where "set_kernel k s = s\<lparr>user := (user s)\<lparr>dm_kernel := k\<rparr>\<rparr>"

definition on_sys :: "(event_state \<Rightarrow> ('a \<times> event_state) option) \<Rightarrow> demo_state \<Rightarrow> ('a \<times> demo_state) option" where
  "on_sys f s = do {
     (r, k, e) \<leftarrow> f (demo_kernel s, SYS_STATE (user s));
     Some (r, s\<lparr>user := (user s)\<lparr>dm_kernel := k, SYS_STATE := e\<rparr>\<rparr>)
   }"

definition sys_set :: "u32 \<Rightarrow> demo_state \<Rightarrow> demo_state option" where
  "sys_set flags s = do { (_, s) \<leftarrow> on_sys (\<lambda>ke. map_option (Pair ()) (event_set flags ke)) s; Some s }"

section \<open>Initialisation\<close>

definition demo_map :: "mem_desc list" where
  "demo_map = [mem_desc_new 0x00000000 0xFFFFFFFF 0x00000000 RW_NCNB, mem_desc_new 0x80000000 0x81FFFFFF 0x80000000 RW_CB]"

definition system_init :: "demo_state \<Rightarrow> demo_state option" where
  "system_init s = do {
     m \<leftarrow> mmu_init demo_map (dm_mmu (user s));
     let s = intc_init (s\<lparr>user := (user s)\<lparr>dm_mmu := m\<rparr>\<rparr>);
     Some (set_kernel (sched_init (demo_kernel s)) s)
   }"

text \<open>The addresses of the four stacks.\<close>

record demo_stacks =
  idle_stack :: u32
  sensor_stack :: u32
  display_stack :: u32
  monitor_stack :: u32

definition create_threads :: "demo_stacks \<Rightarrow> kernel \<Rightarrow> (nat \<times> kernel) option" where
  "create_threads st k = do {
     let (h, k) = thread_create ''sensor'' (sensor_stack st) 4096 2 5 k;
     sensor_h \<leftarrow> h;
     let (h, k) = thread_create ''display'' (display_stack st) 4096 3 5 k;
     display_h \<leftarrow> h;
     let (h, k) = thread_create ''monitor'' (monitor_stack st) 2048 1 10 k;
     monitor_h \<leftarrow> h;
     let (h, k) = thread_create ''idle'' (idle_stack st) 2048 31 10 k;
     idle_h \<leftarrow> h;
     Some (sensor_h, k)
   }"

definition start_timer :: "demo_state \<Rightarrow> demo_state" where
  "start_timer s = (let (_, s) = install TIMER0_INTERRUPT Timer_isr s in unmask_irq TIMER0_INTERRUPT s)"

definition timer_isr :: "demo_state \<Rightarrow> demo_state option" where
  "timer_isr s = do { k \<leftarrow> sched_tick (demo_kernel s); Some (set_kernel k s) }"

fun demo_invoke :: "(demo_isr, demo_mem) isr_invoker" where
  "demo_invoke Timer_isr vector s = timer_isr s"

text \<open>\<open>rust_main\<close> up to the change of the CPSR, and the rest; \<open>irqs\<close> are the interrupts that are served
  before the scheduler runs.  The result is the state in which the first thread starts.\<close>

definition demo_setup :: "demo_stacks \<Rightarrow> demo_state \<Rightarrow> demo_state option" where
  "demo_setup st s = do {
     s \<leftarrow> system_init s;
     message_queue \<leftarrow> mq_new (replicate (unat QUEUE_CAPACITY_BYTES) 0) MSG_SIZE;
     (sensor_thread, k) \<leftarrow> create_threads st (demo_kernel s);
     s \<leftarrow> sys_set SYSTEM_READY (set_kernel k s);
     let s = start_timer s;
     Some (set_kernel ((demo_kernel s)\<lparr>cpsr := interrupt_enable MODE_SVC (cpsr (demo_kernel s))\<rparr>) s)
   }"

definition rust_main :: "(demo_state \<Rightarrow> demo_state option) \<Rightarrow> demo_stacks \<Rightarrow> demo_state \<Rightarrow> demo_state option" where
  "rust_main irqs st s = do {
     s \<leftarrow> demo_setup st s;
     s \<leftarrow> irqs s;
     k \<leftarrow> sched_start (demo_kernel s);
     Some (set_kernel k s)
   }"

section \<open>The monitor thread\<close>

text \<open>\<open>run\<close> is what the rest of the system does until the thread is resumed.\<close>

definition demo_sleep :: "(demo_state \<Rightarrow> demo_state option) \<Rightarrow> u32 \<Rightarrow> demo_state \<Rightarrow> demo_state option" where
  "demo_sleep run ticks s = do {
     let (c, k) = mask_kernel (demo_kernel s);
     (sw, k) \<leftarrow> thread_sleep_enter ticks k;
     s \<leftarrow> resume_with run sw (set_kernel k s);
     Some (set_kernel (unmask_kernel c (demo_kernel s)) s)
   }"

definition demo_wait :: "(demo_state \<Rightarrow> demo_state option) \<Rightarrow> u32 \<Rightarrow> event_mode \<Rightarrow> bool \<Rightarrow> u32 option \<Rightarrow> demo_state \<Rightarrow>
    ((event_error + u32) \<times> demo_state) option" where
  "demo_wait run flags mode clear tmo s = do {
     let i = current_id (demo_kernel s);
     (r, s) \<leftarrow> on_sys (event_wait_enter flags mode clear tmo) s;
     case r of Inl res \<Rightarrow> Some (res, s)
     | Inr sw \<Rightarrow> do {
         s \<leftarrow> resume_with run sw s;
         on_sys (event_wait_resume i flags clear) s
       }
   }"

definition install_shutdown :: "demo_state \<Rightarrow> demo_state option" where
  "install_shutdown s = do {
     (_, k, g, _) \<leftarrow> signal_install 0 Shutdown_handler (demo_kernel s, dm_signals (user s), ());
     Some (s\<lparr>user := (user s)\<lparr>dm_kernel := k, dm_signals := g\<rparr>\<rparr>)
   }"

text \<open>The count of the semaphore is read each round, and nothing is done with it.\<close>

partial_function (option) monitor_loop :: "(demo_state \<Rightarrow> demo_state option) \<Rightarrow> demo_state \<Rightarrow> demo_state option" where
  "monitor_loop run s = do {
     s \<leftarrow> demo_sleep run (TICK_MS * 1000) s;
     let state = event_get (SYS_STATE (user s));
     if state AND (SENSOR_ACTIVE OR DISPLAY_ACTIVE) = 0 then Some s else monitor_loop run s
   }"

definition monitor_thread :: "(demo_state \<Rightarrow> demo_state option) \<Rightarrow> demo_state \<Rightarrow> (bool \<times> demo_state) option" where
  "monitor_thread run s = do {
     (_, s) \<leftarrow> demo_wait run (SENSOR_ACTIVE OR DISPLAY_ACTIVE) AndMode False (Some (TICK_MS * 500)) s;
     s \<leftarrow> install_shutdown s;
     s \<leftarrow> monitor_loop run s;
     s \<leftarrow> sys_set SHUTDOWN_REQUESTED s;
     (sw, k) \<leftarrow> thread_exit (demo_kernel s);
     Some (sw, set_kernel k s)
   }"

end
