(* ===== verification/Demo_Props.thy ===== *)
theory Demo_Props
  imports Demo
begin

text \<open>
  The application of theory \<open>Demo\<close> starts with the monitor thread on the processor; but the tick
  must not come earlier, and the monitor never ends.
\<close>

section \<open>Creating threads\<close>

lemma find_first: "n < m \<Longrightarrow> P n \<Longrightarrow> (\<And>j. j < n \<Longrightarrow> \<not> P j) \<Longrightarrow> find P [0..<m] = Some n"
  by (auto simp: find_Some_iff intro!: exI [of _ n])

text \<open>Before the start, with threads in the first slots only.\<close>

definition first_slots :: "nat \<Rightarrow> (nat \<Rightarrow> thread option) \<Rightarrow> u32 \<Rightarrow> kernel \<Rightarrow> bool" where
  "first_slots n T c k \<longleftrightarrow> threads k = T \<and> (\<forall>j. T j \<noteq> None \<longleftrightarrow> j < n) \<and> reachable k \<and> \<not> started k \<and> initialized k \<and> cpsr k = c \<and>
     thread_count k = word_of_nat n \<and> (\<forall>j < n. saved_cpsr k j = 0x13)"

lemma first_slots_init: "first_slots 0 Map.empty (cpsr k) (sched_init k)"
  by (simp add: first_slots_def reachable.init) (simp add: sched_init_def scheduler_new_def)

lemma create_next:
  assumes "first_slots n T c k" "n < 32"
  obtains k' where "thread_create nm base len p tck k = (Some n, k')" "first_slots (Suc n) (T(n \<mapsto> new_thread nm base len (min p 31) tck n)) c k'"
proof -
  note k = assms(1) [unfolded first_slots_def]
  have f: "free_slot (k\<lparr>cpsr := c'\<rparr>) = Some n" for c'
    unfolding free_slot_def MAX_THREADS_def using k assms(2) by (intro find_first) auto
  let ?k = "(set_thread n (new_thread nm base len (min p 31) tck n) k)\<lparr>thread_count := thread_count k + 1,
    ready_bitmap := ready_bitmap k OR bitm (unat (min p 31)), saved_cpsr := (saved_cpsr k)(n := 0x13)\<rparr>"
  have k': "thread_create nm base len p tck k = (Some n, ?k)"
    by (simp add: thread_create_def thread_create_inner_def mask_kernel_def unmask_kernel_def f Let_def set_thread_def)
  have "reachable ?k" by (rule reachable.step [OF _ kstep.create [OF k']]) (use k in simp)
  then have "first_slots (Suc n) (T(n \<mapsto> new_thread nm base len (min p 31) tck n)) c ?k"
    unfolding first_slots_def using k by (simp add: set_thread_def less_Suc_eq add.commute)
  with k' show thesis by (rule that)
qed

text \<open>The four threads of the application.\<close>

definition demo_thread :: "demo_stacks \<Rightarrow> nat \<Rightarrow> thread option" where
  "demo_thread st = [0 \<mapsto> new_thread ''sensor'' (sensor_stack st) 4096 2 5 0, 1 \<mapsto> new_thread ''display'' (display_stack st) 4096 3 5 1,
     2 \<mapsto> new_thread ''monitor'' (monitor_stack st) 2048 1 10 2, 3 \<mapsto> new_thread ''idle'' (idle_stack st) 2048 31 10 3]"

lemma create_threads_result:
  obtains k' where "create_threads st (sched_init k) = Some (0, k')" "first_slots 4 (demo_thread st) (cpsr k) k'"
proof -
  obtain k1 where k1: "thread_create ''sensor'' (sensor_stack st) 4096 2 5 (sched_init k) = (Some 0, k1)"
    "first_slots (Suc 0) [0 \<mapsto> new_thread ''sensor'' (sensor_stack st) 4096 (min 2 31) 5 0] (cpsr k) k1"
    using first_slots_init by (rule create_next) simp
  obtain k2 where k2: "thread_create ''display'' (display_stack st) 4096 3 5 k1 = (Some (Suc 0), k2)"
    "first_slots (Suc (Suc 0)) [0 \<mapsto> new_thread ''sensor'' (sensor_stack st) 4096 (min 2 31) 5 0,
       Suc 0 \<mapsto> new_thread ''display'' (display_stack st) 4096 (min 3 31) 5 (Suc 0)] (cpsr k) k2"
    using k1(2) by (rule create_next) simp
  obtain k3 where k3: "thread_create ''monitor'' (monitor_stack st) 2048 1 10 k2 = (Some (Suc (Suc 0)), k3)"
    "first_slots (Suc (Suc (Suc 0))) [0 \<mapsto> new_thread ''sensor'' (sensor_stack st) 4096 (min 2 31) 5 0,
       Suc 0 \<mapsto> new_thread ''display'' (display_stack st) 4096 (min 3 31) 5 (Suc 0),
       Suc (Suc 0) \<mapsto> new_thread ''monitor'' (monitor_stack st) 2048 (min 1 31) 10 (Suc (Suc 0))] (cpsr k) k3"
    using k2(2) by (rule create_next) simp
  obtain k4 where k4: "thread_create ''idle'' (idle_stack st) 2048 31 10 k3 = (Some (Suc (Suc (Suc 0))), k4)"
    "first_slots (Suc (Suc (Suc (Suc 0)))) [0 \<mapsto> new_thread ''sensor'' (sensor_stack st) 4096 (min 2 31) 5 0,
       Suc 0 \<mapsto> new_thread ''display'' (display_stack st) 4096 (min 3 31) 5 (Suc 0),
       Suc (Suc 0) \<mapsto> new_thread ''monitor'' (monitor_stack st) 2048 (min 1 31) 10 (Suc (Suc 0)),
       Suc (Suc (Suc 0)) \<mapsto> new_thread ''idle'' (idle_stack st) 2048 (min 31 31) 10 (Suc (Suc (Suc 0)))] (cpsr k) k4"
    using k3(2) by (rule create_next) simp
  have m: "min 2 31 = (2 :: u8)" "min 3 31 = (3 :: u8)" "min 1 31 = (1 :: u8)" "min 31 31 = (31 :: u8)" by (simp_all add: min_def)
  have n: "1 = Suc 0" "2 = Suc (Suc 0)" "3 = Suc (Suc (Suc 0))" "4 = Suc (Suc (Suc (Suc 0)))" by simp_all
  have "create_threads st (sched_init k) = Some (0, k4)" by (simp add: create_threads_def k1(1) k2(1) k3(1) k4(1))
  moreover have "first_slots 4 (demo_thread st) (cpsr k) k4" using k4(2) unfolding demo_thread_def m n .
  ultimately show thesis by (rule that)
qed

section \<open>A tick before the start\<close>

lemma early_tick_panics:
  assumes "reachable k" "\<not> started k" "threads k i = Some t" "t_state t = Ready"
  shows "sched_tick k = None"
proof (rule ccontr)
  assume "sched_tick k \<noteq> None"
  then obtain k1 where k1: "wake_sleepers (tick_count k + 1) [0..<MAX_THREADS] (k\<lparr>tick_count := tick_count k + 1\<rparr>) = Some k1"
      "tick_slice (tick_signals k1) \<bind> (\<lambda>r. case r of Inl k \<Rightarrow> Some k | Inr k \<Rightarrow> tick_preempt k) \<noteq> None"
    by (auto simp: sched_tick_def Let_def split: Option.bind_splits)
  have ok: "sys_ok k" by (rule reachable_ok [OF assms(1)])
  have "\<not> current_id k < 32" using current_started [OF sys_okD(1) [OF ok]] assms(2) by blast
  moreover have cur: "current_id k1 = current_id k" and th: "threads k1 i = (if i < 32 then map_option (woken (tick_count k + 1)) (threads k i) else threads k i)"
    using wake_sleepers_threads [OF k1(1)] by (simp_all add: MAX_THREADS_def)
  ultimately have big: "\<not> current_id k1 < MAX_THREADS" by (simp add: MAX_THREADS_def)
  have "woken (tick_count k + 1) t = t" using assms(4) by (simp add: woken_def due_def)
  then have "threads k1 i = Some t" using th assms(3) by (simp split: if_splits)
  moreover have "sys_ok k1" by (rule wake_sleepers_ok [OF _ k1(1)]) (use ok in simp)
  ultimately have "bit (ready_bitmap k1) (prio t)" using ready_bit [OF sys_okD(1)] assms(4) by blast
  then have "ready_bitmap k1 \<noteq> 0" by auto
  moreover have "tick_signals k1 = k1" "tick_slice k1 = Some (Inr k1)" using big by (simp_all add: tick_signals_def tick_slice_def)
  ultimately show False using k1(2) big by (simp add: tick_preempt_def slot_def)
qed

text \<open>C36. A tick must not come before \<open>sched_start\<close>: once a thread has been created, \<open>sched_tick\<close> panics
  until the scheduler has started, because it indexes the array of threads with the id
  \<open>0xFF\<close> of no thread.  The example enables interrupts, with the tick installed, before it
  starts the scheduler.\<close>

theorem tick_before_start_panics:
  assumes "reachable k" "\<not> started k" "threads k i = Some t" "t_state t = Ready"
  shows "sched_tick k = None"
  by (rule early_tick_panics [OF assms])

theorem tick_before_start_panics_witness: "sched_tick three = None"
proof -
  have "threads three 0 \<noteq> None \<and> map_option t_state (threads three 0) = Some Ready \<and> \<not> started three" by code_simp
  then obtain t where "threads three 0 = Some t" "t_state t = Ready" "\<not> started three" by auto
  then show ?thesis using tick_before_start_panics [OF three_reachable] by blast
qed

section \<open>The start\<close>

text \<open>The highest-priority thread runs first.\<close>

lemma start_runs_first:
  assumes "reachable k" "\<not> started k" "initialized k" "threads k i = Some t" "t_state t = Ready"
    and "\<And>j u. threads k j = Some u \<Longrightarrow> t_state u = Ready \<and> (j \<noteq> i \<longrightarrow> prio t < prio u)"
  obtains k' where "sched_start k = Some k'" "reachable k'" "current_id k' = i" "threads k' = (threads k)(i \<mapsto> t\<lparr>t_state := Running\<rparr>)"
    "started k'" "cpsr k' = saved_cpsr k i" "thread_count k' = thread_count k"
proof -
  note K = sys_okD(1) [OF reachable_ok [OF assms(1)]]
  have "pick_next k \<noteq> None" using pick_next_None [OF K _ assms(4,5)] assms(6) by fastforce
  then obtain j where j: "pick_next k = Some j" by blast
  from pick_next_Some(1) [OF K j] obtain u where u: "threads k j = Some u" "prio u = trailing_zeros (ready_bitmap k)" by blast
  have "prio u \<le> prio t" using pick_next_Some(3) [OF K j assms(4,5)] u(2) by simp
  then have ji: "j = i" using assms(6) [OF u(1)] by auto
  then have ut: "u = t" using u(1) assms(4) by simp
  have "prio t < MAX_PRIORITY" using slot_thread [OF K assms(4)] by (simp add: MAX_PRIORITY_def)
  then have "sched_start k = Some (context_switch_to i ((set_thread i (t\<lparr>t_state := Running\<rparr>) k)
      \<lparr>rr_cursor := (rr_cursor k)(prio t := i), current_id := i, started := True\<rparr>))" (is "_ = Some ?k")
    using j ji ut u(1) assms(3) pick_next_Some(2) [OF K j]
    by (simp add: sched_start_def slot_def MAX_THREADS_def assert_that_def set_thread_def prio_def)
  moreover from this have "reachable ?k" by (rule reachable.step [OF assms(1) kstep.start])
  ultimately show thesis by (rule that) (simp_all add: context_switch_to_def set_thread_def)
qed

lemma demo_map_covers: "covers (demo_map ! 0) va" "covers (demo_map ! 1) va \<longleftrightarrow> 0x800 \<le> drop_bit 20 va \<and> drop_bit 20 va \<le> 0x81F"
proof -
  have "drop_bit 20 (0xFFFFFFFF :: u32) = 0xFFF" "drop_bit 20 (0x80000000 :: u32) = 0x800" "drop_bit 20 (0x81FFFFFF :: u32) = 0x81F" by simp_all
  moreover have "drop_bit 20 va \<le> 0xFFF" using section_lt [of va] by (simp add: word_le_nat_alt)
  ultimately show "covers (demo_map ! 0) va" "covers (demo_map ! 1) va \<longleftrightarrow> 0x800 \<le> drop_bit 20 va \<and> drop_bit 20 va \<le> 0x81F"
    by (simp_all add: covers_def demo_map_def mem_desc_new_def)
qed

text \<open>The flat map of the application: DRAM is cached, the rest is not.\<close>

lemma demo_map_flat:
  assumes "length (ms_table m) = 4096" "cp15_ops (ms_cp15 m) = []"
  obtains m' where "mmu_init demo_map m = Some m'" "mmu_status (ms_cp15 m')"
    "\<And>va. translate (ms_table m') va = va \<and> section_lookup (ms_table m') va AND mask 20 =
       (if 0x800 \<le> drop_bit 20 va \<and> drop_bit 20 va \<le> 0x81F then RW_CB else RW_NCNB)"
proof -
  have at: "\<forall>d \<in> set demo_map. md_attr d < 2 ^ 20" by code_simp
  from mmu_init_result [OF assms at] obtain m' where m': "mmu_init demo_map m = Some m'" "mmu_status (ms_cp15 m')"
    and look: "\<And>va. case find (\<lambda>d. covers d va) (rev demo_map) of
        Some d \<Rightarrow> translate (ms_table m') va = (paddr_start d AND NOT (mask 20)) + (va - (vaddr_start d AND NOT (mask 20)))
          \<and> section_lookup (ms_table m') va AND mask 20 = md_attr d
      | None \<Rightarrow> section_lookup (ms_table m') va = section_lookup (ms_table m) va" by blast
  have f: "find (\<lambda>d. covers d va) (rev demo_map) =
      Some (if 0x800 \<le> drop_bit 20 va \<and> drop_bit 20 va \<le> 0x81F then demo_map ! 1 else demo_map ! 0)" for va
    using demo_map_covers [of va] by (simp add: demo_map_def)
  have "translate (ms_table m') va = va \<and> section_lookup (ms_table m') va AND mask 20 =
       (if 0x800 \<le> drop_bit 20 va \<and> drop_bit 20 va \<le> 0x81F then RW_CB else RW_NCNB)" for va
    using look [of va] unfolding f by (simp add: demo_map_def mem_desc_new_def split: if_splits)
  then show thesis using that m' by blast
qed

lemma demo_setup_result:
  assumes "length (ms_table (dm_mmu (user s))) = 4096" "cp15_ops (ms_cp15 (dm_mmu (user s))) = []" "SYS_STATE (user s) = event_new"
  obtains s' m' where "demo_setup st s = Some s'" "first_slots 4 (demo_thread st) (interrupt_enable MODE_SVC (cpsr (demo_kernel s))) (demo_kernel s')"
    "mmu_init demo_map (dm_mmu (user s)) = Some m'" "dm_mmu (user s') = m'" "ev_flags (SYS_STATE (user s')) = SYSTEM_READY"
    "isr_table s' = (isr_table s)(13 \<mapsto> Timer_isr)"
proof -
  obtain m' where m': "mmu_init demo_map (dm_mmu (user s)) = Some m'" using demo_map_flat [OF assms(1,2)] by metis
  let ?s1 = "intc_init (s\<lparr>user := (user s)\<lparr>dm_mmu := m'\<rparr>\<rparr>)"
  have s1: "user ?s1 = (user s)\<lparr>dm_mmu := m'\<rparr>" "isr_table ?s1 = isr_table s" by (simp_all add: intc_init_def intc_wr_def)
  obtain k where k: "create_threads st (sched_init (demo_kernel s)) = Some (0, k)" "first_slots 4 (demo_thread st) (cpsr (demo_kernel s)) k"
    by (rule create_threads_result)
  obtain q where q: "mq_new (replicate (unat QUEUE_CAPACITY_BYTES) 0) MSG_SIZE = Some q"
    using mq_new_refines [of MSG_SIZE "replicate (unat QUEUE_CAPACITY_BYTES) 0"] by (auto simp: MSG_SIZE_def QUEUE_CAPACITY_BYTES_def)
  have ev: "event_set SYSTEM_READY (k, event_new) = Some (k, event_new\<lparr>ev_flags := SYSTEM_READY\<rparr>)"
    by (simp add: event_set_def check_waiters_def check_loop.simps event_new_def mask_kernel_def unmask_kernel_def Let_def)
  let ?s2 = "?s1\<lparr>user := (user ?s1)\<lparr>dm_kernel := k, SYS_STATE := event_new\<lparr>ev_flags := SYSTEM_READY\<rparr>\<rparr>\<rparr>"
  have st: "user (start_timer s) = user s" "isr_table (start_timer s) = (isr_table s)(13 \<mapsto> Timer_isr)" for s
    by (simp_all add: start_timer_def install_def unmask_irq_def TIMER0_INTERRUPT_def group_regs_def vector_group_def intc_rd_def intc_wr_def split_beta Let_def)
  let ?s3 = "set_kernel (k\<lparr>cpsr := interrupt_enable MODE_SVC (cpsr k)\<rparr>) (start_timer ?s2)"
  have "demo_setup st s = Some ?s3"
    using k(1) s1 assms(3) by (simp add: demo_setup_def system_init_def m' q ev sys_set_def on_sys_def st demo_kernel_def set_kernel_def Let_def)
  moreover have "first_slots 4 (demo_thread st) (interrupt_enable MODE_SVC (cpsr (demo_kernel s))) (demo_kernel ?s3)"
    using k(2) reachable.step [OF _ kstep.write_cpsr] by (simp add: first_slots_def demo_kernel_def set_kernel_def)
  ultimately show thesis using that m' s1 by (simp add: set_kernel_def st event_new_def)
qed


text \<open>An interrupt of the tick between the change of the CPSR and the start of the scheduler.\<close>

theorem demo_early_tick:
  assumes "length (ms_table (dm_mmu (user s))) = 4096" "cp15_ops (ms_cp15 (dm_mmu (user s))) = []" "SYS_STATE (user s) = event_new"
  shows "rust_main (demo_invoke Timer_isr TIMER0_INTERRUPT) st s = None"
proof -
  obtain s1 where s1: "demo_setup st s = Some s1" "first_slots 4 (demo_thread st) (interrupt_enable MODE_SVC (cpsr (demo_kernel s))) (demo_kernel s1)"
    using demo_setup_result [OF assms] by metis
  note k = s1(2) [unfolded first_slots_def]
  have "threads (demo_kernel s1) 2 = Some (new_thread ''monitor'' (monitor_stack st) 2048 1 10 2)" using k by (simp add: demo_thread_def)
  then have "sched_tick (demo_kernel s1) = None"
    by (rule early_tick_panics [rotated 2]) (use k in \<open>simp_all add: new_thread_def\<close>)
  then show ?thesis by (simp add: rust_main_def s1(1) timer_isr_def)
qed

section \<open>The monitor\<close>

text \<open>As long as what runs in between leaves one of the two bits set, and nothing of the
  application clears them, the loop of the monitor does not end, and the shutdown is
  never requested.\<close>

lemma sleep_keeps:
  assumes "demo_sleep run n s = Some s'" "ev_flags (SYS_STATE (user s)) AND fl \<noteq> 0"
    "\<And>s s'. run s = Some s' \<Longrightarrow> ev_flags (SYS_STATE (user s')) AND fl \<noteq> 0"
  shows "ev_flags (SYS_STATE (user s')) AND fl \<noteq> 0"
  using assms by (auto simp: demo_sleep_def resume_with_def set_kernel_def split: Option.bind_splits if_splits prod.splits)

definition worker_active :: "demo_state \<Rightarrow> bool" where
  "worker_active s \<longleftrightarrow> ev_flags (SYS_STATE (user s)) AND (SENSOR_ACTIVE OR DISPLAY_ACTIVE) \<noteq> 0"

theorem monitor_never_ends:
  assumes "\<And>s s'. run s = Some s' \<Longrightarrow> worker_active s'" "worker_active s"
  shows "monitor_loop run s = None"
proof (cases "monitor_loop run s")
  case (Some y)
  have "(\<forall>s s'. run s = Some s' \<longrightarrow> worker_active s') \<longrightarrow> worker_active s \<longrightarrow> False"
  proof (rule monitor_loop.raw_induct [OF _ Some, of "\<lambda>run s y. (\<forall>s s'. run s = Some s' \<longrightarrow> worker_active s') \<longrightarrow> worker_active s \<longrightarrow> False"], intro impI)
    fix loop run s y
    assume ih: "\<And>run s y. loop run s = Some y \<Longrightarrow> (\<forall>s s'. run s = Some s' \<longrightarrow> worker_active s') \<longrightarrow> worker_active s \<longrightarrow> False"
      and e: "do { s \<leftarrow> demo_sleep run (TICK_MS * 1000) s; let state = event_get (SYS_STATE (user s));
        if state AND (SENSOR_ACTIVE OR DISPLAY_ACTIVE) = 0 then Some s else loop run s } = Some (y :: demo_state)"
      and r: "\<forall>s s'. run s = Some s' \<longrightarrow> worker_active s'" and s: "worker_active s"
    from e obtain s1 where s1: "demo_sleep run (TICK_MS * 1000) s = Some s1" by (auto split: Option.bind_splits)
    have "worker_active s1" unfolding worker_active_def
      by (rule sleep_keeps [OF s1]) (use r s in \<open>auto simp: worker_active_def\<close>)
    then show False using e s1 ih r by (auto simp: worker_active_def event_get_def)
  qed
  with assms show ?thesis by blast
qed simp

text \<open>The table of the MMU as it is in the image, before anything ran.\<close>

definition demo_state0 :: demo_state where
  "demo_state0 = \<lparr>io = regs_of (\<lambda>_ v. v) (\<lambda>_. 0), interrupt_nest = 0, in_isr_flag = False, isr_table = (\<lambda>_. None),
     user = \<lparr>dm_kernel = blank_kernel, dm_mmu = \<lparr>ms_cp15 = \<lparr>c1_ctrl = 0, c2_ttbr0 = 0, c3_dacr = 0, cp15_ops = []\<rparr>,
       ms_table = page_table_new, table_base = 0x80004000\<rparr>, SYS_STATE = event_new, dm_signals = signals_init\<rparr>\<rparr>"

definition demo_stacks0 :: demo_stacks where
  "demo_stacks0 = \<lparr>idle_stack = 0x80100000, sensor_stack = 0x80101000, display_stack = 0x80102000, monitor_stack = 0x80103000\<rparr>"


end
