(* ===== verification/Clock.thy ===== *)
theory Clock
  imports Mmio
begin

text \<open>
  \<open>clock.rs\<close>: the PLLs, the bus dividers, clock gates and reset lines of the CCU, and the
  frequencies the other drivers compute their divisors from.
\<close>

section \<open>Registers and fields\<close>

definition CCU_BASE :: u32 where "CCU_BASE = 0x01C20000"
definition CCU_PLL_CPU_CTRL :: u32 where "CCU_PLL_CPU_CTRL = 0x000"
definition CCU_PLL_AUDIO_CTRL :: u32 where "CCU_PLL_AUDIO_CTRL = 0x008"
definition CCU_PLL_VIDEO_CTRL :: u32 where "CCU_PLL_VIDEO_CTRL = 0x010"
definition CCU_PLL_VE_CTRL :: u32 where "CCU_PLL_VE_CTRL = 0x018"
definition CCU_PLL_DDR_CTRL :: u32 where "CCU_PLL_DDR_CTRL = 0x020"
definition CCU_PLL_PERIPH_CTRL :: u32 where "CCU_PLL_PERIPH_CTRL = 0x028"
definition CCU_CPU_CFG :: u32 where "CCU_CPU_CFG = 0x050"
definition CCU_AHB_APB_CFG :: u32 where "CCU_AHB_APB_CFG = 0x054"

definition read_reg :: "u32 \<Rightarrow> mmio \<Rightarrow> u32 \<times> mmio" where
  "read_reg offset_bytes = rd32 (CCU_BASE + offset_bytes)"
definition write_reg :: "u32 \<Rightarrow> u32 \<Rightarrow> mmio \<Rightarrow> mmio" where
  "write_reg offset_bytes v = wr32 (CCU_BASE + offset_bytes) v"

definition HZ_24M :: u32 where "HZ_24M = 24000000"
definition HZ_32K :: u32 where "HZ_32K = 32000"

definition src_LOSC :: u32 where "src_LOSC = 0"
definition src_OSC24M :: u32 where "src_OSC24M = 1"
definition src_PLL :: u32 where "src_PLL = 2"
definition src_PRE_DIV :: u32 where "src_PRE_DIV = 3"

definition pll_cpu_p :: "u32 \<Rightarrow> u32" where "pll_cpu_p r = get_field 16 0x3 r"
definition pll_cpu_n :: "u32 \<Rightarrow> u32" where "pll_cpu_n r = get_field 8 0x1F r"
definition pll_cpu_k :: "u32 \<Rightarrow> u32" where "pll_cpu_k r = get_field 4 0x3 r"
definition pll_cpu_m :: "u32 \<Rightarrow> u32" where "pll_cpu_m r = r AND 0x3"
definition pll_audio_n :: "u32 \<Rightarrow> u32" where "pll_audio_n r = get_field 8 0x7F r"
definition pll_audio_m :: "u32 \<Rightarrow> u32" where "pll_audio_m r = r AND 0x1F"
definition pll_video_n :: "u32 \<Rightarrow> u32" where "pll_video_n r = get_field 8 0x7F r"
definition pll_video_m :: "u32 \<Rightarrow> u32" where "pll_video_m r = r AND 0xF"
definition pll_ve_n :: "u32 \<Rightarrow> u32" where "pll_ve_n r = get_field 8 0x7F r"
definition pll_ve_m :: "u32 \<Rightarrow> u32" where "pll_ve_m r = r AND 0xF"
definition pll_ddr_n :: "u32 \<Rightarrow> u32" where "pll_ddr_n r = get_field 8 0x1F r"
definition pll_ddr_k :: "u32 \<Rightarrow> u32" where "pll_ddr_k r = get_field 4 0x3 r"
definition pll_ddr_m :: "u32 \<Rightarrow> u32" where "pll_ddr_m r = r AND 0x3"
definition pll_periph_n :: "u32 \<Rightarrow> u32" where "pll_periph_n r = get_field 8 0x1F r"
definition pll_periph_k :: "u32 \<Rightarrow> u32" where "pll_periph_k r = get_field 4 0x3 r"
definition FRAC_OUT :: u32 where "FRAC_OUT = bitm 25"
definition MODE_SEL :: u32 where "MODE_SEL = bitm 24"

definition hclkc_div :: "u32 \<Rightarrow> u32" where "hclkc_div r = get_field 16 0x3 r"
definition ahb_src :: "u32 \<Rightarrow> u32" where "ahb_src r = get_field 12 0x3 r"
definition apb_div :: "u32 \<Rightarrow> u32" where "apb_div r = get_field 8 0x3 r"
definition ahb_pre_div :: "u32 \<Rightarrow> u32" where "ahb_pre_div r = get_field 6 0x3 r"
definition ahb_div :: "u32 \<Rightarrow> u32" where "ahb_div r = get_field 4 0x3 r"
definition DIV4 :: u32 where "DIV4 = 2"
definition DIV8 :: u32 where "DIV8 = 3"

section \<open>Waiting\<close>

text \<open>\<open>sdelay\<close> counts a register of the processor down and touches no memory.\<close>

definition wait_pll_stable :: "u32 \<Rightarrow> mmio \<Rightarrow> bool \<times> mmio" where
  "wait_pll_stable offset = poll32_max 0xFFFF (CCU_BASE + offset) (\<lambda>v. v AND bitm 28 \<noteq> 0)"

section \<open>Frequencies\<close>

definition cpu_pll_hz :: "mmio \<Rightarrow> u32 \<times> mmio" where
  "cpu_pll_hz m = (let (c, m) = read_reg CCU_PLL_CPU_CTRL m in
     (if c AND bitm 31 = 0 then 0 else
        let n = pll_cpu_n c + 1; k = pll_cpu_k c + 1; mm = pll_cpu_m c + 1;
            p = push_bit (unat (pll_cpu_p c)) 1
        in HZ_24M * n * k div (mm * p), m))"

definition periph_pll_hz :: "mmio \<Rightarrow> u32 \<times> mmio" where
  "periph_pll_hz m = (let (c, m) = read_reg 0x028 m in
     (if c AND bitm 31 = 0 then 0 else HZ_24M * (pll_periph_n c + 1) * (pll_periph_k c + 1), m))"

definition audio_pll_hz :: "mmio \<Rightarrow> u32 \<times> mmio" where
  "audio_pll_hz m = (let (c, m) = read_reg 0x008 m in
     (if c AND bitm 31 = 0 then 0 else HZ_24M * 2 * (pll_audio_n c + 1) div (pll_audio_m c + 1), m))"

definition video_pll_hz :: "mmio \<Rightarrow> u32 \<times> mmio" where
  "video_pll_hz m = (let (c, m) = read_reg 0x010 m in
     (if c AND bitm 31 = 0 then 0
      else if c AND MODE_SEL \<noteq> 0 then HZ_24M * (pll_video_n c + 1) div (pll_video_m c + 1)
      else if c AND FRAC_OUT \<noteq> 0 then 270000000 else 297000000, m))"

definition ve_pll_hz :: "mmio \<Rightarrow> u32 \<times> mmio" where
  "ve_pll_hz m = (let (c, m) = read_reg 0x018 m in
     (if c AND bitm 31 = 0 then 0
      else if c AND MODE_SEL \<noteq> 0 then HZ_24M * (pll_ve_n c + 1) div (pll_ve_m c + 1)
      else if c AND FRAC_OUT \<noteq> 0 then 297000000 else 270000000, m))"

definition ddr_pll_hz :: "mmio \<Rightarrow> u32 \<times> mmio" where
  "ddr_pll_hz m = (let (c, m) = read_reg 0x020 m in
     (if c AND bitm 31 = 0 then 0
      else HZ_24M * (pll_ddr_n c + 1) * (pll_ddr_k c + 1) div (pll_ddr_m c + 1), m))"

definition cpu_clk_src :: "mmio \<Rightarrow> u32 \<times> mmio" where
  "cpu_clk_src m = (let (v, m) = read_reg CCU_CPU_CFG m in (get_field 16 0x3 v, m))"

definition cpu_hz :: "mmio \<Rightarrow> u32 \<times> mmio" where
  "cpu_hz m = (let (src, m) = cpu_clk_src m in
     if src = src_PLL then cpu_pll_hz m
     else (if src = src_OSC24M then HZ_24M else if src = src_LOSC then HZ_32K else 0, m))"

definition ahb_hz :: "mmio \<Rightarrow> u32 \<times> mmio" where
  "ahb_hz m = (let (cfg, m) = read_reg 0x054 m;
       src = ahb_src cfg; dv = push_bit (unat (ahb_div cfg)) 1; prediv = ahb_pre_div cfg in
     if src = src_LOSC then (HZ_32K div dv, m)
     else if src = src_OSC24M then (HZ_24M div dv, m)
     else if src = src_PLL then (let (hz, m) = cpu_pll_hz m in (hz div dv, m))
     else if src = src_PRE_DIV then (let (hz, m) = periph_pll_hz m in (hz div (prediv + 1) div dv, m))
     else (0, m))"

definition apb_hz :: "mmio \<Rightarrow> u32 \<times> mmio" where
  "apb_hz m = (let (cfg, m) = read_reg 0x054 m; dv = apb_div cfg; (ahb, m) = ahb_hz m in
     (if dv = DIV4 then ahb div 4 else if dv = DIV8 then ahb div 8 else ahb div 2, m))"

section \<open>Gates and resets\<close>

datatype bus_gate =
    UsbOtg | Spi1 | Spi0 | Sdram | Sd1 | Sd0 | Dma
  | Defe | Debe | Tve | Tvd | Csi | Deinterlace | LcdGate | Ve
  | Uart2 | Uart1 | Uart0 | Twi2 | Twi1 | Twi0 | Daudio | Rsb | Cir | Owa | AudioCodec

fun gate_code :: "bus_gate \<Rightarrow> u32" where
  "gate_code UsbOtg = 0x18" | "gate_code Spi1 = 0x15" | "gate_code Spi0 = 0x14"
| "gate_code Sdram = 0x0E" | "gate_code Sd1 = 0x09" | "gate_code Sd0 = 0x08" | "gate_code Dma = 0x06"
| "gate_code Defe = 0x100E" | "gate_code Debe = 0x100C" | "gate_code Tve = 0x100A" | "gate_code Tvd = 0x1009"
| "gate_code Csi = 0x1008" | "gate_code Deinterlace = 0x1005" | "gate_code LcdGate = 0x1004" | "gate_code Ve = 0x1000"
| "gate_code Uart2 = 0x2016" | "gate_code Uart1 = 0x2015" | "gate_code Uart0 = 0x2014"
| "gate_code Twi2 = 0x2012" | "gate_code Twi1 = 0x2011" | "gate_code Twi0 = 0x2010"
| "gate_code Daudio = 0x200C" | "gate_code Rsb = 0x2003" | "gate_code Cir = 0x2002" | "gate_code Owa = 0x2001"
| "gate_code AudioCodec = 0x2000"

datatype dram_gate = DgBe | DgFe | DgTvd | DgDeinterlace | DgCsi | DgVe

fun dram_gate_bit :: "dram_gate \<Rightarrow> nat" where
  "dram_gate_bit DgBe = 26" | "dram_gate_bit DgFe = 24" | "dram_gate_bit DgTvd = 3"
| "dram_gate_bit DgDeinterlace = 2" | "dram_gate_bit DgCsi = 1" | "dram_gate_bit DgVe = 0"

text \<open>The four gate operations differ in the registers of the three groups and in what they
  do to the bit; a group of 3 returns at once.\<close>

definition gate_rmw :: "u32 \<times> u32 \<times> u32 \<Rightarrow> (u32 \<Rightarrow> u32 \<Rightarrow> u32) \<Rightarrow> bus_gate \<Rightarrow> mmio \<Rightarrow> mmio" where
  "gate_rmw groups f gate m = (let v = gate_code gate; offset = v AND 0xFFF;
       g = drop_bit 12 v AND 0x3; (r0, r1, r2) = groups;
       upd = (\<lambda>r m. let (cur, m) = read_reg r m in write_reg r (f cur (bitm (unat offset))) m) in
     if g = 0 then upd r0 m else if g = 1 then upd r1 m else if g = 2 then upd r2 m else m)"

definition bus_gate_enable :: "bus_gate \<Rightarrow> mmio \<Rightarrow> mmio" where
  "bus_gate_enable = gate_rmw (0x060, 0x064, 0x068) (\<lambda>cur b. cur OR b)"
definition bus_gate_disable :: "bus_gate \<Rightarrow> mmio \<Rightarrow> mmio" where
  "bus_gate_disable = gate_rmw (0x060, 0x064, 0x068) (\<lambda>cur b. cur AND NOT b)"
definition sw_reset_assert :: "bus_gate \<Rightarrow> mmio \<Rightarrow> mmio" where
  "sw_reset_assert = gate_rmw (0x2C0, 0x2C4, 0x2D0) (\<lambda>cur b. cur AND NOT b)"
definition sw_reset_deassert :: "bus_gate \<Rightarrow> mmio \<Rightarrow> mmio" where
  "sw_reset_deassert = gate_rmw (0x2C0, 0x2C4, 0x2D0) (\<lambda>cur b. cur OR b)"

definition sw_reset_peripheral :: "bus_gate \<Rightarrow> mmio \<Rightarrow> mmio" where
  "sw_reset_peripheral gate m = sw_reset_deassert gate (sw_reset_assert gate m)"
definition bus_clk_init :: "bus_gate \<Rightarrow> mmio \<Rightarrow> mmio" where
  "bus_clk_init gate m = sw_reset_peripheral gate (bus_gate_enable gate m)"

definition dram_gate_enable :: "dram_gate \<Rightarrow> mmio \<Rightarrow> mmio" where
  "dram_gate_enable gate m = (let (cur, m) = read_reg 0x100 m in write_reg 0x100 (cur OR bitm (dram_gate_bit gate)) m)"
definition dram_gate_disable :: "dram_gate \<Rightarrow> mmio \<Rightarrow> mmio" where
  "dram_gate_disable gate m = (let (cur, m) = read_reg 0x100 m in write_reg 0x100 (cur AND NOT (bitm (dram_gate_bit gate))) m)"

section \<open>Dividers and PLLs\<close>

definition clk_hclk_config :: "u32 \<Rightarrow> mmio \<Rightarrow> mmio" where
  "clk_hclk_config dv m = (if dv = 0 \<or> 4 < dv then m else
     (let (v, m) = read_reg 0x054 m; cfg = v AND NOT (push_bit 16 0x3)
      in write_reg 0x054 (cfg OR push_bit 16 (dv - 1)) m))"

definition clk_ahb_config :: "u32 \<Rightarrow> u32 \<Rightarrow> u32 \<Rightarrow> mmio \<Rightarrow> mmio" where
  "clk_ahb_config src pre_div dv m =
     (if pre_div = 0 \<or> 4 < pre_div \<or> dv = 0 \<or> 4 < dv \<and> dv \<noteq> 8 \<or> dv = 3 then m else
      (let dv = (if dv = 3 then 4 else dv); dv = (if dv = 8 then 4 else dv);
           (v, m) = read_reg CCU_AHB_APB_CFG m;
           cfg = v AND NOT (push_bit 12 0x3 OR push_bit 4 0xF)
       in write_reg CCU_AHB_APB_CFG (cfg OR push_bit 12 src OR push_bit 6 (pre_div - 1) OR push_bit 4 (dv - 1)) m))"

definition clk_apb_config :: "u32 \<Rightarrow> mmio \<Rightarrow> mmio" where
  "clk_apb_config dv m =
     (if dv = 0 \<or> 8 < dv \<or> dv = 3 \<or> dv = 5 \<or> dv = 6 \<or> dv = 7 then m else
      (let apb = (if dv = 1 \<or> dv = 2 then 1 else if dv = 4 then 2 else 3);
           (v, m) = read_reg CCU_AHB_APB_CFG m; cfg = v AND NOT (push_bit 8 0x3)
       in write_reg CCU_AHB_APB_CFG (cfg OR push_bit 8 apb) m))"

definition clk_cpu_config :: "u32 \<Rightarrow> mmio \<Rightarrow> mmio" where
  "clk_cpu_config src m = (if src_PLL < src then m else
     (let (v, m) = read_reg 0x050 m; cfg = v AND NOT (push_bit 16 0x3)
      in write_reg 0x050 (cfg OR push_bit 16 src) m))"

text \<open>The two searches of \<open>pll_cpu_init\<close>: the last values tried stay when none fits.\<close>

fun search_nk :: "u32 \<Rightarrow> u32 list \<Rightarrow> u32 \<times> u32 \<Rightarrow> u32 \<times> u32" where
  "search_nk mul [] acc = acc"
| "search_nk mul (i # is) acc = (let n = mul div i in
     if n < 32 \<and> n * i = mul then (n, i) else search_nk mul is (n, i))"

fun search_pm :: "u32 \<Rightarrow> u32 list \<Rightarrow> u32 \<times> u32 \<Rightarrow> u32 \<times> u32" where
  "search_pm dv [] acc = acc"
| "search_pm dv (i # is) acc = (let p = dv div i in
     if (p = 1 \<or> p = 2 \<or> p = 4) \<and> i * p = dv then (p, i) else search_pm dv is (p, i))"

definition pll_cpu_init :: "u32 \<Rightarrow> u32 \<Rightarrow> mmio \<Rightarrow> mmio" where
  "pll_cpu_init mul dv m =
     (if mul = 0 \<or> dv = 0 \<or> 128 < mul \<or> 16 < dv then m else
      let (n, k) = search_nk mul [1, 2, 3, 4] (0, 0) in
      if n * k \<noteq> mul then m else
      let (p, mm) = search_pm dv [1, 2, 3, 4] (0, 0) in
      if mm * p \<noteq> dv then m else
      let p = p - 1; p = (if p = 3 then 2 else p);
          (v, m) = read_reg CCU_PLL_CPU_CTRL m;
          v = v AND (bitm 31 OR bitm 28);
          v = v OR (push_bit 8 (n - 1) OR push_bit 4 (k - 1) OR (mm - 1) OR push_bit 16 p)
      in write_reg CCU_PLL_CPU_CTRL v m)"

definition pll_video_init :: "u32 \<Rightarrow> u32 \<Rightarrow> u32 \<Rightarrow> mmio \<Rightarrow> mmio" where
  "pll_video_init pll mul dv m =
     (if mul = 0 \<or> dv = 0 \<or> 128 < mul \<or> 16 < dv then m else
      let (v, m) = read_reg pll m; v = v AND (bitm 31 OR bitm 28)
      in write_reg pll (v OR (push_bit 8 (mul - 1) OR (dv - 1) OR bitm 24)) m)"

definition pll_periph_init :: "u32 \<Rightarrow> u32 \<Rightarrow> mmio \<Rightarrow> mmio" where
  "pll_periph_init mul dv m =
     (if mul = 0 \<or> dv = 0 \<or> 32 < mul \<or> 4 < dv then m else
      let (v, m) = read_reg CCU_PLL_PERIPH_CTRL m; v = v AND (bitm 31 OR bitm 28)
      in write_reg CCU_PLL_PERIPH_CTRL (v OR (push_bit 8 (mul - 1) OR push_bit 4 (dv - 1) OR bitm 18)) m)"

definition clk_pll_init :: "u32 \<Rightarrow> u32 \<Rightarrow> u32 \<Rightarrow> mmio \<Rightarrow> mmio" where
  "clk_pll_init pll mul dv m =
     (if pll = CCU_PLL_CPU_CTRL then pll_cpu_init mul dv m
      else if pll = CCU_PLL_VIDEO_CTRL \<or> pll = CCU_PLL_VE_CTRL then pll_video_init pll mul dv m
      else if pll = CCU_PLL_PERIPH_CTRL then pll_periph_init mul dv m
      else m)"

definition clk_pll_enable :: "u32 \<Rightarrow> mmio \<Rightarrow> mmio" where
  "clk_pll_enable pll m = (let (v, m) = read_reg pll m in write_reg pll (v OR bitm 31) m)"
definition clk_pll_disable :: "u32 \<Rightarrow> mmio \<Rightarrow> mmio" where
  "clk_pll_disable pll m = (let (v, m) = read_reg pll m in write_reg pll (v AND NOT (bitm 31)) m)"

definition clock_init_default :: "mmio \<Rightarrow> mmio" where
  "clock_init_default m =
     (let m = clk_cpu_config src_OSC24M m;
          m = clk_pll_init CCU_PLL_PERIPH_CTRL 25 1 m;
          m = clk_pll_enable CCU_PLL_PERIPH_CTRL m;
          (_, m) = wait_pll_stable CCU_PLL_PERIPH_CTRL m;
          m = clk_hclk_config 1 m;
          m = clk_ahb_config src_PRE_DIV 3 1 m;
          m = clk_apb_config 2 m;
          m = clk_pll_init CCU_PLL_VIDEO_CTRL 99 8 m;
          m = clk_pll_enable CCU_PLL_VIDEO_CTRL m;
          (_, m) = wait_pll_stable CCU_PLL_VIDEO_CTRL m;
          m = clk_pll_init CCU_PLL_CPU_CTRL 17 1 m;
          m = clk_pll_enable CCU_PLL_CPU_CTRL m;
          (_, m) = wait_pll_stable CCU_PLL_CPU_CTRL m;
          m = clk_cpu_config src_PLL m;
          (v, m) = read_reg 0x100 m
      in write_reg 0x100 (v OR bitm 26 OR bitm 24 OR bitm 3 OR bitm 2 OR bitm 1 OR bitm 0) m)"

section \<open>Over the contents of the registers\<close>

text \<open>The lock flag, bit 28 of a PLL register, reads as its enable bit: the PLL is stable as
  soon as it is on.  Every other register of the CCU is plain.\<close>

definition ccu_view :: "u32 \<Rightarrow> u32 \<Rightarrow> u32" where
  "ccu_view a v = (if a \<in> {CCU_BASE, CCU_BASE + 0x10, CCU_BASE + 0x28}
     then (if bit v 31 then v OR bitm 28 else v AND NOT (bitm 28)) else v)"

abbreviation ccu :: "mmio \<Rightarrow> (u32 \<Rightarrow> u32) \<Rightarrow> bool" where "ccu \<equiv> backed ccu_view"

lemmas ccu_offsets = CCU_BASE_def CCU_PLL_CPU_CTRL_def CCU_PLL_VIDEO_CTRL_def CCU_PLL_VE_CTRL_def
  CCU_PLL_PERIPH_CTRL_def CCU_CPU_CFG_def CCU_AHB_APB_CFG_def src_LOSC_def src_OSC24M_def src_PLL_def src_PRE_DIV_def

lemma read_reg_ccu: "ccu m R \<Longrightarrow> read_reg off m = (ccu_view (CCU_BASE + off) (R (CCU_BASE + off)), snd (rd32 (CCU_BASE + off) m))"
  using regs.rd_val [of ccu_view m R] by (metis prod.collapse read_reg_def)

lemma write_reg_ccu: "ccu m R \<Longrightarrow> ccu (write_reg off v (snd (rd32 a m))) (R(CCU_BASE + off := v))"
  unfolding write_reg_def by (rule regs.wr_holds [OF regs.rd_keeps])

lemma wait_ccu: "ccu m R \<Longrightarrow> ccu (snd (wait_pll_stable off m)) R"
  unfolding wait_pll_stable_def by (rule backed_poll_max)

lemma clk_cpu_config_ccu: "ccu m R \<Longrightarrow> src \<le> 2 \<Longrightarrow>
    ccu (clk_cpu_config src m) (R(CCU_BASE + 0x50 := put_field 16 3 src (R (CCU_BASE + 0x50))))"
proof -
  assume R: "ccu m R" and "src \<le> 2"
  then have "clk_cpu_config src m =
      write_reg 0x50 (put_field 16 3 src (R (CCU_BASE + 0x50))) (snd (rd32 (CCU_BASE + 0x50) m))"
    by (simp add: clk_cpu_config_def src_PLL_def read_reg_ccu ccu_view_def CCU_BASE_def put_field_def not_less)
  then show ?thesis using write_reg_ccu [OF R] by simp
qed

lemma clk_hclk_config_ccu: "ccu m R \<Longrightarrow>
    ccu (clk_hclk_config 1 m) (R(CCU_BASE + 0x54 := put_field 16 3 0 (R (CCU_BASE + 0x54))))"
proof -
  assume R: "ccu m R"
  then have "clk_hclk_config 1 m =
      write_reg 0x54 (put_field 16 3 0 (R (CCU_BASE + 0x54))) (snd (rd32 (CCU_BASE + 0x54) m))"
    by (simp add: clk_hclk_config_def read_reg_ccu ccu_view_def CCU_BASE_def put_field_def)
  then show ?thesis using write_reg_ccu [OF R] by simp
qed

lemma clk_apb_config_ccu: "ccu m R \<Longrightarrow>
    ccu (clk_apb_config 2 m) (R(CCU_BASE + 0x54 := put_field 8 3 1 (R (CCU_BASE + 0x54))))"
proof -
  assume R: "ccu m R"
  then have "clk_apb_config 2 m =
      write_reg 0x54 (put_field 8 3 1 (R (CCU_BASE + 0x54))) (snd (rd32 (CCU_BASE + 0x54) m))"
    by (simp add: clk_apb_config_def read_reg_ccu ccu_view_def CCU_BASE_def CCU_AHB_APB_CFG_def put_field_def)
  then show ?thesis using write_reg_ccu [OF R] by simp
qed

lemma clk_ahb_config_ccu: "ccu m R \<Longrightarrow>
    ccu (clk_ahb_config src_PRE_DIV 3 1 m)
      (R(CCU_BASE + 0x54 := (R (CCU_BASE + 0x54) AND NOT 0x30F0) OR 0x3080))"
proof -
  assume R: "ccu m R"
  then have "clk_ahb_config src_PRE_DIV 3 1 m =
      write_reg 0x54 ((R (CCU_BASE + 0x54) AND NOT 0x30F0) OR 0x3080) (snd (rd32 (CCU_BASE + 0x54) m))"
    by (simp add: clk_ahb_config_def read_reg_ccu ccu_view_def CCU_BASE_def CCU_AHB_APB_CFG_def src_PRE_DIV_def or.assoc)
  then show ?thesis using write_reg_ccu [OF R] by simp
qed

text \<open>Programming a PLL keeps only the enable and the lock bit of what was there.\<close>

definition pll_word :: "u32 \<Rightarrow> u32 \<Rightarrow> u32" where
  "pll_word old nk = (old AND (bitm 31 OR bitm 28)) OR nk"

lemma clk_pll_enable_ccu: "ccu m R \<Longrightarrow>
    ccu (clk_pll_enable off m) (R(CCU_BASE + off := ccu_view (CCU_BASE + off) (R (CCU_BASE + off)) OR bitm 31))"
proof -
  assume R: "ccu m R"
  then have "clk_pll_enable off m =
      write_reg off (ccu_view (CCU_BASE + off) (R (CCU_BASE + off)) OR bitm 31) (snd (rd32 (CCU_BASE + off) m))"
    by (simp add: clk_pll_enable_def read_reg_ccu)
  then show ?thesis using write_reg_ccu [OF R] by simp
qed

lemma pll_video_init_ccu: "ccu m R \<Longrightarrow> 0 < mul \<Longrightarrow> 0 < dv \<Longrightarrow> mul \<le> 128 \<Longrightarrow> dv \<le> 16 \<Longrightarrow>
    ccu (pll_video_init off mul dv m) (R(CCU_BASE + off :=
      pll_word (ccu_view (CCU_BASE + off) (R (CCU_BASE + off))) (push_bit 8 (mul - 1) OR (dv - 1) OR bitm 24)))"
proof -
  assume R: "ccu m R" and b: "0 < mul" "0 < dv" "mul \<le> 128" "dv \<le> 16"
  have "pll_video_init off mul dv m = write_reg off
      (pll_word (ccu_view (CCU_BASE + off) (R (CCU_BASE + off))) (push_bit 8 (mul - 1) OR (dv - 1) OR bitm 24))
      (snd (rd32 (CCU_BASE + off) m))"
    using b by (simp add: pll_video_init_def read_reg_ccu [OF R] pll_word_def not_less)
  then show ?thesis using write_reg_ccu [OF R] by simp
qed

lemma pll_periph_init_ccu: "ccu m R \<Longrightarrow> 0 < mul \<Longrightarrow> 0 < dv \<Longrightarrow> mul \<le> 32 \<Longrightarrow> dv \<le> 4 \<Longrightarrow>
    ccu (pll_periph_init mul dv m) (R(CCU_BASE + 0x28 :=
      pll_word (ccu_view (CCU_BASE + 0x28) (R (CCU_BASE + 0x28))) (push_bit 8 (mul - 1) OR push_bit 4 (dv - 1) OR bitm 18)))"
proof -
  assume R: "ccu m R" and b: "0 < mul" "0 < dv" "mul \<le> 32" "dv \<le> 4"
  have "pll_periph_init mul dv m = write_reg 0x28
      (pll_word (ccu_view (CCU_BASE + 0x28) (R (CCU_BASE + 0x28))) (push_bit 8 (mul - 1) OR push_bit 4 (dv - 1) OR bitm 18))
      (snd (rd32 (CCU_BASE + 0x28) m))"
    using b by (simp add: pll_periph_init_def read_reg_ccu [OF R] pll_word_def not_less CCU_PLL_PERIPH_CTRL_def)
  then show ?thesis using write_reg_ccu [OF R] by simp
qed

section \<open>The search of \<open>pll_cpu_init\<close>\<close>

lemma search_nk_range:
  assumes "search_nk mul [1, 2, 3, 4] (0, 0) = (n, k)" "mul \<le> 128"
  shows "n \<le> 32" and "k \<in> {1, 2, 3, 4}"
proof -
  have d: "mul div 4 \<le> 32"
  proof -
    have "unat mul \<le> 128" using assms(2) by (simp add: word_le_nat_alt)
    then show ?thesis by (simp add: word_le_nat_alt unat_div)
  qed
  from assms(1) show "n \<le> 32" "k \<in> {1, 2, 3, 4}" using d by (auto simp: Let_def split: if_splits)
qed

lemma small_words: "w \<le> word_of_nat b \<Longrightarrow> b < 2 ^ 32 \<Longrightarrow> w \<in> set (map word_of_nat [0..<Suc b])" for w :: u32
proof -
  assume "w \<le> word_of_nat b" "b < 2 ^ 32"
  then have "unat w \<le> b" by (simp add: word_le_nat_alt unsigned_of_nat take_bit_nat_eq_self)
  moreover have "w = word_of_nat (unat w)" by simp
  ultimately show ?thesis by (metis atLeastLessThan_iff image_eqI le_imp_less_Suc list.set_map set_upt zero_le)
qed

text \<open>All sixteen divisors, evaluated.\<close>

definition pm_ok :: "u32 \<Rightarrow> bool" where
  "pm_ok dv = (let (p, mm) = search_pm dv [1, 2, 3, 4] (0, 0) in
     mm * p \<noteq> dv \<or> dv = 0 \<or> p \<in> {1, 2, 4} \<and> mm \<in> {1, 2, 3, 4})"

lemma pm_ok_all: "list_all pm_ok (map word_of_nat [0..<17])"
  by code_simp

lemma search_pm_range:
  assumes "search_pm dv [1, 2, 3, 4] (0, 0) = (p, mm)" "dv \<le> 16" "0 < dv" "mm * p = dv"
  shows "p \<in> {1, 2, 4}" and "mm \<in> {1, 2, 3, 4}"
proof -
  have "dv \<in> set (map word_of_nat [0..<Suc 16])" by (rule small_words) (use assms(2) in simp_all)
  then have "pm_ok dv" using pm_ok_all by (auto simp: list_all_iff)
  moreover have "dv \<noteq> 0" using assms(3) by auto
  ultimately have "p \<in> {1, 2, 4} \<and> mm \<in> {1, 2, 3, 4}"
    using assms(1,4) unfolding pm_ok_def by (simp del: search_pm.simps)
  then show "p \<in> {1, 2, 4}" "mm \<in> {1, 2, 3, 4}" by blast+
qed

section \<open>Properties\<close>

lemma view_bit: "i \<noteq> 28 \<Longrightarrow> bit (ccu_view a v) i = bit v i"
  by (auto simp: ccu_view_def bit_simps dest: bit_u32_len)

lemma low_bits: "(w :: u32) AND mask l = w \<Longrightarrow> bit w i \<Longrightarrow> i < l"
  by (metis bit_and_iff bit_mask_iff)

lemma pll_cpu_fields:
  fixes a b c d old x :: u32
  assumes "a AND mask 5 = a" "b AND mask 2 = b" "c AND mask 2 = c" "d AND mask 2 = d"
  defines "w \<equiv> ccu_view x (pll_word old (push_bit 8 a OR push_bit 4 b OR c OR push_bit 16 d))"
  shows "pll_cpu_n w = a" "pll_cpu_k w = b" "pll_cpu_m w = c" "pll_cpu_p w = d"
    and "w AND bitm 31 = 0 \<longleftrightarrow> \<not> bit old 31"
proof -
  have l: "5 \<le> i \<Longrightarrow> \<not> bit a i" "2 \<le> i \<Longrightarrow> \<not> bit b i" "2 \<le> i \<Longrightarrow> \<not> bit c i" "2 \<le> i \<Longrightarrow> \<not> bit d i" for i
    using low_bits [OF assms(1)] low_bits [OF assms(2)] low_bits [OF assms(3)] low_bits [OF assms(4)]
    by (meson not_le)+
  have w: "i \<noteq> 28 \<Longrightarrow> bit w i \<longleftrightarrow> bit old i \<and> i = 31 \<or> i < 32 \<and>
      (8 \<le> i \<and> bit a (i - 8) \<or> 4 \<le> i \<and> bit b (i - 4) \<or> bit c i \<or> 16 \<le> i \<and> bit d (i - 16))" for i
    unfolding w_def by (auto simp: view_bit pll_word_def bit_simps dest: bit_u32_len)
  show "pll_cpu_n w = a"
  proof (rule bit_word_eqI)
    fix i show "bit (pll_cpu_n w) i = bit a i"
      by (cases "i < 5") (simp_all add: pll_cpu_n_def get_field_def bit_simps w l)
  qed
  show "pll_cpu_k w = b"
  proof (rule bit_word_eqI)
    fix i show "bit (pll_cpu_k w) i = bit b i"
      by (cases "i < 2") (simp_all add: pll_cpu_k_def get_field_def bit_simps w l)
  qed
  show "pll_cpu_m w = c"
  proof (rule bit_word_eqI)
    fix i show "bit (pll_cpu_m w) i = bit c i"
      by (cases "i < 2") (simp_all add: pll_cpu_m_def get_field_def bit_simps w l)
  qed
  show "pll_cpu_p w = d"
  proof (rule bit_word_eqI)
    fix i show "bit (pll_cpu_p w) i = bit d i"
      by (cases "i < 2") (simp_all add: pll_cpu_p_def get_field_def bit_simps w l)
  qed
  have "bit (w AND bitm 31) i \<longleftrightarrow> i = 31 \<and> bit old 31" for i
    using w [of i] l by (auto simp: bit_simps)
  then show "w AND bitm 31 = 0 \<longleftrightarrow> \<not> bit old 31" by (metis bit_0_eq bot_apply bot_bool_def bit_eqI)
qed

definition pll_cpu_accepts :: "u32 \<Rightarrow> u32 \<Rightarrow> bool" where
  "pll_cpu_accepts mul dv \<longleftrightarrow> 0 < mul \<and> 0 < dv \<and> mul \<le> 128 \<and> dv \<le> 16 \<and>
     (let (n, k) = search_nk mul [1, 2, 3, 4] (0, 0); (p, mm) = search_pm dv [1, 2, 3, 4] (0, 0)
      in n * k = mul \<and> mm * p = dv)"

lemma pll_cpu_init_eq:
  assumes R: "ccu m R" and "pll_cpu_accepts mul dv"
  obtains n k p mm where "n * k = mul" "mm * p = dv" "n \<le> 32" "k \<in> {1, 2, 3, 4}" "p \<in> {1, 2, 4}" "mm \<in> {1, 2, 3, 4}"
    "pll_cpu_init mul dv m = write_reg 0 (pll_word (ccu_view CCU_BASE (R CCU_BASE))
      (push_bit 8 (n - 1) OR push_bit 4 (k - 1) OR (mm - 1) OR push_bit 16 (if p - 1 = 3 then 2 else p - 1)))
      (snd (rd32 CCU_BASE m))"
proof -
  obtain n k where nk: "search_nk mul [1, 2, 3, 4] (0, 0) = (n, k)" by fastforce
  obtain p mm where pm: "search_pm dv [1, 2, 3, 4] (0, 0) = (p, mm)" by fastforce
  have a: "0 < mul" "0 < dv" "mul \<le> 128" "dv \<le> 16" "n * k = mul" "mm * p = dv"
    using assms(2) nk pm by (simp_all add: pll_cpu_accepts_def del: search_nk.simps search_pm.simps)
  have "\<not> (mul = 0 \<or> dv = 0 \<or> 128 < mul \<or> 16 < dv)" using a by auto
  then have "pll_cpu_init mul dv m = write_reg 0 (pll_word (ccu_view CCU_BASE (R CCU_BASE))
      (push_bit 8 (n - 1) OR push_bit 4 (k - 1) OR (mm - 1) OR push_bit 16 (if p - 1 = 3 then 2 else p - 1)))
      (snd (rd32 CCU_BASE m))"
    using a(5,6) read_reg_ccu [OF R, of 0]
    unfolding pll_cpu_init_def nk pm by (simp add: CCU_PLL_CPU_CTRL_def pll_word_def)
  then show ?thesis
    using that a search_nk_range [OF nk a(3)] search_pm_range [OF pm a(4,2,6)] by blast
qed

lemma below_32: "n \<le> 32 \<Longrightarrow> n \<noteq> 0 \<Longrightarrow> (n - 1) AND mask 5 = (n - 1 :: u32)"
proof -
  assume "n \<le> 32" "n \<noteq> 0"
  then have "unat n \<le> 32" "0 < unat n" by (simp_all add: word_le_nat_alt unat_gt_0)
  moreover have "unat (n - 1) = unat n - 1"
    using \<open>n \<noteq> 0\<close> by (subst unat_minus_u32) (simp_all add: word_le_nat_alt unat_gt_0 Suc_leI)
  ultimately have "unat (n - 1) < 2 ^ 5" by simp
  then have "take_bit 5 (n - 1) = n - 1"
    by (intro unsigned_word_eqI [where 'a = nat]) (simp add: unsigned_take_bit_eq take_bit_nat_eq_self)
  then show ?thesis by (simp add: take_bit_eq_mask)
qed



section \<open>The default clocks\<close>

lemma get_field_cong:
  "(\<And>i. bit msk i \<Longrightarrow> bit w (off + i) = bit f (off + i)) \<Longrightarrow> get_field off msk w = get_field off msk f"
  by (rule bit_word_eqI) (auto simp: get_field_def bit_simps)

lemma get_field_pair: "get_field off 3 w = (if bit w off then 1 else 0) OR (if bit w (Suc off) then 2 else 0)"
proof (rule bit_word_eqI)
  fix i assume "i < LENGTH(32)"
  consider "i = 0" | "i = 1" | "2 \<le> i" by linarith
  then show "bit (get_field off 3 w) i = bit ((if bit w off then 1 else 0) OR (if bit w (Suc off) then 2 else 0 :: u32)) i"
    by cases (auto simp: get_field_def bit_simps)
qed

text \<open>The word of a PLL after it was programmed and enabled.\<close>

definition pll_on :: "u32 \<Rightarrow> u32 \<Rightarrow> u32 \<Rightarrow> u32" where
  "pll_on a old nk = ccu_view a (ccu_view a (pll_word (ccu_view a old) nk) OR bitm 31)"

lemma pll_on_bit: "i \<noteq> 28 \<Longrightarrow> i < 31 \<Longrightarrow> bit (pll_on a old nk) i = bit nk i"
  and pll_on_enabled: "pll_on a old nk AND bitm 31 \<noteq> 0"
proof -
  show "i \<noteq> 28 \<Longrightarrow> i < 31 \<Longrightarrow> bit (pll_on a old nk) i = bit nk i"
    by (simp add: pll_on_def view_bit pll_word_def bit_simps)
  have "bit (pll_on a old nk AND bitm 31) 31" by (simp add: pll_on_def view_bit bit_simps)
  then show "pll_on a old nk AND bitm 31 \<noteq> 0" by fastforce
qed

lemma pll_on_field: "(\<And>i. bit msk i \<Longrightarrow> off + i < 28) \<Longrightarrow> get_field off msk (pll_on a old nk) = get_field off msk nk"
  by (rule get_field_cong, rule pll_on_bit) (fastforce dest: less_imp_neq)+

lemma pll_cpu_init_17: "ccu m R \<Longrightarrow>
    ccu (pll_cpu_init 17 1 m) (R(CCU_BASE := pll_word (ccu_view CCU_BASE (R CCU_BASE)) 0x1000))"
proof -
  assume R: "ccu m R"
  have "pll_cpu_init 17 1 m = write_reg 0 (pll_word (ccu_view CCU_BASE (R CCU_BASE)) 0x1000) (snd (rd32 CCU_BASE m))"
    using read_reg_ccu [OF R, of 0] by (simp add: pll_cpu_init_def CCU_PLL_CPU_CTRL_def pll_word_def)
  then show ?thesis using write_reg_ccu [OF R, of 0] by simp
qed

lemma clock_init_regs:
  assumes "ccu m R"
  shows "\<exists>R'. ccu (clock_init_default m) R' \<and>
     ccu_view CCU_BASE (R' CCU_BASE) = pll_on CCU_BASE (R CCU_BASE) 0x1000 \<and>
     ccu_view (CCU_BASE + 0x10) (R' (CCU_BASE + 0x10)) = pll_on (CCU_BASE + 0x10) (R (CCU_BASE + 0x10)) (0x6200 OR 7 OR bitm 24) \<and>
     ccu_view (CCU_BASE + 0x28) (R' (CCU_BASE + 0x28)) = pll_on (CCU_BASE + 0x28) (R (CCU_BASE + 0x28)) (0x1800 OR bitm 18) \<and>
     R' (CCU_BASE + 0x50) = put_field 16 3 2 (put_field 16 3 1 (R (CCU_BASE + 0x50))) \<and>
     R' (CCU_BASE + 0x54) = put_field 8 3 1 ((put_field 16 3 0 (R (CCU_BASE + 0x54)) AND NOT 0x30F0) OR 0x3080) \<and>
     R' (CCU_BASE + 0x100) = R (CCU_BASE + 0x100) OR bitm 26 OR bitm 24 OR bitm 3 OR bitm 2 OR bitm 1 OR bitm 0"
proof -
  let ?b = CCU_BASE
  have ne: "?b + x = ?b + y \<longleftrightarrow> x = y" "?b = ?b + x \<longleftrightarrow> x = 0" "?b + x = ?b \<longleftrightarrow> x = 0" for x y :: u32 by simp_all
  define m1 where "m1 = clk_cpu_config src_OSC24M m"
  define m2 where "m2 = clk_pll_enable CCU_PLL_PERIPH_CTRL (clk_pll_init CCU_PLL_PERIPH_CTRL 25 1 m1)"
  define m3 where "m3 = snd (wait_pll_stable CCU_PLL_PERIPH_CTRL m2)"
  define m4 where "m4 = clk_apb_config 2 (clk_ahb_config src_PRE_DIV 3 1 (clk_hclk_config 1 m3))"
  define m5 where "m5 = clk_pll_enable CCU_PLL_VIDEO_CTRL (clk_pll_init CCU_PLL_VIDEO_CTRL 99 8 m4)"
  define m6 where "m6 = snd (wait_pll_stable CCU_PLL_VIDEO_CTRL m5)"
  define m7 where "m7 = clk_pll_enable CCU_PLL_CPU_CTRL (clk_pll_init CCU_PLL_CPU_CTRL 17 1 m6)"
  define m8 where "m8 = clk_cpu_config src_PLL (snd (wait_pll_stable CCU_PLL_CPU_CTRL m7))"
  let ?d = "\<lambda>v. v OR bitm 26 OR bitm 24 OR bitm 3 OR bitm 2 OR bitm 1 OR bitm 0"
  have m: "clock_init_default m = (let (v, m) = read_reg 0x100 m8 in write_reg 0x100 (?d v) m)"
    unfolding clock_init_default_def m1_def m2_def m3_def m4_def m5_def m6_def m7_def m8_def Let_def
    by (simp add: split_beta)
  have r1: "ccu m1 (R(?b + 0x50 := put_field 16 3 1 (R (?b + 0x50))))"
    using clk_cpu_config_ccu [OF assms, of 1] by (simp add: m1_def src_OSC24M_def)
  note r1 = clk_pll_enable_ccu [OF pll_periph_init_ccu [OF r1, of 25 1], of "0x28"]
  have r2: "ccu m2 (R(?b + 0x50 := put_field 16 3 1 (R (?b + 0x50)),
      ?b + 0x28 := ccu_view (?b + 0x28) (pll_word (ccu_view (?b + 0x28) (R (?b + 0x28))) (0x1800 OR bitm 18)) OR bitm 31))"
    using r1 by (simp add: m2_def clk_pll_init_def CCU_PLL_CPU_CTRL_def CCU_PLL_VIDEO_CTRL_def CCU_PLL_VE_CTRL_def CCU_PLL_PERIPH_CTRL_def ne)
  note r3 = wait_ccu [OF r2, of CCU_PLL_PERIPH_CTRL, folded m3_def]
  note r4 = clk_apb_config_ccu [OF clk_ahb_config_ccu [OF clk_hclk_config_ccu [OF r3]], folded m4_def]
  have m5_eq: "m5 = clk_pll_enable 0x10 (pll_video_init 0x10 99 8 m4)"
    and m7_eq: "m7 = clk_pll_enable 0 (pll_cpu_init 17 1 m6)"
    by (simp_all add: m5_def m7_def clk_pll_init_def CCU_PLL_CPU_CTRL_def CCU_PLL_VIDEO_CTRL_def)
  have lim: "0 < (99 :: u32)" "0 < (8 :: u32)" "(99 :: u32) \<le> 128" "(8 :: u32) \<le> 16" "src_PLL \<le> 2" by (simp_all add: src_PLL_def)
  note r6 = clk_pll_enable_ccu [OF pll_video_init_ccu [OF r4 lim(1-4), of "0x10"], of "0x10", folded m5_eq]
  note r7 = wait_ccu [OF r6, of CCU_PLL_VIDEO_CTRL, folded m6_def]
  note r8 = clk_pll_enable_ccu [OF pll_cpu_init_17 [OF r7], of "0", folded m7_eq]
  note r9 = clk_cpu_config_ccu [OF wait_ccu [OF r8, of CCU_PLL_CPU_CTRL] lim(5), folded m8_def]
  have view: "ccu_view (?b + 0x50) v = v" "ccu_view (?b + 0x54) v = v" "ccu_view (?b + 0x100) v = v" for v
    by (simp_all add: ccu_view_def CCU_BASE_def)
  show ?thesis
    unfolding m read_reg_ccu [OF r9] Let_def split
    by (rule exI, rule conjI, rule write_reg_ccu [OF r9])
      (simp add: ne view pll_on_def src_PLL_def)
qed

text \<open>The fields that \<open>init_default\<close> programs, as the frequency queries read them.\<close>

lemma init_pll_fields:
  "pll_cpu_n (pll_on a w 0x1000) = 0x10" "pll_cpu_k (pll_on a w 0x1000) = 0" "pll_cpu_p (pll_on a w 0x1000) = 0"
  "pll_periph_n (pll_on a w (0x1800 OR bitm 18)) = 0x18" "pll_periph_k (pll_on a w (0x1800 OR bitm 18)) = 0"
  "pll_video_n (pll_on a w (0x6200 OR 7 OR bitm 24)) = 0x62"
  unfolding pll_cpu_n_def pll_cpu_k_def pll_cpu_p_def pll_periph_n_def pll_periph_k_def pll_video_n_def
  by (subst pll_on_field; simp add: bit_simps get_field_def bitm_def)+

lemma init_pll_dividers:
  "pll_cpu_m (pll_on a w 0x1000) = 0" "pll_video_m (pll_on a w (0x6200 OR 7 OR bitm 24)) = 7"
proof -
  have low: "pll_cpu_m w = get_field 0 3 w" "pll_video_m w = get_field 0 15 w" for w
    by (simp_all add: pll_cpu_m_def pll_video_m_def get_field_def)
  show "pll_cpu_m (pll_on a w 0x1000) = 0" "pll_video_m (pll_on a w (0x6200 OR 7 OR bitm 24)) = 7"
    unfolding low by (subst pll_on_field; simp add: bit_simps get_field_def bitm_def)+
qed

lemma init_video_mode: "pll_on a w (0x6200 OR 7 OR bitm 24) AND MODE_SEL \<noteq> 0"
proof -
  have "bit (pll_on a w (0x6200 OR 7 OR bitm 24) AND MODE_SEL) 24"
    by (simp add: bit_and_iff pll_on_bit MODE_SEL_def bit_simps)
  then show ?thesis by fastforce
qed

lemma init_bus_fields:
  "get_field 16 3 (put_field 16 3 2 v) = 2"
  "ahb_src (put_field 8 3 1 ((w AND NOT 0x30F0) OR 0x3080)) = 3" "ahb_pre_div (put_field 8 3 1 ((w AND NOT 0x30F0) OR 0x3080)) = 2"
  "ahb_div (put_field 8 3 1 ((w AND NOT 0x30F0) OR 0x3080)) = 0" "apb_div (put_field 8 3 1 ((w AND NOT 0x30F0) OR 0x3080)) = 1"
  unfolding ahb_src_def ahb_pre_div_def ahb_div_def apb_div_def get_field_pair
  by (simp_all add: put_field_def bit_simps)

text \<open>C31. Whatever the registers held, \<open>init_default\<close> leaves the clock tree of the header of
  \<open>clock.rs\<close>: CPU 408 MHz from PLL_CPU, AHB 200 MHz, APB 100 MHz, PLL_VIDEO 297 MHz,
  as the frequency queries compute them, and all six DRAM gates open.\<close>

theorem clock_init_frequencies:
  assumes "ccu m R"
  shows "fst (cpu_hz (clock_init_default m)) = 408000000 \<and> fst (ahb_hz (clock_init_default m)) = 200000000 \<and>
     fst (apb_hz (clock_init_default m)) = 100000000 \<and> fst (video_pll_hz (clock_init_default m)) = 297000000 \<and>
     (\<forall>g. bit (fst (read_reg 0x100 (clock_init_default m))) (dram_gate_bit g))"
proof -
  let ?m = "clock_init_default m" and ?b = CCU_BASE
  obtain R' where R: "ccu ?m R'"
    and cpu: "ccu_view ?b (R' ?b) = pll_on ?b (R ?b) 0x1000"
    and vid: "ccu_view (?b + 0x10) (R' (?b + 0x10)) = pll_on (?b + 0x10) (R (?b + 0x10)) (0x6200 OR 7 OR bitm 24)"
    and per: "ccu_view (?b + 0x28) (R' (?b + 0x28)) = pll_on (?b + 0x28) (R (?b + 0x28)) (0x1800 OR bitm 18)"
    and src: "R' (?b + 0x50) = put_field 16 3 2 (put_field 16 3 1 (R (?b + 0x50)))"
    and bus: "R' (?b + 0x54) = put_field 8 3 1 ((put_field 16 3 0 (R (?b + 0x54)) AND NOT 0x30F0) OR 0x3080)"
    and dram: "R' (?b + 0x100) = R (?b + 0x100) OR bitm 26 OR bitm 24 OR bitm 3 OR bitm 2 OR bitm 1 OR bitm 0"
    using clock_init_regs [OF assms] by blast
  have view: "ccu_view (?b + 0x50) v = v" "ccu_view (?b + 0x54) v = v" "ccu_view (?b + 0x100) v = v" for v
    by (simp_all add: ccu_view_def CCU_BASE_def)
  have rd: "\<exists>m'. read_reg off n = (ccu_view (?b + off) (R' (?b + off)), m') \<and> ccu m' R'" if "ccu n R'" for n off
    using read_reg_ccu [OF that, of off] regs.rd_keeps [OF that, of "?b + off"] by blast
  have cfg: "get_field 16 3 (R' (?b + 0x50)) = 2" "ahb_src (R' (?b + 0x54)) = 3" "ahb_pre_div (R' (?b + 0x54)) = 2"
    "ahb_div (R' (?b + 0x54)) = 0" "apb_div (R' (?b + 0x54)) = 1"
    unfolding src bus by (rule init_bus_fields)+
  have pll: "fst (cpu_pll_hz n) = 408000000" if "ccu n R'" for n
    using rd [OF that, of 0] cpu init_pll_fields(1-3) init_pll_dividers(1) pll_on_enabled
    by (auto simp: cpu_pll_hz_def CCU_PLL_CPU_CTRL_def HZ_24M_def Let_def)
  have periph: "\<exists>m'. periph_pll_hz n = (600000000, m') \<and> ccu m' R'" if "ccu n R'" for n
    using rd [OF that, of "0x28"] per init_pll_fields(4,5) pll_on_enabled by (auto simp: periph_pll_hz_def HZ_24M_def)
  have "fst (cpu_hz ?m) = 408000000"
    using rd [OF R, of "0x50"] pll cfg(1) view
    by (auto simp: cpu_hz_def cpu_clk_src_def CCU_CPU_CFG_def src_PLL_def)
  moreover have ahb: "\<exists>m'. ahb_hz n = (200000000, m') \<and> ccu m' R'" if c: "ccu n R'" for n
  proof -
    obtain m1 where m1: "read_reg 0x54 n = (R' (?b + 0x54), m1)" "ccu m1 R'"
      using rd [OF c, of "0x54"] view by auto
    obtain m2 where "periph_pll_hz m1 = (600000000, m2)" "ccu m2 R'" using periph [OF m1(2)] by blast
    then show ?thesis using m1 cfg(2-4)
      by (simp add: ahb_hz_def src_LOSC_def src_OSC24M_def src_PLL_def src_PRE_DIV_def)
  qed
  moreover have "fst (apb_hz ?m) = 100000000"
  proof -
    obtain m1 where m1: "read_reg 0x54 ?m = (R' (?b + 0x54), m1)" "ccu m1 R'"
      using rd [OF R, of "0x54"] view by auto
    obtain m2 where "ahb_hz m1 = (200000000, m2)" using ahb [OF m1(2)] by blast
    then show ?thesis using m1(1) cfg(5) by (simp add: apb_hz_def DIV4_def DIV8_def)
  qed
  moreover have "fst (video_pll_hz ?m) = 297000000"
    using rd [OF R, of "0x10"] vid init_pll_fields(6) init_pll_dividers(2) init_video_mode pll_on_enabled by (auto simp: video_pll_hz_def HZ_24M_def)
  moreover have "bit (fst (read_reg 0x100 ?m)) (dram_gate_bit g)" for g
    using rd [OF R, of "0x100"] view dram by (cases g) (auto simp: bit_simps)
  ultimately show ?thesis using ahb [OF R] by auto
qed

theorem clock_init_frequencies_witness:
  "fst (cpu_hz (clock_init_default (regs_of ccu_view (\<lambda>_. 0)))) = 408000000"
  using clock_init_frequencies [OF backed_regs_of] by simp

end
