(* ===== verification/Timer.thy ===== *)
theory Timer
  imports Interrupt Clock
begin

text \<open>
  \<open>timer.rs\<close>: the three countdown timers, the AVS counter behind the delays, and the
  system tick.  The state is that of \<open>interrupt.rs\<close>; the memory of this module is the
  table of callbacks and the tick counter.  A callback is arbitrary code, an argument of
  the service routines that call it.
\<close>

definition TIMER_BASE :: u32 where [reg_addrs]: "TIMER_BASE = 0x01C20C00"
definition t_IRQ_EN :: u32 where "t_IRQ_EN = 0x00"
definition t_IRQ_STA :: u32 where "t_IRQ_STA = 0x04"
definition AVS_CTRL :: u32 where "AVS_CTRL = 0x80"
definition AVS_CNT0 :: u32 where [reg_addrs]: "AVS_CNT0 = 0x84"
definition AVS_DIV :: u32 where "AVS_DIV = 0x8C"

definition ch_ctrl :: "u32 \<Rightarrow> u32" where "ch_ctrl ch = 0x10 + 0x10 * ch"
definition ch_intv :: "u32 \<Rightarrow> u32" where "ch_intv ch = 0x14 + 0x10 * ch"
definition ch_curv :: "u32 \<Rightarrow> u32" where "ch_curv ch = 0x18 + 0x10 * ch"

definition ctl_ENABLE :: u32 where "ctl_ENABLE = bitm 0"
definition ctl_RELOAD :: u32 where "ctl_RELOAD = bitm 1"
definition CLK_SRC_OSC24M :: u32 where "CLK_SRC_OSC24M = bitm 2"
definition ctl_ONESHOT :: u32 where "ctl_ONESHOT = bitm 7"
definition clk_pres :: "u32 \<Rightarrow> u32" where "clk_pres val = push_bit 4 (val AND 7)"

definition TIMER_SRC_HZ :: u32 where "TIMER_SRC_HZ = 24000000"

lemmas timer_regs = TIMER_BASE_def t_IRQ_EN_def t_IRQ_STA_def ch_ctrl_def ch_intv_def ch_curv_def

text \<open>The registers, reached through the state of the interrupt layer.\<close>

definition timer_read :: "u32 \<Rightarrow> ('h, 'u) irq_state \<Rightarrow> u32 \<times> ('h, 'u) irq_state" where
  "timer_read off s = (let (v, m) = rd32 (TIMER_BASE + off) (io s) in (v, s\<lparr>io := m\<rparr>))"

definition timer_write :: "u32 \<Rightarrow> u32 \<Rightarrow> ('h, 'u) irq_state \<Rightarrow> ('h, 'u) irq_state" where
  "timer_write off v s = s\<lparr>io := wr32 (TIMER_BASE + off) v (io s)\<rparr>"

datatype prescaler = Div1 | Div2 | Div4 | Div8 | Div16 | Div32 | Div64 | Div128

fun prescaler_code :: "prescaler \<Rightarrow> u32" where
  "prescaler_code Div1 = 0" | "prescaler_code Div2 = 1" | "prescaler_code Div4 = 2"
| "prescaler_code Div8 = 3" | "prescaler_code Div16 = 4" | "prescaler_code Div32 = 5"
| "prescaler_code Div64 = 6" | "prescaler_code Div128 = 7"

definition prescaler_divisor :: "prescaler \<Rightarrow> u32" where
  "prescaler_divisor p = bitm (unat (prescaler_code p))"

datatype timer_mode = Periodic | OneShot

record timer_config =
  cfg_prescaler :: prescaler
  cfg_mode :: timer_mode
  cfg_interval :: u32

definition timer_config_default :: timer_config where
  "timer_config_default = \<lparr>cfg_prescaler = Div1, cfg_mode = OneShot, cfg_interval = TIMER_SRC_HZ\<rparr>"

datatype timer_channel = Ch0 | Ch1 | Ch2

record 'c timer =
  t_ch :: u32
  t_irq_vector :: u32
  t_callback :: "'c option"

fun timer_new :: "timer_channel \<Rightarrow> 'c timer" where
  "timer_new Ch0 = \<lparr>t_ch = 0, t_irq_vector = TIMER0_INTERRUPT, t_callback = None\<rparr>"
| "timer_new Ch1 = \<lparr>t_ch = 1, t_irq_vector = TIMER1_INTERRUPT, t_callback = None\<rparr>"
| "timer_new Ch2 = \<lparr>t_ch = 2, t_irq_vector = TIMER2_INTERRUPT, t_callback = None\<rparr>"

definition current_value :: "'c timer \<Rightarrow> ('h, 'u) irq_state \<Rightarrow> u32 \<times> ('h, 'u) irq_state" where
  "current_value t s = timer_read (ch_curv (t_ch t)) s"

definition interval_value :: "'c timer \<Rightarrow> ('h, 'u) irq_state \<Rightarrow> u32 \<times> ('h, 'u) irq_state" where
  "interval_value t s = timer_read (ch_intv (t_ch t)) s"

definition is_running :: "'c timer \<Rightarrow> ('h, 'u) irq_state \<Rightarrow> bool \<times> ('h, 'u) irq_state" where
  "is_running t s = (let (v, s) = timer_read (ch_ctrl (t_ch t)) s in (v AND ctl_ENABLE \<noteq> 0, s))"

definition timer_stop :: "'c timer \<Rightarrow> ('h, 'u) irq_state \<Rightarrow> ('h, 'u) irq_state option" where
  "timer_stop t s = do {
     let (v, s) = timer_read (ch_ctrl (t_ch t)) s;
     let s = timer_write (ch_ctrl (t_ch t)) (v AND NOT ctl_ENABLE) s;
     let (old, s) = timer_read (ch_curv (t_ch t)) s;
     m \<leftarrow> poll32 (TIMER_BASE + ch_curv (t_ch t)) (\<lambda>cur. 3 \<le> old - cur) (io s);
     Some (s\<lparr>io := m\<rparr>)
   }"

definition configure :: "'c timer \<Rightarrow> timer_config \<Rightarrow> ('h, 'u) irq_state \<Rightarrow> ('h, 'u) irq_state option" where
  "configure t c s = do {
     let (run, s) = is_running t s;
     s \<leftarrow> (if run then timer_stop t s else Some s);
     let ctl_val = CLK_SRC_OSC24M OR clk_pres (prescaler_code (cfg_prescaler c));
     let ctl_val = (case cfg_mode c of Periodic \<Rightarrow> ctl_val | OneShot \<Rightarrow> ctl_val OR ctl_ONESHOT);
     let s = timer_write (ch_ctrl (t_ch t)) ctl_val s;
     Some (timer_write (ch_intv (t_ch t)) (cfg_interval c) s)
   }"

definition timer_start :: "'c timer \<Rightarrow> u32 \<Rightarrow> timer_mode \<Rightarrow> ('h, 'u) irq_state \<Rightarrow> ('h, 'u) irq_state" where
  "timer_start t interval mode s = (let
     s = timer_write (ch_intv (t_ch t)) interval s;
     (val, s) = timer_read (ch_ctrl (t_ch t)) s;
     val = (case mode of Periodic \<Rightarrow> val AND NOT ctl_ONESHOT | OneShot \<Rightarrow> val OR ctl_ONESHOT)
   in timer_write (ch_ctrl (t_ch t)) (val OR (ctl_ENABLE OR ctl_RELOAD)) s)"

definition start_oneshot :: "'c timer \<Rightarrow> u32 \<Rightarrow> ('h, 'u) irq_state \<Rightarrow> ('h, 'u) irq_state" where
  "start_oneshot t ticks s = timer_start t ticks OneShot s"

definition start_periodic :: "'c timer \<Rightarrow> u32 \<Rightarrow> ('h, 'u) irq_state \<Rightarrow> ('h, 'u) irq_state" where
  "start_periodic t ticks s = timer_start t ticks Periodic s"

text \<open>The product is taken in 64 bits; the quotient is cut to 32.\<close>

definition oneshot_ticks :: "prescaler \<Rightarrow> u32 \<Rightarrow> u32" where
  "oneshot_ticks p us = (let clk = TIMER_SRC_HZ div prescaler_divisor p
     in ucast (ucast clk * ucast us div (1000000 :: u64)))"

definition start_oneshot_us :: "'c timer \<Rightarrow> prescaler \<Rightarrow> u32 \<Rightarrow> ('h, 'u) irq_state \<Rightarrow> ('h, 'u) irq_state option" where
  "start_oneshot_us t p us s = do {
     s \<leftarrow> configure t \<lparr>cfg_prescaler = p, cfg_mode = OneShot, cfg_interval = oneshot_ticks p us\<rparr> s;
     let (val, s) = timer_read (ch_ctrl (t_ch t)) s;
     Some (timer_write (ch_ctrl (t_ch t)) (val OR ctl_ENABLE OR ctl_RELOAD) s)
   }"

definition clear_interrupt :: "'c timer \<Rightarrow> ('h, 'u) irq_state \<Rightarrow> ('h, 'u) irq_state" where
  "clear_interrupt t s = timer_write t_IRQ_STA (bitm (unat (t_ch t))) s"

definition enable_interrupt :: "'c timer \<Rightarrow> ('h, 'u) irq_state \<Rightarrow> ('h, 'u) irq_state" where
  "enable_interrupt t s = (let (v, s) = timer_read t_IRQ_EN s in timer_write t_IRQ_EN (v OR bitm (unat (t_ch t))) s)"

definition disable_interrupt :: "'c timer \<Rightarrow> ('h, 'u) irq_state \<Rightarrow> ('h, 'u) irq_state" where
  "disable_interrupt t s = (let (v, s) = timer_read t_IRQ_EN s in timer_write t_IRQ_EN (v AND NOT (bitm (unat (t_ch t)))) s)"

section \<open>Service routines\<close>

text \<open>The handlers this module installs, and the memory of the module.\<close>

datatype timer_isr = Timer0_isr | Timer1_isr | Timer2_isr | Systick_isr

record 'c timer_mem =
  timer_callbacks :: "'c option list" \<comment> \<open>\<open>TIMER_CALLBACKS\<close>, three of them\<close>
  system_tick_ms :: u64

type_synonym 'c tstate = "(timer_isr, 'c timer_mem) irq_state"

definition set_callback_slot :: "nat \<Rightarrow> 'c \<Rightarrow> 'c tstate \<Rightarrow> 'c tstate option" where
  "set_callback_slot i cb s = do {
     cbs \<leftarrow> slice_set (timer_callbacks (user s)) i (Some cb);
     Some (s\<lparr>user := (user s)\<lparr>timer_callbacks := cbs\<rparr>\<rparr>)
   }"

definition install_interrupt :: "'c timer \<Rightarrow> 'c \<Rightarrow> 'c tstate \<Rightarrow> ('c timer \<times> 'c tstate) option" where
  "install_interrupt t callback s = do {
     let t = t\<lparr>t_callback := Some callback\<rparr>;
     s \<leftarrow> set_callback_slot (unat (t_ch t)) callback s;
     if 2 < t_ch t then Some (t, s)
     else do {
       let isr = (if t_ch t = 0 then Timer0_isr else if t_ch t = 1 then Timer1_isr else Timer2_isr);
       let (_, s) = install (t_irq_vector t) isr s;
       Some (t, enable_interrupt t s)
     }
   }"

definition set_callback :: "'c timer \<Rightarrow> 'c \<Rightarrow> 'c tstate \<Rightarrow> ('c timer \<times> 'c tstate) option" where
  "set_callback t callback s = do {
     let t = t\<lparr>t_callback := Some callback\<rparr>;
     s \<leftarrow> set_callback_slot (unat (t_ch t)) callback s;
     Some (t, s)
   }"

text \<open>\<open>timer0_isr\<close>, \<open>timer1_isr\<close> and \<open>timer2_isr\<close> are the same code for the channels 0, 1, 2.\<close>

definition channel_isr :: "('c \<Rightarrow> 'c tstate \<Rightarrow> 'c tstate option) \<Rightarrow> nat \<Rightarrow> 'c tstate \<Rightarrow> 'c tstate option" where
  "channel_isr call ch s = do {
     let (sta, s) = timer_read t_IRQ_STA s;
     if sta AND bitm ch \<noteq> 0 then do {
       let s = timer_write t_IRQ_STA (bitm ch) s;
       cb \<leftarrow> slice_get (timer_callbacks (user s)) ch;
       case cb of Some c \<Rightarrow> call c s | None \<Rightarrow> Some s
     } else Some s
   }"

definition systick_isr :: "'c tstate \<Rightarrow> 'c tstate" where
  "systick_isr s = (let (sta, s) = timer_read t_IRQ_STA s in
     if sta AND 1 \<noteq> 0 then
       let s = timer_write t_IRQ_STA 1 s
       in s\<lparr>user := (user s)\<lparr>system_tick_ms := system_tick_ms (user s) + 1\<rparr>\<rparr>
     else s)"

fun timer_invoke :: "('c \<Rightarrow> 'c tstate \<Rightarrow> 'c tstate option) \<Rightarrow> timer_isr \<Rightarrow> u32 \<Rightarrow> 'c tstate \<Rightarrow> 'c tstate option" where
  "timer_invoke call Timer0_isr _ s = channel_isr call 0 s"
| "timer_invoke call Timer1_isr _ s = channel_isr call 1 s"
| "timer_invoke call Timer2_isr _ s = channel_isr call 2 s"
| "timer_invoke call Systick_isr _ s = Some (systick_isr s)"

section \<open>Delays\<close>

definition avs_init :: "mmio \<Rightarrow> mmio" where
  "avs_init m = (let m = wr32 (CCU_BASE + 0x144) (bitm 31) m; m = wr32 (TIMER_BASE + AVS_CTRL) 3 m
     in wr32 (TIMER_BASE + AVS_DIV) (push_bit 16 11999 OR 11) m)"

definition delay_us :: "u32 \<Rightarrow> mmio \<Rightarrow> mmio option" where
  "delay_us us m = poll32 (TIMER_BASE + AVS_CNT0) (\<lambda>v. us \<le> v) (wr32 (TIMER_BASE + AVS_CNT0) 0 m)"

definition delay_ms :: "u32 \<Rightarrow> mmio \<Rightarrow> mmio option" where
  "delay_ms ms m = delay_us (ms * 1000) m"

section \<open>System tick\<close>

definition systick_ms :: "'c tstate \<Rightarrow> u64" where
  "systick_ms s = system_tick_ms (user s)"

definition systick_init :: "'c tstate \<Rightarrow> 'c tstate option" where
  "systick_init s = do {
     let t0 = (timer_new Ch0 :: 'c timer);
     s \<leftarrow> configure t0 \<lparr>cfg_prescaler = Div1, cfg_mode = Periodic, cfg_interval = TIMER_SRC_HZ div 1000\<rparr> s;
     let (_, s) = install TIMER0_INTERRUPT Systick_isr s;
     let s = unmask_irq TIMER0_INTERRUPT s;
     Some (timer_start t0 (TIMER_SRC_HZ div 1000) Periodic s)
   }"

section \<open>Properties\<close>

text \<open>On plain registers every operation changes only the accesses of the state.\<close>

lemma timer_read_plain: "irq_plain s R \<Longrightarrow> \<exists>m. timer_read off s = (R (TIMER_BASE + off), s\<lparr>io := m\<rparr>) \<and> plain m R"
  using backed_rd32 [of "\<lambda>_ v. v" "io s" R "TIMER_BASE + off"] by (auto simp: timer_read_def)

lemma timer_write_plain: "irq_plain s R \<Longrightarrow> \<exists>m. timer_write off v s = s\<lparr>io := m\<rparr> \<and> plain m (R(TIMER_BASE + off := v))"
  using regs.wr_holds by (fastforce simp: timer_write_def)

lemma timer_stop_never: "irq_plain s R \<Longrightarrow> timer_stop t s = None"
proof -
  assume p: "irq_plain s R"
  let ?c = "ch_ctrl (t_ch t)" and ?v = "ch_curv (t_ch t)"
  obtain m1 where m1: "timer_read ?c s = (R (TIMER_BASE + ?c), s\<lparr>io := m1\<rparr>)" "plain m1 R"
    using timer_read_plain [OF p] by blast
  let ?R = "R(TIMER_BASE + ?c := R (TIMER_BASE + ?c) AND NOT ctl_ENABLE)"
  let ?s = "timer_write ?c (R (TIMER_BASE + ?c) AND NOT ctl_ENABLE) (s\<lparr>io := m1\<rparr>)"
  have "irq_plain ?s ?R" using m1(2) by (simp add: timer_write_def regs.wr_holds)
  from timer_read_plain [OF this, of ?v] obtain m2
    where m2: "timer_read ?v ?s = (?R (TIMER_BASE + ?v), ?s\<lparr>io := m2\<rparr>)" "plain m2 ?R" by blast
  have "poll32 (TIMER_BASE + ?v) (\<lambda>cur. 3 \<le> ?R (TIMER_BASE + ?v) - cur) m2 = None"
    by (rule poll32_never [OF m2(2)]) simp
  then show ?thesis using m1(1) m2(1) by (simp add: timer_stop_def)
qed

definition mode_bits :: "timer_mode \<Rightarrow> u32" where
  "mode_bits md = (case md of Periodic \<Rightarrow> 0 | OneShot \<Rightarrow> ctl_ONESHOT)"

definition config_ctrl :: "prescaler \<Rightarrow> timer_mode \<Rightarrow> u32" where
  "config_ctrl p md = CLK_SRC_OSC24M OR clk_pres (prescaler_code p) OR mode_bits md"

abbreviation reg_ctrl :: "'c timer \<Rightarrow> u32" where "reg_ctrl t \<equiv> TIMER_BASE + ch_ctrl (t_ch t)"
abbreviation reg_intv :: "'c timer \<Rightarrow> u32" where "reg_intv t \<equiv> TIMER_BASE + ch_intv (t_ch t)"

lemma ctrl_intv: "reg_ctrl t \<noteq> reg_intv t"
  by (simp add: ch_ctrl_def ch_intv_def)

lemma configure_running:
  assumes "irq_plain s R" "R (reg_ctrl t) AND ctl_ENABLE \<noteq> 0"
  shows "configure t c s = None"
proof -
  obtain m where "timer_read (ch_ctrl (t_ch t)) s = (R (reg_ctrl t), s\<lparr>io := m\<rparr>)" "plain m R"
    using timer_read_plain [OF assms(1)] by blast
  then show ?thesis using assms(2) timer_stop_never [of "s\<lparr>io := m\<rparr>" R t]
    by (simp add: configure_def is_running_def)
qed

lemma configure_stopped:
  assumes "irq_plain s R" "R (reg_ctrl t) AND ctl_ENABLE = 0"
  shows "\<exists>m. configure t c s = Some (s\<lparr>io := m\<rparr>) \<and>
    plain m (R(reg_ctrl t := config_ctrl (cfg_prescaler c) (cfg_mode c), reg_intv t := cfg_interval c))"
proof -
  let ?v = "config_ctrl (cfg_prescaler c) (cfg_mode c)"
  obtain m where m: "timer_read (ch_ctrl (t_ch t)) s = (R (reg_ctrl t), s\<lparr>io := m\<rparr>)" "plain m R"
    using timer_read_plain [OF assms(1)] by blast
  have "configure t c s = Some (timer_write (ch_intv (t_ch t)) (cfg_interval c)
      (timer_write (ch_ctrl (t_ch t)) ?v (s\<lparr>io := m\<rparr>)))"
    using m(1) assms(2)
    by (cases "cfg_mode c") (simp_all add: configure_def is_running_def config_ctrl_def mode_bits_def or.assoc)
  then have "configure t c s = Some (s\<lparr>io := wr32 (reg_intv t) (cfg_interval c) (wr32 (reg_ctrl t) ?v m)\<rparr>)"
    by (simp add: timer_write_def)
  then show ?thesis using regs.wr_holds [OF regs.wr_holds [OF m(2)]] by blast
qed

lemma timer_start_plain:
  assumes "irq_plain s R"
  shows "\<exists>m. timer_start t n md s = s\<lparr>io := m\<rparr> \<and> plain m (R(reg_intv t := n, reg_ctrl t :=
    (case md of Periodic \<Rightarrow> R (reg_ctrl t) AND NOT ctl_ONESHOT | OneShot \<Rightarrow> R (reg_ctrl t) OR ctl_ONESHOT)
      OR (ctl_ENABLE OR ctl_RELOAD)))"
proof -
  obtain m1 where m1: "timer_write (ch_intv (t_ch t)) n s = s\<lparr>io := m1\<rparr>" "plain m1 (R(reg_intv t := n))"
    using timer_write_plain [OF assms] by blast
  from timer_read_plain [of "s\<lparr>io := m1\<rparr>" "R(reg_intv t := n)" "ch_ctrl (t_ch t)"] m1(2) obtain m2
    where m2: "timer_read (ch_ctrl (t_ch t)) (s\<lparr>io := m1\<rparr>) = (R (reg_ctrl t), s\<lparr>io := m2\<rparr>)"
      "plain m2 (R(reg_intv t := n))" using ctrl_intv [of t] by auto
  have "timer_start t n md s = s\<lparr>io := wr32 (reg_ctrl t) ((case md of Periodic \<Rightarrow> R (reg_ctrl t) AND NOT ctl_ONESHOT
      | OneShot \<Rightarrow> R (reg_ctrl t) OR ctl_ONESHOT) OR (ctl_ENABLE OR ctl_RELOAD)) m2\<rparr>"
    using m1(1) m2(1) by (simp add: timer_start_def) (simp add: timer_write_def)
  then show ?thesis using regs.wr_holds [OF m2(2), of "reg_ctrl t"] by blast
qed

section \<open>Intervals in microseconds\<close>

lemma src_hz_div: "unat (TIMER_SRC_HZ div prescaler_divisor p) = 24000000 div 2 ^ unat (prescaler_code p)"
proof -
  have "unat (prescaler_divisor p) = 2 ^ unat (prescaler_code p)" by (cases p) (simp_all, code_simp+)
  then show ?thesis by (simp add: unat_div TIMER_SRC_HZ_def)
qed

lemma unat_ucast_64: "unat (ucast (x :: u32) :: u64) = unat x"
  using unat_u32 [of x] by (simp add: unsigned_ucast_eq take_bit_nat_eq_self)

lemma oneshot_ticks_unat:
  "unat (oneshot_ticks p us) = (24 * unat us div 2 ^ unat (prescaler_code p)) mod 2 ^ 32"
proof -
  let ?c = "24000000 div 2 ^ unat (prescaler_code p) :: nat"
  have c: "unat (ucast (TIMER_SRC_HZ div prescaler_divisor p) :: u64) = ?c"
    using src_hz_div [of p] by (simp add: unat_ucast_64)
  have "?c * unat us < 2 ^ 64"
  proof -
    have "?c \<le> 2 ^ 25" by (cases p) auto
    moreover have "unat us < 2 ^ 32" by (rule unat_u32)
    ultimately have "?c * unat us \<le> 2 ^ 25 * 2 ^ 32" by (intro mult_le_mono) auto
    then show ?thesis by simp
  qed
  then have "unat (ucast (TIMER_SRC_HZ div prescaler_divisor p) * ucast us :: u64) = ?c * unat us"
    using c by (simp add: unat_word_ariths unat_ucast_64)
  moreover have "?c * unat us div 1000000 = 24 * unat us div 2 ^ unat (prescaler_code p)"
    by (cases p) simp_all
  ultimately show ?thesis
    by (simp add: oneshot_ticks_def Let_def unsigned_ucast_eq unat_div take_bit_eq_mod)
qed

lemma config_then_run: "config_ctrl p OneShot OR ctl_ENABLE OR ctl_RELOAD =
    push_bit 4 (prescaler_code p) OR 0x87"
  by (induction p) (code_simp+)

lemma oneshot_started:
  assumes "irq_plain s R"
  shows "R (reg_ctrl t) AND 1 = 0 \<Longrightarrow> \<exists>m. start_oneshot_us t p us s = Some (s\<lparr>io := m\<rparr>) \<and>
      plain m (R(reg_ctrl t := push_bit 4 (prescaler_code p) OR 0x87, reg_intv t := oneshot_ticks p us)) \<and>
      unat (oneshot_ticks p us) = (24 * unat us div 2 ^ unat (prescaler_code p)) mod 2 ^ 32 \<and>
      (5 \<le> prescaler_code p \<longrightarrow> unat (oneshot_ticks p us) = 24 * unat us div 2 ^ unat (prescaler_code p))"
    and "R (reg_ctrl t) AND 1 \<noteq> 0 \<Longrightarrow> start_oneshot_us t p us s = None"
proof -
  let ?c = "\<lparr>cfg_prescaler = p, cfg_mode = OneShot, cfg_interval = oneshot_ticks p us\<rparr>"
  have en: "ctl_ENABLE = 1" by (simp add: ctl_ENABLE_def bitm_def)
  {
    assume "R (reg_ctrl t) AND 1 = 0"
    with configure_stopped [OF assms, of t ?c] en obtain m where m: "configure t ?c s = Some (s\<lparr>io := m\<rparr>)"
      "plain m (R(reg_ctrl t := config_ctrl p OneShot, reg_intv t := oneshot_ticks p us))" by auto
    from timer_read_plain [of "s\<lparr>io := m\<rparr>" _ "ch_ctrl (t_ch t)"] m(2) ctrl_intv [of t] obtain m2
      where m2: "timer_read (ch_ctrl (t_ch t)) (s\<lparr>io := m\<rparr>) = (config_ctrl p OneShot, s\<lparr>io := m2\<rparr>)"
        "plain m2 (R(reg_ctrl t := config_ctrl p OneShot, reg_intv t := oneshot_ticks p us))" by fastforce
    have "start_oneshot_us t p us s =
        Some (s\<lparr>io := wr32 (reg_ctrl t) (config_ctrl p OneShot OR ctl_ENABLE OR ctl_RELOAD) m2\<rparr>)"
      using m(1) m2(1) by (simp add: start_oneshot_us_def) (simp add: timer_write_def)
    moreover have "24 * unat us div 2 ^ unat (prescaler_code p) < 2 ^ 32" if "5 \<le> prescaler_code p"
      using that unat_u32 [of us] by (cases p) (simp_all add: less_mult_imp_div_less word_le_nat_alt)
    ultimately show "\<exists>m. start_oneshot_us t p us s = Some (s\<lparr>io := m\<rparr>) \<and>
      plain m (R(reg_ctrl t := push_bit 4 (prescaler_code p) OR 0x87, reg_intv t := oneshot_ticks p us)) \<and>
      unat (oneshot_ticks p us) = (24 * unat us div 2 ^ unat (prescaler_code p)) mod 2 ^ 32 \<and>
      (5 \<le> prescaler_code p \<longrightarrow> unat (oneshot_ticks p us) = 24 * unat us div 2 ^ unat (prescaler_code p))"
      using regs.wr_holds [OF m2(2), of "reg_ctrl t"] ctrl_intv [of t]
      by (intro exI conjI) (auto simp: config_then_run oneshot_ticks_unat fun_upd_twist [of "reg_intv t"])
  }
  show "start_oneshot_us t p us s = None" if "R (reg_ctrl t) AND 1 \<noteq> 0"
    using configure_running [OF assms, of t ?c] that en by (simp add: start_oneshot_us_def)
qed

text \<open>On registers that keep what is written, \<open>start_oneshot_us\<close> of a stopped timer starts it
  for exactly \<open>24 us / 2\<^sup>p\<close> ticks, as long as this fits 32 bits (it always does from \<open>Div32\<close> on,
  above that the interval is cut off), with the prescaler \<open>p\<close>, one-shot, enabled, and it changes
  nothing else.  On a timer that is running it does not return: it waits for the counter it has
  just stopped to move on.\<close>

theorem start_oneshot_us_correct:
  assumes "irq_plain s R"
  shows "(R (reg_ctrl t) AND 1 = 0 \<longrightarrow> (\<exists>m. start_oneshot_us t p us s = Some (s\<lparr>io := m\<rparr>) \<and>
      plain m (R(reg_ctrl t := push_bit 4 (prescaler_code p) OR 0x87, reg_intv t := oneshot_ticks p us)) \<and>
      unat (oneshot_ticks p us) = (24 * unat us div 2 ^ unat (prescaler_code p)) mod 2 ^ 32 \<and>
      (5 \<le> prescaler_code p \<longrightarrow> unat (oneshot_ticks p us) = 24 * unat us div 2 ^ unat (prescaler_code p)))) \<and>
    (R (reg_ctrl t) AND 1 \<noteq> 0 \<longrightarrow> start_oneshot_us t p us s = None)"
  by (intro conjI impI oneshot_started [OF assms])

lemma unmask_plain:
  assumes "irq_plain s R" "v < 64"
  shows "\<exists>m. unmask_irq v s = s\<lparr>io := m\<rparr> \<and> plain m (R(INTC_BASE + snd (snd (group_regs (vector_group v))) :=
    R (INTC_BASE + snd (snd (group_regs (vector_group v)))) AND NOT (bitm (vector_bit v))))"
proof -
  let ?r = "snd (snd (group_regs (vector_group v)))"
  obtain m where m: "intc_rd ?r s = (R (INTC_BASE + ?r), s\<lparr>io := m\<rparr>)" "plain m R"
    using intc_rd_plain [OF assms(1)] by blast
  have "unmask_irq v s = s\<lparr>io := wr32 (INTC_BASE + ?r) (R (INTC_BASE + ?r) AND NOT (bitm (vector_bit v))) m\<rparr>"
    using m(1) assms(2) by (simp add: unmask_irq_def split_beta) (simp add: intc_wr_def linorder_not_le [symmetric])
  then show ?thesis using regs.wr_holds [OF m(2)] by blast
qed

lemma install_plain:
  assumes "irq_plain s R" "v < 64"
  shows "\<exists>m. install v h s = (Some (isr_table s (unat v)), s\<lparr>isr_table := (isr_table s)(unat v := Some h), io := m\<rparr>) \<and>
    plain m (R(pend_addr v := R (pend_addr v) AND NOT (bitm (vector_bit v)),
      INTC_BASE + fst (snd (group_regs (vector_group v))) :=
        R (INTC_BASE + fst (snd (group_regs (vector_group v)))) OR bitm (vector_bit v)))"
proof -
  let ?p = "fst (group_regs (vector_group v))" and ?e = "fst (snd (group_regs (vector_group v)))"
  let ?s0 = "s\<lparr>isr_table := (isr_table s)(unat v := Some h)\<rparr>"
  have ne: "INTC_BASE + ?p \<noteq> INTC_BASE + ?e" by (simp add: group_regs_def intc_regs)
  obtain m where m: "intc_rd ?p ?s0 = (R (INTC_BASE + ?p), ?s0\<lparr>io := m\<rparr>)" "plain m R"
    using intc_rd_plain [of ?s0] assms(1) by auto
  let ?R = "R(INTC_BASE + ?p := R (INTC_BASE + ?p) AND NOT (bitm (vector_bit v)))"
  let ?m = "wr32 (INTC_BASE + ?p) (R (INTC_BASE + ?p) AND NOT (bitm (vector_bit v))) m"
  have "plain ?m ?R" by (rule regs.wr_holds [OF m(2)])
  then obtain m2 where m2: "intc_rd ?e (?s0\<lparr>io := ?m\<rparr>) = (R (INTC_BASE + ?e), ?s0\<lparr>io := m2\<rparr>)" "plain m2 ?R"
    using intc_rd_plain [of "?s0\<lparr>io := ?m\<rparr>" ?R ?e] ne by auto
  have "install v h s = (Some (isr_table s (unat v)),
      ?s0\<lparr>io := wr32 (INTC_BASE + ?e) (R (INTC_BASE + ?e) OR bitm (vector_bit v)) m2\<rparr>)"
    using m(1) m2(1) assms(2)
    by (simp add: install_def split_beta Let_def linorder_not_le [symmetric]) (simp add: intc_wr_def)
  then show ?thesis using regs.wr_holds [OF m2(2), of "INTC_BASE + ?e"]
    unfolding pend_group [symmetric] by (intro exI conjI) auto
qed

theorem start_oneshot_us_correct_witness:
  "\<exists>s'. start_oneshot_us (timer_new Ch1 :: unit timer) Div8 1000 \<lparr>io = regs_of (\<lambda>_ v. v) (\<lambda>_. 0), interrupt_nest = 0,
     in_isr_flag = False, isr_table = (\<lambda>_. None :: unit option), user = ()\<rparr> = Some s' \<and>
     plain (io s') ((\<lambda>_. 0)(0x01C20C20 := 0xB7, 0x01C20C24 := 3000))"
proof -
  let ?s = "\<lparr>io = regs_of (\<lambda>_ v. v) (\<lambda>_. 0), interrupt_nest = 0, in_isr_flag = False,
     isr_table = (\<lambda>_. None :: unit option), user = ()\<rparr>"
  have c: "reg_ctrl (timer_new Ch1 :: unit timer) = 0x01C20C20" "reg_intv (timer_new Ch1 :: unit timer) = 0x01C20C24"
    "oneshot_ticks Div8 1000 = 3000" "push_bit 4 (prescaler_code Div8) OR 0x87 = 0xB7"
    by (code_simp, code_simp, code_simp, code_simp)
  have p: "irq_plain ?s (\<lambda>_. 0)" by (simp add: backed_regs_of)
  from start_oneshot_us_correct [OF p, of "timer_new Ch1 :: unit timer" Div8 1000, unfolded c] show ?thesis by auto
qed

section \<open>The system tick\<close>

text \<open>\<open>n\<close> interrupts, one after the other.\<close>

fun interrupts :: "nat \<Rightarrow> ('c \<Rightarrow> 'c tstate \<Rightarrow> 'c tstate option) \<Rightarrow> 'c tstate \<Rightarrow> 'c tstate option" where
  "interrupts 0 call s = Some s"
| "interrupts (Suc n) call s = do { s \<leftarrow> dispatch (timer_invoke call) s; interrupts n call s }"

text \<open>The controller shows vector 13, whose handler is the tick's, and timer 0 is pending.\<close>

definition tick_ready :: "'c tstate \<Rightarrow> (u32 \<Rightarrow> u32) \<Rightarrow> bool" where
  "tick_ready s R \<longleftrightarrow> irq_plain s R \<and> drop_bit 2 (R INTC_BASE - R (INTC_BASE + 4)) = TIMER0_INTERRUPT \<and>
     isr_table s 13 = Some Systick_isr \<and> R (TIMER_BASE + t_IRQ_STA) AND 1 \<noteq> 0"

lemma systick_isr_plain:
  assumes "irq_plain s R" "R (TIMER_BASE + t_IRQ_STA) AND 1 \<noteq> 0"
  shows "\<exists>m. systick_isr s = s\<lparr>io := m, user := (user s)\<lparr>system_tick_ms := system_tick_ms (user s) + 1\<rparr>\<rparr> \<and>
    plain m (R(TIMER_BASE + t_IRQ_STA := 1))"
proof -
  obtain m where m: "timer_read t_IRQ_STA s = (R (TIMER_BASE + t_IRQ_STA), s\<lparr>io := m\<rparr>)" "plain m R"
    using timer_read_plain [OF assms(1)] by blast
  have "systick_isr s = s\<lparr>io := wr32 (TIMER_BASE + t_IRQ_STA) 1 m,
      user := (user s)\<lparr>system_tick_ms := system_tick_ms (user s) + 1\<rparr>\<rparr>"
    using m(1) assms(2) by (simp add: systick_isr_def Let_def) (simp add: timer_write_def)
  then show ?thesis using regs.wr_holds [OF m(2)] by blast
qed

lemma tick_dispatch:
  assumes "tick_ready s R"
  shows "\<exists>s' R'. dispatch (timer_invoke call) s = Some s' \<and> tick_ready s' R' \<and> systick_ms s' = systick_ms s + 1"
proof -
  let ?R = "R(TIMER_BASE + t_IRQ_STA := 1)"
  have a: "irq_plain s R" "drop_bit 2 (R INTC_BASE - R (INTC_BASE + 4)) = 13" "isr_table s 13 = Some Systick_isr"
    "R (TIMER_BASE + t_IRQ_STA) AND 1 \<noteq> 0"
    using assms by (auto simp: tick_ready_def TIMER0_INTERRUPT_def)
  let ?P = "\<lambda>t. isr_table t = isr_table s \<and> systick_ms t = systick_ms s + 1"
  have h: "\<exists>t. call_handler (timer_invoke call) (isr_table s (unat (13 :: u32))) 13 (entered m s) = Some t
      \<and> irq_plain t ?R \<and> ?P t" if "plain m R" for m
    using systick_isr_plain [of "entered m s" R] that a
    by (auto simp: call_handler_def entered_def systick_ms_def)
  from dispatch_call [OF a(1,2) _ h] obtain t s' where t: "?P t" "dispatch (timer_invoke call) s = Some s'"
    "irq_plain s' (?R(pend_addr 13 := ?R (pend_addr 13) AND NOT (bitm (unat (13 :: u32)))))"
    "isr_table s' = isr_table t" "user s' = user t" by auto
  have ne: "pend_addr 13 = 0x01C20410" by code_simp
  have "tick_ready s' (?R(pend_addr 13 := ?R (pend_addr 13) AND NOT (bitm (unat (13 :: u32)))))"
    using t a unfolding ne
    by (simp add: tick_ready_def INTC_BASE_def TIMER_BASE_def t_IRQ_STA_def TIMER0_INTERRUPT_def)
  moreover have "systick_ms s' = systick_ms s + 1" using t by (simp add: systick_ms_def)
  ultimately show ?thesis using t(2) by blast
qed

lemma tick_interrupts:
  "tick_ready s R \<Longrightarrow> \<exists>s'. interrupts n call s = Some s' \<and> systick_ms s' = systick_ms s + word_of_nat n"
proof (induction n arbitrary: s R)
  case (Suc n)
  obtain s' R' where s': "dispatch (timer_invoke call) s = Some s'" "tick_ready s' R'" "systick_ms s' = systick_ms s + 1"
    using tick_dispatch [OF Suc.prems] by blast
  from Suc.IH [OF s'(2)] s' show ?case by (auto simp: algebra_simps)
qed simp

text \<open>The registers after \<open>systick_init\<close>: \<open>0x01C20C10\<close> and \<open>14\<close> are control and interval of timer 0,
  \<open>0x01C20410\<close>, \<open>20\<close>, \<open>30\<close> the pending, enable and mask registers of the controller.\<close>

definition systick_regs :: "(u32 \<Rightarrow> u32) \<Rightarrow> u32 \<Rightarrow> u32" where
  "systick_regs R = R(0x01C20C10 := 7, 0x01C20C14 := 24000,
     0x01C20410 := R 0x01C20410 AND NOT (bitm 13), 0x01C20420 := R 0x01C20420 OR bitm 13,
     0x01C20430 := R 0x01C20430 AND NOT (bitm 13))"

lemma systick_init_plain:
  fixes s :: "'c tstate"
  assumes "irq_plain s R" "R 0x01C20C10 AND 1 = 0"
  shows "\<exists>m. systick_init s = Some (s\<lparr>isr_table := (isr_table s)(13 := Some Systick_isr), io := m\<rparr>) \<and>
    plain m (systick_regs R)"
proof -
  let ?t = "timer_new Ch0 :: 'c timer"
  let ?cfg = "\<lparr>cfg_prescaler = Div1, cfg_mode = Periodic, cfg_interval = TIMER_SRC_HZ div 1000\<rparr>"
  have c: "reg_ctrl ?t = 0x01C20C10" "reg_intv ?t = 0x01C20C14" "config_ctrl Div1 Periodic = 4" "ctl_ENABLE = 1"
    "TIMER_SRC_HZ div 1000 = 24000" "pend_addr 13 = 0x01C20410" "vector_bit 13 = 13"
    "INTC_BASE + fst (snd (group_regs (vector_group 13))) = 0x01C20420"
    "INTC_BASE + snd (snd (group_regs (vector_group 13))) = 0x01C20430" "4 AND NOT ctl_ONESHOT OR (1 OR ctl_RELOAD) = 7"
    by (code_simp, code_simp, code_simp, code_simp, code_simp, code_simp, code_simp, code_simp, code_simp, code_simp)
  let ?R1 = "R(0x01C20C10 := 4, 0x01C20C14 := 24000)"
  obtain m1 where m1: "configure ?t ?cfg s = Some (s\<lparr>io := m1\<rparr>)" "plain m1 ?R1"
    using configure_stopped [OF assms(1), of ?t ?cfg] assms(2) unfolding c by (auto simp: c(3))
  let ?s2 = "s\<lparr>isr_table := (isr_table s)(13 := Some Systick_isr)\<rparr>"
  let ?R2 = "?R1(0x01C20410 := ?R1 0x01C20410 AND NOT (bitm 13), 0x01C20420 := ?R1 0x01C20420 OR bitm 13)"
  obtain old m2 where m2: "install 13 Systick_isr (s\<lparr>io := m1\<rparr>) = (old, ?s2\<lparr>io := m2\<rparr>)" "plain m2 ?R2"
    using install_plain [of "s\<lparr>io := m1\<rparr>" ?R1 13 Systick_isr] m1(2) unfolding c by auto
  let ?R3 = "?R2(0x01C20430 := ?R2 0x01C20430 AND NOT (bitm 13))"
  obtain m3 where m3: "unmask_irq 13 (?s2\<lparr>io := m2\<rparr>) = ?s2\<lparr>io := m3\<rparr>" "plain m3 ?R3"
    using unmask_plain [of "?s2\<lparr>io := m2\<rparr>" ?R2 13] m2(2) unfolding c by auto
  obtain m4 where m4: "timer_start ?t 24000 Periodic (?s2\<lparr>io := m3\<rparr>) = ?s2\<lparr>io := m4\<rparr>"
    "plain m4 (?R3(0x01C20C14 := 24000, 0x01C20C10 := 7))"
    using timer_start_plain [of "?s2\<lparr>io := m3\<rparr>" ?R3 ?t 24000 Periodic] m3(2) c(10) unfolding c(1,2,4) by auto
  have "systick_init s = Some (?s2\<lparr>io := m4\<rparr>)"
    using m1(1) m2(1) m3(1) m4(1) c(5) by (simp add: systick_init_def TIMER0_INTERRUPT_def)
  moreover have "?R3(0x01C20C14 := 24000, 0x01C20C10 := 7) = systick_regs R"
    by (auto simp: systick_regs_def fun_eq_iff)
  ultimately show ?thesis using m4(2) by auto
qed



end
