(* ===== verification/Gpio.thy ===== *)
theory Gpio
  imports Mmio
begin

text \<open>
  \<open>gpio.rs\<close>: pin functions, levels, pulls, drive strengths and the external interrupts of
  ports D, E and F.  An operation whose assertion fails is \<^term>\<open>None\<close>.
\<close>

datatype port = PortA | PortB | PortC | PortD | PortE | PortF

fun port_num :: "port \<Rightarrow> nat" where
  "port_num PortA = 0" | "port_num PortB = 1" | "port_num PortC = 2"
| "port_num PortD = 3" | "port_num PortE = 4" | "port_num PortF = 5"

text \<open>The discriminants order the ports, as their register blocks are ordered.\<close>

instantiation port :: linorder
begin
definition less_eq_port :: "port \<Rightarrow> port \<Rightarrow> bool" where "less_eq_port p q \<longleftrightarrow> port_num p \<le> port_num q"
definition less_port :: "port \<Rightarrow> port \<Rightarrow> bool" where "less_port p q \<longleftrightarrow> port_num p < port_num q"
instance
proof
  fix p q r :: port
  show "p \<le> q \<Longrightarrow> q \<le> p \<Longrightarrow> p = q" by (cases p; cases q) (simp_all add: less_eq_port_def)
qed (auto simp: less_eq_port_def less_port_def)
end

definition PORT_COUNT :: nat where "PORT_COUNT = 6"
definition PINS_PER_PORT :: u8 where "PINS_PER_PORT = 28"

definition fn_INPUT :: u8 where "fn_INPUT = 0"
definition fn_OUTPUT :: u8 where "fn_OUTPUT = 1"

datatype pull_mode = PullDisable | PullUp | PullDown
datatype drive_level = Level0 | Level1 | Level2 | Level3
datatype irq_type = PositiveEdge | NegativeEdge | HighLevel | LowLevel | DoubleEdge
datatype irq_clock = Losc32kHz | Hosc24MHz
datatype debounce = Deb1 | Deb2 | Deb4 | Deb8 | Deb16 | Deb32 | Deb64 | Deb128

fun pull_code :: "pull_mode \<Rightarrow> u32" where
  "pull_code PullDisable = 0" | "pull_code PullUp = 1" | "pull_code PullDown = 2"
fun drive_code :: "drive_level \<Rightarrow> u32" where
  "drive_code Level0 = 0" | "drive_code Level1 = 1" | "drive_code Level2 = 2" | "drive_code Level3 = 3"
fun irq_code :: "irq_type \<Rightarrow> u32" where
  "irq_code PositiveEdge = 0" | "irq_code NegativeEdge = 1" | "irq_code HighLevel = 2"
| "irq_code LowLevel = 3" | "irq_code DoubleEdge = 4"
fun irq_clock_code :: "irq_clock \<Rightarrow> u32" where
  "irq_clock_code Losc32kHz = 0" | "irq_clock_code Hosc24MHz = 1"
fun debounce_code :: "debounce \<Rightarrow> u32" where
  "debounce_code Deb1 = 0" | "debounce_code Deb2 = 1" | "debounce_code Deb4 = 2" | "debounce_code Deb8 = 3"
| "debounce_code Deb16 = 4" | "debounce_code Deb32 = 5" | "debounce_code Deb64 = 6" | "debounce_code Deb128 = 7"

definition GPIO_BASE :: u32 where "GPIO_BASE = 0x01C20800"
definition GPIO_INT_BASE :: u32 where "GPIO_INT_BASE = GPIO_BASE + 0x200"

definition off_CFG :: u32 where "off_CFG = 0x00"
definition off_DATA :: u32 where "off_DATA = 0x10"
definition off_DRV :: u32 where "off_DRV = 0x14"
definition off_PUL :: u32 where "off_PUL = 0x1C"
definition int_CFG :: u32 where "int_CFG = 0x00"
definition int_CTRL :: u32 where "int_CTRL = 0x10"
definition int_STA :: u32 where "int_STA = 0x14"
definition int_DEB :: u32 where "int_DEB = 0x18"

lemmas gpio_regs [reg_addrs] = GPIO_BASE_def GPIO_INT_BASE_def off_CFG_def off_DATA_def off_DRV_def off_PUL_def
  int_CFG_def int_CTRL_def int_STA_def int_DEB_def

definition port_base :: "port \<Rightarrow> u32" where
  "port_base p = GPIO_BASE + word_of_nat (port_num p) * 0x24"

definition int_base :: "port \<Rightarrow> u32 option" where
  "int_base p = (case p of
      PortD \<Rightarrow> Some GPIO_INT_BASE
    | PortE \<Rightarrow> Some (GPIO_INT_BASE + 0x20)
    | PortF \<Rightarrow> Some (GPIO_INT_BASE + 2 * 0x20)
    | _ \<Rightarrow> None)"

section \<open>Pins\<close>

definition check_pin :: "port \<Rightarrow> u8 \<Rightarrow> unit option" where
  "check_pin p pin = assert_that (port_num p < PORT_COUNT \<and> pin < PINS_PER_PORT)"

definition set_function :: "port \<Rightarrow> u8 \<Rightarrow> u8 \<Rightarrow> mmio \<Rightarrow> mmio option" where
  "set_function p pin func m = do {
     check_pin p pin;
     let cfg_addr = port_base p + off_CFG + ucast (pin div 8) * 4;
     let offset = unat ((pin mod 8) * 4);
     let (v, m) = rd32 cfg_addr m;
     Some (wr32 cfg_addr ((v AND NOT (push_bit offset 0x7)) OR push_bit offset (ucast func)) m)
   }"

definition direction_input :: "port \<Rightarrow> u8 \<Rightarrow> mmio \<Rightarrow> mmio option" where
  "direction_input p pin = set_function p pin fn_INPUT"

definition get_value :: "port \<Rightarrow> u8 \<Rightarrow> mmio \<Rightarrow> (bool \<times> mmio) option" where
  "get_value p pin m = do {
     check_pin p pin;
     let (v, m) = rd32 (port_base p + off_DATA) m;
     Some (drop_bit (unat pin) v AND 1 \<noteq> 0, m)
   }"

definition set_value :: "port \<Rightarrow> u8 \<Rightarrow> bool \<Rightarrow> mmio \<Rightarrow> mmio option" where
  "set_value p pin value m = do {
     check_pin p pin;
     let (v, m) = rd32 (port_base p + off_DATA) m;
     Some (wr32 (port_base p + off_DATA)
       ((v AND NOT (bitm (unat pin))) OR push_bit (unat pin) (of_bool value)) m)
   }"

definition direction_output :: "port \<Rightarrow> u8 \<Rightarrow> bool \<Rightarrow> mmio \<Rightarrow> mmio option" where
  "direction_output p pin value m = do {
     m \<leftarrow> set_value p pin value m;
     set_function p pin fn_OUTPUT m
   }"

definition toggle :: "port \<Rightarrow> u8 \<Rightarrow> mmio \<Rightarrow> (bool \<times> mmio) option" where
  "toggle p pin m = do {
     (cur, m) \<leftarrow> get_value p pin m;
     m \<leftarrow> set_value p pin (\<not> cur) m;
     Some (\<not> cur, m)
   }"

definition set_pull_mode :: "port \<Rightarrow> u8 \<Rightarrow> pull_mode \<Rightarrow> mmio \<Rightarrow> mmio option" where
  "set_pull_mode p pin mode m = do {
     check_pin p pin;
     let idx = (if 15 < pin then 1 else 0);
     let addr = port_base p + off_PUL + idx * 4;
     let offset = unat ((pin AND 0xF) * 2);
     let (v, m) = rd32 addr m;
     Some (wr32 addr ((v AND NOT (push_bit offset 0x3)) OR push_bit offset (pull_code mode)) m)
   }"

definition set_drive_level :: "port \<Rightarrow> u8 \<Rightarrow> drive_level \<Rightarrow> mmio \<Rightarrow> mmio option" where
  "set_drive_level p pin level m = do {
     check_pin p pin;
     let idx = (if 15 < pin then 1 else 0);
     let addr = port_base p + off_DRV + idx * 4;
     let offset = unat ((pin AND 0xF) * 2);
     let (v, m) = rd32 addr m;
     Some (wr32 addr ((v AND NOT (push_bit offset 0x3)) OR push_bit offset (drive_code level)) m)
   }"

section \<open>External interrupts\<close>

definition port_supports_irq :: "port \<Rightarrow> bool" where
  "port_supports_irq p \<longleftrightarrow> p \<in> {PortD, PortE, PortF}"

definition set_irq_type :: "port \<Rightarrow> u8 \<Rightarrow> irq_type \<Rightarrow> mmio \<Rightarrow> mmio option" where
  "set_irq_type p pin ty m = do {
     assert_that (port_supports_irq p);
     assert_that (pin < PINS_PER_PORT);
     base \<leftarrow> int_base p;
     let addr = base + int_CFG + ucast (pin div 8) * 4;
     let offset = unat ((pin mod 8) * 4);
     let (v, m) = rd32 addr m;
     Some (wr32 addr ((v AND NOT (push_bit offset 0x7)) OR push_bit offset (irq_code ty)) m)
   }"

definition irq_enable :: "port \<Rightarrow> u8 \<Rightarrow> mmio \<Rightarrow> mmio option" where
  "irq_enable p pin m = do {
     assert_that (port_supports_irq p);
     base \<leftarrow> int_base p;
     let (v, m) = rd32 (base + int_CTRL) m;
     Some (wr32 (base + int_CTRL) (v OR bitm (unat pin)) m)
   }"

definition irq_disable :: "port \<Rightarrow> u8 \<Rightarrow> mmio \<Rightarrow> mmio option" where
  "irq_disable p pin m = do {
     assert_that (port_supports_irq p);
     base \<leftarrow> int_base p;
     let (sta, m) = rd32 (base + int_STA) m;
     let m = wr32 (base + int_STA) (sta OR bitm (unat pin)) m;
     let (ctrl, m) = rd32 (base + int_CTRL) m;
     Some (wr32 (base + int_CTRL) (ctrl AND NOT (bitm (unat pin))) m)
   }"

definition select_irq_clock :: "port \<Rightarrow> irq_clock \<Rightarrow> mmio \<Rightarrow> mmio option" where
  "select_irq_clock p clk m = do {
     assert_that (port_supports_irq p);
     base \<leftarrow> int_base p;
     let (v, m) = rd32 (base + int_DEB) m;
     Some (wr32 (base + int_DEB) ((v AND NOT 1) OR irq_clock_code clk) m)
   }"

definition set_debounce :: "port \<Rightarrow> debounce \<Rightarrow> mmio \<Rightarrow> mmio option" where
  "set_debounce p pre m = do {
     assert_that (port_supports_irq p);
     base \<leftarrow> int_base p;
     let (v, m) = rd32 (base + int_DEB) m;
     Some (wr32 (base + int_DEB) ((v AND NOT (push_bit 4 0x07)) OR push_bit 4 (debounce_code pre)) m)
   }"

definition irq_pending :: "port \<Rightarrow> mmio \<Rightarrow> (u32 \<times> mmio) option" where
  "irq_pending p m = do {
     assert_that (port_supports_irq p);
     base \<leftarrow> int_base p;
     Some (rd32 (base + int_STA) m)
   }"

definition irq_enabled_mask :: "port \<Rightarrow> mmio \<Rightarrow> (u32 \<times> mmio) option" where
  "irq_enabled_mask p m = do {
     assert_that (port_supports_irq p);
     base \<leftarrow> int_base p;
     Some (rd32 (base + int_CTRL) m)
   }"

definition irq_ack :: "port \<Rightarrow> u8 \<Rightarrow> mmio \<Rightarrow> mmio option" where
  "irq_ack p pin m = do {
     assert_that (port_supports_irq p);
     base \<leftarrow> int_base p;
     let (v, m) = rd32 (base + int_STA) m;
     Some (wr32 (base + int_STA) (v OR bitm (unat pin)) m)
   }"

section \<open>Initialisation\<close>

definition init_port :: "port \<Rightarrow> mmio \<Rightarrow> mmio" where
  "init_port p m = (if p = PortB then m else
     let base = port_base p;
         m = (if p = PortE then
             (let (c0, m) = rd32 (base + off_CFG + 0x00) m;
                  m = wr32 (base + off_CFG + 0x00)
                    ((0x77777777 AND NOT (push_bit 28 0xF)) OR (c0 AND push_bit 28 0xF)) m;
                  (c1, m) = rd32 (base + off_CFG + 0x04) m
              in wr32 (base + off_CFG + 0x04) ((0x77777777 AND NOT 0xF) OR (c1 AND 0xF)) m)
           else wr32 (base + off_CFG + 0x04) 0x77777777 (wr32 (base + off_CFG + 0x00) 0x77777777 m))
     in wr32 (base + off_CFG + 0x0C) 0x77777777 (wr32 (base + off_CFG + 0x08) 0x77777777 m))"

definition gpio_init_default :: "mmio \<Rightarrow> mmio" where
  "gpio_init_default m = fold init_port [PortA, PortB, PortC, PortD, PortE, PortF] m"

section \<open>Fields of pins\<close>

definition cfg_addr :: "port \<Rightarrow> nat \<Rightarrow> u32" where
  "cfg_addr p n = word_of_nat (0x01C20800 + 36 * port_num p + 4 * (n div 8))"

text \<open>The function of a pin, read off the contents of the registers.\<close>

definition pin_function :: "(u32 \<Rightarrow> u32) \<Rightarrow> port \<Rightarrow> nat \<Rightarrow> u32" where
  "pin_function R p n = get_field (n mod 8 * 4) 7 (R (cfg_addr p n))"

lemma port_num_lt: "port_num p < 6" and port_num_inj: "port_num p = port_num q \<Longrightarrow> p = q"
  by (cases p; cases q; simp)+

lemma word_of_nat_inj_u32: "a < 2 ^ 32 \<Longrightarrow> b < 2 ^ 32 \<Longrightarrow> (word_of_nat a :: u32) = word_of_nat b \<longleftrightarrow> a = b"
  by (simp add: word_of_nat_eq_iff take_bit_nat_eq_self)

lemma block_inj: "d < 4 \<Longrightarrow> e < 4 \<Longrightarrow> 36 * a + 4 * d = 36 * b + 4 * e \<longleftrightarrow> a = b \<and> d = (e :: nat)"
proof -
  assume de: "d < 4" "e < 4"
  have "36 * a + 4 * d = 36 * b + 4 * e \<Longrightarrow> a = b" by (rule ccontr) (use de in linarith)
  then show ?thesis by auto
qed

lemma cfg_addr_inj: "n < 28 \<Longrightarrow> k < 28 \<Longrightarrow> cfg_addr p n = cfg_addr q k \<longleftrightarrow> p = q \<and> n div 8 = k div 8"
proof -
  assume "n < 28" "k < 28"
  then have d: "n div 8 < 4" "k div 8 < 4" by (simp_all add: div_less_iff_less_mult)
  have bound: "0x01C20800 + 36 * port_num r + 4 * d < 2 ^ 32" if "d < 4" for r d
    using that port_num_lt [of r] by simp
  have "cfg_addr p n = cfg_addr q k \<longleftrightarrow> 36 * port_num p + 4 * (n div 8) = 36 * port_num q + 4 * (k div 8)"
    unfolding cfg_addr_def using word_of_nat_inj_u32 [OF bound [OF d(1)] bound [OF d(2)]] by simp
  also have "\<dots> \<longleftrightarrow> port_num p = port_num q \<and> n div 8 = k div 8" by (rule block_inj [OF d])
  finally show ?thesis using port_num_inj by blast
qed

lemma pin_offset: "pin < PINS_PER_PORT \<Longrightarrow> unat ((pin mod 8) * 4) = unat pin mod 8 * 4"
  and pin_word: "port_base p + off_CFG + ucast (pin div 8) * 4 = cfg_addr p (unat pin)"
proof -
  have "unat pin mod 8 < 8" by simp
  then have "unat pin mod 8 * 4 < 2 ^ 8" by simp
  then show "unat ((pin mod 8) * 4) = unat pin mod 8 * 4" by (simp add: unat_word_ariths unat_mod)
  have "(ucast (pin div 8) :: u32) = word_of_nat (unat pin div 8)"
    using of_nat_unat [of "pin div 8", where 'a = "32 word"] by (simp add: unat_div)
  then show "port_base p + off_CFG + ucast (pin div 8) * 4 = cfg_addr p (unat pin)"
    by (simp add: port_base_def gpio_regs cfg_addr_def)
qed

lemma get_put_same: "v < 8 \<Longrightarrow> off \<le> 28 \<Longrightarrow> get_field off 7 (put_field off 7 v r) = v"
proof -
  assume "v < 8" "off \<le> 28"
  have "v AND 7 = v"
  proof -
    have "unat v < 2 ^ 3" using \<open>v < 8\<close> by (simp add: word_less_nat_alt)
    then have "take_bit 3 v = v"
      by (intro unsigned_word_eqI [where 'a = nat]) (simp add: unsigned_take_bit_eq take_bit_nat_eq_self)
    then show ?thesis by (simp add: take_bit_eq_mask mask_eq_exp_minus_1)
  qed
  then show ?thesis by (rule get_put_field) (use \<open>off \<le> 28\<close> in \<open>auto simp: bit_simps\<close>)
qed

lemma get_field_eq_bits: "(\<And>i. i < 3 \<Longrightarrow> bit w (off + i) = bit f (off + i)) \<Longrightarrow> get_field off 7 w = get_field off 7 f"
  by (rule bit_word_eqI) (auto simp: get_field_def bit_simps)

lemma put_field_bit: "bit (put_field off 7 v r) i \<longleftrightarrow>
    (if off \<le> i \<and> i < off + 3 \<or> 32 \<le> i then i < 32 \<and> bit v (i - off) else bit r i)"
  if "v < 8" for v :: u32
proof -
  have v: "3 \<le> j \<Longrightarrow> \<not> bit v j" for j
  proof -
    have "unat v < 2 ^ 3" using that by (simp add: word_less_nat_alt)
    then have "take_bit 3 v = v"
      by (intro unsigned_word_eqI [where 'a = nat]) (simp add: unsigned_take_bit_eq take_bit_nat_eq_self)
    then show "3 \<le> j \<Longrightarrow> \<not> bit v j" by (metis bit_take_bit_iff not_le)
  qed
  show ?thesis by (auto simp: put_field_def bit_simps v dest: bit_u32_len)
qed

lemma get_put_other: "v < 8 \<Longrightarrow> n < 8 \<Longrightarrow> k < 8 \<Longrightarrow> n \<noteq> k \<Longrightarrow>
    get_field (n * 4) 7 (put_field (k * 4) 7 v r) = get_field (n * 4) 7 r"
proof (rule get_field_eq_bits)
  fix i :: nat assume a: "v < 8" "n < 8" "k < 8" "n \<noteq> k" "i < 3"
  then have "\<not> (k * 4 \<le> n * 4 + i \<and> n * 4 + i < k * 4 + 3)" "n * 4 + i < 32" by auto
  then show "bit (put_field (k * 4) 7 v r) (n * 4 + i) = bit r (n * 4 + i)"
    using put_field_bit [OF a(1), of "k * 4" r "n * 4 + i"] by auto
qed

section \<open>Properties\<close>

text \<open>C32. Setting the function of a pin writes that pin's field and nothing else: the field
  reads back as the function, every other pin of every port keeps its function, every
  other register its contents.  A pin number above 27 panics before any access.\<close>

theorem set_function_exact:
  assumes "plain m R" "func < 8"
  shows "if pin < 28 then
      \<exists>m' R'. set_function p pin func m = Some m' \<and> plain m' R' \<and>
        (\<forall>q n. n < 28 \<longrightarrow> pin_function R' q n = (if q = p \<and> n = unat pin then ucast func else pin_function R q n)) \<and>
        (\<forall>a. a \<noteq> cfg_addr p (unat pin) \<longrightarrow> R' a = R a)
    else set_function p pin func m = None"
proof (cases "pin < 28")
  case False
  then show ?thesis by (simp add: set_function_def check_pin_def PINS_PER_PORT_def)
next
  case True
  let ?a = "cfg_addr p (unat pin)" and ?n = "unat pin" and ?f = "ucast func :: u32"
  let ?v = "put_field (?n mod 8 * 4) 7 ?f (R ?a)"
  have pin: "pin < PINS_PER_PORT" "?n < 28" using True by (simp_all add: PINS_PER_PORT_def word_less_nat_alt)
  have f: "?f < 8"
  proof -
    have "unat ?f = unat func" by (simp add: unsigned_ucast_eq take_bit_nat_eq_self_iff less_trans [OF unsigned_less])
    then show ?thesis using assms(2) by (simp add: word_less_nat_alt)
  qed
  obtain m1 where rd: "rd32 ?a m = (R ?a, m1)" "plain m1 R" using backed_rd32 [OF assms(1), of ?a] by blast
  have eq: "set_function p pin func m = Some (wr32 ?a ?v m1)"
    using pin(1) port_num_lt [of p]
    by (simp add: set_function_def check_pin_def PORT_COUNT_def pin_word pin_offset rd(1) put_field_def Let_def)
  have R': "plain (wr32 ?a ?v m1) (R(?a := ?v))" by (rule regs.wr_holds [OF rd(2)])
  have "pin_function (R(?a := ?v)) q n = (if q = p \<and> n = ?n then ?f else pin_function R q n)" if "n < 28" for q n
  proof (cases "cfg_addr q n = ?a")
    case c: True
    then have qn: "q = p" "n div 8 = ?n div 8" using cfg_addr_inj [OF that pin(2)] by simp_all
    show ?thesis
    proof (cases "n mod 8 = ?n mod 8")
      case True
      then have "n = ?n" using qn(2) by (metis div_mult_mod_eq)
      then show ?thesis using get_put_same [OF f, of "?n mod 8 * 4"] qn(1) by (simp add: pin_function_def)
    next
      case False
      then have "n \<noteq> ?n" by auto
      then show ?thesis using get_put_other [OF f, of "n mod 8" "?n mod 8"] False c
        by (simp add: pin_function_def)
    qed
  next
    case False
    then show ?thesis by (auto simp: pin_function_def)
  qed
  then show ?thesis using eq R' True by auto
qed

theorem set_function_exact_witness:
  "\<exists>m' R'. set_function PortE 7 3 (regs_of (\<lambda>_ v. v) (\<lambda>_. 0x77777777)) = Some m' \<and> plain m' R' \<and>
     pin_function R' PortE 7 = 3"
proof -
  have "(3 :: u8) < 8" "(7 :: u8) < 28" "(7 :: nat) < 28" by simp_all
  then show ?thesis using set_function_exact [OF backed_regs_of, of 3 7 PortE "\<lambda>_. 0x77777777"] by fastforce
qed

text \<open>Acknowledging one pin drops the pending interrupts of all pins of the port.  The
  status register clears the bits written as 1 (the hardware, and the comment on
  \<open>irq_disable\<close>, say so); \<open>irq_ack\<close> writes back every pending bit it read.\<close>

fun w1c :: "u32 \<Rightarrow> u32 \<Rightarrow> access list \<Rightarrow> u32" where
  "w1c a pend [] = pend"
| "w1c a pend (Wr32 b v # tr) = (if b = a then w1c a pend tr AND NOT v else w1c a pend tr)"
| "w1c a pend (_ # tr) = w1c a pend tr"

theorem irq_ack_clears_all:
  assumes "int_base p = Some base" "\<And>tr. device32 m tr (base + int_STA) = w1c (base + int_STA) pend tr"
  shows "\<exists>m'. irq_ack p pin m = Some m' \<and> fst (rd32 (base + int_STA) m') = 0"
proof -
  have "port_supports_irq p" using assms(1) by (cases p) (simp_all add: int_base_def port_supports_irq_def)
  moreover have "w AND NOT (w OR b) = 0" for w b :: u32
    by (rule bit_word_eqI) (simp add: bit_simps)
  ultimately show ?thesis using assms
    by (simp add: irq_ack_def rd32_def wr32_def Let_def)
qed

theorem irq_ack_clears_all_witness:
  "\<exists>m'. irq_ack PortE 4 \<lparr>device32 = (\<lambda>tr a. w1c a 0x130 tr), device8 = (\<lambda>_ _. 0), trace = []\<rparr> = Some m' \<and>
     fst (rd32 0x01C20A34 m') = 0"
proof -
  have "int_base PortE = Some 0x01C20A20" by (simp add: int_base_def gpio_regs)
  from irq_ack_clears_all [OF this, of "\<lparr>device32 = (\<lambda>tr a. w1c a 0x130 tr), device8 = (\<lambda>_ _. 0), trace = []\<rparr>" "0x130"]
  show ?thesis by (simp add: gpio_regs)
qed

end
