(* ===== verification/I2c.thy ===== *)
theory I2c
  imports Event Timer Gpio
begin

text \<open>
  \<open>i2c.rs\<close>: the TWI master.  A thread builds up to two messages, sends START and blocks on the
  event flags of the channel; the interrupt routine runs the protocol state machine and sets
  the event.  The state is that of \<open>interrupt.rs\<close>; the memory of this module is the kernel
  (the event flags block and wake threads) and the three channels.

  A message points to one of two buffers, the stack buffer of the write phase or the buffer
  of the caller; both live in the channel record as long as the transfer does.
\<close>

definition TWI0_BASE :: u32 where "TWI0_BASE = 0x01C27000"
definition TWI1_BASE :: u32 where "TWI1_BASE = 0x01C27400"
definition TWI2_BASE :: u32 where "TWI2_BASE = 0x01C27800"

definition tw_DATA :: u32 where "tw_DATA = 0x08"
definition tw_CTL :: u32 where "tw_CTL = 0x0C"
definition tw_STAT :: u32 where "tw_STAT = 0x10"
definition tw_CLK :: u32 where "tw_CLK = 0x14"
definition tw_SRST :: u32 where "tw_SRST = 0x18"
definition tw_EFR :: u32 where "tw_EFR = 0x1C"
definition tw_LCR :: u32 where "tw_LCR = 0x20"

definition ctl_ACK :: u32 where "ctl_ACK = bitm 2"
definition ctl_INTFLG :: u32 where "ctl_INTFLG = bitm 3"
definition ctl_STP :: u32 where "ctl_STP = bitm 4"
definition ctl_STA :: u32 where "ctl_STA = bitm 5"
definition ctl_BUSEN :: u32 where "ctl_BUSEN = bitm 6"
definition ctl_INTEN :: u32 where "ctl_INTEN = bitm 7"

definition stat_MASK :: u32 where "stat_MASK = 0xFF"
definition stat_BUS_ERR :: u8 where "stat_BUS_ERR = 0x00"
definition stat_TX_STA :: u8 where "stat_TX_STA = 0x08"
definition stat_TX_RESTA :: u8 where "stat_TX_RESTA = 0x10"
definition stat_TX_AW_ACK :: u8 where "stat_TX_AW_ACK = 0x18"
definition stat_IDLE :: u8 where "stat_IDLE = 0xF8"
definition lcr_IDLE_STATUS :: u32 where "lcr_IDLE_STATUS = 0x3A"

lemmas twi_regs = tw_DATA_def tw_CTL_def tw_STAT_def tw_CLK_def tw_SRST_def tw_EFR_def tw_LCR_def

datatype i2c_error = I2cOk | I2cFail | I2cBusy | I2cStartFail | I2cStopFail | I2cNack | I2cArbLost | I2cTimeout

section \<open>Register operations\<close>

definition twi_read :: "u32 \<Rightarrow> u32 \<Rightarrow> mmio \<Rightarrow> u32 \<times> mmio" where "twi_read base off m = rd32 (base + off) m"
definition twi_write :: "u32 \<Rightarrow> u32 \<Rightarrow> u32 \<Rightarrow> mmio \<Rightarrow> mmio" where "twi_write base off v m = wr32 (base + off) v m"

definition twi_get_status :: "u32 \<Rightarrow> mmio \<Rightarrow> u8 \<times> mmio" where
  "twi_get_status base m = (let (v, m) = twi_read base tw_STAT m in (ucast (v AND stat_MASK), m))"

definition twi_query_irq_flag :: "u32 \<Rightarrow> mmio \<Rightarrow> bool \<times> mmio" where
  "twi_query_irq_flag base m = (let (v, m) = twi_read base tw_CTL m in (v AND ctl_INTFLG \<noteq> 0, m))"

definition twi_clear_irq_flag :: "u32 \<Rightarrow> mmio \<Rightarrow> mmio" where
  "twi_clear_irq_flag base m = (let
     (v, m) = twi_read base tw_CTL m;
     m = twi_write base tw_CTL (v AND NOT ctl_INTFLG) m;
     (check, m) = twi_read base tw_CTL m
   in if check AND ctl_INTFLG \<noteq> 0 then twi_write base tw_CTL (check AND NOT ctl_INTFLG) m else m)"

text \<open>Read \<open>CTL\<close>, change it, write it back.\<close>

definition twi_ctl :: "u32 \<Rightarrow> (u32 \<Rightarrow> u32) \<Rightarrow> mmio \<Rightarrow> mmio" where
  "twi_ctl base f m = rmw32 (base + tw_CTL) f m"

definition twi_enable_bus :: "u32 \<Rightarrow> mmio \<Rightarrow> mmio" where "twi_enable_bus base = twi_ctl base (\<lambda>v. v OR ctl_BUSEN)"
definition twi_disable_bus :: "u32 \<Rightarrow> mmio \<Rightarrow> mmio" where "twi_disable_bus base = twi_ctl base (\<lambda>v. v AND NOT ctl_BUSEN)"
definition twi_enable_ack :: "u32 \<Rightarrow> mmio \<Rightarrow> mmio" where "twi_enable_ack base = twi_ctl base (\<lambda>v. v OR ctl_ACK)"
definition twi_disable_ack :: "u32 \<Rightarrow> mmio \<Rightarrow> mmio" where "twi_disable_ack base = twi_ctl base (\<lambda>v. v AND NOT ctl_ACK)"
definition twi_enable_irq :: "u32 \<Rightarrow> mmio \<Rightarrow> mmio" where
  "twi_enable_irq base = twi_ctl base (\<lambda>v. (v OR (ctl_INTEN OR ctl_INTFLG)) AND NOT (ctl_STA OR ctl_STP))"
definition twi_disable_irq :: "u32 \<Rightarrow> mmio \<Rightarrow> mmio" where
  "twi_disable_irq base m = (let (v, m) = twi_read base tw_CTL m; w = v AND NOT ctl_INTEN
     in twi_write base tw_CTL w (twi_write base tw_CTL w m))"
definition twi_set_start :: "u32 \<Rightarrow> mmio \<Rightarrow> mmio" where "twi_set_start base = twi_ctl base (\<lambda>v. v OR ctl_STA)"
definition twi_set_stop :: "u32 \<Rightarrow> mmio \<Rightarrow> mmio" where "twi_set_stop base = twi_ctl base (\<lambda>v. v OR ctl_STP)"

definition twi_get_start :: "u32 \<Rightarrow> mmio \<Rightarrow> bool \<times> mmio" where
  "twi_get_start base m = (let (v, m) = twi_read base tw_CTL m in (drop_bit 5 v AND 1 \<noteq> 0, m))"
definition twi_get_stop :: "u32 \<Rightarrow> mmio \<Rightarrow> bool \<times> mmio" where
  "twi_get_stop base m = (let (v, m) = twi_read base tw_CTL m in (v AND ctl_STP \<noteq> 0, m))"

definition twi_put_byte :: "u32 \<Rightarrow> u8 \<Rightarrow> mmio \<Rightarrow> mmio" where
  "twi_put_byte base b m = twi_clear_irq_flag base (twi_write base tw_DATA (ucast b) m)"
definition twi_get_byte :: "u32 \<Rightarrow> mmio \<Rightarrow> u8 \<times> mmio" where
  "twi_get_byte base m = (let (v, m) = twi_read base tw_DATA m in (ucast (v AND 0xFF), twi_clear_irq_flag base m))"
definition twi_get_last_byte :: "u32 \<Rightarrow> mmio \<Rightarrow> u8 \<times> mmio" where
  "twi_get_last_byte base m = (let (v, m) = twi_read base tw_DATA m in (ucast (v AND 0xFF), m))"
definition twi_send_addr :: "u32 \<Rightarrow> u8 \<Rightarrow> bool \<Rightarrow> mmio \<Rightarrow> mmio" where
  "twi_send_addr base addr read m = twi_put_byte base (push_bit 1 (addr AND 0x7F) OR of_bool read) m"
definition twi_soft_reset :: "u32 \<Rightarrow> mmio \<Rightarrow> mmio" where "twi_soft_reset base m = twi_write base tw_SRST (bitm 0) m"
definition twi_set_efr :: "u32 \<Rightarrow> u32 \<Rightarrow> mmio \<Rightarrow> mmio" where
  "twi_set_efr base efr m = (let (v, m) = twi_read base tw_EFR m
     in twi_write base tw_EFR ((v AND NOT 0x3) OR (efr AND 0x3)) m)"

definition twi_wait_start_clear :: "u32 \<Rightarrow> mmio \<Rightarrow> (i2c_error + unit) \<times> mmio" where
  "twi_wait_start_clear base m = (let (ok, m) = poll_counted 0xFF (base + tw_CTL) (\<lambda>v. drop_bit 5 v AND 1 = 0) m
     in (if ok then Inr () else Inl I2cStartFail, m))"

definition twi_send_stop_and_wait :: "u32 \<Rightarrow> mmio \<Rightarrow> (i2c_error + unit) \<times> mmio" where
  "twi_send_stop_and_wait base m = (let
     m = twi_clear_irq_flag base (twi_set_stop base m);
     (_, m) = twi_get_stop base m;
     (ok, m) = poll_counted 0xFF (base + tw_CTL) (\<lambda>v. v AND ctl_STP = 0) m
   in if \<not> ok then (Inl I2cStopFail, m) else let
     (ok, m) = poll_counted 0xFF (base + tw_STAT) (\<lambda>v. (ucast (v AND stat_MASK) :: u8) = stat_IDLE) m
   in if \<not> ok then (Inl I2cStopFail, m) else let
     (ok, m) = poll_counted 0xFF (base + tw_LCR) (\<lambda>v. v = lcr_IDLE_STATUS) m
   in (if ok then Inr () else Inl I2cStopFail, m))"

definition twi_stop_quiet :: "u32 \<Rightarrow> mmio \<Rightarrow> mmio" where
  "twi_stop_quiet base m = twi_soft_reset base (twi_clear_irq_flag base (twi_set_stop base m))"

section \<open>Clock\<close>

text \<open>The two loops of \<open>twi_set_clock\<close>: over \<open>clk_m < 16\<close> for one \<open>clk_n\<close>, over \<open>clk_n < 8\<close>.\<close>

function clock_m_loop :: "u32 \<Rightarrow> u32 \<Rightarrow> u32 \<Rightarrow> u32 \<Rightarrow> u32 option" where
  "clock_m_loop src_clk scl_hz pow_n clk_m = (if clk_m < 16 then
     if src_clk div (clk_m + 1) div pow_n \<le> scl_hz then Some clk_m
     else clock_m_loop src_clk scl_hz pow_n (clk_m + 1)
   else None)"
  by pat_completeness auto
termination
proof (relation "measure (\<lambda>(_, _, _, clk_m). 16 - unat clk_m)")
  fix src_clk scl_hz pow_n clk_m :: u32 assume "clk_m < 16"
  then have "unat clk_m < 16" "unat (clk_m + 1) = Suc (unat clk_m)"
    by (simp_all add: word_less_nat_alt unat_word_ariths)
  then show "((src_clk, scl_hz, pow_n, clk_m + 1), (src_clk, scl_hz, pow_n, clk_m)) \<in> measure (\<lambda>(_, _, _, clk_m). 16 - unat clk_m)"
    by simp
qed simp

declare clock_m_loop.simps [simp del]

fun clock_n_loop :: "nat \<Rightarrow> u32 \<Rightarrow> u32 \<Rightarrow> u32 \<Rightarrow> u32 \<Rightarrow> u32 \<Rightarrow> (u32 \<times> u32) option" where
  "clock_n_loop 0 src_clk scl_hz dv clk_n pow_n = None"
| "clock_n_loop (Suc left) src_clk scl_hz dv clk_n pow_n = (let q = dv div pow_n; m0 = (if 1 \<le> q then q - 1 else 0) in
     case clock_m_loop src_clk scl_hz pow_n m0 of
       Some clk_m \<Rightarrow> Some (clk_m, clk_n)
     | None \<Rightarrow> clock_n_loop left src_clk scl_hz dv (clk_n + 1) (pow_n * 2))"

text \<open>The value of the clock register; \<open>scl_hz = 0\<close> panics.\<close>

definition twi_clk_value :: "u32 \<Rightarrow> u32 \<Rightarrow> u32 option" where
  "twi_clk_value apb_clk scl_hz = do {
     let src_clk = apb_clk div 10;
     assert_that (scl_hz \<noteq> 0);
     let divider = src_clk div scl_hz;
     Some (if divider = 0 then push_bit 3 1
       else case clock_n_loop 8 src_clk scl_hz divider 0 1 of
           Some (clk_m, clk_n) \<Rightarrow> push_bit 3 clk_m OR clk_n
         | None \<Rightarrow> 1 OR 7)
   }"

definition twi_set_clock :: "u32 \<Rightarrow> u32 \<Rightarrow> u32 \<Rightarrow> mmio \<Rightarrow> mmio option" where
  "twi_set_clock base apb_clk scl_hz m = do {
     v \<leftarrow> twi_clk_value apb_clk scl_hz;
     Some (twi_write base tw_CLK v m)
   }"

section \<open>Channels\<close>

definition TWI_WAKEUP_EVENT :: u32 where "TWI_WAKEUP_EVENT = bitm 0"

datatype xfer_status = XferIdle | XferStart | XferRunning

text \<open>The buffer a message points to: \<open>write_buf\<close> on the stack of \<open>xfer\<close>, or the slice of its
  caller.\<close>

datatype twi_buf = WriteBuf | ReadBuf

record twi_msg =
  msg_addr :: u8
  msg_read :: bool
  msg_buf :: twi_buf
  msg_len :: u32

record twi_channel =
  ch_event :: event_flags
  ch_msgs :: "twi_msg option list" \<comment> \<open>two of them\<close>
  msg_idx :: u32
  msg_ptr :: u32
  msg_num :: u32
  ch_status :: xfer_status
  debug_state :: u8
  write_buf :: "u8 list"
  read_buf :: "u8 list"

definition twi_channel_new :: twi_channel where
  "twi_channel_new = \<lparr>ch_event = event_new, ch_msgs = [None, None], msg_idx = 0, msg_ptr = 0, msg_num = 0,
     ch_status = XferIdle, debug_state = 0, write_buf = [], read_buf = []\<rparr>"

definition channel_reset :: "twi_channel \<Rightarrow> twi_channel" where
  "channel_reset c = c\<lparr>ch_msgs := [None, None], msg_idx := 0, msg_ptr := 0, msg_num := 0, ch_status := XferIdle\<rparr>"

datatype twi_handler = Twi0_isr | Twi1_isr | Twi2_isr

record twi_mem =
  twi_kernel :: kernel
  twi0_ch :: twi_channel
  twi1_ch :: twi_channel
  twi2_ch :: twi_channel

type_synonym twi_state = "(twi_handler, twi_mem) irq_state"

text \<open>\<open>twi_channel_for_base\<close> and \<open>twi_int_vector\<close> panic for any other address; a handle to a
  channel is its number.\<close>

definition twi_channel_for_base :: "u32 \<Rightarrow> twi_handler option" where
  "twi_channel_for_base base = (if base = TWI0_BASE then Some Twi0_isr else if base = TWI1_BASE then Some Twi1_isr
     else if base = TWI2_BASE then Some Twi2_isr else None)"

definition twi_int_vector :: "u32 \<Rightarrow> u32 option" where
  "twi_int_vector base = (if base = TWI0_BASE then Some 7 else if base = TWI1_BASE then Some 8
     else if base = TWI2_BASE then Some 9 else None)"

fun channel :: "twi_handler \<Rightarrow> twi_state \<Rightarrow> twi_channel" where
  "channel Twi0_isr s = twi0_ch (user s)"
| "channel Twi1_isr s = twi1_ch (user s)"
| "channel Twi2_isr s = twi2_ch (user s)"

fun set_channel :: "twi_handler \<Rightarrow> twi_channel \<Rightarrow> twi_state \<Rightarrow> twi_state" where
  "set_channel Twi0_isr c s = s\<lparr>user := (user s)\<lparr>twi0_ch := c\<rparr>\<rparr>"
| "set_channel Twi1_isr c s = s\<lparr>user := (user s)\<lparr>twi1_ch := c\<rparr>\<rparr>"
| "set_channel Twi2_isr c s = s\<lparr>user := (user s)\<lparr>twi2_ch := c\<rparr>\<rparr>"

definition change_channel :: "twi_handler \<Rightarrow> (twi_channel \<Rightarrow> twi_channel) \<Rightarrow> twi_state \<Rightarrow> twi_state" where
  "change_channel h f s = set_channel h (f (channel h s)) s"

definition on_io :: "(mmio \<Rightarrow> mmio) \<Rightarrow> twi_state \<Rightarrow> twi_state" where "on_io f s = s\<lparr>io := f (io s)\<rparr>"

text \<open>An operation on the event flags of a channel, which also reaches the scheduler.\<close>

definition on_event :: "twi_handler \<Rightarrow> (event_state \<Rightarrow> ('a \<times> event_state) option) \<Rightarrow> twi_state \<Rightarrow> ('a \<times> twi_state) option" where
  "on_event h f s = do {
     (r, k, e) \<leftarrow> f (twi_kernel (user s), ch_event (channel h s));
     Some (r, change_channel h (\<lambda>c. c\<lparr>ch_event := e\<rparr>) (s\<lparr>user := (user s)\<lparr>twi_kernel := k\<rparr>\<rparr>))
   }"

section \<open>The interrupt routine\<close>

text \<open>\<open>code\<close> is an \<open>i32\<close>, here the word that \<open>code as usize\<close> gives.\<close>

definition twi_xfer_complete :: "twi_handler \<Rightarrow> u32 \<Rightarrow> twi_state \<Rightarrow> twi_state option" where
  "twi_xfer_complete h code s = do {
     let s = change_channel h (\<lambda>c. c\<lparr>ch_msgs := [None, None], msg_num := 0, msg_ptr := 0, ch_status := XferIdle,
       msg_idx := (if code \<noteq> 0 then code else 0)\<rparr>) s;
     (_, s) \<leftarrow> on_event h (\<lambda>ke. map_option (Pair ()) (event_set TWI_WAKEUP_EVENT ke)) s;
     Some s
   }"

text \<open>The end of a message, in four arms of the state machine: the transfer is complete, or a
  repeated START begins the other message.\<close>

definition twi_advance :: "u32 \<Rightarrow> twi_handler \<Rightarrow> twi_state \<Rightarrow> twi_state option" where
  "twi_advance base h s = do {
     let s = change_channel h (\<lambda>c. c\<lparr>msg_idx := msg_idx c + 1, msg_ptr := 0\<rparr>) s;
     if msg_num (channel h s) \<le> msg_idx (channel h s) then twi_xfer_complete h 0 s
     else Some (on_io (\<lambda>m. snd (twi_wait_start_clear base (twi_clear_irq_flag base (twi_set_start base m)))) s)
   }"

text \<open>The buffer a message points to; reading outside it is undefined.\<close>

definition buf_get :: "twi_msg \<Rightarrow> twi_channel \<Rightarrow> u8 option" where
  "buf_get msg c = slice_get (case msg_buf msg of WriteBuf \<Rightarrow> write_buf c | ReadBuf \<Rightarrow> read_buf c) (unat (msg_ptr c))"

definition buf_put :: "twi_msg \<Rightarrow> u8 \<Rightarrow> twi_channel \<Rightarrow> twi_channel option" where
  "buf_put msg b c = (case msg_buf msg of
      WriteBuf \<Rightarrow> map_option (\<lambda>l. c\<lparr>write_buf := l\<rparr>) (slice_set (write_buf c) (unat (msg_ptr c)) b)
    | ReadBuf \<Rightarrow> map_option (\<lambda>l. c\<lparr>read_buf := l\<rparr>) (slice_set (read_buf c) (unat (msg_ptr c)) b))"

definition twi_send_data :: "u32 \<Rightarrow> twi_handler \<Rightarrow> twi_msg \<Rightarrow> twi_state \<Rightarrow> twi_state option" where
  "twi_send_data base h msg s = (let c = channel h s in
     if msg_ptr c < msg_len msg then do {
       b \<leftarrow> buf_get msg c;
       Some (change_channel h (\<lambda>c. c\<lparr>msg_ptr := msg_ptr c + 1\<rparr>) (on_io (twi_put_byte base b) s))
     } else twi_advance base h s)"

definition twi_received :: "u32 \<Rightarrow> twi_handler \<Rightarrow> twi_msg \<Rightarrow> twi_state \<Rightarrow> twi_state option" where
  "twi_received base h msg s = (let c = channel h s in
     if msg_ptr c < msg_len msg then do {
       let m = (if msg_ptr c + 2 = msg_len msg then twi_disable_ack base (io s) else io s);
       let (b, m) = twi_get_byte base m;
       c \<leftarrow> buf_put msg b c;
       Some (set_channel h (c\<lparr>msg_ptr := msg_ptr c + 1\<rparr>) (s\<lparr>io := m\<rparr>))
     } else twi_xfer_complete h (- 0x50) s)"

definition twi_received_last :: "u32 \<Rightarrow> twi_handler \<Rightarrow> twi_msg \<Rightarrow> twi_state \<Rightarrow> twi_state option" where
  "twi_received_last base h msg s = (let c = channel h s in
     if msg_ptr c = msg_len msg - 1 then do {
       let (b, m) = twi_get_last_byte base (io s);
       c \<leftarrow> buf_put msg b c;
       twi_advance base h (set_channel h c (s\<lparr>io := m\<rparr>))
     } else twi_xfer_complete h (- 0x58) s)"

text \<open>The arms that fall through to \<open>debug_state = state\<close>.\<close>

definition twi_state_step :: "u32 \<Rightarrow> twi_handler \<Rightarrow> u8 \<Rightarrow> twi_msg \<Rightarrow> twi_state \<Rightarrow> twi_state option" where
  "twi_state_step base h state msg s =
    (if state = 0x08 \<or> state = 0x10 then Some (on_io (twi_send_addr base (msg_addr msg) (msg_read msg)) s)
     else if state = 0xD8 \<or> state = 0x20 then twi_xfer_complete h (- 0x20) s
     else if state = 0x18 \<or> state = 0xD0 \<or> state = 0x28 then twi_send_data base h msg s
     else if state = 0x30 then twi_xfer_complete h (- 0x30) s
     else if state = 0x38 then twi_xfer_complete h (- 0x38) s
     else if state = 0x40 then
       Some (on_io (\<lambda>m. twi_clear_irq_flag base (if 1 < msg_len msg then twi_enable_ack base m else m)) s)
     else if state = 0x48 then twi_xfer_complete h (- 0x48) s
     else if state = 0x50 then twi_received base h msg s
     else if state = 0x58 then twi_received_last base h msg s
     else twi_xfer_complete h (- ucast state) s)"

definition twi_core_process :: "u32 \<Rightarrow> twi_state \<Rightarrow> twi_state option" where
  "twi_core_process base s = do {
     h \<leftarrow> twi_channel_for_base base;
     let (state, m) = twi_get_status base (io s);
     let s = s\<lparr>io := m\<rparr>;
     let c = channel h s;
     if msg_num c \<le> msg_idx c then twi_xfer_complete h (- 1) s
     else do {
       cur \<leftarrow> slice_get (ch_msgs c) (unat (msg_idx c));
       case cur of
         None \<Rightarrow> twi_xfer_complete h (- 1) s
       | Some msg \<Rightarrow>
           if state = 0xF8 \<or> state = 0x00 then twi_xfer_complete h (- ucast state) s
           else do {
             s \<leftarrow> twi_state_step base h state msg s;
             Some (change_channel h (\<lambda>c. c\<lparr>debug_state := state\<rparr>) s)
           }
     }
   }"

definition twi_isr :: "u32 \<Rightarrow> twi_handler \<Rightarrow> twi_state \<Rightarrow> twi_state option" where
  "twi_isr base h s = do {
     let (flag, m) = twi_query_irq_flag base (io s);
     let s = s\<lparr>io := m\<rparr>;
     if \<not> flag then Some s else do {
       s \<leftarrow> twi_core_process base (on_io (twi_disable_irq base) s);
       Some (if ch_status (channel h s) = XferRunning then on_io (twi_enable_irq base) s else s)
     }
   }"

text \<open>The handlers, in the form the dispatch calls them.\<close>

fun twi_invoke :: "(twi_handler, twi_mem) isr_invoker" where
  "twi_invoke Twi0_isr vector s = twi_isr TWI0_BASE Twi0_isr s"
| "twi_invoke Twi1_isr vector s = twi_isr TWI1_BASE Twi1_isr s"
| "twi_invoke Twi2_isr vector s = twi_isr TWI2_BASE Twi2_isr s"

section \<open>A TWI instance\<close>

record twi_pins =
  scl_port :: port
  scl_pin :: u8
  sda_port :: port
  sda_pin :: u8
  pin_func :: u8

record twi_bus =
  tw_base :: u32
  tw_gate :: bus_gate

definition twi_new :: "u32 \<Rightarrow> bus_gate \<Rightarrow> twi_bus" where
  "twi_new base gate = \<lparr>tw_base = base, tw_gate = gate\<rparr>"

definition twi_pin_init :: "port \<Rightarrow> u8 \<Rightarrow> u8 \<Rightarrow> mmio \<Rightarrow> mmio option" where
  "twi_pin_init p pin func m = do {
     m \<leftarrow> set_function p pin func m;
     m \<leftarrow> set_pull_mode p pin PullDisable m;
     set_drive_level p pin Level0 m
   }"

definition twi_init :: "twi_bus \<Rightarrow> twi_pins \<Rightarrow> u32 \<Rightarrow> u32 \<Rightarrow> twi_state \<Rightarrow> twi_state option" where
  "twi_init t pins apb_clk scl_hz s = do {
     m \<leftarrow> twi_pin_init (scl_port pins) (scl_pin pins) (pin_func pins) (io s);
     m \<leftarrow> twi_pin_init (sda_port pins) (sda_pin pins) (pin_func pins) m;
     m \<leftarrow> delay_us 100 (bus_clk_init (tw_gate t) m);
     m \<leftarrow> twi_set_clock (tw_base t) apb_clk scl_hz m;
     let s = s\<lparr>io := twi_enable_bus (tw_base t) m\<rparr>;
     isr \<leftarrow> twi_channel_for_base (tw_base t);
     vector \<leftarrow> twi_int_vector (tw_base t);
     let (_, s) = install vector isr s;
     Some (unmask_irq vector s)
   }"

definition twi_deinit :: "twi_bus \<Rightarrow> twi_state \<Rightarrow> twi_state option" where
  "twi_deinit t s = do {
     vector \<leftarrow> twi_int_vector (tw_base t);
     let s = mask_irq vector s;
     Some (on_io (\<lambda>m. bus_gate_disable (tw_gate t) (twi_disable_bus (tw_base t) (twi_disable_irq (tw_base t) m))) s)
   }"

section \<open>Transfers\<close>

text \<open>\<open>xfer\<close> up to the wait, in three parts: the checks, the messages, START.  A result that
  is returned early is \<^term>\<open>Inl\<close>.\<close>

type_synonym xfer_result = "i2c_error + u32"

definition xfer_check :: "u32 \<Rightarrow> twi_handler \<Rightarrow> twi_state \<Rightarrow> ((xfer_result + unit) \<times> twi_state) option" where
  "xfer_check base h s = do {
     if ch_status (channel h s) \<noteq> XferIdle then Some (Inl (Inl I2cBusy), s)
     else do {
       m \<leftarrow> delay_us 100 (twi_soft_reset base (io s));
       let (_, m) = poll_counted 0xFF (base + tw_SRST) (\<lambda>v. v AND 1 = 0) m;
       let (st, m) = twi_get_status base m;
       if st \<noteq> stat_IDLE \<and> st \<noteq> stat_BUS_ERR then Some (Inl (Inl I2cBusy), s\<lparr>io := m\<rparr>)
       else Some (Inr (), s\<lparr>io := twi_disable_irq base (twi_enable_bus base m)\<rparr>)
     }
   }"

definition write_payload :: "u8 option \<Rightarrow> u8 list option \<Rightarrow> u8 list" where
  "write_payload reg_addr write_data = (case reg_addr of Some r \<Rightarrow> [r] | None \<Rightarrow> []) @ (case write_data of Some d \<Rightarrow> d | None \<Rightarrow> [])"

definition is_data :: "u8 list option \<Rightarrow> bool" where
  "is_data d = (case d of Some l \<Rightarrow> l \<noteq> [] | None \<Rightarrow> False)"

text \<open>\<open>write_len\<close> and the messages.  Slices have a 32-bit length.\<close>

definition xfer_messages ::
  "u8 \<Rightarrow> u8 option \<Rightarrow> u8 list option \<Rightarrow> u8 list option \<Rightarrow> twi_channel \<Rightarrow> xfer_result + (u32 \<times> twi_channel)" where
  "xfer_messages addr reg_addr write_data rbuf c = (let
     has_write = (reg_addr \<noteq> None \<or> is_data write_data);
     has_read = is_data rbuf;
     payload = write_payload reg_addr write_data;
     wmsg = \<lparr>msg_addr = addr, msg_read = False, msg_buf = WriteBuf, msg_len = word_of_nat (length payload)\<rparr>;
     rlist = (case rbuf of Some b \<Rightarrow> b | None \<Rightarrow> []);
     rmsg = \<lparr>msg_addr = addr, msg_read = True, msg_buf = ReadBuf, msg_len = word_of_nat (length rlist)\<rparr>
   in if has_write then
        if 256 < length payload then Inl (Inl I2cFail)
        else (let
          c = c\<lparr>write_buf := payload @ replicate (256 - length payload) 0, read_buf := rlist,
                ch_msgs := (ch_msgs c)[0 := Some wmsg]\<rparr>;
          c = (if has_read then c\<lparr>ch_msgs := (ch_msgs c)[1 := Some rmsg]\<rparr> else c)
        in Inr (word_of_nat (length payload), c\<lparr>msg_num := (if has_read then 2 else 1)\<rparr>))
      else if has_read then
        Inr (0, c\<lparr>write_buf := replicate 256 0, read_buf := rlist, ch_msgs := (ch_msgs c)[0 := Some rmsg], msg_num := 1\<rparr>)
      else Inl (Inr 0))"

definition xfer_start :: "u32 \<Rightarrow> twi_handler \<Rightarrow> twi_state \<Rightarrow> ((xfer_result + unit) \<times> twi_state) option" where
  "xfer_start base h s = do {
     let s = change_channel h (\<lambda>c. c\<lparr>msg_idx := 0, msg_ptr := 0, ch_status := XferRunning\<rparr>) s;
     (_, s) \<leftarrow> on_event h (\<lambda>ke. Some ((), event_clear TWI_WAKEUP_EVENT ke)) s;
     let m = twi_set_efr base 0 (twi_disable_ack base (twi_enable_irq base (io s)));
     let (r, m) = twi_wait_start_clear base (twi_set_start base m);
     case r of
       Inl _ \<Rightarrow> Some (Inl (Inl I2cStartFail),
         change_channel h channel_reset (s\<lparr>io := twi_disable_irq base (twi_soft_reset base m)\<rparr>))
     | Inr _ \<Rightarrow> Some (Inr (), s\<lparr>io := m\<rparr>)
   }"

text \<open>The wait for the event: \<open>run\<close> is what the other threads and the interrupt routines do
  until this thread runs again.\<close>

definition xfer_wait :: "(twi_state \<Rightarrow> twi_state option) \<Rightarrow> twi_handler \<Rightarrow> twi_state \<Rightarrow> ((event_error + u32) \<times> twi_state) option" where
  "xfer_wait run h s = do {
     let i = current_id (twi_kernel (user s));
     (r, s) \<leftarrow> on_event h (event_wait_enter TWI_WAKEUP_EVENT OrMode True (Some 10000)) s;
     case r of
       Inl res \<Rightarrow> Some (res, s)
     | Inr sw \<Rightarrow> do {
         s \<leftarrow> resume_with run sw s;
         on_event h (event_wait_resume i TWI_WAKEUP_EVENT True) s
       }
   }"

definition xfer_finish :: "u32 \<Rightarrow> twi_handler \<Rightarrow> u32 \<Rightarrow> event_error + u32 \<Rightarrow> twi_state \<Rightarrow> xfer_result \<times> twi_state" where
  "xfer_finish base h count result s = (let
     quiet = (\<lambda>m. twi_disable_irq base (twi_stop_quiet base m));
     c = channel h s
   in case result of
       Inl _ \<Rightarrow> (Inl I2cTimeout, change_channel h channel_reset (on_io quiet s))
     | Inr _ \<Rightarrow>
         if msg_idx c = msg_num c then
           (let (r, m) = twi_send_stop_and_wait base (io s);
                s = change_channel h channel_reset (s\<lparr>io := m\<rparr>)
            in case r of Inl e \<Rightarrow> (Inl e, s) | Inr _ \<Rightarrow> (Inr count, s))
         else (Inl I2cFail, change_channel h channel_reset (on_io quiet s)))"

text \<open>The whole transfer.  Interrupts are enabled from \<open>twi_enable_irq\<close> on: \<open>irqs\<close> is what the
  service routines do before the thread waits.  The result comes with the final contents
  of the buffer of the caller.\<close>

definition twi_xfer ::
  "(twi_state \<Rightarrow> twi_state option) \<Rightarrow> (twi_state \<Rightarrow> twi_state option) \<Rightarrow> twi_bus \<Rightarrow>
    u8 \<Rightarrow> u8 option \<Rightarrow> u8 list option \<Rightarrow> u8 list option \<Rightarrow> twi_state \<Rightarrow> ((xfer_result \<times> u8 list option) \<times> twi_state) option" where
  "twi_xfer irqs run t addr reg_addr write_data rbuf s = do {
     let base = tw_base t;
     h \<leftarrow> twi_channel_for_base base;
     (r, s) \<leftarrow> xfer_check base h s;
     case r of Inl res \<Rightarrow> Some ((res, rbuf), s)
     | Inr _ \<Rightarrow> (case xfer_messages addr reg_addr write_data rbuf (channel h s) of
         Inl res \<Rightarrow> Some ((res, rbuf), s)
       | Inr (write_len, c) \<Rightarrow> do {
           (r, s) \<leftarrow> xfer_start base h (set_channel h c s);
           case r of Inl res \<Rightarrow> Some ((res, rbuf), s)
           | Inr _ \<Rightarrow> do {
               s \<leftarrow> irqs s;
               (result, s) \<leftarrow> xfer_wait run h s;
               let count = (case rbuf of Some b \<Rightarrow> if b = [] then write_len else word_of_nat (length b) | None \<Rightarrow> write_len);
               let (res, s) = xfer_finish base h count result s;
               Some ((res, map_option (\<lambda>_. read_buf (channel h s)) rbuf), s)
             }
         })
   }"

definition twi_write_data where
  "twi_write_data irqs run t addr reg_addr d s = twi_xfer irqs run t addr reg_addr (Some d) None s"

definition twi_read_data where
  "twi_read_data irqs run t addr reg_addr buf s =
    (if buf = [] then Some ((Inr 0, Some []), s) else twi_xfer irqs run t addr reg_addr None (Some buf) s)"

definition twi_write_read where
  "twi_write_read irqs run t addr reg_addr buf s =
    (if buf = [] then Some ((Inr 0, Some []), s) else twi_xfer irqs run t addr (Some reg_addr) None (Some buf) s)"

section \<open>Configurations and probe\<close>

definition FUNC2 :: u8 where "FUNC2 = 0x03"
definition FUNC3 :: u8 where "FUNC3 = 0x04"

definition TWI0_PINS :: twi_pins where
  "TWI0_PINS = \<lparr>scl_port = PortD, scl_pin = 0, sda_port = PortD, sda_pin = 12, pin_func = FUNC2\<rparr>"
definition TWI0_PINS_E :: twi_pins where
  "TWI0_PINS_E = \<lparr>scl_port = PortE, scl_pin = 11, sda_port = PortE, sda_pin = 12, pin_func = FUNC2\<rparr>"
definition TWI1_PINS :: twi_pins where
  "TWI1_PINS = \<lparr>scl_port = PortD, scl_pin = 5, sda_port = PortD, sda_pin = 6, pin_func = FUNC2\<rparr>"
definition TWI2_PINS :: twi_pins where
  "TWI2_PINS = \<lparr>scl_port = PortD, scl_pin = 15, sda_port = PortD, sda_pin = 16, pin_func = FUNC3\<rparr>"
definition TWI2_PINS_E :: twi_pins where
  "TWI2_PINS_E = \<lparr>scl_port = PortE, scl_pin = 0, sda_port = PortE, sda_pin = 1, pin_func = FUNC3\<rparr>"

definition twi_create :: "u32 \<Rightarrow> bus_gate \<Rightarrow> twi_pins \<Rightarrow> twi_state \<Rightarrow> (twi_bus \<times> twi_state) option" where
  "twi_create base gate pins s = do {
     let t = twi_new base gate;
     let (apb, m) = apb_hz (io s);
     s \<leftarrow> twi_init t pins apb 400000 (s\<lparr>io := m\<rparr>);
     Some (t, s)
   }"

definition twi0 where "twi0 s = twi_create TWI0_BASE Twi0 TWI0_PINS s"
definition twi0_port_e where "twi0_port_e s = twi_create TWI0_BASE Twi0 TWI0_PINS_E s"
definition twi1 where "twi1 s = twi_create TWI1_BASE Twi1 TWI1_PINS s"
definition twi2 where "twi2 s = twi_create TWI2_BASE Twi2 TWI2_PINS s"
definition twi2_port_e where "twi2_port_e s = twi_create TWI2_BASE Twi2 TWI2_PINS_E s"

definition probe :: "twi_bus \<Rightarrow> u8 \<Rightarrow> mmio \<Rightarrow> (bool \<times> mmio) option" where
  "probe t addr m = do {
     let base = tw_base t;
     m \<leftarrow> delay_us 100 (twi_soft_reset base m);
     let (_, m) = poll_counted 0xFF (base + tw_SRST) (\<lambda>v. v AND 1 = 0) m;
     let m = twi_set_start base (twi_disable_ack base (twi_enable_bus base m));
     let (r, m) = twi_wait_start_clear base m;
     if r \<noteq> Inr () then Some (False, m) else do {
       let (ok, m) = poll_counted 0xFFFF (base + tw_CTL) (\<lambda>v. v AND ctl_INTFLG \<noteq> 0) m;
       if \<not> ok then Some (False, m) else do {
         let (st, m) = twi_get_status base m;
         if st \<noteq> stat_TX_STA \<and> st \<noteq> stat_TX_RESTA then Some (False, m) else do {
           let m = twi_send_addr base addr False m;
           let (ok, m) = poll_counted 0xFFFF (base + tw_CTL) (\<lambda>v. v AND ctl_INTFLG \<noteq> 0) m;
           if \<not> ok then Some (False, m) else do {
             let (st, m) = twi_get_status base m;
             Some (st = stat_TX_AW_ACK, twi_clear_irq_flag base (twi_set_stop base m))
           }
         }
       }
     }
   }"

end
