(* ===== verification/I2c_Props.thy ===== *)
theory I2c_Props
  imports I2c
begin

text \<open>
  Properties of \<open>i2c.rs\<close>.  The controller changes its registers by itself between two
  interrupts, so each interrupt of \<open>twi_rounds\<close> comes with its own device; what it must show
  is the status of that round, the byte on the bus and, when the routine starts, the
  interrupt flag.
\<close>

section \<open>Bytes sent\<close>

text \<open>The bytes written to the data register, in order.\<close>

fun sent_data :: "u32 \<Rightarrow> access list \<Rightarrow> u8 list" where
  "sent_data base [] = []"
| "sent_data base (Wr32 a v # tr) = (if a = base + tw_DATA then sent_data base tr @ [ucast v] else sent_data base tr)"
| "sent_data base (_ # tr) = sent_data base tr"

definition same_sent :: "u32 \<Rightarrow> mmio \<Rightarrow> mmio \<Rightarrow> bool" where
  "same_sent base m m' \<longleftrightarrow> device32 m' = device32 m \<and> sent_data base (trace m') = sent_data base (trace m)"

lemma same_sent_trans: "same_sent base m m' \<Longrightarrow> same_sent base m' m'' \<Longrightarrow> same_sent base m m''"
  by (simp add: same_sent_def)

lemma same_sent_rd: "same_sent base m (snd (rd32 a m))"
  by (simp add: same_sent_def rd32_def Let_def)

lemma same_sent_wr: "a \<noteq> base + tw_DATA \<Longrightarrow> same_sent base m (wr32 a v m)"
  by (simp add: same_sent_def wr32_def)

lemma ctl_not_data: "base + tw_CTL \<noteq> base + tw_DATA" "tw_CTL \<noteq> tw_DATA"
  by (simp_all add: twi_regs)

lemma same_sent_ctl: "same_sent base m (twi_ctl base f m)"
  using same_sent_trans [OF same_sent_rd same_sent_wr [OF ctl_not_data(1)]]
  by (simp add: twi_ctl_def rmw32_def split_beta)

lemma same_sent_reg: "same_sent base m (twi_write base tw_CTL v m)" "same_sent base m (snd (twi_read base off m))"
  by (simp_all add: twi_write_def twi_read_def same_sent_wr same_sent_rd ctl_not_data)

lemma same_sent_clear: "same_sent base m (twi_clear_irq_flag base m)"
  using same_sent_trans [OF same_sent_trans [OF same_sent_reg(2) same_sent_reg(1)] same_sent_reg(2)]
    same_sent_trans [OF _ same_sent_reg(1)]
  by (simp add: twi_clear_irq_flag_def split_beta Let_def)

lemma same_sent_disable: "same_sent base m (twi_disable_irq base m)"
  using same_sent_trans [OF same_sent_trans [OF same_sent_reg(2) same_sent_reg(1)] same_sent_reg(1)]
  by (simp add: twi_disable_irq_def split_beta Let_def)

lemma same_sent_wait: "same_sent base m (snd (poll_counted n a p m))"
proof (induction n arbitrary: m)
  case (Suc n)
  then show ?case using same_sent_trans [OF same_sent_rd [of base m a]] same_sent_rd [of base m a]
    by (auto simp: split_beta)
qed (simp add: same_sent_rd)

lemma same_sent_start: "same_sent base m (snd (twi_wait_start_clear base m))"
  by (simp add: twi_wait_start_clear_def split_beta same_sent_wait)

lemma byte_of_word: "ucast (ucast b :: u32) = (b :: u8)"
  by (rule bit_word_eqI) (simp add: bit_simps)

lemma put_byte_sent: "device32 (twi_put_byte base b m) = device32 m \<and>
    sent_data base (trace (twi_put_byte base b m)) = sent_data base (trace m) @ [b]"
  using same_sent_clear [of base "twi_write base tw_DATA (ucast b) m"]
  by (simp add: twi_put_byte_def same_sent_def twi_write_def wr32_def byte_of_word)

lemmas same_sents = same_sent_ctl same_sent_clear same_sent_disable same_sent_start
  twi_enable_irq_def twi_set_start_def twi_enable_ack_def twi_disable_ack_def

section \<open>Channels\<close>

lemma channel_simps [simp]:
  "channel h (s\<lparr>io := m\<rparr>) = channel h s" "channel h (set_channel h c s) = c"
  "io (set_channel h c s) = io s" "set_channel h c (set_channel h d s) = set_channel h c s"
  "set_channel h c (s\<lparr>io := m\<rparr>) = (set_channel h c s)\<lparr>io := m\<rparr>"
  "channel h (on_io f s) = channel h s" "io (on_io f s) = f (io s)"
  "channel h (s\<lparr>user := (user s)\<lparr>twi_kernel := k\<rparr>\<rparr>) = channel h s"
  "channel h (change_channel h g s) = g (channel h s)" "io (change_channel h g s) = io s"
  by (cases h; simp add: on_io_def change_channel_def)+

text \<open>Completion: the flag is raised and the waiters are served.\<close>

lemma event_set_returns: "\<exists>ke. event_set f ke' = Some ke"
proof -
  obtain k e where ke: "ke' = (k, e)" by force
  obtain r where "check_loop (ev_waiters e) (k\<lparr>cpsr := cpsr k OR NOINT\<rparr>, e\<lparr>ev_flags := ev_flags e OR f\<rparr>) = Some r"
    using check_loop_returns by blast
  then show ?thesis unfolding ke
    by (cases r) (simp add: event_set_def check_waiters_def mask_kernel_def)
qed

lemma complete_returns:
  obtains k e s' where "twi_xfer_complete h code s = Some s'"
    "event_set TWI_WAKEUP_EVENT (twi_kernel (user s), ch_event (channel h s)) = Some (k, e)"
    "channel h s' = (channel h s)\<lparr>ch_event := e, ch_msgs := [None, None], msg_num := 0, msg_ptr := 0,
       ch_status := XferIdle, msg_idx := code\<rparr>" "io s' = io s" "twi_kernel (user s') = k"
proof -
  obtain k e where ke: "event_set TWI_WAKEUP_EVENT (twi_kernel (user s), ch_event (channel h s)) = Some (k, e)"
    using event_set_returns [of TWI_WAKEUP_EVENT "(twi_kernel (user s), ch_event (channel h s))"] by auto
  then have "\<exists>s'. twi_xfer_complete h code s = Some s' \<and>
      channel h s' = (channel h s)\<lparr>ch_event := e, ch_msgs := [None, None], msg_num := 0, msg_ptr := 0,
        ch_status := XferIdle, msg_idx := code\<rparr> \<and> io s' = io s \<and> twi_kernel (user s') = k"
    by (cases h) (auto simp: twi_xfer_complete_def on_event_def change_channel_def)
  then show thesis using that ke by blast
qed

section \<open>One interrupt\<close>

text \<open>What the controller shows: the interrupt flag when the routine starts, the status, the
  byte on the bus.\<close>

definition shows_status :: "u32 \<Rightarrow> u8 \<Rightarrow> u8 option \<Rightarrow> (access list \<Rightarrow> u32 \<Rightarrow> u32) \<Rightarrow> access list \<Rightarrow> bool" where
  "shows_status base st b d tr \<longleftrightarrow> d tr (base + tw_CTL) AND ctl_INTFLG \<noteq> 0 \<and>
     (\<forall>tr. (ucast (d tr (base + tw_STAT) AND stat_MASK) :: u8) = st) \<and> (\<forall>tr v. b = Some v \<longrightarrow> (ucast (d tr (base + tw_DATA) AND 0xFF) :: u8) = v)"

definition with_device :: "(access list \<Rightarrow> u32 \<Rightarrow> u32) \<Rightarrow> twi_state \<Rightarrow> twi_state" where
  "with_device d s = s\<lparr>io := (io s)\<lparr>device32 := d\<rparr>\<rparr>"

definition isr_tail :: "u32 \<Rightarrow> twi_handler \<Rightarrow> u8 \<Rightarrow> twi_state \<Rightarrow> twi_state" where
  "isr_tail base h st s = (let s = change_channel h (\<lambda>c. c\<lparr>debug_state := st\<rparr>) s
     in if ch_status (channel h s) = XferRunning then on_io (twi_enable_irq base) s else s)"

text \<open>The message in progress.\<close>

definition current_msg :: "twi_channel \<Rightarrow> twi_msg \<Rightarrow> bool" where
  "current_msg c msg \<longleftrightarrow> msg_idx c < msg_num c \<and> slice_get (ch_msgs c) (unat (msg_idx c)) = Some (Some msg)"

lemma isr_entry:
  assumes "twi_channel_for_base base = Some h" "shows_status base st b d (trace (io s))" "current_msg (channel h s) msg"
  obtains m where "device32 m = d" "sent_data base (trace m) = sent_data base (trace (io s))"
    "twi_isr base h (with_device d s) = map_option (\<lambda>s. if ch_status (channel h s) = XferRunning then on_io (twi_enable_irq base) s else s)
       (if st = 0xF8 \<or> st = 0 then twi_xfer_complete h (- ucast st) (s\<lparr>io := m\<rparr>)
        else map_option (change_channel h (\<lambda>c. c\<lparr>debug_state := st\<rparr>)) (twi_state_step base h st msg (s\<lparr>io := m\<rparr>)))"
proof -
  let ?shown = "(io s)\<lparr>device32 := d\<rparr>"
  define m1 where "m1 = twi_disable_irq base (snd (twi_query_irq_flag base ?shown))"
  have flag: "fst (twi_query_irq_flag base ?shown)"
    using assms(2) by (simp add: shows_status_def twi_query_irq_flag_def twi_read_def rd32_def Let_def)
  have q: "same_sent base ?shown (snd (twi_query_irq_flag base ?shown))"
    by (simp add: twi_query_irq_flag_def split_beta same_sent_reg)
  have k1: "same_sent base ?shown m1" unfolding m1_def by (rule same_sent_trans [OF q same_sent_disable])
  define m2 where "m2 = snd (twi_get_status base m1)"
  have st: "fst (twi_get_status base m1) = st"
    using assms(2) k1 by (simp add: shows_status_def same_sent_def twi_get_status_def twi_read_def rd32_def Let_def)
  then have st: "twi_get_status base m1 = (st, m2)" by (simp add: m2_def prod_eq_iff)
  have k2: "same_sent base ?shown m2"
    unfolding m2_def twi_get_status_def split_beta Let_def snd_conv by (rule same_sent_trans [OF k1 same_sent_reg(2)])
  have core: "twi_core_process base (s\<lparr>io := m1\<rparr>) = (if st = 0xF8 \<or> st = 0 then twi_xfer_complete h (- ucast st) (s\<lparr>io := m2\<rparr>)
      else map_option (change_channel h (\<lambda>c. c\<lparr>debug_state := st\<rparr>)) (twi_state_step base h st msg (s\<lparr>io := m2\<rparr>)))"
    using assms(1,3) st by (cases "twi_state_step base h st msg (s\<lparr>io := m2\<rparr>)")
      (simp_all add: twi_core_process_def current_msg_def Let_def not_le [symmetric])
  have "twi_isr base h (with_device d s) =
      map_option (\<lambda>s. if ch_status (channel h s) = XferRunning then on_io (twi_enable_irq base) s else s) (twi_core_process base (s\<lparr>io := m1\<rparr>))"
    using flag by (cases "twi_core_process base (s\<lparr>io := m1\<rparr>)")
      (simp_all add: twi_isr_def with_device_def split_beta on_io_def m1_def Let_def)
  then show thesis using that [of m2] k2 core by (simp add: same_sent_def)
qed

lemma isr_core:
  assumes "twi_channel_for_base base = Some h" "shows_status base st b d (trace (io s))"
    "current_msg (channel h s) msg" "st \<noteq> 0" "st \<noteq> 0xF8"
  obtains m where "device32 m = d" "sent_data base (trace m) = sent_data base (trace (io s))"
    "twi_isr base h (with_device d s) = map_option (isr_tail base h st) (twi_state_step base h st msg (s\<lparr>io := m\<rparr>))"
proof -
  obtain m where m: "device32 m = d" "sent_data base (trace m) = sent_data base (trace (io s))"
    "twi_isr base h (with_device d s) = map_option (\<lambda>s. if ch_status (channel h s) = XferRunning then on_io (twi_enable_irq base) s else s)
       (if st = 0xF8 \<or> st = 0 then twi_xfer_complete h (- ucast st) (s\<lparr>io := m\<rparr>)
        else map_option (change_channel h (\<lambda>c. c\<lparr>debug_state := st\<rparr>)) (twi_state_step base h st msg (s\<lparr>io := m\<rparr>)))"
    by (rule isr_entry [OF assms(1-3)])
  from m(3) have "twi_isr base h (with_device d s) = map_option (isr_tail base h st) (twi_state_step base h st msg (s\<lparr>io := m\<rparr>))"
    by (cases "twi_state_step base h st msg (s\<lparr>io := m\<rparr>)") (simp_all add: assms(4,5) isr_tail_def)
  then show thesis using that m(1,2) by blast
qed

text \<open>The outcome of an interrupt that leaves the transfer running.\<close>

definition goes_on :: "u32 \<Rightarrow> twi_handler \<Rightarrow> u8 \<Rightarrow> u8 list \<Rightarrow> twi_channel \<Rightarrow> twi_state \<Rightarrow> twi_state option \<Rightarrow> bool" where
  "goes_on base h st bs c s r \<longleftrightarrow> (\<exists>s'. r = Some s' \<and> channel h s' = c\<lparr>debug_state := st\<rparr> \<and>
     sent_data base (trace (io s')) = sent_data base (trace (io s)) @ bs \<and> twi_kernel (user s') = twi_kernel (user s))"

lemma kernel_simps [simp]:
  "twi_kernel (user (set_channel h c s)) = twi_kernel (user s)"
  "twi_kernel (user (change_channel h f s)) = twi_kernel (user s)"
  "twi_kernel (user (on_io g s)) = twi_kernel (user s)"
  by (cases h; simp add: on_io_def change_channel_def)+

lemma tail_goes_on:
  assumes "ch_status (channel h s') = XferRunning" "channel h s' = c" "twi_kernel (user s') = twi_kernel (user s)"
    "sent_data base (trace (io s')) = sent_data base (trace (io s)) @ bs"
  shows "goes_on base h st bs c s (map_option (isr_tail base h st) (Some s'))"
  using assms same_sent_ctl [of base "io s'"]
  by (simp add: goes_on_def isr_tail_def Let_def twi_enable_irq_def same_sent_def)

lemma step_addr:
  assumes "twi_channel_for_base base = Some h" "shows_status base st b d (trace (io s))"
    "current_msg (channel h s) msg" "st = 0x08 \<or> st = 0x10" "ch_status (channel h s) = XferRunning"
  shows "goes_on base h st [push_bit 1 (msg_addr msg AND 0x7F) OR of_bool (msg_read msg)] (channel h s) s
    (twi_isr base h (with_device d s))"
proof -
  have st: "st \<noteq> 0" "st \<noteq> 0xF8" using assms(4) by auto
  from isr_core [OF assms(1-3) st] obtain m where m: "sent_data base (trace m) = sent_data base (trace (io s))"
    "twi_isr base h (with_device d s) = map_option (isr_tail base h st) (twi_state_step base h st msg (s\<lparr>io := m\<rparr>))"
    by metis
  have e: "twi_state_step base h st msg (s\<lparr>io := m\<rparr>) = Some (on_io (twi_send_addr base (msg_addr msg) (msg_read msg)) (s\<lparr>io := m\<rparr>))"
    using assms(4) by (simp add: twi_state_step_def)
  show ?thesis unfolding m(2) e
    by (rule tail_goes_on) (use assms(5) m(1) put_byte_sent in \<open>simp_all add: twi_send_addr_def\<close>)
qed

lemma step_data:
  assumes "twi_channel_for_base base = Some h" "shows_status base st b d (trace (io s))"
    "current_msg (channel h s) msg" "st = 0x18 \<or> st = 0x28" "ch_status (channel h s) = XferRunning"
    "msg_ptr (channel h s) < msg_len msg" "buf_get msg (channel h s) = Some v"
  shows "goes_on base h st [v] ((channel h s)\<lparr>msg_ptr := msg_ptr (channel h s) + 1\<rparr>) s (twi_isr base h (with_device d s))"
proof -
  have st: "st \<noteq> 0" "st \<noteq> 0xF8" using assms(4) by auto
  from isr_core [OF assms(1-3) st] obtain m where m: "sent_data base (trace m) = sent_data base (trace (io s))"
    "twi_isr base h (with_device d s) = map_option (isr_tail base h st) (twi_state_step base h st msg (s\<lparr>io := m\<rparr>))"
    by metis
  have e: "twi_state_step base h st msg (s\<lparr>io := m\<rparr>) =
      Some (change_channel h (\<lambda>c. c\<lparr>msg_ptr := msg_ptr c + 1\<rparr>) (on_io (twi_put_byte base v) (s\<lparr>io := m\<rparr>)))"
    using assms(4,6,7) by (auto simp: twi_state_step_def twi_send_data_def Let_def)
  show ?thesis unfolding m(2) e
    by (rule tail_goes_on) (use assms(5) m(1) put_byte_sent in simp_all)
qed

lemma restart_sent:
  "same_sent base m (snd (twi_wait_start_clear base (twi_clear_irq_flag base (twi_set_start base m))))"
  unfolding twi_set_start_def
  by (rule same_sent_trans [OF same_sent_trans [OF same_sent_ctl same_sent_clear] same_sent_start])

lemma step_restart:
  assumes "twi_channel_for_base base = Some h" "shows_status base st b d (trace (io s))"
    "current_msg (channel h s) msg" "st = 0x18 \<or> st = 0x28" "ch_status (channel h s) = XferRunning"
    "\<not> msg_ptr (channel h s) < msg_len msg" "msg_idx (channel h s) + 1 < msg_num (channel h s)"
  shows "goes_on base h st [] ((channel h s)\<lparr>msg_idx := msg_idx (channel h s) + 1, msg_ptr := 0\<rparr>) s (twi_isr base h (with_device d s))"
proof -
  have st: "st \<noteq> 0" "st \<noteq> 0xF8" using assms(4) by auto
  from isr_core [OF assms(1-3) st] obtain m where m: "sent_data base (trace m) = sent_data base (trace (io s))"
    "twi_isr base h (with_device d s) = map_option (isr_tail base h st) (twi_state_step base h st msg (s\<lparr>io := m\<rparr>))"
    by metis
  have e: "twi_state_step base h st msg (s\<lparr>io := m\<rparr>) =
      Some (on_io (\<lambda>m. snd (twi_wait_start_clear base (twi_clear_irq_flag base (twi_set_start base m))))
        (change_channel h (\<lambda>c. c\<lparr>msg_idx := msg_idx c + 1, msg_ptr := 0\<rparr>) (s\<lparr>io := m\<rparr>)))"
    using assms(4,6,7) by (auto simp: twi_state_step_def twi_send_data_def twi_advance_def Let_def)
  show ?thesis unfolding m(2) e
    by (rule tail_goes_on) (use assms(5) m(1) restart_sent [of base m] in \<open>simp_all add: same_sent_def\<close>)
qed

lemma step_listen:
  assumes "twi_channel_for_base base = Some h" "shows_status base 0x40 b d (trace (io s))"
    "current_msg (channel h s) msg" "ch_status (channel h s) = XferRunning"
  shows "goes_on base h 0x40 [] (channel h s) s (twi_isr base h (with_device d s))"
proof -
  have st: "(0x40 :: u8) \<noteq> 0" "(0x40 :: u8) \<noteq> 0xF8" by simp_all
  from isr_core [OF assms(1-3) st] obtain m where m: "sent_data base (trace m) = sent_data base (trace (io s))"
    "twi_isr base h (with_device d s) = map_option (isr_tail base h 0x40) (twi_state_step base h 0x40 msg (s\<lparr>io := m\<rparr>))"
    by metis
  let ?f = "\<lambda>m. twi_clear_irq_flag base (if 1 < msg_len msg then twi_enable_ack base m else m)"
  have e: "twi_state_step base h 0x40 msg (s\<lparr>io := m\<rparr>) = Some (on_io ?f (s\<lparr>io := m\<rparr>))"
    by (simp add: twi_state_step_def)
  have "same_sent base m (?f m)"
    using same_sent_clear [of base m] same_sent_trans [OF same_sent_ctl same_sent_clear]
    by (simp add: twi_enable_ack_def)
  then show ?thesis unfolding m(2) e
    by (intro tail_goes_on) (use assms(4) m(1) in \<open>cases "1 < msg_len msg"; simp add: same_sent_def\<close>)+
qed

lemma step_receive:
  assumes "twi_channel_for_base base = Some h" "shows_status base 0x50 (Some b) d (trace (io s))"
    "current_msg (channel h s) msg" "ch_status (channel h s) = XferRunning"
    "msg_ptr (channel h s) < msg_len msg" "buf_put msg b (channel h s) = Some c" "ch_status c = XferRunning"
  shows "goes_on base h 0x50 [] (c\<lparr>msg_ptr := msg_ptr c + 1\<rparr>) s (twi_isr base h (with_device d s))"
proof -
  have st: "(0x50 :: u8) \<noteq> 0" "(0x50 :: u8) \<noteq> 0xF8" by simp_all
  from isr_core [OF assms(1-3) st] obtain m where m: "device32 m = d" "sent_data base (trace m) = sent_data base (trace (io s))"
    "twi_isr base h (with_device d s) = map_option (isr_tail base h 0x50) (twi_state_step base h 0x50 msg (s\<lparr>io := m\<rparr>))"
    by metis
  let ?m1 = "if msg_ptr (channel h s) + 2 = msg_len msg then twi_disable_ack base m else m"
  have k: "same_sent base m ?m1" using same_sent_ctl [of base m] by (simp add: twi_disable_ack_def same_sent_def)
  let ?m2 = "twi_clear_irq_flag base (snd (twi_read base tw_DATA ?m1))"
  have g: "twi_get_byte base ?m1 = (b, ?m2)"
    using k m(1) assms(2) by (simp add: twi_get_byte_def twi_read_def rd32_def Let_def shows_status_def same_sent_def)
  have k2: "same_sent base m ?m2" by (rule same_sent_trans [OF same_sent_trans [OF k same_sent_reg(2)] same_sent_clear])
  have ptr: "msg_ptr c = msg_ptr (channel h s)"
    using assms(6) by (auto simp: buf_put_def split: twi_buf.splits)
  have e: "twi_state_step base h 0x50 msg (s\<lparr>io := m\<rparr>) =
      Some (set_channel h (c\<lparr>msg_ptr := msg_ptr (channel h s) + 1\<rparr>) (s\<lparr>io := ?m2\<rparr>))"
    using g assms(5,6) by (cases "msg_ptr (channel h s) + 2 = msg_len msg") (simp_all add: twi_state_step_def twi_received_def Let_def ptr)
  show ?thesis unfolding m(3) e
    by (rule tail_goes_on) (use assms(7) m(2) k2 ptr in \<open>simp_all add: same_sent_def\<close>)
qed

text \<open>The outcome of an interrupt that completes the transfer: the event is set.\<close>

definition completes :: "u32 \<Rightarrow> twi_handler \<Rightarrow> u8 \<Rightarrow> u32 \<Rightarrow> twi_channel \<Rightarrow> twi_state \<Rightarrow> twi_state option \<Rightarrow> bool" where
  "completes base h st code c s r \<longleftrightarrow> (\<exists>s' k e. r = Some s' \<and>
     event_set TWI_WAKEUP_EVENT (twi_kernel (user s), ch_event c) = Some (k, e) \<and> twi_kernel (user s') = k \<and>
     channel h s' = c\<lparr>ch_event := e, ch_msgs := [None, None], msg_num := 0, msg_ptr := 0,
       ch_status := XferIdle, msg_idx := code, debug_state := st\<rparr> \<and>
     sent_data base (trace (io s')) = sent_data base (trace (io s)))"

lemma tail_completes:
  assumes "channel h t = c" "twi_kernel (user t) = twi_kernel (user s)"
    "sent_data base (trace (io t)) = sent_data base (trace (io s))"
  shows "completes base h st code c s (map_option (isr_tail base h st) (twi_xfer_complete h code t))"
proof -
  obtain k e s' where "twi_xfer_complete h code t = Some s'"
    "event_set TWI_WAKEUP_EVENT (twi_kernel (user t), ch_event (channel h t)) = Some (k, e)"
    "channel h s' = (channel h t)\<lparr>ch_event := e, ch_msgs := [None, None], msg_num := 0, msg_ptr := 0,
       ch_status := XferIdle, msg_idx := code\<rparr>" "io s' = io t" "twi_kernel (user s') = k"
    by (rule complete_returns)
  then show ?thesis using assms by (simp add: completes_def isr_tail_def Let_def)
qed

lemma completesE:
  assumes "completes base h st code c s r"
  obtains s' where "r = Some s'"
    "event_set TWI_WAKEUP_EVENT (twi_kernel (user s), ch_event c) = Some (twi_kernel (user s'), ch_event (channel h s'))"
    "ch_status (channel h s') = XferIdle" "msg_idx (channel h s') = code" "msg_num (channel h s') = 0"
    "read_buf (channel h s') = read_buf c" "sent_data base (trace (io s')) = sent_data base (trace (io s))"
  using assms by (auto simp: completes_def)

lemma step_complete:
  assumes "twi_channel_for_base base = Some h" "shows_status base st b d (trace (io s))"
    "current_msg (channel h s) msg" "st = 0x18 \<or> st = 0x28"
    "\<not> msg_ptr (channel h s) < msg_len msg" "msg_num (channel h s) = msg_idx (channel h s) + 1"
  shows "completes base h st 0 ((channel h s)\<lparr>msg_idx := msg_num (channel h s), msg_ptr := 0\<rparr>) s
    (twi_isr base h (with_device d s))"
proof -
  have st: "st \<noteq> 0" "st \<noteq> 0xF8" using assms(4) by auto
  from isr_core [OF assms(1-3) st] obtain m where m: "sent_data base (trace m) = sent_data base (trace (io s))"
    "twi_isr base h (with_device d s) = map_option (isr_tail base h st) (twi_state_step base h st msg (s\<lparr>io := m\<rparr>))"
    by metis
  have e: "twi_state_step base h st msg (s\<lparr>io := m\<rparr>) = twi_xfer_complete h 0
      (change_channel h (\<lambda>c. c\<lparr>msg_idx := msg_idx c + 1, msg_ptr := 0\<rparr>) (s\<lparr>io := m\<rparr>))"
    using assms(4-6) by (auto simp: twi_state_step_def twi_send_data_def twi_advance_def Let_def)
  show ?thesis unfolding m(2) e by (rule tail_completes) (use assms(6) m(1) in simp_all)
qed

lemma step_last:
  assumes "twi_channel_for_base base = Some h" "shows_status base 0x58 (Some b) d (trace (io s))"
    "current_msg (channel h s) msg" "msg_ptr (channel h s) = msg_len msg - 1"
    "msg_num (channel h s) = msg_idx (channel h s) + 1" "buf_put msg b (channel h s) = Some c"
  shows "completes base h 0x58 0 (c\<lparr>msg_idx := msg_num (channel h s), msg_ptr := 0\<rparr>) s (twi_isr base h (with_device d s))"
proof -
  have st: "(0x58 :: u8) \<noteq> 0" "(0x58 :: u8) \<noteq> 0xF8" by simp_all
  from isr_core [OF assms(1-3) st] obtain m where m: "device32 m = d" "sent_data base (trace m) = sent_data base (trace (io s))"
    "twi_isr base h (with_device d s) = map_option (isr_tail base h 0x58) (twi_state_step base h 0x58 msg (s\<lparr>io := m\<rparr>))"
    by metis
  let ?m1 = "snd (twi_read base tw_DATA m)"
  have g: "twi_get_last_byte base m = (b, ?m1)"
    using m(1) assms(2) by (simp add: twi_get_last_byte_def twi_read_def rd32_def Let_def shows_status_def)
  have c: "msg_idx c = msg_idx (channel h s)" "msg_num c = msg_num (channel h s)"
    using assms(6) by (auto simp: buf_put_def split: twi_buf.splits)
  have e: "twi_state_step base h 0x58 msg (s\<lparr>io := m\<rparr>) = twi_xfer_complete h 0
      (change_channel h (\<lambda>c. c\<lparr>msg_idx := msg_idx c + 1, msg_ptr := 0\<rparr>) (set_channel h c (s\<lparr>io := ?m1\<rparr>)))"
    using g assms(4-6) c by (simp add: twi_state_step_def twi_received_last_def twi_advance_def Let_def)
  show ?thesis unfolding m(3) e
    by (rule tail_completes) (use assms(5) m(2) c same_sent_reg(2) [of base m tw_DATA] in \<open>simp_all add: same_sent_def\<close>)
qed

section \<open>Sessions\<close>

text \<open>\<open>after_rounds base h rs Q s\<close>: one interrupt for each entry of \<open>rs\<close>, with a controller that
  shows that status (and byte); every routine returns, and \<open>Q\<close> holds in the end.\<close>

fun after_rounds :: "u32 \<Rightarrow> twi_handler \<Rightarrow> (u8 \<times> u8 option) list \<Rightarrow> (twi_state \<Rightarrow> bool) \<Rightarrow> twi_state \<Rightarrow> bool" where
  "after_rounds base h [] Q s \<longleftrightarrow> Q s"
| "after_rounds base h ((st, b) # rs) Q s \<longleftrightarrow> (\<forall>d. shows_status base st b d (trace (io s)) \<longrightarrow>
     (\<exists>s'. twi_isr base h (with_device d s) = Some s' \<and> after_rounds base h rs Q s'))"

lemma after_rounds_append:
  "after_rounds base h (xs @ ys) Q s \<longleftrightarrow> after_rounds base h xs (after_rounds base h ys Q) s"
  by (induction xs arbitrary: s) auto

lemma after_rounds_mono:
  "after_rounds base h rs Q s \<Longrightarrow> (\<And>s. Q s \<Longrightarrow> Q' s) \<Longrightarrow> after_rounds base h rs Q' s"
  by (induction rs arbitrary: s) (fastforce split: prod.splits)+

text \<open>The statuses of a message whose bytes are all acknowledged.\<close>

definition write_rounds :: "u8 list \<Rightarrow> (u8 \<times> u8 option) list" where
  "write_rounds bs = (0x08, None) # (0x18, None) # replicate (length bs) (0x28, None)"

definition read_rounds :: "u8 \<Rightarrow> u8 list \<Rightarrow> (u8 \<times> u8 option) list" where
  "read_rounds start bs = (start, None) # (0x40, None) # map (\<lambda>b. (0x50, Some b)) (butlast bs) @ [(0x58, Some (last bs))]"

text \<open>The channel, up to what \<open>debug_state\<close> records.\<close>

definition channel_is :: "twi_handler \<Rightarrow> twi_channel \<Rightarrow> twi_state \<Rightarrow> bool" where
  "channel_is h c s \<longleftrightarrow> (\<exists>x. channel h s = c\<lparr>debug_state := x\<rparr>)"

text \<open>A point of a session: the channel, the bytes sent so far, the scheduler.\<close>

definition session_at :: "u32 \<Rightarrow> twi_handler \<Rightarrow> twi_channel \<Rightarrow> u8 list \<Rightarrow> kernel \<Rightarrow> twi_state \<Rightarrow> bool" where
  "session_at base h c out k s \<longleftrightarrow> channel_is h c s \<and> sent_data base (trace (io s)) = out \<and> twi_kernel (user s) = k"

lemma next_round:
  assumes "\<And>d. shows_status base st b d (trace (io s)) \<Longrightarrow> goes_on base h st bs c s (twi_isr base h (with_device d s))"
    and "\<And>s'. session_at base h c (sent_data base (trace (io s)) @ bs) (twi_kernel (user s)) s' \<Longrightarrow> after_rounds base h rs Q s'"
  shows "after_rounds base h ((st, b) # rs) Q s"
  using assms by (fastforce simp: goes_on_def session_at_def channel_is_def)

text \<open>\<open>debug_state\<close> decides nothing.\<close>

lemma debug_irrelevant [simp]:
  "current_msg (c\<lparr>debug_state := x\<rparr>) msg = current_msg c msg"
  "buf_get msg (c\<lparr>debug_state := x\<rparr>) = buf_get msg c"
  "buf_put msg b (c\<lparr>debug_state := x\<rparr>) = map_option (\<lambda>c. c\<lparr>debug_state := x\<rparr>) (buf_put msg b c)"
  by (auto simp: current_msg_def buf_get_def buf_put_def slice_set_def split: twi_buf.splits)

lemma current_ptr [simp]: "current_msg (c\<lparr>msg_ptr := p\<rparr>) msg = current_msg c msg"
  "current_msg (c\<lparr>read_buf := l\<rparr>) msg = current_msg c msg"
  by (simp_all add: current_msg_def)

lemma small_ptr: "k < n \<Longrightarrow> n < 2 ^ 32 \<Longrightarrow> (word_of_nat k :: u32) < word_of_nat n \<and> unat (word_of_nat k :: u32) = k"
  by (simp add: word_less_nat_alt unat_of_nat_u32)

lemma send_rounds:
  assumes "twi_channel_for_base base = Some h" "ch_status c = XferRunning" "current_msg c msg"
    "msg_buf msg = WriteBuf" "msg_len msg = word_of_nat n" "n \<le> length (write_buf c)" "n < 2 ^ 32"
    and last: "\<And>s'. session_at base h (c\<lparr>msg_ptr := word_of_nat n\<rparr>) (out @ take n (write_buf c)) K s' \<Longrightarrow> after_rounds base h rs Q s'"
  shows "k + length sts = n \<Longrightarrow> set sts \<subseteq> {0x18, 0x28} \<Longrightarrow>
    session_at base h (c\<lparr>msg_ptr := word_of_nat k\<rparr>) (out @ take k (write_buf c)) K s \<Longrightarrow>
    after_rounds base h (map (\<lambda>st. (st, None)) sts @ rs) Q s"
proof (induction sts arbitrary: k s)
  case (Cons st sts)
  from Cons.prems(1,2) have k: "k < n" "Suc k + length sts = n" and st: "st = 0x18 \<or> st = 0x28" "set sts \<subseteq> {0x18, 0x28}" by auto
  obtain x where x: "channel h s = c\<lparr>msg_ptr := word_of_nat k, debug_state := x\<rparr>"
    and o: "sent_data base (trace (io s)) = out @ take k (write_buf c)" "twi_kernel (user s) = K"
    using Cons.prems(3) by (auto simp: session_at_def channel_is_def)
  have b: "buf_get msg (channel h s) = Some (write_buf c ! k)"
    using x k assms(4,6,7) small_ptr [OF k(1) assms(7)] by (simp add: buf_get_def slice_get_def)
  have t: "take k (write_buf c) @ [write_buf c ! k] = take (Suc k) (write_buf c)"
    using k assms(6) by (simp add: take_Suc_conv_app_nth)
  let ?c = "(channel h s)\<lparr>msg_ptr := msg_ptr (channel h s) + 1\<rparr>"
  have "after_rounds base h ((st, None) # (map (\<lambda>st. (st, None)) sts @ rs)) Q s"
  proof (rule next_round [where c = ?c and bs = "[write_buf c ! k]"])
    fix d assume "shows_status base st None d (trace (io s))"
    then show "goes_on base h st [write_buf c ! k] ?c s (twi_isr base h (with_device d s))"
      using step_data [OF assms(1) _ _ st(1) _ _ b] x assms(2,3,5,7) k(1) small_ptr by simp
  next
    fix s' assume "session_at base h ?c (sent_data base (trace (io s)) @ [write_buf c ! k]) (twi_kernel (user s)) s'"
    then have "session_at base h (c\<lparr>msg_ptr := word_of_nat (Suc k)\<rparr>) (out @ take (Suc k) (write_buf c)) K s'"
      using x o t by (auto simp: session_at_def channel_is_def add.commute)
    then show "after_rounds base h (map (\<lambda>st. (st, None)) sts @ rs) Q s'" by (rule Cons.IH [OF k(2) st(2)])
  qed
  then show ?case by simp
qed (use last in simp)

lemma receive_rounds:
  assumes "twi_channel_for_base base = Some h" "ch_status c = XferRunning" "current_msg c msg"
    "msg_buf msg = ReadBuf" "msg_len msg = word_of_nat n" "n = length (read_buf c)" "n < 2 ^ 32" "length bs < n"
    and last: "\<And>s'. session_at base h (c\<lparr>read_buf := bs @ drop (length bs) (read_buf c), msg_ptr := word_of_nat (length bs)\<rparr>) out K s' \<Longrightarrow>
      after_rounds base h rs Q s'"
  shows "bs = ds @ es \<Longrightarrow> session_at base h (c\<lparr>read_buf := ds @ drop (length ds) (read_buf c), msg_ptr := word_of_nat (length ds)\<rparr>) out K s \<Longrightarrow>
    after_rounds base h (map (\<lambda>b. (0x50, Some b)) es @ rs) Q s"
proof (induction es arbitrary: ds s)
  case (Cons b es)
  let ?k = "length ds"
  have k: "?k < n" "?k < length bs" using Cons.prems(1) assms(8) by auto
  obtain x where x: "channel h s = c\<lparr>read_buf := ds @ drop ?k (read_buf c), msg_ptr := word_of_nat ?k, debug_state := x\<rparr>"
    and o: "sent_data base (trace (io s)) = out" "twi_kernel (user s) = K"
    using Cons.prems(2) by (auto simp: session_at_def channel_is_def)
  have upd: "(ds @ drop ?k (read_buf c))[?k := b] = (ds @ [b]) @ drop (length (ds @ [b])) (read_buf c)"
    using k(1) assms(6) by (simp add: list_update_append Cons_nth_drop_Suc [symmetric])
  let ?c = "c\<lparr>read_buf := (ds @ [b]) @ drop (length (ds @ [b])) (read_buf c), msg_ptr := word_of_nat ?k, debug_state := x\<rparr>"
  have b: "buf_put msg b (channel h s) = Some ?c"
    using x k(1) assms(4,6,7) upd by (simp add: buf_put_def small_ptr slice_set_def)
  have "after_rounds base h ((0x50, Some b) # (map (\<lambda>b. (0x50, Some b)) es @ rs)) Q s"
  proof (rule next_round [where c = "?c\<lparr>msg_ptr := msg_ptr ?c + 1\<rparr>" and bs = "[]"])
    fix d assume "shows_status base 0x50 (Some b) d (trace (io s))"
    then show "goes_on base h 0x50 [] (?c\<lparr>msg_ptr := msg_ptr ?c + 1\<rparr>) s (twi_isr base h (with_device d s))"
      by (rule step_receive [OF assms(1) _ _ _ _ b]) (use x assms(2,3,5,7) k(1) small_ptr in simp_all)
  next
    fix s' assume "session_at base h (?c\<lparr>msg_ptr := msg_ptr ?c + 1\<rparr>) (sent_data base (trace (io s)) @ []) (twi_kernel (user s)) s'"
    then have "session_at base h (c\<lparr>read_buf := (ds @ [b]) @ drop (length (ds @ [b])) (read_buf c),
        msg_ptr := word_of_nat (length (ds @ [b]))\<rparr>) out K s'"
      using o by (auto simp: session_at_def channel_is_def add.commute)
    then show "after_rounds base h (map (\<lambda>b. (0x50, Some b)) es @ rs) Q s'"
      using Cons.IH [of "ds @ [b]"] Cons.prems(1) by simp
  qed
  then show ?case by simp
qed (use last in simp)

lemma session_upto:
  "session_at base h c out K s \<Longrightarrow>
    session_at base h (channel h s) (sent_data base (trace (io s)) @ bs) (twi_kernel (user s)) s' \<Longrightarrow>
    session_at base h c (out @ bs) K s'"
  by (auto simp: session_at_def channel_is_def)

lemma address_round:
  assumes "twi_channel_for_base base = Some h" "ch_status c = XferRunning" "current_msg c msg" "st = 0x08 \<or> st = 0x10"
    "session_at base h c out K s"
    and last: "\<And>s'. session_at base h c (out @ [push_bit 1 (msg_addr msg AND 0x7F) OR of_bool (msg_read msg)]) K s' \<Longrightarrow>
      after_rounds base h rs Q s'"
  shows "after_rounds base h ((st, None) # rs) Q s"
proof (rule next_round [where c = "channel h s"])
  fix d assume "shows_status base st None d (trace (io s))"
  then show "goes_on base h st [push_bit 1 (msg_addr msg AND 0x7F) OR of_bool (msg_read msg)] (channel h s) s
      (twi_isr base h (with_device d s))"
    by (rule step_addr [OF assms(1) _ _ assms(4)]) (use assms(2,3,5) in \<open>auto simp: session_at_def channel_is_def\<close>)
next
  fix s' assume "session_at base h (channel h s) (sent_data base (trace (io s)) @
    [push_bit 1 (msg_addr msg AND 0x7F) OR of_bool (msg_read msg)]) (twi_kernel (user s)) s'"
  from last [OF session_upto [OF assms(5) this]] show "after_rounds base h rs Q s'" .
qed

lemma write_phase:
  assumes "twi_channel_for_base base = Some h" "ch_status c = XferRunning" "current_msg c msg" "msg_ptr c = 0"
    "msg_buf msg = WriteBuf" "\<not> msg_read msg" "msg_len msg = word_of_nat (length bs)" "length bs < 2 ^ 32" "bs \<noteq> []"
    "take (length bs) (write_buf c) = bs" "session_at base h c out K s"
    and last: "\<And>s'. session_at base h (c\<lparr>msg_ptr := word_of_nat (length bs)\<rparr>) (out @ push_bit 1 (msg_addr msg AND 0x7F) # bs) K s' \<Longrightarrow>
      after_rounds base h ((0x28, None) # rs) Q s'"
  shows "after_rounds base h (write_rounds bs @ rs) Q s"
proof -
  let ?a = "push_bit 1 (msg_addr msg AND 0x7F)" and ?sts = "(0x18 :: u8) # replicate (length bs - 1) 0x28"
  obtain n where n: "length bs = Suc n" using assms(9) by (cases bs) auto
  have r: "write_rounds bs @ rs = (0x08, None) # map (\<lambda>st. (st, None)) ?sts @ (0x28, None) # rs"
    by (simp add: write_rounds_def n replicate_append_same [symmetric] map_replicate)
  have c0: "c\<lparr>msg_ptr := 0\<rparr> = c" using assms(4) by (cases c) simp
  have l: "length bs \<le> length (write_buf c)" using assms(10) by (metis length_take min.cobounded1)
  show ?thesis unfolding r
  proof (rule address_round [OF assms(1-3) _ assms(11)])
    fix s' assume "session_at base h c (out @ [?a OR of_bool (msg_read msg)]) K s'"
    then have "session_at base h (c\<lparr>msg_ptr := word_of_nat 0\<rparr>) ((out @ [?a]) @ take 0 (write_buf c)) K s'"
      using assms(6) c0 by simp
    note start = this
    show "after_rounds base h (map (\<lambda>st. (st, None)) ?sts @ (0x28, None) # rs) Q s'"
    proof (rule send_rounds [OF assms(1-3,5,7) l assms(8) _ _ _ start])
      fix t assume "session_at base h (c\<lparr>msg_ptr := word_of_nat (length bs)\<rparr>) ((out @ [?a]) @ take (length bs) (write_buf c)) K t"
      then show "after_rounds base h ((0x28, None) # rs) Q t" using assms(10) by (intro last) simp
    qed (auto simp: n)
  qed simp
qed

lemma last_cell: "length l = Suc (length ds) \<Longrightarrow> (ds @ drop (length ds) l)[length ds := b] = ds @ [b]"
  by (cases l rule: rev_cases) (simp_all add: list_update_append)

lemma read_phase:
  assumes "twi_channel_for_base base = Some h" "ch_status c = XferRunning" "current_msg c msg" "msg_ptr c = 0"
    "msg_buf msg = ReadBuf" "msg_read msg" "msg_len msg = word_of_nat (length bs)" "length bs < 2 ^ 32" "bs \<noteq> []"
    "length (read_buf c) = length bs" "msg_num c = msg_idx c + 1" "st = 0x08 \<or> st = 0x10" "session_at base h c out K s"
    and last: "\<And>s'. read_buf (channel h s') = bs \<Longrightarrow> ch_status (channel h s') = XferIdle \<Longrightarrow>
      msg_idx (channel h s') = 0 \<Longrightarrow> msg_num (channel h s') = 0 \<Longrightarrow>
      event_set TWI_WAKEUP_EVENT (K, ch_event c) = Some (twi_kernel (user s'), ch_event (channel h s')) \<Longrightarrow>
      sent_data base (trace (io s')) = out @ [push_bit 1 (msg_addr msg AND 0x7F) OR 1] \<Longrightarrow> Q s'"
  shows "after_rounds base h (read_rounds st bs) Q s"
  unfolding read_rounds_def
proof (rule address_round [OF assms(1-3,12,13)])
  let ?out = "out @ [push_bit 1 (msg_addr msg AND 0x7F) OR of_bool (msg_read msg)]"
    and ?n = "length (butlast bs)"
  fix s1 assume s1: "session_at base h c ?out K s1"
  show "after_rounds base h ((0x40, None) # map (\<lambda>b. (0x50, Some b)) (butlast bs) @ [(0x58, Some (last bs))]) Q s1"
  proof (rule next_round [where c = "channel h s1"])
    fix d assume "shows_status base 0x40 None d (trace (io s1))"
    then show "goes_on base h 0x40 [] (channel h s1) s1 (twi_isr base h (with_device d s1))"
      by (rule step_listen [OF assms(1)]) (use assms(2,3) s1 in \<open>auto simp: session_at_def channel_is_def\<close>)
  next
    have c0: "c\<lparr>read_buf := read_buf c, msg_ptr := 0\<rparr> = c" using assms(4) by (cases c) simp
    fix s2 assume "session_at base h (channel h s1) (sent_data base (trace (io s1)) @ []) (twi_kernel (user s1)) s2"
    then have s2: "session_at base h (c\<lparr>read_buf := [] @ drop (length []) (read_buf c), msg_ptr := word_of_nat (length [])\<rparr>) ?out K s2"
      using session_upto [OF s1] c0 by simp
    have n: "?n < length bs" using assms(9) by (cases bs rule: rev_cases) auto
    show "after_rounds base h (map (\<lambda>b. (0x50, Some b)) (butlast bs) @ [(0x58, Some (last bs))]) Q s2"
    proof (rule receive_rounds [OF assms(1-3,5,7) assms(10) [symmetric] assms(8) n _ _ s2])
      fix s3 assume s3: "session_at base h (c\<lparr>read_buf := butlast bs @ drop ?n (read_buf c), msg_ptr := word_of_nat ?n\<rparr>) ?out K s3"
      then obtain x where x: "channel h s3 = c\<lparr>read_buf := butlast bs @ drop ?n (read_buf c), msg_ptr := word_of_nat ?n, debug_state := x\<rparr>"
        by (auto simp: session_at_def channel_is_def)
      have p: "msg_ptr (channel h s3) = msg_len msg - 1" using x assms(7) n by (simp add: of_nat_diff)
      have w: "(butlast bs @ drop ?n (read_buf c))[?n := last bs] = bs"
        using assms(9,10) by (cases bs rule: rev_cases) (simp_all add: last_cell)
      let ?c = "c\<lparr>read_buf := bs, msg_ptr := word_of_nat ?n, debug_state := x\<rparr>"
      have b: "buf_put msg (last bs) (channel h s3) = Some ?c"
        using x w assms(5,10) n small_ptr [OF n assms(8)] by (simp add: buf_put_def slice_set_def)
      show "after_rounds base h [(0x58, Some (last bs))] Q s3" unfolding after_rounds.simps
      proof (intro allI impI)
        fix d assume d: "shows_status base 0x58 (Some (last bs)) d (trace (io s3))"
        have "completes base h 0x58 0 (?c\<lparr>msg_idx := msg_num (channel h s3), msg_ptr := 0\<rparr>) s3 (twi_isr base h (with_device d s3))"
          by (rule step_last [OF assms(1) d _ p _ b]) (use x assms(3,11) in simp_all)
        then obtain s' where s': "twi_isr base h (with_device d s3) = Some s'"
          "event_set TWI_WAKEUP_EVENT (twi_kernel (user s3), ch_event c) = Some (twi_kernel (user s'), ch_event (channel h s'))"
          "ch_status (channel h s') = XferIdle" "msg_idx (channel h s') = 0" "msg_num (channel h s') = 0"
          "read_buf (channel h s') = bs" "sent_data base (trace (io s')) = sent_data base (trace (io s3))"
          by (rule completesE) simp
        have s3': "twi_kernel (user s3) = K" "sent_data base (trace (io s3)) = ?out" using s3 by (simp_all add: session_at_def)
        have "Q s'"
          by (rule last) (use s'(2-7) s3' assms(6) in simp_all)
        then show "\<exists>s'. twi_isr base h (with_device d s3) = Some s' \<and> Q s'" using s'(1) by blast
      qed
    qed simp
  qed
qed

section \<open>Properties\<close>

text \<open>The channel as \<open>xfer\<close> leaves it when it waits, and a finished transfer: the ISR has put
  the channel to rest and set the event.\<close>

definition xfer_running :: "event_flags \<Rightarrow> twi_channel \<Rightarrow> twi_channel" where
  "xfer_running e c = c\<lparr>msg_idx := 0, msg_ptr := 0, ch_status := XferRunning, ch_event := e\<rparr>"

definition xfer_done :: "u32 \<Rightarrow> twi_handler \<Rightarrow> event_flags \<Rightarrow> twi_state \<Rightarrow> u8 list \<Rightarrow> twi_state \<Rightarrow> bool" where
  "xfer_done base h e s bs s' \<longleftrightarrow> sent_data base (trace (io s')) = sent_data base (trace (io s)) @ bs \<and>
     ch_status (channel h s') = XferIdle \<and> msg_idx (channel h s') = msg_num (channel h s') \<and>
     event_set TWI_WAKEUP_EVENT (twi_kernel (user s), e) = Some (twi_kernel (user s'), ch_event (channel h s'))"

lemma payload_messages:
  assumes "xfer_messages addr reg wd rbuf c0 = Inr (n, c)" "length (ch_msgs c0) = 2" "write_payload reg wd \<noteq> []"
  shows "length (write_payload reg wd) \<le> 256" "n = word_of_nat (length (write_payload reg wd))"
    "ch_msgs c ! 0 = Some \<lparr>msg_addr = addr, msg_read = False, msg_buf = WriteBuf, msg_len = word_of_nat (length (write_payload reg wd))\<rparr>"
    "take (length (write_payload reg wd)) (write_buf c) = write_payload reg wd" "length (ch_msgs c) = 2"
    "is_data rbuf \<Longrightarrow> msg_num c = 2 \<and> read_buf c = the rbuf \<and>
       ch_msgs c ! 1 = Some \<lparr>msg_addr = addr, msg_read = True, msg_buf = ReadBuf, msg_len = word_of_nat (length (the rbuf))\<rparr>"
    "\<not> is_data rbuf \<Longrightarrow> msg_num c = 1"
proof -
  have w: "reg \<noteq> None \<or> is_data wd" using assms(3) by (auto simp: write_payload_def is_data_def split: option.splits)
  then have l: "length (write_payload reg wd) \<le> 256"
    using assms(1) by (auto simp: xfer_messages_def Let_def split: if_splits)
  note c = assms(1) [unfolded xfer_messages_def Let_def]
  show "length (write_payload reg wd) \<le> 256" by (rule l)
  show "n = word_of_nat (length (write_payload reg wd))" "length (ch_msgs c) = 2"
    "take (length (write_payload reg wd)) (write_buf c) = write_payload reg wd"
    using c w l assms(2) by (auto split: if_splits)
  show "ch_msgs c ! 0 = Some \<lparr>msg_addr = addr, msg_read = False, msg_buf = WriteBuf, msg_len = word_of_nat (length (write_payload reg wd))\<rparr>"
    using c w l assms(2) by (auto split: if_splits)
  show "is_data rbuf \<Longrightarrow> msg_num c = 2 \<and> read_buf c = the rbuf \<and>
       ch_msgs c ! 1 = Some \<lparr>msg_addr = addr, msg_read = True, msg_buf = ReadBuf, msg_len = word_of_nat (length (the rbuf))\<rparr>"
    using c w l assms(2) by (auto simp: is_data_def split: if_splits option.splits)
  show "\<not> is_data rbuf \<Longrightarrow> msg_num c = 1" using c w l by (auto split: if_splits)
qed

text \<open>A write transfer.  When the device acknowledges its address and every byte, the
  interrupt routine always returns, the bytes on the bus are the address with the write
  bit, the register address if there is one, and the data, in order, and nothing else; the
  last acknowledge completes the transfer as a success and sets the event.\<close>

lemma write_rounds_done:
  assumes "twi_channel_for_base base = Some h" "write_payload reg wd = bs" "bs \<noteq> []"
    "xfer_messages addr reg wd None c0 = Inr (n, c)" "length (ch_msgs c0) = 2"
    "channel h s = xfer_running e c"
  shows "after_rounds base h (write_rounds bs) (xfer_done base h e s (push_bit 1 (addr AND 0x7F) # bs)) s"
proof -
  let ?msg = "\<lparr>msg_addr = addr, msg_read = False, msg_buf = WriteBuf, msg_len = word_of_nat (length bs)\<rparr>"
  note m = payload_messages [OF assms(4,5), unfolded assms(2), OF assms(3)]
  have one: "msg_num c = 1" using m(7) by (simp add: is_data_def)
  have cur: "current_msg (xfer_running e c) ?msg"
    using m(3,5) one by (simp add: current_msg_def xfer_running_def slice_get_def)
  have s: "session_at base h (xfer_running e c) (sent_data base (trace (io s))) (twi_kernel (user s)) s"
    unfolding session_at_def channel_is_def using assms(6) by (intro conjI exI [of _ "debug_state (xfer_running e c)"]) simp_all
  have "after_rounds base h (write_rounds bs @ []) (xfer_done base h e s (push_bit 1 (addr AND 0x7F) # bs)) s"
  proof (rule write_phase [OF assms(1) _ cur _ _ _ _ _ assms(3) _ s])
    fix s1 assume s1: "session_at base h ((xfer_running e c)\<lparr>msg_ptr := word_of_nat (length bs)\<rparr>)
      (sent_data base (trace (io s)) @ push_bit 1 (msg_addr ?msg AND 0x7F) # bs) (twi_kernel (user s)) s1"
    then obtain x where x: "channel h s1 = (xfer_running e c)\<lparr>msg_ptr := word_of_nat (length bs), debug_state := x\<rparr>"
      by (auto simp: session_at_def channel_is_def)
    have o: "sent_data base (trace (io s1)) = sent_data base (trace (io s)) @ push_bit 1 (addr AND 0x7F) # bs"
      "twi_kernel (user s1) = twi_kernel (user s)" using s1 by (simp_all add: session_at_def)
    have e: "ch_event (channel h s1) = e" using x by (simp add: xfer_running_def)
    show "after_rounds base h [(0x28, None)] (xfer_done base h e s (push_bit 1 (addr AND 0x7F) # bs)) s1"
      unfolding after_rounds.simps
    proof (intro allI impI)
      fix d assume d: "shows_status base 0x28 None d (trace (io s1))"
      have "completes base h 0x28 0 ((channel h s1)\<lparr>msg_idx := msg_num (channel h s1), msg_ptr := 0\<rparr>) s1 (twi_isr base h (with_device d s1))"
        by (rule step_complete [OF assms(1) d, of ?msg]) (use x cur one in \<open>simp_all add: xfer_running_def current_msg_def\<close>)
      then show "\<exists>s'. twi_isr base h (with_device d s1) = Some s' \<and> xfer_done base h e s (push_bit 1 (addr AND 0x7F) # bs) s'"
        by (rule completesE) (use o e in \<open>simp add: xfer_done_def\<close>)
    qed
  qed (use m(1,4) in \<open>simp_all add: xfer_running_def\<close>)
  then show ?thesis by simp
qed

text \<open>A register read: the write of the register address, a repeated START and a read
  into the buffer of the caller.  When the device acknowledges, the bytes on the bus are
  the address with the write bit, the bytes to write and the address with the read bit; the
  buffer then holds the bytes the device sent, in order, and the transfer is complete.\<close>

lemma register_rounds_done:
  assumes "twi_channel_for_base base = Some h" "write_payload reg wd = ws" "ws \<noteq> []"
    "xfer_messages addr reg wd (Some buf) c0 = Inr (n, c)" "length (ch_msgs c0) = 2"
    "length buf = length bs" "bs \<noteq> []" "length bs < 2 ^ 32" "channel h s = xfer_running e c"
  shows "after_rounds base h (write_rounds ws @ read_rounds 0x10 bs) (\<lambda>s'. read_buf (channel h s') = bs \<and>
    xfer_done base h e s (push_bit 1 (addr AND 0x7F) # ws @ [push_bit 1 (addr AND 0x7F) OR 1]) s') s"
    (is "after_rounds _ _ _ ?Q _")
proof -
  let ?a = "push_bit 1 (addr AND 0x7F)"
  let ?msg = "\<lparr>msg_addr = addr, msg_read = False, msg_buf = WriteBuf, msg_len = word_of_nat (length ws)\<rparr>"
  let ?rmsg = "\<lparr>msg_addr = addr, msg_read = True, msg_buf = ReadBuf, msg_len = word_of_nat (length bs)\<rparr>"
  note m = payload_messages [OF assms(4,5), unfolded assms(2), OF assms(3)]
  have "is_data (Some buf)" using assms(6,7) by (auto simp: is_data_def)
  from m(6) [OF this] have two: "msg_num c = 2" "read_buf c = buf" "ch_msgs c ! 1 = Some ?rmsg" using assms(6) by simp_all
  have cur: "current_msg (xfer_running e c) ?msg"
    using m(3,5) two(1) by (simp add: current_msg_def xfer_running_def slice_get_def)
  have s: "session_at base h (xfer_running e c) (sent_data base (trace (io s))) (twi_kernel (user s)) s"
    unfolding session_at_def channel_is_def using assms(9) by (intro conjI exI [of _ "debug_state (xfer_running e c)"]) simp_all
  show ?thesis
  proof (rule write_phase [OF assms(1) _ cur _ _ _ _ _ assms(3) _ s])
    fix s1 assume s1: "session_at base h ((xfer_running e c)\<lparr>msg_ptr := word_of_nat (length ws)\<rparr>)
      (sent_data base (trace (io s)) @ push_bit 1 (msg_addr ?msg AND 0x7F) # ws) (twi_kernel (user s)) s1"
    then obtain x where x: "channel h s1 = (xfer_running e c)\<lparr>msg_ptr := word_of_nat (length ws), debug_state := x\<rparr>"
      by (auto simp: session_at_def channel_is_def)
    let ?c = "(xfer_running e c)\<lparr>msg_idx := 1, msg_ptr := 0\<rparr>"
    let ?c1 = "(channel h s1)\<lparr>msg_idx := msg_idx (channel h s1) + 1, msg_ptr := 0\<rparr>"
    show "after_rounds base h ((0x28, None) # read_rounds 0x10 bs) ?Q s1"
    proof (rule next_round)
      fix d assume "shows_status base 0x28 None d (trace (io s1))"
      then show "goes_on base h 0x28 [] ?c1 s1 (twi_isr base h (with_device d s1))"
        by (rule step_restart [OF assms(1), where msg = ?msg]) (use x cur two(1) in \<open>simp_all add: xfer_running_def current_msg_def\<close>)
    next
      fix s2 assume "session_at base h ?c1 (sent_data base (trace (io s1)) @ []) (twi_kernel (user s1)) s2"
      then have s2: "session_at base h ?c (sent_data base (trace (io s)) @ ?a # ws) (twi_kernel (user s)) s2"
        using s1 x by (auto simp: session_at_def channel_is_def xfer_running_def)
      show "after_rounds base h (read_rounds 0x10 bs) ?Q s2"
        by (rule read_phase [OF assms(1) _ _ _ _ _ _ assms(8,7) _ _ _ s2, of ?rmsg])
          (use two m(5) assms(6) in \<open>simp_all add: xfer_running_def current_msg_def slice_get_def xfer_done_def\<close>)
    qed
  qed (use m(1,4) in \<open>simp_all add: xfer_running_def\<close>)
qed

definition i2c_example :: twi_state where
  "i2c_example = \<lparr>io = regs_of (\<lambda>_ v. v) (\<lambda>_. 0), interrupt_nest = 0, in_isr_flag = False, isr_table = (\<lambda>_. None),
     user = \<lparr>twi_kernel = three_up, twi0_ch = twi_channel_new, twi1_ch = twi_channel_new, twi2_ch = twi_channel_new\<rparr>\<rparr>"

text \<open>Reading two bytes from register 2 of the device \<open>0x15\<close> on TWI1.\<close>

definition register_channel :: twi_channel where
  "register_channel = (case xfer_messages 0x15 (Some 2) None (Some [0, 0]) twi_channel_new of Inr (n, c) \<Rightarrow> c | _ \<Rightarrow> twi_channel_new)"

lemma register_messages: "xfer_messages 0x15 (Some 2) None (Some [0, 0]) twi_channel_new = Inr (1, register_channel)"
  by (simp add: register_channel_def xfer_messages_def write_payload_def is_data_def Let_def)

text \<open>C38. Errors.  Whatever goes wrong on the bus (a missing acknowledge, a lost arbitration,
  an unexpected idle state), the routine completes the transfer, and \<open>xfer\<close> reports it as
  failed, with one exception: after a bus error, status \<open>0x00\<close>, the code \<open>-(state as i32)\<close> is
  0, the value for success, and \<open>xfer\<close> returns \<open>Ok\<close> with the full length.\<close>

theorem i2c_error_reported:
  assumes "twi_channel_for_base base = Some h" "current_msg (channel h s) msg" "shows_status base st b d (trace (io s))"
    "st \<in> {0x00, 0xF8, 0x20, 0x30, 0x38, 0x48, 0xD8}"
  shows "\<exists>s'. twi_isr base h (with_device d s) = Some s' \<and> ch_status (channel h s') = XferIdle \<and>
     sent_data base (trace (io s')) = sent_data base (trace (io s)) \<and>
     fst (xfer_finish base h count (Inr v) s') =
       (if st = 0 then case fst (twi_send_stop_and_wait base (io s')) of Inl e \<Rightarrow> Inl e | Inr _ \<Rightarrow> Inr count else Inl I2cFail)"
proof (cases "st = 0xF8 \<or> st = 0")
  case True
  obtain m where m: "sent_data base (trace m) = sent_data base (trace (io s))"
    "twi_isr base h (with_device d s) = map_option (\<lambda>s. if ch_status (channel h s) = XferRunning then on_io (twi_enable_irq base) s else s)
       (if st = 0xF8 \<or> st = 0 then twi_xfer_complete h (- ucast st) (s\<lparr>io := m\<rparr>)
        else map_option (change_channel h (\<lambda>c. c\<lparr>debug_state := st\<rparr>)) (twi_state_step base h st msg (s\<lparr>io := m\<rparr>)))"
    by (rule isr_entry [OF assms(1,3,2)])
  obtain s' where s': "twi_xfer_complete h (- ucast st) (s\<lparr>io := m\<rparr>) = Some s'" "ch_status (channel h s') = XferIdle"
    "msg_num (channel h s') = 0" "msg_idx (channel h s') = - ucast st" "io s' = m"
    by (rule complete_returns [of h "- ucast st" "s\<lparr>io := m\<rparr>"]) simp
  have "(- ucast st :: u32) = 0 \<longleftrightarrow> st = 0" using True by auto
  then show ?thesis using True m s'
    by (auto simp: xfer_finish_def Let_def split: prod.splits sum.splits)
next
  case False
  then have st: "st \<noteq> 0" "st \<noteq> 0xF8" by simp_all
  from isr_core [OF assms(1,3,2) st] obtain m where m: "sent_data base (trace m) = sent_data base (trace (io s))"
    "twi_isr base h (with_device d s) = map_option (isr_tail base h st) (twi_state_step base h st msg (s\<lparr>io := m\<rparr>))"
    by metis
  obtain code where e: "twi_state_step base h st msg (s\<lparr>io := m\<rparr>) = twi_xfer_complete h code (s\<lparr>io := m\<rparr>)" "code \<noteq> 0"
    using assms(4) st by (auto simp: twi_state_step_def)
  have "completes base h st code (channel h s) s (twi_isr base h (with_device d s))"
    unfolding m(2) e(1) by (rule tail_completes) (use m(1) in simp_all)
  then show ?thesis
    by (rule completesE) (use e(2) st in \<open>simp add: xfer_finish_def Let_def\<close>)
qed

theorem i2c_error_reported_witness:
  "\<exists>s'. twi_isr TWI1_BASE Twi1_isr (with_device (\<lambda>_ a. if a = TWI1_BASE + tw_CTL then ctl_INTFLG else 0)
      (set_channel Twi1_isr (xfer_running event_new register_channel) i2c_example)) = Some s' \<and>
    fst (xfer_finish TWI1_BASE Twi1_isr 2 (Inr 1) s') \<noteq> Inl I2cFail"
proof -
  let ?s = "set_channel Twi1_isr (xfer_running event_new register_channel) i2c_example"
    and ?d = "\<lambda>(_ :: access list) a. if a = TWI1_BASE + tw_CTL then ctl_INTFLG else 0"
  let ?msg = "\<lparr>msg_addr = 0x15, msg_read = False, msg_buf = WriteBuf, msg_len = 1\<rparr>"
  have h: "twi_channel_for_base TWI1_BASE = Some Twi1_isr" by (simp add: twi_channel_for_base_def TWI0_BASE_def TWI1_BASE_def)
  have c: "current_msg (channel Twi1_isr ?s) ?msg"
    by (simp add: current_msg_def xfer_running_def register_channel_def xfer_messages_def is_data_def
        write_payload_def twi_channel_new_def Let_def)
  have d: "shows_status TWI1_BASE 0 None ?d (trace (io ?s))"
    by (simp add: shows_status_def twi_regs ctl_INTFLG_def bitm_def)
  have stop: "fst (twi_send_stop_and_wait base m) = r \<Longrightarrow> r = Inr () \<or> r = Inl I2cStopFail" for base m r
    by (auto simp: twi_send_stop_and_wait_def Let_def split: prod.splits if_splits)
  from i2c_error_reported [OF h c d, of 2 1] show ?thesis
    by (fastforce split: sum.splits dest: stop)
qed

end
