(* ===== verification/I2c_Session.thy ===== *)
theory I2c_Session
  imports I2c_Props
begin

text \<open>
  Whole transfers of \<open>i2c.rs\<close>: the call of \<open>xfer\<close> with the interrupts of a device that
  acknowledges everything, from the checks to the STOP condition.  \<open>bus_session\<close> is that
  device: it answers a write with the statuses of an acknowledged message, and a repeated
  START with the bytes that \<open>answer\<close> gives for the bytes written before.
\<close>

section \<open>The device\<close>

text \<open>What the controller shows in one interrupt.\<close>

definition shown :: "u32 \<Rightarrow> u8 \<Rightarrow> u8 option \<Rightarrow> access list \<Rightarrow> u32 \<Rightarrow> u32" where
  "shown base st b = (\<lambda>tr a. if a = base + tw_CTL then ctl_INTFLG else if a = base + tw_STAT then ucast st
     else if a = base + tw_DATA then (case b of Some v \<Rightarrow> ucast v | None \<Rightarrow> 0) else 0)"

fun serve :: "u32 \<Rightarrow> twi_handler \<Rightarrow> (u8 \<times> u8 option) list \<Rightarrow> twi_state \<Rightarrow> twi_state option" where
  "serve base h [] s = Some s"
| "serve base h ((st, b) # rs) s = do { s \<leftarrow> twi_isr base h (with_device (shown base st b) s); serve base h rs s }"

text \<open>Between the transfers the bus shows \<open>q\<close>.\<close>

definition bus_session ::
  "u32 \<Rightarrow> twi_handler \<Rightarrow> (access list \<Rightarrow> u32 \<Rightarrow> u32) \<Rightarrow> (u8 list \<Rightarrow> nat \<Rightarrow> u8 list) \<Rightarrow> twi_state \<Rightarrow> twi_state option" where
  "bus_session base h q answer s = (let c = channel h s in case ch_msgs c ! 0 of
      None \<Rightarrow> None
    | Some msg \<Rightarrow>
        (let ws = take (unat (msg_len msg)) (write_buf c) in do {
           s \<leftarrow> serve base h (write_rounds ws @ (if msg_num c = 2 then read_rounds 0x10 (answer ws (length (read_buf c))) else [])) s;
           Some (with_device q s)
         }))"

definition idle_bus :: "u32 \<Rightarrow> (access list \<Rightarrow> u32 \<Rightarrow> u32) \<Rightarrow> bool" where
  "idle_bus base q \<longleftrightarrow> (\<forall>tr. q tr (base + tw_CTL) AND (ctl_STA OR ctl_STP) = 0 \<and>
     (ucast (q tr (base + tw_STAT) AND stat_MASK) :: u8) = stat_IDLE \<and> q tr (base + tw_LCR) = lcr_IDLE_STATUS) \<and>
     (\<forall>m. device32 m = q \<longrightarrow> (\<exists>m'. delay_us 100 m = Some m'))"

definition bus_at_rest :: "twi_handler \<Rightarrow> (access list \<Rightarrow> u32 \<Rightarrow> u32) \<Rightarrow> twi_state \<Rightarrow> bool" where
  "bus_at_rest h q s \<longleftrightarrow> device32 (io s) = q \<and> ch_status (channel h s) = XferIdle \<and>
     length (ch_msgs (channel h s)) = 2 \<and> ev_waiters (ch_event (channel h s)) = 0"

lemma shown_shows: "shows_status base st b (shown base st b) tr"
proof -
  have "(ucast ((ucast x :: u32) AND 0xFF) :: u8) = x" for x :: u8
  proof -
    have "unat (ucast x :: u32) < 2 ^ 8"
      using unsigned_less [where 'a = nat, of x] by (simp add: unsigned_ucast_eq take_bit_nat_eq_self)
    from and_mask_small [OF this] show ?thesis by (simp add: mask_eq_exp_minus_1 byte_of_word)
  qed
  moreover have "ctl_INTFLG \<noteq> 0" by (simp add: ctl_INTFLG_def bitm_def)
  ultimately show ?thesis by (auto simp: shows_status_def shown_def stat_MASK_def twi_regs)
qed

lemma after_rounds_serve: "after_rounds base h rs Q s \<Longrightarrow> \<exists>s'. serve base h rs s = Some s' \<and> Q s'"
proof (induction rs arbitrary: s)
  case (Cons r rs)
  obtain st b where r: "r = (st, b)" by force
  obtain s1 where "twi_isr base h (with_device (shown base st b) s) = Some s1" "after_rounds base h rs Q s1"
    using Cons.prems shown_shows unfolding r after_rounds.simps by blast
  then show ?case using Cons.IH by (simp add: r)
qed simp

section \<open>The parts of a transfer\<close>

lemma poll32_same: "poll32 a p m = Some m' \<Longrightarrow> same_sent base m m'"
proof (rule poll32.raw_induct [of "\<lambda>a p m m'. same_sent base m m'"])
  fix poll :: "u32 \<Rightarrow> (u32 \<Rightarrow> bool) \<Rightarrow> mmio \<Rightarrow> mmio option" and a p m y
  assume ih: "\<And>a p m y. poll a p m = Some y \<Longrightarrow> same_sent base m y"
    and e: "(let (v, m') = rd32 a m in if p v then Some m' else poll a p m') = Some y"
  obtain v m1 where r: "rd32 a m = (v, m1)" by force
  then have "same_sent base m m1" using same_sent_rd [of base m a] by simp
  then show "same_sent base m y"
    using e ih [of a p m1 y] same_sent_trans [of base m m1 y] by (auto simp: r split: if_splits)
qed

lemma delay_same: "base + tw_DATA \<noteq> TIMER_BASE + AVS_CNT0 \<Longrightarrow> delay_us n m = Some m' \<Longrightarrow> same_sent base m m'"
  unfolding delay_us_def by (rule same_sent_trans [OF same_sent_wr poll32_same]) auto

lemma same_sent_write: "off \<noteq> tw_DATA \<Longrightarrow> same_sent base m (twi_write base off v m)"
  by (simp add: twi_write_def same_sent_wr)

lemma same_sent_device: "same_sent base m m' \<Longrightarrow> device32 m' = device32 m"
  by (simp add: same_sent_def)

lemma xfer_check_passes:
  assumes "idle_bus base q" "bus_at_rest h q s" "base + tw_DATA \<noteq> TIMER_BASE + AVS_CNT0"
  obtains m where "xfer_check base h s = Some (Inr (), s\<lparr>io := m\<rparr>)" "same_sent base (io s) m"
proof -
  have srst: "tw_SRST \<noteq> tw_DATA" by (simp add: twi_regs)
  let ?m0 = "twi_soft_reset base (io s)"
  have m0: "same_sent base (io s) ?m0" unfolding twi_soft_reset_def by (rule same_sent_write [OF srst])
  obtain m1 where m1: "delay_us 100 ?m0 = Some m1"
    using assms(1,2) same_sent_device [OF m0] by (auto simp: idle_bus_def bus_at_rest_def)
  note k1 = same_sent_trans [OF m0 delay_same [OF assms(3) m1]]
  define m2 where "m2 = snd (poll_counted 0xFF (base + tw_SRST) (\<lambda>v. v AND 1 = 0) m1)"
  have k2: "same_sent base (io s) m2" unfolding m2_def by (rule same_sent_trans [OF k1 same_sent_wait])
  define m3 where "m3 = snd (twi_get_status base m2)"
  have k3: "same_sent base (io s) m3"
    unfolding m3_def twi_get_status_def split_beta Let_def snd_conv by (rule same_sent_trans [OF k2 same_sent_reg(2)])
  have "fst (twi_get_status base m2) = stat_IDLE"
    using assms(1,2) same_sent_device [OF k2]
    by (simp add: idle_bus_def bus_at_rest_def twi_get_status_def twi_read_def rd32_def Let_def)
  then have st: "twi_get_status base m2 = (stat_IDLE, m3)" by (simp add: m3_def prod_eq_iff)
  let ?m4 = "twi_disable_irq base (twi_enable_bus base m3)"
  have k4: "same_sent base (io s) ?m4"
    unfolding twi_enable_bus_def
    by (rule same_sent_trans [OF same_sent_trans [OF k3 same_sent_ctl] same_sent_disable])
  have "xfer_check base h s = Some (Inr (), s\<lparr>io := ?m4\<rparr>)"
    using assms(2) m1 st by (simp add: xfer_check_def bus_at_rest_def split_beta m2_def [symmetric])
  then show thesis using that k4 by blast
qed


lemma idle_reads:
  assumes "idle_bus base q" "device32 m = q"
  shows "drop_bit 5 (fst (rd32 (base + tw_CTL) m)) AND 1 = 0" "fst (rd32 (base + tw_CTL) m) AND ctl_STP = 0"
    "(ucast (fst (rd32 (base + tw_STAT) m) AND stat_MASK) :: u8) = stat_IDLE" "fst (rd32 (base + tw_LCR) m) = lcr_IDLE_STATUS"
proof -
  let ?v = "fst (rd32 (base + tw_CTL) m)"
  have z: "?v AND (ctl_STA OR ctl_STP) = 0" using assms by (simp add: idle_bus_def rd32_def Let_def)
  have b: "\<not> bit ?v i" if "i = 4 \<or> i = 5" for i
  proof
    assume "bit ?v i"
    then have "bit (?v AND (ctl_STA OR ctl_STP)) i" using that by (auto simp: bit_simps ctl_STA_def ctl_STP_def)
    then show False unfolding z by simp
  qed
  show "drop_bit 5 ?v AND 1 = 0" by (rule bit_word_eqI) (use b [of 5] in \<open>auto simp: bit_simps intro!: gr_zeroI\<close>)
  show "?v AND ctl_STP = 0" by (rule bit_word_eqI) (use b in \<open>auto simp: bit_simps ctl_STP_def\<close>)
  show "(ucast (fst (rd32 (base + tw_STAT) m) AND stat_MASK) :: u8) = stat_IDLE" "fst (rd32 (base + tw_LCR) m) = lcr_IDLE_STATUS"
    using assms by (simp_all add: idle_bus_def rd32_def Let_def)
qed

lemma start_seen:
  assumes "idle_bus base q" "device32 m = q"
  shows "twi_wait_start_clear base m = (Inr (), snd (rd32 (base + tw_CTL) m))"
proof -
  have "poll_counted 0xFF (base + tw_CTL) (\<lambda>v. drop_bit 5 v AND 1 = 0) m = (True, snd (rd32 (base + tw_CTL) m))"
    by (rule poll_counted_first) (use idle_reads(1) [OF assms] in simp_all)
  then show ?thesis by (simp add: twi_wait_start_clear_def)
qed

lemma stop_seen:
  assumes "idle_bus base q" "device32 m = q"
  obtains m' where "twi_send_stop_and_wait base m = (Inr (), m')" "same_sent base m m'"
proof -
  define m1 where "m1 = snd (twi_get_stop base (twi_clear_irq_flag base (twi_set_stop base m)))"
  have k1: "same_sent base m m1"
    unfolding m1_def twi_get_stop_def twi_set_stop_def split_beta Let_def snd_conv
    by (rule same_sent_trans [OF same_sent_trans [OF same_sent_ctl same_sent_clear] same_sent_reg(2)])
  define m2 where "m2 = snd (rd32 (base + tw_CTL) m1)"
  define m3 where "m3 = snd (rd32 (base + tw_STAT) m2)"
  define m4 where "m4 = snd (rd32 (base + tw_LCR) m3)"
  have k2: "same_sent base m m2" unfolding m2_def by (rule same_sent_trans [OF k1 same_sent_rd])
  have k3: "same_sent base m m3" unfolding m3_def by (rule same_sent_trans [OF k2 same_sent_rd])
  have k4: "same_sent base m m4" unfolding m4_def by (rule same_sent_trans [OF k3 same_sent_rd])
  note dev = same_sent_device [OF k1] same_sent_device [OF k2] same_sent_device [OF k3]
  have "poll_counted 0xFF (base + tw_CTL) (\<lambda>v. v AND ctl_STP = 0) m1 = (True, m2)"
    unfolding m2_def by (rule poll_counted_first) (use idle_reads(2) [OF assms(1)] dev assms(2) in simp_all)
  moreover have "poll_counted 0xFF (base + tw_STAT) (\<lambda>v. (ucast (v AND stat_MASK) :: u8) = stat_IDLE) m2 = (True, m3)"
    unfolding m3_def by (rule poll_counted_first) (use idle_reads(3) [OF assms(1)] dev assms(2) in simp_all)
  moreover have "poll_counted 0xFF (base + tw_LCR) (\<lambda>v. v = lcr_IDLE_STATUS) m3 = (True, m4)"
    unfolding m4_def by (rule poll_counted_first) (use idle_reads(4) [OF assms(1)] dev assms(2) in simp_all)
  ultimately have "twi_send_stop_and_wait base m = (Inr (), m4)"
    by (simp add: twi_send_stop_and_wait_def split_beta m1_def [symmetric])
  then show thesis using that k4 by blast
qed

lemma xfer_start_passes:
  assumes "idle_bus base q" "device32 (io s) = q" "ev_waiters (ch_event (channel h s)) = 0"
  obtains s' e where "xfer_start base h s = Some (Inr (), s')" "channel h s' = xfer_running e (channel h s)"
    "ev_waiters e = 0" "same_sent base (io s) (io s')"
proof -
  have efr: "tw_EFR \<noteq> tw_DATA" by (simp add: twi_regs)
  define k where "k = event_clear TWI_WAKEUP_EVENT (twi_kernel (user s), ch_event (channel h s))"
  define m1 where "m1 = twi_set_start base (twi_set_efr base 0 (twi_disable_ack base (twi_enable_irq base (io s))))"
  have irq: "same_sent base m (twi_enable_irq base m)" for m by (simp add: twi_enable_irq_def same_sent_ctl)
  have "same_sent base m (twi_set_efr base 0 m)" for m
    unfolding twi_set_efr_def split_beta Let_def
    by (rule same_sent_trans [OF same_sent_reg(2) same_sent_write [OF efr]])
  then have k1: "same_sent base (io s) m1"
    unfolding m1_def twi_set_start_def twi_disable_ack_def
    by (blast intro: same_sent_trans same_sent_ctl irq)
  have "device32 m1 = q" using same_sent_device [OF k1] assms(2) by simp
  note st = start_seen [OF assms(1) this]
  have "ev_waiters (snd k) = 0" using assms(3) by (simp add: k_def event_clear_def mask_kernel_def Let_def split: prod.splits)
  moreover have "\<exists>s'. xfer_start base h s = Some (Inr (), s') \<and> channel h s' = xfer_running (snd k) (channel h s) \<and>
      io s' = snd (rd32 (base + tw_CTL) m1)"
    using st by (cases h) (simp_all add: xfer_start_def on_event_def k_def split_beta m1_def [symmetric]
        change_channel_def xfer_running_def)
  ultimately show thesis using that same_sent_trans [OF k1 same_sent_rd] by metis
qed

lemma event_set_alone:
  assumes "ev_waiters e = 0" "event_set f (k, e) = Some (k', e')"
  shows "e' = e\<lparr>ev_flags := ev_flags e OR f\<rparr>"
  using assms by (auto simp: event_set_def check_waiters_def check_loop.simps split: prod.splits)

text \<open>The event is set already: the wait returns at once.\<close>

lemma xfer_wait_passes:
  assumes "ev_flags (ch_event (channel h s)) AND TWI_WAKEUP_EVENT \<noteq> 0" "ev_waiters (ch_event (channel h s)) = 0"
  obtains v e s' where "xfer_wait run h s = Some (Inr v, s')" "channel h s' = (channel h s)\<lparr>ch_event := e\<rparr>"
    "ev_waiters e = 0" "io s' = io s"
proof -
  let ?ke = "(twi_kernel (user s), ch_event (channel h s))"
  obtain v k e where w: "event_wait_enter TWI_WAKEUP_EVENT OrMode True (Some 10000) ?ke = Some (Inl (Inr v), k, e)"
    "ev_waiters e = 0"
    using assms by (cases "mask_kernel (twi_kernel (user s))") (auto simp: event_wait_enter_def condition_met_def Let_def)
  have "\<exists>s'. xfer_wait run h s = Some (Inr v, s') \<and> channel h s' = (channel h s)\<lparr>ch_event := e\<rparr> \<and> io s' = io s"
    using w(1) by (cases h) (simp_all add: xfer_wait_def on_event_def change_channel_def)
  then show thesis using that w(2) by blast
qed

lemma xfer_finish_passes:
  assumes "idle_bus base q" "device32 (io s) = q" "msg_idx (channel h s) = msg_num (channel h s)"
  obtains s' where "xfer_finish base h count (Inr v) s = (Inr count, s')" "channel h s' = channel_reset (channel h s)"
    "same_sent base (io s) (io s')"
proof -
  obtain m' where m': "twi_send_stop_and_wait base (io s) = (Inr (), m')" "same_sent base (io s) m'"
    by (rule stop_seen [OF assms(1,2)])
  have "\<exists>s'. xfer_finish base h count (Inr v) s = (Inr count, s') \<and> channel h s' = channel_reset (channel h s) \<and> io s' = m'"
    using m'(1) assms(3) by (simp add: xfer_finish_def Let_def)
  then show thesis using that m'(2) by blast
qed

section \<open>A transfer\<close>

lemma data_not_timer: "twi_channel_for_base base = Some h \<Longrightarrow> base + tw_DATA \<noteq> TIMER_BASE + AVS_CNT0"
  by (auto simp: twi_channel_for_base_def twi_regs TWI0_BASE_def TWI1_BASE_def TWI2_BASE_def TIMER_BASE_def AVS_CNT0_def
      split: if_splits)

lemma messages_event: "xfer_messages addr reg wd rbuf c0 = Inr (n, c) \<Longrightarrow> ch_event c = ch_event c0"
  by (auto simp: xfer_messages_def Let_def split: if_splits)

definition serves :: "u32 \<Rightarrow> twi_handler \<Rightarrow> (access list \<Rightarrow> u32 \<Rightarrow> u32) \<Rightarrow> (twi_state \<Rightarrow> twi_state option) \<Rightarrow>
    twi_channel \<Rightarrow> u8 list \<Rightarrow> u8 list option \<Rightarrow> bool" where
  "serves base h q irqs c out l \<longleftrightarrow> (\<forall>s e. channel h s = xfer_running e c \<longrightarrow> (\<exists>s'. irqs s = Some s' \<and>
     device32 (io s') = q \<and> xfer_done base h e s out s' \<and> (\<forall>bs. l = Some bs \<longrightarrow> read_buf (channel h s') = bs)))"

lemma transfer_passes:
  assumes "twi_channel_for_base (tw_base t) = Some h" "idle_bus (tw_base t) q" "bus_at_rest h q s"
    "xfer_messages addr reg wd rbuf (channel h s) = Inr (n, c)" "serves (tw_base t) h q irqs c out l" "l = None \<longleftrightarrow> rbuf = None"
  shows "\<exists>s'. twi_xfer irqs run t addr reg wd rbuf s = Some ((Inr (case rbuf of Some b \<Rightarrow> if b = [] then n else word_of_nat (length b) | None \<Rightarrow> n),
      l), s') \<and> bus_at_rest h q s' \<and>
    sent_data (tw_base t) (trace (io s')) = sent_data (tw_base t) (trace (io s)) @ out"
proof -
  let ?b = "tw_base t"
  obtain m1 where m1: "xfer_check ?b h s = Some (Inr (), s\<lparr>io := m1\<rparr>)" "same_sent ?b (io s) m1"
    by (rule xfer_check_passes [OF assms(2,3) data_not_timer [OF assms(1)]])
  let ?s1 = "set_channel h c (s\<lparr>io := m1\<rparr>)"
  have q: "device32 (io s) = q" using assms(3) by (simp add: bus_at_rest_def)
  have "device32 (io ?s1) = q" "ev_waiters (ch_event (channel h ?s1)) = 0"
    using same_sent_device [OF m1(2)] q assms(3) messages_event [OF assms(4)] by (simp_all add: bus_at_rest_def)
  from xfer_start_passes [OF assms(2) this] obtain s2 e where s2: "xfer_start ?b h ?s1 = Some (Inr (), s2)"
    "channel h s2 = xfer_running e c" "ev_waiters e = 0" "same_sent ?b m1 (io s2)" by auto
  obtain s3 where s3: "irqs s2 = Some s3" "device32 (io s3) = q" "xfer_done ?b h e s2 out s3" "\<forall>bs. l = Some bs \<longrightarrow> read_buf (channel h s3) = bs"
    using assms(5) s2(2) unfolding serves_def by blast
  have ev: "ch_event (channel h s3) = e\<lparr>ev_flags := ev_flags e OR TWI_WAKEUP_EVENT\<rparr>"
    using s3(3) s2(3) unfolding xfer_done_def by (blast intro: event_set_alone)
  have "(ev_flags e OR TWI_WAKEUP_EVENT) AND TWI_WAKEUP_EVENT = TWI_WAKEUP_EVENT"
    by (rule bit_word_eqI) (auto simp: bit_simps)
  moreover have "TWI_WAKEUP_EVENT \<noteq> 0" by (simp add: TWI_WAKEUP_EVENT_def bitm_def)
  ultimately have "ev_flags (ch_event (channel h s3)) AND TWI_WAKEUP_EVENT \<noteq> 0" "ev_waiters (ch_event (channel h s3)) = 0"
    using ev s2(3) by simp_all
  then obtain v e' s4 where s4: "xfer_wait run h s3 = Some (Inr v, s4)" "channel h s4 = (channel h s3)\<lparr>ch_event := e'\<rparr>"
    "ev_waiters e' = 0" "io s4 = io s3" by (rule xfer_wait_passes)
  have dn: "device32 (io s4) = q" "msg_idx (channel h s4) = msg_num (channel h s4)"
    using s3 s4 by (simp_all add: xfer_done_def)
  let ?n = "case rbuf of Some b \<Rightarrow> if b = [] then n else word_of_nat (length b) | None \<Rightarrow> n"
  obtain s5 where s5: "xfer_finish ?b h ?n (Inr v) s4 = (Inr ?n, s5)" "channel h s5 = channel_reset (channel h s4)"
    "same_sent ?b (io s4) (io s5)" by (rule xfer_finish_passes [OF assms(2) dn])
  have "map_option (\<lambda>_. read_buf (channel h s5)) rbuf = l"
    using assms(6) s3(4) s4(2) s5(2) by (cases l) (auto simp: channel_reset_def)
  then have "twi_xfer irqs run t addr reg wd rbuf s = Some ((Inr ?n, l), s5)"
    using assms(1,4) m1(1) s2(1) s3(1) s4(1) s5(1) by (simp add: twi_xfer_def)
  moreover have "bus_at_rest h q s5"
    using s5(2,3) s4(2-4) dn(1) by (simp add: bus_at_rest_def channel_reset_def same_sent_def)
  moreover have "sent_data ?b (trace (io s5)) = sent_data ?b (trace (io s)) @ out"
    using m1(2) s2(4) s3(3) s4(4) s5(3) by (simp add: same_sent_def xfer_done_def)
  ultimately show ?thesis by blast
qed

text \<open>The device serves a write, and a register read.\<close>

lemma session_serves:
  assumes "twi_channel_for_base base = Some h" "ws \<noteq> []"
    "xfer_messages addr reg wd rbuf c0 = Inr (n, c)" "write_payload reg wd = ws" "length (ch_msgs c0) = 2"
    "\<And>s e. channel h s = xfer_running e c \<Longrightarrow> after_rounds base h (write_rounds ws @
       (if msg_num c = 2 then read_rounds 0x10 (answer ws (length (read_buf c))) else []))
       (\<lambda>s'. (\<forall>bs. l = Some bs \<longrightarrow> read_buf (channel h s') = bs) \<and> xfer_done base h e s out s') s"
  shows "serves base h q (bus_session base h q answer) c out l"
  unfolding serves_def
proof (intro allI impI)
  fix s e assume c: "channel h s = xfer_running e c"
  note m = payload_messages [OF assms(3,5), unfolded assms(4), OF assms(2)]
  have "ch_msgs (channel h s) ! 0 = Some \<lparr>msg_addr = addr, msg_read = False, msg_buf = WriteBuf, msg_len = word_of_nat (length ws)\<rparr>"
    "take (unat (word_of_nat (length ws) :: u32)) (write_buf (channel h s)) = ws"
    using c m(1,3,4) by (simp_all add: xfer_running_def unat_of_nat_u32)
  moreover obtain s' where s': "serve base h (write_rounds ws @ (if msg_num c = 2 then read_rounds 0x10 (answer ws (length (read_buf c))) else [])) s = Some s'"
    "\<forall>bs. l = Some bs \<longrightarrow> read_buf (channel h s') = bs" "xfer_done base h e s out s'"
    using after_rounds_serve [OF assms(6) [OF c]] by blast
  moreover have "msg_num (channel h s) = msg_num c" "read_buf (channel h s) = read_buf c" using c by (simp_all add: xfer_running_def)
  ultimately have "bus_session base h q answer s = Some (with_device q s')"
    unfolding bus_session_def Let_def by (simp only: option.case twi_msg.simps bind.bind_lunit)
  moreover have "\<forall>bs. l = Some bs \<longrightarrow> read_buf (channel h (with_device q s')) = bs" "xfer_done base h e s out (with_device q s')"
    using s'(2,3) by (simp_all add: with_device_def xfer_done_def)
  ultimately show "\<exists>s'. bus_session base h q answer s = Some s' \<and> device32 (io s') = q \<and> xfer_done base h e s out s' \<and>
      (\<forall>bs. l = Some bs \<longrightarrow> read_buf (channel h s') = bs)"
    by (intro exI [of _ "with_device q s'"] conjI) (simp_all add: with_device_def)
qed

section \<open>An example\<close>

text \<open>A controller at rest: idle status and lines, and a delay counter that has reached 100.\<close>

definition quiet_bus :: "u32 \<Rightarrow> access list \<Rightarrow> u32 \<Rightarrow> u32" where
  "quiet_bus base = (\<lambda>tr a. if a = base + tw_STAT then 0xF8 else if a = base + tw_LCR then lcr_IDLE_STATUS
     else if a = TIMER_BASE + AVS_CNT0 then 100 else 0)"

lemma quiet_idle: "idle_bus TWI1_BASE (quiet_bus TWI1_BASE)"
proof -
  have "\<exists>m'. delay_us 100 m = Some m'" if "device32 m = quiet_bus TWI1_BASE" for m
  proof -
    have "100 \<le> fst (rd32 (TIMER_BASE + AVS_CNT0) (wr32 (TIMER_BASE + AVS_CNT0) 0 m))"
      using that by (simp add: rd32_def wr32_def Let_def quiet_bus_def TWI1_BASE_def twi_regs TIMER_BASE_def AVS_CNT0_def)
    then show ?thesis unfolding delay_us_def by (simp add: poll32_first)
  qed
  then show ?thesis
    by (simp add: idle_bus_def quiet_bus_def twi_regs TWI1_BASE_def TIMER_BASE_def AVS_CNT0_def stat_IDLE_def stat_MASK_def)
qed

definition resting_twi :: twi_state where
  "resting_twi = with_device (quiet_bus TWI1_BASE) i2c_example"

lemma resting_at_rest: "bus_at_rest Twi1_isr (quiet_bus TWI1_BASE) resting_twi"
  by (simp add: bus_at_rest_def resting_twi_def with_device_def i2c_example_def twi_channel_new_def event_new_def)

lemma resting_sent: "sent_data base (trace (io resting_twi)) = []"
  by (simp add: resting_twi_def with_device_def i2c_example_def regs_of_def)

lemma twi1_channel: "twi_channel_for_base TWI1_BASE = Some Twi1_isr"
  by (simp add: twi_channel_for_base_def TWI0_BASE_def TWI1_BASE_def)

text \<open>A device of registers: the answer to a register number is what follows from there.\<close>

definition register_bytes :: "(u8 \<Rightarrow> u8) \<Rightarrow> u8 list \<Rightarrow> nat \<Rightarrow> u8 list" where
  "register_bytes regs ws n = map (\<lambda>i. regs (ws ! 0 + word_of_nat i)) [0..<n]"

lemma length_register_bytes [simp]: "length (register_bytes regs ws n) = n"
  by (simp add: register_bytes_def)

section \<open>Properties\<close>

lemma write_messages:
  assumes "ws \<noteq> []" "length ws \<le> 256" "write_payload reg wd = ws" "rbuf = None \<or> (\<exists>b. rbuf = Some b \<and> b \<noteq> [])"
  obtains c where "xfer_messages addr reg wd rbuf c0 = Inr (word_of_nat (length ws), c)"
proof -
  have "reg \<noteq> None \<or> is_data wd"
    using assms(1,3) by (auto simp: write_payload_def is_data_def split: option.splits)
  then show thesis using that assms(2,3) by (auto simp: xfer_messages_def Let_def)
qed

lemma register_read_ends:
  assumes "twi_channel_for_base (tw_base t) = Some h" "idle_bus (tw_base t) q" "bus_at_rest h q s"
    "buf \<noteq> []" "length buf < 2 ^ 32" "length (answer [r] (length buf)) = length buf"
  shows "\<exists>s'. twi_write_read (bus_session (tw_base t) h q answer) run t addr r buf s =
      Some ((Inr (word_of_nat (length buf)), Some (answer [r] (length buf))), s') \<and> bus_at_rest h q s' \<and>
    sent_data (tw_base t) (trace (io s')) = sent_data (tw_base t) (trace (io s)) @
      [push_bit 1 (addr AND 0x7F), r, push_bit 1 (addr AND 0x7F) OR 1]"
proof -
  let ?b = "tw_base t" and ?bs = "answer [r] (length buf)"
  have w: "write_payload (Some r) None = [r]" by (simp add: write_payload_def)
  have two: "length (ch_msgs (channel h s)) = 2" using assms(3) by (simp add: bus_at_rest_def)
  have ne: "[r] \<noteq> []" "length [r] \<le> 256" "?bs \<noteq> []" using assms(4,6) by auto
  obtain c where c: "xfer_messages addr (Some r) None (Some buf) (channel h s) = Inr (word_of_nat (length [r]), c)"
    using write_messages [OF ne(1,2) w, of "Some buf" addr "channel h s"] assms(4) by blast
  have "is_data (Some buf)" using assms(4) by (simp add: is_data_def)
  note m = payload_messages(6) [OF c two, unfolded w, OF ne(1) this]
  have lb: "length buf = length ?bs" "length ?bs < 2 ^ 32" using assms(5,6) by simp_all
  have "serves ?b h q (bus_session ?b h q answer) c [push_bit 1 (addr AND 0x7F), r, push_bit 1 (addr AND 0x7F) OR 1] (Some ?bs)"
  proof (rule session_serves [OF assms(1) ne(1) c w two])
    fix s e assume ch: "channel h s = xfer_running e c"
    from register_rounds_done [OF assms(1) w ne(1) c two lb(1) ne(3) lb(2) ch] show "after_rounds ?b h (write_rounds [r] @
       (if msg_num c = 2 then read_rounds 0x10 (answer [r] (length (read_buf c))) else []))
       (\<lambda>s'. (\<forall>bs. Some ?bs = Some bs \<longrightarrow> read_buf (channel h s') = bs) \<and> xfer_done ?b h e s [push_bit 1 (addr AND 0x7F), r, push_bit 1 (addr AND 0x7F) OR 1] s') s"
      using m by simp
  qed
  from transfer_passes [OF assms(1-3) c this] show ?thesis
    using assms(4) by (simp add: twi_write_read_def)
qed

lemma write_ends:
  assumes "twi_channel_for_base (tw_base t) = Some h" "idle_bus (tw_base t) q" "bus_at_rest h q s"
    "write_payload reg (Some d) = ws" "ws \<noteq> []" "length ws \<le> 256"
  shows "\<exists>s'. twi_write_data (bus_session (tw_base t) h q answer) run t addr reg d s =
      Some ((Inr (word_of_nat (length ws)), None), s') \<and> bus_at_rest h q s' \<and>
    sent_data (tw_base t) (trace (io s')) = sent_data (tw_base t) (trace (io s)) @ push_bit 1 (addr AND 0x7F) # ws"
proof -
  let ?b = "tw_base t"
  have two: "length (ch_msgs (channel h s)) = 2" using assms(3) by (simp add: bus_at_rest_def)
  obtain c where c: "xfer_messages addr reg (Some d) None (channel h s) = Inr (word_of_nat (length ws), c)"
    using write_messages [OF assms(5,6,4), of None addr "channel h s"] by blast
  have "msg_num c = 1" using payload_messages(7) [OF c two] assms(4,5) by (simp add: is_data_def)
  note m = this
  have "serves ?b h q (bus_session ?b h q answer) c (push_bit 1 (addr AND 0x7F) # ws) None"
  proof (rule session_serves [OF assms(1,5) c assms(4) two])
    fix s e assume ch: "channel h s = xfer_running e c"
    show "after_rounds ?b h (write_rounds ws @ (if msg_num c = 2 then read_rounds 0x10 (answer ws (length (read_buf c))) else []))
       (\<lambda>s'. (\<forall>bs. None = Some bs \<longrightarrow> read_buf (channel h s') = bs) \<and> xfer_done ?b h e s (push_bit 1 (addr AND 0x7F) # ws) s') s"
      using write_rounds_done [OF assms(1,4,5) c two ch] m by simp
  qed
  from transfer_passes [OF assms(1-3) c this] show ?thesis by (simp add: twi_write_data_def)
qed






end
