(* ===== verification/I2c_Safety.thy ===== *)
theory I2c_Safety
  imports I2c_Session
begin

text \<open>
  Memory safety of the interrupt routine of \<open>i2c.rs\<close>: a typing of the channels that every
  operation of the driver keeps, and progress of the routine in a typed state, whatever the
  controller and the devices on the bus show.
\<close>

section \<open>Typed channels\<close>

text \<open>The message fits in the buffer its pointer was made from.\<close>

definition msg_fits :: "twi_channel \<Rightarrow> twi_msg \<Rightarrow> bool" where
  "msg_fits c msg \<longleftrightarrow> unat (msg_len msg) \<le> length (case msg_buf msg of WriteBuf \<Rightarrow> write_buf c | ReadBuf \<Rightarrow> read_buf c)"

lemma msg_fits_simps [simp]:
  "msg_fits (c\<lparr>ch_event := e\<rparr>) = msg_fits c" "msg_fits (c\<lparr>debug_state := st\<rparr>) = msg_fits c"
  "msg_fits (c\<lparr>msg_ptr := p\<rparr>) = msg_fits c" "msg_fits (c\<lparr>msg_idx := p\<rparr>) = msg_fits c"
  "msg_fits (c\<lparr>ch_status := x\<rparr>) = msg_fits c"
  "msg_fits (c\<lparr>write_buf := (write_buf c)[i := b]\<rparr>) = msg_fits c" "msg_fits (c\<lparr>read_buf := (read_buf c)[i := b]\<rparr>) = msg_fits c"
  by (rule ext, simp add: msg_fits_def split: twi_buf.splits)+

text \<open>The messages counted by \<open>msg_num\<close> exist and fit, and the pointer is inside the one in
  progress; an idle channel has none.\<close>

definition channel_ok :: "twi_channel \<Rightarrow> bool" where
  "channel_ok c \<longleftrightarrow> length (ch_msgs c) = 2 \<and> msg_num c \<le> 2 \<and>
     (\<forall>i < unat (msg_num c). \<exists>msg. ch_msgs c ! i = Some msg \<and> msg_fits c msg) \<and>
     (msg_idx c < msg_num c \<longrightarrow> (\<forall>msg. ch_msgs c ! unat (msg_idx c) = Some msg \<longrightarrow> msg_ptr c \<le> msg_len msg)) \<and>
     (ch_status c = XferIdle \<longrightarrow> msg_num c = 0)"

lemma channel_new_ok: "channel_ok twi_channel_new"
  by (simp add: channel_ok_def twi_channel_new_def)

lemma channel_reset_ok: "channel_ok (channel_reset c)"
  by (simp add: channel_ok_def channel_reset_def)

lemma channel_event_ok [simp]: "channel_ok (c\<lparr>ch_event := e\<rparr>) = channel_ok c" "channel_ok (c\<lparr>debug_state := st\<rparr>) = channel_ok c"
  by (simp_all add: channel_ok_def)

lemma channel_complete_ok:
  "channel_ok (c\<lparr>ch_event := e, ch_msgs := [None, None], msg_num := 0, msg_ptr := 0, ch_status := XferIdle, msg_idx := i\<rparr>)"
  by (simp add: channel_ok_def)

lemma index_in:
  fixes i n :: u32
  assumes "i < n" "n \<le> 2" shows "unat i < 2" "unat i < unat n" "unat (i + 1) = Suc (unat i)"
proof -
  have "unat i < unat n" "unat n \<le> 2" using assms by (simp_all add: word_less_nat_alt word_le_nat_alt)
  then show "unat i < 2" "unat i < unat n" "unat (i + 1) = Suc (unat i)" by (simp_all add: unat_word_ariths)
qed

text \<open>The message in progress of a typed channel.\<close>

lemma current_fits:
  assumes "channel_ok c" "msg_idx c < msg_num c"
  obtains msg where "slice_get (ch_msgs c) (unat (msg_idx c)) = Some (Some msg)" "msg_fits c msg" "msg_ptr c \<le> msg_len msg"
    "ch_status c \<noteq> XferIdle"
proof -
  note i = index_in [OF assms(2)]
  from assms obtain msg where m: "ch_msgs c ! unat (msg_idx c) = Some msg" "msg_fits c msg"
    unfolding channel_ok_def using i by blast
  moreover have "length (ch_msgs c) = 2" "msg_num c \<le> 2" "msg_ptr c \<le> msg_len msg" "ch_status c \<noteq> XferIdle"
    using assms m by (auto simp: channel_ok_def)
  ultimately show thesis using that i by (simp add: slice_get_def)
qed

text \<open>Inside the message, reading and writing through the pointer are defined; both leave a
  typed channel.\<close>

lemma ptr_next:
  fixes p n :: u32
  assumes "p < n" shows "p + 1 \<le> n" using assms by (rule inc_le)

lemma buf_get_inside: "msg_fits c msg \<Longrightarrow> msg_ptr c < msg_len msg \<Longrightarrow> \<exists>b. buf_get msg c = Some b"
  by (auto simp: buf_get_def slice_get_def msg_fits_def word_less_nat_alt split: twi_buf.splits)

lemma buf_put_inside:
  assumes "msg_fits c msg" "msg_ptr c < msg_len msg"
  obtains c' where "buf_put msg b c = Some c'" "\<And>m. msg_fits c' m = msg_fits c m" "ch_msgs c' = ch_msgs c"
    "msg_idx c' = msg_idx c" "msg_num c' = msg_num c" "msg_ptr c' = msg_ptr c" "ch_status c' = ch_status c"
proof (cases "msg_buf msg")
  case WriteBuf
  then have "buf_put msg b c = Some (c\<lparr>write_buf := (write_buf c)[unat (msg_ptr c) := b]\<rparr>)"
    using assms by (simp add: buf_put_def slice_set_def msg_fits_def word_less_nat_alt)
  then show thesis by (rule that) simp_all
next
  case ReadBuf
  then have "buf_put msg b c = Some (c\<lparr>read_buf := (read_buf c)[unat (msg_ptr c) := b]\<rparr>)"
    using assms by (simp add: buf_put_def slice_set_def msg_fits_def word_less_nat_alt)
  then show thesis by (rule that) simp_all
qed

lemma ptr_step_ok:
  assumes "channel_ok c" "slice_get (ch_msgs c) (unat (msg_idx c)) = Some (Some msg)" "msg_ptr c < msg_len msg"
    "msg_idx c < msg_num c"
  shows "channel_ok (c\<lparr>msg_ptr := msg_ptr c + 1\<rparr>)"
  using assms ptr_next [OF assms(3)] by (auto simp: channel_ok_def slice_get_def split: if_splits)

lemma same_shape_ok:
  assumes "channel_ok c" "\<And>m. msg_fits c' m = msg_fits c m" "ch_msgs c' = ch_msgs c"
    "msg_idx c' = msg_idx c" "msg_num c' = msg_num c" "msg_ptr c' = msg_ptr c" "ch_status c' = ch_status c"
  shows "channel_ok c'"
  using assms by (simp add: channel_ok_def)

section \<open>Typed states\<close>

definition channels_ok :: "twi_state \<Rightarrow> bool" where "channels_ok s \<longleftrightarrow> (\<forall>h. channel_ok (channel h s))"

text \<open>An operation returns and leaves typed channels.\<close>

definition types_on :: "twi_state option \<Rightarrow> bool" where "types_on r \<longleftrightarrow> (\<exists>s'. r = Some s' \<and> channels_ok s')"

lemma channel_set_other: "h' \<noteq> h \<Longrightarrow> channel h' (set_channel h c s) = channel h' s"
  by (cases h; cases h'; simp)

lemma channel_kernel: "channel h' (s\<lparr>user := (user s)\<lparr>twi_kernel := k\<rparr>\<rparr>) = channel h' s"
  by (cases h') simp_all

lemma channels_ok_io [simp]: "channels_ok (s\<lparr>io := m\<rparr>) = channels_ok s" "channels_ok (on_io f s) = channels_ok s"
  "channels_ok (with_device d s) = channels_ok s"
  by (simp_all add: channels_ok_def with_device_def)

lemma set_channel_ok: "channels_ok s \<Longrightarrow> channel_ok c \<Longrightarrow> channels_ok (set_channel h c s)"
  unfolding channels_ok_def by (metis channel_set_other channel_simps(2))

lemma change_channel_ok: "channels_ok s \<Longrightarrow> channel_ok (f (channel h s)) \<Longrightarrow> channels_ok (change_channel h f s)"
  by (simp add: change_channel_def set_channel_ok)

lemma channels_okD: "channels_ok s \<Longrightarrow> channel_ok (channel h s)" by (simp add: channels_ok_def)

lemma on_event_ok: "channels_ok s \<Longrightarrow> on_event h f s = Some (r, s') \<Longrightarrow> channels_ok s'"
proof -
  assume ok: "channels_ok s" and e: "on_event h f s = Some (r, s')"
  from e obtain k e where "s' = change_channel h (\<lambda>c. c\<lparr>ch_event := e\<rparr>) (s\<lparr>user := (user s)\<lparr>twi_kernel := k\<rparr>\<rparr>)"
    by (auto simp: on_event_def split: Option.bind_splits)
  moreover have "channels_ok (s\<lparr>user := (user s)\<lparr>twi_kernel := k\<rparr>\<rparr>)" using ok by (simp add: channels_ok_def channel_kernel)
  ultimately show ?thesis using channels_okD [OF ok, of h] by (auto intro!: change_channel_ok)
qed

lemma complete_ok: "(\<forall>h'. h' \<noteq> h \<longrightarrow> channel_ok (channel h' s)) \<Longrightarrow> types_on (twi_xfer_complete h code s)"
proof -
  assume ok: "\<forall>h'. h' \<noteq> h \<longrightarrow> channel_ok (channel h' s)"
  let ?s = "change_channel h (\<lambda>c. c\<lparr>ch_msgs := [None, None], msg_num := 0, msg_ptr := 0, ch_status := XferIdle,
       msg_idx := (if code \<noteq> 0 then code else 0)\<rparr>) s"
  have "channel_ok (channel h ?s)" by (simp add: channel_ok_def)
  then have "channels_ok ?s" unfolding channels_ok_def
    using ok by (metis change_channel_def channel_set_other)
  moreover obtain s' where s': "twi_xfer_complete h code s = Some s'" by (rule complete_returns [of h code s])
  ultimately show ?thesis unfolding types_on_def s'
    using s' by (auto simp: twi_xfer_complete_def Let_def split: Option.bind_splits intro: on_event_ok)
qed

lemma complete_ok': "channels_ok s \<Longrightarrow> types_on (twi_xfer_complete h code s)"
  by (rule complete_ok) (simp add: channels_ok_def)

lemma types_on_Some [simp]: "types_on (Some s) = channels_ok s" by (simp add: types_on_def)

lemma types_on_map: "types_on r \<Longrightarrow> (\<And>s. channels_ok s \<Longrightarrow> channels_ok (f s)) \<Longrightarrow> types_on (r \<bind> (\<lambda>s. Some (f s)))"
  by (auto simp: types_on_def)

section \<open>The interrupt routine\<close>

lemma advance_ok:
  assumes "channels_ok s" "msg_idx (channel h s) < msg_num (channel h s)"
  shows "types_on (twi_advance base h s)"
proof -
  let ?c = "channel h s" and ?s = "change_channel h (\<lambda>c. c\<lparr>msg_idx := msg_idx c + 1, msg_ptr := 0\<rparr>) s"
  have "channel_ok ?c" using assms(1) by (rule channels_okD)
  then have "channel_ok (?c\<lparr>msg_idx := msg_idx ?c + 1, msg_ptr := 0\<rparr>)"
    by (auto simp: channel_ok_def)
  then have "channels_ok ?s" using assms(1) by (simp add: change_channel_ok)
  then show ?thesis by (simp add: twi_advance_def Let_def complete_ok')
qed

lemma send_data_ok:
  assumes "channels_ok s" "msg_idx (channel h s) < msg_num (channel h s)"
    "slice_get (ch_msgs (channel h s)) (unat (msg_idx (channel h s))) = Some (Some msg)" "msg_fits (channel h s) msg"
  shows "types_on (twi_send_data base h msg s)"
proof (cases "msg_ptr (channel h s) < msg_len msg")
  case True
  from buf_get_inside [OF assms(4) True] obtain b where "buf_get msg (channel h s) = Some b" by blast
  with True show ?thesis
    using ptr_step_ok [OF channels_okD [OF assms(1)] assms(3) True assms(2)] assms(1)
    by (simp add: twi_send_data_def Let_def change_channel_ok)
next
  case False
  then show ?thesis using assms by (simp add: twi_send_data_def Let_def advance_ok)
qed

lemma received_ok:
  assumes "channels_ok s" "msg_idx (channel h s) < msg_num (channel h s)"
    "slice_get (ch_msgs (channel h s)) (unat (msg_idx (channel h s))) = Some (Some msg)" "msg_fits (channel h s) msg"
  shows "types_on (twi_received base h msg s)"
proof (cases "msg_ptr (channel h s) < msg_len msg")
  case True
  let ?c = "channel h s"
  let ?m = "if msg_ptr ?c + 2 = msg_len msg then twi_disable_ack base (io s) else io s"
  obtain b m where b: "twi_get_byte base ?m = (b, m)" by fastforce
  from buf_put_inside [OF assms(4) True, of b] obtain c' where c': "buf_put msg b ?c = Some c'"
    "\<And>m. msg_fits c' m = msg_fits ?c m" "ch_msgs c' = ch_msgs ?c"
    "msg_idx c' = msg_idx ?c" "msg_num c' = msg_num ?c" "msg_ptr c' = msg_ptr ?c" "ch_status c' = ch_status ?c" by blast
  have "channel_ok c'" by (rule same_shape_ok [OF channels_okD [OF assms(1), of h] c'(2-)])
  then have "channel_ok (c'\<lparr>msg_ptr := msg_ptr c' + 1\<rparr>)"
    by (rule ptr_step_ok [where msg = msg]) (use assms True c' in simp_all)
  then show ?thesis using True b c' assms(1)
    by (simp add: twi_received_def Let_def set_channel_ok)
next
  case False
  then show ?thesis using assms by (simp add: twi_received_def Let_def complete_ok')
qed

lemma received_last_ok:
  assumes "channels_ok s" "msg_idx (channel h s) < msg_num (channel h s)" "msg_ptr (channel h s) \<le> msg_len msg"
    "slice_get (ch_msgs (channel h s)) (unat (msg_idx (channel h s))) = Some (Some msg)" "msg_fits (channel h s) msg"
  shows "types_on (twi_received_last base h msg s)"
proof (cases "msg_ptr (channel h s) = msg_len msg - 1")
  case True
  let ?c = "channel h s"
  have "msg_ptr ?c < msg_len msg"
  proof (cases "msg_len msg = 0")
    case z: True
    then have "msg_ptr ?c = 0" "msg_ptr ?c = - 1" using assms(3) True by simp_all
    then show ?thesis by simp
  next
    case False
    then show ?thesis using True by (metis word_not_simps(1) measure_unat word_less_nat_alt)
  qed
  obtain b m where b: "twi_get_last_byte base (io s) = (b, m)" by fastforce
  from buf_put_inside [OF assms(5) \<open>msg_ptr ?c < msg_len msg\<close>, of b] obtain c' where c': "buf_put msg b ?c = Some c'"
    "\<And>m. msg_fits c' m = msg_fits ?c m" "ch_msgs c' = ch_msgs ?c"
    "msg_idx c' = msg_idx ?c" "msg_num c' = msg_num ?c" "msg_ptr c' = msg_ptr ?c" "ch_status c' = ch_status ?c" by blast
  have "channel_ok c'" by (rule same_shape_ok [OF channels_okD [OF assms(1), of h] c'(2-)])
  then show ?thesis using True b c' assms(1,2)
    by (simp add: twi_received_last_def Let_def set_channel_ok advance_ok)
next
  case False
  then show ?thesis using assms by (simp add: twi_received_last_def Let_def complete_ok')
qed

lemma state_step_ok:
  assumes "channels_ok s" "msg_idx (channel h s) < msg_num (channel h s)" "msg_ptr (channel h s) \<le> msg_len msg"
    "slice_get (ch_msgs (channel h s)) (unat (msg_idx (channel h s))) = Some (Some msg)" "msg_fits (channel h s) msg"
  shows "types_on (twi_state_step base h state msg s)"
  using assms by (simp add: twi_state_step_def complete_ok' send_data_ok received_ok received_last_ok)

lemma core_process_ok:
  assumes "channels_ok s" "twi_channel_for_base base = Some h"
  shows "types_on (twi_core_process base s)"
proof -
  obtain st m where st: "twi_get_status base (io s) = (st, m)" by fastforce
  let ?s = "s\<lparr>io := m\<rparr>"
  have ok: "channels_ok ?s" using assms(1) by simp
  show ?thesis
  proof (cases "msg_idx (channel h ?s) < msg_num (channel h ?s)")
    case True
    from current_fits [OF channels_okD [OF ok] True] obtain msg where
      m: "slice_get (ch_msgs (channel h ?s)) (unat (msg_idx (channel h ?s))) = Some (Some msg)" "msg_fits (channel h ?s) msg"
        "msg_ptr (channel h ?s) \<le> msg_len msg" by blast
    note step = state_step_ok [OF ok True m(3,1,2), of base st]
    have "types_on (twi_state_step base h st msg ?s \<bind> (\<lambda>s. Some (change_channel h (\<lambda>c. c\<lparr>debug_state := st\<rparr>) s)))"
      by (rule types_on_map [OF step]) (simp add: change_channel_ok channels_okD)
    then show ?thesis using True m(1) st assms ok
      by (auto simp: twi_core_process_def Let_def complete_ok' not_le)
  next
    case False
    then have "msg_num (channel h ?s) \<le> msg_idx (channel h ?s)" by simp
    then show ?thesis using st assms by (simp add: twi_core_process_def Let_def complete_ok')
  qed
qed

lemma isr_ok:
  assumes "channels_ok s" "twi_channel_for_base base = Some h"
  shows "types_on (twi_isr base h s)"
proof -
  obtain flag m where f: "twi_query_irq_flag base (io s) = (flag, m)" by fastforce
  let ?s = "on_io (twi_disable_irq base) (s\<lparr>io := m\<rparr>)"
  have "types_on (twi_core_process base ?s)" using assms by (simp add: core_process_ok)
  then have "types_on (twi_core_process base ?s \<bind>
      (\<lambda>s. Some (if ch_status (channel h s) = XferRunning then on_io (twi_enable_irq base) s else s)))"
    by (rule types_on_map) simp
  then show ?thesis using f assms by (simp add: twi_isr_def Let_def)
qed

lemma invoke_ok: "channels_ok s \<Longrightarrow> types_on (twi_invoke h v s)"
  by (cases h) (simp_all add: isr_ok twi_channel_for_base_def TWI0_BASE_def TWI1_BASE_def TWI2_BASE_def)

section \<open>Steps of the driver\<close>

text \<open>What can happen to the controller and the channels: the bus and the devices change, an
  interrupt is served, and the parts of \<open>xfer\<close>.  The interrupt of a channel is off between the
  checks of a transfer and its START.\<close>

inductive twi_step :: "twi_state \<Rightarrow> twi_state \<Rightarrow> bool" where
  Bus: "twi_step s (with_device d s)"
| Interrupt: "twi_invoke h v s = Some s' \<Longrightarrow> twi_step s s'"
| Refused: "xfer_check base h s = Some (Inl res, s') \<Longrightarrow> twi_step s s'"
| Nothing: "xfer_check base h s = Some (Inr (), s') \<Longrightarrow>
    xfer_messages addr reg_addr write_data rbuf (channel h s') = Inl res \<Longrightarrow> twi_step s s'"
| Begin: "xfer_check base h s = Some (Inr (), s1) \<Longrightarrow>
    xfer_messages addr reg_addr write_data rbuf (channel h s1) = Inr (n, c) \<Longrightarrow>
    xfer_start base h (set_channel h c s1) = Some (res, s') \<Longrightarrow> twi_step s s'"
| Wait: "on_event h (event_wait_enter TWI_WAKEUP_EVENT OrMode True (Some 10000)) s = Some (res, s') \<Longrightarrow> twi_step s s'"
| Woken: "on_event h (event_wait_resume i TWI_WAKEUP_EVENT True) s = Some (res', s') \<Longrightarrow> twi_step s s'"
| Finish: "xfer_finish base h count result s = (res'', s') \<Longrightarrow> twi_step s s'"

lemma xfer_check_ok:
  assumes "channels_ok s" "xfer_check base h s = Some (r, s')"
  shows "channels_ok s'"
  using assms by (auto simp: xfer_check_def Let_def split: if_splits prod.splits Option.bind_splits)

lemma messages_ok:
  assumes "channel_ok c0" "xfer_messages addr reg_addr write_data rbuf c0 = Inr (n, c)"
  shows "channel_ok (c\<lparr>msg_idx := 0, msg_ptr := 0, ch_status := XferRunning\<rparr>)"
proof -
  let ?p = "write_payload reg_addr write_data" and ?r = "case rbuf of Some b \<Rightarrow> b | None \<Rightarrow> []"
  have l: "length (ch_msgs c0) = 2" using assms(1) by (simp add: channel_ok_def)
  then obtain x y where xy: "ch_msgs c0 = [x, y]" by (auto simp: numeral_2_eq_2 length_Suc_conv)
  have u: "unat (word_of_nat k :: u32) \<le> k" for k by (simp add: unat_of_nat)
  have fits: "msg_fits d \<lparr>msg_addr = addr, msg_read = False, msg_buf = WriteBuf, msg_len = word_of_nat (length ?p)\<rparr>"
    if "write_buf d = ?p @ z" for d z using u [of "length ?p"] that by (simp add: msg_fits_def)
  have fitr: "msg_fits d \<lparr>msg_addr = addr, msg_read = True, msg_buf = ReadBuf, msg_len = word_of_nat (length ?r)\<rparr>"
    if "read_buf d = ?r" for d using u [of "length ?r"] that by (simp add: msg_fits_def)
  show ?thesis using assms(2) xy fits fitr
    by (auto simp: xfer_messages_def Let_def channel_ok_def dest!: less_2_cases split: if_splits)
qed

lemma xfer_start_ok:
  assumes "channels_ok s" "channel_ok (c\<lparr>msg_idx := 0, msg_ptr := 0, ch_status := XferRunning\<rparr>)"
    "xfer_start base h (set_channel h c s) = Some (r, s')"
  shows "channels_ok s'"
proof -
  let ?s = "change_channel h (\<lambda>c. c\<lparr>msg_idx := 0, msg_ptr := 0, ch_status := XferRunning\<rparr>) (set_channel h c s)"
  have s: "channels_ok ?s" using assms(1,2) by (simp add: change_channel_def set_channel_ok)
  have "channels_ok s2 \<Longrightarrow> channels_ok (change_channel h channel_reset s2)" for s2
    by (simp add: change_channel_ok channel_reset_ok)
  with assms(3) show ?thesis
    by (auto simp: xfer_start_def Let_def split: Option.bind_splits prod.splits sum.splits dest!: on_event_ok [OF s])
qed

lemma xfer_finish_ok: "channels_ok s \<Longrightarrow> xfer_finish base h count result s = (r, s') \<Longrightarrow> channels_ok s'"
  by (auto simp: xfer_finish_def Let_def change_channel_ok channel_reset_ok split: if_splits prod.splits sum.splits)

theorem twi_step_ok: "twi_step s s' \<Longrightarrow> channels_ok s \<Longrightarrow> channels_ok s'"
proof (induction rule: twi_step.induct)
  case (Interrupt h v s s') then show ?case using invoke_ok [of s h v] by (simp add: types_on_def)
next
  case (Begin base h s s1 addr reg_addr write_data rbuf n c res s')
  have "channels_ok s1" using Begin xfer_check_ok by blast
  with Begin messages_ok xfer_start_ok show ?case by (metis channels_okD)
qed (auto intro: xfer_check_ok on_event_ok xfer_finish_ok)

lemma twi_steps_ok: "twi_step\<^sup>*\<^sup>* s s' \<Longrightarrow> channels_ok s \<Longrightarrow> channels_ok s'"
  by (induction rule: rtranclp_induct) (auto intro: twi_step_ok)

text \<open>A whole transfer is made of these steps, when what happens while it waits is.\<close>

lemma transfer_is_steps:
  assumes "twi_xfer irqs run t addr reg_addr write_data rbuf s = Some (r, s')"
    and "\<And>s s'. irqs s = Some s' \<Longrightarrow> twi_step\<^sup>*\<^sup>* s s'" "\<And>s s'. run s = Some s' \<Longrightarrow> twi_step\<^sup>*\<^sup>* s s'"
  shows "twi_step\<^sup>*\<^sup>* s s'"
proof -
  let ?base = "tw_base t"
  have wait: "twi_step\<^sup>*\<^sup>* s2 s3" if "xfer_wait run h s2 = Some (res, s3)" for h s2 s3 res
  proof -
    have res: "twi_step\<^sup>*\<^sup>* s4 s5" if "resume_with run sw s4 = Some s5" for sw s4 s5
      using that assms(3) by (auto simp: resume_with_def split: if_splits)
    from that show ?thesis
      by (auto simp: xfer_wait_def split: Option.bind_splits prod.splits sum.splits
          intro: rtranclp.rtrancl_into_rtrancl rtranclp_trans [OF converse_rtranclp_into_rtranclp [OF Wait res]] Wait Woken)
  qed
  from assms(1) obtain h r1 s1 where h: "twi_channel_for_base ?base = Some h" and c: "xfer_check ?base h s = Some (r1, s1)"
    by (auto simp: twi_xfer_def Let_def split: Option.bind_splits)
  show ?thesis
  proof (cases r1)
    case (Inl e) then show ?thesis using assms(1) h c Refused by (auto simp: twi_xfer_def Let_def)
  next
    case (Inr u)
    note c = c [unfolded Inr old.unit.exhaust]
    show ?thesis
    proof (cases "xfer_messages addr reg_addr write_data rbuf (channel h s1)")
      case (Inl e) then show ?thesis using assms(1) h c Inr Nothing by (auto simp: twi_xfer_def Let_def)
    next
      case m: (Inr nc)
      obtain n c' where nc: "nc = (n, c')" by force
      from assms(1) h c m nc obtain r2 s2 where s2: "xfer_start ?base h (set_channel h c' s1) = Some (r2, s2)"
        by (auto simp: twi_xfer_def Let_def split: Option.bind_splits)
      have b: "twi_step s s2" using Begin c m nc s2 by auto
      show ?thesis
      proof (cases r2)
        case (Inl e) then show ?thesis using assms(1) h c m nc s2 b by (auto simp: twi_xfer_def Let_def)
      next
        case (Inr u')
        with assms(1) h c m nc s2 obtain s3 res s4 count res'' where s3: "irqs s2 = Some s3" "xfer_wait run h s3 = Some (res, s4)"
            "xfer_finish ?base h count res s4 = (res'', s')"
          by (auto simp: twi_xfer_def Let_def split: Option.bind_splits prod.splits)
        from s3(3) have "twi_step s4 s'" by (rule Finish)
        with b assms(2) [OF s3(1)] wait [OF s3(2)] show ?thesis
          by (meson converse_rtranclp_into_rtranclp rtranclp.rtrancl_into_rtrancl rtranclp_trans)
      qed
    qed
  qed
qed

lemma serve_is_steps:
  assumes "twi_channel_for_base base = Some h" "serve base h rs s = Some s'" shows "twi_step\<^sup>*\<^sup>* s s'"
  using assms(2)
proof (induction rs arbitrary: s)
  case (Cons r rs)
  obtain st b where r: "r = (st, b)" by force
  from Cons.prems obtain s1 where s1: "twi_isr base h (with_device (shown base st b) s) = Some s1" "serve base h rs s1 = Some s'"
    by (auto simp: r split: Option.bind_splits)
  have "\<exists>v. twi_invoke h v (with_device (shown base st b) s) = Some s1"
    using s1(1) assms(1) by (cases h) (auto simp: twi_channel_for_base_def split: if_splits)
  then show ?case using Cons.IH [OF s1(2)] Bus Interrupt by (meson converse_rtranclp_into_rtranclp)
qed simp

section \<open>Progress\<close>

text \<open>C4. The interrupt routine of the I2C driver is memory safe whatever is on the bus: after any
  sequence of transfers, interrupts, wake-ups and timeouts, with controller and devices that
  answer anything at any time, an interrupt of any channel neither panics nor reads or writes
  outside the buffer of the message in progress, and leaves every channel typed: its
  messages fit in their buffers, and its pointer is inside the message.\<close>

theorem twi_interrupts_type_safe:
  assumes "\<forall>h. channel h s0 = twi_channel_new" "twi_step\<^sup>*\<^sup>* s0 s"
  shows "\<exists>s'. twi_invoke h v (with_device d s) = Some s' \<and> (\<forall>h'. channel_ok (channel h' s'))"
proof -
  have "channels_ok s0" using assms(1) by (simp add: channels_ok_def channel_new_ok)
  with assms(2) have "channels_ok s" by (rule twi_steps_ok)
  then have "types_on (twi_invoke h v (with_device d s))" by (simp add: invoke_ok)
  then show ?thesis by (simp add: types_on_def channels_ok_def)
qed

text \<open>In the middle of a transfer the controller reports a byte received, though the message is
  one to write.\<close>

theorem twi_interrupts_type_safe_witness:
  "\<exists>s s'. ch_status (channel Twi1_isr s) = XferRunning \<and> ch_msgs (channel Twi1_isr s) = ch_msgs register_channel \<and>
     twi_invoke Twi1_isr 8 (with_device (shown TWI1_BASE 0x50 (Some 9)) s) = Some s' \<and> channel_ok (channel Twi1_isr s')"
proof -
  obtain m where m: "xfer_check TWI1_BASE Twi1_isr resting_twi = Some (Inr (), resting_twi\<lparr>io := m\<rparr>)"
      "same_sent TWI1_BASE (io resting_twi) m"
    using xfer_check_passes [OF quiet_idle resting_at_rest]
    by (metis data_not_timer twi1_channel)
  let ?s1 = "resting_twi\<lparr>io := m\<rparr>" let ?s2 = "set_channel Twi1_isr register_channel ?s1"
  have new: "\<forall>h. channel h resting_twi = twi_channel_new"
    by (rule allI, case_tac h) (simp_all add: resting_twi_def with_device_def i2c_example_def)
  have dev: "device32 (io ?s2) = quiet_bus TWI1_BASE" using m(2) resting_at_rest
    by (simp add: bus_at_rest_def same_sent_device [OF m(2)])
  have w: "ev_waiters (ch_event (channel Twi1_isr ?s2)) = 0"
    using messages_event [OF register_messages] by (simp add: twi_channel_new_def event_new_def)
  obtain s e where s: "xfer_start TWI1_BASE Twi1_isr ?s2 = Some (Inr (), s)"
      "channel Twi1_isr s = xfer_running e (channel Twi1_isr ?s2)"
    using xfer_start_passes [OF quiet_idle dev w] by metis
  have "twi_step resting_twi s"
    by (rule Begin [OF m(1) _ s(1)]) (use register_messages new in simp)
  then have "twi_step\<^sup>*\<^sup>* resting_twi s" by blast
  from twi_interrupts_type_safe [OF new this, of Twi1_isr 8] obtain s' where
    "twi_invoke Twi1_isr 8 (with_device (shown TWI1_BASE 0x50 (Some 9)) s) = Some s'" "channel_ok (channel Twi1_isr s')" by blast
  with s(2) show ?thesis by (intro exI [of _ s] exI [of _ s']) (simp add: xfer_running_def)
qed

end
