(* ===== verification/Context.thy ===== *)
theory Context
  imports Thread Memory Interrupt
begin

text \<open>
  The context switch at the level of the registers: \<open>asm/context.s\<close>, the exception wrappers
  at the end of \<open>asm/startup.s\<close> and the frames of \<open>stack_init\<close>.  Stack pointer, link register and
  saved status are banked by the mode; \<open>r0\<close> to \<open>r12\<close> are those that the modes share (the FIQ
  wrapper, whose \<open>r8\<close> to \<open>r12\<close> are its own, touches only the lower ones).  What the compiled
  handlers do is an argument of the wrappers.
\<close>

section \<open>Registers and stacks\<close>

record core =
  gpr :: "u32 list" \<comment> \<open>\<open>r0\<close> to \<open>r12\<close>\<close>
  bank_sp :: "u32 \<Rightarrow> u32"
  bank_lr :: "u32 \<Rightarrow> u32"
  bank_spsr :: "u32 \<Rightarrow> u32"
  core_pc :: u32
  core_cpsr :: u32
  core_mem :: memory

definition core_mode :: "core \<Rightarrow> u32" where "core_mode c = core_cpsr c AND MODE_MASK"

definition get_sp :: "core \<Rightarrow> u32" where "get_sp c = bank_sp c (core_mode c)"
definition set_sp :: "u32 \<Rightarrow> core \<Rightarrow> core" where "set_sp a c = c\<lparr>bank_sp := (bank_sp c)(core_mode c := a)\<rparr>"
definition get_lr :: "core \<Rightarrow> u32" where "get_lr c = bank_lr c (core_mode c)"
definition set_lr :: "u32 \<Rightarrow> core \<Rightarrow> core" where "set_lr v c = c\<lparr>bank_lr := (bank_lr c)(core_mode c := v)\<rparr>"
definition get_spsr :: "core \<Rightarrow> u32" where "get_spsr c = bank_spsr c (core_mode c)"
definition set_spsr :: "u32 \<Rightarrow> core \<Rightarrow> core" where "set_spsr v c = c\<lparr>bank_spsr := (bank_spsr c)(core_mode c := v)\<rparr>"
definition set_reg :: "nat \<Rightarrow> u32 \<Rightarrow> core \<Rightarrow> core" where "set_reg i v c = c\<lparr>gpr := (gpr c)[i := v]\<rparr>"
definition store :: "u32 \<Rightarrow> u32 \<Rightarrow> core \<Rightarrow> core" where "store a v c = c\<lparr>core_mem := st32 (core_mem c) a v\<rparr>"

text \<open>\<open>stm\<close> and \<open>ldm\<close>: the words from an address up.\<close>

fun stm :: "u32 \<Rightarrow> u32 list \<Rightarrow> memory \<Rightarrow> memory" where
  "stm a [] m = m"
| "stm a (v # vs) m = stm (a + 4) vs (st32 m a v)"

fun ldm :: "u32 \<Rightarrow> nat \<Rightarrow> memory \<Rightarrow> u32 list" where
  "ldm a 0 m = []"
| "ldm a (Suc n) m = ld32 m a # ldm (a + 4) n m"

text \<open>\<open>stmfd sp!\<close> and \<open>ldmfd sp!\<close>.\<close>

definition stmfd :: "u32 list \<Rightarrow> core \<Rightarrow> core" where
  "stmfd ws c = (let a = get_sp c - 4 * word_of_nat (length ws) in set_sp a (c\<lparr>core_mem := stm a ws (core_mem c)\<rparr>))"

definition ldmfd :: "nat \<Rightarrow> core \<Rightarrow> u32 list \<times> core" where
  "ldmfd n c = (ldm (get_sp c) n (core_mem c), set_sp (get_sp c + 4 * word_of_nat n) c)"

section \<open>Switches\<close>

text \<open>The end of every switch: the stack pointer from the thread at \<open>a\<close>, the status word through
  \<open>r4\<close> into the saved status, then \<open>ldmfd sp!, {r0-r12, lr, pc}^\<close>.\<close>

definition switch_in :: "u32 \<Rightarrow> core \<Rightarrow> core" where
  "switch_in a c = (let
     c = set_sp (ld32 (core_mem c) a) c;
     (ws, c) = ldmfd 1 c;
     c = set_reg 4 (ws ! 0) c;
     c = set_spsr (gpr c ! 4) c;
     (ws, c) = ldmfd 15 c;
     c = set_lr (ws ! 13) (c\<lparr>gpr := take 13 ws\<rparr>)
   in c\<lparr>core_pc := ws ! 14, core_cpsr := get_spsr c\<rparr>)"

text \<open>\<open>r0\<close> points to the stack pointer of the thread that leaves, \<open>r1\<close> to that of the next.\<close>

definition switch_out :: "core \<Rightarrow> core" where
  "switch_out c = (let
     c = stmfd [get_lr c] c;
     c = stmfd (gpr c @ [get_lr c]) c;
     c = set_reg 4 (core_cpsr c AND NOT 0x80) c;
     c = stmfd [gpr c ! 4] c
   in store (gpr c ! 0) (get_sp c) c)"

definition asm_context_switch :: "core \<Rightarrow> core" where
  "asm_context_switch c = (let c = switch_out c in switch_in (gpr c ! 1) c)"

definition asm_context_switch_to :: "core \<Rightarrow> core" where
  "asm_context_switch_to c = switch_in (gpr c ! 0) c"

record switch_words =
  switch_interrupt_flag :: u32
  interrupt_from_thread :: u32
  interrupt_to_thread :: u32

text \<open>The return to the caller is \<open>bx lr\<close>.\<close>

definition asm_context_switch_interrupt :: "switch_words \<Rightarrow> core \<Rightarrow> core" where
  "asm_context_switch_interrupt w c = (let
     c = set_reg 2 (switch_interrupt_flag w) c;
     c = set_reg 3 (ld32 (core_mem c) (gpr c ! 2)) c;
     c = (if gpr c ! 3 = 1 then c else (let
         c = set_reg 3 1 c;
         c = store (gpr c ! 2) (gpr c ! 3) c;
         c = set_reg 2 (interrupt_from_thread w) c
       in store (gpr c ! 2) (gpr c ! 0) c));
     c = set_reg 2 (interrupt_to_thread w) c;
     c = store (gpr c ! 2) (gpr c ! 1) c
   in c\<lparr>core_pc := get_lr c\<rparr>)"

section \<open>Interrupt wrappers\<close>

text \<open>\<open>irq_context_switch\<close>: the part up to the change to supervisor mode, with the address of the
  flag in \<open>r0\<close>, and the part up to the loading of the next stack pointer, which leaves its
  address in \<open>r6\<close>.\<close>

definition irq_to_svc :: "core \<Rightarrow> core" where
  "irq_to_svc c = (let
     c = set_reg 1 0 c;
     c = store (gpr c ! 0) (gpr c ! 1) c;
     c = set_reg 1 (get_sp c) c;
     c = set_sp (get_sp c + 4 * 4) c;
     (ws, c) = ldmfd 10 c;
     c = set_lr (ws ! 9) (c\<lparr>gpr := take 4 (gpr c) @ take 9 ws\<rparr>);
     c = set_reg 0 (get_spsr c) c;
     c = set_reg 2 (get_lr c - 4) c
   in c\<lparr>core_cpsr := msr_cpsr_c 0xD3 (core_cpsr c)\<rparr>)"

definition irq_switch_out :: "switch_words \<Rightarrow> core \<Rightarrow> core" where
  "irq_switch_out w c = (let
     c = irq_to_svc c;
     c = stmfd [gpr c ! 2] c;
     c = stmfd (drop 4 (gpr c) @ [get_lr c]) c;
     c = c\<lparr>gpr := gpr c ! 0 # ldm (gpr c ! 1) 4 (core_mem c) @ drop 5 (gpr c)\<rparr>;
     c = stmfd (take 4 (drop 1 (gpr c))) c;
     c = stmfd [gpr c ! 0] c;
     c = set_reg 4 (interrupt_from_thread w) c;
     c = set_reg 5 (ld32 (core_mem c) (gpr c ! 4)) c;
     c = store (gpr c ! 5) (get_sp c) c;
     c = set_reg 6 (interrupt_to_thread w) c
   in set_reg 6 (ld32 (core_mem c) (gpr c ! 6)) c)"

definition irq_return :: "core \<Rightarrow> core" where
  "irq_return c = (let
     (ws, c) = ldmfd 14 c;
     c = set_lr (ws ! 13) (c\<lparr>gpr := take 13 ws\<rparr>)
   in c\<lparr>core_pc := get_lr c - 4, core_cpsr := get_spsr c\<rparr>)"

text \<open>\<open>trap\<close> is the call of \<open>trap_irq\<close>.\<close>

definition asm_irq :: "switch_words \<Rightarrow> (core \<Rightarrow> core) \<Rightarrow> core \<Rightarrow> core" where
  "asm_irq w trap c = (let
     c = stmfd (gpr c @ [get_lr c]) c;
     c = trap c;
     c = set_reg 0 (switch_interrupt_flag w) c;
     c = set_reg 1 (ld32 (core_mem c) (gpr c ! 0)) c
   in if gpr c ! 1 = 1 then (let c = irq_switch_out w c in switch_in (gpr c ! 6) c) else irq_return c)"

definition asm_fiq :: "(core \<Rightarrow> core) \<Rightarrow> core \<Rightarrow> core" where
  "asm_fiq trap c = (let
     c = set_lr (get_lr c - 4) c;
     c = stmfd (take 8 (gpr c) @ [get_lr c]) c;
     c = trap c;
     (ws, c) = ldmfd 9 c;
     c = set_lr (ws ! 8) (c\<lparr>gpr := take 8 ws @ drop 8 (gpr c)\<rparr>)
   in c\<lparr>core_pc := get_lr c - 4, core_cpsr := get_spsr c\<rparr>)"

section \<open>Fault wrappers\<close>

text \<open>\<open>push_svc_reg\<close>: the frame of 17 words whose address is passed in \<open>r0\<close>.\<close>

definition push_svc_reg :: "core \<Rightarrow> core" where
  "push_svc_reg c = (let
     c = set_sp (get_sp c - 17 * 4) c;
     c = c\<lparr>core_mem := stm (get_sp c) (gpr c) (core_mem c)\<rparr>;
     c = set_reg 0 (get_sp c) c;
     c = set_reg 6 (get_spsr c) c;
     c = store (gpr c ! 0 + 15 * 4) (get_lr c) c;
     c = store (gpr c ! 0 + 16 * 4) (gpr c ! 6) c;
     c = store (gpr c ! 0 + 13 * 4) (get_sp c) c
   in store (gpr c ! 0 + 14 * 4) (get_lr c) c)"

text \<open>The frame that the handler, which does not return, is given: \<open>n\<close> is 4, or 8 for a data abort.\<close>

definition exception_frame :: "u32 \<Rightarrow> core \<Rightarrow> core" where
  "exception_frame n c = push_svc_reg (set_lr (get_lr c - n) c)"

definition trap_frame_at :: "u32 \<Rightarrow> memory \<Rightarrow> trap_frame" where
  "trap_frame_at a m = \<lparr>tf_regs = ldm a 13 m, tf_sp = ld32 m (a + 13 * 4), tf_lr = ld32 m (a + 14 * 4),
     tf_pc = ld32 m (a + 15 * 4), tf_cpsr = ld32 m (a + 16 * 4)\<rparr>"

section \<open>The first frame of a thread\<close>

definition stack_init :: "u32 \<Rightarrow> u32 \<Rightarrow> u32 \<Rightarrow> usize \<Rightarrow> u32 \<Rightarrow> memory \<Rightarrow> u32 \<times> memory" where
  "stack_init entry parameter base len exit_fn m = (let frame = stack_frame base len in
     (frame, stm frame ([0x13, parameter] @ replicate 12 0 @ [exit_fn, entry]) m))"

end
