(* ===== verification/Context_Props.thy ===== *)
theory Context_Props
  imports Context
begin

text \<open>
  Properties of the context switch: a thread that was preempted or gave the processor away
  finds its registers, stack pointer and status again when any switch resumes it; the
  first switch to a new thread enters its function; and what the FIQ wrapper does to the
  return address.
\<close>

section \<open>Words in a row\<close>

text \<open>\<open>m\<close> words from \<open>a\<close> and \<open>n\<close> words from \<open>b\<close> do not overlap, nor reach the end of memory.\<close>

definition clear :: "u32 \<Rightarrow> nat \<Rightarrow> u32 \<Rightarrow> nat \<Rightarrow> bool" where
  "clear a m b n \<longleftrightarrow> unat a + 4 * m < 2 ^ 32 \<and> unat b + 4 * n < 2 ^ 32 \<and> (unat a + 4 * m \<le> unat b \<or> unat b + 4 * n \<le> unat a)"

lemma clear_sym: "clear a m b n = clear b n a m" by (auto simp: clear_def)

lemma unat_next: "unat a + 4 * Suc n < 2 ^ 32 \<Longrightarrow> unat ((a :: u32) + 4) = unat a + 4"
  by (subst unat_plus_u32) simp_all

lemma ld32_st32_clear: "clear a 1 b 1 \<Longrightarrow> ld32 (st32 m a v) b = ld32 m b"
  unfolding clear_def by (auto intro: mem.ld_st_below mem.ld_st_above)

lemma ldm_st32: "clear a 1 b n \<Longrightarrow> ldm b n (st32 m a v) = ldm b n m"
proof (induction n arbitrary: b)
  case (Suc n)
  then have "unat (b + 4) = unat b + 4" by (intro unat_next [of b n]) (simp add: clear_def)
  then have "clear a 1 (b + 4) n" "clear a 1 b 1" using Suc.prems by (auto simp: clear_def)
  then show ?case using Suc.IH by (simp add: ld32_st32_clear)
qed simp

lemma ldm_stm_clear: "clear a (length vs) b n \<Longrightarrow> ldm b n (stm a vs m) = ldm b n m"
proof (induction vs arbitrary: a m)
  case (Cons v vs)
  then have "unat (a + 4) = unat a + 4" by (intro unat_next [of a "length vs"]) (simp add: clear_def)
  then have "clear (a + 4) (length vs) b n" "clear a 1 b n" using Cons.prems by (auto simp: clear_def)
  then show ?case using Cons.IH by (simp add: ldm_st32)
qed simp

lemma ldm_stm: "unat a + 4 * length vs < 2 ^ 32 \<Longrightarrow> ldm a (length vs) (stm a vs m) = vs"
proof (induction vs arbitrary: a m)
  case (Cons v vs)
  then have u: "unat (a + 4) = unat a + 4" by (intro unat_next [of a "length vs"]) simp
  have "ldm a 1 (stm (a + 4) vs (st32 m a v)) = ldm a 1 (st32 m a v)"
    by (rule ldm_stm_clear) (use u Cons.prems in \<open>simp add: clear_def\<close>)
  then show ?case using Cons u by simp
qed simp

lemma ldm_append: "ldm a (m + n) M = ldm a m M @ ldm (a + 4 * word_of_nat m) n M"
  by (induction m arbitrary: a) (simp_all add: algebra_simps)

lemma length_ldm [simp]: "length (ldm a n m) = n"
  by (induction n arbitrary: a) simp_all

lemma ldm_one: "ldm a (Suc 0) m = [ld32 m a]" by simp

lemma ld32_stm_clear: "clear a (length vs) b 1 \<Longrightarrow> ld32 (stm a vs m) b = ld32 m b"
  using ldm_stm_clear [of a vs b 1 m] by simp

text \<open>Pushing words in front of others.\<close>

lemma ldm_push:
  assumes "unat a + 4 * k < 2 ^ 32" "k = length vs + n" "b = a + 4 * word_of_nat (length vs)"
  shows "ldm a k (stm a vs M) = vs @ ldm b n M"
proof -
  have "unat b = unat a + 4 * length vs"
    using assms unat_of_nat_u32 [of "4 * length vs"] unat_plus_u32 [of a "word_of_nat (4 * length vs)"] by simp
  then have "clear a (length vs) b n" using assms(1,2) by (simp add: clear_def)
  then have "ldm b n (stm a vs M) = ldm b n M" by (rule ldm_stm_clear)
  moreover have "ldm a (length vs) (stm a vs M) = vs" by (rule ldm_stm) (use assms(1,2) in simp)
  ultimately show ?thesis by (simp add: assms(2,3) ldm_append)
qed

section \<open>Registers\<close>

lemma mode_simps [simp]:
  "core_mode (set_sp a c) = core_mode c" "core_mode (set_lr v c) = core_mode c" "core_mode (set_spsr v c) = core_mode c"
  "core_mode (set_reg i v c) = core_mode c" "core_mode (store a v c) = core_mode c"
  "core_mode (c\<lparr>gpr := g\<rparr>) = core_mode c" "core_mode (c\<lparr>core_mem := m\<rparr>) = core_mode c"
  "core_mode (c\<lparr>core_pc := p\<rparr>) = core_mode c"
  by (simp_all add: core_mode_def set_sp_def set_lr_def set_spsr_def set_reg_def store_def)

lemma mode_svc: "core_mode (c\<lparr>core_cpsr := msr_cpsr_c 0xD3 s\<rparr>) = MODE_SVC"
proof -
  have "((s AND NOT 0xFF) OR k) AND 0x1F = k AND (0x1F :: u32)" for k
    by (rule bit_word_eqI) (auto simp: bit_simps)
  from this [of "0xD3 AND 0xFF"] have "msr_cpsr_c 0xD3 s AND MODE_MASK = 0xD3 AND MODE_MASK"
    by (simp add: msr_cpsr_c_def MODE_MASK_def)
  then show ?thesis by (simp add: core_mode_def MODE_MASK_def MODE_SVC_def)
qed

lemma bank_simps [simp]:
  "get_sp (set_sp a c) = a" "get_sp (set_lr v c) = get_sp c" "get_sp (set_spsr v c) = get_sp c" "get_sp (set_reg i v c) = get_sp c"
  "get_sp (store a v c) = get_sp c" "get_sp (c\<lparr>gpr := g\<rparr>) = get_sp c" "get_sp (c\<lparr>core_mem := m\<rparr>) = get_sp c"
  "get_lr (set_sp a c) = get_lr c" "get_lr (set_lr v c) = v" "get_lr (set_spsr v c) = get_lr c" "get_lr (set_reg i v c) = get_lr c"
  "get_lr (store a v c) = get_lr c" "get_lr (c\<lparr>gpr := g\<rparr>) = get_lr c" "get_lr (c\<lparr>core_mem := m\<rparr>) = get_lr c"
  "get_spsr (set_sp a c) = get_spsr c" "get_spsr (set_lr v c) = get_spsr c" "get_spsr (set_spsr v c) = v"
  "get_spsr (set_reg i v c) = get_spsr c" "get_spsr (store a v c) = get_spsr c"
  "get_spsr (c\<lparr>gpr := g\<rparr>) = get_spsr c" "get_spsr (c\<lparr>core_mem := m\<rparr>) = get_spsr c"
  by (simp_all add: get_sp_def get_lr_def get_spsr_def) (simp_all add: set_sp_def set_lr_def set_spsr_def set_reg_def store_def)

lemma field_simps' [simp]:
  "gpr (set_sp a c) = gpr c" "gpr (set_lr v c) = gpr c" "gpr (set_spsr v c) = gpr c" "gpr (set_reg i v c) = (gpr c)[i := v]" "gpr (store a v c) = gpr c"
  "core_mem (set_sp a c) = core_mem c" "core_mem (set_lr v c) = core_mem c" "core_mem (set_spsr v c) = core_mem c"
  "core_mem (set_reg i v c) = core_mem c" "core_mem (store a v c) = st32 (core_mem c) a v"
  "core_cpsr (set_sp a c) = core_cpsr c" "core_cpsr (set_lr v c) = core_cpsr c" "core_cpsr (set_spsr v c) = core_cpsr c"
  "core_cpsr (set_reg i v c) = core_cpsr c" "core_cpsr (store a v c) = core_cpsr c"
  by (simp_all add: set_sp_def set_lr_def set_spsr_def set_reg_def store_def)

text \<open>The banks of a mode.\<close>

lemma banks_of:
  "core_mode c = k \<Longrightarrow> bank_sp c k = get_sp c" "core_mode c = k \<Longrightarrow> bank_lr c k = get_lr c"
  by (auto simp: get_sp_def get_lr_def)

section \<open>Resuming\<close>

text \<open>What a thread sees of the processor.\<close>

definition thread_view :: "core \<Rightarrow> u32 list \<times> u32 \<times> u32 \<times> u32 \<times> u32" where
  "thread_view c = (gpr c, bank_sp c MODE_SVC, bank_lr c MODE_SVC, core_pc c, core_cpsr c)"

text \<open>A parked thread: its stack pointer is at \<open>f\<close>, its frame from there on.\<close>

definition parked_at :: "u32 \<Rightarrow> u32 list \<times> u32 \<times> u32 \<times> u32 \<times> u32 \<Rightarrow> memory \<Rightarrow> bool" where
  "parked_at f v m \<longleftrightarrow> (case v of (regs, sp, lr, pc, st) \<Rightarrow>
     ld32 m f = sp - 64 \<and> ldm (sp - 64) 16 m = st # regs @ [lr, pc] \<and> length regs = 13)"

lemma switch_in_resumes:
  assumes "core_mode d = MODE_SVC" "length (gpr d) = 13" "parked_at f v (core_mem d)"
  shows "thread_view (switch_in f d) = v"
proof -
  obtain regs sp lr pc st where v: "v = (regs, sp, lr, pc, st)" by (cases v) auto
  define s where "s = sp - 64"
  have p: "ld32 (core_mem d) f = s" "ldm s 16 (core_mem d) = st # regs @ [lr, pc]" "length regs = 13"
    using assms(3) by (simp_all add: parked_at_def v s_def)
  have "ldm s 16 (core_mem d) = ld32 (core_mem d) s # ldm (s + 4) 15 (core_mem d)"
    using ldm_append [of s 1 15 "core_mem d"] by simp
  then have w: "ld32 (core_mem d) s = st" "ldm (s + 4) 15 (core_mem d) = regs @ [lr, pc]" using p(2) by simp_all
  have n: "(regs @ [lr, pc]) ! 13 = lr" "(regs @ [lr, pc]) ! 14 = pc" "take 13 (regs @ [lr, pc]) = regs"
    using p(3) by (simp_all add: nth_append)
  have e: "s + 64 = sp" by (simp add: s_def)
  define c' where "c' = set_lr lr ((set_sp sp (set_spsr st (set_reg 4 st (set_sp (s + 4) (set_sp s d)))))\<lparr>gpr := regs\<rparr>)"
  have "switch_in f d = c'\<lparr>core_pc := pc, core_cpsr := get_spsr c'\<rparr>"
    using assms(2) e
    by (simp add: switch_in_def Let_def ldmfd_def p(1,3) w n c'_def add.assoc)
  moreover have "core_mode c' = MODE_SVC" by (simp add: c'_def assms(1))
  then have "bank_sp c' MODE_SVC = sp" "bank_lr c' MODE_SVC = lr" by (simp_all add: banks_of c'_def)
  moreover have "gpr c' = regs" "get_spsr c' = st" by (simp_all add: c'_def)
  ultimately show ?thesis by (simp add: thread_view_def v)
qed

section \<open>Parking\<close>

lemma stmfd_simps [simp]:
  "core_mode (stmfd ws c) = core_mode c" "gpr (stmfd ws c) = gpr c" "get_lr (stmfd ws c) = get_lr c"
  "get_spsr (stmfd ws c) = get_spsr c" "core_cpsr (stmfd ws c) = core_cpsr c"
  "get_sp (stmfd ws c) = get_sp c - 4 * word_of_nat (length ws)"
  "core_mem (stmfd ws c) = stm (get_sp c - 4 * word_of_nat (length ws)) ws (core_mem c)"
  by (simp_all add: stmfd_def Let_def)

lemma unat_off: "unat (s :: u32) + k < 2 ^ 32 \<Longrightarrow> unat (s + word_of_nat k) = unat s + k"
  using unat_of_nat_u32 [of k] by (subst unat_plus_u32) simp_all

text \<open>A cooperative switch parks the caller: it will return from the call, with interrupts enabled.\<close>

lemma switch_out_parks:
  assumes "core_mode c = MODE_SVC" "length (gpr c) = 13" "get_sp c = s + 64" "clear s 16 (gpr c ! 0) 1"
  shows "parked_at (gpr c ! 0) (gpr c, get_sp c, get_lr c, get_lr c, core_cpsr c AND NOT 0x80) (core_mem (switch_out c)) \<and>
    core_mode (switch_out c) = MODE_SVC \<and> gpr (switch_out c) = (gpr c)[4 := core_cpsr c AND NOT 0x80]"
proof -
  let ?f = "gpr c ! 0" and ?st = "core_cpsr c AND NOT 0x80" and ?M = "core_mem c"
  have u: "unat (s + 4) = unat s + 4" "unat (s + 60) = unat s + 60" "unat s + 64 < 2 ^ 32"
    using unat_off [of s 4] unat_off [of s 60] assms(4) by (simp_all add: clear_def)
  define M1 where "M1 = stm (s + 60) [get_lr c] ?M"
  define M2 where "M2 = stm (s + 4) (gpr c @ [get_lr c]) M1"
  define M3 where "M3 = stm s [?st] M2"
  have "ldm (s + 60) 1 M1 = [get_lr c]" unfolding M1_def by (simp add: u)
  moreover have "ldm (s + 4) 15 M2 = (gpr c @ [get_lr c]) @ ldm (s + 60) 1 M1"
    unfolding M2_def by (rule ldm_push) (use u assms(2) in \<open>simp_all add: add.assoc\<close>)
  moreover have "ldm s 16 M3 = [?st] @ ldm (s + 4) 15 M2" unfolding M3_def by (rule ldm_push) (use u in simp_all)
  ultimately have fr: "ldm s 16 M3 = ?st # gpr c @ [get_lr c, get_lr c]" by simp
  have m: "core_mem (switch_out c) = st32 M3 ?f s" using assms(2,3)
    by (simp add: switch_out_def Let_def M3_def M2_def M1_def add.commute [of s])
  have "clear ?f 1 s 16" using assms(4) by (simp add: clear_sym)
  then have "ldm s 16 (st32 M3 ?f s) = ?st # gpr c @ [get_lr c, get_lr c]" unfolding fr [symmetric] by (rule ldm_st32)
  then have "parked_at ?f (gpr c, get_sp c, get_lr c, get_lr c, ?st) (core_mem (switch_out c))"
    using assms(2,3) by (simp add: parked_at_def m)
  then show ?thesis using assms(1,2) by (simp add: switch_out_def Let_def)
qed

section \<open>Preemption\<close>

text \<open>What the processor does when it takes an interrupt before the instruction at \<open>core_pc\<close>.\<close>

definition take_irq :: "core \<Rightarrow> core" where
  "take_irq c = c\<lparr>bank_lr := (bank_lr c)(MODE_IRQ := core_pc c + 4), bank_spsr := (bank_spsr c)(MODE_IRQ := core_cpsr c),
     core_cpsr := (core_cpsr c AND NOT MODE_MASK) OR MODE_IRQ OR I_BIT\<rparr>"

text \<open>The compiled handler keeps to the calling convention: it returns with the stack as it was, in
  the same mode, and leaves the registers of the interrupted mode alone.\<close>

definition trap_returns :: "(core \<Rightarrow> core) \<Rightarrow> core \<Rightarrow> bool" where
  "trap_returns trap c \<longleftrightarrow> core_mode (trap c) = core_mode c \<and> bank_sp (trap c) = bank_sp c \<and>
     bank_lr (trap c) MODE_SVC = bank_lr c MODE_SVC \<and> bank_spsr (trap c) = bank_spsr c \<and> length (gpr (trap c)) = 13 \<and>
     ldm (get_sp c) 14 (core_mem (trap c)) = ldm (get_sp c) 14 (core_mem c)"

lemma irq_mode: "MODE_IRQ \<noteq> MODE_SVC" by (simp add: MODE_IRQ_def MODE_SVC_def)

lemma irq_to_svc_state:
  assumes "core_mode c = MODE_IRQ" "length (gpr c) = 13" "clear (gpr c ! 0) 1 (get_sp c) 14"
    and "ldm (get_sp c) 14 (core_mem c) = regs @ [pc + 4]" "length regs = 13"
  shows "core_mode (irq_to_svc c) = MODE_SVC \<and> get_sp (irq_to_svc c) = bank_sp c MODE_SVC \<and> get_lr (irq_to_svc c) = bank_lr c MODE_SVC \<and>
    core_mem (irq_to_svc c) = st32 (core_mem c) (gpr c ! 0) 0 \<and>
    gpr (irq_to_svc c) = [get_spsr c, get_sp c, pc, gpr c ! 3] @ drop 4 regs"
proof -
  let ?i = "get_sp c" and ?M1 = "st32 (core_mem c) (gpr c ! 0) 0"
  have "ldm ?i 14 ?M1 = regs @ [pc + 4]" using ldm_st32 [OF assms(3)] assms(4) by simp
  then have s: "ldm ?i 4 ?M1 @ ldm (?i + 16) 10 ?M1 = take 4 regs @ drop 4 regs @ [pc + 4]"
    unfolding append_assoc [symmetric] append_take_drop_id using ldm_append [of ?i 4 10 ?M1] by simp
  then have w: "ldm (?i + 16) 10 ?M1 = drop 4 regs @ [pc + 4]" using assms(5) by (simp add: append_eq_append_conv)
  have n: "(drop 4 regs @ [pc + 4]) ! 9 = pc + 4" "take 9 (drop 4 regs @ [pc + 4]) = drop 4 regs"
    using assms(5) by (simp_all add: nth_append)
  obtain r0 r1 r2 r3 g where g: "gpr c = r0 # r1 # r2 # r3 # g"
    using assms(2) by (auto simp: length_Suc_conv numeral_eq_Suc)
  have k: "bank_sp (set_sp a d) MODE_SVC = bank_sp d MODE_SVC" "bank_lr (set_lr a d) MODE_SVC = bank_lr d MODE_SVC"
    if "core_mode d = MODE_IRQ" for a d using irq_mode that by (simp_all add: set_sp_def set_lr_def)
  have k2: "bank_sp (set_reg i v d) = bank_sp d" "bank_lr (set_reg i v d) = bank_lr d" "bank_sp (set_lr v d) = bank_sp d"
    "bank_lr (set_sp v d) = bank_lr d" "bank_sp (store a v d) = bank_sp d" "bank_lr (store a v d) = bank_lr d" for i v a d
    by (simp_all add: set_reg_def set_lr_def set_sp_def store_def)
  show ?thesis
    using assms(1) w n by (simp add: irq_to_svc_def Let_def ldmfd_def g mode_svc get_sp_def [of "_\<lparr>core_cpsr := _\<rparr>"]
      get_lr_def [of "_\<lparr>core_cpsr := _\<rparr>"] k k2)
qed

text \<open>The stack of the thread (its frame at \<open>s\<close>), the IRQ stack (the registers at \<open>i\<close>), the three words
  of the switch and the stack pointer of the thread at \<open>f\<close> are different memory.\<close>

definition switch_apart :: "switch_words \<Rightarrow> u32 \<Rightarrow> u32 \<Rightarrow> u32 \<Rightarrow> bool" where
  "switch_apart w s i f \<longleftrightarrow> clear s 16 i 14 \<and> clear s 16 f 1 \<and>
     (\<forall>a \<in> {switch_interrupt_flag w, interrupt_from_thread w, interrupt_to_thread w}. clear s 16 a 1 \<and> clear i 14 a 1) \<and>
     (\<forall>a \<in> {interrupt_from_thread w, interrupt_to_thread w, f}. clear (switch_interrupt_flag w) 1 a 1) \<and> clear f 1 (interrupt_to_thread w) 1"

lemma clear_part: "clear s 16 b n \<Longrightarrow> k + m \<le> 16 \<Longrightarrow> clear (s + 4 * word_of_nat k) m b n"
  using unat_off [of s "4 * k"] by (auto simp: clear_def)

lemma frame_pushed:
  assumes "unat s + 64 < 2 ^ 32" "length regs = 13"
    and "M5 = stm s [st] (stm (s + 4) (take 4 regs) (stm (s + 20) (drop 4 regs @ [lr]) (stm (s + 60) [pc] M)))"
  shows "ldm s 16 M5 = st # regs @ [lr, pc]" "clear s 16 b n \<Longrightarrow> ldm b n M5 = ldm b n M"
    "clear s 16 b n \<Longrightarrow> ldm b n (stm (s + 20) (drop 4 regs @ [lr]) (stm (s + 60) [pc] M)) = ldm b n M"
proof -
  define M2 where "M2 = stm (s + 60) [pc] M"
  define M3 where "M3 = stm (s + 20) (drop 4 regs @ [lr]) M2"
  define M4 where "M4 = stm (s + 4) (take 4 regs) M3"
  have M5: "M5 = stm s [st] M4" unfolding assms(3) M4_def M3_def M2_def by (rule refl)
  have u: "unat (s + 4) = unat s + 4" "unat (s + 20) = unat s + 20" "unat (s + 60) = unat s + 60"
    using unat_off [of s 4] unat_off [of s 20] unat_off [of s 60] assms(1) by simp_all
  have "ldm (s + 60) 1 M2 = [pc]" by (simp add: M2_def)
  moreover have "ldm (s + 20) 11 M3 = (drop 4 regs @ [lr]) @ ldm (s + 60) 1 M2"
    unfolding M3_def by (rule ldm_push) (use u assms(1,2) in \<open>simp_all add: add.assoc\<close>)
  moreover have "ldm (s + 4) 15 M4 = take 4 regs @ ldm (s + 20) 11 M3"
    unfolding M4_def by (rule ldm_push) (use u assms(1,2) in \<open>simp_all add: add.assoc\<close>)
  moreover have "ldm s 16 M5 = [st] @ ldm (s + 4) 15 M4" unfolding M5 by (rule ldm_push) (use assms(1) in simp_all)
  ultimately show "ldm s 16 M5 = st # regs @ [lr, pc]" by simp
  show 3: "ldm b n (stm (s + 20) (drop 4 regs @ [lr]) (stm (s + 60) [pc] M)) = ldm b n M" if c: "clear s 16 b n"
    using clear_part [OF c, of 15 1] clear_part [OF c, of 5 10] assms(2) by (simp add: ldm_stm_clear ldm_st32)
  show "ldm b n M5 = ldm b n M" if c: "clear s 16 b n"
    unfolding assms(3) using 3 [OF c] clear_part [OF c, of 0 1] clear_part [OF c, of 1 4] assms(2)
    by (simp add: ldm_stm_clear ldm_st32)
qed

lemma irq_switch_out_parks:
  assumes "core_mode c = MODE_IRQ" "length (gpr c) = 13" "gpr c ! 0 = switch_interrupt_flag w" "switch_apart w s (get_sp c) f"
    and "ldm (get_sp c) 14 (core_mem c) = regs @ [pc + 4]" "length regs = 13" "bank_sp c MODE_SVC = s + 64"
    and "ld32 (core_mem c) (interrupt_from_thread w) = f"
  shows "parked_at f (regs, s + 64, bank_lr c MODE_SVC, pc, get_spsr c) (core_mem (irq_switch_out w c)) \<and>
    core_mode (irq_switch_out w c) = MODE_SVC \<and> gpr (irq_switch_out w c) ! 6 = ld32 (core_mem c) (interrupt_to_thread w) \<and>
    ld32 (core_mem (irq_switch_out w c)) (switch_interrupt_flag w) = 0"
proof -
  let ?i = "get_sp c" and ?st = "get_spsr c" and ?lr = "bank_lr c MODE_SVC" and ?flag = "switch_interrupt_flag w"
  let ?from = "interrupt_from_thread w" and ?to = "interrupt_to_thread w"
  note ap = assms(4) [unfolded switch_apart_def]
  define M1 where "M1 = st32 (core_mem c) ?flag 0"
  define M3 where "M3 = stm (s + 20) (drop 4 regs @ [?lr]) (stm (s + 60) [pc] M1)"
  define M5 where "M5 = stm s [?st] (stm (s + 4) (take 4 regs) M3)"
  have "unat s + 64 < 2 ^ 32" using ap by (simp add: clear_def)
  note fr = frame_pushed [OF this assms(6) M5_def [unfolded M3_def], folded M3_def]
  have "clear ?flag 1 ?i 14" using ap by (simp add: clear_sym)
  note sv = irq_to_svc_state [OF assms(1,2) _ assms(5,6), unfolded assms(3), OF this, folded M1_def]
  have keep: "ld32 M1 a = ld32 (core_mem c) a" "ld32 M5 a = ld32 M1 a" if "a = ?from \<or> a = ?to" for a
    using ap that fr(2) [of a 1] by (auto simp: M1_def ld32_st32_clear)
  have "ldm ?i 14 M1 = regs @ [pc + 4]" unfolding M1_def using ldm_st32 [OF \<open>clear ?flag 1 ?i 14\<close>] assms(5) by simp
  moreover have "clear s 16 ?i 14" using ap by blast
  ultimately have "ldm ?i (4 + 10) M3 = regs @ [pc + 4]" using fr(3) by simp
  then have "take 4 (ldm ?i 4 M3 @ ldm (?i + 4 * word_of_nat 4) 10 M3) = take 4 (regs @ [pc + 4])" unfolding ldm_append by (rule arg_cong)
  then have i4: "ldm ?i 4 M3 = take 4 regs" using assms(6) by simp
  have "length (drop 4 regs) = Suc 8" using assms(6) by simp
  then obtain r4 g where r4: "drop 4 regs = r4 # g" "length g = 8" unfolding length_Suc_conv by blast
  have m: "core_mem (irq_switch_out w c) = st32 M5 f s" and
    g6: "gpr (irq_switch_out w c) ! 6 = ld32 (st32 M5 f s) ?to" and md: "core_mode (irq_switch_out w c) = MODE_SVC"
    using sv assms(6,7,8) keep [of ?from] i4 r4 
    by (simp_all add: irq_switch_out_def Let_def M5_def M3_def add.commute [of s])
  have "clear f 1 s 16" "clear f 1 ?to 1" "clear f 1 ?flag 1" "clear s 16 ?flag 1" using ap clear_sym by auto
  then have "ldm s 16 (st32 M5 f s) = ?st # regs @ [?lr, pc]" "ld32 (st32 M5 f s) ?to = ld32 (core_mem c) ?to"
    "ld32 (st32 M5 f s) ?flag = 0"
    using fr(1) fr(2) [of ?flag 1] keep [of ?to] by (simp_all add: ldm_st32 ld32_st32_clear M1_def)
  then show ?thesis using m g6 md assms(6) by (simp add: parked_at_def)
qed

lemma mode_entered: "((x AND NOT 0x1F) OR k) AND 0x1F = k AND (0x1F :: u32)"
  by (rule bit_word_eqI) (auto simp: bit_simps)

lemma take_irq_state:
  assumes "core_mode c = MODE_SVC"
  shows "core_mode (take_irq c) = MODE_IRQ" "gpr (take_irq c) = gpr c" "bank_sp (take_irq c) = bank_sp c"
    "get_lr (take_irq c) = core_pc c + 4" "get_spsr (take_irq c) = core_cpsr c" "bank_lr (take_irq c) MODE_SVC = bank_lr c MODE_SVC"
proof -
  from mode_entered [of "core_cpsr c" "0x12 OR 0x80"] show m: "core_mode (take_irq c) = MODE_IRQ"
    by (simp add: core_mode_def take_irq_def MODE_MASK_def MODE_IRQ_def I_BIT_def or.assoc)
  show "get_lr (take_irq c) = core_pc c + 4" "get_spsr (take_irq c) = core_cpsr c"
    unfolding get_lr_def get_spsr_def m by (simp_all add: take_irq_def)
qed (use irq_mode in \<open>simp_all add: take_irq_def\<close>)

text \<open>The wrapper up to the call of the handler.\<close>

definition irq_saved :: "core \<Rightarrow> core" where
  "irq_saved c = stmfd (gpr c @ [get_lr c]) c"

lemma irq_saved_state:
  assumes "core_mode c = MODE_SVC" "length (gpr c) = 13" "bank_sp c MODE_IRQ = i + 56" "unat i + 56 < 2 ^ 32"
  shows "core_mode (irq_saved (take_irq c)) = MODE_IRQ" "get_sp (irq_saved (take_irq c)) = i"
    "ldm i 14 (core_mem (irq_saved (take_irq c))) = gpr c @ [core_pc c + 4]" "get_spsr (irq_saved (take_irq c)) = core_cpsr c"
    "bank_sp (irq_saved (take_irq c)) MODE_SVC = bank_sp c MODE_SVC" "bank_lr (irq_saved (take_irq c)) MODE_SVC = bank_lr c MODE_SVC"
proof -
  note t = take_irq_state [OF assms(1)]
  have sp: "get_sp (take_irq c) = i + 56" unfolding get_sp_def t(1) t(3) by (rule assms(3))
  show "core_mode (irq_saved (take_irq c)) = MODE_IRQ" "get_sp (irq_saved (take_irq c)) = i"
    "get_spsr (irq_saved (take_irq c)) = core_cpsr c" using t sp assms(2) by (simp_all add: irq_saved_def)
  have "core_mem (irq_saved (take_irq c)) = stm i (gpr c @ [core_pc c + 4]) (core_mem (take_irq c))"
    using sp assms(2) t by (simp add: irq_saved_def)
  then show "ldm i 14 (core_mem (irq_saved (take_irq c))) = gpr c @ [core_pc c + 4]"
    using ldm_stm [of i "gpr c @ [core_pc c + 4]"] assms(2,4) by simp
  show "bank_sp (irq_saved (take_irq c)) MODE_SVC = bank_sp c MODE_SVC" "bank_lr (irq_saved (take_irq c)) MODE_SVC = bank_lr c MODE_SVC"
    using irq_mode t by (simp_all add: irq_saved_def stmfd_def Let_def set_sp_def)
qed

lemma irq_return_view:
  assumes "core_mode e = MODE_IRQ" "ldm (get_sp e) 14 (core_mem e) = regs @ [pc + 4]" "length regs = 13"
  shows "thread_view (irq_return e) = (regs, bank_sp e MODE_SVC, bank_lr e MODE_SVC, pc, get_spsr e)"
proof -
  have "take 13 (regs @ [pc + 4]) = regs" "(regs @ [pc + 4]) ! 13 = pc + 4" using assms(3) by (simp_all add: nth_append)
  moreover have "bank_sp (set_lr v (set_sp a e\<lparr>gpr := g\<rparr>)) MODE_SVC = bank_sp e MODE_SVC"
    "bank_lr (set_lr v (set_sp a e\<lparr>gpr := g\<rparr>)) MODE_SVC = bank_lr e MODE_SVC" for v a g
    using assms(1) irq_mode by (simp_all add: set_lr_def) (simp_all add: set_sp_def)
  ultimately show ?thesis using assms(2) by (simp add: irq_return_def Let_def ldmfd_def thread_view_def)
qed

text \<open>The wrapper after the call of the handler: it has the address of the flag in \<open>r0\<close>, and goes on
  according to the request.\<close>

lemma irq_taken:
  assumes "core_mode c = MODE_SVC" "length (gpr c) = 13" "bank_sp c MODE_IRQ = i + 56" "unat i + 56 < 2 ^ 32"
    and "trap_returns trap (irq_saved (take_irq c))"
  obtains d where "core_mode d = MODE_IRQ" "core_mem d = core_mem (trap (irq_saved (take_irq c)))" "length (gpr d) = 13"
    "gpr d ! 0 = switch_interrupt_flag w" "get_sp d = i" "get_spsr d = core_cpsr c" "bank_sp d MODE_SVC = bank_sp c MODE_SVC"
    "bank_lr d MODE_SVC = bank_lr c MODE_SVC" "ldm (get_sp d) 14 (core_mem d) = gpr c @ [core_pc c + 4]"
    "asm_irq w trap (take_irq c) = (if ld32 (core_mem (trap (irq_saved (take_irq c)))) (switch_interrupt_flag w) = 1
      then switch_in (gpr (irq_switch_out w d) ! 6) (irq_switch_out w d) else irq_return d)"
proof -
  define c1 where "c1 = irq_saved (take_irq c)"
  note sv = irq_saved_state [OF assms(1-4), folded c1_def]
  note tr = assms(5) [folded c1_def, unfolded trap_returns_def sv(1,2)]
  define c2 where "c2 = set_reg 1 (ld32 (core_mem (trap c1)) (switch_interrupt_flag w)) (set_reg 0 (switch_interrupt_flag w) (trap c1))"
  have b: "bank_sp c2 = bank_sp (trap c1)" "bank_lr c2 = bank_lr (trap c1)" "bank_spsr c2 = bank_spsr (trap c1)"
    by (simp_all add: c2_def set_reg_def)
  have c2: "core_mode c2 = MODE_IRQ" "core_mem c2 = core_mem (trap c1)" "length (gpr c2) = 13"
    "gpr c2 ! 0 = switch_interrupt_flag w" "gpr c2 ! 1 = ld32 (core_mem (trap c1)) (switch_interrupt_flag w)"
    using tr by (simp_all add: c2_def)
  have sp: "get_sp c2 = i" "get_spsr c2 = core_cpsr c" using sv(1,2,4) tr c2(1) b by (simp_all add: get_sp_def get_spsr_def)
  have svc: "bank_sp c2 MODE_SVC = bank_sp c MODE_SVC" "bank_lr c2 MODE_SVC = bank_lr c MODE_SVC" using tr sv(5,6) b by simp_all
  have saved: "ldm (get_sp c2) 14 (core_mem c2) = gpr c @ [core_pc c + 4]" using tr sv(3) c2(2) sp by simp
  have "asm_irq w trap (take_irq c) = (if ld32 (core_mem (trap c1)) (switch_interrupt_flag w) = 1
      then switch_in (gpr (irq_switch_out w c2) ! 6) (irq_switch_out w c2) else irq_return c2)"
    using c2(3,4,5) by (simp add: asm_irq_def Let_def irq_saved_def [symmetric] c1_def [symmetric] c2_def)
  with that c2(1-4) sp svc saved show thesis by (simp add: c1_def)
qed

text \<open>Preemption is transparent.  When an interrupt has asked for a switch, the wrapper clears
  the request and goes to the other thread with the interrupted one parked; any later
  switch to it, from whatever state of the processor, as long as its frame and its stack
  pointer field are as they were, gives it back all of its registers, its stack pointer,
  program counter and status.  When no switch was asked for, it finds them at once.\<close>

theorem preempted_thread_resumes:
  assumes "core_mode c = MODE_SVC" "length (gpr c) = 13" "bank_sp c MODE_SVC = s + 64" "bank_sp c MODE_IRQ = i + 56"
    and "switch_apart w s i f" "trap_returns trap (irq_saved (take_irq c))"
    and "ld32 (core_mem (trap (irq_saved (take_irq c)))) (interrupt_from_thread w) = f"
    and "ld32 (core_mem (trap (irq_saved (take_irq c)))) (interrupt_to_thread w) = t"
  shows "if ld32 (core_mem (trap (irq_saved (take_irq c)))) (switch_interrupt_flag w) = 1 then
      \<exists>d. asm_irq w trap (take_irq c) = switch_in t d \<and> core_mode d = MODE_SVC \<and> ld32 (core_mem d) (switch_interrupt_flag w) = 0 \<and>
        parked_at f (thread_view c) (core_mem d) \<and>
        (\<forall>e. core_mode e = MODE_SVC \<and> length (gpr e) = 13 \<and> parked_at f (thread_view c) (core_mem e) \<longrightarrow>
           thread_view (switch_in f e) = thread_view c)
    else thread_view (asm_irq w trap (take_irq c)) = thread_view c"
proof -
  let ?c1 = "irq_saved (take_irq c)"
  have "unat i + 56 < 2 ^ 32" using assms(5) by (simp add: switch_apart_def clear_def)
  from irq_taken [OF assms(1,2,4) this assms(6), of w] obtain c2 where
    c2: "core_mode c2 = MODE_IRQ" "core_mem c2 = core_mem (trap ?c1)" "length (gpr c2) = 13" "gpr c2 ! 0 = switch_interrupt_flag w"
    and sp: "get_sp c2 = i" "get_spsr c2 = core_cpsr c"
    and svc: "bank_sp c2 MODE_SVC = bank_sp c MODE_SVC" "bank_lr c2 MODE_SVC = bank_lr c MODE_SVC"
    and saved: "ldm (get_sp c2) 14 (core_mem c2) = gpr c @ [core_pc c + 4]"
    and a: "asm_irq w trap (take_irq c) = (if ld32 (core_mem (trap ?c1)) (switch_interrupt_flag w) = 1
      then switch_in (gpr (irq_switch_out w c2) ! 6) (irq_switch_out w c2) else irq_return c2)" by blast
  have v: "thread_view c = (gpr c, s + 64, bank_lr c MODE_SVC, core_pc c, core_cpsr c)" by (simp add: thread_view_def assms(3))
  have ap: "switch_apart w s (get_sp c2) f" using assms(5) sp by simp
  have fm: "ld32 (core_mem c2) (interrupt_from_thread w) = f" using assms(7) by (simp add: c2(2))
  note p = irq_switch_out_parks [OF c2(1,3,4) ap saved assms(2) svc(1) [unfolded assms(3)] fm, unfolded sp svc]
  have "gpr (irq_switch_out w c2) ! 6 = t" using p assms(8) by (simp add: c2(2))
  moreover have "thread_view (switch_in f e) = thread_view c"
    if "core_mode e = MODE_SVC \<and> length (gpr e) = 13 \<and> parked_at f (thread_view c) (core_mem e)" for e
    using switch_in_resumes [of e] that by blast
  moreover have "thread_view (irq_return c2) = thread_view c"
    using irq_return_view [OF c2(1) saved assms(2)] by (simp add: v sp svc assms(3))
  ultimately show ?thesis using p unfolding v a by auto
qed

text \<open>A handler that asks for a switch from the thread at \<open>0x2000\<close> to that at \<open>0x2004\<close>.\<close>

definition switch_example :: switch_words where
  "switch_example = \<lparr>switch_interrupt_flag = 0x1000, interrupt_from_thread = 0x1004, interrupt_to_thread = 0x1008\<rparr>"

definition core_example :: core where
  "core_example = \<lparr>gpr = [10, 11, 12, 13, 14, 15, 16, 17, 18, 19, 20, 21, 22], bank_sp = (\<lambda>k. if k = MODE_SVC then 0x3040 else 0x4038),
     bank_lr = (\<lambda>_. 0x80001234), bank_spsr = (\<lambda>_. 0), core_pc = 0x80005678, core_cpsr = 0x60000013,
     core_mem = stm 0x1000 [1, 0x2000, 0x2004] (\<lambda>_. 0)\<rparr>"

theorem preempted_thread_resumes_witness:
  "\<exists>d. asm_irq switch_example id (take_irq core_example) = switch_in 0x2004 d \<and> ld32 (core_mem d) 0x1000 = 0 \<and>
     parked_at 0x2000 ([10, 11, 12, 13, 14, 15, 16, 17, 18, 19, 20, 21, 22], 0x3040, 0x80001234, 0x80005678, 0x60000013) (core_mem d)"
proof -
  let ?c = core_example and ?c1 = "irq_saved (take_irq core_example)"
  have c: "core_mode ?c = MODE_SVC" "length (gpr ?c) = 13" "bank_sp ?c MODE_SVC = 0x3000 + 64" "bank_sp ?c MODE_IRQ = 0x4000 + 56"
    by (simp_all add: core_example_def core_mode_def MODE_MASK_def MODE_SVC_def MODE_IRQ_def)
  have ap: "switch_apart switch_example 0x3000 0x4000 0x2000" by (simp add: switch_apart_def switch_example_def clear_def)
  note sv = irq_saved_state [OF c(1,2,4)]
  have tr: "trap_returns id ?c1" using take_irq_state(2) [OF c(1)] c(2) by (simp add: trap_returns_def irq_saved_def)
  have m: "core_mem ?c1 = stm 0x4000 (gpr ?c @ [core_pc ?c + 4]) (core_mem ?c)"
    using take_irq_state [OF c(1)] c(2,4) get_sp_def [of "take_irq ?c"] by (simp add: irq_saved_def) (simp add: take_irq_def)
  have "ldm 0x1000 3 (core_mem ?c1) = ldm 0x1000 3 (core_mem ?c)"
    unfolding m by (rule ldm_stm_clear) (simp add: clear_def c(2))
  moreover have "ldm 0x1000 3 (core_mem ?c) = [1, 0x2000, 0x2004]"
    using ldm_stm [of "0x1000" "[1, 0x2000, 0x2004]" "\<lambda>_. 0"] unfolding core_example_def core.simps
    by (simp del: ldm.simps stm.simps add: numeral_3_eq_3)
  ultimately have w: "ldm 0x1000 3 (core_mem ?c1) = [1, 0x2000, 0x2004]" by simp
  have l: "ld32 (core_mem ?c1) 0x1000 = 1" "ld32 (core_mem ?c1) 0x1004 = 0x2000" "ld32 (core_mem ?c1) 0x1008 = 0x2004"
    using w by (simp_all add: numeral_eq_Suc)
  have "thread_view ?c = ([10, 11, 12, 13, 14, 15, 16, 17, 18, 19, 20, 21, 22], 0x3040, 0x80001234, 0x80005678, 0x60000013)"
    by (simp add: thread_view_def core_example_def)
  with preempted_thread_resumes [OF c ap tr, of "0x2004"] l show ?thesis
    by (simp add: switch_example_def) blast
qed

section \<open>The fast interrupt\<close>

definition take_fiq :: "core \<Rightarrow> core" where
  "take_fiq c = c\<lparr>bank_lr := (bank_lr c)(MODE_FIQ := core_pc c + 4), bank_spsr := (bank_spsr c)(MODE_FIQ := core_cpsr c),
     core_cpsr := (core_cpsr c AND NOT MODE_MASK) OR MODE_FIQ OR I_BIT OR F_BIT\<rparr>"

lemma take_fiq_mode: "core_mode (take_fiq c) = MODE_FIQ"
  using mode_entered [of "core_cpsr c" "0x11 OR 0x80 OR 0x40"]
  by (simp add: core_mode_def take_fiq_def MODE_MASK_def MODE_FIQ_def I_BIT_def F_BIT_def or.assoc)

text \<open>The wrapper up to the call of the handler.\<close>

definition fiq_saved :: "core \<Rightarrow> core" where
  "fiq_saved c = stmfd (take 8 (gpr c) @ [get_lr c - 4]) (set_lr (get_lr c - 4) c)"

text \<open>C40. The FIQ wrapper subtracts 4 from the return address twice, on entry and on return: the
  interrupted code goes on one instruction before the one that was due, and executes that
  instruction again.  The registers it saved and the status are restored.\<close>

theorem fiq_returns_early:
  assumes "length (gpr c) = 13" "get_sp (take_fiq c) = i + 36" "unat i + 36 < 2 ^ 32"
    and "core_mode (trap (fiq_saved (take_fiq c))) = core_mode (take_fiq c)" "get_sp (trap (fiq_saved (take_fiq c))) = i"
    and "get_spsr (trap (fiq_saved (take_fiq c))) = core_cpsr c"
    and "ldm i 9 (core_mem (trap (fiq_saved (take_fiq c)))) = ldm i 9 (core_mem (fiq_saved (take_fiq c)))"
  shows "core_pc (asm_fiq trap (take_fiq c)) = core_pc c - 4 \<and> core_cpsr (asm_fiq trap (take_fiq c)) = core_cpsr c \<and>
    take 8 (gpr (asm_fiq trap (take_fiq c))) = take 8 (gpr c)"
proof -
  have lr: "get_lr (take_fiq c) = core_pc c + 4" unfolding get_lr_def take_fiq_mode by (simp add: take_fiq_def)
  have g: "gpr (take_fiq c) = gpr c" by (simp add: take_fiq_def)
  have "core_mem (fiq_saved (take_fiq c)) = stm i (take 8 (gpr c) @ [core_pc c]) (core_mem (take_fiq c))"
    using assms(1,2) lr g by (simp add: fiq_saved_def)
  then have w: "ldm i 9 (core_mem (trap (fiq_saved (take_fiq c)))) = take 8 (gpr c) @ [core_pc c]"
    using ldm_stm [of i "take 8 (gpr c) @ [core_pc c]"] assms(1,3,7) by simp
  have n: "(take 8 (gpr c) @ [core_pc c]) ! 8 = core_pc c" "take 8 (take 8 (gpr c) @ [core_pc c]) = take 8 (gpr c)"
    using assms(1) by (simp_all add: nth_append)
  have "asm_fiq trap (take_fiq c) = (let (ws, d) = ldmfd 9 (trap (fiq_saved (take_fiq c)));
      d = set_lr (ws ! 8) (d\<lparr>gpr := take 8 ws @ drop 8 (gpr d)\<rparr>) in d\<lparr>core_pc := get_lr d - 4, core_cpsr := get_spsr d\<rparr>)"
    by (simp add: asm_fiq_def fiq_saved_def Let_def)
  then show ?thesis using w n assms(1,5,6) by (simp add: Let_def ldmfd_def)
qed

theorem fiq_returns_early_witness:
  "core_pc (asm_fiq id (take_fiq core_example)) = 0x80005674"
proof -
  let ?c = core_example
  have g: "length (gpr ?c) = 13" by (simp add: core_example_def)
  have sp: "get_sp (take_fiq ?c) = 0x4014 + 36" unfolding get_sp_def take_fiq_mode
    by (simp add: take_fiq_def core_example_def MODE_FIQ_def MODE_SVC_def)
  have st: "get_spsr (take_fiq ?c) = core_cpsr ?c" unfolding get_spsr_def take_fiq_mode by (simp add: take_fiq_def)
  have h: "core_mode (id (fiq_saved (take_fiq ?c))) = core_mode (take_fiq ?c)" "get_sp (id (fiq_saved (take_fiq ?c))) = 0x4014"
    "get_spsr (id (fiq_saved (take_fiq ?c))) = core_cpsr ?c"
    using sp st g by (simp_all add: fiq_saved_def take_fiq_def)
  from fiq_returns_early [where c = ?c and i = "0x4014" and trap = id, OF g sp _ h] show ?thesis by (simp add: core_example_def)
qed

section \<open>Other switches\<close>

text \<open>A thread that gives the processor away returns from the call when it is resumed, with
  interrupts enabled and every other register as it was.\<close>

theorem yielding_thread_returns:
  assumes "core_mode c = MODE_SVC" "length (gpr c) = 13" "get_sp c = s + 64" "clear s 16 (gpr c ! 0) 1"
  shows "\<exists>d. asm_context_switch c = switch_in (gpr c ! 1) d \<and> core_mode d = MODE_SVC \<and>
    (let v = (gpr c, get_sp c, get_lr c, get_lr c, core_cpsr c AND NOT I_BIT) in parked_at (gpr c ! 0) v (core_mem d) \<and>
      (\<forall>e. core_mode e = MODE_SVC \<and> length (gpr e) = 13 \<and> parked_at (gpr c ! 0) v (core_mem e) \<longrightarrow>
         thread_view (switch_in (gpr c ! 0) e) = v))"
proof -
  have "gpr (switch_out c) ! 1 = gpr c ! 1" using switch_out_parks [OF assms] assms(2) by simp
  then show ?thesis using switch_out_parks [OF assms] switch_in_resumes
    by (intro exI [of _ "switch_out c"]) (simp add: asm_context_switch_def Let_def I_BIT_def)
qed

text \<open>The first switch to a thread enters its function with the parameter in \<open>r0\<close>, interrupts
  enabled, the whole stack free and the exit function as return address.\<close>

theorem new_thread_starts:
  assumes "core_mode d = MODE_SVC" "length (gpr d) = 13" "clear (stack_frame base len) 16 f 1" "gpr d ! 0 = f"
    and "stack_init entry parameter base len exit_fn M = (sp, core_mem d)" "ld32 M f = sp"
  shows "thread_view (asm_context_switch_to d) = (parameter # replicate 12 0, (base + len) AND NOT 7, exit_fn, entry, 0x13)"
proof -
  let ?ws = "[0x13, parameter] @ replicate 12 0 @ [exit_fn, entry]"
  have m: "core_mem d = stm (stack_frame base len) ?ws M" "sp = stack_frame base len"
    using assms(5) unfolding stack_init_def Let_def prod.inject by metis+
  have l: "length ?ws = 16" by simp
  have "ldm (stack_frame base len) 16 (core_mem d) = ?ws" unfolding m(1)
    using ldm_stm [of "stack_frame base len" ?ws M] assms(3) unfolding l by (simp add: clear_def del: stm.simps append.simps)
  moreover have "ld32 (core_mem d) f = sp" unfolding m(1)
    using ld32_stm_clear [of "stack_frame base len" ?ws f M] assms(3,6) unfolding l by (simp del: stm.simps append.simps)
  ultimately have "parked_at f (parameter # replicate 12 0, (base + len) AND NOT 7, exit_fn, entry, 0x13) (core_mem d)"
    by (simp add: parked_at_def m(2) stack_frame_def)
  from switch_in_resumes [OF assms(1,2) this] show ?thesis by (simp add: asm_context_switch_to_def assms(4))
qed

text \<open>The frame of a fault: the program counter is the address of the faulting instruction, but
  \<open>lr\<close> is the same word and \<open>sp\<close> the frame itself, not those of the code that failed.\<close>

lemma exception_frame_fields:
  assumes "length (gpr c) = 13" "get_sp c = s + 68" "unat s + 68 < 2 ^ 32"
  shows "trap_frame_at s (core_mem (exception_frame n c)) =
    \<lparr>tf_regs = gpr c, tf_sp = s, tf_lr = get_lr c - n, tf_pc = get_lr c - n, tf_cpsr = get_spsr c\<rparr>"
proof -
  let ?M = "stm s (gpr c) (core_mem c)" and ?lr = "get_lr c - n"
  have u: "unat (s + 52) = unat s + 52" "unat (s + 56) = unat s + 56" "unat (s + 60) = unat s + 60" "unat (s + 64) = unat s + 64"
    using unat_off [of s 52] unat_off [of s 56] unat_off [of s 60] unat_off [of s 64] assms(3) by simp_all
  obtain r0 r1 r2 r3 r4 r5 r6 g where g: "gpr c = r0 # r1 # r2 # r3 # r4 # r5 # r6 # g"
    using assms(1) by (auto simp: length_Suc_conv numeral_eq_Suc)
  have m: "core_mem (exception_frame n c) = st32 (st32 (st32 (st32 ?M (s + 60) ?lr) (s + 64) (get_spsr c)) (s + 52) s) (s + 56) ?lr"
    using assms(2) by (simp add: exception_frame_def push_svc_reg_def Let_def g)
  have "ldm s 13 ?M = gpr c" using ldm_stm [of s "gpr c" "core_mem c"] assms(1,3) by simp
  then have "ldm s 13 (core_mem (exception_frame n c)) = gpr c" unfolding m using u assms(3)
    by (simp add: ldm_st32 clear_def del: ldm.simps)
  then show ?thesis using u assms(3) by (simp add: trap_frame_at_def m ld32_st32_clear clear_def)
qed

section \<open>The request for a switch\<close>

text \<open>The three words hold the request of the scheduler model; \<open>field i\<close> is the address of the stack
  pointer of thread \<open>i\<close>.\<close>

definition request_of :: "switch_words \<Rightarrow> (nat \<Rightarrow> u32) \<Rightarrow> kernel \<Rightarrow> memory \<Rightarrow> bool" where
  "request_of w field k m \<longleftrightarrow> (switch_flag k \<longleftrightarrow> ld32 m (switch_interrupt_flag w) = 1) \<and>
     (switch_flag k \<longrightarrow> ld32 m (interrupt_from_thread w) = field (irq_from k) \<and> ld32 m (interrupt_to_thread w) = field (irq_to k))"

theorem switch_request_refines:
  assumes "request_of w field k (core_mem c)" "length (gpr c) = 13" "gpr c ! 0 = field from_id" "gpr c ! 1 = field to_id"
    and "clear (switch_interrupt_flag w) 1 (interrupt_from_thread w) 1" "clear (switch_interrupt_flag w) 1 (interrupt_to_thread w) 1"
      "clear (interrupt_from_thread w) 1 (interrupt_to_thread w) 1"
  shows "request_of w field (context_switch_interrupt from_id to_id k) (core_mem (asm_context_switch_interrupt w c)) \<and>
    core_pc (asm_context_switch_interrupt w c) = get_lr c \<and> gpr (asm_context_switch_interrupt w c) ! 0 = gpr c ! 0"
proof -
  obtain r0 r1 r2 r3 g where g: "gpr c = r0 # r1 # r2 # r3 # g"
    using assms(2) by (auto simp: length_Suc_conv numeral_eq_Suc)
  note ap = assms(5-7) assms(5-7) [THEN clear_sym [THEN iffD1]]
  show ?thesis using assms(1,3,4) ap
    by (simp add: asm_context_switch_interrupt_def Let_def g request_of_def context_switch_interrupt_def ld32_st32_clear)
qed

end
