(* ===== verification/Switching.thy ===== *)
theory Switching
  imports Context_Props
begin

text \<open>
  The scheduler and the processor together: the switches that \<open>do_schedule\<close> and
  \<open>do_schedule_from_isr\<close> decide on (theory \<open>Thread\<close>) are executed by the assembly of theory
  \<open>Context\<close> on the registers and the stacks.  A machine is a pair of the kernel and the processor;
  the stacks, the stack pointer fields of the threads, the three words of a requested switch
  and the top of the IRQ stack are areas of memory that do not overlap.
\<close>

section \<open>Memory areas\<close>

datatype area = Stack nat | SpField nat | FlagWord | FromWord | ToWord | IrqStack

definition live :: "kernel \<Rightarrow> nat \<Rightarrow> bool" where "live k i \<longleftrightarrow> threads k i \<noteq> None"

text \<open>Where an area begins, and its length in bytes: \<open>field i\<close> is the address of the field \<open>sp\<close> of
  thread \<open>i\<close>, \<open>irq\<close> that of the 14 words that the IRQ wrapper saves.\<close>

fun area_at :: "switch_words \<Rightarrow> (nat \<Rightarrow> u32) \<Rightarrow> u32 \<Rightarrow> kernel \<Rightarrow> area \<Rightarrow> (u32 \<times> nat) option" where
  "area_at w field irq k (Stack i) = map_option (\<lambda>t. (stack_base t, unat (stack_size t))) (threads k i)"
| "area_at w field irq k (SpField i) = (if live k i then Some (field i, 4) else None)"
| "area_at w field irq k FlagWord = Some (switch_interrupt_flag w, 4)"
| "area_at w field irq k FromWord = Some (interrupt_from_thread w, 4)"
| "area_at w field irq k ToWord = Some (interrupt_to_thread w, 4)"
| "area_at w field irq k IrqStack = Some (irq, 56)"

definition disjoint_areas :: "switch_words \<Rightarrow> (nat \<Rightarrow> u32) \<Rightarrow> u32 \<Rightarrow> kernel \<Rightarrow> bool" where
  "disjoint_areas w field irq k \<longleftrightarrow> (\<forall>x y a m b n. x \<noteq> y \<longrightarrow> area_at w field irq k x = Some (a, m) \<longrightarrow> area_at w field irq k y = Some (b, n) \<longrightarrow>
     unat a + m < 2 ^ 32 \<and> unat b + n < 2 ^ 32 \<and> (unat a + m \<le> unat b \<or> unat b + n \<le> unat a))"

text \<open>The kernel changes, the stacks do not.\<close>

definition same_stacks :: "kernel \<Rightarrow> kernel \<Rightarrow> bool" where
  "same_stacks k k' \<longleftrightarrow> (\<forall>i. map_option (\<lambda>t. (stack_base t, stack_size t)) (threads k' i) = map_option (\<lambda>t. (stack_base t, stack_size t)) (threads k i))"

lemma same_stacks_refl [simp]: "same_stacks k k" by (simp add: same_stacks_def)

lemma same_stacks_trans: "same_stacks k k' \<Longrightarrow> same_stacks k' k'' \<Longrightarrow> same_stacks k k''" by (simp add: same_stacks_def)

lemma same_stacks_live: "same_stacks k k' \<Longrightarrow> live k' i = live k i"
  unfolding same_stacks_def live_def by (drule spec [of _ i]) (cases "threads k i"; cases "threads k' i"; simp)

lemma same_stacks_thread:
  "same_stacks k k' \<Longrightarrow> threads k i = Some t \<Longrightarrow> \<exists>t'. threads k' i = Some t' \<and> stack_base t' = stack_base t \<and> stack_size t' = stack_size t"
  unfolding same_stacks_def by (drule spec [of _ i]) auto

lemma same_stacks_areas: "same_stacks k k' \<Longrightarrow> area_at w field irq k' x = area_at w field irq k x"
proof (cases x)
  case (Stack i)
  assume "same_stacks k k'"
  then have "map_option (\<lambda>(a, n). (a, unat n)) (map_option (\<lambda>t. (stack_base t, stack_size t)) (threads k' i)) =
      map_option (\<lambda>(a, n). (a, unat n)) (map_option (\<lambda>t. (stack_base t, stack_size t)) (threads k i))" by (simp add: same_stacks_def)
  then show ?thesis by (simp add: Stack option.map_comp comp_def)
qed (simp_all add: same_stacks_live)

lemma same_stacks_disjoint: "same_stacks k k' \<Longrightarrow> disjoint_areas w field irq k' = disjoint_areas w field irq k"
  by (simp add: disjoint_areas_def same_stacks_areas)

section \<open>Parked threads\<close>

type_synonym view = "u32 list \<times> u32 \<times> u32 \<times> u32 \<times> u32"

fun view_sp :: "view \<Rightarrow> u32" where "view_sp (regs, sp, lr, pc, st) = sp"
fun view_status :: "view \<Rightarrow> u32" where "view_status (regs, sp, lr, pc, st) = st"

text \<open>A stack pointer of thread \<open>i\<close> with room for a frame below it.\<close>

definition has_room :: "kernel \<Rightarrow> nat \<Rightarrow> u32 \<Rightarrow> bool" where
  "has_room k i sp \<longleftrightarrow> (case threads k i of None \<Rightarrow> False
     | Some t \<Rightarrow> unat (stack_base t) + 64 \<le> unat sp \<and> unat sp \<le> unat (stack_base t) + unat (stack_size t))"

text \<open>Thread \<open>i\<close> is parked with this view of the processor, and the scheduler model knows its
  status word.\<close>

definition parked :: "(nat \<Rightarrow> u32) \<Rightarrow> kernel \<Rightarrow> memory \<Rightarrow> nat \<Rightarrow> view \<Rightarrow> bool" where
  "parked field k m i v \<longleftrightarrow> parked_at (field i) v m \<and> has_room k i (view_sp v) \<and> saved_cpsr k i = view_status v \<and>
     view_status v AND MODE_MASK = MODE_SVC"

lemma same_stacks_room: "same_stacks k k' \<Longrightarrow> has_room k i sp \<Longrightarrow> has_room k' i sp"
  unfolding has_room_def by (cases "threads k i") (auto dest!: same_stacks_thread)

lemma room_frame:
  fixes sp :: u32
  assumes "disjoint_areas w field irq k" "has_room k i sp" "area_at w field irq k x = Some (a, n)" "x \<noteq> Stack i" "4 * m \<le> n"
  shows "clear (sp - 64) 16 a m"
proof -
  from assms(2) obtain t where t: "threads k i = Some t" "unat (stack_base t) + 64 \<le> unat sp"
    "unat sp \<le> unat (stack_base t) + unat (stack_size t)" by (auto simp: has_room_def split: option.splits)
  have "unat (stack_base t) + unat (stack_size t) < 2 ^ 32 \<and> unat a + n < 2 ^ 32 \<and>
      (unat (stack_base t) + unat (stack_size t) \<le> unat a \<or> unat a + n \<le> unat (stack_base t))"
    using assms(1) [unfolded disjoint_areas_def, rule_format, OF assms(4) [symmetric], of "stack_base t" "unat (stack_size t)" a n]
      t(1) assms(3) by simp
  moreover have "unat (sp - 64) = unat sp - 64" using t(2) by (simp add: unat_sub_if')
  ultimately show ?thesis using t assms(5) by (auto simp: clear_def)
qed

lemma areas_clear:
  assumes "disjoint_areas w field irq k" "area_at w field irq k x = Some (a, m')" "area_at w field irq k y = Some (b, n')"
    "x \<noteq> y" "4 * m \<le> m'" "4 * n \<le> n'"
  shows "clear a m b n"
  using assms(1) [unfolded disjoint_areas_def, rule_format, OF assms(4,2,3)] assms(5,6) by (auto simp: clear_def)

lemma room_live: "has_room k i sp \<Longrightarrow> live k i" by (auto simp: has_room_def live_def split: option.splits)

lemma parked_live: "parked field k m i v \<Longrightarrow> live k i" by (auto simp: parked_def intro: room_live)

text \<open>A parked thread is read in two areas only.\<close>

lemma parked_cong:
  assumes "parked field k m i v" "ld32 m' (field i) = ld32 m (field i)" "ldm (view_sp v - 64) 16 m' = ldm (view_sp v - 64) 16 m"
    "same_stacks k k'" "saved_cpsr k' i = saved_cpsr k i"
  shows "parked field k' m' i v"
  using assms same_stacks_room [OF assms(4)] by (cases v) (simp add: parked_def parked_at_def)

text \<open>Frames and fields of two threads.\<close>

lemma frames_clear:
  assumes "disjoint_areas w field irq k" "has_room k i sp" "has_room k j sp'" "i \<noteq> j"
  shows "clear (sp - 64) 16 (sp' - 64) 16" "clear (sp - 64) 16 (field j) 1" "clear (field i) 1 (field j) 1"
proof -
  from assms(3) obtain t where t: "threads k j = Some t" "unat (stack_base t) + 64 \<le> unat sp'"
    "unat sp' \<le> unat (stack_base t) + unat (stack_size t)" by (auto simp: has_room_def split: option.splits)
  from assms(2) obtain u where u: "threads k i = Some u" "unat (stack_base u) + 64 \<le> unat sp"
    "unat sp \<le> unat (stack_base u) + unat (stack_size u)" by (auto simp: has_room_def split: option.splits)
  have "unat (stack_base u) + unat (stack_size u) < 2 ^ 32 \<and> unat (stack_base t) + unat (stack_size t) < 2 ^ 32 \<and>
      (unat (stack_base u) + unat (stack_size u) \<le> unat (stack_base t) \<or> unat (stack_base t) + unat (stack_size t) \<le> unat (stack_base u))"
    using assms(1) [unfolded disjoint_areas_def, rule_format, of "Stack i" "Stack j" "stack_base u" "unat (stack_size u)"
        "stack_base t" "unat (stack_size t)"] t(1) u(1) assms(4) by simp
  moreover have "unat (sp - 64) = unat sp - 64" "unat (sp' - 64) = unat sp' - 64" using t(2) u(2) by (simp_all add: unat_sub_if')
  ultimately show "clear (sp - 64) 16 (sp' - 64) 16" using t u by (auto simp: clear_def)
  have "live k i" "live k j" using assms(2,3) by (simp_all add: room_live)
  then show "clear (sp - 64) 16 (field j) 1" "clear (field i) 1 (field j) 1"
    using room_frame [OF assms(1,2), of "SpField j" "field j" 4 1]
      areas_clear [OF assms(1), of "SpField i" "field i" 4 "SpField j" "field j" 4 1 1] assms(4) by simp_all
qed

section \<open>What the assembly leaves alone\<close>

lemma switch_out_keeps:
  assumes "length (gpr c) = 13" "get_sp c = s + 64" "clear s 16 b n" "clear (gpr c ! 0) 1 b n"
  shows "ldm b n (core_mem (switch_out c)) = ldm b n (core_mem c)"
proof -
  have "core_mem (switch_out c) = st32 (stm s [core_cpsr c AND NOT 0x80] (stm (s + 4) (gpr c @ [get_lr c]) (stm (s + 60) [get_lr c] (core_mem c)))) (gpr c ! 0) s"
    using assms(1,2) by (simp add: switch_out_def Let_def add.commute [of s])
  then show ?thesis
    using assms clear_part [OF assms(3), of 15 1] clear_part [OF assms(3), of 1 14] clear_part [OF assms(3), of 0 1]
      clear_part [OF assms(3), of 1 15]
    by (simp add: ldm_st32 ldm_stm_clear del: stm.simps)
qed

text \<open>The end of a switch only reads memory, and works in the supervisor mode.\<close>

lemma switch_in_mem: "core_mem (switch_in f d) = core_mem d"
  by (simp add: switch_in_def Let_def ldmfd_def)

lemma bank_own: "core_mode c = k \<Longrightarrow> bank_sp (set_sp a c) k = a" by (simp add: set_sp_def)

lemma bank_irq: "core_mode c = MODE_SVC \<Longrightarrow> bank_sp (set_sp a c) MODE_IRQ = bank_sp c MODE_IRQ"
  using irq_mode by (simp add: set_sp_def)

lemma bank_sp_simps [simp]:
  "bank_sp (set_lr v c) = bank_sp c" "bank_sp (set_spsr v c) = bank_sp c" "bank_sp (set_reg i v c) = bank_sp c"
  "bank_sp (store a v c) = bank_sp c"
  by (simp_all add: set_lr_def set_spsr_def set_reg_def store_def)

lemma switch_in_bank: "core_mode d = MODE_SVC \<Longrightarrow> bank_sp (switch_in f d) MODE_IRQ = bank_sp d MODE_IRQ"
  by (simp add: switch_in_def Let_def ldmfd_def bank_irq)

lemma stmfd_bank: "core_mode c = MODE_SVC \<Longrightarrow> bank_sp (stmfd ws c) MODE_IRQ = bank_sp c MODE_IRQ"
  by (simp add: stmfd_def Let_def bank_irq)

lemma switch_out_bank: "core_mode c = MODE_SVC \<Longrightarrow> bank_sp (switch_out c) MODE_IRQ = bank_sp c MODE_IRQ"
  by (simp add: switch_out_def Let_def stmfd_bank)

text \<open>A switch to a parked thread.\<close>

lemma switch_in_parked:
  assumes "core_mode d = MODE_SVC" "length (gpr d) = 13" "parked field k (core_mem d) i v"
  shows "thread_view (switch_in (field i) d) = v" "core_mode (switch_in (field i) d) = MODE_SVC"
    "length (gpr (switch_in (field i) d)) = 13" "core_cpsr (switch_in (field i) d) = saved_cpsr k i"
proof -
  show v: "thread_view (switch_in (field i) d) = v" using assms switch_in_resumes by (simp add: parked_def)
  show "core_mode (switch_in (field i) d) = MODE_SVC" "core_cpsr (switch_in (field i) d) = saved_cpsr k i"
    "length (gpr (switch_in (field i) d)) = 13"
    using v assms(3) by (auto simp: thread_view_def parked_def parked_at_def core_mode_def)
qed

lemma irq_switch_out_keeps:
  assumes "core_mode c = MODE_IRQ" "length (gpr c) = 13" "gpr c ! 0 = switch_interrupt_flag w" "switch_apart w s (get_sp c) f"
    and "ldm (get_sp c) 14 (core_mem c) = regs @ [pc + 4]" "length regs = 13" "bank_sp c MODE_SVC = s + 64"
    and "ld32 (core_mem c) (interrupt_from_thread w) = f"
  shows "clear s 16 b n \<Longrightarrow> clear f 1 b n \<Longrightarrow> clear (switch_interrupt_flag w) 1 b n \<Longrightarrow>
      ldm b n (core_mem (irq_switch_out w c)) = ldm b n (core_mem c)"
    and "bank_sp (irq_switch_out w c) MODE_IRQ = get_sp c + 56" "length (gpr (irq_switch_out w c)) = 13"
proof -
  note ap = assms(4) [unfolded switch_apart_def]
  let ?d = "irq_to_svc c" and ?i = "get_sp c"
  have "clear (gpr c ! 0) 1 ?i 14" using ap assms(3) by (simp add: clear_sym)
  note sv = irq_to_svc_state [OF assms(1,2) this assms(5,6)]
  define M1 where "M1 = st32 (core_mem c) (switch_interrupt_flag w) 0"
  obtain r4 r5 r6 r7 r8 r9 r10 r11 r12 where g: "drop 4 regs = [r4, r5, r6, r7, r8, r9, r10, r11, r12]"
    using assms(6) by (auto simp: length_Suc_conv numeral_eq_Suc)
  have l4: "\<exists>a b c d. ldm x 4 M = [a, b, c, d]" for x M by (simp add: numeral_eq_Suc)
  show "length (gpr (irq_switch_out w c)) = 13"
    using sv g l4 by (simp add: irq_switch_out_def Let_def)
  have bank: "bank_sp ?d MODE_IRQ = ?i + 56"
    using assms(1) by (simp add: irq_to_svc_def Let_def ldmfd_def bank_own)
  show "bank_sp (irq_switch_out w c) MODE_IRQ = ?i + 56"
    using sv by (simp add: irq_switch_out_def Let_def stmfd_bank bank)
  assume cl: "clear s 16 b n" "clear f 1 b n" "clear (switch_interrupt_flag w) 1 b n"
  have u: "unat s + 64 < 2 ^ 32" using ap by (simp add: clear_def)
  let ?M3 = "stm (s + 20) (drop 4 regs @ [bank_lr c MODE_SVC]) (stm (s + 60) [pc] M1)"
  define regs' where "regs' = ldm ?i 4 ?M3 @ drop 4 regs"
  have r: "length regs' = 13" "take 4 regs' = ldm ?i 4 ?M3" "drop 4 regs' = drop 4 regs" using assms(6) by (simp_all add: regs'_def)
  define M5 where "M5 = stm s [get_spsr c] (stm (s + 4) (take 4 regs') (stm (s + 20) (drop 4 regs' @ [bank_lr c MODE_SVC]) (stm (s + 60) [pc] M1)))"
  note fr = frame_pushed [OF u r(1) M5_def]
  have "ld32 M5 (interrupt_from_thread w) = f"
    using ap fr(2) [of "interrupt_from_thread w" 1] assms(8) by (simp add: M1_def ld32_st32_clear)
  then have "core_mem (irq_switch_out w c) = st32 M5 f s"
    using sv assms(3,7) g r by (simp add: irq_switch_out_def Let_def M5_def M1_def add.commute [of s])
  then show "ldm b n (core_mem (irq_switch_out w c)) = ldm b n (core_mem c)"
    using fr(2) [OF cl(1)] cl by (simp add: ldm_st32 M1_def)
qed

section \<open>Decisions of the scheduler\<close>

definition update_ok :: "kernel \<Rightarrow> kernel \<Rightarrow> bool" where
  "update_ok k k' \<longleftrightarrow> same_stacks k k' \<and> current_id k' = current_id k \<and> switch_flag k' = switch_flag k \<and>
     irq_from k' = irq_from k \<and> irq_to k' = irq_to k \<and> (\<forall>i. i \<noteq> current_id k \<longrightarrow> saved_cpsr k' i = saved_cpsr k i)"

lemma set_thread_stacks:
  "threads k i = Some t \<Longrightarrow> stack_base t' = stack_base t \<Longrightarrow> stack_size t' = stack_size t \<Longrightarrow> same_stacks k (set_thread i t' k)"
  by (simp add: same_stacks_def set_thread_def)

lemma ready_at_thread: "ready_at k p i \<Longrightarrow> \<exists>t. threads k i = Some t \<and> t_state t = Ready"
  by (auto simp: ready_at_def split: option.splits)

lemma pick_from_ready: "pick_from n j p k = Some i \<Longrightarrow> ready_at k p i"
  by (induction n arbitrary: j) (auto split: if_splits)

lemma pick_ready: "pick_next k = Some i \<Longrightarrow> \<exists>t. threads k i = Some t \<and> t_state t = Ready"
  unfolding pick_next_def Let_def by (auto split: if_splits dest!: pick_from_ready intro!: ready_at_thread)

text \<open>A decision changes no stack and no saved status, and either stays with the thread or goes to
  another that exists.\<close>

lemma pick_and_mark_stacks:
  assumes "pick_and_mark k = Some (sw, k')"
  shows "same_stacks k k' \<and> saved_cpsr k' = saved_cpsr k \<and> cpsr k' = cpsr k \<and> switch_flag k' = switch_flag k \<and>
    irq_from k' = irq_from k \<and> irq_to k' = irq_to k \<and>
    (case sw of None \<Rightarrow> current_id k' = current_id k
     | Some (i, j) \<Rightarrow> i = current_id k \<and> j = current_id k' \<and> j \<noteq> i \<and> live k i \<and> live k j)"
proof (cases "pick_next k")
  case None then show ?thesis using assms by (simp add: pick_and_mark_def)
next
  case (Some n)
  from pick_ready [OF Some] obtain t where t: "threads k n = Some t" by blast
  have st: "same_stacks k (set_thread n (t\<lparr>t_state := Running\<rparr>) k)" by (rule set_thread_stacks [OF t]) simp_all
  show ?thesis
  proof (cases "n = current_id k")
    case True
    then show ?thesis using assms Some t st by (auto simp: pick_and_mark_def slot_def set_thread_def Let_def split: if_splits)
  next
    case False
    then show ?thesis using assms Some t st
      by (auto simp: pick_and_mark_def slot_def set_thread_def Let_def live_def same_stacks_def split: if_splits Option.bind_splits)
  qed
qed

lemma do_schedule_stacks:
  assumes "do_schedule k = Some (True, k')"
  obtains k1 where "same_stacks k k1" "saved_cpsr k1 = saved_cpsr k" "cpsr k1 = cpsr k" "switch_flag k1 = switch_flag k"
    "k' = context_switch (current_id k) (current_id k1) k1" "current_id k1 \<noteq> current_id k" "live k (current_id k)" "live k (current_id k1)"
proof -
  from assms obtain i j k1 where p: "pick_and_mark k = Some (Some (i, j), k1)" "k' = context_switch i j k1"
    by (auto simp: do_schedule_def split: Option.bind_splits option.splits)
  from pick_and_mark_stacks [OF p(1)] p(2) show thesis by (intro that [of k1]) auto
qed

text \<open>What the handlers do to the kernel in one interrupt.\<close>

inductive isr_run :: "kernel \<Rightarrow> kernel \<Rightarrow> bool" where
  Start: "isr_run k k"
| Work: "isr_run k k1 \<Longrightarrow> update_ok k1 k2 \<Longrightarrow> saved_cpsr k2 = saved_cpsr k1 \<Longrightarrow> isr_run k k2"
| Decide: "isr_run k k1 \<Longrightarrow> do_schedule_from_isr k1 = Some k2 \<Longrightarrow> isr_run k k2"

text \<open>However often it decides, the request names the interrupted thread and the last choice.\<close>

lemma isr_run_request:
  assumes "isr_run k k'" "\<not> switch_flag k" "live k (current_id k)"
  shows "same_stacks k k' \<and> saved_cpsr k' = saved_cpsr k \<and> live k (current_id k') \<and>
    (if switch_flag k' then irq_from k' = current_id k \<and> irq_to k' = current_id k' else current_id k' = current_id k)"
  using assms
proof (induction rule: isr_run.induct)
  case (Work k k1 k2)
  then show ?case by (auto simp: update_ok_def intro: same_stacks_trans)
next
  case (Decide k k1 k2)
  from Decide.hyps(2) obtain sw k3 where p: "pick_and_mark k1 = Some (sw, k3)"
    "k2 = (case sw of None \<Rightarrow> k3 | Some (i, j) \<Rightarrow> context_switch_interrupt i j k3)"
    by (auto simp: do_schedule_from_isr_def split: Option.bind_splits option.splits)
  note m = pick_and_mark_stacks [OF p(1)] and ih = Decide.IH [OF Decide.prems]
  have s: "same_stacks k k3" using m ih same_stacks_trans by blast
  have l: "live k1 i = live k i" for i using ih same_stacks_live by blast
  show ?case
  proof (cases sw)
    case None
    then have "k2 = k3" using p(2) by simp
    then show ?thesis using m ih s None by simp
  next
    case (Some ij)
    then obtain i j where ij: "sw = Some (i, j)" by (cases ij) simp
    then have k2: "k2 = context_switch_interrupt i j k3" using p(2) by simp
    then have "same_stacks k k2" using s by (simp add: context_switch_interrupt_def same_stacks_def)
    then show ?thesis using m ih ij l by (simp add: k2 context_switch_interrupt_def split: if_splits)
  qed
qed simp

section \<open>Steps of the machine\<close>

text \<open>What happens on the processor: the running thread executes anything that leaves the stacks
  and the stack pointers of the others alone; it creates a thread; it calls \<open>context_switch\<close> as
  the scheduler decided; an interrupt is taken and served, with any number of decisions.\<close>

datatype step_kind = Local | Cooperative | Preemptive

type_synonym machine = "kernel \<times> core"

inductive machine_step :: "switch_words \<Rightarrow> (nat \<Rightarrow> u32) \<Rightarrow> u32 \<Rightarrow> step_kind \<Rightarrow> machine \<Rightarrow> machine \<Rightarrow> bool"
  for w field irq where
  Runs: "update_ok k k' \<Longrightarrow> cpsr k' = core_cpsr c' \<Longrightarrow> core_mode c' = MODE_SVC \<Longrightarrow> length (gpr c') = 13 \<Longrightarrow>
    bank_sp c' MODE_IRQ = bank_sp c MODE_IRQ \<Longrightarrow> ld32 (core_mem c') (switch_interrupt_flag w) = ld32 (core_mem c) (switch_interrupt_flag w) \<Longrightarrow>
    (\<And>i v. i \<noteq> current_id k \<Longrightarrow> parked_at (field i) v (core_mem c) \<Longrightarrow> parked_at (field i) v (core_mem c')) \<Longrightarrow>
    machine_step w field irq Local (k, c) (k', c')"
| Creates: "thread_create nm base len p tck k = (Some i, k') \<Longrightarrow> disjoint_areas w field irq k' \<Longrightarrow>
    has_room k' i ((base + len) AND NOT 7) \<Longrightarrow> cpsr k' = core_cpsr c' \<Longrightarrow> core_mode c' = MODE_SVC \<Longrightarrow>
    length (gpr c') = 13 \<Longrightarrow> bank_sp c' MODE_IRQ = bank_sp c MODE_IRQ \<Longrightarrow>
    stack_init entry parameter base len exit_fn (core_mem c) = (frame, m) \<Longrightarrow> core_mem c' = st32 m (field i) frame \<Longrightarrow>
    machine_step w field irq Local (k, c) (k', c')"
| Yields: "do_schedule k = Some (True, k') \<Longrightarrow> gpr c ! 0 = field (current_id k) \<Longrightarrow> gpr c ! 1 = field (current_id k') \<Longrightarrow>
    has_room k (current_id k) (get_sp c) \<Longrightarrow> machine_step w field irq Cooperative (k, c) (k', asm_context_switch c)"
| Interrupts: "core_cpsr c AND I_BIT = 0 \<Longrightarrow> has_room k (current_id k) (bank_sp c MODE_SVC) \<Longrightarrow>
    isr_run (k\<lparr>cpsr := core_cpsr (take_irq c)\<rparr>) k1 \<Longrightarrow> trap_returns trap (irq_saved (take_irq c)) \<Longrightarrow>
    request_of w field k1 (core_mem (trap (irq_saved (take_irq c)))) \<Longrightarrow>
    (\<And>i v. i \<noteq> current_id k \<Longrightarrow> parked_at (field i) v (core_mem (irq_saved (take_irq c))) \<Longrightarrow>
       parked_at (field i) v (core_mem (trap (irq_saved (take_irq c))))) \<Longrightarrow>
    machine_step w field irq Preemptive (k, c) (irq_exit (core_cpsr c) k1, asm_irq w trap (take_irq c))"

text \<open>A thread that gives the processor away goes on where it called, with interrupts enabled; one
  that was preempted goes on exactly where it was.\<close>

fun left_view :: "step_kind \<Rightarrow> core \<Rightarrow> view" where
  "left_view Cooperative c = (gpr c, get_sp c, get_lr c, get_lr c, core_cpsr c AND NOT I_BIT)"
| "left_view e c = thread_view c"

definition machine_ok :: "switch_words \<Rightarrow> (nat \<Rightarrow> u32) \<Rightarrow> u32 \<Rightarrow> machine \<Rightarrow> bool" where
  "machine_ok w field irq = (\<lambda>(k, c). disjoint_areas w field irq k \<and> live k (current_id k) \<and> cpsr k = core_cpsr c \<and>
     core_mode c = MODE_SVC \<and> length (gpr c) = 13 \<and> bank_sp c MODE_IRQ = irq + 56 \<and>
     \<not> switch_flag k \<and> ld32 (core_mem c) (switch_interrupt_flag w) \<noteq> 1 \<and>
     (\<forall>i. live k i \<longrightarrow> i \<noteq> current_id k \<longrightarrow> (\<exists>v. parked field k (core_mem c) i v)))"

text \<open>What a step does to the threads: those that do not run before or after stay as they are, the
  one that leaves is parked, the one that comes finds its view.\<close>

definition threads_kept :: "(nat \<Rightarrow> u32) \<Rightarrow> step_kind \<Rightarrow> machine \<Rightarrow> machine \<Rightarrow> bool" where
  "threads_kept field e = (\<lambda>(k, c) (k', c').
     (\<forall>i v. i \<noteq> current_id k \<longrightarrow> i \<noteq> current_id k' \<longrightarrow> parked field k (core_mem c) i v \<longrightarrow> parked field k' (core_mem c') i v) \<and>
     (current_id k' \<noteq> current_id k \<longrightarrow> parked field k' (core_mem c') (current_id k) (left_view e c) \<and>
        (\<forall>v. parked field k (core_mem c) (current_id k') v \<longrightarrow> thread_view c' = v)))"

section \<open>Each step keeps the threads\<close>

lemma runs_keeps:
  assumes "machine_ok w field irq (k, c)" "update_ok k k'" "cpsr k' = core_cpsr c'" "core_mode c' = MODE_SVC" "length (gpr c') = 13"
    "bank_sp c' MODE_IRQ = bank_sp c MODE_IRQ" "ld32 (core_mem c') (switch_interrupt_flag w) = ld32 (core_mem c) (switch_interrupt_flag w)"
    and frames: "\<And>i v. i \<noteq> current_id k \<Longrightarrow> parked_at (field i) v (core_mem c) \<Longrightarrow> parked_at (field i) v (core_mem c')"
  shows "machine_ok w field irq (k', c') \<and> threads_kept field Local (k, c) (k', c')"
proof -
  have p: "parked field k' (core_mem c') i v" if "i \<noteq> current_id k" "parked field k (core_mem c) i v" for i v
    using that frames [OF that(1)] same_stacks_room [of k k'] assms(2) by (simp add: parked_def update_ok_def)
  have s: "same_stacks k k'" "current_id k' = current_id k" "switch_flag k' = switch_flag k" using assms(2) by (simp_all add: update_ok_def)
  have "\<exists>v. parked field k' (core_mem c') i v" if "live k' i" "i \<noteq> current_id k" for i
    using that p same_stacks_live [OF s(1)] assms(1) by (fastforce simp: machine_ok_def)
  then show ?thesis using assms p s same_stacks_live [OF s(1)]
    by (simp add: machine_ok_def threads_kept_def same_stacks_disjoint [OF s(1)])
qed

text \<open>The first frame of a thread.\<close>

definition first_view :: "u32 \<Rightarrow> u32 \<Rightarrow> u32 \<Rightarrow> usize \<Rightarrow> u32 \<Rightarrow> view" where
  "first_view entry parameter base len exit_fn = (parameter # replicate 12 0, (base + len) AND NOT 7, exit_fn, entry, 0x13)"

lemma new_thread_parked:
  assumes "stack_init entry parameter base len exit_fn M = (frame, m)" "clear (((base + len) AND NOT 7) - 64) 16 f 1"
  shows "parked_at f (first_view entry parameter base len exit_fn) (st32 m f frame)"
proof -
  let ?s = "((base + len) AND NOT 7) - 64" let ?ws = "[0x13, parameter] @ replicate 12 0 @ [exit_fn, entry]"
  have f: "frame = ?s" "m = stm ?s ?ws M"
    using assms(1) unfolding stack_init_def stack_frame_def Let_def prod.inject by metis+
  have l: "length ?ws = 16" by simp
  have "ldm ?s 16 m = ?ws" unfolding f(2) using ldm_stm [of ?s ?ws M] assms(2) unfolding l
    by (simp add: clear_def del: stm.simps append.simps)
  moreover have "ldm ?s 16 (st32 m f frame) = ldm ?s 16 m" using assms(2) by (simp add: ldm_st32 clear_sym)
  ultimately show ?thesis by (simp add: parked_at_def first_view_def f(1))
qed

lemma stack_init_keeps:
  assumes "stack_init entry parameter base len exit_fn M = (frame, m)" "clear (((base + len) AND NOT 7) - 64) 16 b n" "clear f 1 b n"
  shows "ldm b n (st32 m f frame) = ldm b n M"
proof -
  let ?s = "((base + len) AND NOT 7) - 64" let ?ws = "[0x13, parameter] @ replicate 12 0 @ [exit_fn, entry]"
  have f: "m = stm ?s ?ws M"
    using assms(1) unfolding stack_init_def stack_frame_def Let_def prod.inject by metis
  have l: "length ?ws = 16" by simp
  then show ?thesis using assms(2,3) ldm_stm_clear [of ?s ?ws b n M] unfolding l f by (simp add: ldm_st32 del: stm.simps append.simps)
qed

lemma thread_create_new:
  assumes "thread_create nm base len p tck k = (Some i, k')"
  shows "\<not> live k i" "live k' i" "\<And>j. j \<noteq> i \<Longrightarrow> threads k' j = threads k j \<and> saved_cpsr k' j = saved_cpsr k j" "saved_cpsr k' i = 0x13"
    "current_id k' = current_id k" "switch_flag k' = switch_flag k"
proof -
  from assms have f: "free_slot k = Some i"
    by (auto simp: thread_create_def thread_create_inner_def mask_kernel_def free_slot_def Let_def split: option.splits prod.splits)
  then show "\<not> live k i" by (auto simp: live_def free_slot_def find_Some_iff)
  show "live k' i" "\<And>j. j \<noteq> i \<Longrightarrow> threads k' j = threads k j \<and> saved_cpsr k' j = saved_cpsr k j" "saved_cpsr k' i = 0x13"
    "current_id k' = current_id k" "switch_flag k' = switch_flag k"
    using assms by (auto simp: live_def thread_create_def thread_create_inner_def mask_kernel_def unmask_kernel_def set_thread_def
        Let_def split: option.splits prod.splits)
qed

lemma creates_keeps:
  assumes ok: "machine_ok w field irq (k, c)" and cr: "thread_create nm base len p tck k = (Some i, k')"
    and lay: "disjoint_areas w field irq k'" and room: "has_room k' i ((base + len) AND NOT 7)"
    and c': "cpsr k' = core_cpsr c'" "core_mode c' = MODE_SVC" "length (gpr c') = 13" "bank_sp c' MODE_IRQ = bank_sp c MODE_IRQ"
    and si: "stack_init entry parameter base len exit_fn (core_mem c) = (frame, m)" "core_mem c' = st32 m (field i) frame"
  shows "machine_ok w field irq (k', c') \<and> threads_kept field Local (k, c) (k', c')"
proof -
  note n = thread_create_new [OF cr]
  let ?sp = "(base + len) AND NOT 7"
  have room': "has_room k' j sp = has_room k j sp" if "j \<noteq> i" for j sp using n(3) [OF that] by (simp add: has_room_def)
  have keep: "ldm b m' (core_mem c') = ldm b m' (core_mem c)" if "clear (?sp - 64) 16 b m'" "clear (field i) 1 b m'" for b m'
    unfolding si(2) using that by (rule stack_init_keeps [OF si(1)])
  have old: "parked field k' (core_mem c') j v" if "j \<noteq> i" "parked field k (core_mem c) j v" for j v
  proof -
    have r: "has_room k' j (view_sp v)" using that room' by (simp add: parked_def)
    note cl = frames_clear [OF lay room r that(1) [symmetric]]
    have "clear (field i) 1 (view_sp v - 64) 16" using frames_clear(2) [OF lay r room that(1)] by (simp add: clear_sym)
    with that keep cl keep [of "field j" 1] r n(3) [OF that(1)] show ?thesis by (cases v) (simp add: parked_def parked_at_def)
  qed
  have "clear (?sp - 64) 16 (field i) 1" by (rule room_frame [OF lay room, of "SpField i" _ 4]) (simp_all add: n(2))
  then have new: "parked field k' (core_mem c') i (first_view entry parameter base len exit_fn)"
    using new_thread_parked [OF si(1)] room n(4) by (simp add: parked_def si(2)) (simp add: first_view_def MODE_MASK_def MODE_SVC_def)
  have "clear (?sp - 64) 16 (switch_interrupt_flag w) 1" by (rule room_frame [OF lay room, of FlagWord _ 4]) simp_all
  moreover have "clear (field i) 1 (switch_interrupt_flag w) 1"
    by (rule areas_clear [OF lay, of "SpField i" _ 4 FlagWord _ 4]) (simp_all add: n(2))
  ultimately have fl: "ld32 (core_mem c') (switch_interrupt_flag w) = ld32 (core_mem c) (switch_interrupt_flag w)"
    using keep [of "switch_interrupt_flag w" 1] by simp
  have cur: "current_id k \<noteq> i" using ok n(1) by (auto simp: machine_ok_def)
  have l: "live k' j = live k j" if "j \<noteq> i" for j using n(3) [OF that] by (simp add: live_def)
  have all: "\<exists>v. parked field k (core_mem c) j v" if "live k j" "j \<noteq> current_id k" for j
    using ok that by (simp add: machine_ok_def)
  have "\<exists>v. parked field k' (core_mem c') j v" if "live k' j" "j \<noteq> current_id k" for j
  proof (cases "j = i")
    case False then show ?thesis using that l all old by metis
  qed (use new in blast)
  moreover have "live k' (current_id k)" using ok n(3) [OF cur] by (simp add: machine_ok_def live_def)
  moreover have "parked field k' (core_mem c') j v" if "parked field k (core_mem c) j v" for j v
    using that old n(1) parked_live by metis
  ultimately show ?thesis using ok c' lay fl n(5,6) by (simp add: machine_ok_def threads_kept_def)
qed

text \<open>The frame of another thread survives what is written at a free frame and a few words.\<close>

lemma parked_survives:
  assumes "disjoint_areas w field irq k" "has_room k r sp" "i \<noteq> r" "parked field k m i v"
    and "\<And>b n. clear (sp - 64) 16 b n \<Longrightarrow> clear (field r) 1 b n \<Longrightarrow> clear (switch_interrupt_flag w) 1 b n \<Longrightarrow> ldm b n m' = ldm b n m"
    and "same_stacks k k'" "saved_cpsr k' i = saved_cpsr k i"
  shows "parked field k' m' i v"
proof (rule parked_cong [OF assms(4) _ _ assms(6,7)])
  have r: "has_room k i (view_sp v)" using assms(4) by (simp add: parked_def)
  note cl = frames_clear [OF assms(1,2) r assms(3) [symmetric]]
  have "clear (field r) 1 (view_sp v - 64) 16" using frames_clear(2) [OF assms(1) r assms(2,3)] by (simp add: clear_sym)
  moreover have "clear (view_sp v - 64) 16 (switch_interrupt_flag w) 1" by (rule room_frame [OF assms(1) r, of FlagWord _ 4]) simp_all
  then have "clear (switch_interrupt_flag w) 1 (view_sp v - 64) 16" by (simp add: clear_sym)
  ultimately show "ldm (view_sp v - 64) 16 m' = ldm (view_sp v - 64) 16 m" using cl(1) assms(5) by blast
  have "clear (switch_interrupt_flag w) 1 (field i) 1"
    by (rule areas_clear [OF assms(1), of FlagWord _ 4 "SpField i" _ 4]) (simp_all add: room_live [OF r])
  then show "ld32 m' (field i) = ld32 m (field i)" using assms(5) [OF cl(2,3)] by simp
qed

lemma context_switch_stacks: "same_stacks k (context_switch i j k)" by (simp add: context_switch_def same_stacks_def)

text \<open>The end of a switch: the thread that leaves and all others are parked, and the processor is
  loaded with the view of the next.\<close>

lemma switch_completes:
  assumes ok: "machine_ok w field irq (k, c)" and st: "same_stacks k k'" and t: "live k (current_id k')"
    and k': "cpsr k' = saved_cpsr k' (current_id k')" "\<not> switch_flag k'"
    and d: "core_mode d = MODE_SVC" "length (gpr d) = 13" "bank_sp d MODE_IRQ = irq + 56" "ld32 (core_mem d) (switch_interrupt_flag w) \<noteq> 1"
    and left: "parked field k' (core_mem d) (current_id k) (left_view e c)"
    and others: "\<And>i v. i \<noteq> current_id k \<Longrightarrow> parked field k (core_mem c) i v \<Longrightarrow> parked field k' (core_mem d) i v"
  shows "machine_ok w field irq (k', switch_in (field (current_id k')) d) \<and>
    threads_kept field e (k, c) (k', switch_in (field (current_id k')) d)"
proof -
  let ?t = "current_id k'"
  note ok' = ok [unfolded machine_ok_def split_conv]
  have "\<exists>v. parked field k (core_mem c) i v" if "live k i" "i \<noteq> current_id k" for i using ok' that by blast
  then have every: "\<exists>v. parked field k' (core_mem d) i v" if "live k i" for i using left others that by metis
  from every [OF t] obtain v where v: "parked field k' (core_mem d) ?t v" ..
  note inn = switch_in_parked [OF d(1,2) v]
  have "thread_view (switch_in (field ?t) d) = v'" if "parked field k (core_mem c) ?t v'" "?t \<noteq> current_id k" for v'
    by (rule switch_in_parked(1) [OF d(1,2) others [OF that(2,1)]])
  then show ?thesis
    using ok' left others every inn k' t d same_stacks_disjoint [OF st] same_stacks_live [OF st]
    by (simp add: machine_ok_def threads_kept_def switch_in_mem switch_in_bank)
qed

lemma status_enabled: "(c AND NOT I_BIT) AND MODE_MASK = c AND MODE_MASK"
  by (rule bit_word_eqI) (auto simp: I_BIT_def MODE_MASK_def bit_simps numeral_eq_Suc less_Suc_eq)

lemma yields_keeps:
  assumes ok: "machine_ok w field irq (k, c)" and ds: "do_schedule k = Some (True, k')"
    and g: "gpr c ! 0 = field (current_id k)" "gpr c ! 1 = field (current_id k')" and room: "has_room k (current_id k) (get_sp c)"
  shows "machine_ok w field irq (k', asm_context_switch c) \<and> threads_kept field Cooperative (k, c) (k', asm_context_switch c)"
proof -
  let ?r = "current_id k" and ?d = "switch_out c"
  obtain k1 where k1: "same_stacks k k1" "saved_cpsr k1 = saved_cpsr k" "cpsr k1 = cpsr k" "switch_flag k1 = switch_flag k"
    "k' = context_switch ?r (current_id k1) k1" "current_id k1 \<noteq> ?r" "live k ?r" "live k (current_id k1)"
    using ds by (rule do_schedule_stacks)
  have t: "current_id k1 = current_id k'" by (simp add: k1(5) context_switch_def)
  have st: "same_stacks k k'" using same_stacks_trans [OF k1(1) context_switch_stacks] by (simp add: k1(5))
  have k': "saved_cpsr k' = (saved_cpsr k)(?r := cpsr k AND NOT I_BIT)" "cpsr k' = saved_cpsr k' (current_id k')" "switch_flag k' = switch_flag k"
    using k1 by (simp_all add: k1(5) context_switch_def)
  note ok' = ok [unfolded machine_ok_def split_conv]
  have lay: "disjoint_areas w field irq k" and m: "core_mode c = MODE_SVC" "length (gpr c) = 13" "core_cpsr c = cpsr k" using ok' by simp_all
  have cl: "clear (get_sp c - 64) 16 (gpr c ! 0) 1"
    unfolding g(1) by (rule room_frame [OF lay room, of "SpField ?r" _ 4]) (simp_all add: k1(7))
  note out = switch_out_parks [OF m(1,2) _ cl]
  have d: "core_mode ?d = MODE_SVC" "length (gpr ?d) = 13" "gpr ?d ! 1 = field (current_id k')" using out m(2) g(2) by simp_all
  have left: "parked field k' (core_mem ?d) ?r (left_view Cooperative c)"
    using out g(1) m k' same_stacks_room [OF st room] status_enabled by (simp add: parked_def I_BIT_def) (simp add: core_mode_def)
  have keep: "ldm b n (core_mem ?d) = ldm b n (core_mem c)" if "clear (get_sp c - 64) 16 b n" "clear (field ?r) 1 b n" for b n
    by (rule switch_out_keeps [OF m(2) _ that(1)]) (use that g in simp_all)
  have others: "parked field k' (core_mem ?d) i v" if "i \<noteq> ?r" "parked field k (core_mem c) i v" for i v
    by (rule parked_survives [OF lay room that keep st]) (use that k' in simp_all)
  have "clear (get_sp c - 64) 16 (switch_interrupt_flag w) 1" "clear (field ?r) 1 (switch_interrupt_flag w) 1"
    by (rule room_frame [OF lay room, of FlagWord _ 4], simp_all)
      (rule areas_clear [OF lay, of "SpField ?r" _ 4 FlagWord _ 4], simp_all add: k1(7))
  then have fl: "ld32 (core_mem ?d) (switch_interrupt_flag w) \<noteq> 1" using keep [of "switch_interrupt_flag w" 1] ok' by simp
  have "asm_context_switch c = switch_in (field (current_id k')) ?d" using d(3) by (simp add: asm_context_switch_def Let_def)
  then show ?thesis
    using switch_completes [OF ok st _ k'(2) _ d(1,2) _ fl left others] k1(8) t k'(3) ok' switch_out_bank [OF m(1)] by simp
qed

lemma irq_saved_mem:
  assumes "core_mode c = MODE_SVC" "length (gpr c) = 13" "bank_sp c MODE_IRQ = irq + 56" "clear irq 14 b n"
  shows "ldm b n (core_mem (irq_saved (take_irq c))) = ldm b n (core_mem c)"
proof -
  note t = take_irq_state [OF assms(1)]
  have "get_sp (take_irq c) = irq + 56" unfolding get_sp_def t(1) t(3) by (rule assms(3))
  moreover have "core_mem (take_irq c) = core_mem c" by (simp add: take_irq_def)
  ultimately have "core_mem (irq_saved (take_irq c)) = stm irq (gpr c @ [core_pc c + 4]) (core_mem c)"
    using assms(2) t by (simp add: irq_saved_def)
  then show ?thesis using assms(2,4) by (simp add: ldm_stm_clear)
qed

lemma irq_return_state:
  assumes "core_mode d = MODE_IRQ" "get_sp d = irq" "ldm (get_sp d) 14 (core_mem d) = regs @ [pc + 4]" "length regs = 13"
  shows "core_mem (irq_return d) = core_mem d" "bank_sp (irq_return d) MODE_IRQ = irq + 56"
  using assms by (simp_all add: irq_return_def Let_def ldmfd_def bank_own)

lemma request_pending:
  "request_of w field k m \<Longrightarrow> switch_flag k \<Longrightarrow> ld32 m (switch_interrupt_flag w) = 1 \<and>
     ld32 m (interrupt_from_thread w) = field (irq_from k) \<and> ld32 m (interrupt_to_thread w) = field (irq_to k)"
  by (simp add: request_of_def)

text \<open>The areas that the IRQ wrapper needs apart.\<close>

lemma areas_switch_apart:
  assumes "disjoint_areas w field irq k" "has_room k r sp"
  shows "switch_apart w (sp - 64) irq (field r)"
proof -
  have r: "live k r" using assms(2) by (rule room_live)
  have "clear (sp - 64) 16 irq 14" by (rule room_frame [OF assms, of IrqStack _ 56]) simp_all
  moreover have "clear (sp - 64) 16 (field r) 1" by (rule room_frame [OF assms, of "SpField r" _ 4]) (simp_all add: r)
  moreover have "clear (sp - 64) 16 (switch_interrupt_flag w) 1" by (rule room_frame [OF assms, of FlagWord _ 4]) simp_all
  moreover have "clear (sp - 64) 16 (interrupt_from_thread w) 1" by (rule room_frame [OF assms, of FromWord _ 4]) simp_all
  moreover have "clear (sp - 64) 16 (interrupt_to_thread w) 1" by (rule room_frame [OF assms, of ToWord _ 4]) simp_all
  moreover have "clear irq 14 (switch_interrupt_flag w) 1" by (rule areas_clear [OF assms(1), of IrqStack _ 56 FlagWord _ 4]) simp_all
  moreover have "clear irq 14 (interrupt_from_thread w) 1" by (rule areas_clear [OF assms(1), of IrqStack _ 56 FromWord _ 4]) simp_all
  moreover have "clear irq 14 (interrupt_to_thread w) 1" by (rule areas_clear [OF assms(1), of IrqStack _ 56 ToWord _ 4]) simp_all
  moreover have "clear (switch_interrupt_flag w) 1 (interrupt_from_thread w) 1" by (rule areas_clear [OF assms(1), of FlagWord _ 4 FromWord _ 4]) simp_all
  moreover have "clear (switch_interrupt_flag w) 1 (interrupt_to_thread w) 1" by (rule areas_clear [OF assms(1), of FlagWord _ 4 ToWord _ 4]) simp_all
  moreover have "clear (switch_interrupt_flag w) 1 (field r) 1" by (rule areas_clear [OF assms(1), of FlagWord _ 4 "SpField r" _ 4]) (simp_all add: r)
  moreover have "clear (field r) 1 (interrupt_to_thread w) 1" by (rule areas_clear [OF assms(1), of "SpField r" _ 4 ToWord _ 4]) (simp_all add: r)
  ultimately show ?thesis unfolding switch_apart_def by blast
qed

text \<open>The frames of the other threads when the handler returns.\<close>

lemma parked_after_trap:
  assumes "disjoint_areas w field irq k" "core_mode c = MODE_SVC" "length (gpr c) = 13" "bank_sp c MODE_IRQ = irq + 56"
    and "parked field k (core_mem c) i v" "parked_at (field i) v (core_mem (irq_saved (take_irq c))) \<Longrightarrow> parked_at (field i) v m"
  shows "parked field k m i v"
proof -
  have r: "has_room k i (view_sp v)" using assms(5) by (simp add: parked_def)
  have "clear (view_sp v - 64) 16 irq 14" by (rule room_frame [OF assms(1) r, of IrqStack _ 56]) simp_all
  moreover have "clear irq 14 (field i) 1"
    by (rule areas_clear [OF assms(1), of IrqStack _ 56 "SpField i" _ 4]) (simp_all add: room_live [OF r])
  ultimately have "parked_at (field i) v (core_mem (irq_saved (take_irq c)))"
    using irq_saved_mem [OF assms(2-4), of "field i" 1] irq_saved_mem [OF assms(2-4), of "view_sp v - 64" 16] assms(5)
    by (cases v) (simp add: parked_def parked_at_def clear_sym)
  with assms(5,6) show ?thesis by (simp add: parked_def)
qed

text \<open>Without a request the interrupted thread goes on.\<close>

lemma irq_continues:
  assumes ok: "machine_ok w field irq (k, c)" and st: "same_stacks k k'"
    and k': "saved_cpsr k' = saved_cpsr k" "cpsr k' = core_cpsr c" "current_id k' = current_id k" "\<not> switch_flag k'"
    and d: "core_mode d = MODE_IRQ" "get_sp d = irq" "get_spsr d = core_cpsr c" "ld32 (core_mem d) (switch_interrupt_flag w) \<noteq> 1"
      "bank_sp d MODE_SVC = bank_sp c MODE_SVC" "bank_lr d MODE_SVC = bank_lr c MODE_SVC"
    and saved: "ldm (get_sp d) 14 (core_mem d) = gpr c @ [core_pc c + 4]"
    and trapped: "\<And>i v. i \<noteq> current_id k \<Longrightarrow> parked field k (core_mem c) i v \<Longrightarrow> parked field k (core_mem d) i v"
  shows "machine_ok w field irq (k', irq_return d) \<and> threads_kept field Preemptive (k, c) (k', irq_return d)"
proof -
  note ok' = ok [unfolded machine_ok_def split_conv]
  have l: "length (gpr c) = 13" using ok' by simp
  note ret = irq_return_state [OF d(1,2) saved l]
  have v: "thread_view (irq_return d) = thread_view c" using irq_return_view [OF d(1) saved l] d by (simp add: thread_view_def)
  have p: "parked field k' (core_mem (irq_return d)) i v" if "i \<noteq> current_id k" "parked field k (core_mem c) i v" for i v
    using parked_cong [OF trapped [OF that] _ _ st] ret(1) k' by simp
  have "\<exists>v. parked field k (core_mem c) i v" if "live k i" "i \<noteq> current_id k" for i using ok' that by blast
  then have "\<exists>v. parked field k' (core_mem (irq_return d)) i v" if "live k' i" "i \<noteq> current_id k" for i
    using that p same_stacks_live [OF st] by metis
  then show ?thesis
    using ok' p v k' d(4) ret same_stacks_disjoint [OF st] same_stacks_live [OF st]
    by (simp add: machine_ok_def threads_kept_def thread_view_def core_mode_def)
qed

text \<open>With a request, it is parked and the thread that was chosen goes on.\<close>

lemma irq_switches:
  assumes ok: "machine_ok w field irq (k, c)" and room: "has_room k (current_id k) (bank_sp c MODE_SVC)" and st: "same_stacks k k'"
    and k': "saved_cpsr k' = (saved_cpsr k)(current_id k := core_cpsr c)" "cpsr k' = saved_cpsr k' (current_id k')" "\<not> switch_flag k'" "live k (current_id k')"
    and d: "core_mode d = MODE_IRQ" "length (gpr d) = 13" "gpr d ! 0 = switch_interrupt_flag w" "get_sp d = irq" "get_spsr d = core_cpsr c"
      "bank_sp d MODE_SVC = bank_sp c MODE_SVC" "bank_lr d MODE_SVC = bank_lr c MODE_SVC"
    and saved: "ldm (get_sp d) 14 (core_mem d) = gpr c @ [core_pc c + 4]"
    and rq: "ld32 (core_mem d) (interrupt_from_thread w) = field (current_id k)" "ld32 (core_mem d) (interrupt_to_thread w) = field (current_id k')"
    and trapped: "\<And>i v. i \<noteq> current_id k \<Longrightarrow> parked field k (core_mem c) i v \<Longrightarrow> parked field k (core_mem d) i v"
  defines "c' \<equiv> switch_in (gpr (irq_switch_out w d) ! 6) (irq_switch_out w d)"
  shows "machine_ok w field irq (k', c') \<and> threads_kept field Preemptive (k, c) (k', c')"
proof -
  let ?e = "irq_switch_out w d" and ?r = "current_id k"
  note ok' = ok [unfolded machine_ok_def split_conv]
  have lay: "disjoint_areas w field irq k" and m: "core_mode c = MODE_SVC" "length (gpr c) = 13" using ok' by simp_all
  have ap: "switch_apart w (bank_sp c MODE_SVC - 64) (get_sp d) (field ?r)" using areas_switch_apart [OF lay room] by (simp add: d(4))
  have s: "bank_sp d MODE_SVC = (bank_sp c MODE_SVC - 64) + 64" using d(6) by simp
  note p = irq_switch_out_parks [OF d(1,2,3) ap saved m(2) s rq(1)] and kp = irq_switch_out_keeps [OF d(1,2,3) ap saved m(2) s rq(1)]
  have left: "parked field k' (core_mem ?e) ?r (left_view Preemptive c)"
    using p same_stacks_room [OF st room] k' m(1) d by (simp add: parked_def thread_view_def) (simp add: core_mode_def)
  have others: "parked field k' (core_mem ?e) i v" if "i \<noteq> ?r" "parked field k (core_mem c) i v" for i v
    by (rule parked_survives [OF lay room that(1) trapped [OF that] _ st]) (use kp(1) k' that in simp_all)
  have "c' = switch_in (field (current_id k')) ?e" using p rq by (simp add: c'_def)
  then show ?thesis using switch_completes [OF ok st k'(4,2,3) _ kp(3) _ _ left others] p kp(2) d(4) by simp
qed

lemma interrupts_keeps:
  assumes ok: "machine_ok w field irq (k, c)" and room: "has_room k (current_id k) (bank_sp c MODE_SVC)"
    and run: "isr_run (k\<lparr>cpsr := core_cpsr (take_irq c)\<rparr>) k1" and trap: "trap_returns trap (irq_saved (take_irq c))"
    and req: "request_of w field k1 (core_mem (trap (irq_saved (take_irq c))))"
    and frames: "\<And>i v. i \<noteq> current_id k \<Longrightarrow> parked_at (field i) v (core_mem (irq_saved (take_irq c))) \<Longrightarrow>
       parked_at (field i) v (core_mem (trap (irq_saved (take_irq c))))"
  defines "k' \<equiv> irq_exit (core_cpsr c) k1" and "c' \<equiv> asm_irq w trap (take_irq c)"
  shows "machine_ok w field irq (k', c') \<and> threads_kept field Preemptive (k, c) (k', c')"
proof -
  let ?r = "current_id k" and ?t = "current_id k1" and ?m = "core_mem (trap (irq_saved (take_irq c)))"
  note ok' = ok [unfolded machine_ok_def split_conv]
  have lay: "disjoint_areas w field irq k" and m: "core_mode c = MODE_SVC" "length (gpr c) = 13" "bank_sp c MODE_IRQ = irq + 56"
    using ok' by simp_all
  have "same_stacks (k\<lparr>cpsr := core_cpsr (take_irq c)\<rparr>) k1 \<and> saved_cpsr k1 = saved_cpsr k \<and> live k ?t \<and>
      (if switch_flag k1 then irq_from k1 = ?r \<and> irq_to k1 = ?t else ?t = ?r)"
    using isr_run_request [OF run] ok' by (simp add: live_def)
  then have st: "same_stacks k k'" and k1: "saved_cpsr k1 = saved_cpsr k" "live k ?t"
    "if switch_flag k1 then irq_from k1 = ?r \<and> irq_to k1 = ?t else ?t = ?r" by (simp_all add: same_stacks_def k'_def irq_exit_def)
  have cur: "current_id k' = ?t" "\<not> switch_flag k'" by (simp_all add: k'_def irq_exit_def)
  have "unat irq + 56 < 2 ^ 32" using areas_switch_apart [OF lay room] by (simp add: switch_apart_def clear_def)
  from irq_taken [OF m this trap, of w] obtain d where d: "core_mode d = MODE_IRQ" "core_mem d = ?m" "length (gpr d) = 13"
    "gpr d ! 0 = switch_interrupt_flag w" "get_sp d = irq" "get_spsr d = core_cpsr c" "bank_sp d MODE_SVC = bank_sp c MODE_SVC"
    "bank_lr d MODE_SVC = bank_lr c MODE_SVC" "ldm (get_sp d) 14 (core_mem d) = gpr c @ [core_pc c + 4]"
    "c' = (if ld32 ?m (switch_interrupt_flag w) = 1 then switch_in (gpr (irq_switch_out w d) ! 6) (irq_switch_out w d) else irq_return d)"
    unfolding c'_def by blast
  have trapped: "parked field k (core_mem d) i v" if "i \<noteq> ?r" "parked field k (core_mem c) i v" for i v
    unfolding d(2) by (rule parked_after_trap [OF lay m that(2)]) (rule frames [OF that(1)])
  show ?thesis
  proof (cases "switch_flag k1")
    case False
    then have fl: "ld32 (core_mem d) (switch_interrupt_flag w) \<noteq> 1" using req by (simp add: request_of_def d(2))
    have "saved_cpsr k' = saved_cpsr k" "cpsr k' = core_cpsr c" "current_id k' = ?r" using False k1 cur by (simp_all add: k'_def irq_exit_def)
    from irq_continues [OF ok st this cur(2) d(1,5,6) fl d(7-9) trapped] fl show ?thesis by (simp add: d(10)) (simp add: d(2))
  next
    case True
    have rq: "ld32 ?m (switch_interrupt_flag w) = 1" "ld32 (core_mem d) (interrupt_from_thread w) = field ?r"
      "ld32 (core_mem d) (interrupt_to_thread w) = field (current_id k')"
      using request_pending [OF req True] k1(3) True by (simp_all add: cur(1) d(2))
    have "saved_cpsr k' = (saved_cpsr k)(?r := core_cpsr c)" "cpsr k' = saved_cpsr k' (current_id k')"
      using True k1 by (simp_all add: k'_def irq_exit_def)
    from irq_switches [OF ok room st this cur(2) k1(2) [folded cur(1)] d(1,3,4,5-9) rq(2,3) trapped] rq(1) show ?thesis by (simp add: d(10))
  qed
qed

theorem machine_step_keeps:
  assumes "machine_step w field irq e s s'" "machine_ok w field irq s"
  shows "machine_ok w field irq s' \<and> threads_kept field e s s'"
  using assms
proof (cases rule: machine_step.cases)
  case (Runs k k' c' c) then show ?thesis using runs_keeps [of w field irq k c k' c'] assms(2) by blast
next
  case (Creates nm base len p tck k i k' c' c entry parameter exit_fn frame m)
  with creates_keeps [of w field irq k c nm base len p tck i k' c' entry parameter exit_fn frame m] assms(2) show ?thesis by blast
next
  case (Yields k k' c) then show ?thesis using yields_keeps [of w field irq k c k'] assms(2) by blast
next
  case (Interrupts c k k1 trap) then show ?thesis using interrupts_keeps [of w field irq k c k1 trap] assms(2) by blast
qed

end
