(* ===== verification/Switching_Ops.thy ===== *)
theory Switching_Ops
  imports Switching
begin

text \<open>
  The operations of \<open>thread.rs\<close> are steps of the machine of theory \<open>Switching\<close>: each call that gives
  the processor away is an update of the kernel followed by the switch it decides on, and
  the tick is a run of a handler.
\<close>

section \<open>Updates\<close>

text \<open>An update that also keeps the CPSR words.\<close>

definition quiet_update :: "kernel \<Rightarrow> kernel \<Rightarrow> bool" where
  "quiet_update k k' \<longleftrightarrow> update_ok k k' \<and> cpsr k' = cpsr k \<and> saved_cpsr k' = saved_cpsr k"

lemma quiet_refl [simp]: "quiet_update k k" by (simp add: quiet_update_def update_ok_def)

lemma quiet_trans: "quiet_update k k' \<Longrightarrow> quiet_update k' k'' \<Longrightarrow> quiet_update k k''"
  by (auto simp: quiet_update_def update_ok_def intro: same_stacks_trans)

lemma quiet_fields [simp]:
  "quiet_update k (k'\<lparr>ready_bitmap := b\<rparr>) = quiet_update k k'" "quiet_update k (k'\<lparr>tick_count := n\<rparr>) = quiet_update k k'"
  by (simp_all add: quiet_update_def update_ok_def same_stacks_def)

lemma quiet_clear [simp]: "quiet_update k (clear_ready_if_empty p k') = quiet_update k k'"
  by (simp add: clear_ready_if_empty_def)

lemma quiet_set_thread:
  "threads k i = Some t \<Longrightarrow> stack_base t' = stack_base t \<Longrightarrow> stack_size t' = stack_size t \<Longrightarrow> quiet_update k (set_thread i t' k)"
  using set_thread_stacks [of k i t t'] by (simp add: quiet_update_def update_ok_def set_thread_def)

lemma quiet_update_slot: "(\<And>t. stack_base (f t) = stack_base t \<and> stack_size (f t) = stack_size t) \<Longrightarrow> quiet_update k (update_slot i f k)"
  by (auto simp: update_slot_def quiet_set_thread split: option.splits)

lemma quiet_set_ready: "set_ready i p k = Some k' \<Longrightarrow> quiet_update k k'"
  by (auto simp: set_ready_def slot_def Let_def quiet_set_thread split: option.splits if_splits)

section \<open>Calls that give the processor away\<close>

definition schedules :: "kernel \<Rightarrow> bool \<Rightarrow> kernel \<Rightarrow> bool" where
  "schedules k b k' \<longleftrightarrow> (\<exists>k1. quiet_update k k1 \<and> do_schedule k1 = Some (b, k'))"

lemma schedulesI: "do_schedule k1 = Some (b, k') \<Longrightarrow> quiet_update k k1 \<Longrightarrow> schedules k b k'" by (auto simp: schedules_def)

lemma yield_schedules: "thread_yield_enter k = Some (b, k') \<Longrightarrow> schedules k b k'"
  by (auto simp: thread_yield_enter_def slot_def quiet_set_thread split: if_splits option.splits elim!: schedulesI)

lemma sleep_schedules: "thread_sleep_enter n k = Some (b, k') \<Longrightarrow> schedules k b k'"
  by (auto simp: thread_sleep_enter_def slot_def quiet_set_thread split: if_splits option.splits elim!: schedulesI)

lemma block_schedules: "block_current tmo k = Some (b, k') \<Longrightarrow> schedules k b k'"
  by (auto simp: block_current_def slot_def Let_def quiet_set_thread split: if_splits option.splits elim!: schedulesI)

lemma resume_schedules: "thread_resume_enter i k = Some (True, k') \<Longrightarrow> schedules k True k'"
  by (auto simp: thread_resume_enter_def slot_def split: if_splits option.splits Option.bind_splits elim!: schedulesI dest: quiet_set_ready)

text \<open>The two steps of such a call.\<close>

theorem schedules_steps:
  assumes "machine_ok w field irq (k, c)" "schedules k True k'" "gpr c ! 0 = field (current_id k)" "gpr c ! 1 = field (current_id k')"
    and "has_room k (current_id k) (get_sp c)"
  obtains k1 where "machine_step w field irq Local (k, c) (k1, c)" "machine_step w field irq Cooperative (k1, c) (k', asm_context_switch c)"
proof -
  from assms(2) obtain k1 where k1: "quiet_update k k1" "do_schedule k1 = Some (True, k')" by (auto simp: schedules_def)
  note u = k1(1) [unfolded quiet_update_def]
  have cur: "current_id k1 = current_id k" and st: "same_stacks k k1" using u by (simp_all add: update_ok_def)
  have "machine_step w field irq Local (k, c) (k1, c)"
    by (rule Runs) (use u assms(1) in \<open>simp_all add: machine_ok_def\<close>)
  moreover have "machine_step w field irq Cooperative (k1, c) (k', asm_context_switch c)"
    by (rule Yields [OF k1(2)]) (use assms(3-5) cur same_stacks_room [OF st] in simp_all)
  ultimately show thesis by (rule that)
qed

section \<open>The tick\<close>

lemma quiet_ready_thread:
  "set_ready i p (set_thread i t' k) = Some k' \<Longrightarrow> threads k i = Some t \<Longrightarrow> stack_base t' = stack_base t \<Longrightarrow> stack_size t' = stack_size t \<Longrightarrow>
     quiet_update k k'"
  by (rule quiet_trans [OF quiet_set_thread quiet_set_ready])

lemma wake_quiet: "wake_sleeper now i k = Some k' \<Longrightarrow> quiet_update k k'"
  by (auto simp: wake_sleeper_def slot_def Let_def split: if_splits option.splits elim!: quiet_ready_thread)

lemma wakes_quiet: "wake_sleepers now is k = Some k' \<Longrightarrow> quiet_update k k'"
  by (induction "is" arbitrary: k) (auto split: Option.bind_splits intro: quiet_trans wake_quiet)

lemma tick_signals_quiet: "quiet_update k (tick_signals k)"
  by (simp add: tick_signals_def quiet_update_slot Let_def)

lemma work: "isr_run k k1 \<Longrightarrow> quiet_update k1 k2 \<Longrightarrow> isr_run k k2"
  by (rule Work) (simp_all add: quiet_update_def)

lemma decide: "do_schedule_from_isr k2 = Some k3 \<Longrightarrow> isr_run k k1 \<Longrightarrow> quiet_update k1 k2 \<Longrightarrow> isr_run k k3"
  by (rule Decide [OF work])

lemma tick_slice_run: "isr_run k k1 \<Longrightarrow> tick_slice k1 = Some r \<Longrightarrow> isr_run k (case r of Inl k2 \<Rightarrow> k2 | Inr k2 \<Rightarrow> k2)"
  by (auto simp: tick_slice_def Let_def quiet_set_thread split: option.splits if_splits elim!: decide intro: work)

lemma tick_preempt_run: "isr_run k k1 \<Longrightarrow> tick_preempt k1 = Some k2 \<Longrightarrow> isr_run k k2"
  by (auto simp: tick_preempt_def Let_def slot_def quiet_set_thread split: option.splits if_splits elim!: decide)

theorem tick_run:
  assumes "sched_tick k = Some k'" shows "isr_run k k'"
proof -
  let ?k = "k\<lparr>tick_count := tick_count k + 1\<rparr>"
  from assms obtain k1 r where k1: "wake_sleepers (tick_count ?k) [0..<MAX_THREADS] ?k = Some k1"
    "tick_slice (tick_signals k1) = Some r" "(case r of Inl k \<Rightarrow> Some k | Inr k \<Rightarrow> tick_preempt k) = Some k'"
    by (auto simp: sched_tick_def Let_def split: Option.bind_splits)
  have "isr_run k ?k" by (rule work [OF Start]) simp
  then have "isr_run k (tick_signals k1)" by (rule work) (rule quiet_trans [OF wakes_quiet [OF k1(1)] tick_signals_quiet])
  from tick_slice_run [OF this k1(2)] k1(3) tick_preempt_run show ?thesis by (auto split: sum.splits)
qed

text \<open>An interrupt whose handler is the tick.\<close>

theorem tick_step:
  assumes "core_cpsr c AND I_BIT = 0" "has_room k (current_id k) (bank_sp c MODE_SVC)"
    and "sched_tick (k\<lparr>cpsr := core_cpsr (take_irq c)\<rparr>) = Some k1" "trap_returns trap (irq_saved (take_irq c))"
    and "request_of w field k1 (core_mem (trap (irq_saved (take_irq c))))"
    and "\<And>i v. i \<noteq> current_id k \<Longrightarrow> parked_at (field i) v (core_mem (irq_saved (take_irq c))) \<Longrightarrow>
       parked_at (field i) v (core_mem (trap (irq_saved (take_irq c))))"
  shows "machine_step w field irq Preemptive (k, c) (irq_exit (core_cpsr c) k1, asm_irq w trap (take_irq c))"
  by (rule Interrupts [OF assms(1,2) tick_run [OF assms(3)] assms(4-6)])

end
