(* ===== verification/Switching_Props.thy ===== *)
theory Switching_Props
  imports Switching
begin

text \<open>
  Runs of the machine of theory \<open>Switching\<close>: a thread that leaves the processor finds everything
  as it left it when it comes back, whatever ran in between.
\<close>

definition running :: "machine \<Rightarrow> nat" where "running s = current_id (fst s)"

text \<open>Any number of steps in which thread \<open>i\<close> does not get the processor.\<close>

inductive runs_without :: "switch_words \<Rightarrow> (nat \<Rightarrow> u32) \<Rightarrow> u32 \<Rightarrow> nat \<Rightarrow> machine \<Rightarrow> machine \<Rightarrow> bool" for w field irq i where
  Stop: "running s \<noteq> i \<Longrightarrow> runs_without w field irq i s s"
| More: "runs_without w field irq i s s' \<Longrightarrow> machine_step w field irq e s' s'' \<Longrightarrow> running s'' \<noteq> i \<Longrightarrow> runs_without w field irq i s s''"

definition parked_in :: "(nat \<Rightarrow> u32) \<Rightarrow> nat \<Rightarrow> view \<Rightarrow> machine \<Rightarrow> bool" where
  "parked_in field i v s = parked field (fst s) (core_mem (snd s)) i v"

lemma step_effects:
  assumes "machine_step w field irq e s s'" "machine_ok w field irq s"
  shows "machine_ok w field irq s'"
    and "running s \<noteq> i \<Longrightarrow> running s' \<noteq> i \<Longrightarrow> parked_in field i v s \<Longrightarrow> parked_in field i v s'"
    and "running s = i \<Longrightarrow> running s' \<noteq> i \<Longrightarrow> parked_in field i (left_view e (snd s)) s'"
    and "running s \<noteq> i \<Longrightarrow> running s' = i \<Longrightarrow> parked_in field i v s \<Longrightarrow> thread_view (snd s') = v"
proof -
  note k = machine_step_keeps [OF assms, unfolded threads_kept_def split_beta]
  show "machine_ok w field irq s'" using k by blast
  show "running s \<noteq> i \<Longrightarrow> running s' \<noteq> i \<Longrightarrow> parked_in field i v s \<Longrightarrow> parked_in field i v s'"
    using k unfolding running_def parked_in_def by metis
  show "running s = i \<Longrightarrow> running s' \<noteq> i \<Longrightarrow> parked_in field i (left_view e (snd s)) s'"
    using k unfolding running_def parked_in_def by metis
  show "running s \<noteq> i \<Longrightarrow> running s' = i \<Longrightarrow> parked_in field i v s \<Longrightarrow> thread_view (snd s') = v"
    using k unfolding running_def parked_in_def by metis
qed

lemma runs_without_parked:
  assumes "runs_without w field irq i s s'" "machine_ok w field irq s" "parked_in field i v s"
  shows "machine_ok w field irq s' \<and> running s' \<noteq> i \<and> parked_in field i v s'"
  using assms by (induction rule: runs_without.induct) (use step_effects in blast)+

text \<open>C3. The scheduler and the assembly together keep every thread.  From a good state, when a thread
  leaves the processor by a cooperative switch or by preemption, and any steps follow in
  which it does not run (other threads executing, being created, yielding, interrupts with
  any number of scheduling decisions), then the step that gives the processor back to it
  gives it the registers, stack pointer, return address, program counter and status it
  left with; the state is good again, and the CPSR words of the scheduler model are those
  of the processor and of the frames.\<close>

theorem thread_keeps_context:
  assumes "machine_ok w field irq s" "machine_step w field irq e s s0" "running s = i" "running s0 \<noteq> i"
    and "runs_without w field irq i s0 s1" "machine_step w field irq e' s1 s2" "running s2 = i"
  shows "machine_ok w field irq s2 \<and> thread_view (snd s2) = left_view e (snd s)"
proof -
  note first = step_effects [OF assms(2,1)]
  note mid = runs_without_parked [OF assms(5) first(1) first(3) [OF assms(3,4)]]
  from step_effects [OF assms(6)] mid assms(7) show ?thesis by blast
qed

section \<open>Two threads\<close>

text \<open>Thread 0 is in \<open>thread_yield\<close>, where it calls the scheduler; thread 1 has not run yet.\<close>

definition pair_kernel :: kernel where
  "pair_kernel = \<lparr>threads = [0 \<mapsto> new_thread ''a'' 0x2000 0x100 5 5 0, 1 \<mapsto> new_thread ''b'' 0x3000 0x100 5 5 1], thread_count = 2,
     current_id = 0, ready_bitmap = 32, rr_cursor = (\<lambda>_. 0), tick_count = 0, initialized = True, started = True, cpsr = 0x93,
     saved_cpsr = (\<lambda>_. 0x13), switch_flag = False, irq_from = 0, irq_to = 0\<rparr>"

definition sp_field :: "nat \<Rightarrow> u32" where "sp_field i = 0x5000 + 4 * word_of_nat i"

definition pair_core :: core where
  "pair_core = \<lparr>gpr = [0x5000, 0x5004, 12, 13, 14, 15, 16, 17, 18, 19, 20, 21, 22], bank_sp = (\<lambda>k. if k = MODE_SVC then 0x20F0 else 0x4038),
     bank_lr = (\<lambda>_. 0x80001234), bank_spsr = (\<lambda>_. 0), core_pc = 0x80005678, core_cpsr = 0x93,
     core_mem = (case stack_init 0x80009000 7 0x3000 0x100 0x80001000 (\<lambda>_. 0) of (frame, m) \<Rightarrow> st32 m (sp_field 1) frame)\<rparr>"

lemma pair_area_cases:
  assumes "area_at switch_example sp_field 0x4000 pair_kernel x = Some (a, m)"
  shows "(x, unat a, m) \<in> set [(Stack 0, 0x2000, 0x100), (Stack 1, 0x3000, 0x100), (SpField 0, 0x5000, 4), (SpField 1, 0x5004, 4),
    (FlagWord, 0x1000, 4), (FromWord, 0x1004, 4), (ToWord, 0x1008, 4), (IrqStack, 0x4000, 56)]"
  using assms by (cases x) (auto simp: pair_kernel_def switch_example_def live_def sp_field_def new_thread_def split: if_splits)

lemma pair_areas: "disjoint_areas switch_example sp_field 0x4000 pair_kernel"
  unfolding disjoint_areas_def
proof (intro allI impI)
  fix x y a m b n
  assume "x \<noteq> y" "area_at switch_example sp_field 0x4000 pair_kernel x = Some (a, m)" "area_at switch_example sp_field 0x4000 pair_kernel y = Some (b, n)"
  with pair_area_cases [of x a m] pair_area_cases [of y b n]
  show "unat a + m < 2 ^ 32 \<and> unat b + n < 2 ^ 32 \<and> (unat a + m \<le> unat b \<or> unat b + n \<le> unat a)" by auto
qed

definition pair_view :: view where "pair_view = first_view 0x80009000 7 0x3000 0x100 0x80001000"

lemma pair_memory:
  "ld32 (core_mem pair_core) 0x1000 = 0" "parked sp_field pair_kernel (core_mem pair_core) 1 pair_view"
proof -
  obtain frame m where si: "stack_init 0x80009000 7 0x3000 0x100 0x80001000 (\<lambda>_. 0) = (frame, m)" by force
  have mem: "core_mem pair_core = st32 m (sp_field 1) frame" by (simp add: pair_core_def si)
  have "clear ((((0x3000 :: u32) + 0x100) AND NOT 7) - 64) 16 (sp_field 1) 1" "clear (sp_field 1) 1 0x1000 1"
    "clear ((((0x3000 :: u32) + 0x100) AND NOT 7) - 64) 16 0x1000 1"
    by (simp_all add: clear_def sp_field_def)
  note k = new_thread_parked [OF si this(1)] stack_init_keeps [OF si this(3,2)]
  have "ldm 0x1000 1 (\<lambda>_. 0) = [0]" by (simp add: ld32_def)
  then show "ld32 (core_mem pair_core) 0x1000 = 0" using k(2) by (simp add: mem)
  show "parked sp_field pair_kernel (core_mem pair_core) 1 pair_view"
    using k(1) by (simp add: parked_def mem pair_view_def)
      (simp add: first_view_def has_room_def pair_kernel_def new_thread_def MODE_MASK_def MODE_SVC_def)
qed

lemma pair_ok: "machine_ok switch_example sp_field 0x4000 (pair_kernel, pair_core)"
proof -
  have "i = 1" if "live pair_kernel i" "i \<noteq> current_id pair_kernel" for i
    using that by (auto simp: live_def pair_kernel_def split: if_splits)
  moreover have "core_mode pair_core = MODE_SVC" "MODE_IRQ \<noteq> MODE_SVC"
    by (simp_all add: pair_core_def core_mode_def MODE_MASK_def MODE_SVC_def MODE_IRQ_def)
  moreover have "live pair_kernel (current_id pair_kernel)" "cpsr pair_kernel = core_cpsr pair_core" "length (gpr pair_core) = 13"
    "bank_sp pair_core MODE_IRQ = 0x4000 + 56" "\<not> switch_flag pair_kernel" "switch_interrupt_flag switch_example = 0x1000"
    by (simp_all add: pair_kernel_def pair_core_def live_def switch_example_def MODE_IRQ_def MODE_SVC_def)
  ultimately show ?thesis unfolding machine_ok_def split_conv using pair_areas pair_memory by (metis zero_neq_one)
qed

definition let_0_run :: "kernel \<Rightarrow> kernel" where "let_0_run = update_slot 1 (\<lambda>t. t\<lparr>t_state := Ready\<rparr>)"

lemma pair_schedules:
  "do { (b, k1) \<leftarrow> do_schedule pair_kernel; (b', k2) \<leftarrow> do_schedule (let_0_run k1); Some (b, current_id k1, b', current_id k2) } = Some (True, 1, True, 0)"
  by code_simp

theorem thread_keeps_context_witness:
  "\<exists>s0 s1 s2. machine_step switch_example sp_field 0x4000 Cooperative (pair_kernel, pair_core) s0 \<and> running s0 = 1 \<and>
     runs_without switch_example sp_field 0x4000 0 s0 s1 \<and> machine_step switch_example sp_field 0x4000 Cooperative s1 s2 \<and>
     thread_view (snd s2) = ([0x5000, 0x5004, 12, 13, 14, 15, 16, 17, 18, 19, 20, 21, 22], 0x20F0, 0x80001234, 0x80001234, 0x13)"
proof -
  let ?step = "machine_step switch_example sp_field 0x4000" and ?ok = "machine_ok switch_example sp_field 0x4000"
  obtain k1 k2 where k1: "do_schedule pair_kernel = Some (True, k1)" "current_id k1 = 1"
    and k2: "do_schedule (let_0_run k1) = Some (True, k2)" "current_id k2 = 0"
    using pair_schedules by (auto split: Option.bind_splits)
  let ?c1 = "asm_context_switch pair_core"
  have m: "core_mode pair_core = MODE_SVC" "get_sp pair_core = 0x20F0" "get_lr pair_core = 0x80001234" "current_id pair_kernel = 0"
    by (simp_all add: pair_core_def core_mode_def get_sp_def get_lr_def MODE_MASK_def MODE_SVC_def pair_kernel_def)
  have s0: "?step Cooperative (pair_kernel, pair_core) (k1, ?c1)"
    by (rule Yields [OF k1(1)]) (simp_all add: m k1(2), simp_all add: pair_core_def sp_field_def pair_kernel_def has_room_def new_thread_def)
  have ok1: "?ok (k1, ?c1)" by (rule step_effects(1) [OF s0 pair_ok])
  note ok1' = ok1 [unfolded machine_ok_def split_conv]
  have v1: "thread_view ?c1 = pair_view"
    using step_effects(4) [OF s0 pair_ok, of 1] pair_memory(2) by (simp add: running_def parked_in_def k1(2) m)
  define c1 where "c1 = ?c1\<lparr>gpr := sp_field 1 # sp_field 0 # replicate 11 0\<rparr>"
  have keep: "core_mode c1 = MODE_SVC" "core_mem c1 = core_mem ?c1" "bank_sp c1 = bank_sp ?c1" "core_cpsr c1 = core_cpsr ?c1" "length (gpr c1) = 13"
    using ok1' by (simp_all add: c1_def)
  have st: "same_stacks k1 (let_0_run k1)"
    by (auto simp: let_0_run_def update_slot_def same_stacks_def set_thread_def split: option.splits)
  then have up: "update_ok k1 (let_0_run k1)" "current_id (let_0_run k1) = 1" "cpsr (let_0_run k1) = cpsr k1"
    using k1(2) by (auto simp: update_ok_def let_0_run_def update_slot_def set_thread_def split: option.splits)
  have s1: "?step Local (k1, ?c1) (let_0_run k1, c1)"
    by (rule Runs [OF up(1)]) (use keep ok1' up in simp_all)
  have "same_stacks pair_kernel k1" using k1(1) by (rule do_schedule_stacks) (metis context_switch_stacks same_stacks_trans)
  moreover have "has_room pair_kernel 1 0x3100" by (simp add: has_room_def pair_kernel_def new_thread_def)
  ultimately have room: "has_room (let_0_run k1) 1 0x3100" using same_stacks_room st by blast
  have "get_sp c1 = 0x3100" using v1 keep by (simp add: get_sp_def thread_view_def pair_view_def first_view_def)
  then have s2: "?step Cooperative (let_0_run k1, c1) (k2, asm_context_switch c1)"
    by (intro Yields [OF k2(1)]) (use room k2(2) up(2) in \<open>simp_all add: c1_def\<close>)
  have away: "runs_without switch_example sp_field 0x4000 0 (k1, ?c1) (let_0_run k1, c1)"
    by (rule More [OF Stop s1]) (simp_all add: running_def k1(2) up(2))
  from thread_keeps_context [OF pair_ok s0 _ _ away s2]
  have "thread_view (asm_context_switch c1) = left_view Cooperative pair_core" by (simp add: running_def k1(2) k2(2) m)
  moreover have "left_view Cooperative pair_core = ([0x5000, 0x5004, 12, 13, 14, 15, 16, 17, 18, 19, 20, 21, 22], 0x20F0, 0x80001234, 0x80001234, 0x13)"
    using m by (simp add: pair_core_def I_BIT_def)
  ultimately show ?thesis using s0 away s2 k1(2)
    by (intro exI [of _ "(k1, ?c1)"] exI [of _ "(let_0_run k1, c1)"] exI [of _ "(k2, asm_context_switch c1)"] conjI) (simp_all add: running_def)
qed

end
