(* ===== verification/Uart.thy ===== *)
theory Uart
  imports Gpio Clock
begin

text \<open>
  \<open>uart.rs\<close>: the three 16550-style serial ports, polled.  A port is its base address.
\<close>

definition UART0_BASE :: u32 where "UART0_BASE = 0x01C25000"
definition UART1_BASE :: u32 where "UART1_BASE = 0x01C25400"
definition UART2_BASE :: u32 where "UART2_BASE = 0x01C25800"

definition RBR_THR_DLL :: u32 where "RBR_THR_DLL = 0x00"
definition IER_DLH :: u32 where "IER_DLH = 0x04"
definition IIR_FCR :: u32 where "IIR_FCR = 0x08"
definition LCR :: u32 where "LCR = 0x0C"
definition MCR :: u32 where "MCR = 0x10"
definition LSR :: u32 where "LSR = 0x14"
definition USR :: u32 where "USR = 0x7C"

definition lcr_DLAB :: u32 where "lcr_DLAB = bitm 7"
definition lcr_PARITY_EVEN :: u32 where "lcr_PARITY_EVEN = bitm 4"
definition lcr_PARITY_EN :: u32 where "lcr_PARITY_EN = bitm 3"
definition lcr_STOP_BITS :: u32 where "lcr_STOP_BITS = bitm 2"
definition word_len :: "u32 \<Rightarrow> u32" where "word_len bits = (bits - 5) AND 0x3"

definition lsr_RX_DATA_READY :: u32 where "lsr_RX_DATA_READY = bitm 0"
definition lsr_OE :: u32 where "lsr_OE = bitm 1"
definition lsr_PE :: u32 where "lsr_PE = bitm 2"
definition lsr_FE :: u32 where "lsr_FE = bitm 3"
definition lsr_BI :: u32 where "lsr_BI = bitm 4"
definition usr_TX_FIFO_NOT_FULL :: u32 where "usr_TX_FIFO_NOT_FULL = bitm 1"
definition ier_RX_AVAILABLE :: u32 where "ier_RX_AVAILABLE = bitm 0"

lemmas uart_offsets = RBR_THR_DLL_def IER_DLH_def IIR_FCR_def LCR_def MCR_def LSR_def USR_def

datatype data_bits = Bits5 | Bits6 | Bits7 | Bits8
datatype stop_bits = Stop1 | Stop2
datatype parity = NoParity | EvenParity | OddParity

fun data_bits_code :: "data_bits \<Rightarrow> u32" where
  "data_bits_code Bits5 = 5" | "data_bits_code Bits6 = 6" | "data_bits_code Bits7 = 7" | "data_bits_code Bits8 = 8"

record uart_config =
  baud_rate :: u32
  uc_data_bits :: data_bits
  uc_stop_bits :: stop_bits
  uc_parity :: parity

definition uart_config_default :: uart_config where
  "uart_config_default = \<lparr>baud_rate = 115200, uc_data_bits = Bits8, uc_stop_bits = Stop1, uc_parity = NoParity\<rparr>"

definition uart_rd :: "u32 \<Rightarrow> u32 \<Rightarrow> mmio \<Rightarrow> u32 \<times> mmio" where
  "uart_rd base off m = rd32 (base + off) m"
definition uart_wr :: "u32 \<Rightarrow> u32 \<Rightarrow> u32 \<Rightarrow> mmio \<Rightarrow> mmio" where
  "uart_wr base off v m = wr32 (base + off) v m"

section \<open>Configuration\<close>

text \<open>The word format.\<close>

definition lcr_format :: "uart_config \<Rightarrow> u32" where
  "lcr_format c = (let
     lcr_val = word_len (data_bits_code (uc_data_bits c));
     lcr_val = (if uc_stop_bits c = Stop2 then lcr_val OR lcr_STOP_BITS else lcr_val)
   in case uc_parity c of
        NoParity \<Rightarrow> lcr_val
      | EvenParity \<Rightarrow> lcr_val OR (lcr_PARITY_EN OR lcr_PARITY_EVEN)
      | OddParity \<Rightarrow> lcr_val OR lcr_PARITY_EN)"

text \<open>The division panics when the wrapped product of the baud rate and 16 is 0.\<close>

definition uart_configure :: "u32 \<Rightarrow> uart_config \<Rightarrow> mmio \<Rightarrow> mmio option" where
  "uart_configure base c m = do {
     let m = uart_wr base IER_DLH 0x00 m;
     let m = uart_wr base IIR_FCR 0x07 m;
     let m = uart_wr base MCR 0x00 m;
     let m = uart_wr base LCR lcr_DLAB m;
     let (hz, m) = apb_hz m;
     assert_that (baud_rate c * 16 \<noteq> 0);
     let divisor = hz div (baud_rate c * 16);
     let m = uart_wr base RBR_THR_DLL (divisor AND 0xFF) m;
     let m = uart_wr base IER_DLH (drop_bit 8 divisor AND 0xFF) m;
     Some (uart_wr base LCR (lcr_format c) m)
   }"

definition enable_rx_interrupt :: "u32 \<Rightarrow> mmio \<Rightarrow> mmio" where
  "enable_rx_interrupt base m = (let (v, m) = uart_rd base IER_DLH m in uart_wr base IER_DLH (v OR ier_RX_AVAILABLE) m)"

definition uart_disable_interrupts :: "u32 \<Rightarrow> mmio \<Rightarrow> mmio" where
  "uart_disable_interrupts base m = uart_wr base IER_DLH 0x00 m"

section \<open>Polled transmission and reception\<close>

definition tx_ready :: "u32 \<Rightarrow> mmio \<Rightarrow> bool \<times> mmio" where
  "tx_ready base m = (let (v, m) = uart_rd base USR m in (v AND usr_TX_FIFO_NOT_FULL \<noteq> 0, m))"

text \<open>\<open>while !self.tx_ready() {}\<close>.\<close>

definition write_byte :: "u32 \<Rightarrow> u8 \<Rightarrow> mmio \<Rightarrow> mmio option" where
  "write_byte base b m = do {
     m \<leftarrow> poll32 (base + USR) (\<lambda>v. v AND usr_TX_FIFO_NOT_FULL \<noteq> 0) m;
     Some (uart_wr base RBR_THR_DLL (ucast b) m)
   }"

fun uart_write :: "u32 \<Rightarrow> u8 list \<Rightarrow> mmio \<Rightarrow> mmio option" where
  "uart_write base [] m = Some m"
| "uart_write base (b # bs) m = do { m \<leftarrow> write_byte base b m; uart_write base bs m }"

definition write_str :: "u32 \<Rightarrow> u8 list \<Rightarrow> mmio \<Rightarrow> mmio option" where
  "write_str base s m = uart_write base s m"

definition rx_ready :: "u32 \<Rightarrow> mmio \<Rightarrow> bool \<times> mmio" where
  "rx_ready base m = (let (v, m) = uart_rd base LSR m in (v AND lsr_RX_DATA_READY \<noteq> 0, m))"

definition read_byte :: "u32 \<Rightarrow> mmio \<Rightarrow> u8 option \<times> mmio" where
  "read_byte base m = (let (rdy, m) = rx_ready base m in
     if rdy then (let (v, m) = uart_rd base RBR_THR_DLL m in (Some (ucast v), m)) else (None, m))"

definition read_byte_blocking :: "u32 \<Rightarrow> mmio \<Rightarrow> (u8 \<times> mmio) option" where
  "read_byte_blocking base m = do {
     m \<leftarrow> poll32 (base + LSR) (\<lambda>v. v AND lsr_RX_DATA_READY \<noteq> 0) m;
     let (v, m) = uart_rd base RBR_THR_DLL m;
     Some (ucast v, m)
   }"

record line_errors =
  overrun :: bool
  le_parity :: bool
  framing :: bool
  break_int :: bool

definition uart_line_errors :: "u32 \<Rightarrow> mmio \<Rightarrow> line_errors \<times> mmio" where
  "uart_line_errors base m = (let (v, m) = uart_rd base LSR m in
     (\<lparr>overrun = v AND lsr_OE \<noteq> 0, le_parity = v AND lsr_PE \<noteq> 0,
       framing = v AND lsr_FE \<noteq> 0, break_int = v AND lsr_BI \<noteq> 0\<rparr>, m))"

definition interrupt_status :: "u32 \<Rightarrow> mmio \<Rightarrow> u32 \<times> mmio" where
  "interrupt_status base m = (let (v, m) = uart_rd base IIR_FCR m in (v AND 0x0F, m))"

section \<open>Ports\<close>

definition init_uart0 :: "mmio \<Rightarrow> (u32 \<times> mmio) option" where
  "init_uart0 m = do {
     let m = bus_clk_init Uart0 m;
     m \<leftarrow> set_function PortE 0 5 m;
     m \<leftarrow> set_function PortE 1 5 m;
     m \<leftarrow> uart_configure UART0_BASE uart_config_default m;
     Some (UART0_BASE, m)
   }"

definition init_uart1 :: "mmio \<Rightarrow> (u32 \<times> mmio) option" where
  "init_uart1 m = do {
     let m = bus_clk_init Uart1 m;
     m \<leftarrow> set_function PortA 2 5 m;
     m \<leftarrow> set_function PortA 3 5 m;
     m \<leftarrow> uart_configure UART1_BASE uart_config_default m;
     Some (UART1_BASE, m)
   }"

definition init_uart2 :: "mmio \<Rightarrow> (u32 \<times> mmio) option" where
  "init_uart2 m = do {
     m \<leftarrow> set_function PortE 8 3 m;
     m \<leftarrow> set_function PortE 7 3 m;
     let m = bus_clk_init Uart2 m;
     m \<leftarrow> uart_configure UART2_BASE uart_config_default m;
     Some (UART2_BASE, m)
   }"

end
