(* ===== verification/Soft_Spi.thy ===== *)
theory Soft_Spi
  imports Gpio Timer
begin

text \<open>
  \<open>soft_spi.rs\<close>: SPI by hand on GPIO pins, in the four modes, with a separate input pin or
  one shared data pin.
\<close>

datatype spi_mode = Mode0 | Mode1 | Mode2 | Mode3

type_synonym pin = "port \<times> u8"

record soft_spi_config =
  ss_sck :: pin
  ss_mosi :: pin
  ss_miso :: pin
  ss_delay_us :: u32
  ss_mode :: spi_mode
  ss_cs :: "pin option"

definition soft_spi_config_new :: "pin \<Rightarrow> pin \<Rightarrow> pin \<Rightarrow> u32 \<Rightarrow> soft_spi_config" where
  "soft_spi_config_new sck mosi miso d =
     \<lparr>ss_sck = sck, ss_mosi = mosi, ss_miso = miso, ss_delay_us = d, ss_mode = Mode0, ss_cs = None\<rparr>"

definition with_cs_pin :: "soft_spi_config \<Rightarrow> pin \<Rightarrow> soft_spi_config" where
  "with_cs_pin c cs = c\<lparr>ss_cs := Some cs\<rparr>"
definition with_mode :: "soft_spi_config \<Rightarrow> spi_mode \<Rightarrow> soft_spi_config" where
  "with_mode c md = c\<lparr>ss_mode := md\<rparr>"

definition is_3wire :: "soft_spi_config \<Rightarrow> bool" where
  "is_3wire c \<longleftrightarrow> fst (ss_mosi c) = fst (ss_miso c) \<and> snd (ss_mosi c) = snd (ss_miso c)"

definition cpha :: "soft_spi_config \<Rightarrow> bool" where "cpha c \<longleftrightarrow> ss_mode c \<in> {Mode1, Mode3}"
definition cpol :: "soft_spi_config \<Rightarrow> bool" where "cpol c \<longleftrightarrow> ss_mode c \<in> {Mode2, Mode3}"

section \<open>Pins\<close>

definition soft_spi_init :: "soft_spi_config \<Rightarrow> mmio \<Rightarrow> mmio option" where
  "soft_spi_init c m = do {
     let (sck_port, sck_pin) = ss_sck c;
     let (mosi_port, mosi_pin) = ss_mosi c;
     let (miso_port, miso_pin) = ss_miso c;
     m \<leftarrow> set_function sck_port sck_pin fn_OUTPUT m;
     m \<leftarrow> set_value sck_port sck_pin (cpol c) m;
     m \<leftarrow> set_pull_mode sck_port sck_pin PullDisable m;
     m \<leftarrow> set_function mosi_port mosi_pin fn_OUTPUT m;
     m \<leftarrow> set_value mosi_port mosi_pin True m;
     m \<leftarrow> set_pull_mode mosi_port mosi_pin PullDisable m;
     m \<leftarrow> (if \<not> is_3wire c then do {
         m \<leftarrow> set_function miso_port miso_pin fn_INPUT m;
         set_pull_mode miso_port miso_pin PullUp m
       } else Some m);
     case ss_cs c of
       Some (cs_port, cs_pin) \<Rightarrow> do {
         m \<leftarrow> set_function cs_port cs_pin fn_OUTPUT m;
         m \<leftarrow> set_value cs_port cs_pin True m;
         set_pull_mode cs_port cs_pin PullDisable m
       }
     | None \<Rightarrow> Some m
   }"

definition sck_write :: "soft_spi_config \<Rightarrow> bool \<Rightarrow> mmio \<Rightarrow> mmio option" where
  "sck_write c v m = set_value (fst (ss_sck c)) (snd (ss_sck c)) v m"
definition mosi_write :: "soft_spi_config \<Rightarrow> bool \<Rightarrow> mmio \<Rightarrow> mmio option" where
  "mosi_write c v m = set_value (fst (ss_mosi c)) (snd (ss_mosi c)) v m"
definition miso_read :: "soft_spi_config \<Rightarrow> mmio \<Rightarrow> (bool \<times> mmio) option" where
  "miso_read c m = get_value (fst (ss_miso c)) (snd (ss_miso c)) m"
definition mosi_read :: "soft_spi_config \<Rightarrow> mmio \<Rightarrow> (bool \<times> mmio) option" where
  "mosi_read c m = get_value (fst (ss_mosi c)) (snd (ss_mosi c)) m"
definition cs_write :: "soft_spi_config \<Rightarrow> bool \<Rightarrow> mmio \<Rightarrow> mmio option" where
  "cs_write c v m = (case ss_cs c of Some (p, pin) \<Rightarrow> set_value p pin v m | None \<Rightarrow> Some m)"
definition delay_half :: "soft_spi_config \<Rightarrow> mmio \<Rightarrow> mmio option" where
  "delay_half c m = delay_us (ss_delay_us c) m"
definition mosi_input_mode :: "soft_spi_config \<Rightarrow> mmio \<Rightarrow> mmio option" where
  "mosi_input_mode c m = set_function (fst (ss_mosi c)) (snd (ss_mosi c)) fn_INPUT m"
definition mosi_output_mode :: "soft_spi_config \<Rightarrow> mmio \<Rightarrow> mmio option" where
  "mosi_output_mode c m = set_function (fst (ss_mosi c)) (snd (ss_mosi c)) fn_OUTPUT m"

section \<open>Bytes\<close>

text \<open>\<open>(byte >> bit) & 1 != 0\<close> and \<open>rx |= 1 << bit\<close>.\<close>

definition bit_of :: "u8 \<Rightarrow> nat \<Rightarrow> bool" where "bit_of b k \<longleftrightarrow> drop_bit k b AND 1 \<noteq> 0"
definition with_bit :: "u8 \<Rightarrow> nat \<Rightarrow> bool \<Rightarrow> u8" where
  "with_bit rx k v = (if v then rx OR push_bit k 1 else rx)"

text \<open>One round of the loop of \<open>transfer_byte\<close>, for bit \<open>k\<close>.\<close>

definition transfer_bit :: "soft_spi_config \<Rightarrow> u8 \<Rightarrow> nat \<Rightarrow> u8 \<Rightarrow> mmio \<Rightarrow> (u8 \<times> mmio) option" where
  "transfer_bit c byte k rx m = do {
     m \<leftarrow> (if \<not> cpha c then do { m \<leftarrow> mosi_write c (bit_of byte k) m; delay_half c m } else Some m);
     m \<leftarrow> sck_write c (\<not> cpol c) m;
     m \<leftarrow> delay_half c m;
     (v, m) \<leftarrow> miso_read c m;
     m \<leftarrow> (if cpha c then mosi_write c (bit_of byte k) m else Some m);
     m \<leftarrow> sck_write c (cpol c) m;
     m \<leftarrow> delay_half c m;
     Some (with_bit rx k v, m)
   }"

text \<open>The same for the shared data pin.\<close>

definition transfer_bit_3wire :: "soft_spi_config \<Rightarrow> u8 \<Rightarrow> nat \<Rightarrow> u8 \<Rightarrow> mmio \<Rightarrow> (u8 \<times> mmio) option" where
  "transfer_bit_3wire c byte k rx m = do {
     m \<leftarrow> (if \<not> cpha c then do { m \<leftarrow> mosi_write c (bit_of byte k) m; delay_half c m } else Some m);
     m \<leftarrow> sck_write c (\<not> cpol c) m;
     m \<leftarrow> delay_half c m;
     m \<leftarrow> mosi_input_mode c m;
     m \<leftarrow> (if cpha c then delay_half c m else Some m);
     (v, m) \<leftarrow> mosi_read c m;
     m \<leftarrow> mosi_output_mode c m;
     m \<leftarrow> sck_write c (cpol c) m;
     m \<leftarrow> (if cpha c then mosi_write c (bit_of byte k) m else Some m);
     m \<leftarrow> delay_half c m;
     Some (with_bit rx k v, m)
   }"

text \<open>\<open>for i in 0..8\<close> with \<open>bit = 7 - i\<close>: the bits still to do are \<open>n - 1, \<dots>, 0\<close>.\<close>

fun bit_loop :: "(nat \<Rightarrow> u8 \<Rightarrow> mmio \<Rightarrow> (u8 \<times> mmio) option) \<Rightarrow> nat \<Rightarrow> u8 \<Rightarrow> mmio \<Rightarrow> (u8 \<times> mmio) option" where
  "bit_loop f 0 rx m = Some (rx, m)"
| "bit_loop f (Suc k) rx m = do { (rx, m) \<leftarrow> f k rx m; bit_loop f k rx m }"

definition transfer_byte :: "soft_spi_config \<Rightarrow> u8 \<Rightarrow> mmio \<Rightarrow> (u8 \<times> mmio) option" where
  "transfer_byte c byte m = bit_loop (transfer_bit c byte) 8 0 m"

definition transfer_byte_3wire :: "soft_spi_config \<Rightarrow> u8 \<Rightarrow> mmio \<Rightarrow> (u8 \<times> mmio) option" where
  "transfer_byte_3wire c byte m = do {
     m \<leftarrow> mosi_output_mode c m;
     bit_loop (transfer_bit_3wire c byte) 8 0 m
   }"

definition exchange_byte :: "soft_spi_config \<Rightarrow> u8 \<Rightarrow> mmio \<Rightarrow> (u8 \<times> mmio) option" where
  "exchange_byte c byte m = (if is_3wire c then transfer_byte_3wire c byte m else transfer_byte c byte m)"

section \<open>Buffers\<close>

text \<open>\<open>transfer\<close>: round \<open>i\<close> of \<open>n\<close>; a receive buffer is updated in place and returned.\<close>

fun soft_transfer_from :: "soft_spi_config \<Rightarrow> u8 list \<Rightarrow> nat \<Rightarrow> nat \<Rightarrow> u8 list \<Rightarrow> mmio \<Rightarrow> (u8 list \<times> mmio) option" where
  "soft_transfer_from c tx i 0 rx m = Some (rx, m)"
| "soft_transfer_from c tx i (Suc n) rx m = do {
     let tx_byte = (if i < length tx then tx ! i else 0x00);
     (b, m) \<leftarrow> exchange_byte c tx_byte m;
     let rx = (if i < length rx then rx[i := b] else rx);
     soft_transfer_from c tx (Suc i) n rx m
   }"

definition soft_transfer :: "soft_spi_config \<Rightarrow> u8 list \<Rightarrow> u8 list \<Rightarrow> mmio \<Rightarrow> (u8 list \<times> mmio) option" where
  "soft_transfer c tx rx m = soft_transfer_from c tx 0 (max (length tx) (length rx)) rx m"

fun soft_send :: "soft_spi_config \<Rightarrow> u8 list \<Rightarrow> mmio \<Rightarrow> mmio option" where
  "soft_send c [] m = Some m"
| "soft_send c (b # bs) m = do { (_, m) \<leftarrow> exchange_byte c b m; soft_send c bs m }"

fun soft_receive :: "soft_spi_config \<Rightarrow> u8 list \<Rightarrow> mmio \<Rightarrow> (u8 list \<times> mmio) option" where
  "soft_receive c [] m = Some ([], m)"
| "soft_receive c (_ # rest) m = do {
     (b, m) \<leftarrow> exchange_byte c 0x00 m;
     (bs, m) \<leftarrow> soft_receive c rest m;
     Some (b # bs, m)
   }"

definition send_9bit :: "soft_spi_config \<Rightarrow> u16 \<Rightarrow> u32 \<Rightarrow> mmio \<Rightarrow> mmio option" where
  "send_9bit c value delay_after m = do {
     let dc_bit = (value AND 0x100 \<noteq> 0);
     m \<leftarrow> cs_write c False m;
     m \<leftarrow> (if \<not> cpha c then do { m \<leftarrow> mosi_write c dc_bit m; delay_half c m } else Some m);
     m \<leftarrow> sck_write c (\<not> cpol c) m;
     m \<leftarrow> delay_half c m;
     m \<leftarrow> (if cpha c then mosi_write c dc_bit m else Some m);
     m \<leftarrow> sck_write c (cpol c) m;
     m \<leftarrow> delay_half c m;
     (_, m) \<leftarrow> exchange_byte c (ucast value) m;
     m \<leftarrow> cs_write c True m;
     if 0 < delay_after then delay_us delay_after m else Some m
   }"

definition cs_assert :: "soft_spi_config \<Rightarrow> mmio \<Rightarrow> mmio option" where "cs_assert c m = cs_write c False m"
definition cs_deassert :: "soft_spi_config \<Rightarrow> mmio \<Rightarrow> mmio option" where "cs_deassert c m = cs_write c True m"

definition with_cs :: "soft_spi_config \<Rightarrow> (mmio \<Rightarrow> mmio option) \<Rightarrow> mmio \<Rightarrow> mmio option" where
  "with_cs c f m = do { m \<leftarrow> cs_assert c m; m \<leftarrow> f m; cs_deassert c m }"

end
