(* ===== verification/Soft_Spi_Props.thy ===== *)
theory Soft_Spi_Props
  imports Soft_Spi
begin

text \<open>
  Software SPI against a device on the other end of the wires: it sees the levels of the
  clock and data pins change, takes a bit at its sampling edge and puts the next one on the
  input pin at its shifting edge, in each of the four modes.
\<close>

section \<open>A device on the bus\<close>

definition data_reg :: "port \<Rightarrow> u32" where "data_reg p = port_base p + off_DATA"

text \<open>The level an output pin drives, from what was written to its port.\<close>

definition level :: "(u32 \<Rightarrow> u32) \<Rightarrow> pin \<Rightarrow> access list \<Rightarrow> bool" where
  "level init pn tr = bit (stored init tr (data_reg (fst pn))) (unat (snd pn))"

text \<open>The device: the bits it has taken and how often it has shifted.  At a change of the clock
  to the level \<open>v\<close> it samples or shifts: the leading edge leaves the idle level.\<close>

definition slave_edge :: "soft_spi_config \<Rightarrow> bool \<Rightarrow> bool \<Rightarrow> bool list \<times> nat \<Rightarrow> bool list \<times> nat" where
  "slave_edge c v d s = (let leading = (v \<noteq> cpol c) in
     if leading = cpha c then (fst s, Suc (snd s)) else (fst s @ [d], snd s))"

fun slave_of :: "soft_spi_config \<Rightarrow> (u32 \<Rightarrow> u32) \<Rightarrow> access list \<Rightarrow> bool list \<times> nat" where
  "slave_of c init [] = ([], 0)"
| "slave_of c init (x # tr) = (let s = slave_of c init tr; v = level init (ss_sck c) (x # tr) in
     if v = level init (ss_sck c) tr then s else slave_edge c v (level init (ss_mosi c) (x # tr)) s)"

text \<open>It answers the bytes \<open>resp 0\<close>, \<open>resp 1\<close>, \<dots>, the highest bit first; with a clock phase of 1 the
  first edge puts out the first bit.\<close>

definition slave_bit :: "soft_spi_config \<Rightarrow> (nat \<Rightarrow> u8) \<Rightarrow> nat \<Rightarrow> bool" where
  "slave_bit c resp pos = (let k = (if cpha c then pos - 1 else pos) in bit (resp (k div 8)) (7 - k mod 8))"

definition spi_device :: "soft_spi_config \<Rightarrow> (nat \<Rightarrow> u8) \<Rightarrow> (u32 \<Rightarrow> u32) \<Rightarrow> (access list \<Rightarrow> u32) \<Rightarrow> access list \<Rightarrow> u32 \<Rightarrow> u32" where
  "spi_device c resp init clk tr a = (
     if a = TIMER_BASE + AVS_CNT0 then clk tr
     else if a = data_reg (fst (ss_miso c)) then
       (let n = unat (snd (ss_miso c)) in
         (stored init tr a AND NOT (bitm n)) OR push_bit n (of_bool (slave_bit c resp (snd (slave_of c init tr)))))
     else stored init tr a)"

text \<open>The device is on the bus, the clock at \<open>k\<close>, the data out at \<open>d\<close>; the counter of the delays
  has passed the half period whenever it is read.\<close>

definition on_bus :: "soft_spi_config \<Rightarrow> (nat \<Rightarrow> u8) \<Rightarrow> mmio \<Rightarrow> bool \<Rightarrow> bool \<Rightarrow> bool list \<times> nat \<Rightarrow> bool" where
  "on_bus c resp m k d s \<longleftrightarrow> (\<exists>init clk. device32 m = spi_device c resp init clk \<and> (\<forall>tr. ss_delay_us c \<le> clk tr) \<and>
     level init (ss_sck c) (trace m) = k \<and> level init (ss_mosi c) (trace m) = d \<and> slave_of c init (trace m) = s)"

definition full_duplex :: "soft_spi_config \<Rightarrow> bool" where
  "full_duplex c \<longleftrightarrow> distinct [ss_sck c, ss_mosi c, ss_miso c] \<and>
     snd (ss_sck c) < 28 \<and> snd (ss_mosi c) < 28 \<and> snd (ss_miso c) < 28"

lemma data_reg_apart: "data_reg p = data_reg q \<longleftrightarrow> p = q" "data_reg p \<noteq> TIMER_BASE + AVS_CNT0"
  by (cases p; cases q; simp add: data_reg_def port_base_def reg_addrs)
    (cases p; simp add: data_reg_def port_base_def reg_addrs)

lemma pin_lt_32: "(pin :: u8) < 28 \<Longrightarrow> unat pin < 28"
  by (simp add: word_less_nat_alt)

section \<open>The pins\<close>

lemma device_level:
  assumes "device32 m = spi_device c resp init clk" "qn \<noteq> ss_miso c" "snd qn < 28" "snd (ss_miso c) < 28"
  shows "bit (fst (rd32 (data_reg (fst qn)) m)) (unat (snd qn)) = level init qn (trace m)"
proof -
  have "unat (snd qn) \<noteq> unat (snd (ss_miso c))" if "fst qn = fst (ss_miso c)"
    using that assms(2) by (auto simp: prod_eq_iff word_unat_eq_iff)
  then show ?thesis using pin_lt_32 [OF assms(3)] pin_lt_32 [OF assms(4)]
    by (auto simp: rd32_def Let_def assms(1) spi_device_def data_reg_apart level_def bit_simps)
qed

lemma set_value_writes:
  assumes "pin < 28"
  shows "\<exists>w. set_value p pin v m = Some (wr32 (data_reg p) w (snd (rd32 (data_reg p) m))) \<and>
    (\<forall>j < 28. bit w j = (if j = unat pin then v else bit (fst (rd32 (data_reg p) m)) j))"
proof -
  obtain r m1 where r: "rd32 (data_reg p) m = (r, m1)" by fastforce
  have "port_num p < 6" by (rule port_num_lt)
  then show ?thesis using pin_lt_32 [OF assms] r assms
    by (auto simp: set_value_def check_pin_def PORT_COUNT_def PINS_PER_PORT_def data_reg_def [symmetric] bit_simps
      intro!: exI [of _ "(r AND NOT (bitm (unat pin))) OR push_bit (unat pin) (of_bool v)"])
qed

text \<open>Driving an output pin changes its level only; the device sees an edge if it was the clock.\<close>

lemma drive_pin:
  assumes "device32 m = spi_device c resp init clk" "pn \<noteq> ss_miso c" "snd pn < 28" "full_duplex c"
  shows "\<exists>m'. set_value (fst pn) (snd pn) v m = Some m' \<and> device32 m' = device32 m \<and>
    level init (ss_sck c) (trace m') = (if ss_sck c = pn then v else level init (ss_sck c) (trace m)) \<and>
    level init (ss_mosi c) (trace m') = (if ss_mosi c = pn then v else level init (ss_mosi c) (trace m)) \<and>
    slave_of c init (trace m') = (if level init (ss_sck c) (trace m') = level init (ss_sck c) (trace m)
      then slave_of c init (trace m)
      else slave_edge c (level init (ss_sck c) (trace m')) (level init (ss_mosi c) (trace m')) (slave_of c init (trace m)))"
proof -
  let ?a = "data_reg (fst pn)"
  obtain w where w: "set_value (fst pn) (snd pn) v m = Some (wr32 ?a w (snd (rd32 ?a m)))"
    "\<forall>j < 28. bit w j = (if j = unat (snd pn) then v else bit (fst (rd32 ?a m)) j)"
    using set_value_writes [OF assms(3)] by blast
  have t: "trace (wr32 ?a w (snd (rd32 ?a m))) = Wr32 ?a w # Rd32 ?a (fst (rd32 ?a m)) # trace m"
    by (simp add: wr32_def rd32_def Let_def)
  have l: "level init qn (Wr32 ?a w # Rd32 ?a x # trace m) = (if qn = pn then v else level init qn (trace m))"
    if "qn \<noteq> ss_miso c" "snd qn < 28" for qn x
  proof (cases "fst qn = fst pn")
    case True
    then have "bit (fst (rd32 ?a m)) (unat (snd qn)) = level init qn (trace m)"
      using device_level [OF assms(1) that] assms(4) by (simp add: full_duplex_def)
    moreover have "level init qn (Wr32 ?a w # Rd32 ?a x # trace m) = bit w (unat (snd qn))"
      using True by (simp add: level_def)
    ultimately show ?thesis using w(2) pin_lt_32 [OF that(2)] True by (auto simp: prod_eq_iff word_unat_eq_iff)
  next
    case False
    then show ?thesis by (auto simp: level_def data_reg_apart)
  qed
  define tr' where "tr' = Wr32 ?a w # Rd32 ?a (fst (rd32 ?a m)) # trace m"
  have lr: "level init qn (Rd32 ?a x # tr) = level init qn tr" for qn x tr by (simp add: level_def)
  have "slave_of c init (Rd32 ?a x # tr) = slave_of c init tr" for x tr by (simp add: lr Let_def)
  then have s: "slave_of c init tr' = (if level init (ss_sck c) tr' = level init (ss_sck c) (trace m) then slave_of c init (trace m)
      else slave_edge c (level init (ss_sck c) tr') (level init (ss_mosi c) tr') (slave_of c init (trace m)))"
    unfolding tr'_def by (subst slave_of.simps(2)) (simp only: Let_def lr)
  have "level init (ss_sck c) tr' = (if ss_sck c = pn then v else level init (ss_sck c) (trace m))"
    "level init (ss_mosi c) tr' = (if ss_mosi c = pn then v else level init (ss_mosi c) (trace m))"
    unfolding tr'_def using assms(4) by (simp_all add: l full_duplex_def)
  moreover have "device32 (wr32 ?a w (snd (rd32 ?a m))) = device32 m" by (simp add: wr32_def rd32_def Let_def)
  ultimately show ?thesis using w(1) s unfolding t [folded tr'_def, symmetric] by blast
qed

section \<open>One byte\<close>

lemma sck_on_bus:
  assumes "on_bus c resp m k d s" "full_duplex c"
  shows "\<exists>m'. sck_write c v m = Some m' \<and> on_bus c resp m' v d (if v = k then s else slave_edge c v d s)"
proof -
  obtain init clk where i: "device32 m = spi_device c resp init clk" "\<forall>tr. ss_delay_us c \<le> clk tr"
    "level init (ss_sck c) (trace m) = k" "level init (ss_mosi c) (trace m) = d" "slave_of c init (trace m) = s"
    using assms(1) by (auto simp: on_bus_def)
  from drive_pin [OF i(1), of "ss_sck c" v] i(3-5) assms(2)
  obtain m' where m': "sck_write c v m = Some m'" "device32 m' = device32 m" "level init (ss_sck c) (trace m') = v"
    "level init (ss_mosi c) (trace m') = d" "slave_of c init (trace m') = (if v = k then s else slave_edge c v d s)"
    by (auto simp: full_duplex_def sck_write_def)
  have "on_bus c resp m' v d (if v = k then s else slave_edge c v d s)"
    unfolding on_bus_def by (intro exI [of _ init] exI [of _ clk]) (simp only: m' i(1,2) simp_thms)
  with m'(1) show ?thesis by blast
qed

lemma mosi_on_bus:
  assumes "on_bus c resp m k d s" "full_duplex c"
  shows "\<exists>m'. mosi_write c v m = Some m' \<and> on_bus c resp m' k v s"
proof -
  obtain init clk where i: "device32 m = spi_device c resp init clk" "\<forall>tr. ss_delay_us c \<le> clk tr"
    "level init (ss_sck c) (trace m) = k" "level init (ss_mosi c) (trace m) = d" "slave_of c init (trace m) = s"
    using assms(1) by (auto simp: on_bus_def)
  from drive_pin [OF i(1), of "ss_mosi c" v] i(3-5) assms(2)
  obtain m' where m': "mosi_write c v m = Some m'" "device32 m' = device32 m" "level init (ss_sck c) (trace m') = k"
    "level init (ss_mosi c) (trace m') = v" "slave_of c init (trace m') = s"
    by (auto simp: full_duplex_def mosi_write_def)
  have "on_bus c resp m' k v s"
    unfolding on_bus_def by (intro exI [of _ init] exI [of _ clk]) (simp only: m' i(1,2) simp_thms)
  with m'(1) show ?thesis by blast
qed

text \<open>Accesses that leave the pins as they are.\<close>

lemma idle_on_bus:
  assumes "on_bus c resp m k d s" "device32 m' = device32 m" "trace m' = x # trace m"
    and "\<And>init p. stored init (x # trace m) (data_reg p) = stored init (trace m) (data_reg p)"
  shows "on_bus c resp m' k d s"
proof -
  have l: "level init qn (x # trace m) = level init qn (trace m)" for init qn by (simp only: level_def assms(4))
  then have "slave_of c init (x # trace m) = slave_of c init (trace m)" for init by (simp add: Let_def)
  then show ?thesis using assms(1) unfolding on_bus_def assms(2,3) l by presburger
qed

lemma delay_on_bus:
  assumes "on_bus c resp m k d s"
  shows "\<exists>m'. delay_half c m = Some m' \<and> on_bus c resp m' k d s"
proof -
  let ?a = "TIMER_BASE + AVS_CNT0"
  have a: "data_reg p \<noteq> ?a" for p by (rule data_reg_apart)
  obtain init clk where i: "device32 m = spi_device c resp init clk" "\<forall>tr. ss_delay_us c \<le> clk tr"
    using assms by (auto simp: on_bus_def)
  define m1 where "m1 = wr32 ?a 0 m"
  have b: "on_bus c resp m1 k d s" unfolding m1_def
    by (rule idle_on_bus [OF assms, of _ "Wr32 ?a 0"]) (auto simp: wr32_def a)
  have c: "on_bus c resp (snd (rd32 ?a m1)) k d s"
    by (rule idle_on_bus [OF b, of _ "Rd32 ?a (fst (rd32 ?a m1))"]) (auto simp: rd32_def Let_def)
  have "ss_delay_us c \<le> fst (rd32 ?a m1)" using i by (simp add: m1_def rd32_def wr32_def Let_def spi_device_def)
  from poll32_first [of "\<lambda>v. ss_delay_us c \<le> v", OF this] have "delay_half c m = Some (snd (rd32 ?a m1))"
    by (simp add: delay_half_def delay_us_def m1_def)
  with c show ?thesis by blast
qed

lemma miso_on_bus:
  assumes "on_bus c resp m k d s" "full_duplex c"
  shows "\<exists>m'. miso_read c m = Some (slave_bit c resp (snd s), m') \<and> on_bus c resp m' k d s"
proof -
  let ?p = "fst (ss_miso c)" and ?n = "snd (ss_miso c)"
  obtain init clk where i: "device32 m = spi_device c resp init clk" "slave_of c init (trace m) = s"
    using assms(1) by (auto simp: on_bus_def)
  define v where "v = fst (rd32 (data_reg ?p) m)"
  have n: "?n < 28" "unat ?n < 28" using assms(2) pin_lt_32 by (auto simp: full_duplex_def)
  have bv: "bit v (unat ?n) = slave_bit c resp (snd s)" using n
    by (simp add: v_def rd32_def Let_def i spi_device_def data_reg_apart bit_simps)
  have "drop_bit (unat ?n) v AND 1 = of_bool (bit v (unat ?n))" by (simp add: and_one_eq mod_2_eq_odd bit_iff_odd_drop_bit)
  then have "miso_read c m = Some (slave_bit c resp (snd s), snd (rd32 (data_reg ?p) m))"
    using n port_num_lt [of ?p] bv
    by (cases "rd32 (data_reg ?p) m")
      (simp add: miso_read_def get_value_def check_pin_def PORT_COUNT_def PINS_PER_PORT_def data_reg_def [symmetric] v_def)
  moreover have "on_bus c resp (snd (rd32 (data_reg ?p) m)) k d s"
    by (rule idle_on_bus [OF assms(1), of _ "Rd32 (data_reg ?p) v"]) (auto simp: rd32_def Let_def v_def)
  ultimately show ?thesis by blast
qed

text \<open>One bit: the device has taken the bit sent, and its bit is put into the byte received.\<close>

definition msb_bits :: "u8 \<Rightarrow> bool list" where "msb_bits b = map (bit b) (rev [0..<8])"

text \<open>The bit of the device that the round \<open>n\<close> receives.\<close>

definition answer :: "(nat \<Rightarrow> u8) \<Rightarrow> nat \<Rightarrow> bool" where "answer resp n = bit (resp (n div 8)) (7 - n mod 8)"

lemma bit_of_bit: "bit_of b k = bit b k"
  by (simp add: bit_of_def and_one_eq mod_2_eq_odd bit_iff_odd_drop_bit)

lemma transfer_bit_on_bus:
  assumes "on_bus c resp m (cpol c) d (ins, n)" "full_duplex c"
  shows "\<exists>m'. transfer_bit c byte k rx m = Some (with_bit rx k (answer resp n), m') \<and>
    on_bus c resp m' (cpol c) (bit byte k) (ins @ [bit byte k], Suc n)"
proof -
  note fd = assms(2)
  define d1 where "d1 = (if cpha c then d else bit byte k)"
  define s1 where "s1 = (if cpha c then (ins, Suc n) else (ins @ [bit byte k], n))"
  obtain m1 where m1: "(if \<not> cpha c then do { m \<leftarrow> mosi_write c (bit_of byte k) m; delay_half c m } else Some m) = Some m1"
    "on_bus c resp m1 (cpol c) d1 (ins, n)"
  proof (cases "cpha c")
    case False
    obtain ma where a: "mosi_write c (bit_of byte k) m = Some ma" "on_bus c resp ma (cpol c) (bit byte k) (ins, n)"
      using mosi_on_bus [OF assms] unfolding bit_of_bit by blast
    obtain mb where "delay_half c ma = Some mb" "on_bus c resp mb (cpol c) (bit byte k) (ins, n)"
      using delay_on_bus [OF a(2)] by blast
    then show ?thesis using a False by (intro that) (simp_all add: d1_def)
  qed (use assms(1) in \<open>auto simp: d1_def intro: that\<close>)
  have e1: "slave_edge c (\<not> cpol c) d1 (ins, n) = s1" by (simp add: slave_edge_def s1_def d1_def)
  obtain m2 where m2: "sck_write c (\<not> cpol c) m1 = Some m2" "on_bus c resp m2 (\<not> cpol c) d1 s1"
    using sck_on_bus [OF m1(2) fd, of "\<not> cpol c"] unfolding e1 by auto
  obtain m3 where m3: "delay_half c m2 = Some m3" "on_bus c resp m3 (\<not> cpol c) d1 s1" using delay_on_bus [OF m2(2)] by blast
  have ans: "slave_bit c resp (snd s1) = answer resp n" by (simp add: slave_bit_def s1_def answer_def)
  obtain m4 where m4: "miso_read c m3 = Some (answer resp n, m4)" "on_bus c resp m4 (\<not> cpol c) d1 s1"
    using miso_on_bus [OF m3(2) fd] unfolding ans by blast
  obtain m5 where m5: "(if cpha c then mosi_write c (bit_of byte k) m4 else Some m4) = Some m5"
    "on_bus c resp m5 (\<not> cpol c) (bit byte k) s1"
    using mosi_on_bus [OF m4(2) fd, of "bit byte k"] m4(2) unfolding bit_of_bit by (cases "cpha c") (auto simp: d1_def)
  have e2: "slave_edge c (cpol c) (bit byte k) s1 = (ins @ [bit byte k], Suc n)" by (simp add: slave_edge_def s1_def)
  obtain m6 where m6: "sck_write c (cpol c) m5 = Some m6" "on_bus c resp m6 (cpol c) (bit byte k) (ins @ [bit byte k], Suc n)"
    using sck_on_bus [OF m5(2) fd, of "cpol c"] unfolding e2 by auto
  obtain m7 where m7: "delay_half c m6 = Some m7" "on_bus c resp m7 (cpol c) (bit byte k) (ins @ [bit byte k], Suc n)"
    using delay_on_bus [OF m6(2)] by blast
  have "transfer_bit c byte k rx m = Some (with_bit rx k (answer resp n), m7)"
    unfolding transfer_bit_def using m1(1) m2(1) m3(1) m4(1) m5(1) m6(1) m7(1)
    by (simp del: if_not_P cong: if_cong)
  with m7(2) show ?thesis by blast
qed

section \<open>Bytes and buffers\<close>

lemma bit_with_bit: "k < 8 \<Longrightarrow> i < 8 \<Longrightarrow> bit (with_bit rx k v) i = (bit rx i \<or> i = k \<and> v)"
  by (auto simp: with_bit_def bit_simps)

lemma bit_loop_on_bus:
  assumes "full_duplex c" "n \<le> 8" "on_bus c resp m (cpol c) d (ins, 8 * j + (8 - n))"
  shows "\<exists>rx' d' m'. bit_loop (transfer_bit c byte) n rx m = Some (rx', m') \<and>
    on_bus c resp m' (cpol c) d' (ins @ map (bit byte) (rev [0..<n]), 8 * j + 8) \<and>
    (\<forall>i < 8. bit rx' i = (bit rx i \<or> i < n \<and> bit (resp j) i))"
  using assms(2,3)
proof (induction n arbitrary: rx m d ins)
  case 0
  then show ?case by auto
next
  case (Suc n)
  have "(8 * j + (8 - Suc n)) div 8 = j" "(8 * j + (8 - Suc n)) mod 8 = 8 - Suc n" by simp_all
  then have a: "answer resp (8 * j + (8 - Suc n)) = bit (resp j) n" using Suc.prems(1)
    unfolding answer_def by (simp only:) (simp add: Suc_le_eq)
  obtain m1 where m1: "transfer_bit c byte n rx m = Some (with_bit rx n (bit (resp j) n), m1)"
    "on_bus c resp m1 (cpol c) (bit byte n) (ins @ [bit byte n], Suc (8 * j + (8 - Suc n)))"
    using transfer_bit_on_bus [OF Suc.prems(2) assms(1)] unfolding a by blast
  have "Suc (8 * j + (8 - Suc n)) = 8 * j + (8 - n)" using Suc.prems(1) by simp
  from Suc.IH [OF _ m1(2) [unfolded this], of "with_bit rx n (bit (resp j) n)"] Suc.prems(1)
  obtain rx' d' m' where "bit_loop (transfer_bit c byte) n (with_bit rx n (bit (resp j) n)) m1 = Some (rx', m')"
    "on_bus c resp m' (cpol c) d' ((ins @ [bit byte n]) @ map (bit byte) (rev [0..<n]), 8 * j + 8)"
    "\<forall>i < 8. bit rx' i = (bit (with_bit rx n (bit (resp j) n)) i \<or> i < n \<and> bit (resp j) i)" by auto
  then show ?case using m1(1) Suc.prems(1) by (auto simp: bit_with_bit less_Suc_eq)
qed

lemma exchange_on_bus:
  assumes "full_duplex c" "on_bus c resp m (cpol c) d (ins, 8 * j)"
  shows "\<exists>d' m'. exchange_byte c byte m = Some (resp j, m') \<and> on_bus c resp m' (cpol c) d' (ins @ msb_bits byte, 8 * Suc j)"
proof -
  from bit_loop_on_bus [OF assms(1), of 8 resp m d ins j byte 0] assms(2)
  obtain rx' d' m' where b: "bit_loop (transfer_bit c byte) 8 0 m = Some (rx', m')"
    "on_bus c resp m' (cpol c) d' (ins @ map (bit byte) (rev [0..<8]), 8 * j + 8)" "\<forall>i < 8. bit rx' i = bit (resp j) i" by auto
  have "rx' = resp j" by (rule bit_word_eqI) (use b(3) in simp)
  moreover have "\<not> is_3wire c" using assms(1) by (auto simp: full_duplex_def is_3wire_def prod_eq_iff)
  ultimately have "exchange_byte c byte m = Some (resp j, m')" using b(1) by (simp add: exchange_byte_def transfer_byte_def)
  moreover have "8 * j + 8 = 8 * Suc j" by simp
  ultimately show ?thesis using b(2) unfolding msb_bits_def by metis
qed

lemma transfer_from_on_bus:
  assumes "full_duplex c" "on_bus c resp m (cpol c) d (ins, 8 * (k + i))" "n = length tx' - i" "length rx \<le> length tx'"
    and "\<And>x. x < length tx' \<Longrightarrow> tx' ! x = (if x < length tx then tx ! x else 0)"
  shows "\<exists>d' m'. soft_transfer_from c tx i n rx m = Some (map (\<lambda>x. if x < i then rx ! x else resp (k + x)) [0..<length rx], m') \<and>
    on_bus c resp m' (cpol c) d' (ins @ concat (map msb_bits (drop i tx')), 8 * (k + i + n))"
  using assms(2-4)
proof (induction n arbitrary: i rx m d ins)
  case 0
  have "map (\<lambda>x. if x < i then rx ! x else resp (k + x)) [0..<length rx] = rx"
    by (rule nth_equalityI) (use 0 in auto)
  with 0 show ?case by auto
next
  case (Suc n)
  have i: "i < length tx'" using Suc.prems(2) by simp
  obtain d1 m1 where m1: "exchange_byte c (tx' ! i) m = Some (resp (k + i), m1)"
    "on_bus c resp m1 (cpol c) d1 (ins @ msb_bits (tx' ! i), 8 * (k + Suc i))"
    using exchange_on_bus [OF assms(1) Suc.prems(1), of "tx' ! i"] by auto
  have n: "n = length tx' - Suc i" using Suc.prems(2) by simp
  let ?rx = "if i < length rx then rx[i := resp (k + i)] else rx"
  have l: "length ?rx \<le> length tx'" using Suc.prems(3) by simp
  obtain d' m' where r: "soft_transfer_from c tx (Suc i) n ?rx m1 =
      Some (map (\<lambda>x. if x < Suc i then ?rx ! x else resp (k + x)) [0..<length ?rx], m')"
    "on_bus c resp m' (cpol c) d' ((ins @ msb_bits (tx' ! i)) @ concat (map msb_bits (drop (Suc i) tx')), 8 * (k + Suc i + n))"
    using Suc.IH [OF m1(2) n l] by blast
  have "map (\<lambda>x. if x < Suc i then ?rx ! x else resp (k + x)) [0..<length ?rx] =
      map (\<lambda>x. if x < i then rx ! x else resp (k + x)) [0..<length rx]"
    by (rule nth_equalityI) (auto simp: less_Suc_eq)
  moreover have "drop i tx' = tx' ! i # drop (Suc i) tx'" using i by (rule Cons_nth_drop_Suc [symmetric])
  moreover have "soft_transfer_from c tx i (Suc n) rx m = soft_transfer_from c tx (Suc i) n ?rx m1"
    using m1(1) assms(5) [OF i] by (simp add: Let_def)
  ultimately show ?case using r by auto
qed

text \<open>C25. In each of the four modes, on any three distinct pins, a transfer with a device on the
  bus exchanges the buffers: the receive buffer holds the next bytes of the device, the
  device has taken the bytes sent, highest bit first and padded with zeros, one edge pair
  per bit, and the clock is back at its idle level.\<close>

theorem soft_transfer_exchanges:
  assumes "full_duplex c" "on_bus c resp m (cpol c) d (ins, 8 * k)"
  shows "\<exists>d' m'. soft_transfer c tx rx m = Some (map (\<lambda>i. resp (k + i)) [0..<length rx], m') \<and>
    on_bus c resp m' (cpol c) d' (ins @ concat (map msb_bits (tx @ replicate (length rx - length tx) 0)),
      8 * (k + max (length tx) (length rx)))"
proof -
  let ?tx = "tx @ replicate (length rx - length tx) 0"
  have "length ?tx = max (length tx) (length rx)" by simp
  then show ?thesis using transfer_from_on_bus [OF assms(1), of resp m d ins k 0 _ ?tx rx tx] assms(2)
    by (simp add: soft_transfer_def nth_append)
qed

text \<open>Mode 3 on port E, a device that answers \<open>0xA5\<close> to every byte.\<close>

definition soft_spi_example :: soft_spi_config where
  "soft_spi_example = with_mode (soft_spi_config_new (PortE, 9) (PortE, 8) (PortE, 7) 5) Mode3"

definition soft_spi_wires :: mmio where
  "soft_spi_wires = \<lparr>device32 = spi_device soft_spi_example (\<lambda>_. 0xA5) (\<lambda>_. 0x200) (\<lambda>_. 5), device8 = (\<lambda>_ _. 0), trace = []\<rparr>"

theorem soft_transfer_exchanges_witness:
  "\<exists>d' m'. soft_transfer soft_spi_example [0x3C] [0, 0] soft_spi_wires = Some ([0xA5, 0xA5], m') \<and>
    on_bus soft_spi_example (\<lambda>_. 0xA5) m' True d' (msb_bits 0x3C @ msb_bits 0, 16)"
proof -
  let ?c = soft_spi_example
  have c: "ss_sck ?c = (PortE, 9)" "ss_mosi ?c = (PortE, 8)" "ss_miso ?c = (PortE, 7)" "ss_delay_us ?c = 5" "cpol ?c"
    by (simp_all add: soft_spi_example_def with_mode_def soft_spi_config_new_def cpol_def)
  have f: "full_duplex ?c" by (simp add: full_duplex_def c)
  have "level (\<lambda>_. 0x200) (PortE, 9) []" "\<not> level (\<lambda>_. 0x200) (PortE, 8) []" by (simp_all add: level_def)
  then have "on_bus ?c (\<lambda>_. 0xA5) soft_spi_wires (cpol ?c) False ([], 8 * 0)"
    unfolding on_bus_def by (intro exI [of _ "\<lambda>_. 0x200"] exI [of _ "\<lambda>_. 5"]) (simp add: c soft_spi_wires_def)
  from soft_transfer_exchanges [OF f this, of "[0x3C]" "[0, 0]"] show ?thesis
    using c(5) by (simp add: upt_rec numeral_eq_Suc)
qed

end
