(* ===== verification/Spi.thy ===== *)
theory Spi
  imports Gpio Clock
begin

text \<open>
  \<open>spi.rs\<close>: the hardware SPI controllers.  A bus is its base address, its clock gate and
  the frequency of its bus clock.  A receive buffer is passed in and returned, also when
  the transfer times out half way.
\<close>

definition SPI0_BASE :: u32 where "SPI0_BASE = 0x01C05000"
definition SPI1_BASE :: u32 where "SPI1_BASE = 0x01C06000"

definition sp_CTRL :: u32 where "sp_CTRL = 0x04"
definition sp_TCTRL :: u32 where "sp_TCTRL = 0x08"
definition sp_FCTL :: u32 where "sp_FCTL = 0x18"
definition sp_FST :: u32 where "sp_FST = 0x1C"
definition sp_CCTR :: u32 where "sp_CCTR = 0x24"
definition sp_BC :: u32 where "sp_BC = 0x30"
definition sp_TC :: u32 where "sp_TC = 0x34"
definition sp_BCC :: u32 where "sp_BCC = 0x38"
definition sp_TXD :: u32 where "sp_TXD = 0x200"
definition sp_RXD :: u32 where "sp_RXD = 0x300"

lemmas spi_offsets = sp_CTRL_def sp_TCTRL_def sp_FCTL_def sp_FST_def sp_CCTR_def sp_BC_def sp_TC_def
  sp_BCC_def sp_TXD_def sp_RXD_def

definition ctrl_RST :: u32 where "ctrl_RST = bitm 31"
definition ctrl_TP_EN :: u32 where "ctrl_TP_EN = bitm 7"
definition ctrl_MODE_MASTER :: u32 where "ctrl_MODE_MASTER = bitm 1"
definition ctrl_EN :: u32 where "ctrl_EN = bitm 0"
definition tctrl_XCH :: u32 where "tctrl_XCH = bitm 31"
definition tctrl_FBS_LSB :: u32 where "tctrl_FBS_LSB = bitm 12"
definition tctrl_SS_LEVEL :: u32 where "tctrl_SS_LEVEL = bitm 7"
definition tctrl_SS_OWNER_SW :: u32 where "tctrl_SS_OWNER_SW = bitm 6"
definition SS_SEL_SHIFT :: nat where "SS_SEL_SHIFT = 4"
definition tctrl_SPOL :: u32 where "tctrl_SPOL = bitm 2"
definition tctrl_CPOL :: u32 where "tctrl_CPOL = bitm 1"
definition tctrl_CPHA :: u32 where "tctrl_CPHA = bitm 0"
definition fctl_TF_RST :: u32 where "fctl_TF_RST = bitm 31"
definition fctl_RF_RST :: u32 where "fctl_RF_RST = bitm 15"
definition TF_CNT_SHIFT :: nat where "TF_CNT_SHIFT = 16"
definition TF_CNT_MASK :: u32 where "TF_CNT_MASK = 0xFF"
definition RF_CNT_SHIFT :: nat where "RF_CNT_SHIFT = 0"
definition RF_CNT_MASK :: u32 where "RF_CNT_MASK = 0xFF"
definition cctr_DRS :: u32 where "cctr_DRS = bitm 12"
definition CDR1_SHIFT :: nat where "CDR1_SHIFT = 8"
definition CDR2_SHIFT :: nat where "CDR2_SHIFT = 0"

definition FIFO_SIZE :: nat where "FIFO_SIZE = 64"
definition BUS_MAX_CLK :: u32 where "BUS_MAX_CLK = 30000000"
definition DEFAULT_AHB_HZ :: u32 where "DEFAULT_AHB_HZ = 200000000"

datatype hw_spi_mode = SpiMode0 | SpiMode1 | SpiMode2 | SpiMode3
datatype bit_order = MsbFirst | LsbFirst
datatype chip_select = Ss0 | Ss1 | Ss2 | Ss3

fun chip_select_code :: "chip_select \<Rightarrow> u32" where
  "chip_select_code Ss0 = 0" | "chip_select_code Ss1 = 1" | "chip_select_code Ss2 = 2" | "chip_select_code Ss3 = 3"

definition spi_read :: "u32 \<Rightarrow> u32 \<Rightarrow> mmio \<Rightarrow> u32 \<times> mmio" where "spi_read base off m = rd32 (base + off) m"
definition spi_write :: "u32 \<Rightarrow> u32 \<Rightarrow> u32 \<Rightarrow> mmio \<Rightarrow> mmio" where "spi_write base off v m = wr32 (base + off) v m"
definition spi_write_byte :: "u32 \<Rightarrow> u8 \<Rightarrow> mmio \<Rightarrow> mmio" where "spi_write_byte base b m = wr8 (base + sp_TXD) b m"
definition spi_read_byte :: "u32 \<Rightarrow> mmio \<Rightarrow> u8 \<times> mmio" where "spi_read_byte base m = rd8 (base + sp_RXD) m"

record spi_pins =
  clk_port :: port
  clk_pin :: u8
  mosi_port :: port
  mosi_pin :: u8
  miso_port :: port
  miso_pin :: u8
  cs_port :: port
  cs_pin :: u8
  pin_func :: u8

record spi =
  sp_base :: u32
  sp_gate :: bus_gate
  sp_ahb_hz :: u32

datatype spi_error = SpiTimeout

section \<open>Configuration\<close>

text \<open>The three calls that \<open>init\<close> makes for each pin.\<close>

definition init_pin :: "port \<Rightarrow> u8 \<Rightarrow> u8 \<Rightarrow> mmio \<Rightarrow> mmio option" where
  "init_pin p pin func m = do {
     m \<leftarrow> set_function p pin func m;
     m \<leftarrow> set_pull_mode p pin PullDisable m;
     set_drive_level p pin Level0 m
   }"

definition spi_init :: "spi \<Rightarrow> spi_pins \<Rightarrow> mmio \<Rightarrow> mmio option" where
  "spi_init s pins m = do {
     m \<leftarrow> init_pin (clk_port pins) (clk_pin pins) (pin_func pins) m;
     m \<leftarrow> init_pin (mosi_port pins) (mosi_pin pins) (pin_func pins) m;
     m \<leftarrow> init_pin (miso_port pins) (miso_pin pins) (pin_func pins) m;
     m \<leftarrow> init_pin (cs_port pins) (cs_pin pins) (pin_func pins) m;
     Some (bus_clk_init (sp_gate s) m)
   }"

text \<open>\<open>while div_eff < div && n < 15\<close>.\<close>

function cdr1_search :: "u32 \<Rightarrow> u32 \<Rightarrow> u32 \<Rightarrow> u32" where
  "cdr1_search dv div_eff n = (if div_eff < dv \<and> n < 15 then cdr1_search dv (div_eff * 2) (n + 1) else n)"
  by pat_completeness auto
termination
proof (relation "measure (\<lambda>(_, _, n). 15 - unat n)")
  fix dv div_eff n :: u32 assume a: "div_eff < dv \<and> n < 15"
  then have "unat n < 15" by (simp add: word_less_nat_alt)
  moreover have "unat (n + 1) = Suc (unat n)" using a by (simp add: unat_word_ariths word_less_nat_alt)
  ultimately show "((dv, div_eff * 2, n + 1), (dv, div_eff, n)) \<in> measure (\<lambda>(_, _, n). 15 - unat n)" by simp
qed simp

declare cdr1_search.simps [simp del]

text \<open>The value of the clock register: a division by 0 (\<open>max_hz = 0\<close>) panics.\<close>

definition spi_divider :: "u32 \<Rightarrow> u32 \<Rightarrow> u32 option" where
  "spi_divider src max_hz = do {
     let limit = min max_hz BUS_MAX_CLK;
     assert_that (limit \<noteq> 0);
     let dv = (src + limit - 1) div limit;
     Some (if dv < 1 then 1 else dv)
   }"

definition spi_cctr :: "u32 \<Rightarrow> u32" where
  "spi_cctr dv = (if 2 * 256 < dv then push_bit CDR1_SHIFT (cdr1_search dv 2 0 AND 0x0F)
     else let h = (dv + 1) div 2; n = (if 1 \<le> h then h - 1 else 0)
       in cctr_DRS OR push_bit CDR2_SHIFT (n AND 0xFF))"

definition spi_set_clock :: "spi \<Rightarrow> u32 \<Rightarrow> mmio \<Rightarrow> mmio option" where
  "spi_set_clock s max_hz m = do {
     dv \<leftarrow> spi_divider (sp_ahb_hz s) max_hz;
     Some (spi_write (sp_base s) sp_CCTR (spi_cctr dv) m)
   }"

definition spi_disable :: "spi \<Rightarrow> mmio \<Rightarrow> mmio" where
  "spi_disable s m = (let (v, m) = spi_read (sp_base s) sp_CTRL m in spi_write (sp_base s) sp_CTRL (v AND NOT ctrl_EN) m)"

definition reset_ctrl :: "spi \<Rightarrow> mmio \<Rightarrow> mmio" where
  "reset_ctrl s m = spi_write (sp_base s) sp_CTRL ctrl_RST m"

definition reset_fifos :: "spi \<Rightarrow> mmio \<Rightarrow> mmio option" where
  "reset_fifos s m = do {
     let m = spi_write (sp_base s) sp_FCTL fctl_TF_RST m;
     m \<leftarrow> poll32 (sp_base s + sp_FCTL) (\<lambda>v. v AND fctl_TF_RST = 0) m;
     let m = spi_write (sp_base s) sp_FCTL fctl_RF_RST m;
     poll32 (sp_base s + sp_FCTL) (\<lambda>v. v AND fctl_RF_RST = 0) m
   }"

definition spi_tctrl :: "hw_spi_mode \<Rightarrow> bit_order \<Rightarrow> chip_select \<Rightarrow> u32" where
  "spi_tctrl mode order cs = (let
     t = tctrl_SS_OWNER_SW OR tctrl_SPOL OR tctrl_SS_LEVEL;
     t = (case mode of SpiMode0 \<Rightarrow> t | SpiMode1 \<Rightarrow> t OR tctrl_CPHA | SpiMode2 \<Rightarrow> t OR tctrl_CPOL
       | SpiMode3 \<Rightarrow> t OR (tctrl_CPOL OR tctrl_CPHA));
     t = (if order = LsbFirst then t OR tctrl_FBS_LSB else t)
   in t OR push_bit SS_SEL_SHIFT (chip_select_code cs))"

definition spi_configure :: "spi \<Rightarrow> hw_spi_mode \<Rightarrow> bit_order \<Rightarrow> chip_select \<Rightarrow> u32 \<Rightarrow> mmio \<Rightarrow> mmio option" where
  "spi_configure s mode order cs max_hz m = do {
     m \<leftarrow> spi_set_clock s max_hz m;
     let m = spi_write (sp_base s) sp_CTRL (ctrl_RST OR ctrl_TP_EN OR ctrl_MODE_MASTER OR ctrl_EN) m;
     let (_, m) = poll32_max 0x100000 (sp_base s + sp_CTRL) (\<lambda>v. v AND ctrl_RST = 0) m;
     let m = spi_write (sp_base s) sp_TCTRL (spi_tctrl mode order cs) m;
     reset_fifos s m
   }"

definition tx_fifo_count :: "spi \<Rightarrow> mmio \<Rightarrow> u8 \<times> mmio" where
  "tx_fifo_count s m = (let (v, m) = spi_read (sp_base s) sp_FST m in (ucast (get_field TF_CNT_SHIFT TF_CNT_MASK v), m))"

definition rx_count_of :: "u32 \<Rightarrow> u8" where "rx_count_of v = ucast (get_field RF_CNT_SHIFT RF_CNT_MASK v)"

definition rx_fifo_count :: "spi \<Rightarrow> mmio \<Rightarrow> u8 \<times> mmio" where
  "rx_fifo_count s m = (let (v, m) = spi_read (sp_base s) sp_FST m in (rx_count_of v, m))"

definition spi_cs_assert :: "spi \<Rightarrow> mmio \<Rightarrow> mmio" where
  "spi_cs_assert s m = (let (v, m) = spi_read (sp_base s) sp_TCTRL m
     in spi_write (sp_base s) sp_TCTRL (v AND NOT tctrl_SS_LEVEL) m)"

definition spi_cs_deassert :: "spi \<Rightarrow> mmio \<Rightarrow> mmio" where
  "spi_cs_deassert s m = (let (v, m) = spi_read (sp_base s) sp_TCTRL m
     in spi_write (sp_base s) sp_TCTRL (v OR tctrl_SS_LEVEL) m)"

section \<open>Transfers\<close>

text \<open>The two loops over \<open>i in 0..n\<close>, by the position \<open>off + i\<close>.\<close>

fun load_tx :: "u32 \<Rightarrow> u8 list \<Rightarrow> nat \<Rightarrow> nat \<Rightarrow> mmio \<Rightarrow> mmio" where
  "load_tx base tx pos 0 m = m"
| "load_tx base tx pos (Suc n) m =
     load_tx base tx (Suc pos) n (spi_write_byte base (if pos < length tx then tx ! pos else 0xFF) m)"

fun drain_rx :: "u32 \<Rightarrow> nat \<Rightarrow> nat \<Rightarrow> u8 list \<Rightarrow> mmio \<Rightarrow> u8 list \<times> mmio" where
  "drain_rx base pos 0 rx m = (rx, m)"
| "drain_rx base pos (Suc n) rx m = (let (b, m) = spi_read_byte base m
     in drain_rx base (Suc pos) n (if pos < length rx then rx[pos := b] else rx) m)"

text \<open>One chunk; \<^term>\<open>False\<close> when one of the two waits, of \<open>0xFFFFF\<close> retries, runs out.\<close>

definition exchange_chunk :: "spi \<Rightarrow> u8 list \<Rightarrow> nat \<Rightarrow> nat \<Rightarrow> u8 list \<Rightarrow> mmio \<Rightarrow> bool \<times> u8 list \<times> mmio" where
  "exchange_chunk s tx off n rx m = (let
     m = spi_write (sp_base s) sp_BC (word_of_nat n) m;
     m = spi_write (sp_base s) sp_TC (word_of_nat n) m;
     m = spi_write (sp_base s) sp_BCC (word_of_nat n) m;
     m = load_tx (sp_base s) tx off n m;
     (v, m) = spi_read (sp_base s) sp_TCTRL m;
     m = spi_write (sp_base s) sp_TCTRL (v OR tctrl_XCH) m;
     (ok, m) = poll32_max 0x100000 (sp_base s + sp_TCTRL) (\<lambda>v. v AND tctrl_XCH = 0) m
   in if \<not> ok then (False, rx, m) else
     let (ok, m) = poll32_max 0x100000 (sp_base s + sp_FST) (\<lambda>v. \<not> rx_count_of v < word_of_nat n) m
     in if \<not> ok then (False, rx, m) else
     let (rx, m) = drain_rx (sp_base s) off n rx m in (True, rx, m))"

function spi_transfer_from :: "spi \<Rightarrow> u8 list \<Rightarrow> nat \<Rightarrow> nat \<Rightarrow> u8 list \<Rightarrow> mmio \<Rightarrow> (spi_error + unit) \<times> u8 list \<times> mmio" where
  "spi_transfer_from s tx len off rx m = (if off < len then
     let n = min (len - off) FIFO_SIZE; (ok, rx, m) = exchange_chunk s tx off n rx m
     in if ok then spi_transfer_from s tx len (off + n) rx m else (Inl SpiTimeout, rx, m)
   else (Inr (), rx, m))"
  by pat_completeness auto
termination
  by (relation "measure (\<lambda>(_, _, len, off, _). len - off)") (auto simp: FIFO_SIZE_def)

declare spi_transfer_from.simps [simp del]

definition spi_transfer :: "spi \<Rightarrow> u8 list \<Rightarrow> u8 list \<Rightarrow> mmio \<Rightarrow> (spi_error + unit) \<times> u8 list \<times> mmio" where
  "spi_transfer s tx rx m = spi_transfer_from s tx (max (length tx) (length rx)) 0 rx m"

text \<open>\<open>send\<close> and \<open>receive\<close> go through \<open>transfer\<close> in chunks of 64; the recursion is over the
  rest of the buffer from \<open>off\<close> on.  The receive buffer of \<open>send\<close> lives across the chunks.\<close>

function spi_send_rest :: "spi \<Rightarrow> u8 list \<Rightarrow> u8 list \<Rightarrow> mmio \<Rightarrow> (spi_error + unit) \<times> mmio" where
  "spi_send_rest s tx rx_buf m = (if tx = [] then (Inr (), m) else
     let chunk = min (length tx) 64; (r, part, m) = spi_transfer s (take chunk tx) (take chunk rx_buf) m
     in case r of Inl e \<Rightarrow> (Inl e, m)
        | Inr _ \<Rightarrow> spi_send_rest s (drop chunk tx) (part @ drop chunk rx_buf) m)"
  by pat_completeness auto
termination
  by (relation "measure (\<lambda>(_, tx, _). length tx)") auto

declare spi_send_rest.simps [simp del]

definition spi_send :: "spi \<Rightarrow> u8 list \<Rightarrow> mmio \<Rightarrow> (spi_error + unit) \<times> mmio" where
  "spi_send s tx m = spi_send_rest s tx (replicate 64 0) m"

function spi_receive :: "spi \<Rightarrow> u8 list \<Rightarrow> mmio \<Rightarrow> (spi_error + unit) \<times> u8 list \<times> mmio" where
  "spi_receive s rx m = (if rx = [] then (Inr (), [], m) else
     let chunk = min (length rx) 64; (r, part, m) = spi_transfer s [0xFF] (take chunk rx) m
     in case r of Inl e \<Rightarrow> (Inl e, part @ drop chunk rx, m)
        | Inr _ \<Rightarrow> let (r, rest, m) = spi_receive s (drop chunk rx) m in (r, part @ rest, m))"
  by pat_completeness auto
termination
  by (relation "measure (\<lambda>(_, rx, _). length rx)") auto

declare spi_receive.simps [simp del]

section \<open>Transactions\<close>

definition spi_xfer :: "spi \<Rightarrow> u8 list \<Rightarrow> u8 list \<Rightarrow> mmio \<Rightarrow> (spi_error + unit) \<times> u8 list \<times> mmio" where
  "spi_xfer s tx rx m = (let (r, rx, m) = spi_transfer s tx rx (spi_cs_assert s m) in (r, rx, spi_cs_deassert s m))"

definition spi_xfer_send :: "spi \<Rightarrow> u8 list \<Rightarrow> mmio \<Rightarrow> (spi_error + unit) \<times> mmio" where
  "spi_xfer_send s tx m = (let (r, m) = spi_send s tx (spi_cs_assert s m) in (r, spi_cs_deassert s m))"

definition spi_xfer_receive :: "spi \<Rightarrow> u8 list \<Rightarrow> mmio \<Rightarrow> (spi_error + unit) \<times> u8 list \<times> mmio" where
  "spi_xfer_receive s rx m = (let (r, rx, m) = spi_receive s rx (spi_cs_assert s m) in (r, rx, spi_cs_deassert s m))"

definition spi_xfer_cmd_read :: "spi \<Rightarrow> u8 list \<Rightarrow> u8 list \<Rightarrow> mmio \<Rightarrow> (spi_error + unit) \<times> u8 list \<times> mmio" where
  "spi_xfer_cmd_read s cmd rx m = (let
     (r, _, m) = spi_transfer s cmd [] (spi_cs_assert s m);
     (r, rx, m) = (case r of Inl e \<Rightarrow> (Inl e, rx, m) | Inr _ \<Rightarrow> spi_receive s rx m)
   in (r, rx, spi_cs_deassert s m))"

definition spi_xfer_cmd_send :: "spi \<Rightarrow> u8 list \<Rightarrow> u8 list \<Rightarrow> mmio \<Rightarrow> (spi_error + unit) \<times> mmio" where
  "spi_xfer_cmd_send s cmd data m = (let
     (r, m) = spi_send s cmd (spi_cs_assert s m);
     (r, m) = (case r of Inl e \<Rightarrow> (Inl e, m) | Inr _ \<Rightarrow> spi_send s data m)
   in (r, spi_cs_deassert s m))"

section \<open>Buses\<close>

definition SPI0_PINS :: spi_pins where
  "SPI0_PINS = \<lparr>clk_port = PortC, clk_pin = 1, mosi_port = PortC, mosi_pin = 3, miso_port = PortC, miso_pin = 2,
     cs_port = PortC, cs_pin = 0, pin_func = 0x02\<rparr>"

definition SPI1_PINS :: spi_pins where
  "SPI1_PINS = \<lparr>clk_port = PortA, clk_pin = 1, mosi_port = PortA, mosi_pin = 3, miso_port = PortA, miso_pin = 2,
     cs_port = PortA, cs_pin = 0, pin_func = 0x06\<rparr>"

definition spi0 :: "mmio \<Rightarrow> (spi \<times> mmio) option" where
  "spi0 m = do {
     let s = \<lparr>sp_base = SPI0_BASE, sp_gate = Spi0, sp_ahb_hz = DEFAULT_AHB_HZ\<rparr>;
     m \<leftarrow> spi_init s SPI0_PINS m;
     Some (s, m)
   }"

definition spi1 :: "mmio \<Rightarrow> (spi \<times> mmio) option" where
  "spi1 m = do {
     let s = \<lparr>sp_base = SPI1_BASE, sp_gate = Spi1, sp_ahb_hz = DEFAULT_AHB_HZ\<rparr>;
     m \<leftarrow> spi_init s SPI1_PINS m;
     Some (s, m)
   }"

section \<open>Clock rates\<close>

text \<open>The divider of the bus clock that a value of the register stands for, by the comment
  in \<open>set_clock\<close>: \<open>2 (n + 1)\<close> with \<open>DRS\<close> set, \<open>2 * 2^(n + 1)\<close> otherwise.\<close>

definition cctr_divides :: "u32 \<Rightarrow> nat" where
  "cctr_divides v = (if v AND cctr_DRS \<noteq> 0 then 2 * (unat (v AND 0xFF) + 1)
     else 2 * 2 ^ (unat (get_field 8 0x0F v) + 1))"

lemma cdr1_search_bound:
  "unat n \<le> 15 \<Longrightarrow> unat de = 2 ^ (unat n + 1) \<Longrightarrow>
    unat (cdr1_search dv de n) \<le> 15 \<and> (unat dv \<le> 2 ^ (unat (cdr1_search dv de n) + 1) \<or> cdr1_search dv de n = 15)"
proof (induction dv de n rule: cdr1_search.induct)
  case (1 dv de n)
  show ?case
  proof (cases "de < dv \<and> n < 15")
    case True
    then have n: "unat n < 15" by (simp add: word_less_nat_alt)
    have s: "unat (n + 1) = Suc (unat n)" using n by (simp add: unat_word_ariths)
    have "2 ^ (unat n + 1) \<le> (2 ^ 15 :: nat)" by (rule power_increasing) (use n in simp_all)
    then have "unat (de * 2) = 2 ^ (unat (n + 1) + 1)" using 1(3) s by (simp add: unat_word_ariths)
    then have "unat (cdr1_search dv (de * 2) (n + 1)) \<le> 15 \<and>
        (unat dv \<le> 2 ^ (unat (cdr1_search dv (de * 2) (n + 1)) + 1) \<or> cdr1_search dv (de * 2) (n + 1) = 15)"
      using 1(1) [OF True] n s by simp
    then show ?thesis using True by (subst (1 2 3) cdr1_search.simps) simp
  next
    case False
    then have r: "cdr1_search dv de n = n" by (subst cdr1_search.simps) auto
    have "unat dv \<le> unat de \<or> unat n = 15"
      using False 1(2) by (auto simp: word_less_nat_alt not_less)
    then have "unat dv \<le> unat de \<or> n = 15" by (auto intro: unsigned_word_eqI [where 'a = nat])
    then show ?thesis using 1(2,3) by (simp add: r)
  qed
qed

lemma cctr_low: "unat dv \<le> 512 \<Longrightarrow> unat dv \<le> cctr_divides (spi_cctr dv) \<and> cctr_divides (spi_cctr dv) \<le> max (unat dv + 1) 2"
proof -
  assume a: "unat dv \<le> 512"
  define h where "h = (dv + 1) div 2"
  define n where "n = (if 1 \<le> h then h - 1 else 0)"
  have h: "unat h = (unat dv + 1) div 2" using a by (simp add: h_def unat_div unat_word_ariths)
  have n: "unat n = (unat dv + 1) div 2 - 1"
  proof (cases "1 \<le> h")
    case True
    then show ?thesis using h by (simp add: n_def unat_minus_u32)
  next
    case False
    then show ?thesis using h by (simp add: n_def word_le_nat_alt)
  qed
  have "unat n < 2 ^ 8" using a n by simp
  note m = and_mask_small [OF this] and b = small_bit [OF this]
  have c: "spi_cctr dv = bitm 12 OR n"
    using a m by (simp add: spi_cctr_def cctr_DRS_def CDR2_SHIFT_def Let_def word_less_nat_alt mask_eq_exp_minus_1 h_def [symmetric] n_def [symmetric])
  have "bit ((bitm 12 OR n) AND bitm 12) 12" by (simp add: bit_simps)
  then have "(bitm 12 OR n) AND bitm 12 \<noteq> 0" by force
  moreover have "(bitm 12 OR n) AND 0xFF = n"
    by (rule bit_word_eqI) (auto simp: bit_simps dest: b)
  ultimately have "cctr_divides (spi_cctr dv) = 2 * ((unat dv + 1) div 2 - 1 + 1)"
    using c n by (simp add: cctr_divides_def cctr_DRS_def)
  then show ?thesis by (cases "unat dv") auto
qed

lemma cctr_high: "512 < unat dv \<Longrightarrow> unat dv \<le> 2 ^ 17 \<Longrightarrow> unat dv \<le> cctr_divides (spi_cctr dv)"
proof -
  assume a: "512 < unat dv" "unat dv \<le> 2 ^ 17"
  define n where "n = cdr1_search dv 2 0"
  have n: "unat n \<le> 15" "unat dv \<le> 2 ^ (unat n + 1) \<or> n = 15"
    using cdr1_search_bound [of 0 2 dv] by (simp_all add: n_def)
  have "unat n < 2 ^ 4" using n(1) by simp
  note m = and_mask_small [OF this] and b = small_bit [OF this]
  have c: "spi_cctr dv = push_bit 8 n"
    using a m by (simp add: spi_cctr_def CDR1_SHIFT_def word_less_nat_alt mask_eq_exp_minus_1 n_def [symmetric])
  have "push_bit 8 n AND bitm 12 = 0" by (rule bit_word_eqI) (auto simp: bit_simps dest: b)
  moreover have "get_field 8 0x0F (push_bit 8 n) = n"
    by (rule bit_word_eqI) (auto simp: get_field_def bit_simps dest: b)
  ultimately have "cctr_divides (spi_cctr dv) = 2 * 2 ^ (unat n + 1)"
    using c by (simp add: cctr_divides_def cctr_DRS_def)
  then show ?thesis using n(2) a(2) by auto
qed

end
