(* ===== verification/Spi_Props.thy ===== *)
theory Spi_Props
  imports Spi
begin

text \<open>
  Properties of the SPI driver.  The clock never exceeds what was asked for, down to the
  slowest divider.  The bytes on the wire: for a controller that shifts each byte of the
  transmit FIFO out and the slave's answer into the receive FIFO, a transfer is the exchange
  of the padded transmit buffer with the slave, in order, whatever its length.
\<close>

section \<open>Clock\<close>

lemma ceil_div_u32:
  fixes src l :: u32
  assumes "unat src + unat l \<le> 2 ^ 32" "l \<noteq> 0"
  shows "unat ((src + l - 1) div l) = (unat src + unat l - 1) div unat l"
    and "unat src \<le> unat ((src + l - 1) div l) * unat l"
    and "unat src \<le> k * unat l \<Longrightarrow> unat ((src + l - 1) div l) \<le> k"
proof -
  have lp: "0 < unat l" using assms(2) by (simp add: unat_gt_0)
  have "src + l - 1 = word_of_nat (unat src + unat l - 1)" using lp by (simp add: of_nat_diff)
  moreover have "unat src + unat l - 1 < 2 ^ 32" using assms(1) lp by simp
  ultimately have "unat (src + l - 1) = unat src + unat l - 1" using unat_of_nat_u32 by metis
  then show d: "unat ((src + l - 1) div l) = (unat src + unat l - 1) div unat l" by (simp add: unat_div)
  have "unat src + unat l - 1 < ((unat src + unat l - 1) div unat l + 1) * unat l"
    using lp by (simp add: dividend_less_div_times)
  then show "unat src \<le> unat ((src + l - 1) div l) * unat l" unfolding d using lp by simp
  assume "unat src \<le> k * unat l"
  then have "(unat src + unat l - 1) div unat l < k + 1"
    using lp by (intro less_mult_imp_div_less) (simp add: algebra_simps)
  then show "unat ((src + l - 1) div l) \<le> k" using d by simp
qed

lemma spi_divider_found:
  assumes "unat src + unat (min max_hz BUS_MAX_CLK) \<le> 2 ^ 32" "max_hz \<noteq> 0"
    "unat src \<le> 2 ^ 17 * unat (min max_hz BUS_MAX_CLK)"
  shows "\<exists>dv. spi_divider src max_hz = Some dv \<and>
      unat src \<le> cctr_divides (spi_cctr dv) * unat (min max_hz BUS_MAX_CLK) \<and>
      (dv \<le> 512 \<longrightarrow> cctr_divides (spi_cctr dv) \<le> max (unat dv + 1) 2)"
proof -
  let ?l = "min max_hz BUS_MAX_CLK"
  let ?d = "(src + ?l - 1) div ?l"
  let ?v = "if ?d < 1 then 1 else ?d"
  have "BUS_MAX_CLK \<noteq> 0" by (simp add: BUS_MAX_CLK_def)
  then have l0: "?l \<noteq> 0" using assms(2) by (auto simp: min_def)
  have D: "spi_divider src max_hz = Some ?v" using l0 by (simp add: spi_divider_def Let_def)
  have dv: "unat ?d \<le> unat ?v" "unat ?v \<le> max (unat ?d) 1" by simp_all
  have "unat ?v \<le> 2 ^ 17" using dv ceil_div_u32(3) [OF assms(1) l0 assms(3)] by simp
  then have "unat ?v \<le> cctr_divides (spi_cctr ?v)" using cctr_low [of ?v] cctr_high [of ?v] by fastforce
  then have "unat ?d * unat ?l \<le> cctr_divides (spi_cctr ?v) * unat ?l" using dv by (intro mult_right_mono) simp_all
  then have "unat src \<le> cctr_divides (spi_cctr ?v) * unat ?l" by (rule order_trans [OF ceil_div_u32(2) [OF assms(1) l0]])
  moreover have "?v \<le> 512 \<longrightarrow> cctr_divides (spi_cctr ?v) \<le> max (unat ?v + 1) 2"
    using cctr_low [of ?v] by (simp add: word_le_nat_alt)
  ultimately show ?thesis using D by blast
qed

text \<open>C37. For a divider found for \<open>max_hz\<close>, the clock rate by the formulas of the source,
  \<open>src / (2 (n + 1))\<close> or \<open>src / (2 * 2^(n + 1))\<close>, is at most \<open>min max_hz 30 MHz\<close> whenever the
  ratio is at most \<open>2\<^sup>1\<^sup>7\<close>, the slowest rate of the controller; up to 512 it is the best even
  divider.  \<open>max_hz = 0\<close> panics.\<close>

theorem spi_clock_bound:
  assumes "unat src + unat (min max_hz BUS_MAX_CLK) \<le> 2 ^ 32"
  shows "(max_hz = 0 \<longrightarrow> spi_divider src max_hz = None) \<and>
    (max_hz \<noteq> 0 \<and> unat src \<le> 2 ^ 17 * unat (min max_hz BUS_MAX_CLK) \<longrightarrow>
      (\<exists>dv. spi_divider src max_hz = Some dv \<and>
        unat src \<le> cctr_divides (spi_cctr dv) * unat (min max_hz BUS_MAX_CLK) \<and>
        (dv \<le> 512 \<longrightarrow> cctr_divides (spi_cctr dv) \<le> max (unat dv + 1) 2)))"
proof (intro conjI impI)
  show "max_hz = 0 \<Longrightarrow> spi_divider src max_hz = None" by (simp add: spi_divider_def)
qed (blast intro: spi_divider_found [OF assms])

theorem spi_clock_bound_witness:
  "\<exists>dv. spi_divider 200000000 100000 = Some dv \<and> 200000000 \<le> cctr_divides (spi_cctr dv) * 100000"
proof -
  have "min 100000 BUS_MAX_CLK = 100000" by (simp add: BUS_MAX_CLK_def)
  then show ?thesis using spi_clock_bound [of 200000000 100000] by auto
qed

section \<open>The wire\<close>

text \<open>What the trace says of the wire: whether the chip select is low, the bytes sent since it
  fell, how many answers were taken out of the receive FIFO, and the finished transactions.\<close>

fun cs_low :: "u32 \<Rightarrow> access list \<Rightarrow> bool" where
  "cs_low base [] = False"
| "cs_low base (Wr32 a v # tr) = (if a = base + sp_TCTRL then v AND tctrl_SS_LEVEL = 0 else cs_low base tr)"
| "cs_low base (_ # tr) = cs_low base tr"

definition cs_falls :: "u32 \<Rightarrow> u32 \<Rightarrow> u32 \<Rightarrow> access list \<Rightarrow> bool" where
  "cs_falls base a v tr \<longleftrightarrow> a = base + sp_TCTRL \<and> v AND tctrl_SS_LEVEL = 0 \<and> \<not> cs_low base tr"
definition cs_rises :: "u32 \<Rightarrow> u32 \<Rightarrow> u32 \<Rightarrow> access list \<Rightarrow> bool" where
  "cs_rises base a v tr \<longleftrightarrow> a = base + sp_TCTRL \<and> v AND tctrl_SS_LEVEL \<noteq> 0 \<and> cs_low base tr"

fun sent :: "u32 \<Rightarrow> access list \<Rightarrow> u8 list" where
  "sent base [] = []"
| "sent base (Wr32 a v # tr) = (if cs_falls base a v tr then [] else sent base tr)"
| "sent base (Wr8 a b # tr) = (if a = base + sp_TXD then sent base tr @ [b] else sent base tr)"
| "sent base (_ # tr) = sent base tr"

fun taken :: "u32 \<Rightarrow> access list \<Rightarrow> nat" where
  "taken base [] = 0"
| "taken base (Wr32 a v # tr) = (if cs_falls base a v tr then 0 else taken base tr)"
| "taken base (Rd8 a b # tr) = (if a = base + sp_RXD then Suc (taken base tr) else taken base tr)"
| "taken base (_ # tr) = taken base tr"

fun finished :: "u32 \<Rightarrow> access list \<Rightarrow> u8 list list" where
  "finished base [] = []"
| "finished base (Wr32 a v # tr) = (if cs_rises base a v tr then finished base tr @ [sent base tr] else finished base tr)"
| "finished base (_ # tr) = finished base tr"

text \<open>The controller and the slave behind it.  \<open>XCH\<close> clears itself, the count of the receive
  FIFO is what was sent and not yet taken, and the answer to a byte is what the slave gives
  after the finished transactions and the bytes before that one.\<close>

type_synonym spi_slave = "u8 list list \<Rightarrow> u8 list \<Rightarrow> u8"

definition spi_controller :: "u32 \<Rightarrow> spi_slave \<Rightarrow> mmio \<Rightarrow> bool" where
  "spi_controller base slave m \<longleftrightarrow>
     (\<exists>init. init AND tctrl_SS_LEVEL \<noteq> 0 \<and>
       (\<forall>tr. device32 m tr (base + sp_TCTRL) = stored (\<lambda>_. init) tr (base + sp_TCTRL) AND NOT tctrl_XCH)) \<and>
     (\<forall>tr. taken base tr \<le> length (sent base tr) \<longrightarrow> length (sent base tr) \<le> taken base tr + FIFO_SIZE \<longrightarrow>
       rx_count_of (device32 m tr (base + sp_FST)) = word_of_nat (length (sent base tr) - taken base tr)) \<and>
     (\<forall>tr. taken base tr < length (sent base tr) \<longrightarrow>
       device8 m tr (base + sp_RXD) = slave (finished base tr) (take (taken base tr) (sent base tr)))"

text \<open>In a transaction, after the bytes \<open>cur\<close>, with nothing left in the FIFOs; between two.\<close>

definition wire_state :: "u32 \<Rightarrow> spi_slave \<Rightarrow> mmio \<Rightarrow> u8 list list \<Rightarrow> bool \<Rightarrow> u8 list \<Rightarrow> nat \<Rightarrow> bool" where
  "wire_state base slave m fin low cur k \<longleftrightarrow> spi_controller base slave m \<and> finished base (trace m) = fin \<and>
     cs_low base (trace m) = low \<and> sent base (trace m) = cur \<and> taken base (trace m) = k"

abbreviation in_transaction :: "spi \<Rightarrow> spi_slave \<Rightarrow> mmio \<Rightarrow> u8 list list \<Rightarrow> u8 list \<Rightarrow> bool" where
  "in_transaction s slave m fin cur \<equiv> wire_state (sp_base s) slave m fin True cur (length cur)"

definition between :: "spi \<Rightarrow> spi_slave \<Rightarrow> mmio \<Rightarrow> u8 list list \<Rightarrow> bool" where
  "between s slave m fin \<longleftrightarrow> (\<exists>cur k. wire_state (sp_base s) slave m fin False cur k)"

text \<open>One access.\<close>

lemma controller_cong: "device32 m' = device32 m \<Longrightarrow> device8 m' = device8 m \<Longrightarrow>
    spi_controller base slave m' = spi_controller base slave m"
  by (simp add: spi_controller_def)

lemma wire_rd32: "wire_state base slave m fin low cur k \<Longrightarrow> wire_state base slave (snd (rd32 a m)) fin low cur k"
  by (auto simp: wire_state_def rd32_def Let_def cong: controller_cong)

lemma wire_wr32: "wire_state base slave m fin low cur k \<Longrightarrow> a \<noteq> base + sp_TCTRL \<Longrightarrow>
    wire_state base slave (wr32 a v m) fin low cur k"
  by (auto simp: wire_state_def wr32_def cs_falls_def cs_rises_def cong: controller_cong)

lemma wire_tctrl_keep: "wire_state base slave m fin low cur k \<Longrightarrow> (v AND tctrl_SS_LEVEL = 0) = low \<Longrightarrow>
    wire_state base slave (wr32 (base + sp_TCTRL) v m) fin low cur k"
  by (auto simp: wire_state_def wr32_def cs_falls_def cs_rises_def cong: controller_cong)

lemma wire_tx: "wire_state base slave m fin low cur k \<Longrightarrow>
    wire_state base slave (wr8 (base + sp_TXD) b m) fin low (cur @ [b]) k"
  by (auto simp: wire_state_def wr8_def cong: controller_cong)

lemma wire_rx: "wire_state base slave m fin low cur k \<Longrightarrow> k < length cur \<Longrightarrow>
    fst (rd8 (base + sp_RXD) m) = slave fin (take k cur) \<and>
    wire_state base slave (snd (rd8 (base + sp_RXD) m)) fin low cur (Suc k)"
  by (auto simp: wire_state_def rd8_def Let_def spi_controller_def)

text \<open>The level of the chip select in the register is that of the trace.\<close>

lemma stored_level: "init AND tctrl_SS_LEVEL \<noteq> 0 \<Longrightarrow>
    (stored (\<lambda>_. init) tr (base + sp_TCTRL) AND tctrl_SS_LEVEL = 0) = cs_low base tr"
  by (induction base tr rule: cs_low.induct) auto

lemma xch_level: "(v AND NOT tctrl_XCH) AND tctrl_SS_LEVEL = v AND tctrl_SS_LEVEL"
  by (rule bit_word_eqI) (auto simp: bit_simps tctrl_XCH_def tctrl_SS_LEVEL_def)

lemma wire_tctrl: "wire_state base slave m fin low cur k \<Longrightarrow>
    (fst (rd32 (base + sp_TCTRL) m) AND tctrl_SS_LEVEL = 0) = low \<and>
    fst (rd32 (base + sp_TCTRL) m) AND tctrl_XCH = 0"
proof -
  assume w: "wire_state base slave m fin low cur k"
  then obtain init where i: "init AND tctrl_SS_LEVEL \<noteq> 0"
    "\<And>tr. device32 m tr (base + sp_TCTRL) = stored (\<lambda>_. init) tr (base + sp_TCTRL) AND NOT tctrl_XCH"
    by (auto simp: wire_state_def spi_controller_def)
  have "(v AND NOT tctrl_XCH) AND tctrl_XCH = 0" for v by (rule bit_word_eqI) (simp add: bit_simps)
  then show ?thesis using i(2) [of "trace m"] stored_level [OF i(1), of "trace m" base] w
    by (simp add: rd32_def Let_def xch_level wire_state_def)
qed

text \<open>The chip select.\<close>

lemma level_bits: "(v AND NOT tctrl_SS_LEVEL) AND tctrl_SS_LEVEL = 0" "(v OR tctrl_SS_LEVEL) AND tctrl_SS_LEVEL \<noteq> 0"
proof -
  show "(v AND NOT tctrl_SS_LEVEL) AND tctrl_SS_LEVEL = 0" by (rule bit_word_eqI) (simp add: bit_simps)
  have "bit ((v OR tctrl_SS_LEVEL) AND tctrl_SS_LEVEL) 7" by (simp add: bit_simps tctrl_SS_LEVEL_def)
  then show "(v OR tctrl_SS_LEVEL) AND tctrl_SS_LEVEL \<noteq> 0" by force
qed

lemma cs_assert_starts: "between s slave m fin \<Longrightarrow> in_transaction s slave (spi_cs_assert s m) fin []"
  unfolding between_def spi_cs_assert_def spi_read_def spi_write_def
  using level_bits(1)
  by (auto simp: wire_state_def rd32_def wr32_def Let_def cs_falls_def cs_rises_def cong: controller_cong)

lemma cs_deassert_ends: "in_transaction s slave m fin cur \<Longrightarrow> between s slave (spi_cs_deassert s m) (fin @ [cur])"
proof -
  assume "in_transaction s slave m fin cur"
  then have "wire_state (sp_base s) slave (spi_cs_deassert s m) (fin @ [cur]) False cur (length cur)"
    unfolding spi_cs_deassert_def spi_read_def spi_write_def using level_bits(2)
    by (auto simp: wire_state_def rd32_def wr32_def Let_def cs_falls_def cs_rises_def cong: controller_cong)
  then show ?thesis unfolding between_def by blast
qed

section \<open>Chunks\<close>

definition padded :: "u8 list \<Rightarrow> nat \<Rightarrow> u8" where
  "padded tx i = (if i < length tx then tx ! i else 0xFF)"

text \<open>The buffer when the answers before position \<open>p\<close> have been stored.\<close>

definition filled :: "u8 list \<Rightarrow> nat \<Rightarrow> (nat \<Rightarrow> u8) \<Rightarrow> u8 list" where
  "filled rx p f = map (\<lambda>i. if i < p then f i else rx ! i) [0..<length rx]"

lemma filled_0 [simp]: "filled rx 0 f = rx"
  by (simp add: filled_def map_nth)

lemma filled_all: "length rx \<le> p \<Longrightarrow> filled rx p f = map f [0..<length rx]"
  by (simp add: filled_def)

lemma length_filled [simp]: "length (filled rx p f) = length rx"
  by (simp add: filled_def)

lemma filled_step: "(if p < length rx then (filled rx p f)[p := f p] else filled rx p f) = filled rx (Suc p) f"
proof (rule nth_equalityI)
  fix i assume "i < length (if p < length rx then (filled rx p f)[p := f p] else filled rx p f)"
  then have "i < length rx" by (simp split: if_splits)
  then show "(if p < length rx then (filled rx p f)[p := f p] else filled rx p f) ! i = filled rx (Suc p) f ! i"
    by (cases "i = p") (simp_all add: filled_def nth_list_update)
qed simp

lemma load_tx_wire: "wire_state base slave m fin low cur k \<Longrightarrow>
    wire_state base slave (load_tx base tx pos n m) fin low (cur @ map (padded tx) [pos..<pos + n]) k"
proof (induction n arbitrary: pos m cur)
  case (Suc n)
  have "wire_state base slave (spi_write_byte base (padded tx pos) m) fin low (cur @ [padded tx pos]) k"
    unfolding spi_write_byte_def by (rule wire_tx [OF Suc.prems])
  moreover have "load_tx base tx pos (Suc n) m = load_tx base tx (Suc pos) n (spi_write_byte base (padded tx pos) m)"
    by (simp add: padded_def)
  moreover have "map (padded tx) [pos..<pos + Suc n] = padded tx pos # map (padded tx) [Suc pos..<Suc pos + n]"
    by (simp add: upt_conv_Cons del: upt_Suc)
  ultimately show ?case using Suc.IH [of "spi_write_byte base (padded tx pos) m" "cur @ [padded tx pos]" "Suc pos"] by simp
qed simp

lemma drain_rx_wire:
  assumes "\<And>i. k \<le> i \<Longrightarrow> i < k + n \<Longrightarrow> slave fin (take i cur) = f (pos + (i - k))"
  shows "wire_state base slave m fin low cur k \<Longrightarrow> k + n \<le> length cur \<Longrightarrow>
    \<exists>m'. drain_rx base pos n (filled rx pos f) m = (filled rx (pos + n) f, m') \<and> wire_state base slave m' fin low cur (k + n)"
  using assms
proof (induction n arbitrary: pos m k)
  case (Suc n)
  have r: "fst (spi_read_byte base m) = f pos" "wire_state base slave (snd (spi_read_byte base m)) fin low cur (Suc k)"
    using wire_rx [OF Suc.prems(1)] Suc.prems(2) Suc.prems(3) [of k] by (simp_all add: spi_read_byte_def)
  have "slave fin (take i cur) = f (Suc pos + (i - Suc k))" if "Suc k \<le> i" "i < Suc k + n" for i
    using Suc.prems(3) [of i] that by (simp add: Suc_diff_Suc)
  then have "\<exists>m'. drain_rx base (Suc pos) n (filled rx (Suc pos) f) (snd (spi_read_byte base m)) =
      (filled rx (Suc pos + n) f, m') \<and> wire_state base slave m' fin low cur (Suc k + n)"
    using Suc.IH [OF r(2), of "Suc pos"] Suc.prems(2) by simp
  then show ?case using r(1) filled_step [of pos rx f] by (auto simp: split_beta Let_def)
qed simp

lemma rx_count_wire: "wire_state base slave m fin low cur k \<Longrightarrow> length cur = k + n \<Longrightarrow> n \<le> FIFO_SIZE \<Longrightarrow>
    \<not> rx_count_of (fst (rd32 (base + sp_FST) m)) < word_of_nat n"
  by (simp add: wire_state_def spi_controller_def rd32_def Let_def)

lemma offsets_distinct:
  "base + sp_BC \<noteq> base + sp_TCTRL" "base + sp_TC \<noteq> base + sp_TCTRL" "base + sp_BCC \<noteq> base + sp_TCTRL"
  by (simp_all add: spi_offsets)

lemma exchange_chunk_wire:
  assumes "in_transaction s slave m fin cur" "n \<le> FIFO_SIZE"
    and "\<And>i. i < n \<Longrightarrow> f (off + i) = slave fin (cur @ map (padded tx) [off..<off + i])"
  shows "\<exists>m'. exchange_chunk s tx off n (filled rx off f) m = (True, filled rx (off + n) f, m') \<and>
    in_transaction s slave m' fin (cur @ map (padded tx) [off..<off + n])"
proof -
  let ?b = "sp_base s" and ?cur = "cur @ map (padded tx) [off..<off + n]" and ?k = "length cur"
  define m1 where "m1 = load_tx ?b tx off n (wr32 (?b + sp_BCC) (word_of_nat n) (wr32 (?b + sp_TC) (word_of_nat n)
    (wr32 (?b + sp_BC) (word_of_nat n) m)))"
  have w1: "wire_state ?b slave m1 fin True ?cur ?k"
    unfolding m1_def by (intro load_tx_wire wire_wr32 assms(1) offsets_distinct)
  define v where "v = fst (rd32 (?b + sp_TCTRL) m1)"
  define m2 where "m2 = wr32 (?b + sp_TCTRL) (v OR tctrl_XCH) (snd (rd32 (?b + sp_TCTRL) m1))"
  have "((v OR tctrl_XCH) AND tctrl_SS_LEVEL = 0) = True"
  proof -
    have "(v OR tctrl_XCH) AND tctrl_SS_LEVEL = v AND tctrl_SS_LEVEL"
      by (rule bit_word_eqI) (auto simp: bit_simps tctrl_XCH_def tctrl_SS_LEVEL_def)
    then show ?thesis using wire_tctrl [OF w1] by (simp add: v_def)
  qed
  then have w2: "wire_state ?b slave m2 fin True ?cur ?k"
    unfolding m2_def by (intro wire_tctrl_keep wire_rd32 w1)
  define m3 where "m3 = snd (rd32 (?b + sp_TCTRL) m2)"
  have p3: "poll32_max 0x100000 (?b + sp_TCTRL) (\<lambda>v. v AND tctrl_XCH = 0) m2 = (True, m3)"
    unfolding m3_def by (rule poll32_max_first) (use wire_tctrl [OF w2] in simp_all)
  have w3: "wire_state ?b slave m3 fin True ?cur ?k" unfolding m3_def by (rule wire_rd32 [OF w2])
  define m4 where "m4 = snd (rd32 (?b + sp_FST) m3)"
  have p4: "poll32_max 0x100000 (?b + sp_FST) (\<lambda>v. \<not> rx_count_of v < word_of_nat n) m3 = (True, m4)"
    unfolding m4_def by (rule poll32_max_first) (use rx_count_wire [OF w3 _ assms(2)] in simp_all)
  have w4: "wire_state ?b slave m4 fin True ?cur ?k" unfolding m4_def by (rule wire_rd32 [OF w3])
  have "slave fin (take i ?cur) = f (off + (i - ?k))" if "?k \<le> i" "i < ?k + n" for i
    using that assms(3) [of "i - ?k"] by (simp add: take_map take_upt)
  then obtain m5 where m5: "drain_rx ?b off n (filled rx off f) m4 = (filled rx (off + n) f, m5)"
    "wire_state ?b slave m5 fin True ?cur (?k + n)" using drain_rx_wire [OF _ w4] by force
  have "exchange_chunk s tx off n (filled rx off f) m = (True, filled rx (off + n) f, m5)"
    using p3 p4 m5(1)
    by (simp add: exchange_chunk_def spi_write_def spi_read_def m1_def [symmetric] split_beta v_def [symmetric] m2_def [symmetric])
  then show ?thesis using m5(2) by simp
qed

section \<open>Buffers\<close>

lemma transfer_from_wire:
  assumes "\<And>i. i < len \<Longrightarrow> f i = slave fin (cur @ map (padded tx) [0..<i])"
  shows "in_transaction s slave m fin (cur @ map (padded tx) [0..<off]) \<Longrightarrow> off \<le> len \<Longrightarrow>
    \<exists>m'. spi_transfer_from s tx len off (filled rx off f) m = (Inr (), filled rx len f, m') \<and>
      in_transaction s slave m' fin (cur @ map (padded tx) [0..<len])"
proof (induction "len - off" arbitrary: off m rule: less_induct)
  case less
  show ?case
  proof (cases "off < len")
    case False
    then show ?thesis using less.prems by (subst spi_transfer_from.simps) simp
  next
    case True
    let ?n = "min (len - off) FIFO_SIZE"
    have ap: "[0..<off + i] = [0..<off] @ [off..<off + i]" for i
      using upt_add_eq_append [of 0 off i] by simp
    have f: "f (off + i) = slave fin ((cur @ map (padded tx) [0..<off]) @ map (padded tx) [off..<off + i])" if "i < ?n" for i
    proof -
      have "off + i < len" using that by auto
      then show ?thesis using assms [of "off + i"] ap [of i] by simp
    qed
    obtain m' where m': "exchange_chunk s tx off ?n (filled rx off f) m = (True, filled rx (off + ?n) f, m')"
      "in_transaction s slave m' fin (cur @ map (padded tx) [0..<off + ?n])"
      using exchange_chunk_wire [where n = ?n and rx = rx, OF less.prems(1) _ f] ap [of ?n] by auto
    have "len - (off + ?n) < len - off" "off + ?n \<le> len" using True by (simp_all add: FIFO_SIZE_def)
    from less.hyps [OF this(1) m'(2) this(2)] show ?thesis
      using True m'(1) by (subst spi_transfer_from.simps) (simp add: Let_def)
  qed
qed

definition tx_bytes :: "u8 list \<Rightarrow> nat \<Rightarrow> u8 list" where
  "tx_bytes tx n = map (padded tx) [0..<max (length tx) n]"

lemma transfer_wire:
  assumes "in_transaction s slave m fin cur"
  shows "\<exists>m'. spi_transfer s tx rx m =
      (Inr (), map (\<lambda>i. slave fin (cur @ take i (tx_bytes tx (length rx)))) [0..<length rx], m') \<and>
    in_transaction s slave m' fin (cur @ tx_bytes tx (length rx))"
proof -
  let ?len = "max (length tx) (length rx)"
  let ?f = "\<lambda>i. slave fin (cur @ take i (tx_bytes tx (length rx)))"
  have f: "?f i = slave fin (cur @ map (padded tx) [0..<i])" if "i < ?len" for i
    using that by (simp add: tx_bytes_def take_map min_def take_upt)
  from transfer_from_wire [of ?len ?f slave fin cur tx, OF f, where off = 0 and m = m and rx = rx] assms
  show ?thesis by (simp add: spi_transfer_def filled_all tx_bytes_def)
qed

lemma tx_bytes_exact: "n \<le> length tx \<Longrightarrow> tx_bytes tx n = tx"
proof (rule nth_equalityI)
  fix i assume "n \<le> length tx" "i < length (tx_bytes tx n)"
  then show "tx_bytes tx n ! i = tx ! i" by (simp add: tx_bytes_def padded_def)
qed (simp add: tx_bytes_def)

lemma tx_bytes_dummy: "0 < n \<Longrightarrow> tx_bytes [0xFF] n = replicate n 0xFF"
  by (rule nth_equalityI) (auto simp: tx_bytes_def padded_def)

lemma send_rest_wire:
  "in_transaction s slave m fin cur \<Longrightarrow> length buf = 64 \<Longrightarrow>
    \<exists>m'. spi_send_rest s tx buf m = (Inr (), m') \<and> in_transaction s slave m' fin (cur @ tx)"
proof (induction "length tx" arbitrary: tx buf m cur rule: less_induct)
  case less
  show ?case
  proof (cases "tx = []")
    case True
    then show ?thesis using less.prems by (subst spi_send_rest.simps) simp
  next
    case False
    let ?c = "min (length tx) 64"
    have e: "tx_bytes (take ?c tx) (length (take ?c buf)) = take ?c tx"
      by (rule tx_bytes_exact) (simp add: less.prems(2))
    obtain part m' where m': "spi_transfer s (take ?c tx) (take ?c buf) m = (Inr (), part, m')"
      "in_transaction s slave m' fin (cur @ take ?c tx)" "length part = ?c"
      using transfer_wire [OF less.prems(1), of "take ?c tx" "take ?c buf", unfolded e] less.prems(2) by fastforce
    have b: "length (part @ drop ?c buf) = 64" using m'(3) less.prems(2) by simp
    have "length (drop ?c tx) < length tx" using False by simp
    from less.hyps [OF this m'(2) b] show ?thesis
      using False m'(1) by (subst spi_send_rest.simps) (simp add: Let_def)
  qed
qed

lemma send_wire: "in_transaction s slave m fin cur \<Longrightarrow>
    \<exists>m'. spi_send s tx m = (Inr (), m') \<and> in_transaction s slave m' fin (cur @ tx)"
  unfolding spi_send_def by (rule send_rest_wire) simp_all

lemma receive_wire:
  "in_transaction s slave m fin cur \<Longrightarrow>
    \<exists>m'. spi_receive s rx m = (Inr (), map (\<lambda>i. slave fin (cur @ replicate i 0xFF)) [0..<length rx], m') \<and>
      in_transaction s slave m' fin (cur @ replicate (length rx) 0xFF)"
proof (induction "length rx" arbitrary: rx m cur rule: less_induct)
  case less
  show ?case
  proof (cases "rx = []")
    case True
    then show ?thesis using less.prems by (subst spi_receive.simps) simp
  next
    case False
    let ?c = "min (length rx) 64" let ?g = "\<lambda>cur i. slave fin (cur @ replicate i 0xFF)"
    have c: "0 < ?c" "?c \<le> length rx" using False by simp_all
    obtain m' where m': "spi_transfer s [0xFF] (take ?c rx) m = (Inr (), map (?g cur) [0..<?c], m')"
      "in_transaction s slave m' fin (cur @ replicate ?c 0xFF)"
    proof -
      have "tx_bytes [0xFF] (length (take ?c rx)) = replicate ?c 0xFF" using c tx_bytes_dummy [of ?c] by simp
      then show ?thesis using transfer_wire [OF less.prems, of "[0xFF]" "take ?c rx"] that
        by (auto simp: min_def)
    qed
    have d: "length (drop ?c rx) < length rx" using False by simp
    have "map (?g cur) [0..<?c] @ map (?g (cur @ replicate ?c 0xFF)) [0..<length rx - ?c] = map (?g cur) [0..<length rx]"
      using c(2) by (intro nth_equalityI) (auto simp: nth_append replicate_add [symmetric])
    moreover have "replicate ?c 0xFF @ replicate (length rx - ?c) 0xFF = replicate (length rx) (0xFF :: u8)"
      using c(2) by (simp add: replicate_add [symmetric])
    ultimately show ?thesis using less.hyps [OF d m'(2)] False m'(1)
      by (subst spi_receive.simps) (auto simp: Let_def)
  qed
qed

section \<open>Whole transactions\<close>

lemma xfer_wire: "between s slave m fin \<Longrightarrow>
    \<exists>m'. spi_xfer s tx rx m = (Inr (), map (\<lambda>i. slave fin (take i (tx_bytes tx (length rx)))) [0..<length rx], m') \<and>
      between s slave m' (fin @ [tx_bytes tx (length rx)])"
  using transfer_wire [OF cs_assert_starts, of s slave m fin tx rx] cs_deassert_ends
  by (fastforce simp: spi_xfer_def)

lemma xfer_send_wire: "between s slave m fin \<Longrightarrow>
    \<exists>m'. spi_xfer_send s tx m = (Inr (), m') \<and> between s slave m' (fin @ [tx])"
  using send_wire [OF cs_assert_starts, of s slave m fin tx] cs_deassert_ends
  by (fastforce simp: spi_xfer_send_def)

lemma xfer_receive_wire: "between s slave m fin \<Longrightarrow>
    \<exists>m'. spi_xfer_receive s rx m = (Inr (), map (\<lambda>i. slave fin (replicate i 0xFF)) [0..<length rx], m') \<and>
      between s slave m' (fin @ [replicate (length rx) 0xFF])"
  using receive_wire [OF cs_assert_starts, of s slave m fin rx] cs_deassert_ends
  by (fastforce simp: spi_xfer_receive_def)

lemma xfer_cmd_read_wire: "between s slave m fin \<Longrightarrow>
    \<exists>m'. spi_xfer_cmd_read s cmd rx m =
      (Inr (), map (\<lambda>i. slave fin (cmd @ replicate i 0xFF)) [0..<length rx], m') \<and>
      between s slave m' (fin @ [cmd @ replicate (length rx) 0xFF])"
proof -
  assume b: "between s slave m fin"
  obtain m1 where m1: "spi_transfer s cmd [] (spi_cs_assert s m) = (Inr (), [], m1)" "in_transaction s slave m1 fin cmd"
    using transfer_wire [OF cs_assert_starts [OF b], of cmd "[]"] tx_bytes_exact [of 0 cmd] by auto
  obtain m2 where "spi_receive s rx m1 = (Inr (), map (\<lambda>i. slave fin (cmd @ replicate i 0xFF)) [0..<length rx], m2)"
    "in_transaction s slave m2 fin (cmd @ replicate (length rx) 0xFF)"
    using receive_wire [OF m1(2)] by blast
  then show ?thesis using m1(1) cs_deassert_ends by (fastforce simp: spi_xfer_cmd_read_def)
qed

lemma xfer_cmd_send_wire: "between s slave m fin \<Longrightarrow>
    \<exists>m'. spi_xfer_cmd_send s cmd data m = (Inr (), m') \<and> between s slave m' (fin @ [cmd @ data])"
proof -
  assume b: "between s slave m fin"
  obtain m1 where m1: "spi_send s cmd (spi_cs_assert s m) = (Inr (), m1)" "in_transaction s slave m1 fin cmd"
    using send_wire [OF cs_assert_starts [OF b], of cmd] by auto
  obtain m2 where "spi_send s data m1 = (Inr (), m2)" "in_transaction s slave m2 fin (cmd @ data)"
    using send_wire [OF m1(2), of data] by auto
  then show ?thesis using m1(1) cs_deassert_ends by (fastforce simp: spi_xfer_cmd_send_def)
qed

text \<open>A controller, for the witnesses: any slave, at any base address.\<close>

definition spi_device :: "u32 \<Rightarrow> spi_slave \<Rightarrow> mmio" where
  "spi_device base slave = \<lparr>device32 = (\<lambda>tr a.
       if a = base + sp_TCTRL then stored (\<lambda>_. tctrl_SS_LEVEL) tr a AND NOT tctrl_XCH
       else if a = base + sp_FST then word_of_nat (length (sent base tr) - taken base tr) else 0),
     device8 = (\<lambda>tr a. slave (finished base tr) (take (taken base tr) (sent base tr))), trace = []\<rparr>"

lemma spi_device_between: "between s slave (spi_device (sp_base s) slave) []"
proof -
  have n: "rx_count_of (word_of_nat n) = word_of_nat n" if "n \<le> FIFO_SIZE" for n
  proof -
    have "unat (word_of_nat n :: u32) < 2 ^ 8" using that by (simp add: FIFO_SIZE_def unat_of_nat_u32)
    from and_mask_small [OF this] that show ?thesis
      unfolding FIFO_SIZE_def
      by (simp add: rx_count_of_def get_field_def RF_CNT_SHIFT_def RF_CNT_MASK_def mask_eq_exp_minus_1 unsigned_of_nat take_bit_nat_eq_self)
  qed
  have "spi_controller (sp_base s) slave (spi_device (sp_base s) slave)"
    unfolding spi_controller_def
  proof (intro conjI allI impI exI)
    show "tctrl_SS_LEVEL AND tctrl_SS_LEVEL \<noteq> 0" by code_simp
  qed (use n in \<open>auto simp: spi_device_def spi_offsets simp del: of_nat_diff\<close>)
  then show ?thesis
    by (auto simp: between_def wire_state_def spi_device_def)
qed



end
