(* ===== verification/Spi_Flash.thy ===== *)
theory Spi_Flash
  imports Spi_Props
begin

text \<open>
  \<open>spi_flash.rs\<close>: the driver of a serial NOR flash on an SPI bus.  An operation that waits for
  the chip does not return while the chip is busy: its value is an option.
\<close>

definition cmd_WRITE_ENABLE :: u8 where "cmd_WRITE_ENABLE = 0x06"
definition cmd_READ_STATUS :: u8 where "cmd_READ_STATUS = 0x05"
definition cmd_READ_DATA :: u8 where "cmd_READ_DATA = 0x03"
definition cmd_PAGE_PROGRAM :: u8 where "cmd_PAGE_PROGRAM = 0x02"
definition cmd_SECTOR_ERASE_4K :: u8 where "cmd_SECTOR_ERASE_4K = 0x20"
definition cmd_BLOCK_ERASE_32K :: u8 where "cmd_BLOCK_ERASE_32K = 0x52"
definition cmd_BLOCK_ERASE_64K :: u8 where "cmd_BLOCK_ERASE_64K = 0xD8"
definition cmd_CHIP_ERASE :: u8 where "cmd_CHIP_ERASE = 0xC7"
definition cmd_READ_JEDEC_ID :: u8 where "cmd_READ_JEDEC_ID = 0x9F"
definition cmd_READ_UNIQUE_ID :: u8 where "cmd_READ_UNIQUE_ID = 0x4B"
definition cmd_POWER_DOWN :: u8 where "cmd_POWER_DOWN = 0xB9"
definition cmd_RELEASE_POWER_DOWN :: u8 where "cmd_RELEASE_POWER_DOWN = 0xAB"
definition status_BUSY :: u8 where "status_BUSY = 1"
definition status_WEL :: u8 where "status_WEL = 2"

lemmas flash_cmds = cmd_WRITE_ENABLE_def cmd_READ_STATUS_def cmd_READ_DATA_def cmd_PAGE_PROGRAM_def
  cmd_SECTOR_ERASE_4K_def cmd_BLOCK_ERASE_32K_def cmd_BLOCK_ERASE_64K_def cmd_CHIP_ERASE_def
  cmd_READ_JEDEC_ID_def cmd_READ_UNIQUE_ID_def cmd_POWER_DOWN_def cmd_RELEASE_POWER_DOWN_def

datatype flash_error = FlashSpi | FlashTimeout | FlashTooLarge

text \<open>\<open>From<SpiError>\<close>.\<close>

definition from_spi :: "spi_error + 'a \<Rightarrow> flash_error + 'a" where
  "from_spi r = (case r of Inl _ \<Rightarrow> Inl FlashSpi | Inr v \<Rightarrow> Inr v)"

text \<open>The \<open>?\<close> operator on a result and the state after it.\<close>

definition then_do :: "('e + 'a) \<times> mmio \<Rightarrow> ('a \<Rightarrow> mmio \<Rightarrow> (('e + 'b) \<times> mmio) option) \<Rightarrow> (('e + 'b) \<times> mmio) option" where
  "then_do rm f = (case fst rm of Inl e \<Rightarrow> Some (Inl e, snd rm) | Inr v \<Rightarrow> f v (snd rm))"

lemma then_do_simps [simp]: "then_do (Inl e, m) f = Some (Inl e, m)" "then_do (Inr v, m) f = f v m"
  by (simp_all add: then_do_def)

definition addr_cmd :: "u8 \<Rightarrow> u32 \<Rightarrow> u8 list" where
  "addr_cmd c addr = [c, ucast (drop_bit 16 addr AND 0xFF), ucast (drop_bit 8 addr AND 0xFF), ucast (addr AND 0xFF)]"

section \<open>Operations\<close>

definition flash_send :: "spi \<Rightarrow> u8 list \<Rightarrow> mmio \<Rightarrow> (flash_error + unit) \<times> mmio" where
  "flash_send s tx m = (let (r, m) = spi_xfer_send s tx m in (from_spi r, m))"

definition write_enable :: "spi \<Rightarrow> mmio \<Rightarrow> (flash_error + unit) \<times> mmio" where
  "write_enable s m = flash_send s [cmd_WRITE_ENABLE] m"

definition read_status :: "spi \<Rightarrow> mmio \<Rightarrow> (flash_error + u8) \<times> mmio" where
  "read_status s m = (let (r, rx, m) = spi_xfer s [cmd_READ_STATUS, 0] [0, 0] m
     in (case r of Inl _ \<Rightarrow> Inl FlashSpi | Inr _ \<Rightarrow> Inr (rx ! 1), m))"

partial_function (option) wait_busy :: "spi \<Rightarrow> mmio \<Rightarrow> ((flash_error + unit) \<times> mmio) option" where
  "wait_busy s m = (case read_status s m of
       (Inl e, m') \<Rightarrow> Some (Inl e, m')
     | (Inr sr, m') \<Rightarrow> if sr AND status_BUSY = 0 then Some (Inr (), m') else wait_busy s m')"

definition read_jedec_id :: "spi \<Rightarrow> mmio \<Rightarrow> (flash_error + u8 list) \<times> mmio" where
  "read_jedec_id s m = (let (r, rx, m) = spi_xfer s [cmd_READ_JEDEC_ID, 0, 0, 0] [0, 0, 0] m
     in (case r of Inl _ \<Rightarrow> Inl FlashSpi | Inr _ \<Rightarrow> Inr [rx ! 1, rx ! 2, rx ! 0], m))"

definition read_unique_id :: "spi \<Rightarrow> mmio \<Rightarrow> (flash_error + u8 list) \<times> mmio" where
  "read_unique_id s m = (let (r, rx, m) = spi_xfer s [cmd_READ_UNIQUE_ID, 0, 0, 0, 0] (replicate 12 0) m
     in (case r of Inl _ \<Rightarrow> Inl FlashSpi | Inr _ \<Rightarrow> Inr (take 8 (drop 4 rx)), m))"

definition is_busy :: "spi \<Rightarrow> mmio \<Rightarrow> (flash_error + bool) \<times> mmio" where
  "is_busy s m = (let (r, m) = read_status s m
     in (case r of Inl e \<Rightarrow> Inl e | Inr sr \<Rightarrow> Inr (sr AND status_BUSY \<noteq> 0), m))"

definition flash_read :: "spi \<Rightarrow> u32 \<Rightarrow> u8 list \<Rightarrow> mmio \<Rightarrow> (flash_error + unit) \<times> u8 list \<times> mmio" where
  "flash_read s addr buf m = (let (r, buf, m) = spi_xfer_cmd_read s (addr_cmd cmd_READ_DATA addr) buf m
     in (from_spi r, buf, m))"

text \<open>The three erase operations of a range differ in the command only.\<close>

definition erase_with :: "u8 \<Rightarrow> spi \<Rightarrow> u32 \<Rightarrow> mmio \<Rightarrow> ((flash_error + unit) \<times> mmio) option" where
  "erase_with c s addr m = then_do (write_enable s m) (\<lambda>_ m.
     then_do (flash_send s (addr_cmd c addr) m) (\<lambda>_ m. wait_busy s m))"

definition sector_erase_4k :: "spi \<Rightarrow> u32 \<Rightarrow> mmio \<Rightarrow> ((flash_error + unit) \<times> mmio) option" where
  "sector_erase_4k = erase_with cmd_SECTOR_ERASE_4K"
definition block_erase_32k :: "spi \<Rightarrow> u32 \<Rightarrow> mmio \<Rightarrow> ((flash_error + unit) \<times> mmio) option" where
  "block_erase_32k = erase_with cmd_BLOCK_ERASE_32K"
definition block_erase_64k :: "spi \<Rightarrow> u32 \<Rightarrow> mmio \<Rightarrow> ((flash_error + unit) \<times> mmio) option" where
  "block_erase_64k = erase_with cmd_BLOCK_ERASE_64K"

definition chip_erase :: "spi \<Rightarrow> mmio \<Rightarrow> ((flash_error + unit) \<times> mmio) option" where
  "chip_erase s m = then_do (write_enable s m) (\<lambda>_ m.
     then_do (flash_send s [cmd_CHIP_ERASE] m) (\<lambda>_ m. wait_busy s m))"

definition page_program :: "spi \<Rightarrow> u32 \<Rightarrow> u8 list \<Rightarrow> mmio \<Rightarrow> ((flash_error + unit) \<times> mmio) option" where
  "page_program s addr data m = (if 256 < length data then Some (Inl FlashTooLarge, m)
     else then_do (write_enable s m) (\<lambda>_ m.
       let (r, m) = spi_xfer_cmd_send s (addr_cmd cmd_PAGE_PROGRAM addr) data m
       in then_do (from_spi r, m) (\<lambda>_ m. wait_busy s m)))"

text \<open>The length of the chunk of \<open>write\<close> at \<open>offset\<close>.\<close>

definition write_chunk :: "u32 \<Rightarrow> u32 \<Rightarrow> u32 \<Rightarrow> u32" where
  "write_chunk addr len offset = (let page_addr = addr + offset; page_remain = 256 - (page_addr AND (256 - 1))
     in min page_remain (len - offset))"

partial_function (option) flash_write_from :: "spi \<Rightarrow> u32 \<Rightarrow> u8 list \<Rightarrow> u32 \<Rightarrow> mmio \<Rightarrow> ((flash_error + unit) \<times> mmio) option" where
  "flash_write_from s addr data offset m = (if offset < word_of_nat (length data) then do {
       let chunk = write_chunk addr (word_of_nat (length data)) offset;
       rm \<leftarrow> page_program s (addr + offset) (take (unat chunk) (drop (unat offset) data)) m;
       (case fst rm of Inl e \<Rightarrow> Some (Inl e, snd rm)
        | Inr _ \<Rightarrow> flash_write_from s addr data (offset + chunk) (snd rm))
     } else Some (Inr (), m))"

definition flash_write :: "spi \<Rightarrow> u32 \<Rightarrow> u8 list \<Rightarrow> mmio \<Rightarrow> ((flash_error + unit) \<times> mmio) option" where
  "flash_write s addr data m = flash_write_from s addr data 0 m"

definition power_down :: "spi \<Rightarrow> mmio \<Rightarrow> (flash_error + unit) \<times> mmio" where
  "power_down s m = flash_send s [cmd_POWER_DOWN] m"

text \<open>The spin of 100 rounds after the command touches no memory.\<close>

definition release_power_down :: "spi \<Rightarrow> mmio \<Rightarrow> (flash_error + unit) \<times> mmio" where
  "release_power_down s m = flash_send s [cmd_RELEASE_POWER_DOWN] m"

section \<open>The chip\<close>

text \<open>A NOR flash as its data sheet describes it: the command set of the driver's header.  A
  program or erase command takes effect when the transaction ends, if the write enable latch
  is set, which it clears; programming can only clear bits, and addresses wrap within the
  page of 256 bytes.\<close>

record nor =
  wel :: bool
  cells :: "nat \<Rightarrow> u8" \<comment> \<open>by the 24-bit address\<close>
  jedec :: "u8 \<times> u8 \<times> u8" \<comment> \<open>manufacturer, type, capacity\<close>
  unique :: "u8 list"

definition addr24 :: "u8 \<Rightarrow> u8 \<Rightarrow> u8 \<Rightarrow> nat" where
  "addr24 a b c = unat a * 65536 + unat b * 256 + unat c"

fun program_page :: "nat \<Rightarrow> nat \<Rightarrow> u8 list \<Rightarrow> (nat \<Rightarrow> u8) \<Rightarrow> nat \<Rightarrow> u8" where
  "program_page page i [] f = f"
| "program_page page i (b # bs) f = program_page page (Suc i) bs
     (f(page * 256 + i mod 256 := f (page * 256 + i mod 256) AND b))"

definition erase_block :: "nat \<Rightarrow> nat \<Rightarrow> (nat \<Rightarrow> u8) \<Rightarrow> nat \<Rightarrow> u8" where
  "erase_block sz a f = (\<lambda>x. if x div sz = a div sz then 0xFF else f x)"

definition nor_execute :: "nor \<Rightarrow> u8 list \<Rightarrow> nor" where
  "nor_execute c t = (case t of
     [b] \<Rightarrow> if b = 0x06 then c\<lparr>wel := True\<rparr> else if b = 0x04 then c\<lparr>wel := False\<rparr>
       else if b = 0xC7 \<and> wel c then c\<lparr>wel := False, cells := (\<lambda>_. 0xFF)\<rparr> else c
   | b # x # y # z # data \<Rightarrow> if \<not> wel c then c
       else if b = 0x02 \<and> data \<noteq> [] then c\<lparr>wel := False,
         cells := program_page (addr24 x y z div 256) (addr24 x y z mod 256) data (cells c)\<rparr>
       else if data \<noteq> [] then c
       else if b = 0x20 then c\<lparr>wel := False, cells := erase_block 4096 (addr24 x y z) (cells c)\<rparr>
       else if b = 0x52 then c\<lparr>wel := False, cells := erase_block 32768 (addr24 x y z) (cells c)\<rparr>
       else if b = 0xD8 then c\<lparr>wel := False, cells := erase_block 65536 (addr24 x y z) (cells c)\<rparr>
       else c
   | _ \<Rightarrow> c)"

definition nor_answer :: "nor \<Rightarrow> u8 list \<Rightarrow> u8" where
  "nor_answer c t = (case t of
     [] \<Rightarrow> 0xFF
   | b # rest \<Rightarrow> if b = 0x05 then (if wel c then 2 else 0)
       else if b = 0x9F then (case length rest of 0 \<Rightarrow> fst (jedec c) | Suc 0 \<Rightarrow> fst (snd (jedec c))
         | Suc (Suc 0) \<Rightarrow> snd (snd (jedec c)) | _ \<Rightarrow> 0xFF)
       else if b = 0x4B then (if 4 \<le> length rest \<and> length rest < 4 + length (unique c) then unique c ! (length rest - 4) else 0xFF)
       else if b = 0x03 then (case rest of x # y # z # ds \<Rightarrow> cells c ((addr24 x y z + length ds) mod 2 ^ 24) | _ \<Rightarrow> 0xFF)
       else 0xFF)"

text \<open>The chip after the finished transactions, and its answer.\<close>

definition nor_after :: "nor \<Rightarrow> u8 list list \<Rightarrow> nor" where
  "nor_after c fin = fold (\<lambda>t c. nor_execute c t) fin c"

definition nor_slave :: "nor \<Rightarrow> spi_slave" where
  "nor_slave c fin cur = nor_answer (nor_after c fin) cur"

end
