(* ===== verification/Spi_Flash_Props.thy ===== *)
theory Spi_Flash_Props
  imports Spi_Flash
begin

text \<open>
  Properties of the flash driver, over a NOR chip on the wire of the SPI controller: what a
  write leaves in the cells, across the page boundaries, that a read returns the cells, and
  what the identification commands really return.
\<close>

section \<open>The driver and the chip\<close>

text \<open>Between two transactions, with the chip in the state \<open>c\<close>.\<close>

definition chip_at :: "spi \<Rightarrow> mmio \<Rightarrow> nor \<Rightarrow> bool" where
  "chip_at s m c \<longleftrightarrow> (\<exists>c0 fin. between s (nor_slave c0) m fin \<and> nor_after c0 fin = c)"

lemma chip_atE:
  assumes "chip_at s m c"
  obtains c0 fin where "between s (nor_slave c0) m fin" "nor_slave c0 fin = nor_answer c" "nor_after c0 fin = c"
proof -
  from assms obtain c0 fin where c: "between s (nor_slave c0) m fin" "nor_after c0 fin = c" by (auto simp: chip_at_def)
  then have "nor_slave c0 fin = nor_answer c" by (simp add: fun_eq_iff nor_slave_def)
  then show thesis using that c by blast
qed

lemma chip_at_after: "between s (nor_slave c0) m (fin @ [t]) \<Longrightarrow> nor_after c0 fin = c \<Longrightarrow> chip_at s m (nor_execute c t)"
proof -
  assume "between s (nor_slave c0) m (fin @ [t])" "nor_after c0 fin = c"
  moreover have "nor_after c0 (fin @ [t]) = nor_execute (nor_after c0 fin) t" by (simp add: nor_after_def)
  ultimately show ?thesis unfolding chip_at_def by metis
qed

lemma chip_send: "chip_at s m c \<Longrightarrow> \<exists>m'. flash_send s t m = (Inr (), m') \<and> chip_at s m' (nor_execute c t)"
proof (erule chip_atE)
  fix c0 fin assume a: "between s (nor_slave c0) m fin" "nor_after c0 fin = c"
  obtain m' where "spi_xfer_send s t m = (Inr (), m')" "between s (nor_slave c0) m' (fin @ [t])"
    using xfer_send_wire [OF a(1)] by blast
  then show ?thesis using chip_at_after [OF _ a(2)] by (auto simp: flash_send_def from_spi_def)
qed

lemma nor_execute_status: "nor_execute c [5, 0] = c"
  by (simp add: nor_execute_def)

lemma chip_status: "chip_at s m c \<Longrightarrow>
    \<exists>m'. read_status s m = (Inr (if wel c then 2 else 0), m') \<and> chip_at s m' c"
proof (erule chip_atE)
  fix c0 fin assume a: "between s (nor_slave c0) m fin" "nor_slave c0 fin = nor_answer c" "nor_after c0 fin = c"
  have tx: "tx_bytes [5, 0] (length [0 :: u8, 0]) = [5, 0]" by (rule tx_bytes_exact) simp
  from xfer_wire [OF a(1), of "[5, 0]" "[0, 0]", unfolded tx a(2)] obtain m'
    where m': "spi_xfer s [5, 0] [0, 0] m = (Inr (), map (\<lambda>i. nor_answer c (take i [5, 0])) [0..<length [0 :: u8, 0]], m')"
      "between s (nor_slave c0) m' (fin @ [[5, 0]])" by blast
  have "chip_at s m' c" using chip_at_after [OF m'(2) a(3)] by (simp add: nor_execute_status)
  then show ?thesis using m'(1) by (simp add: read_status_def cmd_READ_STATUS_def nor_answer_def)
qed

lemma chip_wait: "chip_at s m c \<Longrightarrow> \<exists>m'. wait_busy s m = Some (Inr (), m') \<and> chip_at s m' c"
proof -
  assume "chip_at s m c"
  from chip_status [OF this] obtain m' where "read_status s m = (Inr (if wel c then 2 else 0), m')" "chip_at s m' c" by blast
  moreover have "(if wel c then 2 else 0 :: u8) AND status_BUSY = 0" by (cases "wel c") (simp_all add: status_BUSY_def)
  ultimately show ?thesis by (subst wait_busy.simps) auto
qed

lemma chip_write_enable: "chip_at s m c \<Longrightarrow> \<exists>m'. write_enable s m = (Inr (), m') \<and> chip_at s m' (c\<lparr>wel := True\<rparr>)"
  using chip_send [of s m c "[cmd_WRITE_ENABLE]"] by (simp add: write_enable_def cmd_WRITE_ENABLE_def nor_execute_def)

section \<open>Addresses\<close>

lemma unat_byte: "unat (ucast (w AND 0xFF) :: u8) = unat (w :: u32) mod 256"
proof -
  have "w AND 0xFF = take_bit 8 w" by (simp add: take_bit_eq_mask mask_eq_exp_minus_1)
  then show ?thesis by (simp add: unsigned_ucast_eq unsigned_take_bit_eq) (simp add: take_bit_eq_mod)
qed

lemma addr24_cmd: "addr24 (ucast (drop_bit 16 a AND 0xFF)) (ucast (drop_bit 8 a AND 0xFF)) (ucast (a AND 0xFF)) = unat (a :: u32) mod 2 ^ 24"
proof -
  have "unat a mod 2 ^ 24 = unat a div 2 ^ 16 mod 2 ^ 8 * 2 ^ 16 + unat a div 2 ^ 8 mod 2 ^ 8 * 2 ^ 8 + unat a mod 2 ^ 8"
    using mod_mult2_eq [of "unat a" "2 ^ 16" "2 ^ 8"] mod_mult2_eq [of "unat a" "2 ^ 8" "2 ^ 8"] by (simp add: algebra_simps)
  then show ?thesis by (simp add: addr24_def unat_byte unat_div drop_bit_eq_div)
qed

section \<open>Reading\<close>

lemma chip_read:
  assumes "chip_at s m c"
  shows "\<exists>m'. flash_read s addr buf m = (Inr (), map (\<lambda>i. cells c ((unat addr mod 2 ^ 24 + i) mod 2 ^ 24)) [0..<length buf], m') \<and>
    chip_at s m' c"
  using assms
proof (rule chip_atE)
  fix c0 fin assume a: "between s (nor_slave c0) m fin" "nor_slave c0 fin = nor_answer c" "nor_after c0 fin = c"
  let ?cmd = "addr_cmd cmd_READ_DATA addr"
  have ans: "nor_answer c (?cmd @ replicate i 0xFF) = cells c ((unat addr mod 2 ^ 24 + i) mod 2 ^ 24)" for i
    by (simp add: nor_answer_def addr_cmd_def cmd_READ_DATA_def addr24_cmd)
  obtain m' where m': "spi_xfer_cmd_read s ?cmd buf m = (Inr (), map (\<lambda>i. nor_answer c (?cmd @ replicate i 0xFF)) [0..<length buf], m')"
    "between s (nor_slave c0) m' (fin @ [?cmd @ replicate (length buf) 0xFF])"
    using xfer_cmd_read_wire [OF a(1), of ?cmd buf, unfolded a(2)] by blast
  have "nor_execute c (?cmd @ replicate (length buf) 0xFF) = c"
    by (simp add: nor_execute_def addr_cmd_def cmd_READ_DATA_def split: list.splits)
  then have "chip_at s m' c" using chip_at_after [OF m'(2) a(3)] by simp
  then show ?thesis using m'(1) by (simp add: flash_read_def from_spi_def ans)
qed

section \<open>Programming\<close>

text \<open>Bits cleared from address \<open>a\<close> on.\<close>

definition programmed :: "nat \<Rightarrow> u8 list \<Rightarrow> (nat \<Rightarrow> u8) \<Rightarrow> nat \<Rightarrow> u8" where
  "programmed a data f = (\<lambda>x. if a \<le> x \<and> x < a + length data then f x AND data ! (x - a) else f x)"

lemma programmed_Nil [simp]: "programmed a [] f = f"
  by (auto simp: programmed_def fun_eq_iff)

lemma programmed_append: "programmed (a + length d1) d2 (programmed a d1 f) = programmed a (d1 @ d2) f"
  by (auto simp: programmed_def fun_eq_iff nth_append)

lemma program_page_programmed: "i + length data \<le> 256 \<Longrightarrow>
    program_page page i data f = programmed (page * 256 + i) data f"
proof (induction data arbitrary: i f)
  case (Cons b bs)
  have "programmed (page * 256 + i + length [b]) bs (programmed (page * 256 + i) [b] f) =
      programmed (page * 256 + i) (b # bs) f" using programmed_append [of "page * 256 + i" "[b]" bs f] by simp
  moreover have "programmed (page * 256 + i) [b] f = f(page * 256 + i := f (page * 256 + i) AND b)"
    by (auto simp: programmed_def fun_eq_iff)
  moreover have "program_page page i (b # bs) f =
      programmed (page * 256 + Suc i) bs (f(page * 256 + i := f (page * 256 + i) AND b))"
    using Cons.IH [of "Suc i"] Cons.prems by (simp del: fun_upd_apply)
  ultimately show ?case by (simp only: add_Suc_right list.size add_0_right)
qed simp

lemma chip_page_program:
  assumes "chip_at s m c" "data \<noteq> []" "unat addr mod 256 + length data \<le> 256" "unat addr < 2 ^ 24"
  shows "\<exists>m'. page_program s addr data m = Some (Inr (), m') \<and>
    chip_at s m' (c\<lparr>wel := False, cells := programmed (unat addr) data (cells c)\<rparr>)"
proof -
  obtain m1 where m1: "write_enable s m = (Inr (), m1)" "chip_at s m1 (c\<lparr>wel := True\<rparr>)"
    using chip_write_enable [OF assms(1)] by blast
  from m1(2) show ?thesis
  proof (rule chip_atE)
    fix c0 fin assume a: "between s (nor_slave c0) m1 fin" "nor_after c0 fin = c\<lparr>wel := True\<rparr>"
    let ?t = "addr_cmd cmd_PAGE_PROGRAM addr @ data"
    obtain m2 where m2: "spi_xfer_cmd_send s (addr_cmd cmd_PAGE_PROGRAM addr) data m1 = (Inr (), m2)"
      "between s (nor_slave c0) m2 (fin @ [?t])" using xfer_cmd_send_wire [OF a(1)] by blast
    have "program_page (unat addr div 256) (unat addr mod 256) data (cells c) = programmed (unat addr) data (cells c)"
      using program_page_programmed [OF assms(3), of "unat addr div 256"] by simp
    then have "nor_execute (c\<lparr>wel := True\<rparr>) ?t = c\<lparr>wel := False, cells := programmed (unat addr) data (cells c)\<rparr>"
      using assms(2,4) by (simp add: nor_execute_def addr_cmd_def cmd_PAGE_PROGRAM_def addr24_cmd)
    with chip_at_after [OF m2(2) a(2)] have "chip_at s m2 (c\<lparr>wel := False, cells := programmed (unat addr) data (cells c)\<rparr>)"
      by simp
    then obtain m3 where "wait_busy s m2 = Some (Inr (), m3)"
      "chip_at s m3 (c\<lparr>wel := False, cells := programmed (unat addr) data (cells c)\<rparr>)" using chip_wait by blast
    moreover have "length data \<le> 256" using assms(3) by simp
    ultimately show ?thesis using m1(1) m2(1) by (simp add: page_program_def from_spi_def)
  qed
qed

text \<open>A chunk stays within its page and within the data.\<close>

lemma write_chunk_unat:
  assumes "unat addr + len < 2 ^ 32" "unat offset < len"
  shows "unat (write_chunk addr (word_of_nat len) offset) =
    min (256 - (unat addr + unat offset) mod 256) (len - unat offset)"
proof -
  have p: "unat (addr + offset) = unat addr + unat offset" using assms by (intro unat_plus_u32) simp
  have "(addr + offset) AND (256 - 1) = take_bit 8 (addr + offset)" by (simp add: take_bit_eq_mask mask_eq_exp_minus_1)
  then have m: "unat ((addr + offset) AND (256 - 1)) = (unat addr + unat offset) mod 256"
    by (simp add: unsigned_take_bit_eq p) (simp add: take_bit_eq_mod)
  have r: "unat (256 - ((addr + offset) AND (256 - 1))) = 256 - (unat addr + unat offset) mod 256"
    by (subst unat_minus_u32) (simp_all only: word_le_nat_alt m, simp_all)
  have l: "unat (word_of_nat len - offset) = len - unat offset"
    using assms by (subst unat_minus_u32) (simp_all add: word_le_nat_alt unat_of_nat_u32)
  show ?thesis using r l by (simp add: write_chunk_def Let_def min_def word_le_nat_alt)
qed

lemma write_from_programs:
  assumes "unat addr + length data \<le> 2 ^ 24"
  shows "chip_at s m c \<Longrightarrow> cells c = programmed (unat addr) (take (unat offset) data) f \<Longrightarrow> unat offset \<le> length data \<Longrightarrow>
    \<exists>m' c'. flash_write_from s addr data offset m = Some (Inr (), m') \<and> chip_at s m' c' \<and>
      cells c' = programmed (unat addr) data f"
proof (induction "length data - unat offset" arbitrary: offset m c rule: less_induct)
  case less
  have len: "unat (word_of_nat (length data) :: u32) = length data" using assms by (simp add: unat_of_nat_u32)
  show ?case
  proof (cases "unat offset < length data")
    case False
    then show ?thesis using less.prems len
      by (subst flash_write_from.simps) (auto simp: word_less_nat_alt)
  next
    case True
    let ?c = "write_chunk addr (word_of_nat (length data)) offset" and ?o = "unat offset"
    have c: "unat ?c = min (256 - (unat addr + ?o) mod 256) (length data - ?o)"
      using write_chunk_unat [of addr "length data" offset] assms True by simp
    have pos: "0 < unat ?c" "?o + unat ?c \<le> length data" using c True by simp_all
    have ad: "unat (addr + offset) = unat addr + ?o" using assms True by (intro unat_plus_u32) simp
    let ?d = "take (unat ?c) (drop ?o data)"
    have d: "?d \<noteq> []" "unat (addr + offset) mod 256 + length ?d \<le> 256" "unat (addr + offset) < 2 ^ 24"
    proof -
      have "unat ?c \<le> 256 - (unat addr + ?o) mod 256" using c by simp
      moreover have "(unat addr + ?o) mod 256 < 256" by simp
      ultimately have "(unat addr + ?o) mod 256 + unat ?c \<le> 256" by linarith
      then show "unat (addr + offset) mod 256 + length ?d \<le> 256" unfolding ad using pos(2) by simp
    qed (use pos True ad assms in auto)
    obtain m1 where m1: "page_program s (addr + offset) ?d m = Some (Inr (), m1)"
      "chip_at s m1 (c\<lparr>wel := False, cells := programmed (unat addr + ?o) ?d (cells c)\<rparr>)"
      using chip_page_program [OF less.prems(1) d] ad by auto
    have o: "unat (offset + ?c) = ?o + unat ?c" using pos assms by (intro unat_plus_u32) simp
    have "programmed (unat addr + ?o) ?d (cells c) = programmed (unat addr) (take (unat (offset + ?c)) data) f"
      using programmed_append [of "unat addr" "take ?o data" ?d f] less.prems(2) True
      by (simp add: o take_add)
    then have "\<exists>m' c'. flash_write_from s addr data (offset + ?c) m1 = Some (Inr (), m') \<and> chip_at s m' c' \<and>
        cells c' = programmed (unat addr) data f"
      using less.hyps [OF _ m1(2)] o pos by simp
    then show ?thesis using m1(1) True len
      by (subst flash_write_from.simps) (simp add: word_less_nat_alt Let_def)
  qed
qed


text \<open>A blank chip behind the controller.\<close>

definition blank_nor :: nor where
  "blank_nor = \<lparr>wel = False, cells = (\<lambda>_. 0xFF), jedec = (0xEF, 0x40, 0x18), unique = [1, 2, 3, 4, 5, 6, 7, 8]\<rparr>"

abbreviation bus0 :: spi where
  "bus0 \<equiv> \<lparr>sp_base = SPI0_BASE, sp_gate = Spi0, sp_ahb_hz = DEFAULT_AHB_HZ\<rparr>"

lemma blank_at: "chip_at bus0 (spi_device SPI0_BASE (nor_slave blank_nor)) blank_nor"
proof -
  have "nor_after blank_nor [] = blank_nor" by (simp add: nor_after_def)
  then show ?thesis using spi_device_between [of bus0 "nor_slave blank_nor"] unfolding chip_at_def by auto
qed


section \<open>Identification\<close>

lemma jedec_unique_answers:
  assumes "chip_at s m c" "length (unique c) = 8"
  shows "\<exists>m'. read_jedec_id s m = (Inr [fst (jedec c), fst (snd (jedec c)), 0xFF], m')"
    and "\<exists>m'. read_unique_id s m = (Inr (0xFF # take 7 (unique c)), m')"
proof -
  obtain c0 fin where a: "between s (nor_slave c0) m fin" "nor_slave c0 fin = nor_answer c"
    using assms(1) by (rule chip_atE)
  have tx: "tx_bytes [0x9F, 0, 0, 0] (length [0 :: u8, 0, 0]) = [0x9F, 0, 0, 0]" by (rule tx_bytes_exact) simp
  from xfer_wire [OF a(1), of "[0x9F, 0, 0, 0]" "[0, 0, 0]", unfolded tx a(2)]
  show "\<exists>m'. read_jedec_id s m = (Inr [fst (jedec c), fst (snd (jedec c)), 0xFF], m')"
    by (auto simp: read_jedec_id_def cmd_READ_JEDEC_ID_def nor_answer_def upt_rec)
  have tx2: "tx_bytes [0x4B, 0, 0, 0, 0] 12 = [0x4B, 0, 0, 0, 0, 0xFF, 0xFF, 0xFF, 0xFF, 0xFF, 0xFF, 0xFF]" by code_simp
  have e: "map (\<lambda>i. nor_answer c (take i (tx_bytes [0x4B, 0, 0, 0, 0] 12))) [0..<12] =
      [0xFF, 0xFF, 0xFF, 0xFF, 0xFF] @ take 7 (unique c)"
  proof -
    obtain u0 u1 u2 u3 u4 u5 u6 u7 where u: "unique c = [u0, u1, u2, u3, u4, u5, u6, u7]"
      using assms(2) by (auto simp: length_Suc_conv eval_nat_numeral)
    have "map (\<lambda>i. take i [0x4B, 0, 0, 0, 0, 0xFF, 0xFF, 0xFF, 0xFF, 0xFF, 0xFF, 0xFF]) [0..<12] =
      [[], [0x4B], [0x4B, 0], [0x4B, 0, 0], [0x4B, 0, 0, 0], [0x4B, 0, 0, 0, 0], [0x4B, 0, 0, 0, 0, 0xFF],
       [0x4B, 0, 0, 0, 0, 0xFF, 0xFF], [0x4B, 0, 0, 0, 0, 0xFF, 0xFF, 0xFF], [0x4B, 0, 0, 0, 0, 0xFF, 0xFF, 0xFF, 0xFF],
       [0x4B, 0, 0, 0, 0, 0xFF, 0xFF, 0xFF, 0xFF, 0xFF], [0x4B, 0, 0, 0, 0, 0xFF, 0xFF, 0xFF, 0xFF, 0xFF, 0xFF :: u8]]" (is "map ?t ?is = ?ts")
      by code_simp
    moreover have "map (\<lambda>i. nor_answer c (?t i)) ?is = map (nor_answer c) (map ?t ?is)" by simp
    ultimately have "map (\<lambda>i. nor_answer c (?t i)) ?is = map (nor_answer c) ?ts" by (rule back_subst [rotated])
    also have "\<dots> = [0xFF, 0xFF, 0xFF, 0xFF, 0xFF, u0, u1, u2, u3, u4, u5, u6]" by (simp add: nor_answer_def u)
    finally show ?thesis unfolding tx2 by (simp add: u)
  qed
  from xfer_wire [OF a(1), of "[0x4B, 0, 0, 0, 0]" "replicate 12 0"]
  show "\<exists>m'. read_unique_id s m = (Inr (0xFF # take 7 (unique c)), m')"
    unfolding a(2) length_replicate e by (auto simp: read_unique_id_def cmd_READ_UNIQUE_ID_def)
qed

text \<open>The identification commands do not return what they promise.  The answer of the JEDEC
  command starts with the byte clocked out during the command itself: \<open>read_jedec_id\<close> returns
  the manufacturer, the type and that first byte, never the capacity.  \<open>read_unique_id\<close> skips
  four bytes where five precede the identifier: it returns the last dummy byte and the first
  seven bytes of the identifier.\<close>

theorem flash_identification:
  assumes "chip_at s m c" "length (unique c) = 8"
  shows "(\<exists>m'. read_jedec_id s m = (Inr [fst (jedec c), fst (snd (jedec c)), 0xFF], m')) \<and>
    (\<exists>m'. read_unique_id s m = (Inr (0xFF # take 7 (unique c)), m'))"
  by (intro conjI jedec_unique_answers [OF assms])

theorem flash_identification_witness:
  "\<exists>m'. read_jedec_id bus0 (spi_device SPI0_BASE (nor_slave blank_nor)) = (Inr [0xEF, 0x40, 0xFF], m')"
  using flash_identification [THEN conjunct1, OF blank_at] by (simp add: blank_nor_def)

end
