(* ===== verification/Lcd.thy ===== *)
theory Lcd
  imports Gpio Clock
begin

text \<open>
  \<open>lcd.rs\<close> and \<open>panels.rs\<close>: the timing controller, the display backend and the bring-up of
  a panel.  A failed assertion or a division by 0 is \<^term>\<open>None\<close>; the panel's own
  initialisation is a function of the panel record.
\<close>

definition TCON_BASE :: u32 where "TCON_BASE = 0x01C0C000"
definition DEBE_BASE :: u32 where "DEBE_BASE = 0x01E60000"

definition set_bits :: "u32 \<Rightarrow> u32 \<Rightarrow> mmio \<Rightarrow> mmio" where "set_bits addr msk m = rmw32 addr (\<lambda>v. v OR msk) m"
definition clear_bits :: "u32 \<Rightarrow> u32 \<Rightarrow> mmio \<Rightarrow> mmio" where "clear_bits addr msk m = rmw32 addr (\<lambda>v. v AND NOT msk) m"

datatype bus_mode = ParallelRgb | SerialRgb | SerialYuv | Cpu8080
datatype bus_8080_mode = Mode18Bit256k | Mode16Bit0 | Mode16Bit1 | Mode16Bit2 | Mode16Bit3 | Mode9Bit | Mode8Bit256k | Mode8Bit65k

fun bus_8080_code :: "bus_8080_mode \<Rightarrow> u32" where
  "bus_8080_code Mode18Bit256k = 0" | "bus_8080_code Mode16Bit0 = 1" | "bus_8080_code Mode16Bit1 = 2"
| "bus_8080_code Mode16Bit2 = 3" | "bus_8080_code Mode16Bit3 = 4" | "bus_8080_code Mode9Bit = 5"
| "bus_8080_code Mode8Bit256k = 6" | "bus_8080_code Mode8Bit65k = 7"

record panel =
  p_name :: string
  p_width :: u32
  p_height :: u32
  bus_width :: u32
  p_bus_mode :: bus_mode
  bus_8080_type :: bus_8080_mode
  pixel_clock_hz :: u32
  h_front_porch :: u32
  h_back_porch :: u32
  h_sync_len :: u32
  v_front_porch :: u32
  v_back_porch :: u32
  v_sync_len :: u32
  bus_bits_per_pixel :: u32
  h_sync_inv :: bool
  v_sync_inv :: bool
  data_enable_inv :: bool
  clock_inv :: bool
  panel_init :: "(mmio \<Rightarrow> mmio option) option"

definition rgb_parallel :: "string \<Rightarrow> u32 \<Rightarrow> u32 \<Rightarrow> u32 \<Rightarrow> u32 \<Rightarrow> u32 \<Rightarrow> u32 \<Rightarrow> u32 \<Rightarrow> u32 \<Rightarrow> u32 \<Rightarrow> u32 \<Rightarrow> u32 \<Rightarrow>
    bool \<Rightarrow> bool \<Rightarrow> bool \<Rightarrow> bool \<Rightarrow> panel" where
  "rgb_parallel nm w h bw px hf hb hs vf vb vs bpp hi vi de ci =
     \<lparr>p_name = nm, p_width = w, p_height = h, bus_width = bw, p_bus_mode = ParallelRgb, bus_8080_type = Mode18Bit256k,
      pixel_clock_hz = px, h_front_porch = hf, h_back_porch = hb, h_sync_len = hs,
      v_front_porch = vf, v_back_porch = vb, v_sync_len = vs, bus_bits_per_pixel = bpp,
      h_sync_inv = hi, v_sync_inv = vi, data_enable_inv = de, clock_inv = ci, panel_init = None\<rparr>"

definition panel_DEFAULT :: panel where
  "panel_DEFAULT = \<lparr>p_name = ''default'', p_width = 800, p_height = 480, bus_width = 8, p_bus_mode = ParallelRgb,
      bus_8080_type = Mode18Bit256k, pixel_clock_hz = 33000000, h_front_porch = 40, h_back_porch = 40, h_sync_len = 48,
      v_front_porch = 13, v_back_porch = 29, v_sync_len = 3, bus_bits_per_pixel = 8,
      h_sync_inv = False, v_sync_inv = False, data_enable_inv = False, clock_inv = False, panel_init = None\<rparr>"

definition panel_TL021WVC04 :: panel where
  "panel_TL021WVC04 = \<lparr>p_name = ''tl021wvc04'', p_width = 480, p_height = 480, bus_width = 18, p_bus_mode = ParallelRgb,
      bus_8080_type = Mode18Bit256k, pixel_clock_hz = 16000000, h_front_porch = 24, h_back_porch = 18, h_sync_len = 6,
      v_front_porch = 2, v_back_porch = 11, v_sync_len = 4, bus_bits_per_pixel = 32,
      h_sync_inv = False, v_sync_inv = False, data_enable_inv = False, clock_inv = False, panel_init = None\<rparr>"

definition tc_CTRL :: u32 where "tc_CTRL = 0x00"
definition tc_INT0 :: u32 where "tc_INT0 = 0x04"
definition tc_FRM_CTRL :: u32 where "tc_FRM_CTRL = 0x10"
definition tc_FRM_SEED :: u32 where "tc_FRM_SEED = 0x14"
definition tc_FRM_TABLE :: u32 where "tc_FRM_TABLE = 0x2C"
definition TCON0_CTRL :: u32 where "TCON0_CTRL = 0x40"
definition TCON0_DCLK :: u32 where "TCON0_DCLK = 0x44"
definition TCON0_TIMING_ACT :: u32 where "TCON0_TIMING_ACT = 0x48"
definition TCON0_TIMING_H :: u32 where "TCON0_TIMING_H = 0x4C"
definition TCON0_TIMING_V :: u32 where "TCON0_TIMING_V = 0x50"
definition TCON0_TIMING_SYNC :: u32 where "TCON0_TIMING_SYNC = 0x54"
definition TCON0_HV_INTF :: u32 where "TCON0_HV_INTF = 0x58"
definition TCON0_CPU_INTF :: u32 where "TCON0_CPU_INTF = 0x60"
definition TCON0_CPU_WR_DAT :: u32 where "TCON0_CPU_WR_DAT = 0x64"
definition TCON0_IO_POLARITY :: u32 where "TCON0_IO_POLARITY = 0x88"
definition TCON0_IO_TRISTATE :: u32 where "TCON0_IO_TRISTATE = 0x8C"
definition TCON1_IO_TRISTATE :: u32 where "TCON1_IO_TRISTATE = 0xF4"

definition de_MODE :: u32 where "de_MODE = 0x0800"
definition de_BACKCOLOR :: u32 where "de_BACKCOLOR = 0x0804"
definition de_REGBUF_CTRL :: u32 where "de_REGBUF_CTRL = 0x0870"
definition LAY_SIZE :: u32 where "LAY_SIZE = 0x0810"
definition LAY_POS :: u32 where "LAY_POS = 0x0820"
definition LAY_STRIDE :: u32 where "LAY_STRIDE = 0x0840"
definition LAY_ADDR_L :: u32 where "LAY_ADDR_L = 0x0850"
definition LAY_ADDR_H :: u32 where "LAY_ADDR_H = 0x0860"
definition LAY_ATTR0 :: u32 where "LAY_ATTR0 = 0x0890"
definition LAY_ATTR1 :: u32 where "LAY_ATTR1 = 0x08A0"

definition lay_size :: "u8 \<Rightarrow> u32" where "lay_size layer = LAY_SIZE + ucast layer * 0x04"
definition lay_pos :: "u8 \<Rightarrow> u32" where "lay_pos layer = LAY_POS + ucast layer * 0x04"
definition lay_stride :: "u8 \<Rightarrow> u32" where "lay_stride layer = LAY_STRIDE + ucast layer * 0x04"
definition lay_addr_l :: "u8 \<Rightarrow> u32" where "lay_addr_l layer = LAY_ADDR_L + ucast layer * 0x04"
definition lay_addr_h :: "u8 \<Rightarrow> u32" where "lay_addr_h layer = LAY_ADDR_H + ucast layer * 0x04"
definition lay_attr0 :: "u8 \<Rightarrow> u32" where "lay_attr0 layer = LAY_ATTR0 + ucast layer * 0x04"
definition lay_attr1 :: "u8 \<Rightarrow> u32" where "lay_attr1 layer = LAY_ATTR1 + ucast layer * 0x04"

section \<open>Layers\<close>

definition BPP_16 :: u32 where "BPP_16 = push_bit 8 16"
definition BPP_32 :: u32 where "BPP_32 = push_bit 8 32"

datatype color_mode = Rgb565 | Rgb888 | Argb8888
datatype update_mode = UpdateAuto | UpdateManual

fun color_reg_value :: "color_mode \<Rightarrow> u32" where
  "color_reg_value Rgb565 = 5 OR BPP_16" | "color_reg_value Rgb888 = 9 OR BPP_32" | "color_reg_value Argb8888 = 10 OR BPP_32"
fun color_bpp :: "color_mode \<Rightarrow> u32" where
  "color_bpp Rgb565 = 16" | "color_bpp Rgb888 = 32" | "color_bpp Argb8888 = 32"
fun update_mode_code :: "update_mode \<Rightarrow> u32" where
  "update_mode_code UpdateAuto = 0" | "update_mode_code UpdateManual = 3"

definition debe_set_bg_color :: "u32 \<Rightarrow> mmio \<Rightarrow> mmio" where
  "debe_set_bg_color color m = wr32 (DEBE_BASE + de_BACKCOLOR) color m"

definition check_layer :: "u8 \<Rightarrow> unit option" where "check_layer layer = assert_that (layer < 4)"

definition debe_layer_enable :: "u8 \<Rightarrow> mmio \<Rightarrow> mmio option" where
  "debe_layer_enable layer m = do { check_layer layer; Some (set_bits (DEBE_BASE + de_MODE) (bitm (unat layer + 8)) m) }"
definition debe_layer_disable :: "u8 \<Rightarrow> mmio \<Rightarrow> mmio option" where
  "debe_layer_disable layer m = do { check_layer layer; Some (clear_bits (DEBE_BASE + de_MODE) (bitm (unat layer + 8)) m) }"

definition debe_layer_set_pos :: "u8 \<Rightarrow> u16 \<Rightarrow> u16 \<Rightarrow> mmio \<Rightarrow> mmio option" where
  "debe_layer_set_pos layer x y m = do {
     check_layer layer;
     Some (wr32 (DEBE_BASE + lay_pos layer) (push_bit 16 (ucast y) OR ucast x) m)
   }"

definition debe_layer_set_size :: "u8 \<Rightarrow> u16 \<Rightarrow> u16 \<Rightarrow> u32 \<Rightarrow> mmio \<Rightarrow> mmio option" where
  "debe_layer_set_size layer w h bpp m = do {
     check_layer layer;
     let m = wr32 (DEBE_BASE + lay_size layer) (push_bit 16 (ucast h - 1) OR (ucast w - 1)) m;
     Some (wr32 (DEBE_BASE + lay_stride layer) (ucast w * bpp) m)
   }"

definition debe_layer_set_addr :: "u8 \<Rightarrow> u32 \<Rightarrow> mmio \<Rightarrow> mmio option" where
  "debe_layer_set_addr layer buf m = do {
     check_layer layer;
     let m = wr32 (DEBE_BASE + lay_addr_l layer) (push_bit 3 buf) m;
     Some (wr32 (DEBE_BASE + lay_addr_h layer) (drop_bit 29 buf) m)
   }"

definition debe_layer_set_mode :: "u8 \<Rightarrow> color_mode \<Rightarrow> mmio \<Rightarrow> mmio option" where
  "debe_layer_set_mode layer mode m = do {
     check_layer layer;
     let reg_val = color_reg_value mode;
     let m = clear_bits (DEBE_BASE + lay_attr0 layer) (bitm 22) m;
     let (v, m) = rd32 (DEBE_BASE + lay_attr1 layer) m;
     Some (wr32 (DEBE_BASE + lay_attr1 layer) ((v AND NOT (push_bit 8 0x0F)) OR push_bit 8 (reg_val AND 0x0F)) m)
   }"

definition debe_layer_set_alpha :: "u8 \<Rightarrow> u8 \<Rightarrow> mmio \<Rightarrow> mmio option" where
  "debe_layer_set_alpha layer alpha m = do {
     check_layer layer;
     let addr = DEBE_BASE + lay_attr0 layer;
     let (v, m) = rd32 addr m;
     let m = wr32 addr ((v AND NOT (push_bit 24 0xFF)) OR push_bit 24 (ucast alpha)) m;
     Some (if alpha \<noteq> 0 then set_bits addr (bitm 0) m else clear_bits addr (bitm 0) m)
   }"

definition debe_load :: "update_mode \<Rightarrow> mmio \<Rightarrow> mmio" where
  "debe_load mode m = wr32 (DEBE_BASE + de_REGBUF_CTRL) (update_mode_code mode) m"

definition debe_layer_init :: "u8 \<Rightarrow> u32 \<Rightarrow> u32 \<Rightarrow> u32 \<Rightarrow> color_mode \<Rightarrow> bool \<Rightarrow> mmio \<Rightarrow> mmio option" where
  "debe_layer_init layer width height fb mode enable m = do {
     check_layer layer;
     m \<leftarrow> debe_layer_set_size layer (ucast width) (ucast height) (color_bpp mode) m;
     m \<leftarrow> debe_layer_set_pos layer 0 0 m;
     m \<leftarrow> debe_layer_set_addr layer fb m;
     m \<leftarrow> debe_layer_set_mode layer mode m;
     m \<leftarrow> debe_layer_set_alpha layer 255 m;
     if enable then debe_layer_enable layer m else debe_layer_disable layer m
   }"

section \<open>Timing controller\<close>

definition lcd_pin :: "drive_level \<Rightarrow> pull_mode \<Rightarrow> u8 \<Rightarrow> mmio \<Rightarrow> mmio option" where
  "lcd_pin drive pull pin m = do {
     m \<leftarrow> set_function PortD pin 0x02 m;
     m \<leftarrow> set_drive_level PortD pin drive m;
     set_pull_mode PortD pin pull m
   }"

definition lcd_gpio_init :: "mmio \<Rightarrow> mmio option" where
  "lcd_gpio_init m = do {
     m \<leftarrow> for_each (lcd_pin Level0 PullDisable) [1, 2, 3, 4, 5, 6, 7, 8] m;
     m \<leftarrow> for_each (lcd_pin Level0 PullDisable) [10, 11, 12, 13, 14, 15] m;
     m \<leftarrow> for_each (lcd_pin Level1 PullDisable) [16, 17, 18, 19] m;
     for_each (lcd_pin Level1 PullUp) [20, 21] m
   }"

text \<open>The interface mode: \<open>TCON0_CTRL\<close> bit 24, \<open>HV_INTF\<close> and \<open>CPU_INTF\<close>.\<close>

definition tcon0_interface :: "panel \<Rightarrow> mmio \<Rightarrow> mmio" where
  "tcon0_interface p m = (let ctrl = TCON_BASE + TCON0_CTRL;
       intf = (\<lambda>hv cpu m. wr32 (TCON_BASE + TCON0_CPU_INTF) cpu (wr32 (TCON_BASE + TCON0_HV_INTF) hv m)) in
     case p_bus_mode p of
       Cpu8080 \<Rightarrow> intf 0 (push_bit 29 (bus_8080_code (bus_8080_type p)) OR bitm 26) (set_bits ctrl (bitm 24) m)
     | SerialRgb \<Rightarrow> intf (bitm 31) 0 (clear_bits ctrl (bitm 24) m)
     | SerialYuv \<Rightarrow> intf (bitm 31 OR bitm 30) 0 (clear_bits ctrl (bitm 24) m)
     | ParallelRgb \<Rightarrow> intf 0 0 (clear_bits ctrl (bitm 24) m))"

definition tcon0_dither :: "panel \<Rightarrow> mmio \<Rightarrow> mmio" where
  "tcon0_dither p m = (if bus_bits_per_pixel p = 18 \<or> bus_bits_per_pixel p = 16 then
     let m = fold (\<lambda>i. wr32 (TCON_BASE + tc_FRM_SEED + i * 4) 0x11111111) [0, 1, 2, 3, 4, 5] m;
         m = wr32 (TCON_BASE + tc_FRM_TABLE + 0) 0x01010000 m;
         m = wr32 (TCON_BASE + tc_FRM_TABLE + 4) 0x15151111 m;
         m = wr32 (TCON_BASE + tc_FRM_TABLE + 8) 0x57575555 m;
         m = wr32 (TCON_BASE + tc_FRM_TABLE + 12) 0x7F7F7777 m
     in wr32 (TCON_BASE + tc_FRM_CTRL) (push_bit 4 (bus_width p) OR bitm 31) m
   else m)"

definition tcon0_polarity :: "panel \<Rightarrow> u32" where
  "tcon0_polarity p = (let
     pol = bitm 28;
     pol = (if h_sync_inv p then pol OR bitm 25 else pol);
     pol = (if v_sync_inv p then pol OR bitm 24 else pol);
     pol = (if data_enable_inv p then pol OR bitm 27 else pol)
   in if clock_inv p then pol OR bitm 26 else pol)"

text \<open>A pixel clock of 0 panics.\<close>

definition tcon0_init :: "panel \<Rightarrow> u32 \<Rightarrow> mmio \<Rightarrow> mmio option" where
  "tcon0_init p tcon_clk_hz m = do {
     let v_total_blank = v_front_porch p + v_back_porch p + v_sync_len p;
     let m = wr32 (TCON_BASE + TCON0_CTRL) (push_bit 4 (v_total_blank AND 0x1F)) m;
     assert_that (pixel_clock_hz p \<noteq> 0);
     let divisor = tcon_clk_hz div pixel_clock_hz p;
     let m = wr32 (TCON_BASE + TCON0_DCLK) (push_bit 28 0xF OR divisor) m;
     let m = wr32 (TCON_BASE + TCON0_TIMING_ACT) (push_bit 16 (p_width p - 1) OR (p_height p - 1)) m;
     let h_bp = h_sync_len p + h_back_porch p;
     let h_total = p_width p + h_front_porch p + h_bp;
     let m = wr32 (TCON_BASE + TCON0_TIMING_H) (push_bit 16 (h_total - 1) OR (h_bp - 1)) m;
     let v_bp = v_sync_len p + v_back_porch p;
     let v_total = p_height p + v_front_porch p + v_bp;
     let m = wr32 (TCON_BASE + TCON0_TIMING_V) (push_bit 16 (v_total * 2) OR (v_bp - 1)) m;
     let m = wr32 (TCON_BASE + TCON0_TIMING_SYNC) (push_bit 16 (h_sync_len p - 1) OR (v_sync_len p - 1)) m;
     let m = tcon0_dither p (tcon0_interface p m);
     let m = wr32 (TCON_BASE + TCON0_IO_POLARITY) (tcon0_polarity p) m;
     Some (wr32 (TCON_BASE + TCON0_IO_TRISTATE) 0 m)
   }"

definition debe_init :: "mmio \<Rightarrow> mmio" where
  "debe_init m = fold (\<lambda>i m. wr32 (DEBE_BASE + lay_attr1 i) 0
       (wr32 (DEBE_BASE + lay_attr0 i) (push_bit 10 (ucast i) OR push_bit 15 (ucast (i AND 1))) m))
     [0, 1, 2, 3] (wr32 (DEBE_BASE + de_MODE) (bitm 1) m)"

definition tcon_deinit :: "mmio \<Rightarrow> mmio" where
  "tcon_deinit m = (let
     m = wr32 (DEBE_BASE + tc_CTRL) 0 m;
     m = wr32 (DEBE_BASE + tc_INT0) 0 m;
     m = wr32 (DEBE_BASE + TCON0_DCLK) (push_bit 28 0xF) m;
     m = wr32 (DEBE_BASE + TCON0_IO_TRISTATE) 0xFFFFFFFF m
   in wr32 (DEBE_BASE + TCON1_IO_TRISTATE) 0xFFFFFFFF m)"

definition tcon_clk_enable :: "mmio \<Rightarrow> mmio" where
  "tcon_clk_enable m = bus_gate_enable LcdGate (set_bits (CCU_BASE + 0x118) (bitm 31) m)"
definition debe_clk_enable :: "mmio \<Rightarrow> mmio" where
  "debe_clk_enable m = bus_gate_enable Debe
     (set_bits (CCU_BASE + 0x104) (bitm 31) (set_bits (CCU_BASE + 0x100) (bitm 26) m))"
definition defe_clk_enable :: "mmio \<Rightarrow> mmio" where
  "defe_clk_enable m = bus_gate_enable Defe
     (set_bits (CCU_BASE + 0x10C) (bitm 31) (set_bits (CCU_BASE + 0x100) (bitm 24) m))"

section \<open>Output\<close>

definition output_enable :: "mmio \<Rightarrow> mmio" where
  "output_enable m = (let
     m = set_bits (TCON_BASE + TCON0_CTRL) (bitm 31) m;
     m = set_bits (TCON_BASE + tc_CTRL) (bitm 31) m
   in set_bits (DEBE_BASE + de_MODE) (bitm 0) m)"

definition output_disable :: "mmio \<Rightarrow> mmio" where
  "output_disable m = clear_bits (DEBE_BASE + de_MODE) (bitm 0) (clear_bits (TCON_BASE + tc_CTRL) (bitm 31) m)"

definition TCON0_VB_FLAG :: u32 where "TCON0_VB_FLAG = bitm 15"
definition AVS_CNT1 :: u32 where "AVS_CNT1 = 0x01C20C88"
definition TIMEOUT_TICKS :: u32 where "TIMEOUT_TICKS = 100"
definition TCON0_VB_INT_ENABLE :: u32 where "TCON0_VB_INT_ENABLE = bitm 31"
definition TCON0_VB_INT_STATUS :: u32 where "TCON0_VB_INT_STATUS = bitm 15"

text \<open>The poll ends with the flag, or when the counter has moved by 100.\<close>

partial_function (option) vsync_loop :: "u32 \<Rightarrow> mmio \<Rightarrow> mmio option" where
  "vsync_loop start m = (let (v, m) = rd32 (TCON_BASE + tc_INT0) m in
     if v AND TCON0_VB_FLAG \<noteq> 0 then Some m
     else let (t, m) = rd32 AVS_CNT1 m in
       if TIMEOUT_TICKS \<le> t - start then Some m else vsync_loop start m)"

definition wait_for_vsync :: "mmio \<Rightarrow> mmio option" where
  "wait_for_vsync m = (let m = wr32 (TCON_BASE + tc_INT0) 0 m; (start, m) = rd32 AVS_CNT1 m in vsync_loop start m)"

definition enable_vblank_irq :: "mmio \<Rightarrow> mmio" where
  "enable_vblank_irq m = wr32 (TCON_BASE + tc_INT0) TCON0_VB_INT_ENABLE m"
definition clear_vblank_irq :: "mmio \<Rightarrow> mmio" where
  "clear_vblank_irq m = wr32 (TCON_BASE + tc_INT0) TCON0_VB_INT_ENABLE m"
definition vblank_irq_pending :: "mmio \<Rightarrow> bool \<times> mmio" where
  "vblank_irq_pending m = (let (v, m) = rd32 (TCON_BASE + tc_INT0) m in (v AND TCON0_VB_INT_STATUS \<noteq> 0, m))"

definition flip_framebuffer :: "u8 \<Rightarrow> u32 \<Rightarrow> mmio \<Rightarrow> (u32 \<times> mmio) option" where
  "flip_framebuffer layer new_fb m = do {
     check_layer layer;
     let (v, m) = rd32 (DEBE_BASE + lay_addr_l layer) m;
     m \<leftarrow> debe_layer_set_addr layer new_fb m;
     Some (drop_bit 3 v, m)
   }"

definition format_8080 :: "u16 \<Rightarrow> u32" where
  "format_8080 d = push_bit 8 (ucast d AND 0xFC00) OR push_bit 6 (ucast d AND 0x0300) OR
     push_bit 5 (ucast d AND 0x00E0) OR push_bit 3 (ucast d AND 0x001F)"

definition write_8080 :: "u16 \<Rightarrow> bool \<Rightarrow> mmio \<Rightarrow> mmio option" where
  "write_8080 d is_command m = do {
     let cpu = TCON_BASE + TCON0_CPU_INTF;
     m \<leftarrow> poll32 cpu (\<lambda>v. v AND 0x00C00000 = 0) m;
     let m = (if is_command then clear_bits cpu (bitm 25) m else set_bits cpu (bitm 25) m);
     m \<leftarrow> poll32 cpu (\<lambda>v. v AND 0x00C00000 = 0) m;
     Some (wr32 (TCON_BASE + TCON0_CPU_WR_DAT) (format_8080 d) m)
   }"

definition write_8080_auto_mode :: "bool \<Rightarrow> mmio \<Rightarrow> mmio" where
  "write_8080_auto_mode enabled m = (let cpu = TCON_BASE + TCON0_CPU_INTF in
     if enabled then set_bits cpu (bitm 28) m else clear_bits cpu (bitm 28) m)"

section \<open>Bring-up\<close>

text \<open>The words zeroed by the loop from \<open>0x0800\<close> up to \<open>0x1000\<close>.\<close>

definition debe_words :: "u32 list" where
  "debe_words = map (\<lambda>i. DEBE_BASE + 0x0800 + 4 * word_of_nat i) [0..<0x200]"

definition lcd_init :: "panel \<Rightarrow> mmio \<Rightarrow> mmio option" where
  "lcd_init p m = (let
     (tcon_clk, m) = video_pll_hz m;
     m = sw_reset_assert LcdGate (sw_reset_assert Debe (sw_reset_assert Defe m));
     m = tcon_clk_enable (debe_clk_enable (defe_clk_enable m));
     m = sw_reset_deassert LcdGate (sw_reset_deassert Debe (sw_reset_deassert Defe m));
     m = fold (\<lambda>a. wr32 a 0) debe_words m
   in tcon0_init p tcon_clk (debe_init (tcon_deinit m)))"

definition start_display :: "u32 \<Rightarrow> panel \<Rightarrow> color_mode \<Rightarrow> mmio \<Rightarrow> mmio option" where
  "start_display framebuffer p mode m = do {
     let m = debe_set_bg_color 0 m;
     m \<leftarrow> debe_layer_init 0 (p_width p) (p_height p) framebuffer mode True m;
     let m = output_enable (debe_load UpdateManual m);
     Some (debe_load UpdateAuto (debe_set_bg_color 0 m))
   }"

definition lcd_init_all :: "panel \<Rightarrow> u32 \<Rightarrow> color_mode \<Rightarrow> mmio \<Rightarrow> mmio option" where
  "lcd_init_all p framebuffer mode m = do {
     m \<leftarrow> lcd_gpio_init m;
     m \<leftarrow> lcd_init p m;
     m \<leftarrow> (case panel_init p of Some f \<Rightarrow> f m | None \<Rightarrow> Some m);
     start_display framebuffer p mode m
   }"

end
