(* ===== verification/Lcd_Props.thy ===== *)
theory Lcd_Props
  imports Lcd
begin

text \<open>
  Properties of \<open>lcd.rs\<close>: what a flip of the framebuffer leaves in the address registers and
  what it returns, and the bound on the wait for vertical blanking.
\<close>

section \<open>Flip\<close>

text \<open>The address the backend scans out: 32 bits as a bit address in two registers.\<close>

definition scan_address :: "u8 \<Rightarrow> (u32 \<Rightarrow> u32) \<Rightarrow> u32" where
  "scan_address layer R = push_bit 29 (R (DEBE_BASE + lay_addr_h layer)) OR drop_bit 3 (R (DEBE_BASE + lay_addr_l layer))"

lemma split_address:
  "drop_bit 3 (push_bit 3 fb) = (fb :: u32) AND 0x1FFFFFFF"
  "push_bit 29 (drop_bit 29 fb) OR (fb AND 0x1FFFFFFF) = (fb :: u32)"
proof -
  have low: "fb AND 0x1FFFFFFF = take_bit 29 fb" by (simp add: take_bit_eq_mask mask_eq_exp_minus_1)
  show "drop_bit 3 (push_bit 3 fb) = fb AND 0x1FFFFFFF" unfolding low
    by (rule bit_word_eqI) (auto simp: bit_simps)
  show "push_bit 29 (drop_bit 29 fb) OR (fb AND 0x1FFFFFFF) = fb" unfolding low
    by (rule bit_word_eqI) (auto simp: bit_simps)
qed

lemma layer_regs_differ: "DEBE_BASE + lay_addr_l layer \<noteq> DEBE_BASE + lay_addr_h layer"
  by (simp add: lay_addr_l_def lay_addr_h_def LAY_ADDR_L_def LAY_ADDR_H_def)

lemma flip_plain:
  assumes "plain m R" "layer < 4"
  obtains m' where "flip_framebuffer layer fb m = Some (drop_bit 3 (R (DEBE_BASE + lay_addr_l layer)), m')"
    "plain m' (R(DEBE_BASE + lay_addr_l layer := push_bit 3 fb, DEBE_BASE + lay_addr_h layer := drop_bit 29 fb))"
proof -
  obtain m1 where m1: "rd32 (DEBE_BASE + lay_addr_l layer) m = (R (DEBE_BASE + lay_addr_l layer), m1)" "plain m1 R"
    using backed_rd32 [OF assms(1)] by blast
  have w: "plain (wr32 (DEBE_BASE + lay_addr_h layer) (drop_bit 29 fb) (wr32 (DEBE_BASE + lay_addr_l layer) (push_bit 3 fb) m1))
      (R(DEBE_BASE + lay_addr_l layer := push_bit 3 fb, DEBE_BASE + lay_addr_h layer := drop_bit 29 fb))"
    by (intro regs.wr_holds m1(2))
  show thesis
    by (rule that [OF _ w]) (use m1 assms(2) in \<open>simp add: flip_framebuffer_def check_layer_def debe_layer_set_addr_def\<close>)
qed

text \<open>After a flip the backend scans the new buffer, all 32 bits of its address.  What the
  flip returns is not always the previous buffer: it is read back from the low register
  only, so the top three bits are lost.  A second flip returns \<open>fb & 0x1FFFFFFF\<close>, which is
  not \<open>fb\<close> for any buffer in DRAM (\<open>0x80000000\<close> and up).\<close>

theorem flip_framebuffer_returns_truncated:
  assumes "plain m R" "layer < 4"
  shows "\<exists>prev m1 R1 m2. flip_framebuffer layer fb m = Some (prev, m1) \<and> plain m1 R1 \<and> scan_address layer R1 = fb \<and>
     flip_framebuffer layer fb2 m1 = Some (fb AND 0x1FFFFFFF, m2) \<and> (0x80000000 \<le> fb \<longrightarrow> fb AND 0x1FFFFFFF \<noteq> fb)"
proof -
  let ?R1 = "R(DEBE_BASE + lay_addr_l layer := push_bit 3 fb, DEBE_BASE + lay_addr_h layer := drop_bit 29 fb)"
  obtain m1 where m1: "flip_framebuffer layer fb m = Some (drop_bit 3 (R (DEBE_BASE + lay_addr_l layer)), m1)" "plain m1 ?R1"
    by (rule flip_plain [OF assms])
  obtain m2 where m2: "flip_framebuffer layer fb2 m1 = Some (drop_bit 3 (?R1 (DEBE_BASE + lay_addr_l layer)), m2)"
    by (rule flip_plain [OF m1(2) assms(2)])
  have low: "drop_bit 3 (?R1 (DEBE_BASE + lay_addr_l layer)) = fb AND 0x1FFFFFFF"
    using layer_regs_differ [of layer] split_address(1) [of fb] by simp
  have scan: "scan_address layer ?R1 = fb"
    using layer_regs_differ [of layer] split_address [of fb] by (simp add: scan_address_def)
  have "fb AND 0x1FFFFFFF \<le> 0x1FFFFFFF" by (rule word_and_le1)
  then have "0x80000000 \<le> fb \<longrightarrow> fb AND 0x1FFFFFFF \<noteq> fb" by (auto simp: word_le_nat_alt)
  then show ?thesis using m1 m2 low scan by metis
qed

theorem flip_framebuffer_returns_truncated_witness:
  "\<exists>m1 m2. flip_framebuffer 0 0x81000000 (regs_of (\<lambda>_ v. v) (\<lambda>_. 0)) = Some (0, m1) \<and>
     flip_framebuffer 0 0x82000000 m1 = Some (0x01000000, m2)"
proof -
  have p: "plain (regs_of (\<lambda>_ v. v) (\<lambda>_. 0)) (\<lambda>_. 0)" by (rule backed_regs_of)
  obtain prev m1 m2 where f: "flip_framebuffer 0 0x81000000 (regs_of (\<lambda>_ v. v) (\<lambda>_. 0)) = Some (prev, m1)"
    "flip_framebuffer 0 0x82000000 m1 = Some (0x81000000 AND 0x1FFFFFFF, m2)"
    using flip_framebuffer_returns_truncated [OF p, of 0 "0x81000000" "0x82000000"] by auto
  moreover obtain m' where "flip_framebuffer 0 0x81000000 (regs_of (\<lambda>_ v. v) (\<lambda>_. 0)) = Some (drop_bit 3 0, m')"
    by (rule flip_plain [OF p, of 0 "0x81000000"]) simp_all
  ultimately show ?thesis by simp
qed

section \<open>Vertical blanking\<close>

text \<open>A counter that advances by one every \<open>k\<close> accesses.\<close>

definition avs_runs :: "nat \<Rightarrow> nat \<Rightarrow> mmio \<Rightarrow> bool" where
  "avs_runs k t0 m \<longleftrightarrow> (\<forall>tr. device32 m tr AVS_CNT1 = word_of_nat ((t0 + length tr) div k))"

lemma div_step: "0 < (k :: nat) \<Longrightarrow> (n + 2) div k \<le> n div k + 2"
proof -
  assume k: "0 < k"
  then have "(n + 2) div k \<le> (n + 2 * k) div k" by (intro div_le_mono) simp
  also have "\<dots> = n div k + 2" using k by simp
  finally show ?thesis .
qed

lemma vsync_loop_returns:
  assumes "avs_runs k t0 m" "0 < k" "S \<le> (t0 + Suc (length (trace m))) div k"
    "(t0 + Suc (length (trace m))) div k \<le> S + 101"
  shows "\<exists>m'. vsync_loop (word_of_nat S) m = Some m' \<and> t0 + length (trace m') \<le> (S + 102) * k"
  using assms(1,3,4)
proof (induction "(S + 102) * k - length (trace m)" arbitrary: m rule: less_induct)
  case less
  let ?n = "length (trace m)"
  obtain v m1 where r1: "rd32 (TCON_BASE + tc_INT0) m = (v, m1)" by fastforce
  then have m1: "length (trace m1) = Suc ?n" "device32 m1 = device32 m" by (auto simp: rd32_def Let_def)
  obtain t m2 where r2: "rd32 AVS_CNT1 m1 = (t, m2)" by fastforce
  then have m2: "length (trace m2) = ?n + 2" "device32 m2 = device32 m" and t: "t = word_of_nat ((t0 + Suc ?n) div k)"
    using m1 less.prems(1) by (auto simp: rd32_def Let_def avs_runs_def)
  let ?d = "(t0 + Suc ?n) div k - S"
  have d: "t - word_of_nat S = word_of_nat ?d" using t less.prems(2) by (simp add: of_nat_diff)
  have "unat (word_of_nat ?d :: u32) = ?d" using less.prems(3) by (simp add: unat_of_nat_u32)
  then have test: "TIMEOUT_TICKS \<le> t - word_of_nat S \<longleftrightarrow> 100 \<le> ?d"
    unfolding d by (simp add: TIMEOUT_TICKS_def word_le_nat_alt)
  have "(t0 + Suc ?n) div k < S + 102" using less.prems(3) by simp
  then have n: "t0 + ?n + 2 \<le> (S + 102) * k" using assms(2) by (simp add: div_less_iff_less_mult)
  show ?case
  proof (cases "v AND TCON0_VB_FLAG \<noteq> 0 \<or> 100 \<le> ?d")
    case True
    then show ?thesis using m1 m2 r1 r2 test n by (subst vsync_loop.simps) auto
  next
    case False
    then have small: "(t0 + Suc ?n) div k < S + 100" using less.prems(2) by arith
    have step: "(t0 + Suc (length (trace m2))) div k \<le> S + 101"
      using div_step [OF assms(2), of "t0 + Suc ?n"] small m2(1) by simp
    have "(t0 + Suc ?n) div k \<le> (t0 + Suc (length (trace m2))) div k" using m2(1) by (intro div_le_mono) simp
    then have S: "S \<le> (t0 + Suc (length (trace m2))) div k" using less.prems(2) by simp
    have runs: "avs_runs k t0 m2" using less.prems(1) m2(2) by (simp add: avs_runs_def)
    have "(S + 102) * k - length (trace m2) < (S + 102) * k - ?n" using n m2(1) by simp
    from less.hyps [OF this runs S step] show ?thesis
      using False r1 r2 test by (subst vsync_loop.simps) simp
  qed
qed

text \<open>Waiting for vertical blanking always ends, even when the flag never appears: with an AVS
  counter that advances every \<open>k\<close> accesses the wait is over after at most \<open>102 k + 2\<close>
  accesses, and the counter may wrap on the way.\<close>

theorem wait_for_vsync_returns:
  assumes "avs_runs k t0 m" "0 < k"
  shows "\<exists>m'. wait_for_vsync m = Some m' \<and> length (trace m') \<le> length (trace m) + 102 * k + 2"
proof -
  let ?m0 = "wr32 (TCON_BASE + tc_INT0) 0 m" and ?S = "(t0 + Suc (length (trace m))) div k"
  obtain start m1 where r: "rd32 AVS_CNT1 ?m0 = (start, m1)" by fastforce
  then have m1: "length (trace m1) = length (trace m) + 2" "device32 m1 = device32 m" "start = word_of_nat ?S"
    using assms(1) by (auto simp: rd32_def wr32_def Let_def avs_runs_def)
  have runs: "avs_runs k t0 m1" using assms(1) m1(2) by (simp add: avs_runs_def)
  have "?S \<le> (t0 + Suc (length (trace m1))) div k" using m1(1) by (intro div_le_mono) simp
  moreover have "(t0 + Suc (length (trace m1))) div k \<le> ?S + 101"
    using div_step [OF assms(2), of "t0 + Suc (length (trace m))"] m1(1) by simp
  ultimately obtain m' where m': "vsync_loop start m1 = Some m'" "t0 + length (trace m') \<le> (?S + 102) * k"
    using vsync_loop_returns [OF runs assms(2)] m1(3) by blast
  have "?S * k \<le> t0 + Suc (length (trace m))" by (rule div_times_less_eq_dividend)
  moreover have "(?S + 102) * k = ?S * k + 102 * k" by (rule add_mult_distrib)
  ultimately have "length (trace m') \<le> length (trace m) + 102 * k + 2" using m'(2) by linarith
  then show ?thesis using r m'(1) by (simp add: wait_for_vsync_def Let_def)
qed

theorem wait_for_vsync_returns_witness:
  "\<exists>m'. wait_for_vsync \<lparr>device32 = (\<lambda>tr a. if a = AVS_CNT1 then word_of_nat ((4294967290 + length tr) div 1) else 0),
      device8 = (\<lambda>_ _. 0), trace = []\<rparr> = Some m' \<and> length (trace m') \<le> 104"
proof -
  let ?m = "\<lparr>device32 = (\<lambda>tr a. if a = AVS_CNT1 then word_of_nat ((4294967290 + length tr) div 1) else 0),
      device8 = (\<lambda>_ _. 0), trace = []\<rparr>"
  have "avs_runs 1 4294967290 ?m" by (simp add: avs_runs_def)
  from wait_for_vsync_returns [OF this] show ?thesis by simp
qed

section \<open>The display of a framebuffer\<close>

lemmas debe_offsets [reg_addrs] = lay_size_def lay_pos_def lay_stride_def lay_addr_l_def lay_addr_h_def lay_attr0_def lay_attr1_def
  LAY_SIZE_def LAY_POS_def LAY_STRIDE_def LAY_ADDR_L_def LAY_ADDR_H_def LAY_ATTR0_def LAY_ATTR1_def
  de_MODE_def de_BACKCOLOR_def de_REGBUF_CTRL_def

text \<open>What \<open>debe_layer_init\<close> leaves of the registers of layer 0.\<close>

definition layer_regs :: "u32 \<Rightarrow> u32 \<Rightarrow> u32 \<Rightarrow> color_mode \<Rightarrow> (u32 \<Rightarrow> u32) \<Rightarrow> u32 \<Rightarrow> u32" where
  "layer_regs w h fb mode R = (let
     a0 = DEBE_BASE + lay_attr0 0; a1 = DEBE_BASE + lay_attr1 0; md = DEBE_BASE + de_MODE;
     v0 = ((R a0 AND NOT (bitm 22)) AND NOT (push_bit 24 0xFF)) OR push_bit 24 0xFF;
     v1 = (R a1 AND NOT (push_bit 8 0x0F)) OR push_bit 8 (color_reg_value mode AND 0x0F)
   in R(DEBE_BASE + lay_size 0 := push_bit 16 (ucast (ucast h :: u16) - 1) OR (ucast (ucast w :: u16) - 1),
     DEBE_BASE + lay_stride 0 := ucast (ucast w :: u16) * color_bpp mode, DEBE_BASE + lay_pos 0 := 0,
     DEBE_BASE + lay_addr_l 0 := push_bit 3 fb, DEBE_BASE + lay_addr_h 0 := drop_bit 29 fb,
     a1 := v1, a0 := v0 OR bitm 0, md := R md OR bitm 8))"

lemma layer_init_plain:
  assumes "plain m R"
  shows "\<exists>m'. debe_layer_init 0 w h fb mode True m = Some m' \<and> plain m' (layer_regs w h fb mode R)"
proof -
  let ?a0 = "DEBE_BASE + lay_attr0 0" and ?a1 = "DEBE_BASE + lay_attr1 0" and ?md = "DEBE_BASE + de_MODE"
  let ?s = "push_bit 16 (ucast (ucast h :: u16) - 1) OR (ucast (ucast w :: u16) - 1 :: u32)"
    and ?st = "ucast (ucast w :: u16) * color_bpp mode"
  define m1 where "m1 = wr32 (DEBE_BASE + lay_addr_h 0) (drop_bit 29 fb) (wr32 (DEBE_BASE + lay_addr_l 0) (push_bit 3 fb)
      (wr32 (DEBE_BASE + lay_pos 0) 0 (wr32 (DEBE_BASE + lay_stride 0) ?st (wr32 (DEBE_BASE + lay_size 0) ?s m))))"
  define R1 where "R1 = R(DEBE_BASE + lay_size 0 := ?s, DEBE_BASE + lay_stride 0 := ?st, DEBE_BASE + lay_pos 0 := 0,
      DEBE_BASE + lay_addr_l 0 := push_bit 3 fb, DEBE_BASE + lay_addr_h 0 := drop_bit 29 fb)"
  have p1: "plain m1 R1" unfolding m1_def R1_def by (intro regs.wr_holds assms)
  have "plain (clear_bits ?a0 (bitm 22) m1) (R1(?a0 := R1 ?a0 AND NOT (bitm 22)))" unfolding clear_bits_def by (rule backed_rmw [OF p1])
  from backed_rmw [OF this, of ?a1 "\<lambda>v. (v AND NOT (push_bit 8 0x0F)) OR push_bit 8 (color_reg_value mode AND 0x0F)"]
  obtain R2 m2 where m2: "debe_layer_set_mode 0 mode m1 = Some m2" "plain m2 R2"
    "R2 = R1(?a0 := R1 ?a0 AND NOT (bitm 22), ?a1 := (R1 ?a1 AND NOT (push_bit 8 0x0F)) OR push_bit 8 (color_reg_value mode AND 0x0F))"
    by (auto simp: debe_layer_set_mode_def check_layer_def rmw32_def Let_def debe_offsets DEBE_BASE_def split: prod.splits)
  define m3 where "m3 = rmw32 ?a0 (\<lambda>v. v OR bitm 0) (rmw32 ?a0 (\<lambda>v. (v AND NOT (push_bit 24 0xFF)) OR push_bit 24 0xFF) m2)"
  have m3: "debe_layer_set_alpha 0 255 m2 = Some m3"
    by (simp add: debe_layer_set_alpha_def check_layer_def m3_def rmw32_def set_bits_def Let_def split: prod.splits)
  note p3 = backed_rmw [OF backed_rmw [OF m2(2), of ?a0 "\<lambda>v. (v AND NOT (push_bit 24 0xFF)) OR push_bit 24 0xFF"],
    of ?a0 "\<lambda>v. v OR bitm 0", folded m3_def]
  note p4 = backed_rmw [OF p3, of ?md "\<lambda>v. v OR bitm 8"]
  have "debe_layer_init 0 w h fb mode True m = Some (rmw32 ?md (\<lambda>v. v OR bitm 8) m3)"
    by (simp add: debe_layer_init_def check_layer_def debe_layer_set_size_def debe_layer_set_pos_def debe_layer_set_addr_def
      m1_def [symmetric] m2(1) m3 debe_layer_enable_def set_bits_def)
  moreover have "plain (rmw32 ?md (\<lambda>v. v OR bitm 8) m3) (layer_regs w h fb mode R)"
    using p4 unfolding m2(3) R1_def layer_regs_def by (simp add: debe_offsets DEBE_BASE_def Let_def fun_upd_twist)
  ultimately show ?thesis by blast
qed

text \<open>What the backend scans out as layer 0: the buffer, its width and height, the bits per line,
  the format code and the alpha value.\<close>

record scan_out =
  so_buffer :: u32
  so_width :: u32
  so_height :: u32
  so_line_bits :: u32
  so_format :: u32
  so_alpha :: "u32 option"

definition scanned :: "(u32 \<Rightarrow> u32) \<Rightarrow> scan_out option" where
  "scanned R = (if bit (R (DEBE_BASE + de_MODE)) 0 \<and> bit (R (DEBE_BASE + de_MODE)) 8 then Some
     \<lparr>so_buffer = scan_address 0 R, so_width = (R (DEBE_BASE + lay_size 0) AND 0xFFFF) + 1,
      so_height = drop_bit 16 (R (DEBE_BASE + lay_size 0)) + 1, so_line_bits = R (DEBE_BASE + lay_stride 0),
      so_format = get_field 8 0xF (R (DEBE_BASE + lay_attr1 0)),
      so_alpha = (if bit (R (DEBE_BASE + lay_attr0 0)) 0 then Some (get_field 24 0xFF (R (DEBE_BASE + lay_attr0 0))) else None)\<rparr>
   else None)"

lemma size_word:
  fixes w h :: u32
  assumes "w \<in> {1..0xFFFF}" "h \<in> {1..0xFFFF}"
  shows "((push_bit 16 (h - 1) OR (w - 1)) AND 0xFFFF) + 1 = w" "drop_bit 16 (push_bit 16 (h - 1) OR (w - 1)) + 1 = h"
    "ucast (ucast w :: u16) = w"
proof -
  have small: "unat x < 2 ^ 16" if "x \<in> {1..0xFFFF}" for x :: u32 using that by (simp add: word_le_nat_alt)
  have m: "x AND mask 16 = x" if "unat x < 2 ^ 16" for x :: u32 using that by (rule and_mask_small)
  have less: "unat (x - 1) < 2 ^ 16" if "x \<in> {1..0xFFFF}" for x :: u32
    using small [OF that] that unat_minus_u32 [of 1 x] by (simp add: word_le_nat_alt)
  have b: "\<not> bit (w - 1) (n + 16)" for n using small_bit [OF less [OF assms(1)], of "n + 16"] by auto
  have "(push_bit 16 (h - 1) OR (w - 1)) AND mask 16 = (w - 1) AND mask 16"
    by (rule bit_word_eqI) (auto simp: bit_simps)
  then show "((push_bit 16 (h - 1) OR (w - 1)) AND 0xFFFF) + 1 = w"
    using m [OF less [OF assms(1)]] by (simp add: mask_eq_exp_minus_1)
  have "drop_bit 16 (push_bit 16 (h - 1) OR (w - 1)) = (h - 1) AND mask 16"
    by (rule bit_word_eqI) (use b in \<open>auto simp: bit_simps add.commute\<close>)
  then show "drop_bit 16 (push_bit 16 (h - 1) OR (w - 1)) + 1 = h" using m [OF less [OF assms(2)]] by simp
  have "ucast (ucast w :: u16) = w AND mask 16" by (rule bit_word_eqI) (auto simp: bit_simps)
  then show "ucast (ucast w :: u16) = w" using m [OF small [OF assms(1)]] by simp
qed

lemma start_display_plain:
  assumes "plain m R"
  shows "\<exists>m'. start_display fb p mode m = Some m' \<and> plain m' ((layer_regs (p_width p) (p_height p) fb mode R)
    (TCON_BASE + TCON0_CTRL := R (TCON_BASE + TCON0_CTRL) OR bitm 31, TCON_BASE + tc_CTRL := R (TCON_BASE + tc_CTRL) OR bitm 31,
     DEBE_BASE + de_MODE := (R (DEBE_BASE + de_MODE) OR bitm 8) OR bitm 0,
     DEBE_BASE + de_BACKCOLOR := 0, DEBE_BASE + de_REGBUF_CTRL := 0))"
proof -
  let ?L = "layer_regs (p_width p) (p_height p) fb mode"
  have "plain (debe_set_bg_color 0 m) (R(DEBE_BASE + de_BACKCOLOR := 0))"
    unfolding debe_set_bg_color_def by (intro regs.wr_holds assms)
  then obtain m1 where m1: "debe_layer_init 0 (p_width p) (p_height p) fb mode True (debe_set_bg_color 0 m) = Some m1"
    "plain m1 (?L (R(DEBE_BASE + de_BACKCOLOR := 0)))" using layer_init_plain by blast
  define m2 where "m2 = debe_load UpdateAuto (debe_set_bg_color 0 (output_enable (debe_load UpdateManual m1)))"
  have "start_display fb p mode m = Some m2" by (simp add: start_display_def m1(1) m2_def)
  moreover
  have p2: "plain (debe_load UpdateManual m1) ((?L (R(DEBE_BASE + de_BACKCOLOR := 0)))(DEBE_BASE + de_REGBUF_CTRL := 3))"
    unfolding debe_load_def update_mode_code.simps by (intro regs.wr_holds m1(2))
  note p3 = backed_rmw [OF backed_rmw [OF backed_rmw [OF p2, of "TCON_BASE + TCON0_CTRL" "\<lambda>v. v OR bitm 31"],
    of "TCON_BASE + tc_CTRL" "\<lambda>v. v OR bitm 31"], of "DEBE_BASE + de_MODE" "\<lambda>v. v OR bitm 0"]
  note p4 = regs.wr_holds [OF regs.wr_holds [OF p3, of "DEBE_BASE + de_BACKCOLOR" 0], of "DEBE_BASE + de_REGBUF_CTRL" 0]
  have "plain m2 ((?L R)(TCON_BASE + TCON0_CTRL := R (TCON_BASE + TCON0_CTRL) OR bitm 31,
     TCON_BASE + tc_CTRL := R (TCON_BASE + tc_CTRL) OR bitm 31, DEBE_BASE + de_MODE := (R (DEBE_BASE + de_MODE) OR bitm 8) OR bitm 0,
     DEBE_BASE + de_BACKCOLOR := 0, DEBE_BASE + de_REGBUF_CTRL := 0))"
    using p4 unfolding m2_def debe_load_def debe_set_bg_color_def output_enable_def set_bits_def Let_def update_mode_code.simps
    by (simp add: layer_regs_def debe_offsets DEBE_BASE_def TCON_BASE_def TCON0_CTRL_def tc_CTRL_def Let_def fun_upd_twist)
  ultimately show ?thesis by blast
qed

text \<open>C27. Starting the display of a panel of at most 65535 by 65535 pixels: the backend scans out
  the framebuffer, at the size of the panel, in the format asked for and fully opaque, the
  registers load automatically again, and both halves of the timing controller run.\<close>

theorem start_display_scans_framebuffer:
  assumes "plain m R" "p_width p \<in> {1..0xFFFF}" "p_height p \<in> {1..0xFFFF}"
  shows "\<exists>m' R'. start_display fb p mode m = Some m' \<and> plain m' R' \<and>
    scanned R' = Some \<lparr>so_buffer = fb, so_width = p_width p, so_height = p_height p, so_line_bits = p_width p * color_bpp mode,
      so_format = color_reg_value mode AND 0xF, so_alpha = Some 255\<rparr> \<and>
    R' (DEBE_BASE + de_REGBUF_CTRL) = update_mode_code UpdateAuto \<and> R' (DEBE_BASE + de_BACKCOLOR) = 0 \<and>
    bit (R' (TCON_BASE + tc_CTRL)) 31 \<and> bit (R' (TCON_BASE + TCON0_CTRL)) 31"
proof -
  obtain m' R' where m': "start_display fb p mode m = Some m'" "plain m' R'" and R': "R' = (layer_regs (p_width p) (p_height p) fb mode R)
    (TCON_BASE + TCON0_CTRL := R (TCON_BASE + TCON0_CTRL) OR bitm 31, TCON_BASE + tc_CTRL := R (TCON_BASE + tc_CTRL) OR bitm 31,
     DEBE_BASE + de_MODE := (R (DEBE_BASE + de_MODE) OR bitm 8) OR bitm 0,
     DEBE_BASE + de_BACKCOLOR := 0, DEBE_BASE + de_REGBUF_CTRL := 0)"
    using start_display_plain [OF assms(1)] by blast
  note offs = R' layer_regs_def reg_addrs DEBE_BASE_def TCON_BASE_def TCON0_CTRL_def tc_CTRL_def Let_def
  have "scan_address 0 R' = fb" using split_address [of fb] by (simp add: scan_address_def offs)
  moreover have "get_field 8 0xF ((v AND NOT (push_bit 8 0xF)) OR push_bit 8 (c AND 0xF)) = c AND 0xF" for v c :: u32
    by (rule get_put_field [unfolded put_field_def]) (auto simp: and.assoc bit_simps)
  moreover have "get_field 24 0xFF (((v AND NOT (push_bit 24 0xFF)) OR push_bit 24 0xFF) OR bitm 0) = 0xFF" for v :: u32
    by (rule bit_word_eqI) (auto simp: get_field_def bit_simps)
  moreover have "bit (R' (DEBE_BASE + de_MODE)) 0" "bit (R' (DEBE_BASE + de_MODE)) 8" by (simp_all add: offs bit_simps)
  ultimately have "scanned R' = Some \<lparr>so_buffer = fb, so_width = p_width p, so_height = p_height p,
      so_line_bits = p_width p * color_bpp mode, so_format = color_reg_value mode AND 0xF, so_alpha = Some 255\<rparr>"
    using size_word [OF assms(2,3)] size_word(3) [OF assms(3,2)] unfolding scanned_def
    by (simp add: offs bit_simps)
  moreover have "bit (R' (TCON_BASE + tc_CTRL)) 31" "bit (R' (TCON_BASE + TCON0_CTRL)) 31" by (simp_all add: offs bit_simps)
  moreover have "R' (DEBE_BASE + de_REGBUF_CTRL) = update_mode_code UpdateAuto" "R' (DEBE_BASE + de_BACKCOLOR) = 0"
    by (simp_all add: offs)
  ultimately show ?thesis using m' by blast
qed

theorem start_display_scans_framebuffer_witness:
  "\<exists>m' R'. start_display 0x81000000 panel_TL021WVC04 Rgb565 (regs_of (\<lambda>_ v. v) (\<lambda>_. 0)) = Some m' \<and> plain m' R' \<and>
    scanned R' = Some \<lparr>so_buffer = 0x81000000, so_width = 480, so_height = 480, so_line_bits = 7680, so_format = 5, so_alpha = Some 255\<rparr>"
proof -
  have "p_width panel_TL021WVC04 = 480" "p_height panel_TL021WVC04 = 480" by (simp_all add: panel_TL021WVC04_def)
  moreover have "color_reg_value Rgb565 AND 0xF = 5" by (simp add: BPP_16_def) 
  ultimately show ?thesis
    using start_display_scans_framebuffer [OF backed_regs_of, of panel_TL021WVC04 "0x81000000" Rgb565 "\<lambda>_. 0"] by auto
qed

end
