(* ===== verification/Dram.thy ===== *)
theory Dram
  imports Clock
begin

text \<open>
  \<open>dram.rs\<close>: bring-up of the DRAM controller with detection of the type, the column and the
  row width.  The memory behind the controller is reached by volatile accesses as well, so
  it is part of the device of the access trace; the delays touch no memory.
\<close>

definition DRAM_BASE :: u32 where "DRAM_BASE = 0x01C01000"
definition PIO_BASE :: u32 where "PIO_BASE = 0x01C20800" \<comment> \<open>\<open>GPIO_BASE\<close>\<close>
definition DRAM_MEM_BASE :: u32 where "DRAM_MEM_BASE = 0x80000000"
definition PLL_DDR_CLK :: u32 where "PLL_DDR_CLK = 156000000"
definition DDR_CLK_MHZ :: u32 where "DDR_CLK_MHZ = PLL_DDR_CLK div 1000000"

definition SCONR :: u32 where "SCONR = 0x00"
definition STMG0R :: u32 where "STMG0R = 0x04"
definition STMG1R :: u32 where "STMG1R = 0x08"
definition SCTLR :: u32 where "SCTLR = 0x0C"
definition SREFR :: u32 where "SREFR = 0x10"
definition DDLYR :: u32 where "DDLYR = 0x24"
definition DRPTR0 :: u32 where "DRPTR0 = 0x30"
definition DRPTR1 :: u32 where "DRPTR1 = 0x34"
definition DRPTR2 :: u32 where "DRPTR2 = 0x38"
definition DRPTR3 :: u32 where "DRPTR3 = 0x3C"

lemmas dram_offsets = DRAM_BASE_def DRAM_MEM_BASE_def SCONR_def STMG0R_def STMG1R_def SCTLR_def SREFR_def DDLYR_def
  DRPTR0_def DRPTR1_def DRPTR2_def DRPTR3_def

definition T_CAS :: u32 where "T_CAS = 2"
definition T_RAS :: u32 where "T_RAS = 8"
definition T_RCD :: u32 where "T_RCD = 3"
definition T_RP :: u32 where "T_RP = 3"
definition T_WR :: u32 where "T_WR = 3"
definition T_RFC :: u32 where "T_RFC = 13"
definition T_XSR :: u32 where "T_XSR = 249"
definition T_RC :: u32 where "T_RC = 11"
definition T_INIT :: u32 where "T_INIT = 8"
definition T_INIT_REF :: u32 where "T_INIT_REF = 7"
definition T_WTR :: u32 where "T_WTR = 2"
definition T_RRD :: u32 where "T_RRD = 2"
definition T_XP :: u32 where "T_XP = 0"

datatype dram_type = DramSdr | DramDdr | DramMddr

fun dram_type_code :: "dram_type \<Rightarrow> u32" where
  "dram_type_code DramSdr = 0" | "dram_type_code DramDdr = 1" | "dram_type_code DramMddr = 2"

record dram_params =
  clk_mhz :: u32
  access_mode :: u32
  cs_num :: u32
  ddr8_remap :: u32
  d_type :: dram_type
  d_bus_width :: u32
  col_width :: u32
  row_width :: u32
  bank_size :: u32
  d_size_mb :: u32

definition dram_params_default :: dram_params where
  "dram_params_default = \<lparr>clk_mhz = DDR_CLK_MHZ, access_mode = 1, cs_num = 1, ddr8_remap = 0, d_type = DramDdr,
     d_bus_width = 16, col_width = 10, row_width = 13, bank_size = 4, d_size_mb = 32\<rparr>"

definition dram_read :: "u32 \<Rightarrow> mmio \<Rightarrow> u32 \<times> mmio" where "dram_read off m = rd32 (DRAM_BASE + off) m"
definition dram_write :: "u32 \<Rightarrow> u32 \<Rightarrow> mmio \<Rightarrow> mmio" where "dram_write off v m = wr32 (DRAM_BASE + off) v m"

section \<open>Steps\<close>

definition dram_initial :: "mmio \<Rightarrow> bool \<times> mmio" where
  "dram_initial m = poll_counted 0xFFFFFF (DRAM_BASE + SCTLR) (\<lambda>v. v AND 0x1 = 0)
     (let (v, m) = dram_read SCTLR m in dram_write SCTLR (v OR 0x1) m)"

definition dram_delay_scan :: "mmio \<Rightarrow> bool \<times> mmio" where
  "dram_delay_scan m = poll_counted 0xFFFFFF (DRAM_BASE + DDLYR) (\<lambda>v. v AND 0x1 = 0)
     (let (v, m) = dram_read DDLYR m in dram_write DDLYR (v OR 0x1) m)"

text \<open>\<open>while temp >= d { temp -= d; val += 1; }\<close>; the two divisors are not 0.\<close>

function refresh_loop :: "u32 \<Rightarrow> u32 \<Rightarrow> u32 \<Rightarrow> u32" where
  "refresh_loop d temp val = (if d \<noteq> 0 \<and> d \<le> temp then refresh_loop d (temp - d) (val + 1) else val)"
  by pat_completeness auto
termination
proof (relation "measure (\<lambda>(_, temp, _). unat temp)")
  fix d temp val :: u32 assume a: "d \<noteq> 0 \<and> d \<le> temp"
  then have "0 < unat d" by (simp add: unat_gt_0)
  then show "((d, temp - d, val + 1), (d, temp, val)) \<in> measure (\<lambda>(_, temp, _). unat temp)"
    using a by (simp add: unat_minus_u32 word_le_nat_alt)
qed simp

declare refresh_loop.simps [simp del]

definition refresh_scaled :: "u32 \<Rightarrow> u32" where
  "refresh_scaled clk_hz = clk_hz + drop_bit 3 clk_hz + drop_bit 4 clk_hz + drop_bit 5 clk_hz"

definition refresh_cycles :: "u32 \<Rightarrow> u32 \<Rightarrow> u32" where
  "refresh_cycles row clk_hz = (
     if row = 0xC then
       if 1000000 \<le> clk_hz then refresh_loop (drop_bit 6 10000000) (refresh_scaled clk_hz) 0
       else drop_bit 6 (clk_hz * 499)
     else if row = 0xB then
       if 1000000 \<le> clk_hz then refresh_loop (drop_bit 7 10000000) (refresh_scaled clk_hz) 0
       else drop_bit 5 (clk_hz * 499)
     else 0)"

definition dram_set_autofresh_cycle :: "u32 \<Rightarrow> mmio \<Rightarrow> mmio" where
  "dram_set_autofresh_cycle clk_hz m = (let (v, m) = dram_read SCONR m
     in dram_write SREFR (refresh_cycles (drop_bit 5 v AND 0xF) clk_hz) m)"

definition sconr_value :: "dram_params \<Rightarrow> u32" where
  "sconr_value p = ddr8_remap p OR bitm 1 OR push_bit 3 (drop_bit 2 (bank_size p)) OR push_bit 4 (drop_bit 1 (cs_num p)) OR
     push_bit 5 (row_width p - 1) OR push_bit 9 (col_width p - 1) OR
     push_bit 13 (if d_type p = DramSdr then drop_bit 5 (d_bus_width p) else drop_bit 4 (d_bus_width p)) OR
     push_bit 15 (access_mode p) OR push_bit 16 (dram_type_code (d_type p))"

definition dram_para_setup :: "dram_params \<Rightarrow> mmio \<Rightarrow> bool \<times> mmio" where
  "dram_para_setup p m = (let
     m = dram_write SCONR (sconr_value p) m;
     (v, m) = dram_read SCTLR m
   in dram_initial (dram_write SCTLR (v OR bitm 19) m))"

text \<open>The inner loop of \<open>dram_check_delay\<close>, over the 32 bits of one register.\<close>

fun delay_bits :: "nat \<Rightarrow> u32 \<Rightarrow> u32 \<Rightarrow> u32" where
  "delay_bits 0 dflag num = num"
| "delay_bits (Suc n) dflag num = delay_bits n (drop_bit 1 dflag) (if dflag AND 0x1 \<noteq> 0 then num + 1 else num)"

fun check_delay_regs :: "u32 list \<Rightarrow> u32 \<Rightarrow> mmio \<Rightarrow> u32 \<times> mmio" where
  "check_delay_regs [] num m = (num, m)"
| "check_delay_regs (r # rs) num m = (let (v, m) = dram_read r m in check_delay_regs rs (delay_bits 32 v num) m)"

definition dram_check_delay :: "u32 \<Rightarrow> mmio \<Rightarrow> u32 \<times> mmio" where
  "dram_check_delay bwidth m =
     check_delay_regs (if bwidth = 16 then [DRPTR0, DRPTR1, DRPTR2, DRPTR3] else [DRPTR0, DRPTR1]) 0 m"

text \<open>\<open>write_volatile\<close> in a loop; reading back in a loop that returns at the first difference,
  and one that counts.\<close>

definition fill_words :: "(u32 \<times> u32) list \<Rightarrow> mmio \<Rightarrow> mmio" where
  "fill_words avs m = fold (\<lambda>(a, v). wr32 a v) avs m"

fun verify_words :: "(u32 \<times> u32) list \<Rightarrow> mmio \<Rightarrow> bool \<times> mmio" where
  "verify_words [] m = (True, m)"
| "verify_words ((a, v) # avs) m = (let (w, m) = rd32 a m in if w \<noteq> v then (False, m) else verify_words avs m)"

fun count_words :: "u32 list \<Rightarrow> u32 \<Rightarrow> u32 \<Rightarrow> mmio \<Rightarrow> u32 \<times> mmio" where
  "count_words [] v count m = (count, m)"
| "count_words (a # as) v count m = (let (w, m) = rd32 a m in count_words as v (if w = v then count + 1 else count) m)"

definition idx32 :: "u32 list" where "idx32 = map word_of_nat [0..<32]"

definition sdr_readpipe_scan :: "mmio \<Rightarrow> bool \<times> mmio" where
  "sdr_readpipe_scan m = (let avs = map (\<lambda>k. (DRAM_MEM_BASE + 4 * k, k)) idx32 in verify_words avs (fill_words avs m))"

definition set_readpipe :: "u32 \<Rightarrow> mmio \<Rightarrow> mmio" where
  "set_readpipe i m = (let (v, m) = dram_read SCTLR m
     in dram_write SCTLR ((v AND NOT (push_bit 6 0x7)) OR push_bit 6 i) m)"

fun sdr_select_loop :: "u32 list \<Rightarrow> mmio \<Rightarrow> u32 \<times> mmio" where
  "sdr_select_loop [] m = (0, m)"
| "sdr_select_loop (i # is) m = (let (ok, m) = sdr_readpipe_scan (set_readpipe i m)
     in if ok then (i, m) else sdr_select_loop is m)"

definition sdr_readpipe_select :: "mmio \<Rightarrow> u32 \<times> mmio" where
  "sdr_readpipe_select m = sdr_select_loop [0, 1, 2, 3, 4, 5, 6, 7] m"

fun check_type_loop :: "u32 list \<Rightarrow> u32 \<Rightarrow> mmio \<Rightarrow> u32 \<times> mmio" where
  "check_type_loop [] cnt m = (cnt, m)"
| "check_type_loop (i # is) cnt m = (let
     (_, m) = dram_delay_scan (set_readpipe i m); (v, m) = dram_read DDLYR m
   in check_type_loop is (if v AND 0x30 \<noteq> 0 then cnt + 1 else cnt) m)"

definition dram_check_type :: "dram_params \<Rightarrow> mmio \<Rightarrow> u32 \<times> dram_params \<times> mmio" where
  "dram_check_type p m = (let (cnt, m) = check_type_loop [0, 1, 2, 3, 4, 5, 6, 7] 0 m in
     if cnt = 8 then (0, p\<lparr>d_type := DramSdr\<rparr>, m) else (1, p\<lparr>d_type := DramDdr\<rparr>, m))"

fun readpipe_loop :: "u32 \<Rightarrow> u32 list \<Rightarrow> u32 \<times> u32 \<Rightarrow> mmio \<Rightarrow> (u32 \<times> u32) \<times> mmio" where
  "readpipe_loop bw [] best m = (best, m)"
| "readpipe_loop bw (i # is) (rp_best, rp_val) m = (let
     (_, m) = dram_delay_scan (set_readpipe i m);
     (ddlyr, m) = dram_read DDLYR m;
     (rp, m) = (if drop_bit 4 ddlyr AND 0x3 = 0 \<and> drop_bit 4 ddlyr AND 0x1 = 0 then dram_check_delay bw m else (0, m))
   in readpipe_loop bw is (if rp_val < rp then (i, rp) else (rp_best, rp_val)) m)"

definition dram_scan_readpipe :: "dram_params \<Rightarrow> mmio \<Rightarrow> mmio" where
  "dram_scan_readpipe p m = (if d_type p = DramDdr then
     let ((rp_best, _), m) = readpipe_loop (d_bus_width p) [0, 1, 2, 3, 4, 5, 6, 7] (0, 0) m
     in snd (dram_delay_scan (set_readpipe rp_best m))
   else
     let (v, m) = dram_read SCONR m;
         m = dram_write SCONR (v AND NOT (bitm 16) AND NOT (push_bit 13 0x3)) m;
         (rp_best, m) = sdr_readpipe_select m
     in set_readpipe rp_best m)"

section \<open>Size\<close>

text \<open>\<open>u\<close> at 32 words from \<open>a\<close> and \<open>v\<close> at 32 words from \<open>b\<close>, alternately; how many of the first
  read back as \<open>v\<close>.\<close>

definition alias_count :: "u32 \<Rightarrow> u32 \<Rightarrow> u32 \<Rightarrow> u32 \<Rightarrow> mmio \<Rightarrow> u32 \<times> mmio" where
  "alias_count a u b v m = count_words (map (\<lambda>i. a + 4 * i) idx32) v 0
     (fill_words (concat (map (\<lambda>i. [(a + 4 * i, u), (b + 4 * i, v)]) idx32)) m)"

definition dram_get_dram_size :: "dram_params \<Rightarrow> mmio \<Rightarrow> dram_params \<times> mmio" where
  "dram_get_dram_size p m = (let
     p = p\<lparr>col_width := 10, row_width := 13\<rparr>;
     (_, m) = dram_para_setup p m;
     m = dram_scan_readpipe p m;
     (count, m) = alias_count (DRAM_MEM_BASE + 0x200) 0x11111111 (DRAM_MEM_BASE + 0x600) 0x22222222 m;
     p = p\<lparr>col_width := (if count = 32 then 9 else 10)\<rparr>;
     (_, m) = dram_para_setup p m;
     (addr1, addr2) = (if col_width p = 10 then (DRAM_MEM_BASE + 0x400000, DRAM_MEM_BASE + 0xC00000)
       else (DRAM_MEM_BASE + 0x200000, DRAM_MEM_BASE + 0x600000));
     (count, m) = alias_count addr1 0x33333333 addr2 0x44444444 m;
     p = p\<lparr>row_width := (if count = 32 then 12 else 13)\<rparr>;
     p = p\<lparr>d_size_mb := (if row_width p \<noteq> 13 then 16 else if col_width p = 10 then 64 else 32)\<rparr>;
     m = dram_set_autofresh_cycle (clk_mhz p * 1000000) m;
     p = p\<lparr>access_mode := 0\<rparr>;
     (_, m) = dram_para_setup p m
   in (p, m))"

section \<open>Bring-up\<close>

definition DSZ_ADDR :: u32 where "DSZ_ADDR = 0x0000005C"

definition pll_ddr_value :: "u32 \<Rightarrow> u32" where
  "pll_ddr_value clk = (let (mm, n) = (if clk \<le> 96 then (1, clk * 2 div 12 - 1) else (0, clk * 2 div 24 - 1))
     in mm OR push_bit 4 0 OR push_bit 8 n OR bitm 31)"

definition stmg0_value :: u32 where
  "stmg0_value = push_bit 0 T_CAS OR push_bit 3 T_RAS OR push_bit 7 T_RCD OR push_bit 10 T_RP OR push_bit 13 T_WR OR
     push_bit 15 T_RFC OR push_bit 19 T_XSR OR push_bit 28 T_RC"

definition stmg1_value :: u32 where
  "stmg1_value = push_bit 0 T_INIT OR push_bit 16 T_INIT_REF OR push_bit 20 T_WTR OR push_bit 22 T_RRD OR push_bit 25 T_XP"

definition pad_config :: "dram_params \<Rightarrow> mmio \<Rightarrow> mmio" where
  "pad_config p m = rmw32 (PIO_BASE + 0x2C4) (\<lambda>v. if d_type p = DramDdr then v OR bitm 16 else v AND NOT (bitm 16)) m"

definition test_words :: "(u32 \<times> u32) list" where
  "test_words = map (\<lambda>i. (DRAM_MEM_BASE + 4 * word_of_nat i, DRAM_MEM_BASE + 4 * word_of_nat i)) [0..<128]"

text \<open>Steps 5 to 11, from the timing registers on.\<close>

definition dram_bring_up :: "dram_params \<Rightarrow> mmio \<Rightarrow> bool \<times> mmio" where
  "dram_bring_up p m = (let
     m = dram_write STMG1R stmg1_value (dram_write STMG0R stmg0_value m);
     (ok, m) = dram_para_setup p m
   in if \<not> ok then (False, m) else let
     (_, p, m) = dram_check_type p m;
     m = pad_config p m;
     m = dram_set_autofresh_cycle (clk_mhz p * 1000000) m;
     m = dram_scan_readpipe p m;
     (p, m) = dram_get_dram_size p m;
     (ok, m) = verify_words test_words (fill_words test_words m)
   in if \<not> ok then (False, m) else (True, wr32 DSZ_ADDR (push_bit 24 0x58 OR d_size_mb p) m))"

definition dram_init :: "mmio \<Rightarrow> bool \<times> mmio" where
  "dram_init m = (let (dsz, m) = rd32 DSZ_ADDR m in
     if drop_bit 24 dsz = 0x58 then (True, m) else let
     p = dram_params_default;
     m = rmw32 (PIO_BASE + 0x24) (\<lambda>v. v OR push_bit 12 0x7) m;
     m = (if 180 \<le> clk_mhz p then wr32 (PIO_BASE + 0x2C0) 0xFFF m
       else if 144 \<le> clk_mhz p then wr32 (PIO_BASE + 0x2C0) 0xAAA m else m);
     m = wr32 (CCU_BASE + 0x020) (pll_ddr_value (clk_mhz p)) m;
     m = rmw32 (CCU_BASE + 0x020) (\<lambda>v. v OR bitm 20) m;
     (ok, m) = poll32_max 0xFFFFFF (CCU_BASE + 0x020) (\<lambda>v. v AND bitm 28 \<noteq> 0) m
   in if \<not> ok then (False, m) else let
     m = rmw32 (CCU_BASE + 0x060) (\<lambda>v. v OR bitm 14) m;
     m = rmw32 (CCU_BASE + 0x2C0) (\<lambda>v. v AND NOT (bitm 14)) m;
     m = rmw32 (CCU_BASE + 0x2C0) (\<lambda>v. v OR bitm 14) m
   in dram_bring_up p (pad_config p m))"

definition dram_size_mb :: "mmio \<Rightarrow> u32 \<times> mmio" where
  "dram_size_mb m = (let (v, m) = rd32 DSZ_ADDR m in (v AND 0xFFFFFF, m))"

end
