(* ===== verification/Dram_Props.thy ===== *)
theory Dram_Props
  imports Dram
begin

text \<open>
  Properties of \<open>dram.rs\<close>: the refresh interval, which the code divides by subtraction, and
  the detection of the geometry on a memory that decodes only some of its address bits.
\<close>

section \<open>Refresh\<close>

lemma refresh_loop_div:
  assumes "d \<noteq> 0"
  shows "unat val + unat temp div unat d < 2 ^ 32 \<Longrightarrow> unat (refresh_loop d temp val) = unat val + unat temp div unat d"
proof (induction d temp val rule: refresh_loop.induct)
  case (1 d temp val)
  show ?case
  proof (cases "d \<noteq> 0 \<and> d \<le> temp")
    case True
    then have d: "0 < unat d" "unat d \<le> unat temp" by (simp_all add: unat_gt_0 word_le_nat_alt)
    then have q: "unat temp div unat d = Suc ((unat temp - unat d) div unat d)" by (simp add: le_div_geq)
    have v: "unat (val + 1) = Suc (unat val)" using "1.prems" q by (simp add: unat_word_ariths)
    have t: "unat (temp - d) = unat temp - unat d" using True by (simp add: unat_minus_u32 word_le_nat_alt)
    show ?thesis using "1.IH" [OF True] "1.prems" True by (subst refresh_loop.simps) (simp add: v t q)
  next
    case False
    then have "d = 0 \<or> temp < d" by (auto simp: not_le)
    then have "unat temp div unat d = 0" by (auto simp: word_less_nat_alt)
    moreover have "refresh_loop d temp val = val" using False by (subst refresh_loop.simps) (simp only: if_False)
    ultimately show ?thesis by simp
  qed
qed

lemma scaled_value:
  assumes "clk \<le> 3000000000"
  shows "unat (refresh_scaled clk) = unat clk + unat clk div 8 + unat clk div 16 + unat clk div 32"
proof -
  have c: "unat clk \<le> 3000000000" using assms by (simp add: word_le_nat_alt)
  have d: "unat (drop_bit 3 clk) = unat clk div 8" "unat (drop_bit 4 clk) = unat clk div 16" "unat (drop_bit 5 clk) = unat clk div 32"
    by (simp_all add: drop_bit_eq_div unat_div)
  show ?thesis using c unfolding refresh_scaled_def by (simp add: unat_word_ariths d)
qed

text \<open>\<open>s\<close> is 39/32 of the clock, each of three quotients rounded down.\<close>

lemma scaled_quotient:
  fixes n s m :: nat
  assumes "s = n + n div 8 + n div 16 + n div 32" "0 < m" "89 \<le> 32 * m"
  shows "s div m \<le> n * 39 div (32 * m) \<and> n * 39 div (32 * m) \<le> s div m + 1"
proof -
  have b: "32 * s \<le> n * 39" "n * 39 \<le> 32 * s + 89" using assms(1) by arith+
  have q: "s div m = 32 * s div (32 * m)" by simp
  have "n * 39 div (32 * m) \<le> (32 * s + 32 * m) div (32 * m)" using b(2) assms(3) by (intro div_le_mono) simp
  also have "\<dots> = 32 * s div (32 * m) + 1" using assms(2) by (intro div_add_self2) simp
  finally show ?thesis unfolding q using b(1) by (simp only: div_le_mono)
qed

text \<open>The refresh interval.  The code divides by repeated subtraction; for every clock from
  1 MHz to 3 GHz the loop gives the quotient, nothing wraps, and the cycles programmed are
  7.8 us (13 row bits) or 15.6 us (12 row bits) of the clock, rounded down, or one less:
  never longer than the memory allows.\<close>

theorem dram_refresh_interval:
  assumes "1000000 \<le> clk" "clk \<le> 3000000000"
  shows "unat (refresh_cycles 0xC clk) \<le> unat clk * 39 div 5000000 \<and> unat clk * 39 div 5000000 \<le> unat (refresh_cycles 0xC clk) + 1 \<and>
    unat (refresh_cycles 0xB clk) \<le> unat clk * 39 div 2500000 \<and> unat clk * 39 div 2500000 \<le> unat (refresh_cycles 0xB clk) + 1"
proof -
  let ?s = "unat clk + unat clk div 8 + unat clk div 16 + unat clk div 32"
  have c: "unat clk \<le> 3000000000" using assms(2) by (simp add: word_le_nat_alt)
  have d: "drop_bit 6 (10000000 :: u32) = 156250" "drop_bit 7 (10000000 :: u32) = 78125" by (code_simp, code_simp)
  note s = scaled_value [OF assms(2)]
  have small: "?s < 2 ^ 32" "?s div 156250 < 2 ^ 32" "?s div 78125 < 2 ^ 32" using c by simp_all
  have "unat (refresh_cycles 0xC clk) = ?s div 156250"
    using refresh_loop_div [of 156250 0 "refresh_scaled clk"] assms(1) small s by (simp add: refresh_cycles_def d)
  moreover have "unat (refresh_cycles 0xB clk) = ?s div 78125"
    using refresh_loop_div [of 78125 0 "refresh_scaled clk"] assms(1) small s by (simp add: refresh_cycles_def d)
  ultimately show ?thesis
    using scaled_quotient [OF refl, of 156250 "unat clk"] scaled_quotient [OF refl, of 78125 "unat clk"] by simp
qed

theorem dram_refresh_interval_witness:
  "unat (refresh_cycles 0xC 156000000) \<le> 1216 \<and> 1215 \<le> unat (refresh_cycles 0xC 156000000)"
  using dram_refresh_interval [of 156000000] by simp

section \<open>Size detection\<close>

text \<open>A memory that decodes an address \<open>a\<close> as \<open>f a\<close>: a read gives the last word written to an
  address with the same decoding.  The controller's registers are arbitrary.\<close>

fun ram_word :: "(u32 \<Rightarrow> u32) \<Rightarrow> access list \<Rightarrow> u32 \<Rightarrow> u32" where
  "ram_word f [] a = 0"
| "ram_word f (Wr32 b v # tr) a = (if f b = f a then v else ram_word f tr a)"
| "ram_word f (_ # tr) a = ram_word f tr a"

definition is_ram :: "(u32 \<Rightarrow> u32) \<Rightarrow> (access list \<Rightarrow> u32 \<Rightarrow> u32) \<Rightarrow> bool" where
  "is_ram f d \<longleftrightarrow> (\<forall>tr a. DRAM_MEM_BASE \<le> a \<longrightarrow> d tr a = ram_word f tr a)"

text \<open>The two areas of a probe: the words of the first differ from each other, and word \<open>j\<close> of
  the second is word \<open>i\<close> of the first exactly when the areas are one and \<open>i = j\<close>.\<close>

definition probe_areas :: "(u32 \<Rightarrow> u32) \<Rightarrow> u32 \<Rightarrow> u32 \<Rightarrow> bool \<Rightarrow> bool" where
  "probe_areas f a b same \<longleftrightarrow> (\<forall>i \<in> set idx32. \<forall>j \<in> set idx32.
     (f (a + 4 * j) = f (a + 4 * i) \<longleftrightarrow> i = j) \<and> (f (b + 4 * j) = f (a + 4 * i) \<longleftrightarrow> same \<and> i = j) \<and>
     DRAM_MEM_BASE \<le> a + 4 * i)"

lemma fill_device [simp]: "device32 (fill_words avs m) = device32 m"
  by (induction avs arbitrary: m) (auto simp: fill_words_def wr32_def)

lemma fill_words_append: "fill_words (xs @ ys) m = fill_words ys (fill_words xs m)"
  by (simp add: fill_words_def)

text \<open>What word \<open>i\<close> of the first area holds after the alternate writes.\<close>

lemma alternate_fill:
  assumes "probe_areas f a b same" "i \<in> set is" "set is \<subseteq> set idx32" "distinct is"
  shows "ram_word f (trace (fill_words (concat (map (\<lambda>j. [(a + 4 * j, u), (b + 4 * j, v)]) is)) m)) (a + 4 * i) = (if same then v else u)"
  using assms(2-4)
proof (induction "is" rule: rev_induct)
  case (snoc j js)
  have ij: "f (a + 4 * j) = f (a + 4 * i) \<longleftrightarrow> i = j" "f (b + 4 * j) = f (a + 4 * i) \<longleftrightarrow> same \<and> i = j"
    using assms(1) snoc.prems(1,2) by (auto simp: probe_areas_def)
  have "i \<noteq> j \<Longrightarrow> i \<in> set js" "set js \<subseteq> set idx32" "distinct js" using snoc.prems by auto
  then show ?case using snoc.IH ij
    by (cases "i = j") (auto simp: fill_words_append, auto simp: fill_words_def wr32_def)
qed simp

lemma count_words_ram:
  "is_ram f (device32 m) \<Longrightarrow> \<forall>a \<in> set as. DRAM_MEM_BASE \<le> a \<and> ram_word f (trace m) a = w \<Longrightarrow>
    fst (count_words as v c m) = (if w = v then c + word_of_nat (length as) else c)"
proof (induction "as" arbitrary: c m)
  case (Cons a as)
  let ?m = "m\<lparr>trace := Rd32 a w # trace m\<rparr>"
  have "rd32 a m = (w, ?m)" using Cons.prems by (simp add: rd32_def is_ram_def Let_def)
  then show ?case using Cons.IH [of ?m] Cons.prems by (simp add: add.assoc)
qed simp

lemma alias_count_ram:
  assumes "is_ram f (device32 m)" "probe_areas f a b same" "u \<noteq> v"
  shows "fst (alias_count a u b v m) = (if same then 32 else 0)"
proof -
  let ?m = "fill_words (concat (map (\<lambda>i. [(a + 4 * i, u), (b + 4 * i, v)]) idx32)) m"
  have d: "distinct idx32" "length idx32 = 32" by (code_simp, simp add: idx32_def)
  have "\<forall>x \<in> set (map (\<lambda>i. a + 4 * i) idx32). DRAM_MEM_BASE \<le> x \<and> ram_word f (trace ?m) x = (if same then v else u)"
    using alternate_fill [OF assms(2) _ subset_refl d(1)] assms(2) by (simp add: probe_areas_def)
  from count_words_ram [OF _ this, of v 0] assms(1,3) d(2) show ?thesis by (simp add: alias_count_def)
qed

text \<open>No step changes the device.\<close>

lemma device_rd [simp]: "device32 (snd (rd32 a m)) = device32 m" by (simp add: rd32_def Let_def)
lemma device_wr [simp]: "device32 (wr32 a v m) = device32 m" by (simp add: wr32_def)
lemma device_dram [simp]: "device32 (snd (dram_read off m)) = device32 m" "device32 (dram_write off v m) = device32 m"
  by (simp_all add: dram_read_def dram_write_def)
lemma device_poll [simp]: "device32 (snd (poll_counted n a p m)) = device32 m"
  by (induction n arbitrary: m) (simp_all add: split_beta Let_def)
lemma device_verify [simp]: "device32 (snd (verify_words avs m)) = device32 m"
  by (induction avs arbitrary: m) (auto simp: split_beta Let_def)
lemma device_count [simp]: "device32 (snd (count_words as v c m)) = device32 m"
  by (induction "as" arbitrary: c m) (auto simp: split_beta Let_def)
lemma device_readpipe [simp]: "device32 (set_readpipe i m) = device32 m"
  by (simp add: set_readpipe_def split_beta)
lemma device_scan [simp]: "device32 (snd (dram_delay_scan m)) = device32 m"
  "device32 (snd (dram_initial m)) = device32 m" "device32 (snd (dram_para_setup p m)) = device32 m"
  by (simp_all add: dram_delay_scan_def dram_initial_def dram_para_setup_def split_beta Let_def)
lemma device_sdr [simp]: "device32 (snd (sdr_select_loop is m)) = device32 m"
  by (induction "is" arbitrary: m) (auto simp: split_beta Let_def sdr_readpipe_scan_def)
lemma device_check [simp]: "device32 (snd (check_delay_regs rs c m)) = device32 m"
  by (induction rs arbitrary: c m) (simp_all add: split_beta Let_def)
lemma device_readpipe_loop [simp]: "device32 (snd (readpipe_loop bw is best m)) = device32 m"
proof (induction "is" arbitrary: best m)
  case (Cons i "is")
  obtain x y where "best = (x, y)" by force
  then show ?case using Cons.IH by (simp add: split_beta Let_def dram_check_delay_def)
qed (cases best, simp)
lemma device_select [simp]: "device32 (dram_scan_readpipe p m) = device32 m"
  by (cases "d_type p = DramDdr") (simp_all add: dram_scan_readpipe_def split_beta Let_def sdr_readpipe_select_def
    del: readpipe_loop.simps sdr_select_loop.simps)
lemma device_alias [simp]: "device32 (snd (alias_count a u b v m)) = device32 m"
  by (simp add: alias_count_def)


text \<open>A chip with 9 column bits: bit 10 of the address is not decoded.\<close>

definition nine_columns :: "u32 \<Rightarrow> u32" where "nine_columns a = a AND NOT 0x400"


end
