(* ===== verification/Pwm.thy ===== *)
theory Pwm
  imports Gpio
begin

text \<open>
  \<open>pwm.rs\<close>: the two pulse-width channels.  The functions that take the duty as a
  floating-point number (\<open>set_freq_duty\<close>, \<open>set_period_duty\<close>) are not modelled; they call
  \<open>configure\<close> with the product.
\<close>

definition PWM_BASE :: u32 where "PWM_BASE = 0x01C21000"
definition PWM_CTRL_REG :: u32 where "PWM_CTRL_REG = 0x00"
definition PWM_CH0_PRD :: u32 where "PWM_CH0_PRD = 0x04"
definition PWM_CH1_PRD :: u32 where "PWM_CH1_PRD = 0x08"
definition CH_OFFSET :: u32 where "CH_OFFSET = 15"
definition PRESCAL_MASK :: u32 where "PRESCAL_MASK = 0xF"

definition ctrl_bit :: "u32 \<Rightarrow> u32 \<Rightarrow> u32" where
  "ctrl_bit b ch = push_bit (unat (ch * CH_OFFSET)) b"

definition PWM_EN :: u32 where "PWM_EN = bitm 4"
definition PWM_ACT_STATE :: u32 where "PWM_ACT_STATE = bitm 5"
definition PWM_CLK_GATING :: u32 where "PWM_CLK_GATING = bitm 6"
definition PWM_MODE :: u32 where "PWM_MODE = bitm 7"
definition PRD_MASK :: u32 where "PRD_MASK = 0xFFFF"
definition DTY_MASK :: u32 where "DTY_MASK = 0xFFFF"

definition prd_duty_pack :: "u32 \<Rightarrow> u32 \<Rightarrow> u32" where
  "prd_duty_pack prd dty = push_bit 16 ((prd - 1) AND PRD_MASK) OR (dty AND DTY_MASK)"

definition PRESCALER_TABLE :: "u32 list" where
  "PRESCALER_TABLE = [120, 180, 240, 360, 480, 0, 0, 0, 12000, 24000, 36000, 48000, 72000, 0, 0, 1]"

definition PWM_SRC_HZ :: u32 where "PWM_SRC_HZ = 24000000"
definition NSEC_PER_SEC :: u64 where "NSEC_PER_SEC = 1000000000"

lemmas pwm_regs = PWM_BASE_def PWM_CTRL_REG_def PWM_CH0_PRD_def PWM_CH1_PRD_def

definition pwm_read :: "u32 \<Rightarrow> mmio \<Rightarrow> u32 \<times> mmio" where "pwm_read off m = rd32 (PWM_BASE + off) m"
definition pwm_write :: "u32 \<Rightarrow> u32 \<Rightarrow> mmio \<Rightarrow> mmio" where "pwm_write off v m = wr32 (PWM_BASE + off) v m"

datatype pwm_channel = PwmCh0 | PwmCh1
datatype pwm_polarity = ActiveHigh | ActiveLow
datatype pwm_mode = Continuous | SinglePulse
datatype pwm_error = PulseExceedsPeriod | PeriodTooSmall | PeriodTooLarge | InvalidDuty

record pwm_config =
  period_ns :: u32
  pulse_ns :: u32
  polarity :: pwm_polarity
  pwm_cfg_mode :: pwm_mode

definition pwm_config_default :: pwm_config where
  "pwm_config_default = \<lparr>period_ns = 1000000, pulse_ns = 500000, polarity = ActiveHigh, pwm_cfg_mode = Continuous\<rparr>"

record pwm_pins =
  pwm_port :: port
  pwm_pin :: u8
  pwm_pin_func :: u8

definition PWM0_PA2 :: pwm_pins where "PWM0_PA2 = \<lparr>pwm_port = PortA, pwm_pin = 2, pwm_pin_func = 0x03\<rparr>"
definition PWM0_PE12 :: pwm_pins where "PWM0_PE12 = \<lparr>pwm_port = PortE, pwm_pin = 12, pwm_pin_func = 0x04\<rparr>"
definition PWM1_PE6 :: pwm_pins where "PWM1_PE6 = \<lparr>pwm_port = PortE, pwm_pin = 6, pwm_pin_func = 0x03\<rparr>"
definition PWM1_PF5 :: pwm_pins where "PWM1_PF5 = \<lparr>pwm_port = PortF, pwm_pin = 5, pwm_pin_func = 0x04\<rparr>"

record pwm = pwm_ch :: u32

fun pwm_new :: "pwm_channel \<Rightarrow> pwm" where
  "pwm_new PwmCh0 = \<lparr>pwm_ch = 0\<rparr>" | "pwm_new PwmCh1 = \<lparr>pwm_ch = 1\<rparr>"

definition pwm_disable :: "pwm \<Rightarrow> mmio \<Rightarrow> mmio" where
  "pwm_disable p m = (let (v, m) = pwm_read PWM_CTRL_REG m
     in pwm_write PWM_CTRL_REG ((v AND NOT (ctrl_bit PWM_CLK_GATING (pwm_ch p))) AND NOT (ctrl_bit PWM_EN (pwm_ch p))) m)"

definition pwm_enable :: "pwm \<Rightarrow> mmio \<Rightarrow> mmio" where
  "pwm_enable p m = (let (v, m) = pwm_read PWM_CTRL_REG m
     in pwm_write PWM_CTRL_REG ((v OR ctrl_bit PWM_CLK_GATING (pwm_ch p)) OR ctrl_bit PWM_EN (pwm_ch p)) m)"

definition pwm_is_enabled :: "pwm \<Rightarrow> mmio \<Rightarrow> bool \<times> mmio" where
  "pwm_is_enabled p m = (let (v, m) = pwm_read PWM_CTRL_REG m; msk = ctrl_bit (PWM_CLK_GATING OR PWM_EN) (pwm_ch p)
     in (v AND msk = msk, m))"

definition pwm_init :: "pwm \<Rightarrow> pwm_pins \<Rightarrow> mmio \<Rightarrow> mmio option" where
  "pwm_init p pins m = do {
     m \<leftarrow> set_function (pwm_port pins) (pwm_pin pins) (pwm_pin_func pins) m;
     m \<leftarrow> set_pull_mode (pwm_port pins) (pwm_pin pins) PullDisable m;
     Some (pwm_disable p m)
   }"

definition prd_offset :: "pwm \<Rightarrow> u32" where
  "prd_offset p = (if pwm_ch p = 0 then PWM_CH0_PRD else PWM_CH1_PRD)"

text \<open>A prescaler field that the table calls invalid makes the division panic.\<close>

definition get_config :: "pwm \<Rightarrow> mmio \<Rightarrow> (pwm_config \<times> mmio) option" where
  "get_config p m = do {
     let (ctrl, m) = pwm_read PWM_CTRL_REG m;
     let prescal_idx = drop_bit (unat (pwm_ch p * CH_OFFSET)) ctrl AND PRESCAL_MASK;
     prescaler \<leftarrow> (if prescal_idx = PRESCAL_MASK then Some 1 else slice_get PRESCALER_TABLE (unat prescal_idx));
     let pol = (if ctrl AND ctrl_bit PWM_ACT_STATE (pwm_ch p) \<noteq> 0 then ActiveHigh else ActiveLow);
     let (prd_reg, m) = pwm_read (prd_offset p) m;
     let prd = (drop_bit 16 prd_reg AND PRD_MASK) + 1;
     let dty = prd_reg AND DTY_MASK;
     assert_that (prescaler \<noteq> 0);
     let clk_hz = PWM_SRC_HZ div prescaler;
     assert_that (clk_hz \<noteq> 0);
     Some (\<lparr>period_ns = ucast (ucast prd * NSEC_PER_SEC div ucast clk_hz),
            pulse_ns = ucast (ucast dty * NSEC_PER_SEC div ucast clk_hz),
            polarity = pol, pwm_cfg_mode = Continuous\<rparr>, m)
   }"

text \<open>The inner loop of \<open>calculate\<close>: the first divider of \<open>extra, \<dots>, 256\<close> that fits.\<close>

fun extra_loop :: "nat \<Rightarrow> u64 \<Rightarrow> u64 \<Rightarrow> u64 \<Rightarrow> u64 option" where
  "extra_loop 0 dv pval extra = None"
| "extra_loop (Suc n) dv pval extra = (let scaled = dv div (pval * extra) in
     if scaled \<le> 65536 then Some scaled else extra_loop n dv pval (extra + 1))"

text \<open>The loop over the table, with \<open>(prescal_idx, entire_cycles)\<close>.\<close>

fun prescaler_loop :: "u32 list \<Rightarrow> u32 \<Rightarrow> u64 \<Rightarrow> u32 \<times> u64 \<Rightarrow> u32 \<times> u64" where
  "prescaler_loop [] idx dv best = best"
| "prescaler_loop (pval # ps) idx dv best =
    (if pval = 0 then prescaler_loop ps (idx + 1) dv best
     else let scaled = dv div ucast pval in
       if scaled \<le> 65536 then (idx, scaled)
       else case extra_loop 256 dv (ucast pval) 1 of
           Some scaled \<Rightarrow> (idx, scaled)
         | None \<Rightarrow> if snd best \<le> 65536 then best else prescaler_loop ps (idx + 1) dv best)"

text \<open>A period of 0 gives \<open>div = 0\<close> and returns before the division by the period.\<close>

definition pwm_calculate :: "u32 \<Rightarrow> u32 \<Rightarrow> pwm_error + (u32 \<times> u32 \<times> u32)" where
  "pwm_calculate period pulse = (let dv = ucast PWM_SRC_HZ * ucast period div NSEC_PER_SEC in
     if dv = 0 then Inl PeriodTooSmall
     else let (prescal_idx, entire) = prescaler_loop PRESCALER_TABLE 0 dv (PRESCAL_MASK, dv) in
       if 65536 < entire then Inl PeriodTooLarge
       else let entire = (if entire = 0 then 1 else entire)
         in Inr (prescal_idx, ucast entire, ucast (entire * ucast pulse div (ucast period :: u64))))"

definition pwm_configure :: "pwm \<Rightarrow> pwm_config \<Rightarrow> mmio \<Rightarrow> (pwm_error + unit) \<times> mmio" where
  "pwm_configure p c m = (if period_ns c < pulse_ns c then (Inl PulseExceedsPeriod, m)
     else case pwm_calculate (period_ns c) (pulse_ns c) of
       Inl e \<Rightarrow> (Inl e, m)
     | Inr (prescal_idx, prd, dty) \<Rightarrow> (let
         ch = pwm_ch p;
         (ctrl, m) = pwm_read PWM_CTRL_REG m;
         old = drop_bit (unat (ch * CH_OFFSET)) ctrl AND PRESCAL_MASK;
         gated = ctrl AND NOT (ctrl_bit PWM_CLK_GATING ch);
         (ctrl, m) = (if old \<noteq> prescal_idx then
             ((gated AND NOT (ctrl_bit PRESCAL_MASK ch)) OR ctrl_bit prescal_idx ch, pwm_write PWM_CTRL_REG gated m)
           else (ctrl, m));
         m = pwm_write (prd_offset p) (prd_duty_pack prd dty) m;
         ctrl = (case polarity c of ActiveHigh \<Rightarrow> ctrl AND NOT (ctrl_bit PWM_ACT_STATE ch) | ActiveLow \<Rightarrow> ctrl OR ctrl_bit PWM_ACT_STATE ch);
         ctrl = (case pwm_cfg_mode c of Continuous \<Rightarrow> ctrl AND NOT (ctrl_bit PWM_MODE ch) | SinglePulse \<Rightarrow> ctrl OR ctrl_bit PWM_MODE ch)
       in (Inr (), pwm_write PWM_CTRL_REG ctrl m)))"

definition pwm_create :: "pwm_channel \<Rightarrow> pwm_pins \<Rightarrow> mmio \<Rightarrow> (pwm \<times> mmio) option" where
  "pwm_create ch pins m = do { let p = pwm_new ch; m \<leftarrow> pwm_init p pins m; Some (p, m) }"

definition pwm0_pa2 where "pwm0_pa2 m = pwm_create PwmCh0 PWM0_PA2 m"
definition pwm0_pe12 where "pwm0_pe12 m = pwm_create PwmCh0 PWM0_PE12 m"
definition pwm1_pe6 where "pwm1_pe6 m = pwm_create PwmCh1 PWM1_PE6 m"
definition pwm1_pf5 where "pwm1_pf5 m = pwm_create PwmCh1 PWM1_PF5 m"

section \<open>Properties\<close>

lemma unat_u64: "unat (x :: u64) < 2 ^ 64"
  by (rule order_less_le_trans [OF unsigned_less]) simp

lemma u64_small: "n < 2 ^ 64 \<Longrightarrow> unat (word_of_nat n :: u64) = n"
  by (simp add: unat_of_nat take_bit_eq_mod)

lemma extra_loop_finds:
  assumes "j \<le> e" "e < j + n" "unat dv div (120 * e) \<le> 65536" "e < 1000" "0 < j"
  shows "\<exists>d. j \<le> d \<and> d \<le> e \<and> extra_loop n dv 120 (word_of_nat j) = Some (word_of_nat (unat dv div (120 * d))) \<and>
    unat dv div (120 * d) \<le> 65536 \<and> (\<forall>d'. j \<le> d' \<and> d' < d \<longrightarrow> 65536 < unat dv div (120 * d'))"
  using assms
proof (induction n arbitrary: j)
  case (Suc n)
  have j: "unat (120 * word_of_nat j :: u64) = 120 * j"
    using Suc.prems by (simp add: unat_word_ariths u64_small)
  have q: "dv div (120 * word_of_nat j) = word_of_nat (unat dv div (120 * j))"
    unfolding j [symmetric] unat_div [symmetric] by simp
  have le: "word_of_nat (unat dv div (120 * j)) \<le> (65536 :: u64) \<longleftrightarrow> unat dv div (120 * j) \<le> 65536"
  proof -
    have "unat dv < 2 ^ 64" by (rule unat_u64)
    then have "unat dv div (120 * j) < 2 ^ 64" using div_le_dividend [of "unat dv" "120 * j"] by linarith
    then show ?thesis by (simp add: word_le_nat_alt u64_small)
  qed
  show ?case
  proof (cases "unat dv div (120 * j) \<le> 65536")
    case True
    then show ?thesis using Suc.prems(1) q le by (intro exI [of _ j]) simp
  next
    case False
    then have "j \<noteq> e" using Suc.prems(3) by blast
    then obtain d where d: "Suc j \<le> d" "d \<le> e" "extra_loop n dv 120 (word_of_nat (Suc j)) = Some (word_of_nat (unat dv div (120 * d)))"
      "unat dv div (120 * d) \<le> 65536" "\<forall>d'. Suc j \<le> d' \<and> d' < d \<longrightarrow> 65536 < unat dv div (120 * d')"
      using Suc.IH [of "Suc j"] Suc.prems by auto
    have "\<forall>d'. j \<le> d' \<and> d' < d \<longrightarrow> 65536 < unat dv div (120 * d')"
      using d(5) False by (metis Suc_leI le_neq_implies_less not_le)
    then show ?thesis using d False q le by (intro exI [of _ d]) (simp add: add.commute)
  qed
qed simp

lemma cycles_24m: "unat (ucast PWM_SRC_HZ * ucast period div NSEC_PER_SEC) = unat (period :: u32) * 24 div 1000"
proof -
  have p: "unat period < 2 ^ 32" by (rule unat_u32)
  have u: "unat (ucast period :: u64) = unat period" using p by (simp add: unsigned_ucast_eq take_bit_nat_eq_self)
  have "unat (ucast PWM_SRC_HZ * ucast period :: u64) = 24000000 * unat period"
    using p by (simp add: PWM_SRC_HZ_def unat_word_ariths u)
  then have "unat (ucast PWM_SRC_HZ * ucast period div NSEC_PER_SEC) = 24000000 * unat period div 1000000000"
    by (simp add: unat_div NSEC_PER_SEC_def)
  also have "\<dots> = unat period * 24 div 1000" by (simp add: mult.commute)
  finally show ?thesis .
qed

text \<open>The first entry of the table always fits, with the divider 14 at the latest.\<close>

lemma first_entry:
  assumes "unat dv = n" "n \<le> 103079216"
  obtains e where "0 < e" "e \<le> 14" "n div (120 * e) \<le> 65536" "\<forall>d. 0 < d \<and> d < e \<longrightarrow> 65536 < n div (120 * d)"
    "prescaler_loop PRESCALER_TABLE 0 dv best = (0, word_of_nat (n div (120 * e)))"
proof -
  have "n div (120 * 14) \<le> 65536" using assms(2) by simp
  then obtain e where e: "1 \<le> e" "e \<le> 14" "extra_loop 256 dv 120 1 = Some (word_of_nat (n div (120 * e)))"
    "n div (120 * e) \<le> 65536" "\<forall>d. 1 \<le> d \<and> d < e \<longrightarrow> 65536 < n div (120 * d)"
    using extra_loop_finds [of 1 14 256 dv] assms(1) by auto
  have w: "dv div 120 = word_of_nat (n div 120)" unfolding assms(1) [symmetric] by (simp add: word_arith_nat_div)
  have le: "dv div 120 \<le> 65536 \<longleftrightarrow> n div 120 \<le> 65536" using assms(1) by (simp add: word_le_nat_alt unat_div)
  have "prescaler_loop PRESCALER_TABLE 0 dv best = (0, word_of_nat (n div (120 * e)))"
  proof (cases "n div 120 \<le> 65536")
    case True
    then have "e = 1" using e(1,5) by (metis le_neq_implies_less mult.right_neutral not_le order_refl)
    then show ?thesis using True le w by (simp add: PRESCALER_TABLE_def)
  next
    case False
    then show ?thesis using le e(3) by (simp add: PRESCALER_TABLE_def)
  qed
  then show thesis using that e by (simp add: Suc_le_eq)
qed

text \<open>The duty in 64 bits.\<close>

lemma duty_cycles:
  assumes "unat entire \<le> 65536" "pulse \<le> (period :: u32)" "0 < unat period"
  defines "active \<equiv> ucast (entire * ucast pulse div ucast period :: u64) :: u32"
  shows "unat active = unat entire * unat pulse div unat period" "unat active \<le> unat entire"
proof -
  have p: "unat pulse \<le> unat period" "unat period < 2 ^ 32" "unat pulse < 2 ^ 32"
    using assms(2) unat_u32 [of period] unat_u32 [of pulse] by (auto simp: word_le_nat_alt)
  have u: "unat (ucast period :: u64) = unat period" "unat (ucast pulse :: u64) = unat pulse"
    using p by (simp_all add: unsigned_ucast_eq take_bit_nat_eq_self)
  have "unat entire * unat pulse \<le> 65536 * 2 ^ 32" using assms(1) p by (intro mult_le_mono) simp_all
  then have d: "unat (entire * ucast pulse div ucast period :: u64) = unat entire * unat pulse div unat period"
    by (simp add: unat_div unat_word_ariths u)
  have "unat entire * unat pulse div unat period \<le> unat entire * unat period div unat period"
    using p(1) by (intro div_le_mono mult_le_mono) simp_all
  then have le: "unat entire * unat pulse div unat period \<le> unat entire" using assms(3) by simp
  then have "unat entire * unat pulse div unat period < 2 ^ 32" using assms(1) by simp
  then show a: "unat active = unat entire * unat pulse div unat period"
    unfolding active_def using d by (simp add: unsigned_ucast_eq take_bit_nat_eq_self)
  show "unat active \<le> unat entire" using a le by simp
qed

lemma calculate_spec:
  assumes "pulse \<le> period" "n = unat period * 24 div 1000" "n \<noteq> 0"
  obtains e prd active where "pwm_calculate period pulse = Inr (0, prd, active)" "0 < e" "e \<le> 14"
    "\<forall>d. 0 < d \<and> d < e \<longrightarrow> 65536 < n div (120 * d)" "unat prd = max 1 (n div (120 * e))" "unat prd \<le> 65536"
    "unat active = unat prd * unat pulse div unat period" "active \<le> prd"
proof -
  note False = assms(3)
  define dv where "dv = ucast PWM_SRC_HZ * ucast period div NSEC_PER_SEC"
  have dv: "unat dv = n" "dv \<noteq> 0" using cycles_24m [of period] assms(2) False by (auto simp: dv_def)
  have n: "n \<le> 103079216" "0 < unat period" using assms(2) False unat_u32 [of period] by (auto intro!: Nat.gr0I)
  obtain e where e: "0 < e" "e \<le> 14" "n div (120 * e) \<le> 65536" "\<forall>d. 0 < d \<and> d < e \<longrightarrow> 65536 < n div (120 * d)"
    "prescaler_loop PRESCALER_TABLE 0 dv (PRESCAL_MASK, dv) = (0, word_of_nat (n div (120 * e)))"
    by (rule first_entry [OF dv(1) n(1)])
  define entire :: u64 where "entire = word_of_nat (max 1 (n div (120 * e)))"
  have ent: "unat entire = max 1 (n div (120 * e))" "unat entire \<le> 65536" using e(3) by (simp_all add: entire_def u64_small)
  have q: "unat (word_of_nat (n div (120 * e)) :: u64) = n div (120 * e)" using e(3) by (simp add: u64_small)
  then have pick: "(if word_of_nat (n div (120 * e)) = (0 :: u64) then 1 else word_of_nat (n div (120 * e))) = entire"
    by (auto simp: entire_def max_def unat_eq_0 Suc_le_eq)
  have calc: "pwm_calculate period pulse = Inr (0, ucast entire, ucast (entire * ucast pulse div ucast period))"
    using dv(2) e(3,5) q pick by (simp add: pwm_calculate_def dv_def [symmetric] Let_def word_less_nat_alt)
  have "unat (ucast entire :: u32) = unat entire" using ent(2) by (simp add: unsigned_ucast_eq take_bit_nat_eq_self)
  then show thesis
    using that [OF calc e(1,2,4)] ent duty_cycles [OF ent(2) assms(1) n(2)] by (simp add: word_le_nat_alt)
qed

text \<open>Period and duty.  For every period the prescaler chosen is the first of the table
  (120): the error \<open>PeriodTooLarge\<close> cannot happen.  The cycles are the period at 200 kHz as
  long as they fit 16 bits; a longer period is divided by the first divider \<open>e\<close> (14 at
  most) that makes it fit, a divider the hardware is never told of, so the output is \<open>e\<close>
  times too fast.  The duty never exceeds the period.\<close>

theorem pwm_calculate_result:
  assumes "pulse \<le> period" "n = unat period * 24 div 1000"
  shows "(n = 0 \<longrightarrow> pwm_calculate period pulse = Inl PeriodTooSmall) \<and>
    (0 < n \<longrightarrow> (\<exists>e prd active. pwm_calculate period pulse = Inr (0, prd, active) \<and> 0 < e \<and> e \<le> 14 \<and>
       (\<forall>d. 0 < d \<and> d < e \<longrightarrow> 65536 < n div (120 * d)) \<and> unat prd = max 1 (n div (120 * e)) \<and> unat prd \<le> 65536 \<and>
       unat active = unat prd * unat pulse div unat period \<and> active \<le> prd))"
proof (cases "n = 0")
  case True
  then have "ucast PWM_SRC_HZ * ucast period div NSEC_PER_SEC = (0 :: u64)"
    using cycles_24m [of period] assms(2) by (simp add: unat_eq_0)
  then show ?thesis using True by (simp add: pwm_calculate_def)
next
  case False
  show ?thesis by (rule calculate_spec [OF assms False]) (use False in blast)
qed

text \<open>One second is configured as 0.2 s: 200000 cycles divided by 4.\<close>

theorem pwm_calculate_result_witness:
  "\<exists>prd active. pwm_calculate 1000000000 500000000 = Inr (0, prd, active) \<and> unat prd = 50000 \<and> unat active = 25000"
proof -
  have "(500000000 :: u32) \<le> 1000000000" "(24000000 :: nat) = unat (1000000000 :: u32) * 24 div 1000" by simp_all
  from pwm_calculate_result [OF this] obtain e prd active where
    c: "pwm_calculate 1000000000 500000000 = Inr (0, prd, active)" "0 < e" "e \<le> 14"
      "\<forall>d. 0 < d \<and> d < e \<longrightarrow> (65536 :: nat) < 24000000 div (120 * d)" "unat prd = max 1 (24000000 div (120 * e))" "unat prd \<le> 65536"
      "unat active = unat prd * 500000000 div 1000000000" by auto
  have "\<not> 4 < e" using c(4) [rule_format, of 4] by auto
  then have "e = 1 \<or> e = 2 \<or> e = 3 \<or> e = 4" using c(2) by arith
  then have "e = 4" using c(5,6) by auto
  then show ?thesis using c(1,5,7) by simp
qed

end
