(* ===== verification/Pwm_Props.thy ===== *)
theory Pwm_Props
  imports Pwm
begin

text \<open>
  What \<open>configure\<close> of \<open>pwm.rs\<close> leaves in the registers, and what \<open>get_config\<close> reads back.
\<close>

lemma low_masks: "(x :: u32) AND 0xFFFF = take_bit 16 x" "x AND 0xF = take_bit 4 x"
  by (simp_all add: take_bit_eq_mask mask_eq_exp_minus_1)

text \<open>The two halves of the period register.\<close>

lemma prd_duty_unpack:
  assumes "0 < unat prd" "unat prd \<le> 65536" "unat dty < 65536"
  shows "(drop_bit 16 (prd_duty_pack prd dty) AND PRD_MASK) + 1 = prd" "prd_duty_pack prd dty AND DTY_MASK = dty"
proof -
  have p: "unat (prd - 1) < 2 ^ 16"
    using assms(1,2) by (subst unat_minus_u32) (simp_all add: word_le_nat_alt)
  have hi: "take_bit 16 (prd - 1) = prd - 1" and lo: "take_bit 16 dty = dty"
    using p assms(3) and_mask_small [of "prd - 1" 16] and_mask_small [of dty 16] by (simp_all add: take_bit_eq_mask)
  have "drop_bit 16 (push_bit 16 (take_bit 16 (prd - 1)) OR take_bit 16 dty) = take_bit 16 (prd - 1)"
    by (rule bit_word_eqI) (auto simp: bit_simps)
  then show "(drop_bit 16 (prd_duty_pack prd dty) AND PRD_MASK) + 1 = prd"
    by (simp add: prd_duty_pack_def PRD_MASK_def DTY_MASK_def low_masks hi lo)
  have "take_bit 16 (push_bit 16 (take_bit 16 (prd - 1)) OR take_bit 16 dty) = take_bit 16 dty"
    by (rule bit_word_eqI) (auto simp: bit_simps)
  then show "prd_duty_pack prd dty AND DTY_MASK = dty"
    by (simp add: prd_duty_pack_def PRD_MASK_def DTY_MASK_def low_masks hi lo)
qed

text \<open>The control word \<open>configure\<close> writes, for the prescaler 0.\<close>

definition configured_ctrl :: "u32 \<Rightarrow> pwm_config \<Rightarrow> u32 \<Rightarrow> u32" where
  "configured_ctrl ch c ctrl = (let
     old = drop_bit (unat (ch * CH_OFFSET)) ctrl AND PRESCAL_MASK;
     ctrl = (if old \<noteq> 0 then (ctrl AND NOT (ctrl_bit PWM_CLK_GATING ch)) AND NOT (ctrl_bit PRESCAL_MASK ch) else ctrl);
     ctrl = (case polarity c of ActiveHigh \<Rightarrow> ctrl AND NOT (ctrl_bit PWM_ACT_STATE ch) | ActiveLow \<Rightarrow> ctrl OR ctrl_bit PWM_ACT_STATE ch)
   in case pwm_cfg_mode c of Continuous \<Rightarrow> ctrl AND NOT (ctrl_bit PWM_MODE ch) | SinglePulse \<Rightarrow> ctrl OR ctrl_bit PWM_MODE ch)"

lemma configure_writes:
  assumes "plain m R" "pulse_ns c \<le> period_ns c" "pwm_calculate (period_ns c) (pulse_ns c) = Inr (0, prd, dty)"
  obtains m1 R1 where "pwm_configure p c m = (Inr (), m1)" "plain m1 R1"
    "R1 PWM_BASE = configured_ctrl (pwm_ch p) c (R PWM_BASE)" "R1 (PWM_BASE + prd_offset p) = prd_duty_pack prd dty"
proof -
  obtain m0 where m0: "pwm_read PWM_CTRL_REG m = (R PWM_BASE, m0)" "plain m0 R"
    using backed_rd32 [OF assms(1), of PWM_BASE] by (auto simp: pwm_read_def PWM_CTRL_REG_def)
  let ?old = "drop_bit (unat (pwm_ch p * CH_OFFSET)) (R PWM_BASE) AND PRESCAL_MASK"
  let ?gated = "R PWM_BASE AND NOT (ctrl_bit PWM_CLK_GATING (pwm_ch p))"
  let ?m = "if ?old \<noteq> 0 then pwm_write PWM_CTRL_REG ?gated m0 else m0"
  let ?R = "if ?old \<noteq> 0 then R(PWM_BASE := ?gated) else R"
  let ?m1 = "pwm_write PWM_CTRL_REG (configured_ctrl (pwm_ch p) c (R PWM_BASE)) (pwm_write (prd_offset p) (prd_duty_pack prd dty) ?m)"
  let ?R1 = "(?R(PWM_BASE + prd_offset p := prd_duty_pack prd dty))(PWM_BASE := configured_ctrl (pwm_ch p) c (R PWM_BASE))"
  have "plain ?m ?R" using m0(2) regs.wr_holds [OF m0(2), of PWM_BASE] by (simp add: pwm_write_def PWM_CTRL_REG_def)
  from regs.wr_holds [OF regs.wr_holds [OF this]] have R1: "plain ?m1 ?R1" by (simp add: pwm_write_def PWM_CTRL_REG_def)
  have z: "ctrl_bit 0 (pwm_ch p) = 0" by (simp add: ctrl_bit_def)
  have "pwm_configure p c m = (Inr (), ?m1)"
    using assms(2,3) m0(1) by (simp add: pwm_configure_def configured_ctrl_def Let_def not_less z)
  then show thesis using that R1 by (simp add: prd_offset_def pwm_regs)
qed

lemma field_zero: "drop_bit s (x :: u32) AND PRESCAL_MASK = 0 \<longleftrightarrow> (\<forall>i < 4. \<not> bit x (s + i))"
proof -
  have "drop_bit s x AND PRESCAL_MASK = take_bit 4 (drop_bit s x)" by (simp add: PRESCAL_MASK_def low_masks)
  then show ?thesis by (auto simp: bit_eq_iff [of _ 0] bit_simps dest: bit_u32_len)
qed

lemma configured_bits:
  assumes "ch = 0 \<or> ch = 1"
  defines "s \<equiv> unat (ch * CH_OFFSET)"
  shows "drop_bit s (configured_ctrl ch c ctrl) AND PRESCAL_MASK = 0"
    and "bit (configured_ctrl ch c ctrl) (s + 5) \<longleftrightarrow> polarity c = ActiveLow"
    and "bit (configured_ctrl ch c ctrl) (s + 6) \<longleftrightarrow> bit ctrl (s + 6) \<and> drop_bit s ctrl AND PRESCAL_MASK = 0"
proof -
  have s: "s = 0 \<or> s = 15" using assms by (auto simp: CH_OFFSET_def)
  have b: "bit (ctrl_bit (bitm n) ch) (s + i) \<longleftrightarrow> i = n" if "n < 10" "i < 10" for n i
    using s that by (auto simp: ctrl_bit_def s_def [symmetric] bit_simps bit_bitm)
  have pm: "PRESCAL_MASK = mask 4" by (simp add: PRESCAL_MASK_def mask_eq_exp_minus_1)
  have f: "bit (ctrl_bit PRESCAL_MASK ch) (s + i) \<longleftrightarrow> i < 4" if "i < 10" for i
    using s that by (auto simp: ctrl_bit_def s_def [symmetric] bit_simps pm)
  show "drop_bit s (configured_ctrl ch c ctrl) AND PRESCAL_MASK = 0"
    unfolding field_zero using field_zero [of s ctrl]
    by (cases "polarity c"; cases "pwm_cfg_mode c")
      (simp_all add: configured_ctrl_def s_def [symmetric] Let_def bit_simps b f PWM_ACT_STATE_def PWM_MODE_def)
  show "bit (configured_ctrl ch c ctrl) (s + 5) \<longleftrightarrow> polarity c = ActiveLow"
    using s by (cases "polarity c"; cases "pwm_cfg_mode c")
      (auto simp add: configured_ctrl_def s_def [symmetric] Let_def bit_simps b PWM_ACT_STATE_def PWM_MODE_def)
  show "bit (configured_ctrl ch c ctrl) (s + 6) \<longleftrightarrow> bit ctrl (s + 6) \<and> drop_bit s ctrl AND PRESCAL_MASK = 0"
    using s by (cases "polarity c"; cases "pwm_cfg_mode c")
      (auto simp add: configured_ctrl_def s_def [symmetric] Let_def bit_simps b f PWM_ACT_STATE_def PWM_MODE_def PWM_CLK_GATING_def)
qed

text \<open>The test of one bit.\<close>

lemma test_bit:
  assumes "s + i < 32"
  shows "x AND push_bit s (bitm i) \<noteq> 0 \<longleftrightarrow> bit (x :: u32) (s + i)"
proof -
  have "bit (x AND push_bit s (bitm i)) k \<longleftrightarrow> k = s + i \<and> bit x (s + i)" for k
    using assms by (auto simp: bit_simps bit_bitm)
  then show ?thesis by (metis bit_0_eq bit_eqI bot_apply bot_bool_def)
qed

text \<open>The conversion to nanoseconds at 200 kHz.\<close>

lemma to_ns:
  assumes "unat v < 65537"
  shows "unat (ucast (ucast (v :: u32) * NSEC_PER_SEC div ucast (200000 :: u32)) :: u32) = unat v * 5000"
proof -
  have u: "unat (ucast v :: u64) = unat v" using assms by (simp add: unsigned_ucast_eq take_bit_nat_eq_self)
  have "unat (ucast v * NSEC_PER_SEC) = unat v * 1000000000"
    using assms by (simp add: unat_word_ariths u NSEC_PER_SEC_def)
  then have "unat (ucast v * NSEC_PER_SEC div ucast (200000 :: u32)) = unat v * 5000" by (simp add: unat_div)
  then show ?thesis using assms by (simp add: unsigned_ucast_eq take_bit_nat_eq_self)
qed

lemma get_config_reads:
  assumes "plain m R" "ch = pwm_ch p" "ch = 0 \<or> ch = 1" "drop_bit (unat (ch * CH_OFFSET)) (R PWM_BASE) AND PRESCAL_MASK = 0"
    "R (PWM_BASE + prd_offset p) = prd_duty_pack prd dty" "0 < unat prd" "unat prd \<le> 65536" "unat dty < 65536"
  shows "\<exists>m2 cfg. get_config p m = Some (cfg, m2) \<and> unat (period_ns cfg) = unat prd * 5000 \<and> unat (pulse_ns cfg) = unat dty * 5000 \<and>
    polarity cfg = (if bit (R PWM_BASE) (unat (ch * CH_OFFSET) + 5) then ActiveHigh else ActiveLow)"
proof -
  obtain m1 where m1: "pwm_read PWM_CTRL_REG m = (R PWM_BASE, m1)" "plain m1 R"
    using backed_rd32 [OF assms(1), of PWM_BASE] by (auto simp: pwm_read_def PWM_CTRL_REG_def)
  obtain m2 where m2: "pwm_read (prd_offset p) m1 = (prd_duty_pack prd dty, m2)"
    using backed_rd32 [OF m1(2), of "PWM_BASE + prd_offset p"] assms(5) by (auto simp: pwm_read_def)
  have s: "unat (ch * CH_OFFSET) + 5 < 32" using assms(3) by (auto simp: CH_OFFSET_def)
  have pol: "R PWM_BASE AND ctrl_bit PWM_ACT_STATE ch \<noteq> 0 \<longleftrightarrow> bit (R PWM_BASE) (unat (ch * CH_OFFSET) + 5)"
    unfolding ctrl_bit_def PWM_ACT_STATE_def by (rule test_bit [OF s])
  have idx: "(0 :: u32) \<noteq> PRESCAL_MASK" "slice_get PRESCALER_TABLE (unat (0 :: u32)) = Some 120" "PWM_SRC_HZ div 120 = 200000"
    by (simp_all add: PRESCAL_MASK_def PRESCALER_TABLE_def PWM_SRC_HZ_def)
  show ?thesis
    using m1(1) m2 idx assms(4) pol to_ns [of prd] to_ns [of dty] assms(7,8) prd_duty_unpack [OF assms(6-8)]
    by (simp add: get_config_def assms(2) [symmetric])
qed



end
