(* ===== verification/Pwm_Duty.thy ===== *)
theory Pwm_Duty
  imports Pwm_Props "HOL-Library.Log_Nat"
begin

text \<open>
  The two calls of \<open>pwm.rs\<close> that take the duty as an \<open>f32\<close>.  A finite value is the integer
  number of units of \<open>2^-149\<close>, the least positive one, that it stands for; the results of
  the conversion and of the product are rounded to 24 bits, ties to even, as IEEE 754
  single precision does.  (The two zeros are one value here; nothing in the code tells
  them apart.)
\<close>

section \<open>Single precision\<close>

datatype f32 = Finite int | Infinite bool | NotANumber \<comment> \<open>\<open>Infinite True\<close> is negative\<close>

text \<open>\<open>n\<close> to 24 significant bits, and to a multiple of \<open>2^lo\<close> below the normal range.\<close>

definition round24 :: "nat \<Rightarrow> nat \<Rightarrow> nat" where
  "round24 lo n = (let
     k = max lo (floorlog 2 n - 24);
     q = n div 2 ^ k;
     r = n mod 2 ^ k
   in (if 2 ^ k < 2 * r \<or> (2 * r = 2 ^ k \<and> odd q) then q + 1 else q) * 2 ^ k)"

definition f32_one :: f32 where "f32_one = Finite (2 ^ 149)"

definition f32_of_u32 :: "u32 \<Rightarrow> f32" where
  "f32_of_u32 x = Finite (int (round24 0 (unat x * 2 ^ 149)))"

fun f32_less :: "f32 \<Rightarrow> f32 \<Rightarrow> bool" where
  "f32_less (Finite a) (Finite b) \<longleftrightarrow> a < b"
| "f32_less (Finite a) (Infinite neg) \<longleftrightarrow> \<not> neg"
| "f32_less (Infinite neg) (Finite b) \<longleftrightarrow> neg"
| "f32_less (Infinite n1) (Infinite n2) \<longleftrightarrow> n1 \<and> \<not> n2"
| "f32_less _ _ \<longleftrightarrow> False"

fun f32_mul :: "f32 \<Rightarrow> f32 \<Rightarrow> f32" where
  "f32_mul (Finite a) (Finite b) = (let r = int (round24 149 (nat \<bar>a * b\<bar>) div 2 ^ 149) in
     if 2 ^ 277 \<le> r then Infinite (a * b < 0) else Finite (if a * b < 0 then - r else r))"
| "f32_mul (Finite a) (Infinite neg) = (if a = 0 then NotANumber else Infinite (neg \<noteq> (a < 0)))"
| "f32_mul (Infinite neg) (Finite b) = (if b = 0 then NotANumber else Infinite (neg \<noteq> (b < 0)))"
| "f32_mul (Infinite n1) (Infinite n2) = Infinite (n1 \<noteq> n2)"
| "f32_mul _ _ = NotANumber"

text \<open>\<open>as u32\<close> cuts the fraction off and saturates; NaN is 0.\<close>

fun f32_as_u32 :: "f32 \<Rightarrow> u32" where
  "f32_as_u32 (Finite a) = (if a < 0 then 0 else word_of_nat (min (nat a div 2 ^ 149) (2 ^ 32 - 1)))"
| "f32_as_u32 (Infinite neg) = (if neg then 0 else 0xFFFFFFFF)"
| "f32_as_u32 NotANumber = 0"

section \<open>Duty\<close>

definition duty_config :: "u32 \<Rightarrow> f32 \<Rightarrow> pwm_config" where
  "duty_config period duty = \<lparr>period_ns = period, pulse_ns = f32_as_u32 (f32_mul (f32_of_u32 period) duty),
     polarity = ActiveHigh, pwm_cfg_mode = Continuous\<rparr>"

definition set_period_duty :: "pwm \<Rightarrow> u32 \<Rightarrow> f32 \<Rightarrow> mmio \<Rightarrow> (pwm_error + unit) \<times> mmio" where
  "set_period_duty p period duty m = (if f32_less duty (Finite 0) \<or> f32_less f32_one duty then (Inl InvalidDuty, m)
     else pwm_configure p (duty_config period duty) m)"

text \<open>A frequency of 0 panics, but only after the duty was found valid.\<close>

definition set_freq_duty :: "pwm \<Rightarrow> u32 \<Rightarrow> f32 \<Rightarrow> mmio \<Rightarrow> ((pwm_error + unit) \<times> mmio) option" where
  "set_freq_duty p freq_hz duty m = (if f32_less duty (Finite 0) \<or> f32_less f32_one duty then Some (Inl InvalidDuty, m)
     else do {
       assert_that (freq_hz \<noteq> 0);
       let period = ucast NSEC_PER_SEC div freq_hz;
       Some (pwm_configure p (duty_config period duty) m)
     })"

section \<open>Rounding\<close>

lemma round24_exact: "2 ^ max lo (floorlog 2 n - 24) dvd n \<Longrightarrow> round24 lo n = n"
  by (auto simp: round24_def Let_def)

text \<open>Rounding does not pass a multiple of its unit.\<close>

lemma round24_le:
  assumes "n \<le> b" "2 ^ max lo (floorlog 2 n - 24) dvd b"
  shows "round24 lo n \<le> b"
proof -
  let ?u = "2 ^ max lo (floorlog 2 n - 24) :: nat"
  obtain c where c: "b = ?u * c" using assms(2) by blast
  have n: "n div ?u * ?u + n mod ?u = n" by (rule div_mult_mod_eq)
  show ?thesis
  proof (cases "n mod ?u = 0")
    case True
    then show ?thesis using assms(1) n by (simp add: round24_def Let_def)
  next
    case False
    then have "n div ?u * ?u < ?u * c" using n assms(1) c by linarith
    then have "n div ?u < c" by (simp add: mult.commute)
    then have "(n div ?u + 1) * ?u \<le> c * ?u" by (intro mult_right_mono) simp_all
    moreover have "round24 lo n \<le> (n div ?u + 1) * ?u" by (simp add: round24_def Let_def)
    ultimately show ?thesis using c by (simp add: mult.commute)
  qed
qed

lemma f32_of_small: "unat x < 2 ^ 24 \<Longrightarrow> f32_of_u32 x = Finite (int (unat x * 2 ^ 149))"
proof -
  assume "unat x < 2 ^ 24"
  then have "unat x * 2 ^ 149 < 2 ^ 24 * 2 ^ 149" by (rule mult_strict_right_mono) simp
  then have "unat x * 2 ^ 149 < 2 ^ (24 + 149)" by (simp only: power_add)
  then have "floorlog 2 (unat x * 2 ^ 149) \<le> 24 + 149" by (intro floorlog_leI) simp_all
  then have "(2 :: nat) ^ max 0 (floorlog 2 (unat x * 2 ^ 149) - 24) dvd 2 ^ 149" by (intro le_imp_power_dvd) simp
  then show ?thesis unfolding f32_of_u32_def by (subst round24_exact) simp_all
qed

text \<open>The product of a number below \<open>2^24\<close> and a duty, in units of \<open>2^-298\<close>.\<close>

lemma product_rounds:
  fixes U X J :: nat
  assumes U: "U = 2 ^ 149" and X: "X < 2 ^ 24" and J: "J \<le> U"
  shows "round24 149 (X * U * J) div U div U \<le> X" "round24 149 (X * U * J) div U < 2 ^ 24 * U" "round24 149 (X * U * U) = X * U * U"
proof -
  have pos: "0 < U" by (simp add: U)
  have dvd: "(2 :: nat) ^ max 149 (floorlog 2 N - 24) dvd X * U * U" if "N \<le> X * U * U" for N
  proof -
    have "X * U * U < 2 ^ 24 * U * U" by (intro mult_strict_right_mono X pos)
    then have "N < 2 ^ 24 * U * U" using that by linarith
    then have "N < 2 ^ (24 + 149 + 149)" unfolding U by (simp only: power_add)
    then have "floorlog 2 N \<le> 24 + 149 + 149" by (intro floorlog_leI) simp_all
    then have "(2 :: nat) ^ max 149 (floorlog 2 N - 24) dvd 2 ^ (149 + 149)" by (intro le_imp_power_dvd) simp
    then show ?thesis unfolding U by (simp only: power_add mult.assoc dvd_mult)
  qed
  have NB: "X * U * J \<le> X * U * U" by (rule mult_le_mono2 [OF J])
  have "round24 149 (X * U * J) \<le> X * U * U" by (rule round24_le [OF NB dvd [OF NB]])
  then have r: "round24 149 (X * U * J) div U \<le> X * U" using div_le_mono [of _ "X * U * U" U] pos by fastforce
  then show "round24 149 (X * U * J) div U div U \<le> X" using div_le_mono [OF r, of U] pos by simp
  have "X * U < 2 ^ 24 * U" by (intro mult_strict_right_mono X pos)
  then show "round24 149 (X * U * J) div U < 2 ^ 24 * U" using r by linarith
  show "round24 149 (X * U * U) = X * U * U" by (rule round24_exact [OF dvd]) simp
qed

lemma scaled_pulse:
  assumes "unat x < 2 ^ 24" "0 \<le> n" "n \<le> 2 ^ 149"
  shows "f32_as_u32 (f32_mul (f32_of_u32 x) (Finite n)) = word_of_nat (round24 149 (unat x * 2 ^ 149 * nat n) div 2 ^ 149 div 2 ^ 149)"
proof -
  define U :: nat where "U = 2 ^ 149"
  have J: "nat n \<le> U" using assms(3) by (simp add: U_def nat_le_iff)
  define r where "r = round24 149 (unat x * U * nat n) div U"
  note pr = product_rounds [OF U_def assms(1) J, folded r_def]
  have e: "nat \<bar>int (unat x * U) * n\<bar> = unat x * U * nat n" using assms(2) by (simp add: abs_mult nat_mult_distrib)
  have nn: "\<not> int (unat x * U) * n < 0" using assms(2) by (simp add: not_less)
  have U': "(2 :: nat) ^ 149 = U" by (simp only: U_def)
  have "(2 :: nat) ^ 24 * U \<le> 2 ^ 277" unfolding U_def by simp
  then have "r < 2 ^ 277" using pr(2) by linarith
  then have "int r < int (2 ^ 277)" by (simp only: of_nat_less_iff)
  then have small: "\<not> (2 :: int) ^ 277 \<le> int r" by (simp only: of_nat_power of_nat_numeral not_le)
  have "f32_mul (f32_of_u32 x) (Finite n) = Finite (int r)"
    unfolding f32_of_small [OF assms(1)] f32_mul.simps U' e r_def [symmetric] Let_def using nn small by (simp only: if_False)
  moreover have "r div U \<le> 2 ^ 32 - 1" using pr(1) unat_u32 [of x] by (simp add: le_diff_conv)
  then have "f32_as_u32 (Finite (int r)) = word_of_nat (r div U)" unfolding f32_as_u32.simps U' nat_int by simp
  ultimately show ?thesis unfolding U' r_def [symmetric] by (simp only:)
qed

section \<open>Properties\<close>

text \<open>A valid duty never makes the pulse longer than the period while the period is below \<open>2^24\<close> ns
  (16.7 ms), and the full duty is the whole period; from there on the product may round
  up past the period, and the full duty is refused.\<close>

theorem set_period_duty_range:
  assumes "unat period < 2 ^ 24" "0 \<le> n" "n \<le> 2 ^ 149"
  shows "\<exists>pulse. set_period_duty p period (Finite n) m =
      pwm_configure p \<lparr>period_ns = period, pulse_ns = pulse, polarity = ActiveHigh, pwm_cfg_mode = Continuous\<rparr> m \<and>
    pulse \<le> period \<and> (n = 2 ^ 149 \<longrightarrow> pulse = period)"
proof -
  define U :: nat where "U = 2 ^ 149"
  have U': "(2 :: nat) ^ 149 = U" by (simp only: U_def)
  have J: "nat n \<le> U" using assms(3) by (simp add: U_def nat_le_iff)
  note pr = product_rounds [OF U_def assms(1) J]
  let ?pulse = "f32_as_u32 (f32_mul (f32_of_u32 period) (Finite n))"
  have p: "?pulse = word_of_nat (round24 149 (unat period * U * nat n) div U div U)" using scaled_pulse [OF assms] unfolding U' .
  have "round24 149 (unat period * U * nat n) div U div U < 2 ^ 32" using pr(1) unat_u32 [of period] by linarith
  then have u: "unat ?pulse = round24 149 (unat period * U * nat n) div U div U" unfolding p by (rule unat_of_nat_u32)
  have "?pulse \<le> period" using pr(1) by (simp only: word_le_nat_alt u)
  moreover have "?pulse = period" if "n = 2 ^ 149"
  proof -
    have "nat n = U" unfolding that U_def by (simp add: nat_power_eq)
    moreover have "0 < U" by (simp add: U_def)
    ultimately have "unat ?pulse = unat period" unfolding u using pr(3) by simp
    then show ?thesis by (simp only: word_unat_eq_iff)
  qed
  moreover have "set_period_duty p period (Finite n) m = pwm_configure p
      \<lparr>period_ns = period, pulse_ns = ?pulse, polarity = ActiveHigh, pwm_cfg_mode = Continuous\<rparr> m"
    using assms(2,3) unfolding set_period_duty_def duty_config_def f32_one_def f32_less.simps by simp
  ultimately show ?thesis by blast
qed

text \<open>Full duty at 16777219 ns.\<close>

lemma full_duty_refused: "set_period_duty p 16777219 f32_one m = (Inl PulseExceedsPeriod, m)"
proof -
  define U :: nat where "U = 2 ^ 149"
  have U: "(2 :: nat) ^ 149 = U" "0 < U" by (simp_all add: U_def)
  have fl: "floorlog 2 16777219 = 25" "floorlog 2 16777220 = 25" by (rule antisym; simp add: floorlog_leI floorlog_geI)+
  have pw: "floorlog 2 (a * 2 ^ 149) = floorlog 2 a + 149" if "0 < a" for a by (rule floorlog_power) (use that in simp_all)
  have f1: "floorlog 2 (16777219 * 2 ^ 149) = 174" using pw [of 16777219] fl(1) by (simp only: zero_less_numeral simp_thms)
  have f2: "floorlog 2 (16777220 * 2 ^ 149 * 2 ^ 149) = 323" using pw [of "16777220 * 2 ^ 149"] pw [of 16777220] fl(2) U
    by (simp only: zero_less_numeral simp_thms)
  have "round24 0 (16777219 * 2 ^ 149) = 16777220 * 2 ^ 149" unfolding round24_def f1 Let_def by simp
  then have p: "f32_of_u32 16777219 = Finite (int (16777220 * U))" by (simp add: f32_of_u32_def U_def)
  have "round24 149 (16777220 * 2 ^ 149 * 2 ^ 149) = 16777220 * 2 ^ 149 * 2 ^ 149"
    by (rule round24_exact, unfold f2) (simp add: dvd_def)
  then have r: "round24 149 (16777220 * U * U) = 16777220 * U * U" unfolding U_def .
  have "nat \<bar>int (16777220 * U) * 2 ^ 149\<bar> = 16777220 * U * U" by (simp add: U_def)
  then have "f32_mul (f32_of_u32 16777219) f32_one = Finite (int (16777220 * U))"
    unfolding p f32_one_def f32_mul.simps Let_def U(1) by (simp add: r U(2)) (simp add: U_def)
  then have "f32_as_u32 (f32_mul (f32_of_u32 16777219) f32_one) = 16777220" using U by (simp add: U_def)
  then show ?thesis by (simp add: set_period_duty_def duty_config_def pwm_configure_def f32_one_def)
qed

end
