(* ===== verification/Boot.thy ===== *)
theory Boot
  imports Dram Gpio
begin

text \<open>
  The hardware part of \<open>cpu.rs\<close>: the watchdog, the UART of the secondary program loader, the
  low-level initialisation and the copy of the firmware image from the SPI flash to the
  DRAM.  All of it is volatile accesses, so the image in the DRAM is read off the trace.  A
  loop that ends only when the hardware answers is an option, None when it never does.
\<close>

section \<open>Watchdog\<close>

definition disable_watchdog :: "mmio \<Rightarrow> mmio" where
  "disable_watchdog m = wr32 0x01C20CB8 0 m"

partial_function (option) spin_forever :: "mmio \<Rightarrow> mmio option" where
  "spin_forever m = spin_forever m"

definition reset_request :: "mmio \<Rightarrow> mmio" where
  "reset_request m = (let
     (val, m) = rd32 (0x01C20CA0 + 0x18) m;
     val = val AND NOT (push_bit 4 0xF);
     val = val OR (bitm 4 OR bitm 0);
     m = wr32 (0x01C20CA0 + 0x18) val m
   in wr32 (0x01C20CA0 + 0x10) (push_bit 1 0xA57 OR bitm 0) m)"

definition cpu_reset :: "mmio \<Rightarrow> mmio option" where
  "cpu_reset m = spin_forever (reset_request m)"

section \<open>The UART of the loader\<close>

definition spl_rmw :: "u32 \<Rightarrow> u32 \<Rightarrow> u32 \<Rightarrow> mmio \<Rightarrow> mmio" where
  "spl_rmw addr clear st m = rmw32 addr (\<lambda>v. (v AND NOT clear) OR st) m"

definition spl_uart2_init :: "mmio \<Rightarrow> mmio" where
  "spl_uart2_init m = (let
     m = spl_rmw 0x01C20890 (push_bit 28 0xF) (push_bit 28 0x3) m;
     m = spl_rmw 0x01C20894 0xF 0x3 m;
     m = spl_rmw 0x01C20068 0 (bitm 22) m;
     m = spl_rmw 0x01C202D0 0 (bitm 22) m;
     uart = 0x01C25800;
     m = wr32 (uart + 4) 0 m;
     m = wr32 (uart + 8) 0x07 m;
     m = wr32 (uart + 16) 0 m;
     m = wr32 (uart + 12) 0x80 m;
     dv = 54;
     m = wr32 uart (dv AND 0xFF) m;
     m = wr32 (uart + 4) (drop_bit 8 dv) m
   in wr32 (uart + 12) 0x03 m)"

definition spl_putc :: "u8 \<Rightarrow> mmio \<Rightarrow> mmio option" where
  "spl_putc c m = do {
     m \<leftarrow> poll32 (0x01C25800 + 0x7C) (\<lambda>v. v AND 0x2 \<noteq> 0) m;
     let m = wr32 0x01C25800 (ucast c) m;
     poll32 (0x01C25800 + 0x7C) (\<lambda>v. v AND 0x4 \<noteq> 0) m
   }"

section \<open>Low-level initialisation\<close>

text \<open>The report of a failed DRAM initialisation; the delay between two characters touches no
  memory.\<close>

partial_function (option) spam_failure :: "mmio \<Rightarrow> mmio option" where
  "spam_failure m = do { m \<leftarrow> spl_putc 0x45 m; spam_failure m }"

definition low_level_init :: "mmio \<Rightarrow> mmio option" where
  "low_level_init m = do {
     let m = clock_init_default m;
     let m = spl_uart2_init m;
     let (ok, m) = dram_init m;
     m \<leftarrow> (if \<not> ok then spam_failure m else Some m);
     Some (gpio_init_default m)
   }"

section \<open>Copy from the SPI flash\<close>

definition copy_SPI0_BASE :: u32 where "copy_SPI0_BASE = 0x01C05000"
definition copy_GCR :: u32 where "copy_GCR = 0x04"
definition copy_TCR :: u32 where "copy_TCR = 0x08"
definition copy_FCR :: u32 where "copy_FCR = 0x18"
definition copy_FSR :: u32 where "copy_FSR = 0x1C"
definition copy_CCR :: u32 where "copy_CCR = 0x24"
definition copy_MBC :: u32 where "copy_MBC = 0x30"
definition copy_MTC :: u32 where "copy_MTC = 0x34"
definition copy_BCC :: u32 where "copy_BCC = 0x38"
definition copy_TXD :: u32 where "copy_TXD = 0x200"
definition copy_RXD :: u32 where "copy_RXD = 0x300"
definition COPY_CHUNK :: u32 where "COPY_CHUNK = 64"

lemmas copy_regs = copy_SPI0_BASE_def copy_GCR_def copy_TCR_def copy_FCR_def copy_FSR_def copy_CCR_def
  copy_MBC_def copy_MTC_def copy_BCC_def copy_TXD_def copy_RXD_def

abbreviation at_spi :: "u32 \<Rightarrow> u32" where "at_spi off \<equiv> copy_SPI0_BASE + off"

text \<open>Steps 1 to 6 of the source: pins, gate and reset, clock, controller, mode, FIFOs.\<close>

definition copy_pins :: "mmio \<Rightarrow> mmio" where
  "copy_pins m = fold (\<lambda>pin m. let (v, m) = rd32 0x01C20848 m
     in wr32 0x01C20848 ((v AND NOT (push_bit (pin * 4) 0xF)) OR push_bit (pin * 4) 2) m) [0, 1, 2, 3] m"

definition copy_setup :: "mmio \<Rightarrow> mmio option" where
  "copy_setup m = do {
     let m = copy_pins m;
     let m = rmw32 0x01C202C0 (\<lambda>v. v OR bitm 20) m;
     let m = rmw32 0x01C20060 (\<lambda>v. v OR bitm 20) m;
     let m = wr32 (at_spi copy_CCR) (bitm 12 OR 3) m;
     let (gcr, m) = rd32 (at_spi copy_GCR) m;
     let m = wr32 (at_spi copy_GCR) (gcr OR (bitm 31 OR bitm 7 OR bitm 1 OR bitm 0)) m;
     m \<leftarrow> poll32 (at_spi copy_GCR) (\<lambda>v. v AND bitm 31 = 0) m;
     let (tcr, m) = rd32 (at_spi copy_TCR) m;
     let m = wr32 (at_spi copy_TCR) ((tcr AND NOT 0x3) OR (bitm 6 OR bitm 2)) m;
     Some (wr32 (at_spi copy_FCR) (bitm 31 OR bitm 15) m)
   }"

text \<open>A burst of \<open>n\<close> bytes: the counters, the bytes to send, the exchange and the two waits.
  The command phase and the data phase of the source contain the same statements.\<close>

definition copy_exchange :: "u32 \<Rightarrow> u8 list \<Rightarrow> mmio \<Rightarrow> mmio option" where
  "copy_exchange n bs m = do {
     let m = wr32 (at_spi copy_MBC) n m;
     let m = wr32 (at_spi copy_MTC) n m;
     let m = wr32 (at_spi copy_BCC) n m;
     let m = fold (wr8 (at_spi copy_TXD)) bs m;
     let m = rmw32 (at_spi copy_TCR) (\<lambda>v. v OR bitm 31) m;
     m \<leftarrow> poll32 (at_spi copy_TCR) (\<lambda>v. v AND bitm 31 = 0) m;
     poll32 (at_spi copy_FSR) (\<lambda>v. \<not> v AND 0xFF < n) m
   }"

definition copy_command :: "mmio \<Rightarrow> mmio option" where
  "copy_command m = do {
     m \<leftarrow> copy_exchange 4 [0x03, 0, 0, 0] m;
     Some (((\<lambda>m. snd (rd8 (at_spi copy_RXD) m)) ^^ 4) m)
   }"

text \<open>\<open>for i in 0..n\<close>, by the address \<open>dst + off + i\<close>.\<close>

fun store_rx :: "u32 \<Rightarrow> nat \<Rightarrow> mmio \<Rightarrow> mmio" where
  "store_rx a 0 m = m"
| "store_rx a (Suc n) m = (let (byte, m) = rd8 (at_spi copy_RXD) m in store_rx (a + 1) n (wr8 a byte m))"

definition copy_chunk :: "u32 \<Rightarrow> u32 \<Rightarrow> mmio \<Rightarrow> mmio option" where
  "copy_chunk a n m = do {
     m \<leftarrow> copy_exchange n (replicate (unat n) 0xFF) m;
     Some (store_rx a (unat n) m)
   }"

partial_function (option) copy_loop :: "u32 \<Rightarrow> u32 \<Rightarrow> u32 \<Rightarrow> mmio \<Rightarrow> mmio option" where
  "copy_loop dst image_size off m =
     (if off < image_size then
        (let remaining = image_size - off;
             n = (if remaining < COPY_CHUNK then remaining else COPY_CHUNK)
         in do { m \<leftarrow> copy_chunk (dst + off) n m; copy_loop dst image_size (off + n) m })
      else Some m)"

text \<open>The linker symbols \<open>__image_start\<close> and \<open>__image_end\<close> are arguments.\<close>

definition sys_copyself :: "u32 \<Rightarrow> u32 \<Rightarrow> mmio \<Rightarrow> mmio option" where
  "sys_copyself image_start image_end m = do {
     m \<leftarrow> copy_setup m;
     let dst = image_start;
     let image_size = image_end - dst;
     let m = rmw32 (at_spi copy_TCR) (\<lambda>v. v AND NOT (push_bit 4 0x3 OR bitm 7)) m;
     m \<leftarrow> copy_command m;
     m \<leftarrow> copy_loop dst image_size 0 m;
     let m = rmw32 (at_spi copy_TCR) (\<lambda>v. (v AND NOT (push_bit 4 0x3 OR bitm 7)) OR bitm 7) m;
     Some (rmw32 (at_spi copy_GCR) (\<lambda>v. v AND NOT (bitm 1 OR bitm 0)) m)
   }"

section \<open>Loops that never end\<close>

lemma spin_forever_never: "spin_forever m = None"
proof (cases "spin_forever m")
  case (Some y)
  have False by (rule spin_forever.raw_induct [OF _ Some, of "\<lambda>_ _. False"])
  then show ?thesis ..
qed

lemma spam_failure_never: "spam_failure m = None"
proof (cases "spam_failure m")
  case (Some y)
  have False
  proof (rule spam_failure.raw_induct [OF _ Some, of "\<lambda>_ _. False"])
    fix spam m y
    assume "\<And>m y. spam m = Some y \<Longrightarrow> False" and "do { m \<leftarrow> spl_putc 0x45 m; spam m } = Some (y :: mmio)"
    then show False by (cases "spl_putc 0x45 m") auto
  qed
  then show ?thesis ..
qed

end
