(* ===== verification/Boot_Props.thy ===== *)
theory Boot_Props
  imports Boot Spi_Flash_Props
begin

text \<open>
  Properties of the boot code.  The copy of the image is shown over the same SPI controller
  and the same NOR chip as the flash driver: what is in the memory at the end is read off
  the byte writes of the trace.
\<close>

section \<open>The bytes in memory\<close>

fun byte_at :: "access list \<Rightarrow> u32 \<Rightarrow> u8 option" where
  "byte_at [] a = None"
| "byte_at (Wr8 b v # tr) a = (if a = b then Some v else byte_at tr a)"
| "byte_at (_ # tr) a = byte_at tr a"

text \<open>The contents away from the data register of the controller.\<close>

definition memory_is :: "mmio \<Rightarrow> (u32 \<Rightarrow> u8 option) \<Rightarrow> bool" where
  "memory_is m B \<longleftrightarrow> (\<forall>a. a \<noteq> at_spi copy_TXD \<longrightarrow> byte_at (trace m) a = B a)"

fun with_bytes :: "u32 \<Rightarrow> u8 list \<Rightarrow> (u32 \<Rightarrow> u8 option) \<Rightarrow> u32 \<Rightarrow> u8 option" where
  "with_bytes a [] B = B"
| "with_bytes a (b # bs) B = with_bytes (a + 1) bs (B(a := Some b))"

lemma with_bytes_append: "with_bytes a (xs @ ys) B = with_bytes (a + word_of_nat (length xs)) ys (with_bytes a xs B)"
  by (induction xs arbitrary: a B) (simp_all add: algebra_simps)

lemma of_nat_u32_eq: "i < 2 ^ 32 \<Longrightarrow> j < 2 ^ 32 \<Longrightarrow> (word_of_nat i :: u32) = word_of_nat j \<longleftrightarrow> i = j"
  by (metis unat_of_nat_u32)

lemma with_bytes_outside:
  "(\<And>i. i < length bs \<Longrightarrow> x \<noteq> a + word_of_nat i) \<Longrightarrow> with_bytes a bs B x = B x"
proof (induction bs arbitrary: a B)
  case (Cons b bs)
  have "with_bytes (a + 1) bs (B(a := Some b)) x = (B(a := Some b)) x"
    by (rule Cons.IH) (use Cons.prems [of "Suc i" for i] in \<open>auto simp: algebra_simps\<close>)
  then show ?case using Cons.prems [of 0] by auto
qed simp

lemma with_bytes_inside:
  "i < length bs \<Longrightarrow> length bs \<le> 2 ^ 32 \<Longrightarrow> with_bytes a bs B (a + word_of_nat i) = Some (bs ! i)"
proof (induction bs arbitrary: a B i)
  case (Cons b bs)
  show ?case
  proof (cases i)
    case 0
    have "a + word_of_nat 0 \<noteq> (a + 1) + word_of_nat j" if "j < length bs" for j
      using of_nat_u32_eq [of 0 "Suc j"] that Cons.prems by (auto simp: algebra_simps)
    then show ?thesis using with_bytes_outside [of bs a "a + 1" "B(a := Some b)"] 0 by simp
  next
    case (Suc j)
    then show ?thesis using Cons.IH [of j "a + 1"] Cons.prems by (simp add: algebra_simps)
  qed
qed simp

section \<open>One access\<close>

lemma copy_names:
  "copy_SPI0_BASE = SPI0_BASE" "copy_TCR = sp_TCTRL" "copy_TXD = sp_TXD" "copy_RXD = sp_RXD"
  "copy_FSR = sp_FST" "copy_GCR = sp_CTRL" "bitm 31 = tctrl_XCH" "bitm 7 = tctrl_SS_LEVEL"
  by (simp_all add: copy_regs SPI0_BASE_def spi_offsets tctrl_XCH_def tctrl_SS_LEVEL_def)

text \<open>The wire and the memory together.\<close>

definition copying :: "spi_slave \<Rightarrow> u8 list list \<Rightarrow> bool \<Rightarrow> u8 list \<Rightarrow> nat \<Rightarrow> (u32 \<Rightarrow> u8 option) \<Rightarrow> mmio \<Rightarrow> bool" where
  "copying slave fin low cur k B m \<longleftrightarrow> wire_state SPI0_BASE slave m fin low cur k \<and> memory_is m B"

lemma memory_accesses:
  "memory_is m B \<Longrightarrow> memory_is (snd (rd32 a m)) B" "memory_is m B \<Longrightarrow> memory_is (wr32 a v m) B"
  "memory_is m B \<Longrightarrow> memory_is (snd (rd8 a m)) B" "memory_is m B \<Longrightarrow> memory_is (wr8 (at_spi copy_TXD) b m) B"
  by (auto simp: memory_is_def rd32_def wr32_def rd8_def wr8_def Let_def)

lemma copying_rd32: "copying slave fin low cur k B m \<Longrightarrow> copying slave fin low cur k B (snd (rd32 a m))"
  by (simp add: copying_def wire_rd32 memory_accesses)

lemma copying_wr32: "copying slave fin low cur k B m \<Longrightarrow> a \<noteq> at_spi copy_TCR \<Longrightarrow> copying slave fin low cur k B (wr32 a v m)"
  by (simp add: copying_def wire_wr32 memory_accesses copy_names)

lemma copying_rmw: "copying slave fin low cur k B m \<Longrightarrow> a \<noteq> at_spi copy_TCR \<Longrightarrow> copying slave fin low cur k B (rmw32 a f m)"
  using copying_wr32 [OF copying_rd32, of slave fin low cur k B m a] by (simp add: rmw32_def split_beta)

lemma copying_tctrl:
  assumes "copying slave fin low cur k B m" "\<And>v. f v AND tctrl_SS_LEVEL = v AND tctrl_SS_LEVEL"
  shows "copying slave fin low cur k B (rmw32 (at_spi copy_TCR) f m)"
proof -
  let ?v = "fst (rd32 (SPI0_BASE + sp_TCTRL) m)"
  have w: "wire_state SPI0_BASE slave m fin low cur k" using assms(1) by (simp add: copying_def)
  have "(f ?v AND tctrl_SS_LEVEL = 0) = low" using wire_tctrl [OF w] assms(2) by simp
  from wire_tctrl_keep [OF wire_rd32 [OF w] this] show ?thesis
    using assms(1) by (simp add: copying_def rmw32_def split_beta copy_names memory_accesses)
qed

lemma copying_tx: "copying slave fin low cur k B m \<Longrightarrow> copying slave fin low (cur @ [b]) k B (wr8 (at_spi copy_TXD) b m)"
  using wire_tx [of SPI0_BASE slave m fin low cur k b] memory_accesses(4) [of m B b]
  by (simp add: copying_def copy_names)

lemma copying_send: "copying slave fin low cur k B m \<Longrightarrow>
    copying slave fin low (cur @ bs) k B (fold (wr8 (at_spi copy_TXD)) bs m)"
proof (induction bs arbitrary: cur m)
  case (Cons b bs)
  from Cons.IH [OF copying_tx [OF Cons.prems, of b]] show ?case by simp
qed simp

lemma copying_rx: "copying slave fin low cur k B m \<Longrightarrow> k < length cur \<Longrightarrow>
    fst (rd8 (at_spi copy_RXD) m) = slave fin (take k cur) \<and> copying slave fin low cur (Suc k) B (snd (rd8 (at_spi copy_RXD) m))"
  using wire_rx [of SPI0_BASE slave m fin low cur k] by (simp add: copying_def copy_names memory_accesses)

lemma copying_store: "copying slave fin low cur k B m \<Longrightarrow> a \<noteq> at_spi copy_TXD \<Longrightarrow>
    copying slave fin low cur k (B(a := Some b)) (wr8 a b m)"
  by (auto simp: copying_def wire_state_def memory_is_def wr8_def copy_names cong: controller_cong)

section \<open>Bursts\<close>

lemma copying_discard: "copying slave fin low cur k B m \<Longrightarrow> k + n \<le> length cur \<Longrightarrow>
    copying slave fin low cur (k + n) B (((\<lambda>m. snd (rd8 (at_spi copy_RXD) m)) ^^ n) m)"
proof (induction n)
  case (Suc n)
  then have "copying slave fin low cur (k + n) B (((\<lambda>m. snd (rd8 (at_spi copy_RXD) m)) ^^ n) m)" by simp
  from copying_rx [OF this] Suc.prems(2) show ?case by simp
qed simp

lemma copying_drain:
  assumes "\<And>i. i < n \<Longrightarrow> a + word_of_nat i \<noteq> at_spi copy_TXD"
  shows "copying slave fin low cur k B m \<Longrightarrow> k + n \<le> length cur \<Longrightarrow>
    copying slave fin low cur (k + n) (with_bytes a (map (\<lambda>i. slave fin (take i cur)) [k..<k + n]) B) (store_rx a n m)"
  using assms
proof (induction n arbitrary: a k B m)
  case (Suc n)
  have r: "fst (rd8 (at_spi copy_RXD) m) = slave fin (take k cur)" "copying slave fin low cur (Suc k) B (snd (rd8 (at_spi copy_RXD) m))"
    using copying_rx [OF Suc.prems(1)] Suc.prems(2) by simp_all
  have "a \<noteq> at_spi copy_TXD" using Suc.prems(3) [of 0] by simp
  note c = copying_store [OF r(2) this, of "slave fin (take k cur)"]
  let ?B = "B(a := Some (slave fin (take k cur)))"
  have "(a + 1) + word_of_nat i \<noteq> at_spi copy_TXD" if "i < n" for i
    using Suc.prems(3) [of "Suc i"] that by (simp add: algebra_simps)
  from Suc.IH [of "Suc k" ?B _ "a + 1", OF c _ this] Suc.prems(2) have
    "copying slave fin low cur (k + Suc n) (with_bytes (a + 1) (map (\<lambda>i. slave fin (take i cur)) [Suc k..<k + Suc n]) ?B)
      (store_rx (a + 1) n (wr8 a (slave fin (take k cur)) (snd (rd8 (at_spi copy_RXD) m))))"
    by (simp only: add_Suc_right add_Suc)
  then show ?case using r(1) by (simp add: split_beta upt_conv_Cons del: upt_Suc fun_upd_apply)
qed simp

lemma fifo_filled:
  assumes "copying slave fin low cur k B m" "length cur = k + n" "n \<le> 64"
  shows "\<not> fst (rd32 (at_spi copy_FSR) m) AND 0xFF < word_of_nat n"
proof -
  let ?v = "fst (rd32 (SPI0_BASE + sp_FST) m)"
  have "wire_state SPI0_BASE slave m fin low cur k" using assms(1) by (simp add: copying_def)
  from rx_count_wire [OF this assms(2)] assms(3) have "\<not> rx_count_of ?v < word_of_nat n" by (simp add: FIFO_SIZE_def)
  moreover have "rx_count_of ?v = ucast (?v AND 0xFF)"
    by (simp add: rx_count_of_def get_field_def RF_CNT_SHIFT_def RF_CNT_MASK_def)
  moreover have "unat (ucast (?v AND 0xFF) :: u8) = unat (?v AND 0xFF)"
    using unat_byte [of ?v] take_bit_eq_mask [of 8 ?v] unsigned_take_bit_eq [of 8 ?v, where 'a = nat]
    by (simp add: mask_eq_exp_minus_1 take_bit_eq_mod)
  moreover have "unat (word_of_nat n :: u8) = n" "unat (word_of_nat n :: u32) = n"
    using assms(3) by (simp_all add: unsigned_of_nat take_bit_nat_eq_self)
  ultimately show ?thesis by (simp add: word_less_nat_alt copy_names)
qed

lemma spi_regs_differ:
  "at_spi copy_MBC \<noteq> at_spi copy_TCR" "at_spi copy_MTC \<noteq> at_spi copy_TCR" "at_spi copy_BCC \<noteq> at_spi copy_TCR"
  "at_spi copy_CCR \<noteq> at_spi copy_TCR" "at_spi copy_GCR \<noteq> at_spi copy_TCR" "at_spi copy_FCR \<noteq> at_spi copy_TCR"
  "0x01C20848 \<noteq> at_spi copy_TCR" "0x01C202C0 \<noteq> at_spi copy_TCR" "0x01C20060 \<noteq> at_spi copy_TCR"
  by (simp_all add: copy_regs)

lemma xch_keeps_level: "(v OR bitm 31) AND tctrl_SS_LEVEL = v AND tctrl_SS_LEVEL"
  by (rule bit_word_eqI) (auto simp: bit_simps tctrl_SS_LEVEL_def)

lemma copy_exchange_wire:
  assumes "copying slave fin True cur (length cur) B m" "length bs \<le> 64"
  obtains m' where "copy_exchange (word_of_nat (length bs)) bs m = Some m'"
    "copying slave fin True (cur @ bs) (length cur) B m'"
proof -
  let ?n = "word_of_nat (length bs)"
  define m1 where "m1 = fold (wr8 (at_spi copy_TXD)) bs
    (wr32 (at_spi copy_BCC) ?n (wr32 (at_spi copy_MTC) ?n (wr32 (at_spi copy_MBC) ?n m)))"
  have c1: "copying slave fin True (cur @ bs) (length cur) B m1"
    unfolding m1_def by (intro copying_send copying_wr32 assms(1) spi_regs_differ)
  define m2 where "m2 = rmw32 (at_spi copy_TCR) (\<lambda>v. v OR bitm 31) m1"
  have c2: "copying slave fin True (cur @ bs) (length cur) B m2"
    unfolding m2_def by (rule copying_tctrl [OF c1 xch_keeps_level])
  have w2: "wire_state SPI0_BASE slave m2 fin True (cur @ bs) (length cur)" using c2 by (simp add: copying_def)
  define m3 where "m3 = snd (rd32 (at_spi copy_TCR) m2)"
  have p3: "poll32 (at_spi copy_TCR) (\<lambda>v. v AND bitm 31 = 0) m2 = Some m3"
    unfolding m3_def by (rule poll32_first) (use wire_tctrl [OF w2] in \<open>simp add: copy_names\<close>)
  have c3: "copying slave fin True (cur @ bs) (length cur) B m3" unfolding m3_def by (rule copying_rd32 [OF c2])
  define m4 where "m4 = snd (rd32 (at_spi copy_FSR) m3)"
  have p4: "poll32 (at_spi copy_FSR) (\<lambda>v. \<not> v AND 0xFF < ?n) m3 = Some m4"
    unfolding m4_def by (rule poll32_first) (rule fifo_filled [OF c3 _ assms(2)], simp)
  have "copying slave fin True (cur @ bs) (length cur) B m4" unfolding m4_def by (rule copying_rd32 [OF c3])
  moreover have "copy_exchange ?n bs m = Some m4"
    by (simp add: copy_exchange_def Let_def m1_def [symmetric] m2_def [symmetric] p3 p4)
  ultimately show thesis using that by blast
qed

lemma copy_command_wire:
  assumes "copying slave fin True [] 0 B m"
  obtains m' where "copy_command m = Some m'" "copying slave fin True [3, 0, 0, 0] 4 B m'"
proof -
  obtain m1 where m1: "copy_exchange 4 [3, 0, 0, 0] m = Some m1" "copying slave fin True [3, 0, 0, 0] 0 B m1"
    using copy_exchange_wire [of slave fin "[]" B m "[3, 0, 0, 0]"] assms by auto
  have "copying slave fin True [3, 0, 0, 0] 4 B (((\<lambda>m. snd (rd8 (at_spi copy_RXD) m)) ^^ 4) m1)"
    using copying_discard [OF m1(2), of 4] by simp
  then show thesis using that m1(1) by (simp add: copy_command_def)
qed

lemma copy_chunk_wire:
  assumes "copying slave fin True cur (length cur) B m" "n \<le> 64"
    "\<And>i. i < n \<Longrightarrow> a + word_of_nat i \<noteq> at_spi copy_TXD"
  obtains m' where "copy_chunk a (word_of_nat n) m = Some m'"
    "copying slave fin True (cur @ replicate n 0xFF) (length cur + n)
       (with_bytes a (map (\<lambda>i. slave fin (cur @ replicate i 0xFF)) [0..<n]) B) m'"
proof -
  let ?cur = "cur @ replicate n 0xFF"
  have u: "unat (word_of_nat n :: u32) = n" using assms(2) by (simp add: unat_of_nat_u32)
  obtain m1 where m1: "copy_exchange (word_of_nat n) (replicate n 0xFF) m = Some m1"
    "copying slave fin True ?cur (length cur) B m1"
    using copy_exchange_wire [OF assms(1), of "replicate n 0xFF"] assms(2) by auto
  have "map (\<lambda>i. slave fin (take i ?cur)) [length cur..<length cur + n] = map (\<lambda>i. slave fin (cur @ replicate i 0xFF)) [0..<n]"
    by (rule nth_equalityI) (simp_all add: min_def)
  note e = this
  have "length cur + n \<le> length ?cur" by simp
  from copying_drain [OF assms(3) m1(2) this, unfolded e] have "copying slave fin True ?cur (length cur + n)
      (with_bytes a (map (\<lambda>i. slave fin (cur @ replicate i 0xFF)) [0..<n]) B) (store_rx a n m1)" .
  then show thesis using that m1(1) u by (simp add: copy_chunk_def)
qed

section \<open>The loop\<close>

lemma chunk_words:
  assumes "off < sz"
  shows "(if sz - off < COPY_CHUNK then sz - off else COPY_CHUNK) = word_of_nat (min (unat sz - unat off) 64)"
    and "unat (off + word_of_nat (min (unat sz - unat off) 64)) = unat off + min (unat sz - unat off) 64"
proof -
  have o: "unat off < unat sz" using assms by (simp add: word_less_nat_alt)
  have r: "unat (sz - off) = unat sz - unat off" using assms by (simp add: unat_minus_u32)
  show "(if sz - off < COPY_CHUNK then sz - off else COPY_CHUNK) = word_of_nat (min (unat sz - unat off) 64)"
  proof (cases "sz - off < COPY_CHUNK")
    case True
    then have "unat (sz - off) < 64" by (simp add: COPY_CHUNK_def word_less_nat_alt)
    then have "min (unat sz - unat off) 64 = unat (sz - off)" using r by simp
    then show ?thesis using True by simp
  next
    case False
    then have "64 \<le> unat (sz - off)" by (simp add: COPY_CHUNK_def word_less_nat_alt)
    then show ?thesis using r False by (simp add: COPY_CHUNK_def)
  qed
  have "unat (word_of_nat (min (unat sz - unat off) 64) :: u32) = min (unat sz - unat off) 64"
    by (simp add: unat_of_nat_u32)
  then show "unat (off + word_of_nat (min (unat sz - unat off) 64)) = unat off + min (unat sz - unat off) 64"
    using o unat_u32 [of sz] by (subst unat_plus_u32) simp_all
qed

lemma copy_loop_wire:
  assumes "copying slave fin True (cmd @ replicate (unat off) 0xFF) (length cmd + unat off)
      (with_bytes dst (map (\<lambda>i. slave fin (cmd @ replicate i 0xFF)) [0..<unat off]) B) m"
    and "off \<le> sz" "\<And>i. i < unat sz \<Longrightarrow> dst + word_of_nat i \<noteq> at_spi copy_TXD"
  shows "\<exists>m'. copy_loop dst sz off m = Some m' \<and> copying slave fin True (cmd @ replicate (unat sz) 0xFF) (length cmd + unat sz)
      (with_bytes dst (map (\<lambda>i. slave fin (cmd @ replicate i 0xFF)) [0..<unat sz]) B) m'"
  using assms(1,2)
proof (induction "unat sz - unat off" arbitrary: off m rule: less_induct)
  case less
  let ?g = "\<lambda>i. slave fin (cmd @ replicate i 0xFF)"
  show ?case
  proof (cases "off < sz")
    case False
    then have "off = sz" using less.prems(2) by simp
    then show ?thesis using less.prems(1) by (subst copy_loop.simps) simp
  next
    case True
    define n where "n = min (unat sz - unat off) 64"
    have o: "unat off < unat sz" using True by (simp add: word_less_nat_alt)
    have off: "dst + off = dst + word_of_nat (unat off)" by simp
    have free: "dst + off + word_of_nat i \<noteq> at_spi copy_TXD" if "i < n" for i
    proof -
      have "unat off + i < unat sz" using that by (auto simp: n_def)
      from assms(3) [OF this] show ?thesis by (simp add: algebra_simps)
    qed
    note n = chunk_words(1) [OF True, folded n_def] and u = chunk_words(2) [OF True, folded n_def]
    have n64: "n \<le> 64" by (simp add: n_def)
    have "copying slave fin True (cmd @ replicate (unat off) 0xFF) (length (cmd @ replicate (unat off) (0xFF :: u8)))
        (with_bytes dst (map ?g [0..<unat off]) B) m" using less.prems(1) by simp
    from copy_chunk_wire [OF this n64 free] obtain m1 where m1: "copy_chunk (dst + off) (word_of_nat n) m = Some m1"
      "copying slave fin True ((cmd @ replicate (unat off) 0xFF) @ replicate n 0xFF)
        (length (cmd @ replicate (unat off) (0xFF :: u8)) + n)
        (with_bytes (dst + off) (map (\<lambda>i. slave fin ((cmd @ replicate (unat off) 0xFF) @ replicate i 0xFF)) [0..<n])
          (with_bytes dst (map ?g [0..<unat off]) B)) m1" by blast
    have g: "map ?g [0..<unat off + n] = map ?g [0..<unat off] @ map (\<lambda>i. slave fin ((cmd @ replicate (unat off) 0xFF) @ replicate i 0xFF)) [0..<n]"
      by (rule nth_equalityI) (auto simp: nth_append replicate_add [symmetric])
    have "copying slave fin True (cmd @ replicate (unat (off + word_of_nat n)) 0xFF) (length cmd + unat (off + word_of_nat n))
        (with_bytes dst (map ?g [0..<unat (off + word_of_nat n)]) B) m1"
      using m1(2) unfolding u g with_bytes_append by (simp add: replicate_add add.assoc)
    moreover have "unat sz - unat (off + word_of_nat n) < unat sz - unat off" "off + word_of_nat n \<le> sz"
      using o u n_def by (auto simp: word_le_nat_alt min_def)
    ultimately show ?thesis using less.hyps True m1(1)
      by (subst copy_loop.simps) (simp add: n Let_def)
  qed
qed

section \<open>The whole copy\<close>

text \<open>The reset bit of the controller clears itself.\<close>

definition reset_clears :: "mmio \<Rightarrow> bool" where
  "reset_clears m \<longleftrightarrow> (\<forall>tr. device32 m tr (SPI0_BASE + sp_CTRL) AND ctrl_RST = 0)"

lemma reset_clears_step:
  "reset_clears (snd (rd32 a m)) = reset_clears m" "reset_clears (wr32 a v m) = reset_clears m"
  "reset_clears (rmw32 a f m) = reset_clears m"
  by (simp_all add: reset_clears_def rd32_def wr32_def rmw32_def Let_def)

lemma copying_pins: "copying slave fin low cur k B m \<Longrightarrow> copying slave fin low cur k B (copy_pins m)"
  by (simp add: copy_pins_def split_beta copying_rd32 copying_wr32 spi_regs_differ)

lemma reset_clears_pins: "reset_clears (copy_pins m) = reset_clears m"
  by (simp add: copy_pins_def split_beta reset_clears_step)

lemma mode_keeps_level: "((v AND NOT 0x3) OR (bitm 6 OR bitm 2)) AND tctrl_SS_LEVEL = v AND tctrl_SS_LEVEL"
  by (rule bit_word_eqI) (auto simp: bit_simps tctrl_SS_LEVEL_def)

lemma copy_setup_wire:
  assumes "copying slave fin low cur k B m" "reset_clears m"
  obtains m' where "copy_setup m = Some m'" "copying slave fin low cur k B m'"
proof -
  define m1 where "m1 = wr32 (at_spi copy_CCR) (bitm 12 OR 3) (rmw32 0x01C20060 (\<lambda>v. v OR bitm 20)
    (rmw32 0x01C202C0 (\<lambda>v. v OR bitm 20) (copy_pins m)))"
  define m2 where "m2 = rmw32 (at_spi copy_GCR) (\<lambda>v. v OR (bitm 31 OR bitm 7 OR bitm 1 OR bitm 0)) m1"
  have c2: "copying slave fin low cur k B m2"
    unfolding m2_def m1_def by (intro copying_rmw copying_wr32 copying_pins assms(1) spi_regs_differ)
  have "reset_clears m2" unfolding m2_def m1_def reset_clears_step reset_clears_pins by (rule assms(2))
  then have p: "poll32 (at_spi copy_GCR) (\<lambda>v. v AND bitm 31 = 0) m2 = Some (snd (rd32 (at_spi copy_GCR) m2))"
    by (intro poll32_first) (simp add: reset_clears_def rd32_def Let_def ctrl_RST_def copy_SPI0_BASE_def SPI0_BASE_def copy_GCR_def sp_CTRL_def)
  define m3 where "m3 = wr32 (at_spi copy_FCR) (bitm 31 OR bitm 15) (rmw32 (at_spi copy_TCR)
    (\<lambda>v. (v AND NOT 0x3) OR (bitm 6 OR bitm 2)) (snd (rd32 (at_spi copy_GCR) m2)))"
  have "copying slave fin low cur k B m3"
    unfolding m3_def by (intro copying_wr32 copying_tctrl copying_rd32 c2 mode_keeps_level spi_regs_differ)
  moreover have "copy_setup m = Some m3"
    using p by (simp add: copy_setup_def m3_def m2_def m1_def rmw32_def split_beta Let_def)
  ultimately show thesis using that by blast
qed

lemma select_levels:
  "(v AND NOT (push_bit 4 0x3 OR bitm 7)) AND tctrl_SS_LEVEL = 0"
  "((v AND NOT (push_bit 4 0x3 OR bitm 7)) OR bitm 7) AND tctrl_SS_LEVEL \<noteq> 0"
proof -
  show "(v AND NOT (push_bit 4 0x3 OR bitm 7)) AND tctrl_SS_LEVEL = 0"
    by (rule bit_word_eqI) (auto simp: bit_simps tctrl_SS_LEVEL_def)
  have "bit (((v AND NOT (push_bit 4 0x3 OR bitm 7)) OR bitm 7) AND tctrl_SS_LEVEL) 7"
    by (simp add: bit_simps tctrl_SS_LEVEL_def)
  then show "((v AND NOT (push_bit 4 0x3 OR bitm 7)) OR bitm 7) AND tctrl_SS_LEVEL \<noteq> 0" by force
qed

lemma copying_select: "copying slave fin False cur k B m \<Longrightarrow>
    copying slave fin True [] 0 B (rmw32 (at_spi copy_TCR) (\<lambda>v. v AND NOT (push_bit 4 0x3 OR bitm 7)) m)"
  using select_levels(1)
  by (auto simp: copying_def memory_is_def wire_state_def rmw32_def rd32_def wr32_def Let_def cs_falls_def cs_rises_def
      copy_SPI0_BASE_def SPI0_BASE_def copy_TCR_def sp_TCTRL_def cong: controller_cong)

lemma copying_deselect: "copying slave fin True cur k B m \<Longrightarrow> copying slave (fin @ [cur]) False cur k B
    (rmw32 (at_spi copy_TCR) (\<lambda>v. (v AND NOT (push_bit 4 0x3 OR bitm 7)) OR bitm 7) m)"
  using select_levels(2)
  by (auto simp: copying_def memory_is_def wire_state_def rmw32_def rd32_def wr32_def Let_def cs_falls_def cs_rises_def
      copy_SPI0_BASE_def SPI0_BASE_def copy_TCR_def sp_TCTRL_def cong: controller_cong)

lemma sys_copyself_wire:
  assumes "copying slave fin False cur k B m" "reset_clears m"
    "\<And>i. i < unat (fin_addr - start) \<Longrightarrow> start + word_of_nat i \<noteq> at_spi copy_TXD"
  shows "\<exists>m'. sys_copyself start fin_addr m = Some m' \<and>
    copying slave (fin @ [[3, 0, 0, 0] @ replicate (unat (fin_addr - start)) 0xFF]) False
      ([3, 0, 0, 0] @ replicate (unat (fin_addr - start)) 0xFF) (4 + unat (fin_addr - start))
      (with_bytes start (map (\<lambda>i. slave fin ([3, 0, 0, 0] @ replicate i 0xFF)) [0..<unat (fin_addr - start)]) B) m'"
proof -
  obtain m1 where m1: "copy_setup m = Some m1" "copying slave fin False cur k B m1"
    using copy_setup_wire [OF assms(1,2)] .
  obtain m2 where m2: "copy_command (rmw32 (at_spi copy_TCR) (\<lambda>v. v AND NOT (push_bit 4 0x3 OR bitm 7)) m1) = Some m2"
    "copying slave fin True [3, 0, 0, 0] 4 B m2" using copy_command_wire [OF copying_select [OF m1(2)]] .
  have l: "length [3 :: u8, 0, 0, 0] = 4" and z: "0 \<le> fin_addr - start" by simp_all
  have p: "copying slave fin True ([3, 0, 0, 0] @ replicate (unat (0 :: u32)) 0xFF) (4 + unat (0 :: u32))
      (with_bytes start (map (\<lambda>i. slave fin ([3, 0, 0, 0] @ replicate i 0xFF)) [0..<unat (0 :: u32)]) B) m2"
    using m2(2) by simp
  from copy_loop_wire [of slave fin "[3, 0, 0, 0]", unfolded l, OF p z assms(3)] obtain m3
    where m3: "copy_loop start (fin_addr - start) 0 m2 = Some m3"
      "copying slave fin True ([3, 0, 0, 0] @ replicate (unat (fin_addr - start)) 0xFF) (4 + unat (fin_addr - start))
      (with_bytes start (map (\<lambda>i. slave fin ([3, 0, 0, 0] @ replicate i 0xFF)) [0..<unat (fin_addr - start)]) B) m3"
    by blast
  show ?thesis
    using m1(1) m2(1) m3(1) copying_rmw [OF copying_deselect [OF m3(2)] spi_regs_differ(5)]
    by (simp add: sys_copyself_def Let_def)
qed

lemma image_addresses:
  assumes "0x80000000 \<le> start" "start \<le> fin_addr" "i < unat (fin_addr - start)"
  shows "start + word_of_nat i \<noteq> at_spi copy_TXD" "unat (start + word_of_nat i) = unat start + i"
proof -
  have d: "unat (fin_addr - start) = unat fin_addr - unat start" using assms(2) by (rule unat_minus_u32)
  have s: "2 ^ 31 \<le> unat start" using assms(1) by (simp add: word_le_nat_alt)
  show u: "unat (start + word_of_nat i) = unat start + i"
    using d assms(3) unat_u32 [of fin_addr] by (subst unat_plus_u32) (auto simp: unat_of_nat_u32)
  have "unat (at_spi copy_TXD) < 2 ^ 31" by (simp add: copy_regs)
  then show "start + word_of_nat i \<noteq> at_spi copy_TXD" using u s by auto
qed

lemma nor_answer_read: "nor_answer c ([3, 0, 0, 0] @ replicate i 0xFF) = cells c (i mod 2 ^ 24)"
  by (simp add: nor_answer_def addr24_def)

lemma nor_execute_read: "nor_execute c ([3, 0, 0, 0] @ ds) = c"
  by (simp add: nor_execute_def)



end
