(* ===== verification/Startup.thy ===== *)
theory Startup
  imports Boot Interrupt Cpu
begin

text \<open>
  \<open>asm/startup.s\<close>: the path from the reset vector to \<open>rust_main\<close>, and the debug output of the
  loader.  A load or store is an access of the trace, the SRAM at address 0 included.  The
  addresses that the linker chooses are arguments, gathered in \<open>image_layout\<close>; what is
  written to registers of the processor is a record.
\<close>

section \<open>Processor and image\<close>

record arm =
  arm_cpsr :: u32
  arm_cp15 :: cp15
  arm_sp :: "u32 \<Rightarrow> u32" \<comment> \<open>by the mode\<close>

record image_layout =
  start_run :: u32 \<comment> \<open>\<open>adr _start\<close>, where the code runs\<close>
  start_link :: u32 \<comment> \<open>\<open>ldr =_start\<close>, where it is linked\<close>
  spl_size :: u32
  vector_run :: u32 \<comment> \<open>\<open>adr _vector\<close>\<close>
  vector_link :: u32
  exc_handlers :: "u32 list" \<comment> \<open>\<open>spl_exc_undef\<close>, swi, pabt, dabt, undef again, irq, fiq\<close>
  stack_starts :: "u32 list" \<comment> \<open>und, abt, irq, fiq, sys, svc\<close>
  bss_start :: u32
  bss_end :: u32
  img_start :: u32
  img_end :: u32

definition WDOG_BASE :: u32 where [reg_addrs]: "WDOG_BASE = 0x01C20CB8"
definition IRQ_MASK0 :: u32 where [reg_addrs]: "IRQ_MASK0 = 0x01C20430"
definition SPEEDUP_ADDR :: u32 where "SPEEDUP_ADDR = 0x81F80000"

section \<open>Reset\<close>

text \<open>\<open>sp\<close> and \<open>lr\<close> are those of the boot ROM.\<close>

definition save_boot_params :: "u32 \<Rightarrow> u32 \<Rightarrow> arm \<Rightarrow> mmio \<Rightarrow> mmio" where
  "save_boot_params sp lr p m = (let
     m = wr32 (0x40 + 0) sp m;
     m = wr32 (0x40 + 4) lr m;
     m = wr32 (0x40 + 8) (arm_cpsr p) m;
     m = wr32 (0x40 + 12) (cp15_read_ctrl (arm_cp15 p)) m
   in wr32 (0x40 + 16) (cp15_read_ctrl (arm_cp15 p)) m)"

definition detect_fel :: "mmio \<Rightarrow> mmio" where
  "detect_fel m = (let
     m = wr32 0x58 0 m;
     (r1, m) = rd32 8 m
   in if r1 = 0x4C45462E then wr32 0x58 1 m else m)"

definition cpu_init_crit :: "cp15 \<Rightarrow> cp15" where
  "cpu_init_crit c = invalidate_tlb (invalidate_caches c)"

definition enter_svc :: "arm \<Rightarrow> arm" where
  "enter_svc p = p\<lparr>arm_cpsr := (arm_cpsr p AND NOT 0x1F) OR 0xD3,
     arm_cp15 := (let c = cpu_init_crit (arm_cp15 p) in cp15_write_ctrl (cp15_read_ctrl c AND NOT (bitm 13)) c)\<rparr>"

text \<open>\<open>ldmia r0!\<close> and \<open>stmia r1!\<close> with eight registers: the loads, then the stores.\<close>

definition load_words :: "u32 \<Rightarrow> nat \<Rightarrow> mmio \<Rightarrow> u32 list \<times> mmio" where
  "load_words a n m = fold (\<lambda>i (vs, m). let (v, m) = rd32 (a + 4 * word_of_nat i) m in (vs @ [v], m)) [0..<n] ([], m)"

definition store_words :: "u32 \<Rightarrow> u32 list \<Rightarrow> mmio \<Rightarrow> mmio" where
  "store_words a vs m = fold (\<lambda>i m. wr32 (a + 4 * word_of_nat i) (vs ! i) m) [0..<length vs] m"

definition copy_words :: "u32 \<Rightarrow> u32 \<Rightarrow> mmio \<Rightarrow> mmio" where
  "copy_words src dst m = (let
     (vs, m) = load_words src 8 m;
     m = store_words dst vs m;
     (vs, m) = load_words (src + 32) 8 m
   in store_words (dst + 32) vs m)"

definition copy_vectors :: "u32 \<Rightarrow> arm \<Rightarrow> mmio \<Rightarrow> mmio" where
  "copy_vectors vector p m =
     copy_words vector (if cp15_read_ctrl (arm_cp15 p) AND bitm 13 = 0 then 0 else 0xFFFF0000) m"

text \<open>The seven slots from \<open>0x20\<close> on.\<close>

definition route_exceptions :: "u32 list \<Rightarrow> mmio \<Rightarrow> mmio" where
  "route_exceptions hs m = store_words 0x20 (take 7 hs) m"

definition mask_sources :: "mmio \<Rightarrow> mmio" where
  "mask_sources m = wr32 (IRQ_MASK0 + 4) 0xFFFFFFFF (wr32 IRQ_MASK0 0xFFFFFFFF (wr32 WDOG_BASE 0 m))"

text \<open>\<open>reset\<close> up to the call of \<open>low_level_init\<close>, with the temporary stack.\<close>

definition reset_entry :: "image_layout \<Rightarrow> u32 \<Rightarrow> u32 \<Rightarrow> arm \<Rightarrow> mmio \<Rightarrow> arm \<times> mmio" where
  "reset_entry img sp lr p m = (let
     m = save_boot_params sp lr p m;
     m = detect_fel m;
     p = enter_svc p;
     m = copy_vectors (vector_run img) p m;
     m = route_exceptions (exc_handlers img) m;
     m = mask_sources m
   in (p\<lparr>arm_sp := (arm_sp p)(arm_cpsr p AND MODE_MASK := 0x8000)\<rparr>, m))"

section \<open>Byte loops\<close>

text \<open>\<open>memcpy\<close> takes the source in \<open>r0\<close>, the destination in \<open>r1\<close> and the length in \<open>r2\<close>; both
  return what was in \<open>r0\<close>.\<close>

fun memcpy_loop :: "nat \<Rightarrow> u32 \<Rightarrow> u32 \<Rightarrow> mmio \<Rightarrow> mmio" where
  "memcpy_loop 0 r0 r1 m = m"
| "memcpy_loop (Suc n) r0 r1 m = (let (r12, m) = rd8 r0 m in memcpy_loop n (r0 + 1) (r1 + 1) (wr8 r1 r12 m))"

definition asm_memcpy :: "u32 \<Rightarrow> u32 \<Rightarrow> u32 \<Rightarrow> mmio \<Rightarrow> u32 \<times> mmio" where
  "asm_memcpy r0 r1 r2 m = (r0, memcpy_loop (unat r2) r0 r1 m)"

fun memset_loop :: "nat \<Rightarrow> u32 \<Rightarrow> u32 \<Rightarrow> mmio \<Rightarrow> mmio" where
  "memset_loop 0 r0 r1 m = m"
| "memset_loop (Suc n) r0 r1 m = memset_loop n (r0 + 1) r1 (wr8 r0 (ucast r1) m)"

definition asm_memset :: "u32 \<Rightarrow> u32 \<Rightarrow> u32 \<Rightarrow> mmio \<Rightarrow> u32 \<times> mmio" where
  "asm_memset r0 r1 r2 m = (r0, memset_loop (unat r2) r0 r1 m)"

section \<open>From the initialisation to the entry point\<close>

definition dram_entry :: "image_layout \<Rightarrow> arm \<Rightarrow> mmio \<Rightarrow> arm \<times> mmio" where
  "dram_entry img p m = (let
     m = copy_words (vector_link img) 0 m;
     ctrl = cp15_read_ctrl (arm_cp15 p);
     p = p\<lparr>arm_cp15 := cp15_write_ctrl (ctrl OR 0x2 OR 0x1000) (arm_cp15 p)\<rparr>;
     r0 = arm_cpsr p AND NOT 0x1F;
     p = fold (\<lambda>(mode, sp) p. p\<lparr>arm_cpsr := r0 OR (mode OR NOINT), arm_sp := (arm_sp p)(mode := sp)\<rparr>)
       (zip [MODE_UND, MODE_ABT, MODE_IRQ, MODE_FIQ, MODE_SYS, MODE_SVC] (stack_starts img)) p;
     (_, m) = asm_memset (bss_start img) 0 (bss_end img - bss_start img) m
   in (p, m))"

text \<open>After \<open>low_level_init\<close>: the copy of the loader for speed, and the image unless it was
  loaded by FEL.  The copy of the loader runs the same code from another address.\<close>

definition relocate :: "image_layout \<Rightarrow> mmio \<Rightarrow> mmio option" where
  "relocate img m = do {
     let m = (if start_run img = start_link img then m
       else snd (asm_memcpy (start_run img) SPEEDUP_ADDR (spl_size img) m));
     let (r1, m) = rd32 0x58 m;
     if r1 = 1 then Some m else sys_copyself (img_start img) (img_end img) m
   }"

definition startup :: "image_layout \<Rightarrow> u32 \<Rightarrow> u32 \<Rightarrow> arm \<Rightarrow> mmio \<Rightarrow> (arm \<times> mmio) option" where
  "startup img sp lr p m = do {
     let (p, m) = reset_entry img sp lr p m;
     m \<leftarrow> low_level_init m;
     m \<leftarrow> relocate img m;
     Some (dram_entry img p m)
   }"

section \<open>Debug output of the loader\<close>

definition early_uart2_init :: "mmio \<Rightarrow> mmio" where
  "early_uart2_init m = (let
     (r1, m) = rd32 0x01C20890 m;
     m = wr32 0x01C20890 ((r1 AND NOT (push_bit 28 0xF)) OR push_bit 28 0x3) m;
     (r1, m) = rd32 0x01C20894 m;
     m = wr32 0x01C20894 ((r1 AND NOT 0xF) OR 0x3) m;
     (r1, m) = rd32 0x01C20068 m;
     m = wr32 0x01C20068 (r1 OR bitm 22) m;
     (r1, m) = rd32 0x01C202D0 m;
     m = wr32 0x01C202D0 (r1 OR bitm 22) m;
     r0 = 0x01C25800;
     m = wr32 (r0 + 0x04) 0 m;
     m = wr32 (r0 + 0x08) 0x07 m;
     m = wr32 (r0 + 0x10) 0 m;
     m = wr32 (r0 + 0x0C) 0x80 m;
     m = wr32 (r0 + 0x00) 54 m;
     m = wr32 (r0 + 0x04) 0 m
   in wr32 (r0 + 0x0C) 0x03 m)"

definition early_uart2_putc :: "u32 \<Rightarrow> mmio \<Rightarrow> mmio option" where
  "early_uart2_putc r0 m = do {
     m \<leftarrow> poll32 (0x01C25800 + 0x7C) (\<lambda>v. v AND 2 \<noteq> 0) m;
     Some (wr32 0x01C25800 r0 m)
   }"

text \<open>A string in memory, to its NUL.\<close>

partial_function (option) early_uart2_puts :: "u32 \<Rightarrow> mmio \<Rightarrow> mmio option" where
  "early_uart2_puts r4 m = (let (r0, m) = rd8 r4 m in
     if r0 = 0 then Some m else do { m \<leftarrow> early_uart2_putc (ucast r0) m; early_uart2_puts (r4 + 1) m })"

text \<open>\<open>r4\<close> as hexadecimal digits, \<open>r5\<close> of them, from the top nibble.\<close>

fun exc_digits :: "nat \<Rightarrow> u32 \<Rightarrow> mmio \<Rightarrow> mmio option" where
  "exc_digits 0 r4 m = Some m"
| "exc_digits (Suc r5) r4 m = do {
     let r0 = drop_bit 28 r4;
     m \<leftarrow> early_uart2_putc (if r0 \<le> 9 then r0 + 0x30 else r0 + (0x41 - 10)) m;
     exc_digits r5 (push_bit 4 r4) m
   }"

definition exc_report :: "u32 \<Rightarrow> u32 \<Rightarrow> mmio \<Rightarrow> mmio option" where
  "exc_report r0 lr m = do {
     m \<leftarrow> early_uart2_putc r0 m;
     m \<leftarrow> early_uart2_putc 0x3A m;
     exc_digits 8 lr m
   }"

definition spl_exc_common :: "u32 \<Rightarrow> u32 \<Rightarrow> mmio \<Rightarrow> mmio option" where
  "spl_exc_common r0 lr m = do { m \<leftarrow> exc_report r0 lr m; spin_forever m }"

definition spl_exc_undef where "spl_exc_undef lr m = spl_exc_common 0x55 lr m"
definition spl_exc_swi where "spl_exc_swi lr m = spl_exc_common 0x57 lr m"
definition spl_exc_pabt where "spl_exc_pabt lr m = spl_exc_common 0x50 lr m"
definition spl_exc_dabt where "spl_exc_dabt lr m = spl_exc_common 0x41 lr m"
definition spl_exc_irq where "spl_exc_irq lr m = spl_exc_common 0x49 lr m"
definition spl_exc_fiq where "spl_exc_fiq lr m = spl_exc_common 0x51 lr m"

end
