(* ===== verification/Startup_Props.thy ===== *)
theory Startup_Props
  imports Startup
begin

text \<open>
  Properties of the start-up code: what the reset path leaves in the low memory and in the
  processor, and that the exception report of the loader prints its address in the digits
  of the fault report of \<open>interrupt.rs\<close>.
\<close>

section \<open>Words\<close>

definition written :: "u32 \<Rightarrow> u32 list \<Rightarrow> (u32 \<Rightarrow> u32) \<Rightarrow> u32 \<Rightarrow> u32" where
  "written a vs R = fold (\<lambda>i R. R(a + 4 * word_of_nat i := vs ! i)) [0..<length vs] R"

lemma fold_words_outside:
  "(\<And>i. i \<in> set is \<Longrightarrow> x \<noteq> a + 4 * word_of_nat i) \<Longrightarrow> fold (\<lambda>i R. R(a + 4 * word_of_nat i := vs ! i)) is R x = R x"
  by (induction "is" arbitrary: R) auto

lemma written_outside: "(\<And>i. i < length vs \<Longrightarrow> x \<noteq> a + 4 * word_of_nat i) \<Longrightarrow> written a vs R x = R x"
  unfolding written_def by (rule fold_words_outside) simp

lemma words_distinct: "i < 2 ^ 30 \<Longrightarrow> j < 2 ^ 30 \<Longrightarrow> a + 4 * word_of_nat i = (a + 4 * word_of_nat j :: u32) \<Longrightarrow> i = j"
proof -
  assume a: "i < 2 ^ 30" "j < 2 ^ 30" "a + 4 * word_of_nat i = (a + 4 * word_of_nat j :: u32)"
  have "4 * word_of_nat i = (4 * word_of_nat j :: u32)" by (rule add_left_imp_eq [OF a(3)])
  then have "(word_of_nat (4 * i) :: u32) = word_of_nat (4 * j)" by (simp only: of_nat_mult of_nat_numeral)
  then have e: "unat (word_of_nat (4 * i) :: u32) = unat (word_of_nat (4 * j) :: u32)" by (rule arg_cong)
  have "unat (word_of_nat (4 * k) :: u32) = 4 * k" if "k < 2 ^ 30" for k by (rule unat_of_nat_u32) (use that in simp)
  from e [unfolded this [OF a(1)] this [OF a(2)]] show ?thesis by (simp only: mult_cancel1) simp
qed

lemma written_at:
  assumes "i < length vs" "length vs \<le> 2 ^ 30"
  shows "written a vs R (a + 4 * word_of_nat i) = vs ! i"
proof -
  have u: "[0..<length vs] = [0..<i] @ i # [Suc i..<length vs]"
    using assms(1) upt_add_eq_append [of 0 i "length vs - i"] by (simp add: upt_conv_Cons [symmetric])
  have "a + 4 * word_of_nat i \<noteq> a + 4 * word_of_nat j" if "j \<in> set [Suc i..<length vs]" for j
    using words_distinct [of i j a] that assms by auto
  note d = this
  show ?thesis unfolding written_def u fold_append fold_Cons comp_apply
    by (subst fold_words_outside [OF d]) simp_all
qed

lemma store_words_plain: "plain m R \<Longrightarrow> plain (store_words a vs m) (written a vs R)"
proof -
  have "plain m R \<Longrightarrow> plain (fold (\<lambda>i m. wr32 (a + 4 * word_of_nat i) (vs ! i) m) is m)
      (fold (\<lambda>i R. R(a + 4 * word_of_nat i := vs ! i)) is R)" for "is"
    by (induction "is" arbitrary: m R) (simp_all add: regs.wr_holds)
  then show "plain m R \<Longrightarrow> plain (store_words a vs m) (written a vs R)" by (simp add: store_words_def written_def)
qed

lemma load_words_plain:
  assumes "plain m R"
  shows "\<exists>m'. load_words a n m = (map (\<lambda>i. R (a + 4 * word_of_nat i)) [0..<n], m') \<and> plain m' R"
proof (induction n)
  case 0
  then show ?case using assms by (simp add: load_words_def)
next
  case (Suc n)
  then obtain m' where m': "load_words a n m = (map (\<lambda>i. R (a + 4 * word_of_nat i)) [0..<n], m')" "plain m' R" by blast
  obtain m2 where m2: "rd32 (a + 4 * word_of_nat n) m' = (R (a + 4 * word_of_nat n), m2)" "plain m2 R"
    using backed_rd32 [OF m'(2)] by blast
  have "load_words a (Suc n) m = (map (\<lambda>i. R (a + 4 * word_of_nat i)) [0..<Suc n], m2)"
    using m'(1) m2(1) by (simp add: load_words_def)
  then show ?case using m2(2) by blast
qed

lemma copy_words_plain:
  assumes "plain m R" "\<And>i j. i < 8 \<Longrightarrow> j < 8 \<Longrightarrow> src + 32 + 4 * word_of_nat i \<noteq> dst + 4 * word_of_nat j"
  shows "plain (copy_words src dst m) (written (dst + 32) (map (\<lambda>i. R (src + 32 + 4 * word_of_nat i)) [0..<8])
    (written dst (map (\<lambda>i. R (src + 4 * word_of_nat i)) [0..<8]) R))"
proof -
  let ?w1 = "map (\<lambda>i. R (src + 4 * word_of_nat i)) [0..<8]"
  obtain m1 where m1: "load_words src 8 m = (?w1, m1)" "plain m1 R" using load_words_plain [OF assms(1)] by blast
  note p1 = store_words_plain [OF m1(2), of dst ?w1]
  obtain m2 where m2: "load_words (src + 32) 8 (store_words dst ?w1 m1) =
      (map (\<lambda>i. written dst ?w1 R (src + 32 + 4 * word_of_nat i)) [0..<8], m2)" "plain m2 (written dst ?w1 R)"
    using load_words_plain [OF p1] by blast
  have "map (\<lambda>i. written dst ?w1 R (src + 32 + 4 * word_of_nat i)) [0..<8] = map (\<lambda>i. R (src + 32 + 4 * word_of_nat i)) [0..<8]"
    by (rule map_cong [OF refl], rule written_outside, rule assms(2)) simp_all
  note e = this
  have "copy_words src dst m = store_words (dst + 32)
      (map (\<lambda>i. written dst ?w1 R (src + 32 + 4 * word_of_nat i)) [0..<8]) m2" by (simp only: copy_words_def m1(1) m2(1) Let_def split_conv)
  then show ?thesis unfolding e using store_words_plain [OF m2(2)] by (simp only:)
qed

section \<open>The exception report\<close>

lemma top_nibble: "drop_bit (28 - k) v AND 0xF = drop_bit 28 (push_bit k (v :: u32))" if "k \<le> 28"
  by (rule bit_word_eqI) (use that in \<open>auto simp: bit_simps less_Suc_eq_le dest: bit_u32_len\<close>)

lemma digit_char: "d < 16 \<Longrightarrow> (if d \<le> 9 then d + 0x30 else d + (0x41 - 10)) = (ucast (hex_digits ! unat (d :: u32)) :: u32)"
proof -
  assume "d < 16"
  define n where "n = unat d"
  have n: "n \<in> set [0..<16]" "word_of_nat n = d" using \<open>d < 16\<close> by (simp_all add: n_def word_less_nat_alt)
  have "list_all (\<lambda>n. (if (word_of_nat n :: u32) \<le> 9 then word_of_nat n + 0x30 else word_of_nat n + (0x41 - 10)) =
      (ucast (hex_digits ! n) :: u32)) [0..<16]" by code_simp
  from bspec [OF this [unfolded list_all_iff] n(1), unfolded n(2)] show ?thesis by (simp only: n_def)
qed

lemma putc_same: "early_uart2_putc (ucast b) m = fault_putc b m"
  by (simp add: early_uart2_putc_def fault_putc_def bitm_def)

lemma exc_digits_all: "exc_digits n v m = put_all (map (\<lambda>k. hex_digits ! unat (drop_bit 28 (push_bit (4 * k) v))) [0..<n]) m"
proof (induction n arbitrary: v m)
  case (Suc n)
  have "unat v div 2 ^ 28 < 16" by (rule less_mult_imp_div_less) (use unat_u32 [of v] in simp)
  then have "drop_bit 28 v < 16" by (simp add: word_less_nat_alt unat_div drop_bit_eq_div)
  then have c: "(if drop_bit 28 v \<le> 9 then drop_bit 28 v + 0x30 else drop_bit 28 v + (0x41 - 10)) =
      (ucast (hex_digits ! unat (drop_bit 28 v)) :: u32)" by (rule digit_char)
  have "map (\<lambda>k. hex_digits ! unat (drop_bit 28 (push_bit (4 * k) v))) [0..<Suc n] =
      hex_digits ! unat (drop_bit 28 v) # map (\<lambda>k. hex_digits ! unat (drop_bit 28 (push_bit (4 * k) (push_bit 4 v)))) [0..<n]"
    by (simp add: upt_conv_Cons map_Suc_upt [symmetric] add.commute [of 4] del: upt_Suc)
  then show ?case unfolding exc_digits.simps Let_def c putc_same
    by (cases "fault_putc (hex_digits ! unat (drop_bit 28 v)) m") (simp_all only: put_all.simps Suc.IH bind.simps)
qed simp

text \<open>C35. The exception report of the loader, in assembly, prints the letter of the exception,
  a colon and the return address in the same eight hexadecimal digits as the fault report
  of \<open>interrupt.rs\<close>, character by character to the same UART.\<close>

theorem exc_report_hex: "exc_report (ucast c) lr m = put_all (c # 0x3A # hex_string lr) m"
proof -
  have "drop_bit 28 (push_bit (4 * k) lr) = drop_bit (28 - 4 * k) lr AND 0xF" if "k < 8" for k
    using top_nibble [of "4 * k" lr] that by simp
  note n = this
  have "hex_string lr = map (\<lambda>k. hex_digits ! unat (drop_bit 28 (push_bit (4 * k) lr))) [0..<8]"
    using n [of 0] n [of 1] n [of 2] n [of 3] n [of 4] n [of 5] n [of 6] n [of 7]
    by (simp add: hex_string_def upt_rec)
  moreover have "early_uart2_putc 0x3A m = fault_putc 0x3A m" for m using putc_same [of "0x3A"] by simp
  ultimately show ?thesis unfolding exc_report_def putc_same exc_digits_all put_all.simps
    by (cases "fault_putc c m") simp_all
qed

section \<open>The reset path\<close>

text \<open>Reading from the vector table: it lies behind the low memory that the path writes.\<close>

lemma vector_apart:
  fixes v a :: u32
  assumes "0x5C \<le> v" "unat v + 64 \<le> 2 ^ 32" "k < 16" "a \<le> 0x58"
  shows "v + 4 * word_of_nat k \<noteq> a" "v + 4 * word_of_nat k \<noteq> 0" "0x5C \<le> v + 4 * word_of_nat k"
proof -
  have "unat (word_of_nat (4 * k) :: u32) = 4 * k" by (rule unat_of_nat_u32) (use assms(3) in simp)
  then have "unat (v + word_of_nat (4 * k)) = unat v + 4 * k"
    using assms(2,3) by (subst unat_plus_u32) simp_all
  then have u: "unat (v + 4 * word_of_nat k) = unat v + 4 * k" by (simp only: of_nat_mult of_nat_numeral)
  show l: "0x5C \<le> v + 4 * word_of_nat k" using u assms(1) by (simp add: word_le_nat_alt)
  have "0x58 < v + 4 * word_of_nat k" by (rule less_le_trans [OF _ l]) simp
  then have "a < v + 4 * word_of_nat k" "0 < v + 4 * word_of_nat k"
    using assms(4) le_less_trans [of a "0x58"] le_less_trans [of 0 "0x58 :: u32"] by simp_all
  then show "v + 4 * word_of_nat k \<noteq> a" "v + 4 * word_of_nat k \<noteq> 0" by (metis less_irrefl)+
qed

lemma low_words: "i < 16 \<Longrightarrow> unat (4 * word_of_nat i :: u32) = 4 * i"
  using unat_of_nat_u32 [of "4 * i"] by (simp only: of_nat_mult of_nat_numeral) simp

lemma detect_fel_plain:
  assumes "plain m R"
  shows "plain (detect_fel m) (R(0x58 := if R 8 = 0x4C45462E then 1 else 0))"
proof -
  note w = regs.wr_holds [OF assms, of "0x58" 0]
  obtain m' where m': "rd32 8 (wr32 0x58 0 m) = (R 8, m')" "plain m' (R(0x58 := 0))"
    using backed_rd32 [OF w, of 8] by auto
  then show ?thesis using regs.wr_holds [OF m'(2), of "0x58" 1] by (simp add: detect_fel_def)
qed

lemma mask_sources_plain:
  "plain m R \<Longrightarrow> plain (mask_sources m) (R(WDOG_BASE := 0, IRQ_MASK0 := 0xFFFFFFFF, IRQ_MASK0 + 4 := 0xFFFFFFFF))"
  unfolding mask_sources_def by (intro regs.wr_holds)

lemma save_boot_params_plain: "plain m R \<Longrightarrow> \<exists>S. plain (save_boot_params sp lr p m) S \<and>
    (\<forall>x. x \<notin> {0x40, 0x44, 0x48, 0x4C, 0x50} \<longrightarrow> S x = R x)"
proof -
  assume m: "plain m R"
  let ?S = "R(0x40 + 0 := sp, 0x40 + 4 := lr, 0x40 + 8 := arm_cpsr p,
      0x40 + 12 := cp15_read_ctrl (arm_cp15 p), 0x40 + 16 := cp15_read_ctrl (arm_cp15 p))"
  have "plain (save_boot_params sp lr p m) ?S" unfolding save_boot_params_def Let_def by (intro regs.wr_holds m)
  moreover have "\<forall>x. x \<notin> {0x40, 0x44, 0x48, 0x4C, 0x50} \<longrightarrow> ?S x = R x" by simp
  ultimately show ?thesis by blast
qed

lemma svc_entered:
  "cp15_read_ctrl (arm_cp15 (enter_svc p)) AND bitm 13 = 0"
  "arm_cpsr (enter_svc p) AND MODE_MASK = MODE_SVC"
  "\<not> interrupts_enabled (arm_cpsr (enter_svc p))"
proof -
  have "(c AND NOT (bitm 13)) AND bitm 13 = 0" for c by (rule bit_word_eqI) (simp add: bit_simps)
  then show "cp15_read_ctrl (arm_cp15 (enter_svc p)) AND bitm 13 = 0" by (simp add: enter_svc_def cp15_defs Let_def)
  show "arm_cpsr (enter_svc p) AND MODE_MASK = MODE_SVC"
  proof -
    have "((c AND NOT l) OR k) AND l = k AND l" for c k l :: u32 by (rule bit_word_eqI) (auto simp: bit_simps)
    from this [of "arm_cpsr p" "0x1F" "0xD3"] show ?thesis by (simp add: enter_svc_def MODE_MASK_def MODE_SVC_def)
  qed
  have "bit ((c AND NOT 0x1F) OR 0xD3 :: u32) 7" for c by (simp add: bit_simps)
  then have "bit (((c AND NOT 0x1F) OR 0xD3) AND I_BIT) 7" for c by (simp add: I_BIT_def bit_simps)
  then have "((c AND NOT 0x1F) OR 0xD3) AND I_BIT \<noteq> 0" for c by (metis bit_0_eq bot_apply bot_bool_def)
  then show "\<not> interrupts_enabled (arm_cpsr (enter_svc p))" by (simp add: interrupts_enabled_def enter_svc_def)
qed

text \<open>The low memory after the copy and the routing.\<close>

lemma low_memory:
  assumes "0x5C \<le> v" "unat v + 64 \<le> 2 ^ 32" "length hs = 7"
    and "\<forall>x. x \<notin> {0x40, 0x44, 0x48, 0x4C, 0x50} \<longrightarrow> S x = R x" "S' = S(0x58 := f)"
    and "T = written 0x20 hs (written (0 + 32) (map (\<lambda>i. S' (v + 32 + 4 * word_of_nat i)) [0..<8])
      (written 0 (map (\<lambda>i. S' (v + 4 * word_of_nat i)) [0..<8]) S'))"
  shows "\<forall>i < 8. T (4 * word_of_nat i) = R (v + 4 * word_of_nat i)" "\<forall>i < 7. T (0x20 + 4 * word_of_nat i) = hs ! i" "T 0x58 = f"
proof -
  have up: "(0x20 :: u32) + 4 * word_of_nat i = 4 * word_of_nat (8 + i)" for i by simp
  have ne: "(4 * word_of_nat i :: u32) \<noteq> 4 * word_of_nat j" if "i < 16" "j < 16" "i \<noteq> j" for i j
    using words_distinct [of i j 0] that by auto
  have big: "(4 * word_of_nat i :: u32) \<noteq> 0x58" if "i < 16" for i
    proof
    assume "(4 * word_of_nat i :: u32) = 0x58"
    then have "4 * i = unat (0x58 :: u32)" using low_words [OF that] by metis
    then show False using that by simp
  qed
  have src: "S' (v + 4 * word_of_nat i) = R (v + 4 * word_of_nat i)" if "i < 8" for i
    using vector_apart(1) [OF assms(1,2), of i] that assms(4) by (simp add: assms(5))
  show "\<forall>i < 8. T (4 * word_of_nat i) = R (v + 4 * word_of_nat i)"
  proof (intro allI impI)
    fix i :: nat assume i: "i < 8"
    have "T (4 * word_of_nat i) = written (0 + 32) (map (\<lambda>i. S' (v + 32 + 4 * word_of_nat i)) [0..<8])
      (written 0 (map (\<lambda>i. S' (v + 4 * word_of_nat i)) [0..<8]) S') (4 * word_of_nat i)"
      unfolding assms(6) by (rule written_outside, unfold up) (rule ne, use i assms(3) in simp_all)
    also have "\<dots> = written 0 (map (\<lambda>i. S' (v + 4 * word_of_nat i)) [0..<8]) S' (4 * word_of_nat i)"
      by (rule written_outside, unfold add_0 up) (rule ne, use i in simp_all)
    also have "\<dots> = R (v + 4 * word_of_nat i)"
      using written_at [of i "map (\<lambda>i. S' (v + 4 * word_of_nat i)) [0..<8]" 0 S'] i src by simp
    finally show "T (4 * word_of_nat i) = R (v + 4 * word_of_nat i)" .
  qed
  show "\<forall>i < 7. T (0x20 + 4 * word_of_nat i) = hs ! i"
    unfolding assms(6) using written_at [of _ hs "0x20"] assms(3) by auto
  have low: "written (4 * word_of_nat k) xs Q 0x58 = Q 0x58" if "k + length xs \<le> 16" for k xs Q
  proof (rule written_outside)
    fix i assume "i < length xs"
    then have "(4 * word_of_nat (k + i) :: u32) \<noteq> 0x58" by (intro big) (use that in simp)
    moreover have "(4 * word_of_nat (k + i) :: u32) = 4 * word_of_nat k + 4 * word_of_nat i" by (simp add: distrib_left)
    ultimately show "0x58 \<noteq> 4 * word_of_nat k + (4 * word_of_nat i :: u32)" by metis
  qed
  have "T 0x58 = S' 0x58" unfolding assms(6) using low [of 8] low [of 0] assms(3) by simp
  then show "T 0x58 = f" by (simp add: assms(5))
qed

text \<open>C24. What the reset path leaves behind when it calls \<open>low_level_init\<close>: the vectors are at
  address 0 with the table routed to the handlers of the loader, every interrupt source is
  masked and the watchdog off, the processor is in supervisor mode with interrupts masked
  and low vectors, and the flag at \<open>0x58\<close> tells whether the FEL magic was at address 8,
  although the vectors have overwritten it.\<close>

theorem reset_entry_state:
  assumes "plain m R" "0x5C \<le> vector_run img" "unat (vector_run img) + 64 \<le> 2 ^ 32" "length (exc_handlers img) = 7"
  shows "\<exists>p' m' R'. reset_entry img sp lr p m = (p', m') \<and> plain m' R' \<and>
    R' 0x58 = (if R 8 = 0x4C45462E then 1 else 0) \<and>
    (\<forall>i < 8. R' (4 * word_of_nat i) = R (vector_run img + 4 * word_of_nat i)) \<and>
    (\<forall>i < 7. R' (0x20 + 4 * word_of_nat i) = exc_handlers img ! i) \<and>
    R' IRQ_MASK0 = 0xFFFFFFFF \<and> R' (IRQ_MASK0 + 4) = 0xFFFFFFFF \<and> R' WDOG_BASE = 0 \<and>
    arm_cpsr p' AND MODE_MASK = MODE_SVC \<and> \<not> interrupts_enabled (arm_cpsr p') \<and>
    cp15_read_ctrl (arm_cp15 p') AND bitm 13 = 0 \<and> arm_sp p' MODE_SVC = 0x8000"
proof -
  let ?v = "vector_run img" and ?hs = "exc_handlers img"
  obtain S where S: "plain (save_boot_params sp lr p m) S" "\<forall>x. x \<notin> {0x40, 0x44, 0x48, 0x4C, 0x50} \<longrightarrow> S x = R x"
    using save_boot_params_plain [OF assms(1)] by blast
  define f :: u32 where "f = (if R 8 = 0x4C45462E then 1 else 0)"
  define S' where "S' = S(0x58 := f)"
  define m1 where "m1 = detect_fel (save_boot_params sp lr p m)"
  have m1: "plain m1 S'" using detect_fel_plain [OF S(1)] S(2) by (simp add: m1_def S'_def f_def)
  let ?W = "written (0 + 32) (map (\<lambda>i. S' (?v + 32 + 4 * word_of_nat i)) [0..<8])
      (written 0 (map (\<lambda>i. S' (?v + 4 * word_of_nat i)) [0..<8]) S')"
  define T where "T = written 0x20 ?hs ?W"
  have apart: "?v + 32 + 4 * word_of_nat i \<noteq> 0 + 4 * word_of_nat j" if "i < 8" "j < 8" for i j
  proof -
    have "(4 * word_of_nat j :: u32) \<le> 0x58" using low_words [of j] that by (simp add: word_le_nat_alt)
    from vector_apart(1) [OF assms(2,3) _ this, of "8 + i"] that show ?thesis by (simp add: algebra_simps)
  qed
  have "copy_vectors ?v (enter_svc p) m1 = copy_words ?v 0 m1" by (simp add: copy_vectors_def svc_entered)
  then have "plain (copy_vectors ?v (enter_svc p) m1) ?W" using copy_words_plain [OF m1 apart] by simp
  from store_words_plain [OF this, of "0x20" ?hs] have "plain (route_exceptions ?hs (copy_vectors ?v (enter_svc p) m1)) T"
    using assms(4) by (simp add: route_exceptions_def T_def)
  note fin = mask_sources_plain [OF this]
  note low = low_memory [OF assms(2-4) S(2) S'_def T_def]
  have hi: "4 * word_of_nat i \<noteq> WDOG_BASE \<and> 4 * word_of_nat i \<noteq> IRQ_MASK0 \<and> 4 * word_of_nat i \<noteq> IRQ_MASK0 + 4" if "i < 16" for i
    using low_words [OF that] that by (auto simp: reg_addrs)
  have hi2: "0x20 + 4 * word_of_nat i \<noteq> WDOG_BASE \<and> 0x20 + 4 * word_of_nat i \<noteq> IRQ_MASK0 \<and> 0x20 + 4 * word_of_nat i \<noteq> IRQ_MASK0 + 4"
    if "i < 7" for i using hi [of "8 + i"] that by simp
  define R' where "R' = T(WDOG_BASE := 0, IRQ_MASK0 := 0xFFFFFFFF, IRQ_MASK0 + 4 := 0xFFFFFFFF)"
  define p' where "p' = (enter_svc p)\<lparr>arm_sp := (arm_sp (enter_svc p))(MODE_SVC := 0x8000)\<rparr>"
  define m' where "m' = mask_sources (route_exceptions ?hs (copy_vectors ?v (enter_svc p) m1))"
  have "reset_entry img sp lr p m = (p', m')"
    by (simp add: reset_entry_def Let_def p'_def m'_def m1_def svc_entered)
  moreover have "plain m' R'" unfolding m'_def R'_def by (rule fin)
  moreover have "R' 0x58 = f" "\<forall>i < 8. R' (4 * word_of_nat i) = R (?v + 4 * word_of_nat i)"
    "\<forall>i < 7. R' (0x20 + 4 * word_of_nat i) = ?hs ! i"
    using low hi hi2 by (auto simp: R'_def reg_addrs)
  moreover have "R' IRQ_MASK0 = 0xFFFFFFFF" "R' (IRQ_MASK0 + 4) = 0xFFFFFFFF" "R' WDOG_BASE = 0"
    by (simp_all add: R'_def reg_addrs)
  moreover have "arm_cpsr p' AND MODE_MASK = MODE_SVC" "\<not> interrupts_enabled (arm_cpsr p')"
    "cp15_read_ctrl (arm_cp15 p') AND bitm 13 = 0" "arm_sp p' MODE_SVC = 0x8000"
    using svc_entered [of p] by (simp_all add: p'_def)
  ultimately show ?thesis unfolding f_def by blast
qed

text \<open>A boot from flash: the table is at \<open>0x60\<close> of the SRAM, every word of which holds its address.\<close>

definition boot_example :: image_layout where
  "boot_example = \<lparr>start_run = 0, start_link = 0x80000000, spl_size = 0x4000, vector_run = 0x60, vector_link = 0x80000060,
    exc_handlers = [0x300, 0x308, 0x310, 0x318, 0x300, 0x320, 0x328], stack_starts = [], bss_start = 0, bss_end = 0,
    img_start = 0x80000000, img_end = 0x80010000\<rparr>"

definition arm_example :: arm where
  "arm_example = \<lparr>arm_cpsr = 0x13, arm_cp15 = \<lparr>c1_ctrl = 0x2000, c2_ttbr0 = 0, c3_dacr = 0, cp15_ops = []\<rparr>,
    arm_sp = (\<lambda>_. 0)\<rparr>"

theorem reset_entry_state_witness:
  "\<exists>p' m' R'. reset_entry boot_example 0x7000 0x20 arm_example (regs_of (\<lambda>_ v. v) (\<lambda>a. a)) = (p', m') \<and> plain m' R' \<and>
    R' 0x58 = 0 \<and> R' 0 = 0x60 \<and> R' 0x24 = 0x308 \<and> \<not> interrupts_enabled (arm_cpsr p')"
proof -
  have v: "vector_run boot_example = 0x60" "exc_handlers boot_example ! 1 = 0x308" by (simp_all add: boot_example_def)
  have h: "0x5C \<le> vector_run boot_example" "unat (vector_run boot_example) + 64 \<le> 2 ^ 32" "length (exc_handlers boot_example) = 7"
    by (simp_all add: boot_example_def)
  from reset_entry_state [OF backed_regs_of [of "\<lambda>_ v. v" "\<lambda>a. a"] h, where sp = "0x7000" and lr = "0x20" and p = arm_example, unfolded v(1)]
  obtain p' m' R' where r: "reset_entry boot_example 0x7000 0x20 arm_example (regs_of (\<lambda>_ v. v) (\<lambda>a. a)) = (p', m')" "plain m' R'"
    "R' 0x58 = (if (8 :: u32) = 0x4C45462E then 1 else 0)" "\<forall>i < 8. R' (4 * word_of_nat i) = 0x60 + 4 * word_of_nat i"
    "\<forall>i < 7. R' (0x20 + 4 * word_of_nat i) = exc_handlers boot_example ! i"
    "\<not> interrupts_enabled (arm_cpsr p')" by blast
  have "R' 0x58 = 0" using r(3) by simp
  moreover have "R' 0 = 0x60" "R' 0x24 = 0x308" using r(4) [rule_format, of 0] r(5) [rule_format, of 1] v(2) by simp_all
  ultimately show ?thesis using r by blast
qed

end
