(* ===== verification/Touch.thy ===== *)
theory Touch
  imports Gpio
begin

text \<open>
  \<open>touch.rs\<close>: touch events and points, the coordinate transformation and the interrupt pin.
  Coordinates are \<open>u16\<close>; the subtraction of a mirrored axis wraps, as in a release build.
\<close>

datatype touch_event = TouchNone | TouchDown | TouchUp | TouchMove

definition from_cst8xx :: "u8 \<Rightarrow> touch_event" where
  "from_cst8xx raw = (if raw = 0 then TouchDown else if raw = 1 then TouchUp else if raw = 2 then TouchMove else TouchNone)"

record touch_point =
  tp_x :: u16
  tp_y :: u16
  tp_event :: touch_event
  tp_id :: u8

definition touch_point_default :: touch_point where
  "touch_point_default = \<lparr>tp_x = 0, tp_y = 0, tp_event = TouchNone, tp_id = 0\<rparr>"

definition Y_REVERSE :: u8 where "Y_REVERSE = push_bit 0 1"
definition X_REVERSE :: u8 where "X_REVERSE = push_bit 1 1"
definition XY_EXCHANGE :: u8 where "XY_EXCHANGE = push_bit 2 1"

definition coord_transform :: "u16 \<Rightarrow> u16 \<Rightarrow> u16 \<Rightarrow> u16 \<Rightarrow> u8 \<Rightarrow> u16 \<times> u16" where
  "coord_transform x y range_x range_y flags =
    (if flags AND XY_EXCHANGE \<noteq> 0 then
       (let xbuf = y; ybuf = x;
            x = (if flags AND X_REVERSE \<noteq> 0 then range_y - xbuf else xbuf);
            y = (if flags AND Y_REVERSE \<noteq> 0 then range_x - ybuf else ybuf)
        in (x, y))
     else
       (let x = (if flags AND X_REVERSE \<noteq> 0 then range_x - x else x);
            y = (if flags AND Y_REVERSE \<noteq> 0 then range_y - y else y)
        in (x, y)))"

record touch_int_pin =
  ti_port :: port
  ti_pin :: u8
  ti_func :: u8

definition FUNC5 :: u8 where "FUNC5 = 0x06"

definition INT_PIN_PE9 :: touch_int_pin where
  "INT_PIN_PE9 = \<lparr>ti_port = PortE, ti_pin = 9, ti_func = FUNC5\<rparr>"

definition setup_int_pin :: "touch_int_pin \<Rightarrow> mmio \<Rightarrow> mmio option" where
  "setup_int_pin pin m = do {
     m \<leftarrow> set_function (ti_port pin) (ti_pin pin) (ti_func pin) m;
     m \<leftarrow> set_pull_mode (ti_port pin) (ti_pin pin) PullDisable m;
     set_irq_type (ti_port pin) (ti_pin pin) NegativeEdge m
   }"

definition int_enable :: "touch_int_pin \<Rightarrow> mmio \<Rightarrow> mmio option" where
  "int_enable pin m = irq_enable (ti_port pin) (ti_pin pin) m"

definition int_disable :: "touch_int_pin \<Rightarrow> mmio \<Rightarrow> mmio option" where
  "int_disable pin m = irq_disable (ti_port pin) (ti_pin pin) m"

section \<open>Property\<close>

lemma mirrored:
  fixes v r :: u16
  assumes "v < r"
  shows "r - v \<le> r" "r - v < r \<longleftrightarrow> v \<noteq> 0"
proof -
  have "unat (r - v) = unat r - unat v" using assms by (simp add: unat_sub less_imp_le)
  moreover have "0 < unat v \<longleftrightarrow> v \<noteq> 0" by (rule unat_gt_0)
  ultimately have "unat (r - v) = unat r - unat v" "0 < unat v \<longleftrightarrow> v \<noteq> 0" .
  then show "r - v \<le> r" "r - v < r \<longleftrightarrow> v \<noteq> 0"
    using assms by (auto simp: word_le_nat_alt word_less_nat_alt)
qed

text \<open>Where a point of the panel goes.  The transformed coordinates never exceed the range of
  their axis, the exchanged one when the axes are exchanged, and they are on the panel
  with one exception: a mirrored axis subtracts from the range, not from the last pixel, so
  the coordinate 0 is mapped to the range itself, one past the panel.\<close>

theorem coord_transform_range:
  assumes "x < range_x" "y < range_y"
  shows "\<exists>x' y'. coord_transform x y range_x range_y flags = (x', y') \<and>
    (let (u, v, ru, rv) = (if flags AND XY_EXCHANGE \<noteq> 0 then (y, x, range_y, range_x) else (x, y, range_x, range_y))
     in x' \<le> ru \<and> y' \<le> rv \<and> (x' < ru \<longleftrightarrow> \<not> (flags AND X_REVERSE \<noteq> 0 \<and> u = 0)) \<and>
       (y' < rv \<longleftrightarrow> \<not> (flags AND Y_REVERSE \<noteq> 0 \<and> v = 0)))"
  using mirrored [OF assms(1)] mirrored [OF assms(2)] assms less_imp_le [OF assms(1)] less_imp_le [OF assms(2)]
  by (simp add: coord_transform_def Let_def)

theorem coord_transform_range_witness:
  "coord_transform 0 5 480 320 X_REVERSE = (480, 5) \<and>
   (\<exists>x' y'. coord_transform 0 5 480 320 X_REVERSE = (x', y') \<and> x' \<le> 480 \<and> \<not> x' < 480)"
proof
  show "coord_transform 0 5 480 320 X_REVERSE = (480, 5)"
    by (simp add: coord_transform_def X_REVERSE_def Y_REVERSE_def XY_EXCHANGE_def)
  show "\<exists>x' y'. coord_transform 0 5 480 320 X_REVERSE = (x', y') \<and> x' \<le> 480 \<and> \<not> x' < 480"
    using coord_transform_range [of 0 480 5 320 X_REVERSE]
    by (auto simp: X_REVERSE_def XY_EXCHANGE_def Let_def)
qed

end
