(* ===== verification/Cst8xx.thy ===== *)
theory Cst8xx
  imports Touch I2c_Session
begin

text \<open>
  \<open>cst8xx.rs\<close>: the touch controller on the I2C bus.  The driver reaches the bus only by
  \<open>write_read\<close> and \<open>write\<close> of the \<open>Twi\<close> it borrows, so it holds these two operations;
  \<open>twi_ops\<close> are those of \<open>i2c.rs\<close>.  \<open>touch_bus\<close> is what it relies on: a bus behind which the
  registers of the controller can be read.
\<close>

definition CST_ADDR :: u8 where "CST_ADDR = 0x15"
definition MAX_TOUCHES :: nat where "MAX_TOUCHES = 5"

definition creg_TOUCH_NUM :: u8 where "creg_TOUCH_NUM = 0x02"
definition creg_TOUCH_DATA :: u8 where "creg_TOUCH_DATA = 0x03"
definition creg_SLEEP :: u8 where "creg_SLEEP = 0xA5"
definition creg_FW_VERSION_LO :: u8 where "creg_FW_VERSION_LO = 0xA6"
definition creg_FW_VERSION_HI :: u8 where "creg_FW_VERSION_HI = 0xA7"
definition creg_CHIP_TYPE_LO :: u8 where "creg_CHIP_TYPE_LO = 0xAA"
definition creg_CHIP_TYPE_HI :: u8 where "creg_CHIP_TYPE_HI = 0xAB"
definition creg_IRQ_CTL :: u8 where "creg_IRQ_CTL = 0xFA"
definition creg_MOTION_MASK :: u8 where "creg_MOTION_MASK = 0xEC"
definition creg_DISABLE_AUTOSLEEP :: u8 where "creg_DISABLE_AUTOSLEEP = 0xFE"
definition IRQ_EN_TOUCH :: u8 where "IRQ_EN_TOUCH = push_bit 6 1"

record 's i2c_ops =
  ops_write_read :: "u8 \<Rightarrow> u8 \<Rightarrow> u8 list \<Rightarrow> 's \<Rightarrow> ((xfer_result \<times> u8 list option) \<times> 's) option"
  ops_write :: "u8 \<Rightarrow> u8 option \<Rightarrow> u8 list \<Rightarrow> 's \<Rightarrow> ((xfer_result \<times> u8 list option) \<times> 's) option"

definition twi_ops :: "(twi_state \<Rightarrow> twi_state option) \<Rightarrow> (twi_state \<Rightarrow> twi_state option) \<Rightarrow> twi_bus \<Rightarrow> twi_state i2c_ops" where
  "twi_ops irqs run t = \<lparr>ops_write_read = twi_write_read irqs run t, ops_write = twi_write_data irqs run t\<rparr>"

record 's cst8xx =
  cst_twi :: "'s i2c_ops"
  range_x :: u16
  range_y :: u16
  transform_flags :: u8

definition cst_new :: "'s i2c_ops \<Rightarrow> 's cst8xx" where
  "cst_new twi = \<lparr>cst_twi = twi, range_x = 480, range_y = 480, transform_flags = 0\<rparr>"

definition cst_set_range :: "u16 \<Rightarrow> u16 \<Rightarrow> 's cst8xx \<Rightarrow> 's cst8xx" where
  "cst_set_range x y c = c\<lparr>range_x := x, range_y := y\<rparr>"

definition cst_set_transform :: "u8 \<Rightarrow> 's cst8xx \<Rightarrow> 's cst8xx" where
  "cst_set_transform flags c = c\<lparr>transform_flags := flags\<rparr>"

section \<open>Registers\<close>

text \<open>The error of every operation is \<open>()\<close>; \<open>andthen\<close> is the operator \<open>?\<close>.\<close>

type_synonym ('a, 's) cst_result = "((unit + 'a) \<times> 's) option"

definition andthen :: "('a, 's) cst_result \<Rightarrow> ('a \<Rightarrow> 's \<Rightarrow> ('b, 's) cst_result) \<Rightarrow> ('b, 's) cst_result" where
  "andthen m f = do { (r, s) \<leftarrow> m; case r of Inl e \<Rightarrow> Some (Inl e, s) | Inr a \<Rightarrow> f a s }"

definition cst_read_regs :: "'s cst8xx \<Rightarrow> u8 \<Rightarrow> u8 list \<Rightarrow> 's \<Rightarrow> (u8 list, 's) cst_result" where
  "cst_read_regs c r buf s = do {
     ((res, got), s) \<leftarrow> ops_write_read (cst_twi c) CST_ADDR r buf s;
     Some (case res of Inl _ \<Rightarrow> Inl () | Inr _ \<Rightarrow> Inr (case got of Some l \<Rightarrow> l | None \<Rightarrow> buf), s)
   }"

definition cst_read_reg :: "'s cst8xx \<Rightarrow> u8 \<Rightarrow> 's \<Rightarrow> (u8, 's) cst_result" where
  "cst_read_reg c r s = do {
     ((res, got), s) \<leftarrow> ops_write_read (cst_twi c) CST_ADDR r [0] s;
     Some (case res of Inl _ \<Rightarrow> Inl () | Inr _ \<Rightarrow> Inr ((case got of Some l \<Rightarrow> l | None \<Rightarrow> [0]) ! 0), s)
   }"

definition cst_write_reg :: "'s cst8xx \<Rightarrow> u8 \<Rightarrow> u8 \<Rightarrow> 's \<Rightarrow> (unit, 's) cst_result" where
  "cst_write_reg c r d s = do {
     ((res, _), s) \<leftarrow> ops_write (cst_twi c) CST_ADDR None [r, d] s;
     Some (case res of Inl _ \<Rightarrow> Inl () | Inr _ \<Rightarrow> Inr (), s)
   }"

section \<open>Operations\<close>

definition cst_probe :: "'s cst8xx \<Rightarrow> 's \<Rightarrow> (bool \<times> 's) option" where
  "cst_probe c s = do {
     (hi, s) \<leftarrow> cst_read_reg c creg_CHIP_TYPE_HI s;
     (lo, s) \<leftarrow> cst_read_reg c creg_CHIP_TYPE_LO s;
     Some (\<not> isl hi \<and> \<not> isl lo, s)
   }"

definition cst_init :: "'s cst8xx \<Rightarrow> 's \<Rightarrow> (unit, 's) cst_result" where
  "cst_init c s = andthen (cst_write_reg c creg_IRQ_CTL IRQ_EN_TOUCH s) (\<lambda>_ s.
     andthen (cst_write_reg c creg_MOTION_MASK 0 s) (\<lambda>_ s.
     cst_write_reg c creg_DISABLE_AUTOSLEEP 1 s))"

definition cst_sleep :: "'s cst8xx \<Rightarrow> 's \<Rightarrow> (unit, 's) cst_result" where
  "cst_sleep c s = cst_write_reg c creg_SLEEP 0x03 s"

definition u16_of :: "u8 \<Rightarrow> u8 \<Rightarrow> u16" where
  "u16_of hi lo = push_bit 8 (ucast hi) OR ucast lo"

definition cst_chip_type :: "'s cst8xx \<Rightarrow> 's \<Rightarrow> (u16, 's) cst_result" where
  "cst_chip_type c s = andthen (cst_read_reg c creg_CHIP_TYPE_HI s) (\<lambda>hi s.
     andthen (cst_read_reg c creg_CHIP_TYPE_LO s) (\<lambda>lo s. Some (Inr (u16_of hi lo), s)))"

definition cst_fw_version :: "'s cst8xx \<Rightarrow> 's \<Rightarrow> (u16, 's) cst_result" where
  "cst_fw_version c s = andthen (cst_read_reg c creg_FW_VERSION_HI s) (\<lambda>hi s.
     andthen (cst_read_reg c creg_FW_VERSION_LO s) (\<lambda>lo s. Some (Inr (u16_of hi lo), s)))"

definition cst_touch_count :: "'s cst8xx \<Rightarrow> 's \<Rightarrow> (u8, 's) cst_result" where
  "cst_touch_count c s = cst_read_reg c creg_TOUCH_NUM s"

text \<open>A point from the six bytes at \<open>off\<close>; both readers contain these statements.\<close>

definition cst_point :: "'s cst8xx \<Rightarrow> u8 list \<Rightarrow> nat \<Rightarrow> touch_point" where
  "cst_point c raw off = (let
     x = u16_of (raw ! off AND 0x0F) (raw ! (off + 1));
     y = u16_of (raw ! (off + 2) AND 0x0F) (raw ! (off + 3));
     event = from_cst8xx (drop_bit 6 (raw ! off));
     id = drop_bit 4 (raw ! (off + 2));
     (x, y) = coord_transform x y (range_x c) (range_y c) (transform_flags c)
   in \<lparr>tp_x = x, tp_y = y, tp_event = event, tp_id = id\<rparr>)"

definition cst_read_point :: "'s cst8xx \<Rightarrow> 's \<Rightarrow> (touch_point option, 's) cst_result" where
  "cst_read_point c s = andthen (cst_touch_count c s) (\<lambda>count s.
     if count = 0 then Some (Inr None, s)
     else andthen (cst_read_regs c creg_TOUCH_DATA (replicate 6 0) s) (\<lambda>raw s.
       Some (Inr (Some (cst_point c raw 0)), s)))"

definition cst_read_points :: "'s cst8xx \<Rightarrow> 's \<Rightarrow> (touch_point list \<times> nat, 's) cst_result" where
  "cst_read_points c s = andthen (cst_touch_count c s) (\<lambda>count s.
     if count = 0 then Some (Inr (replicate MAX_TOUCHES touch_point_default, 0), s)
     else (let n = min (unat count) MAX_TOUCHES; sz = n * 6 in
       andthen (cst_read_regs c creg_TOUCH_DATA (replicate sz 0) s) (\<lambda>part s.
         let raw = part @ replicate (MAX_TOUCHES * 6 - sz) 0;
             points = fold (\<lambda>i points. points[i := cst_point c raw (i * 6)]) [0..<n] (replicate MAX_TOUCHES touch_point_default)
         in Some (Inr (points, n), s))))"

definition cst_is_touched :: "'s cst8xx \<Rightarrow> 's \<Rightarrow> (bool, 's) cst_result" where
  "cst_is_touched c s = andthen (cst_touch_count c s) (\<lambda>n s. Some (Inr (0 < n), s))"

section \<open>Decoding\<close>

lemma point_cong:
  assumes "\<And>j. j < 4 \<Longrightarrow> raw ! (off + j) = raw' ! (off' + j)"
  shows "cst_point c raw off = cst_point c raw' off'"
  using assms [of 0] assms [of 1] assms [of 2] assms [of 3] by (simp add: cst_point_def)

lemma fold_points:
  "n \<le> k \<Longrightarrow> fold (\<lambda>i ps. ps[i := f i]) [0..<n] (replicate k d) = map (\<lambda>i. if i < n then f i else d) [0..<k]"
proof (induction n)
  case (Suc n)
  then show ?case by (auto intro!: nth_equalityI simp: nth_list_update)
qed (simp add: map_replicate_trivial)

text \<open>The registers of the point \<open>i\<close>.\<close>

definition point_regs :: "(u8 \<Rightarrow> u8) \<Rightarrow> nat \<Rightarrow> u8 list" where
  "point_regs regs i = map (\<lambda>j. regs (creg_TOUCH_DATA + word_of_nat (6 * i + j))) [0..<6]"

section \<open>The interface of the bus\<close>

text \<open>A bus with a device of registers: a read returns the registers from \<open>r\<close> on, and leaves the
  bus ready.\<close>

locale touch_bus =
  fixes c :: "'s cst8xx" and ready :: "'s \<Rightarrow> bool" and regs :: "u8 \<Rightarrow> u8"
  assumes reads: "ready s \<Longrightarrow> buf \<noteq> [] \<Longrightarrow> length buf < 2 ^ 32 \<Longrightarrow>
    \<exists>s'. ops_write_read (cst_twi c) CST_ADDR r buf s =
      Some ((Inr (word_of_nat (length buf)), Some (map (\<lambda>i. regs (r + word_of_nat i)) [0..<length buf])), s') \<and> ready s'"
begin

lemma read_regs_ok: "ready s \<Longrightarrow> buf \<noteq> [] \<Longrightarrow> length buf < 2 ^ 32 \<Longrightarrow>
    \<exists>s'. cst_read_regs c r buf s = Some (Inr (map (\<lambda>i. regs (r + word_of_nat i)) [0..<length buf]), s') \<and> ready s'"
  using reads [of s buf r] by (auto simp: cst_read_regs_def)

lemma read_reg_ok: "ready s \<Longrightarrow> \<exists>s'. cst_read_reg c r s = Some (Inr (regs r), s') \<and> ready s'"
  using reads [of s "[0]" r] by (auto simp: cst_read_reg_def)

lemma chip_type_ok: "ready s \<Longrightarrow> \<exists>s'. cst_chip_type c s = Some (Inr (u16_of (regs creg_CHIP_TYPE_HI) (regs creg_CHIP_TYPE_LO)), s') \<and> ready s'"
  using read_reg_ok [of s creg_CHIP_TYPE_HI] read_reg_ok [of _ creg_CHIP_TYPE_LO]
  by (fastforce simp: cst_chip_type_def andthen_def)

lemma read_point_ok:
  assumes "ready s"
  obtains s' where "cst_read_point c s = Some (Inr (if regs creg_TOUCH_NUM = 0 then None else Some (cst_point c (point_regs regs 0) 0)), s')"
    "ready s'"
proof -
  obtain s1 where s1: "cst_touch_count c s = Some (Inr (regs creg_TOUCH_NUM), s1)" "ready s1"
    using read_reg_ok [OF assms] by (auto simp: cst_touch_count_def)
  obtain s2 where s2: "cst_read_regs c creg_TOUCH_DATA (replicate 6 0) s1 =
      Some (Inr (map (\<lambda>i. regs (creg_TOUCH_DATA + word_of_nat i)) [0..<6]), s2)" "ready s2"
    using read_regs_ok [OF s1(2), of "replicate 6 0" creg_TOUCH_DATA] by auto
  show thesis
    by (rule that [of "if regs creg_TOUCH_NUM = 0 then s1 else s2"])
      (use s1 s2 in \<open>simp_all add: cst_read_point_def andthen_def point_regs_def\<close>)
qed

lemma read_points_ok:
  assumes "ready s"
  obtains s' where "cst_read_points c s = Some (Inr (map (\<lambda>i. if i < unat (regs creg_TOUCH_NUM) then cst_point c (point_regs regs i) 0
      else touch_point_default) [0..<5], min (unat (regs creg_TOUCH_NUM)) 5), s')" "ready s'"
proof -
  obtain s1 where s1: "cst_touch_count c s = Some (Inr (regs creg_TOUCH_NUM), s1)" "ready s1"
    using read_reg_ok [OF assms] by (auto simp: cst_touch_count_def)
  show thesis
  proof (cases "regs creg_TOUCH_NUM = 0")
    case True
    then show ?thesis using s1 by (intro that [of s1]) (simp_all add: cst_read_points_def andthen_def MAX_TOUCHES_def map_replicate_trivial)
  next
    case False
    define n where "n = min (unat (regs creg_TOUCH_NUM)) 5"
    have n: "0 < n" "n \<le> 5" using False by (simp_all add: n_def unat_gt_0)
    obtain s2 where s2: "cst_read_regs c creg_TOUCH_DATA (replicate (n * 6) 0) s1 =
        Some (Inr (map (\<lambda>i. regs (creg_TOUCH_DATA + word_of_nat i)) [0..<n * 6]), s2)" "ready s2"
      using read_regs_ok [OF s1(2), of "replicate (n * 6) 0" creg_TOUCH_DATA] n by auto
    let ?raw = "map (\<lambda>i. regs (creg_TOUCH_DATA + word_of_nat i)) [0..<n * 6] @ replicate (MAX_TOUCHES * 6 - n * 6) 0"
    have p: "cst_point c ?raw (i * 6) = cst_point c (point_regs regs i) 0" if "i < n" for i
      by (rule point_cong) (use that in \<open>simp add: nth_append point_regs_def mult.commute\<close>)
    have "map (\<lambda>i. if i < n then cst_point c ?raw (i * 6) else touch_point_default) [0..<5] =
        map (\<lambda>i. if i < unat (regs creg_TOUCH_NUM) then cst_point c (point_regs regs i) 0 else touch_point_default) [0..<5]"
      by (rule map_cong) (use p in \<open>auto simp: n_def\<close>)
    then show ?thesis using s1 s2 n False fold_points [of n 5 "\<lambda>i. cst_point c ?raw (i * 6)" touch_point_default]
      by (intro that [of s2]) (simp_all add: cst_read_points_def andthen_def MAX_TOUCHES_def n_def [symmetric] Let_def)
  qed
qed

end

section \<open>On the I2C bus\<close>

text \<open>The driver on the bus of \<open>i2c.rs\<close>, with the registers of the controller behind it.\<close>

definition touch_on :: "twi_bus \<Rightarrow> twi_handler \<Rightarrow> (access list \<Rightarrow> u32 \<Rightarrow> u32) \<Rightarrow> (u8 \<Rightarrow> u8) \<Rightarrow>
    (twi_state \<Rightarrow> twi_state option) \<Rightarrow> u16 \<Rightarrow> u16 \<Rightarrow> u8 \<Rightarrow> twi_state cst8xx" where
  "touch_on t h q regs run rx ry flags =
    \<lparr>cst_twi = twi_ops (bus_session (tw_base t) h q (register_bytes regs)) run t, range_x = rx, range_y = ry, transform_flags = flags\<rparr>"

lemma touch_on_bus:
  assumes "twi_channel_for_base (tw_base t) = Some h" "idle_bus (tw_base t) q"
  shows "touch_bus (touch_on t h q regs run rx ry flags) (bus_at_rest h q) regs"
proof
  fix s and buf :: "u8 list" and r assume s: "bus_at_rest h q s" "buf \<noteq> []" "length buf < 2 ^ 32"
  have "register_bytes regs [r] n = map (\<lambda>i. regs (r + word_of_nat i)) [0..<n]" for n by (simp add: register_bytes_def)
  then show "\<exists>s'. ops_write_read (cst_twi (touch_on t h q regs run rx ry flags)) CST_ADDR r buf s =
      Some ((Inr (word_of_nat (length buf)), Some (map (\<lambda>i. regs (r + word_of_nat i)) [0..<length buf])), s') \<and> bus_at_rest h q s'"
    using register_read_ends [where answer = "register_bytes regs", OF assms s, of r run CST_ADDR]
    by (auto simp: touch_on_def twi_ops_def)
qed

abbreviation bus_twi1 :: twi_bus where "bus_twi1 \<equiv> \<lparr>tw_base = TWI1_BASE, tw_gate = Twi1\<rparr>"

interpretation touch1: touch_bus "touch_on bus_twi1 Twi1_isr (quiet_bus TWI1_BASE) regs run rx ry flags"
  "bus_at_rest Twi1_isr (quiet_bus TWI1_BASE)" regs for regs run rx ry flags
  by (rule touch_on_bus) (simp_all add: twi1_channel quiet_idle)



end
