(* ===== verification/Spec2Isabelle.thy ===== *)
theory Spec2Isabelle
  imports Allocator_Props Demo_Props I2c_Safety Switching_Ops Switching_Props Uart_Props Soft_Spi_Props Spi_Flash_Props Lcd_Props Dram_Props Pwm_Duty Boot_Props Startup_Props Context_Props Cst8xx
begin

text \<open>
  Verification library of \<open>f1c100s_rs\<close>, the hardware abstraction layer, boot code and
  priority scheduler for the Allwinner F1C100s (an ARM926EJ-S) under \<open>src/\<close>.

  \<^bold>\<open>The program.\<close>  The boot ROM starts \<open>asm/startup.s\<close>, which calls \<open>low_level_init\<close> of
  \<open>cpu.rs\<close> (clocks, UART, DRAM), has \<open>sys_copyself\<close> load the image from the SPI flash and
  enters \<open>rust_main\<close> of the application.  That calls the drivers as it needs them, gives
  \<open>allocator.rs\<close> a heap and starts the threads of \<open>thread.rs\<close>; the system tick of \<open>timer.rs\<close>
  reaches \<open>sched_tick\<close> through the dispatch of \<open>interrupt.rs\<close>, and a preemption is carried out
  at the end of the IRQ wrapper.  Threads meet at the objects of \<open>ipc/\<close>.  The touch controller
  is read over I2C, whose transfers are driven by interrupts.

  \<^bold>\<open>How the code is modelled.\<close>  Machine integers are words and arithmetic wraps, as in the
  release profile of a 32-bit target.  A call that does not return (a panic, whose handler
  loops, or an endless loop) is \<open>None\<close>; a Rust \<open>Result\<close> is a sum with the error on the left.
  Driver code is over a trace of volatile accesses with the hardware as a function of the
  trace (\<open>Mmio\<close>), so nothing is assumed of a device until a property names it.  Loops that
  poll are \<open>partial_function (option)\<close>, loops with a counter carry the code's own bound (for
  example \<open>0x100000\<close> rounds in \<open>I2c\<close>), and the others are structural or have a measure.  No fuel
  is added to any loop.  Code that runs while a call is blocked (the rest of the system, the
  interrupts of a transfer, a compiled handler) is an argument, and the properties say what
  they need of it.

  \<^bold>\<open>Theories.\<close>
    \<^item> \<open>Prelude\<close>: words, bit fields, slices with their bounds checks; \<open>Memory\<close>: bytes and aligned
      words, the interface \<open>word_store\<close>; \<open>Mmio\<close>: the access trace, polls, the interface
      \<open>register_file\<close> of registers that keep what is written.
    \<^item> \<open>Cpu\<close>, \<open>Boot\<close>, \<open>Boot_Props\<close>: \<open>cpu.rs\<close>.  Interrupt masking, CP15, watchdog, the early UART,
      \<open>low_level_init\<close>, and \<open>sys_copyself\<close>, which is proved to load the image.
    \<^item> \<open>Startup\<close>, \<open>Startup_Props\<close>: \<open>asm/startup.s\<close> from reset to \<open>rust_main\<close> and the exception
      reports of the loader.
    \<^item> \<open>Context\<close>, \<open>Context_Props\<close>: \<open>asm/context.s\<close> and the exception wrappers of \<open>asm/startup.s\<close>
      over the register file, with banked registers; the frames of \<open>stack_init\<close>.  \<open>Switching\<close>,
      \<open>Switching_Props\<close>: scheduler, registers and stacks together, as a machine whose steps are
      the running code, thread creation, cooperative switches and interrupts;
      \<open>Switching_Ops\<close> shows that the calls and the tick of \<open>thread.rs\<close> are such steps.
    \<^item> \<open>Allocator\<close>, \<open>Allocator_Refine\<close>, \<open>Allocator_Props\<close>: \<open>allocator.rs\<close>.  The list in memory
      refines a tiling of the heap into free and used blocks; the interface \<open>block_heap\<close>.
    \<^item> \<open>Thread\<close>, \<open>Thread_Props\<close>, \<open>Thread_Claims\<close>: \<open>thread.rs\<close>.  The scheduler invariant is kept by
      every operation and holds in every state of the step relation \<open>kstep\<close>.
    \<^item> \<open>Ipc\<close>, \<open>Semaphore\<close>, \<open>Mutex\<close>, \<open>Event\<close>, \<open>MsgQueue\<close>, \<open>Signal\<close>: \<open>ipc/\<close>.  What blocking and waking
      do is the interface \<open>wait_pool\<close>; the objects have step relations over the calls, the
      resumptions and the timeouts of all threads, and the queue refines the interface \<open>fifo\<close>.
    \<^item> \<open>Clock\<close>, \<open>Gpio\<close>, \<open>Mmu\<close>, \<open>Interrupt\<close>, \<open>Timer\<close>, \<open>Uart\<close>, \<open>Uart_Props\<close>: the files of
      these names; the ports are an instance of \<open>linorder\<close>, the UART is checked against a 16550.
    \<^item> \<open>Spi\<close>, \<open>Spi_Props\<close>, \<open>Spi_Flash\<close>, \<open>Spi_Flash_Props\<close>, \<open>Soft_Spi\<close>, \<open>Soft_Spi_Props\<close>: \<open>spi.rs\<close>,
      \<open>spi_flash.rs\<close> and \<open>soft_spi.rs\<close>, against a slave with its shift register, a NOR flash
      chip, and a device that sees the edges of the clock pin.
    \<^item> \<open>I2c\<close>, \<open>I2c_Props\<close>, \<open>I2c_Session\<close>, \<open>I2c_Safety\<close>: \<open>i2c.rs\<close>.  One interrupt, then runs of
      interrupts, then whole transfers with a device that acknowledges; and a typing of the
      channels that holds with devices that do anything.  \<open>Touch\<close>, \<open>Cst8xx\<close>: \<open>touch.rs\<close> and \<open>cst8xx.rs\<close>,
      over the interface \<open>touch_bus\<close>, which the transfers of \<open>I2c_Session\<close> provide.
    \<^item> \<open>Lcd\<close>, \<open>Lcd_Props\<close>: \<open>lcd.rs\<close> and \<open>panels.rs\<close>; \<open>Dram\<close>, \<open>Dram_Props\<close>: \<open>dram.rs\<close>; \<open>Pwm\<close>, \<open>Pwm_Props\<close>,
      \<open>Pwm_Duty\<close>: \<open>pwm.rs\<close>, the duty as a single-precision number.
    \<^item> \<open>Demo\<close>, \<open>Demo_Props\<close>: \<open>docs/examples/mt_demo.rs\<close>, the start of an application over the models
      of the MMU, the interrupt controller, the scheduler and the event flags.

  \<^bold>\<open>What is shown.\<close>  For the allocator, the scheduler and the IPC objects: invariants of every
  reachable state, the abstract object each refines, and safety over all interleavings
  (disjoint blocks, mutual exclusion, no token from nowhere, messages in order).  For the
  context switch: a thread finds its registers again after any run of the others, and the
  CPSR words of the scheduler model are those of the processor.  For the drivers: what the
  device has seen and what is returned after whole transfers, on every length; the
  registers after the configurations; that loops end, with the exceptions; and the error
  results.  Properties that state a defect of the code say so in their text.

  \<^bold>\<open>Interfaces.\<close>  Each locale is interpreted on the model: \<open>word_store\<close> as \<open>mem\<close>, \<open>register_file\<close>
  as \<open>regs\<close>, \<open>block_heap\<close> as \<open>heap\<close>, \<open>wait_pool\<close> as \<open>pool\<close>, \<open>fifo\<close> as \<open>ring\<close>, \<open>touch_bus\<close> as \<open>touch1\<close>.

  \<^bold>\<open>Not modelled.\<close>  The module lists \<open>lib.rs\<close> and \<open>ipc/mod.rs\<close>; the sensor and display threads of
  \<open>mt_demo.rs\<close>, which do not compile; \<open>build.rs\<close> and \<open>link.lds\<close>, whose addresses are arguments
  of \<open>Startup\<close> and \<open>Boot\<close>.  Caches and write buffers
  have no effect on the memory of the model, time passes only as a device counts it, and
  the stack use of the compiled code is not bounded.
\<close>

end
